(* ===== verification/Prelude.thy ===== *)
theory Prelude
  imports Main "HOL-Library.Monad_Syntax"
begin

text \<open>
  Shared vocabulary of the development: Rust's three-way \<open>Ordering\<close>, the checked and
  saturating machine-integer operations the sources call, the string functions of the Rust
  standard library they use, and the interface of the third-party decimal type.

  Text.  A Rust \<open>char\<close> is a Unicode scalar value; HOL's \<^typ>\<open>char\<close> has 256 values, read here
  as U+0000 to U+00FF.  The case mappings and character classes below are the Unicode ones on
  that range.  The upper-case forms of U+00B5 and U+00FF lie outside the range and those two
  characters are left alone; every other character is mapped exactly.
\<close>

named_theorems rt_simps \<open>unfolding rules of the small operations shared by the components\<close>
named_theorems rt_splits \<open>case splits on the model's error and option types\<close>

declare option.splits [rt_splits] sum.splits [rt_splits]


section \<open>Three-way comparison\<close>

text \<open>\<^verbatim>\<open>std::cmp::Ordering\<close> with the predicates and the reversal the sources use.\<close>

datatype ordering = Less | Equal | Greater

definition is_lt :: "ordering \<Rightarrow> bool" where "is_lt o1 \<longleftrightarrow> o1 = Less"
definition is_le :: "ordering \<Rightarrow> bool" where "is_le o1 \<longleftrightarrow> o1 \<noteq> Greater"
definition is_gt :: "ordering \<Rightarrow> bool" where "is_gt o1 \<longleftrightarrow> o1 = Greater"
definition is_ge :: "ordering \<Rightarrow> bool" where "is_ge o1 \<longleftrightarrow> o1 \<noteq> Less"

lemmas ordering_tests [simp] = is_lt_def is_le_def is_gt_def is_ge_def

fun rev_ordering :: "ordering \<Rightarrow> ordering" where
  "rev_ordering Less = Greater"
| "rev_ordering Equal = Equal"
| "rev_ordering Greater = Less"

lemma rev_rev_ordering [simp]: "rev_ordering (rev_ordering x) = x"
  by (cases x) auto

lemma rev_ordering_eq [simp]:
  "rev_ordering x = Less \<longleftrightarrow> x = Greater"
  "rev_ordering x = Equal \<longleftrightarrow> x = Equal"
  "rev_ordering x = Greater \<longleftrightarrow> x = Less"
  by (cases x; simp)+

text \<open>\<open>Ord::cmp\<close> on a type with a linear order.\<close>

definition lcmp :: "'a::linorder \<Rightarrow> 'a \<Rightarrow> ordering" where
  "lcmp a b = (if a < b then Less else if a = b then Equal else Greater)"

lemma lcmp_simps [simp]:
  "lcmp a b = Less \<longleftrightarrow> a < b"
  "lcmp a b = Equal \<longleftrightarrow> a = b"
  "lcmp a b = Greater \<longleftrightarrow> b < a"
  "lcmp a a = Equal"
  by (auto simp: lcmp_def)

lemma lcmp_decided [simp]: "a < b \<Longrightarrow> lcmp a b = Less" "b < a \<Longrightarrow> lcmp a b = Greater"
  by (auto simp: lcmp_def)

lemma lcmp_swap: "lcmp b a = rev_ordering (lcmp a b)"
  by (auto simp: lcmp_def)

text \<open>\<open>Ordering::then\<close>: the second comparison decides a tie.\<close>

fun then_cmp :: "ordering \<Rightarrow> ordering \<Rightarrow> ordering" where
  "then_cmp Equal y = y"
| "then_cmp x y = x"

lemma then_cmp_simps [simp]:
  "then_cmp x y = Equal \<longleftrightarrow> x = Equal \<and> y = Equal"
  "then_cmp x y = Less \<longleftrightarrow> x = Less \<or> x = Equal \<and> y = Less"
  "then_cmp x y = Greater \<longleftrightarrow> x = Greater \<or> x = Equal \<and> y = Greater"
  by (cases x; simp)+

lemma then_cmp_assoc [simp]: "then_cmp (then_cmp x y) z = then_cmp x (then_cmp y z)"
  by (cases x) auto

lemma then_cmp_Equal [simp]: "then_cmp x Equal = x"
  by (cases x) auto

lemma rev_then_cmp [simp]: "rev_ordering (then_cmp x y) = then_cmp (rev_ordering x) (rev_ordering y)"
  by (cases x) auto

text \<open>The lexicographic order of \<open>Vec<T>\<close> and \<open>str\<close> over an element comparison.\<close>

fun list_cmp :: "('a \<Rightarrow> 'a \<Rightarrow> ordering) \<Rightarrow> 'a list \<Rightarrow> 'a list \<Rightarrow> ordering" where
  "list_cmp c [] [] = Equal"
| "list_cmp c [] (y # ys) = Less"
| "list_cmp c (x # xs) [] = Greater"
| "list_cmp c (x # xs) (y # ys) = then_cmp (c x y) (list_cmp c xs ys)"

lemma list_cmp_refl: "(\<And>x. x \<in> set xs \<Longrightarrow> c x x = Equal) \<Longrightarrow> list_cmp c xs xs = Equal"
  by (induction xs) auto

lemma list_cmp_swap:
  "(\<And>x y. x \<in> set xs \<Longrightarrow> y \<in> set ys \<Longrightarrow> c y x = rev_ordering (c x y)) \<Longrightarrow>
   list_cmp c ys xs = rev_ordering (list_cmp c xs ys)"
  by (induction c xs ys rule: list_cmp.induct) auto

lemma list_cmp_length: "list_cmp c xs ys = Equal \<Longrightarrow> length xs = length ys"
  by (induction c xs ys rule: list_cmp.induct) auto

lemma list_cmp_cong [fundef_cong]:
  "xs = xs' \<Longrightarrow> ys = ys' \<Longrightarrow>
   (\<And>x y. x \<in> set xs' \<Longrightarrow> y \<in> set ys' \<Longrightarrow> c x y = c' x y) \<Longrightarrow>
   list_cmp c xs ys = list_cmp c' xs' ys'"
proof (induction c' xs' ys' arbitrary: xs ys rule: list_cmp.induct)
  case (4 c' x' xs' y' ys')
  then show ?case by auto
qed auto


section \<open>Machine integers\<close>

text \<open>
  The carriers of AL values are \<open>i64\<close>; the code does its arithmetic on them with the
  \<open>checked_*\<close> operations, which return \<^const>\<open>None\<close> outside the range.
\<close>

definition i64_min :: int where "i64_min = - (2 ^ 63)"
definition i64_max :: int where "i64_max = 2 ^ 63 - 1"
definition i32_min :: int where "i32_min = - (2 ^ 31)"
definition i32_max :: int where "i32_max = 2 ^ 31 - 1"

definition in_i64 :: "int \<Rightarrow> bool" where "in_i64 n \<longleftrightarrow> i64_min \<le> n \<and> n \<le> i64_max"
definition in_i32 :: "int \<Rightarrow> bool" where "in_i32 n \<longleftrightarrow> i32_min \<le> n \<and> n \<le> i32_max"

lemmas int_range_defs [rt_simps] =
  in_i64_def in_i32_def i64_min_def i64_max_def i32_min_def i32_max_def

lemma in_i32_in_i64: "in_i32 n \<Longrightarrow> in_i64 n"
  by (simp add: int_range_defs)

definition checked_i64 :: "int \<Rightarrow> int option" where
  "checked_i64 n = (if in_i64 n then Some n else None)"

definition checked_add :: "int \<Rightarrow> int \<Rightarrow> int option" where "checked_add a b = checked_i64 (a + b)"
definition checked_sub :: "int \<Rightarrow> int \<Rightarrow> int option" where "checked_sub a b = checked_i64 (a - b)"
definition checked_mul :: "int \<Rightarrow> int \<Rightarrow> int option" where "checked_mul a b = checked_i64 (a * b)"
definition checked_neg :: "int \<Rightarrow> int option" where "checked_neg a = checked_i64 (- a)"
definition checked_abs :: "int \<Rightarrow> int option" where "checked_abs a = checked_i64 \<bar>a\<bar>"

text \<open>Rust's \<open>/\<close> and \<open>%\<close> truncate towards zero.\<close>

definition tdiv :: "int \<Rightarrow> int \<Rightarrow> int" where
  "tdiv a b = sgn a * sgn b * (\<bar>a\<bar> div \<bar>b\<bar>)"

definition trem :: "int \<Rightarrow> int \<Rightarrow> int" where
  "trem a b = a - b * tdiv a b"

definition checked_div :: "int \<Rightarrow> int \<Rightarrow> int option" where
  "checked_div a b = (if b = 0 then None else checked_i64 (tdiv a b))"

text \<open>\<open>checked_rem\<close> is \<^const>\<open>None\<close> exactly where \<open>checked_div\<close> is.\<close>

definition checked_rem :: "int \<Rightarrow> int \<Rightarrow> int option" where
  "checked_rem a b = (if b = 0 \<or> \<not> in_i64 (tdiv a b) then None else Some (trem a b))"

lemmas checked_defs [rt_simps] =
  checked_i64_def checked_add_def checked_sub_def checked_mul_def checked_neg_def
  checked_abs_def checked_div_def checked_rem_def

lemma tdiv_nonneg: "0 \<le> a \<Longrightarrow> 0 < b \<Longrightarrow> tdiv a b = a div b"
  by (cases "a = 0") (auto simp: tdiv_def sgn_if)

lemma tdiv_trem: "b * tdiv a b + trem a b = a"
  by (simp add: trem_def)

lemma trem_abs: "trem a b = sgn a * (\<bar>a\<bar> mod \<bar>b\<bar>)"
proof -
  have "b * (sgn a * sgn b * (\<bar>a\<bar> div \<bar>b\<bar>)) = sgn a * (\<bar>b\<bar> * (\<bar>a\<bar> div \<bar>b\<bar>))"
    by (simp add: abs_sgn algebra_simps)
  moreover have "a = sgn a * \<bar>a\<bar>" by (simp add: mult_sgn_abs)
  ultimately show ?thesis
    unfolding trem_def tdiv_def
    by (metis minus_mult_div_eq_mod right_diff_distrib')
qed

lemma trem_bound: "b \<noteq> 0 \<Longrightarrow> \<bar>trem a b\<bar> < \<bar>b\<bar>"
  by (auto simp: trem_abs abs_mult sgn_if)

lemma trem_sign: "b \<noteq> 0 \<Longrightarrow> trem a b = 0 \<or> sgn (trem a b) = sgn a"
proof -
  assume "b \<noteq> 0"
  then have "0 \<le> \<bar>a\<bar> mod \<bar>b\<bar>" by simp
  then have "\<bar>a\<bar> mod \<bar>b\<bar> = 0 \<or> sgn (\<bar>a\<bar> mod \<bar>b\<bar>) = 1"
    by (auto simp: sgn_if simp del: mod_0_imp_dvd)
  then show ?thesis by (auto simp: trem_abs sgn_mult)
qed

text \<open>\<open>usize\<close> arithmetic: 64 bits, saturating where the source says so.\<close>

definition usize_max :: nat where "usize_max = 2 ^ 64 - 1"

definition saturating_add :: "nat \<Rightarrow> nat \<Rightarrow> nat" where
  "saturating_add a b = min usize_max (a + b)"

text \<open>Subtraction on \<^typ>\<open>nat\<close> is \<open>saturating_sub\<close>.  The cast \<open>n as usize\<close> of an \<open>i64\<close> wraps.\<close>

definition as_usize :: "int \<Rightarrow> nat" where
  "as_usize n = nat (n mod 2 ^ 64)"

lemma as_usize_nonneg: "0 \<le> n \<Longrightarrow> in_i64 n \<Longrightarrow> as_usize n = nat n"
  by (simp add: as_usize_def int_range_defs)

lemma as_usize_neg: "n < 0 \<Longrightarrow> in_i64 n \<Longrightarrow> 2 ^ 63 \<le> as_usize n"
proof -
  assume "n < 0" and "in_i64 n"
  then have "(n + 2 ^ 64) mod 2 ^ 64 = n + 2 ^ 64"
    by (intro mod_pos_pos_trivial) (simp_all add: int_range_defs)
  then have "n mod 2 ^ 64 = n + 2 ^ 64" by simp
  then show ?thesis using \<open>in_i64 n\<close> by (simp add: as_usize_def int_range_defs le_nat_iff)
qed


section \<open>Results\<close>

text \<open>\<open>Result<T, E>\<close> is \<^typ>\<open>'e + 'a\<close>, \<^const>\<open>Inl\<close> the error.\<close>

abbreviation Err :: "'e \<Rightarrow> 'e + 'a" where "Err \<equiv> Inl"
abbreviation Ok :: "'a \<Rightarrow> 'e + 'a" where "Ok \<equiv> Inr"

definition ok_or :: "'a option \<Rightarrow> 'e \<Rightarrow> 'e + 'a" where
  "ok_or x e = (case x of None \<Rightarrow> Err e | Some v \<Rightarrow> Ok v)"

definition bind_res :: "'e + 'a \<Rightarrow> ('a \<Rightarrow> 'e + 'b) \<Rightarrow> 'e + 'b" where
  "bind_res r f = (case r of Inl e \<Rightarrow> Inl e | Inr v \<Rightarrow> f v)"

lemma bind_res_simps [simp]: "bind_res (Inl e) f = Inl e" "bind_res (Inr v) f = f v"
  by (simp_all add: bind_res_def)

lemma bind_res_cong [fundef_cong]:
  "r = r' \<Longrightarrow> (\<And>v. r' = Inr v \<Longrightarrow> f v = f' v) \<Longrightarrow> bind_res r f = bind_res r' f'"
  by (auto simp: bind_res_def split: sum.splits)

text \<open>\<open>iter().map(f).collect::<Result<Vec<_>, _>>()\<close>: the first error wins.\<close>

fun collect_res :: "('e + 'a) list \<Rightarrow> 'e + 'a list" where
  "collect_res [] = Ok []"
| "collect_res (r # rs) = bind_res r (\<lambda>v. bind_res (collect_res rs) (\<lambda>vs. Ok (v # vs)))"

lemma collect_res_Inr: "collect_res rs = Inr vs \<longleftrightarrow> rs = map Inr vs"
proof (induction rs arbitrary: vs)
  case Nil
  then show ?case by auto
next
  case (Cons r rs)
  show ?case
  proof (cases r)
    case (Inr v)
    then show ?thesis
      by (cases "collect_res rs") (auto simp: Cons_eq_map_conv Cons.IH [symmetric])
  qed auto
qed

lemma sum_eq_case: "(case r of Inl e \<Rightarrow> f e | Inr v \<Rightarrow> g v) = y \<longleftrightarrow>
   (\<exists>e. r = Inl e \<and> f e = y) \<or> (\<exists>v. r = Inr v \<and> g v = y)"
  by (cases r) auto

end
