(* ===== verification/Strings.thy ===== *)
theory Strings
  imports Prelude
begin

text \<open>
  The functions on \<open>char\<close> and \<open>str\<close> of the Rust standard library that the modelled code
  calls, on the characters U+0000 to U+00FF (see \<^verbatim>\<open>Prelude\<close>), and the decimal notation of
  integers: \<open>i64::to_string\<close> and \<open>str::parse::<i64>\<close> with the round trip between them.
\<close>

section \<open>Characters\<close>

abbreviation code_of :: "char \<Rightarrow> nat" where "code_of c \<equiv> of_char c"

text \<open>\<open>char::len_utf8\<close>.\<close>

definition len_utf8 :: "char \<Rightarrow> nat" where
  "len_utf8 c = (if code_of c < 128 then 1 else 2)"

definition str_len :: "string \<Rightarrow> nat" where
  "str_len s = sum_list (map len_utf8 s)"

definition is_ascii_digit :: "char \<Rightarrow> bool" where
  "is_ascii_digit c \<longleftrightarrow> 48 \<le> code_of c \<and> code_of c \<le> 57"

definition ascii_lower_char :: "char \<Rightarrow> char" where
  "ascii_lower_char c = (if 65 \<le> code_of c \<and> code_of c \<le> 90 then char_of (code_of c + 32) else c)"

definition ascii_upper_char :: "char \<Rightarrow> char" where
  "ascii_upper_char c = (if 97 \<le> code_of c \<and> code_of c \<le> 122 then char_of (code_of c - 32) else c)"

text \<open>Unicode lower case: A-Z and U+00C0 to U+00DE without the multiplication sign.\<close>

definition lower_char :: "char \<Rightarrow> char" where
  "lower_char c =
     (if 65 \<le> code_of c \<and> code_of c \<le> 90 \<or>
         192 \<le> code_of c \<and> code_of c \<le> 222 \<and> code_of c \<noteq> 215
      then char_of (code_of c + 32) else c)"

text \<open>Unicode upper case: sharp s becomes two characters.\<close>

definition upper_char :: "char \<Rightarrow> string" where
  "upper_char c =
     (if 97 \<le> code_of c \<and> code_of c \<le> 122 \<or>
         224 \<le> code_of c \<and> code_of c \<le> 254 \<and> code_of c \<noteq> 247
      then [char_of (code_of c - 32)]
      else if code_of c = 223 then ''SS'' else [c])"

text \<open>\<open>char::is_whitespace\<close>, \<open>char::is_ascii_whitespace\<close> and \<open>char::is_alphanumeric\<close>.\<close>

definition is_whitespace :: "char \<Rightarrow> bool" where
  "is_whitespace c \<longleftrightarrow> 9 \<le> code_of c \<and> code_of c \<le> 13 \<or> code_of c \<in> {32, 133, 160}"

definition is_ascii_whitespace :: "char \<Rightarrow> bool" where
  "is_ascii_whitespace c \<longleftrightarrow> code_of c \<in> {9, 10, 12, 13, 32}"

definition is_alphanumeric :: "char \<Rightarrow> bool" where
  "is_alphanumeric c \<longleftrightarrow>
     48 \<le> code_of c \<and> code_of c \<le> 57 \<or> 65 \<le> code_of c \<and> code_of c \<le> 90 \<or>
     97 \<le> code_of c \<and> code_of c \<le> 122 \<or>
     code_of c \<in> {170, 178, 179, 181, 185, 186, 188, 189, 190} \<or>
     192 \<le> code_of c \<and> code_of c \<noteq> 215 \<and> code_of c \<noteq> 247"


section \<open>Strings\<close>

definition to_ascii_lowercase :: "string \<Rightarrow> string" where
  "to_ascii_lowercase s = map ascii_lower_char s"

definition to_ascii_uppercase :: "string \<Rightarrow> string" where
  "to_ascii_uppercase s = map ascii_upper_char s"

definition to_lowercase :: "string \<Rightarrow> string" where
  "to_lowercase s = map lower_char s"

definition to_uppercase :: "string \<Rightarrow> string" where
  "to_uppercase s = concat (map upper_char s)"

definition eq_ignore_ascii_case :: "string \<Rightarrow> string \<Rightarrow> bool" where
  "eq_ignore_ascii_case a b \<longleftrightarrow> to_ascii_lowercase a = to_ascii_lowercase b"

definition trim_start :: "string \<Rightarrow> string" where
  "trim_start s = dropWhile is_whitespace s"

definition trim_end :: "string \<Rightarrow> string" where
  "trim_end s = rev (dropWhile is_whitespace (rev s))"

definition trim :: "string \<Rightarrow> string" where
  "trim s = trim_end (trim_start s)"

fun starts_with :: "string \<Rightarrow> string \<Rightarrow> bool" where
  "starts_with s [] = True"
| "starts_with [] (p # ps) = False"
| "starts_with (c # cs) (p # ps) = (c = p \<and> starts_with cs ps)"

text \<open>\<open>str::cmp\<close>: the order of the UTF-8 bytes is the order of the code points.\<close>

definition char_cmp :: "char \<Rightarrow> char \<Rightarrow> ordering" where
  "char_cmp a b = lcmp (code_of a) (code_of b)"

definition str_cmp :: "string \<Rightarrow> string \<Rightarrow> ordering" where
  "str_cmp = list_cmp char_cmp"

definition bool_cmp :: "bool \<Rightarrow> bool \<Rightarrow> ordering" where
  "bool_cmp a b = lcmp a b"

text \<open>\<open>Option<T>\<close> orders \<^const>\<open>None\<close> before every \<^const>\<open>Some\<close>.\<close>

fun option_cmp :: "('a \<Rightarrow> 'a \<Rightarrow> ordering) \<Rightarrow> 'a option \<Rightarrow> 'a option \<Rightarrow> ordering" where
  "option_cmp c None None = Equal"
| "option_cmp c None (Some y) = Less"
| "option_cmp c (Some x) None = Greater"
| "option_cmp c (Some x) (Some y) = c x y"


subsection \<open>Case folding\<close>

lemma code_of_inj [simp]: "code_of a = code_of b \<longleftrightarrow> a = b"
  by simp

lemma code_of_lt: "code_of c < 256"
  by simp

lemma code_of_char_of: "n < 256 \<Longrightarrow> code_of (char_of n) = n"
  by simp

lemma ascii_lower_idem [simp]: "ascii_lower_char (ascii_lower_char c) = ascii_lower_char c"
  by (auto simp: ascii_lower_char_def)

lemma ascii_upper_idem [simp]: "ascii_upper_char (ascii_upper_char c) = ascii_upper_char c"
  by (auto simp: ascii_upper_char_def)

lemma ascii_lower_upper: "ascii_lower_char (ascii_upper_char c) = ascii_lower_char c"
  by (auto simp: ascii_upper_char_def ascii_lower_char_def)

lemma ascii_upper_lower: "ascii_upper_char (ascii_lower_char c) = ascii_upper_char c"
  by (auto simp: ascii_upper_char_def ascii_lower_char_def)

lemma lower_idem [simp]: "lower_char (lower_char c) = lower_char c"
  by (auto simp: lower_char_def)

lemma to_lowercase_idem [simp]: "to_lowercase (to_lowercase s) = to_lowercase s"
  by (simp add: to_lowercase_def comp_def)

lemma to_uppercase_simps [simp]:
  "to_uppercase [] = []"
  "to_uppercase (c # s) = upper_char c @ to_uppercase s"
  by (simp_all add: to_uppercase_def)

lemma to_uppercase_append [simp]: "to_uppercase (a @ b) = to_uppercase a @ to_uppercase b"
  by (simp add: to_uppercase_def)

lemma upper_upper_char: "to_uppercase (upper_char c) = upper_char c"
  by (auto simp: upper_char_def)

lemma to_uppercase_idem [simp]: "to_uppercase (to_uppercase s) = to_uppercase s"
  by (induction s) (simp_all add: upper_upper_char)

lemma to_ascii_uppercase_idem [simp]: "to_ascii_uppercase (to_ascii_uppercase s) = to_ascii_uppercase s"
  by (simp add: to_ascii_uppercase_def comp_def)

lemma eq_ignore_ascii_case_upper:
  "eq_ignore_ascii_case a b \<longleftrightarrow> to_ascii_uppercase a = to_ascii_uppercase b"
proof -
  have "to_ascii_uppercase s = to_ascii_uppercase (to_ascii_lowercase s)"
    and "to_ascii_lowercase s = to_ascii_lowercase (to_ascii_uppercase s)" for s
    by (simp_all add: to_ascii_uppercase_def to_ascii_lowercase_def comp_def
          ascii_upper_lower ascii_lower_upper)
  then show ?thesis unfolding eq_ignore_ascii_case_def by metis
qed


subsection \<open>Comparison\<close>

lemma list_cmp_Equal_iff:
  "(\<And>a b. c a b = Equal \<longleftrightarrow> a = b) \<Longrightarrow> list_cmp c xs ys = Equal \<longleftrightarrow> xs = ys"
proof (induction xs arbitrary: ys)
  case Nil
  then show ?case by (cases ys) auto
next
  case (Cons x xs)
  then show ?case by (cases ys) auto
qed

lemma str_cmp_Equal [simp]: "str_cmp a b = Equal \<longleftrightarrow> a = b"
  unfolding str_cmp_def by (rule list_cmp_Equal_iff) (simp add: char_cmp_def)

lemma str_cmp_swap: "str_cmp b a = rev_ordering (str_cmp a b)"
  unfolding str_cmp_def by (rule list_cmp_swap) (unfold char_cmp_def, rule lcmp_swap)


section \<open>Decimal notation of integers\<close>

definition digit_char :: "nat \<Rightarrow> char" where
  "digit_char d = char_of (48 + d)"

definition digit_val :: "char \<Rightarrow> nat" where
  "digit_val c = code_of c - 48"

fun show_nat :: "nat \<Rightarrow> string" where
  "show_nat n = (if n < 10 then [digit_char n] else show_nat (n div 10) @ [digit_char (n mod 10)])"

declare show_nat.simps [simp del]

text \<open>\<open>i64::to_string\<close>.\<close>

definition show_int :: "int \<Rightarrow> string" where
  "show_int n = (if n < 0 then CHR ''-'' # show_nat (nat (- n)) else show_nat (nat n))"

definition digits_val :: "string \<Rightarrow> nat" where
  "digits_val s = foldl (\<lambda>acc c. acc * 10 + digit_val c) 0 s"

text \<open>
  \<open>str::parse::<i64>()\<close>: an optional sign, at least one digit, nothing else, and a value in
  range.
\<close>

definition parse_i64 :: "string \<Rightarrow> int option" where
  "parse_i64 s =
     (case s of
        [] \<Rightarrow> None
      | c # cs \<Rightarrow>
          let (neg, ds) = (if c = CHR ''-'' then (True, cs)
                           else if c = CHR ''+'' then (False, cs) else (False, s))
          in if ds = [] \<or> \<not> list_all is_ascii_digit ds then None
             else checked_i64 (if neg then - int (digits_val ds) else int (digits_val ds)))"

lemma digit_char_digit [simp]: "d < 10 \<Longrightarrow> is_ascii_digit (digit_char d)"
  by (simp add: digit_char_def is_ascii_digit_def)

lemma digit_val_char [simp]: "d < 10 \<Longrightarrow> digit_val (digit_char d) = d"
  by (simp add: digit_char_def digit_val_def)

lemma show_nat_nonempty [simp]: "show_nat n \<noteq> []"
  by (subst show_nat.simps) simp

lemma show_nat_digits: "list_all is_ascii_digit (show_nat n)"
proof (induction n rule: show_nat.induct)
  case (1 n)
  then show ?case by (subst show_nat.simps) simp
qed

lemma digits_val_snoc: "digits_val (s @ [c]) = digits_val s * 10 + digit_val c"
  by (simp add: digits_val_def)

lemma digits_val_show_nat [simp]: "digits_val (show_nat n) = n"
proof (induction n rule: show_nat.induct)
  case (1 n)
  then show ?case
    by (subst show_nat.simps) (auto simp: digits_val_snoc, simp add: digits_val_def)
qed

lemma not_digit [simp]: "\<not> is_ascii_digit CHR ''-''" "\<not> is_ascii_digit CHR ''+''"
  by (simp_all add: is_ascii_digit_def)

theorem parse_show_i64: "in_i64 n \<Longrightarrow> parse_i64 (show_int n) = Some n"
proof (cases "n < 0")
  case True
  then show "in_i64 n \<Longrightarrow> ?thesis"
    by (simp add: show_int_def parse_i64_def show_nat_digits checked_i64_def)
next
  case False
  obtain c cs where s: "show_nat (nat n) = c # cs"
    by (metis show_nat_nonempty neq_Nil_conv)
  have "is_ascii_digit c" using show_nat_digits [of "nat n"] by (simp add: s)
  then have "c \<noteq> CHR ''-''" "c \<noteq> CHR ''+''" by auto
  then show "in_i64 n \<Longrightarrow> ?thesis"
    using False show_nat_digits [of "nat n"] digits_val_show_nat [of "nat n"]
    by (simp add: show_int_def parse_i64_def s checked_i64_def)
qed

lemma parse_i64_range: "parse_i64 s = Some n \<Longrightarrow> in_i64 n"
  by (auto simp: parse_i64_def checked_i64_def Let_def split: list.splits prod.splits if_splits)

lemma trim_id: "s \<noteq> [] \<Longrightarrow> \<not> is_whitespace (hd s) \<Longrightarrow> \<not> is_whitespace (last s) \<Longrightarrow> trim s = s"
proof -
  assume s: "s \<noteq> []" "\<not> is_whitespace (hd s)" "\<not> is_whitespace (last s)"
  have drop: "dropWhile is_whitespace u = u" if "u \<noteq> []" "\<not> is_whitespace (hd u)" for u
    using that by (cases u) auto
  show ?thesis using s drop [of s] drop [of "rev s"]
    by (simp add: trim_def trim_start_def trim_end_def hd_rev)
qed


end
