(* ===== verification/Ordered_Map.thy ===== *)
theory Ordered_Map
  imports Strings
begin

text \<open>
  \<open>BTreeMap\<close> as the code sees it: the entries in key order, with \<open>get\<close>, \<open>insert\<close> and \<open>remove\<close>
  by a three-way key comparison.  Two keys that compare \<^const>\<open>Equal\<close> are one key even when they
  differ as data, and \<open>insert\<close> then keeps the key already stored.  The laws a client may use are
  proved once in the locale \<^verbatim>\<open>key_order\<close>, for any comparison that is a total preorder on the
  keys in use; every map of the development interprets it.
\<close>

type_synonym ('k, 'v) btree = "('k \<times> 'v) list"

fun bt_get :: "('k \<Rightarrow> 'k \<Rightarrow> ordering) \<Rightarrow> ('k, 'v) btree \<Rightarrow> 'k \<Rightarrow> 'v option" where
  "bt_get c [] k = None"
| "bt_get c ((a, v) # m) k =
     (case c k a of Less \<Rightarrow> None | Equal \<Rightarrow> Some v | Greater \<Rightarrow> bt_get c m k)"

fun bt_insert :: "('k \<Rightarrow> 'k \<Rightarrow> ordering) \<Rightarrow> 'k \<Rightarrow> 'v \<Rightarrow> ('k, 'v) btree \<Rightarrow> ('k, 'v) btree" where
  "bt_insert c k v [] = [(k, v)]"
| "bt_insert c k v ((a, b) # m) =
     (case c k a of
        Less \<Rightarrow> (k, v) # (a, b) # m
      | Equal \<Rightarrow> (a, v) # m
      | Greater \<Rightarrow> (a, b) # bt_insert c k v m)"

fun bt_remove :: "('k \<Rightarrow> 'k \<Rightarrow> ordering) \<Rightarrow> 'k \<Rightarrow> ('k, 'v) btree \<Rightarrow> ('k, 'v) btree" where
  "bt_remove c k [] = []"
| "bt_remove c k ((a, b) # m) =
     (case c k a of Less \<Rightarrow> (a, b) # m | Equal \<Rightarrow> m | Greater \<Rightarrow> (a, b) # bt_remove c k m)"

definition bt_contains :: "('k \<Rightarrow> 'k \<Rightarrow> ordering) \<Rightarrow> ('k, 'v) btree \<Rightarrow> 'k \<Rightarrow> bool" where
  "bt_contains c m k \<longleftrightarrow> bt_get c m k \<noteq> None"

text \<open>The data-structure invariant: keys of \<open>K\<close>, strictly increasing.\<close>

definition bt_sorted :: "('k \<Rightarrow> 'k \<Rightarrow> ordering) \<Rightarrow> ('k, 'v) btree \<Rightarrow> bool" where
  "bt_sorted c m \<longleftrightarrow> sorted_wrt (\<lambda>x y. c x y = Less) (map fst m)"

definition bt_ok :: "('k \<Rightarrow> 'k \<Rightarrow> ordering) \<Rightarrow> 'k set \<Rightarrow> ('k, 'v) btree \<Rightarrow> bool" where
  "bt_ok c K m \<longleftrightarrow> bt_sorted c m \<and> fst ` set m \<subseteq> K"

lemma bt_ok_Nil [simp]: "bt_ok c K []"
  by (simp add: bt_ok_def bt_sorted_def)

lemma bt_ok_Cons:
  "bt_ok c K ((a, v) # m) \<longleftrightarrow>
   a \<in> K \<and> (\<forall>b \<in> fst ` set m. c a b = Less) \<and> bt_ok c K m"
  by (auto simp: bt_ok_def bt_sorted_def)

lemma bt_ok_tail: "bt_ok c K (x # m) \<Longrightarrow> bt_ok c K m"
  by (cases x) (simp add: bt_ok_Cons)

lemma bt_ok_filter: "bt_ok c K m \<Longrightarrow> bt_ok c K (filter P m)"
  by (induction m) (auto simp: bt_ok_Cons)

lemma bt_ok_map_values: "bt_ok c K (map (\<lambda>(k, v). (k, f k v)) m) \<longleftrightarrow> bt_ok c K m"
proof -
  have "map fst (map (\<lambda>(k, v). (k, f k v)) m) = map fst m" by (induction m) auto
  then show ?thesis unfolding bt_ok_def bt_sorted_def by (metis list.set_map)
qed

lemma set_bt_remove: "set (bt_remove c k m) \<subseteq> set m"
  by (induction m) (auto split: ordering.splits)

lemma fst_bt_insert: "fst ` set (bt_insert c k v m) \<subseteq> insert k (fst ` set m)"
proof (induction m)
  case (Cons x m)
  then show ?case by (cases x; cases "c k (fst x)") auto
qed simp

lemma fst_bt_remove: "fst ` set (bt_remove c k m) \<subseteq> fst ` set m"
  using set_bt_remove by (rule image_mono)


section \<open>The contract of a key comparison\<close>

locale key_order =
  fixes c :: "'k \<Rightarrow> 'k \<Rightarrow> ordering" and K :: "'k set"
  assumes cmp_refl: "x \<in> K \<Longrightarrow> c x x = Equal"
    and cmp_swap: "x \<in> K \<Longrightarrow> y \<in> K \<Longrightarrow> c y x = rev_ordering (c x y)"
    and cmp_trans: "x \<in> K \<Longrightarrow> y \<in> K \<Longrightarrow> z \<in> K \<Longrightarrow>
      c x y \<noteq> Greater \<Longrightarrow> c y z \<noteq> Greater \<Longrightarrow> c x z \<noteq> Greater"
begin

lemma cmp_by_le:
  "x \<in> K \<Longrightarrow> z \<in> K \<Longrightarrow>
   c x z = (if c x z = Greater then Greater else if c z x = Greater then Less else Equal)"
  using cmp_swap [of x z] by (cases "c x z") auto

lemma eq_left: "x \<in> K \<Longrightarrow> y \<in> K \<Longrightarrow> z \<in> K \<Longrightarrow> c x y = Equal \<Longrightarrow> c x z = c y z"
proof -
  assume K: "x \<in> K" "y \<in> K" "z \<in> K" and e: "c x y = Equal"
  then have e': "c y x = Equal" using cmp_swap [of x y] by simp
  have "c x z = Greater \<longleftrightarrow> c y z = Greater"
    using cmp_trans [of x y z] cmp_trans [of y x z] K e e' by auto
  moreover have "c z x = Greater \<longleftrightarrow> c z y = Greater"
    using cmp_trans [of z x y] cmp_trans [of z y x] K e e' by auto
  ultimately show ?thesis using K by (metis cmp_by_le)
qed

lemma eq_right: "x \<in> K \<Longrightarrow> y \<in> K \<Longrightarrow> z \<in> K \<Longrightarrow> c x y = Equal \<Longrightarrow> c z x = c z y"
  by (simp add: eq_left [of x y z] cmp_swap [of x z] cmp_swap [of y z])

lemma less_trans: "x \<in> K \<Longrightarrow> y \<in> K \<Longrightarrow> z \<in> K \<Longrightarrow> c x y = Less \<Longrightarrow> c y z = Less \<Longrightarrow> c x z = Less"
proof -
  assume K: "x \<in> K" "y \<in> K" "z \<in> K" and l: "c x y = Less" "c y z = Less"
  then have "c x z \<noteq> Greater" using cmp_trans [of x y z] by simp
  moreover have "c x z \<noteq> Equal"
  proof
    assume "c x z = Equal"
    then have "c z y = Less" using eq_left [of x z y] K l by simp
    then show False using cmp_swap [of y z] K l by simp
  qed
  ultimately show ?thesis by (cases "c x z") auto
qed

lemma less_not_greater: "x \<in> K \<Longrightarrow> y \<in> K \<Longrightarrow> c x y = Less \<Longrightarrow> c y x = Greater"
  using cmp_swap [of x y] by simp

lemma greater_less: "x \<in> K \<Longrightarrow> y \<in> K \<Longrightarrow> c x y = Greater \<Longrightarrow> c y x = Less"
  using cmp_swap [of x y] by simp

lemma eq_sym: "x \<in> K \<Longrightarrow> y \<in> K \<Longrightarrow> c x y = Equal \<Longrightarrow> c y x = Equal"
  using cmp_swap [of x y] by simp

lemma get_below:
  "bt_ok c K m \<Longrightarrow> k \<in> K \<Longrightarrow> (\<And>b. b \<in> fst ` set m \<Longrightarrow> c k b = Less) \<Longrightarrow> bt_get c m k = None"
  by (cases m) auto

lemma ok_insert: "bt_ok c K m \<Longrightarrow> k \<in> K \<Longrightarrow> bt_ok c K (bt_insert c k v m)"
proof (induction m)
  case Nil
  then show ?case by (simp add: bt_ok_Cons)
next
  case (Cons x m)
  obtain a b where x: "x = (a, b)" by (cases x)
  from Cons.prems have a: "a \<in> K" "bt_ok c K m" "\<And>y. y \<in> fst ` set m \<Longrightarrow> c a y = Less"
    by (auto simp: x bt_ok_Cons)
  then have K: "\<And>y. y \<in> fst ` set m \<Longrightarrow> y \<in> K" by (auto simp: bt_ok_def)
  show ?case
  proof (cases "c k a")
    case Less
    then have "c k y = Less" if "y \<in> fst ` set m" for y
      using less_trans [of k a y] a K that Cons.prems(2) by blast
    with Less Cons.prems show ?thesis by (auto simp: x bt_ok_Cons)
  next
    case Equal
    with Cons.prems show ?thesis by (auto simp: x bt_ok_Cons)
  next
    case Greater
    have "y = k \<or> y \<in> fst ` set m" if "y \<in> fst ` set (bt_insert c k v m)" for y
      using that fst_bt_insert [of c k v m] by auto
    with a greater_less [OF Cons.prems(2) a(1) Greater] have "c a y = Less"
      if "y \<in> fst ` set (bt_insert c k v m)" for y using that by blast
    moreover have "bt_ok c K (bt_insert c k v m)" using Cons.IH a Cons.prems by blast
    ultimately show ?thesis using Greater a by (simp add: x bt_ok_Cons)
  qed
qed

lemma ok_remove: "bt_ok c K m \<Longrightarrow> bt_ok c K (bt_remove c k m)"
proof (induction m)
  case (Cons x m)
  then show ?case
    by (cases x; cases "c k (fst x)") (auto simp: bt_ok_Cons dest: set_bt_remove [THEN subsetD])
qed simp

lemma get_insert:
  "bt_ok c K m \<Longrightarrow> k \<in> K \<Longrightarrow> j \<in> K \<Longrightarrow>
   bt_get c (bt_insert c k v m) j = (if c j k = Equal then Some v else bt_get c m j)"
proof (induction m)
  case Nil
  then show ?case by (simp split: ordering.splits)
next
  case (Cons x m)
  obtain a b where x: "x = (a, b)" by (cases x)
  from Cons.prems have a: "a \<in> K" "bt_ok c K m" by (auto simp: x bt_ok_Cons)
  show ?case
  proof (cases "c k a")
    case Less
    show ?thesis
    proof (cases "c j k")
      case Less
      then have "c j a = Less" using less_trans [of j k a] \<open>c k a = Less\<close> a Cons.prems by blast
      with Less \<open>c k a = Less\<close> show ?thesis by (simp add: x)
    qed (use \<open>c k a = Less\<close> in \<open>simp_all add: x\<close>)
  next
    case Equal
    then have "c j k = c j a" using eq_right [of k a j] a Cons.prems by blast
    with Equal show ?thesis by (simp add: x split: ordering.splits)
  next
    case Greater
    then have gk: "c a k = Less" using greater_less a Cons.prems by blast
    have "c j k = Less" if "c j a = Less" using less_trans [of j a k] gk that a Cons.prems by blast
    moreover have "c j k = Less" if "c j a = Equal" using eq_left [of j a k] gk that a Cons.prems by simp
    ultimately show ?thesis using Greater Cons.IH a Cons.prems
      by (cases "c j a") (simp_all add: x)
  qed
qed

lemma get_remove:
  "bt_ok c K m \<Longrightarrow> k \<in> K \<Longrightarrow> j \<in> K \<Longrightarrow>
   bt_get c (bt_remove c k m) j = (if c j k = Equal then None else bt_get c m j)"
proof (induction m)
  case (Cons x m)
  obtain a b where x: "x = (a, b)" by (cases x)
  from Cons.prems have a: "a \<in> K" "bt_ok c K m" "\<And>y. y \<in> fst ` set m \<Longrightarrow> c a y = Less"
    by (auto simp: x bt_ok_Cons)
  then have K: "\<And>y. y \<in> fst ` set m \<Longrightarrow> y \<in> K" by (auto simp: bt_ok_def)
  show ?case
  proof (cases "c k a")
    case Less
    have "c j a = Less" if "c j k = Equal"
      using eq_left [of j k a] that Less a Cons.prems by simp
    with Less show ?thesis by (auto simp: x)
  next
    case Equal
    then have jk: "c j k = c j a" using eq_right [of k a j] a Cons.prems by blast
    have "bt_get c m j = None" if "c j a \<noteq> Greater"
    proof (rule get_below [OF a(2)])
      show "j \<in> K" by fact
      show "c j y = Less" if "y \<in> fst ` set m" for y
        using \<open>c j a \<noteq> Greater\<close> less_trans [of j a y] eq_left [of j a y] a K that Cons.prems
        by (cases "c j a") auto
    qed
    with Equal jk show ?thesis by (simp add: x split: ordering.splits)
  next
    case Greater
    then have gk: "c a k = Less" using greater_less a Cons.prems by blast
    have "c j k = Less" if "c j a = Less" using less_trans [of j a k] gk that a Cons.prems by blast
    moreover have "c j k = Less" if "c j a = Equal" using eq_left [of j a k] gk that a Cons.prems by simp
    ultimately show ?thesis using Greater Cons.IH a Cons.prems
      by (cases "c j a") (simp_all add: x)
  qed
qed simp

lemma list_cmp_trans:
  "set xs \<subseteq> K \<Longrightarrow> set ys \<subseteq> K \<Longrightarrow> set zs \<subseteq> K \<Longrightarrow>
   list_cmp c xs ys \<noteq> Greater \<Longrightarrow> list_cmp c ys zs \<noteq> Greater \<Longrightarrow> list_cmp c xs zs \<noteq> Greater"
proof (induction xs arbitrary: ys zs)
  case (Cons x xs)
  obtain y ys' where y: "ys = y # ys'" using Cons.prems(4) by (cases ys) simp_all
  obtain z zs' where z: "zs = z # zs'" using Cons.prems(5) y by (cases zs) simp_all
  note yz = y z
  have K: "x \<in> K" "y \<in> K" "z \<in> K" using Cons.prems yz by auto
  note IH = Cons.IH [of ys' zs'] and laws = eq_left [OF K] eq_right [OF K(2,3,1)] less_trans [OF K]
  show ?case
  proof (cases "c x y")
    case Less
    then show ?thesis using laws(2,3) Cons.prems(5) yz by (cases "c y z") auto
  next
    case Equal
    then show ?thesis using laws(1) IH Cons.prems yz by (cases "c y z") auto
  qed (use Cons.prems(4) yz in simp)
next
  case Nil
  then show ?case by (cases zs) auto
qed

lemma get_mem: "bt_ok c K m \<Longrightarrow> (k, v) \<in> set m \<Longrightarrow> j \<in> K \<Longrightarrow> c j k = Equal \<Longrightarrow> bt_get c m j = Some v"
proof (induction m)
  case (Cons x m)
  obtain a b where x: "x = (a, b)" by (cases x)
  from Cons.prems have a: "a \<in> K" "bt_ok c K m" "\<And>y. y \<in> fst ` set m \<Longrightarrow> c a y = Less"
    by (auto simp: x bt_ok_Cons)
  show ?case
  proof (cases "(k, v) = (a, b)")
    case False
    then have k: "(k, v) \<in> set m" "k \<in> K" using Cons.prems by (auto simp: x bt_ok_def)
    then have "c a k = Less" using a(3) by force
    then have "c j a = Greater"
      using less_not_greater [of a k] eq_left [of j k a] a k Cons.prems by simp
    then show ?thesis using Cons.IH [OF a(2) k(1)] Cons.prems by (simp add: x)
  qed (use Cons.prems in \<open>simp add: x\<close>)
qed simp

lemma get_SomeD: "bt_get c m j = Some v \<Longrightarrow> \<exists>k. (k, v) \<in> set m \<and> c j k = Equal"
proof (induction m)
  case (Cons x m)
  then show ?case by (cases x) (auto split: ordering.splits)
qed simp

lemma get_iff: "bt_ok c K m \<Longrightarrow> j \<in> K \<Longrightarrow>
   bt_get c m j = Some v \<longleftrightarrow> (\<exists>k. (k, v) \<in> set m \<and> c j k = Equal)"
  by (meson get_SomeD get_mem)

lemma get_cong: "bt_ok c K m \<Longrightarrow> j \<in> K \<Longrightarrow> k \<in> K \<Longrightarrow> c j k = Equal \<Longrightarrow> bt_get c m j = bt_get c m k"
proof (induction m)
  case (Cons x m)
  then have "c j (fst x) = c k (fst x)" "bt_ok c K m"
    using eq_left [of j k "fst x"] by (cases x, auto simp: bt_ok_Cons)+
  with Cons show ?case by (cases x) (auto split: ordering.splits)
qed simp

lemma get_self: "bt_ok c K m \<Longrightarrow> (k, v) \<in> set m \<Longrightarrow> bt_get c m k = Some v"
proof -
  assume a: "bt_ok c K m" "(k, v) \<in> set m"
  then have "k \<in> K" by (auto simp: bt_ok_def)
  with a cmp_refl [of k] show ?thesis by (intro get_mem) auto
qed

lemma insert_fresh_mem:
  "bt_ok c K m \<Longrightarrow> k \<in> K \<Longrightarrow> bt_get c m k = None \<Longrightarrow> set (bt_insert c k v m) = insert (k, v) (set m)"
proof (induction m)
  case (Cons x m)
  then show ?case by (cases x) (auto simp: bt_ok_Cons split: ordering.splits)
qed simp

lemma insert_mem:
  "(k', v') \<in> set (bt_insert c k v m) \<Longrightarrow> k \<in> K \<Longrightarrow>
   (k', v') \<in> set m \<or> v' = v \<and> c k k' = Equal"
proof (induction m)
  case (Cons x m)
  then show ?case using cmp_refl [of k] by (cases x) (auto split: ordering.splits)
qed (simp add: cmp_refl)

lemma remove_is_filter:
  "bt_ok c K m \<Longrightarrow> k \<in> K \<Longrightarrow> bt_remove c k m = filter (\<lambda>(a, _). c k a \<noteq> Equal) m"
proof (induction m)
  case (Cons x m)
  obtain a b where x: "x = (a, b)" by (cases x)
  from Cons.prems have a: "a \<in> K" "bt_ok c K m" "\<And>y. y \<in> fst ` set m \<Longrightarrow> y \<in> K \<and> c a y = Less"
    by (auto simp: x bt_ok_Cons) (auto simp: bt_ok_def)
  have later: "c k (fst y) = Less" if "c k a \<noteq> Greater" "y \<in> set m" for y
  proof -
    have "fst y \<in> K" "c a (fst y) = Less" using a(3) that(2) by auto
    then show ?thesis using that(1) less_trans [of k a "fst y"] eq_left [of k a "fst y"] a(1) Cons.prems(2)
      by (cases "c k a") auto
  qed
  have "filter (\<lambda>(a, _). c k a \<noteq> Equal) m = m" if "c k a \<noteq> Greater"
    using later [OF that] by (intro filter_True) (auto split: prod.splits)
  then show ?case using Cons a by (cases "c k a") (simp_all add: x)
qed simp

lemma remove_all_is_filter:
  "bt_ok c K m \<Longrightarrow> set ks \<subseteq> K \<Longrightarrow>
   foldl (\<lambda>m k. bt_remove c k m) m ks = filter (\<lambda>(a, _). \<forall>k \<in> set ks. c k a \<noteq> Equal) m"
proof (induction ks arbitrary: m)
  case (Cons k ks)
  then show ?case
    by (simp add: remove_is_filter bt_ok_filter conj_commute case_prod_beta)
qed simp

lemma distinct_keys: "bt_ok c K m \<Longrightarrow> distinct (map fst m)"
proof (induction m)
  case (Cons x m)
  then show ?case using cmp_refl [of "fst x"] by (cases x) (force simp: bt_ok_Cons)
qed simp

lemma length_remove:
  "bt_ok c K m \<Longrightarrow> k \<in> K \<Longrightarrow>
   length (bt_remove c k m) = (if bt_get c m k = None then length m else length m - 1)"
proof (induction m)
  case (Cons x m)
  obtain a b where x: "x = (a, b)" by (cases x)
  show ?case
  proof (cases "c k a")
    case Greater
    have "m \<noteq> []" if "bt_get c m k \<noteq> None" using that by auto
    with Cons Greater show ?thesis by (cases m) (auto simp: x bt_ok_Cons)
  qed (simp_all add: x)
qed simp

end

text \<open>How orders are built: a linear order, the pull-back along a function, lexicographic lists.\<close>

lemma key_order_lcmp: "key_order (lcmp :: 'a::linorder \<Rightarrow> _) UNIV"
  by unfold_locales (auto simp: lcmp_def split: if_splits)

lemma key_order_by:
  assumes "key_order c UNIV" "\<And>x y. x \<in> K \<Longrightarrow> y \<in> K \<Longrightarrow> c' x y = c (f x) (f y)"
  shows "key_order c' K"
proof (unfold_locales, goal_cases)
  case (1 x)
  then show ?case using assms by (simp add: key_order.cmp_refl)
next
  case (2 x y)
  then show ?case using assms key_order.cmp_swap [OF assms(1), of "f x" "f y"] by simp
next
  case (3 x y z)
  then show ?case using assms key_order.cmp_trans [OF assms(1), of "f x" "f y" "f z"] by simp
qed

lemma key_order_list:
  assumes "key_order c K"
  shows "key_order (list_cmp c) {xs. set xs \<subseteq> K}"
proof (unfold_locales, goal_cases)
  case (1 xs)
  show ?case
    by (rule list_cmp_refl, rule key_order.cmp_refl [OF assms]) (use 1 in auto)
next
  case (2 xs ys)
  show ?case
    by (rule list_cmp_swap, rule key_order.cmp_swap [OF assms]) (use 2 in auto)
next
  case (3 xs ys zs)
  then show ?case using key_order.list_cmp_trans [OF assms, of xs ys zs] by simp
qed

text \<open>Integer keys: field numbers, line numbers.\<close>

abbreviation icmp :: "int \<Rightarrow> int \<Rightarrow> ordering" where "icmp \<equiv> lcmp"

interpretation ints: key_order "icmp" "UNIV"
  by (rule key_order_lcmp)

end
