(* ===== verification/Values.thy ===== *)
theory Values
  imports Ordered_Map Complex_Main
begin

text \<open>
  AL runtime values (\<^verbatim>\<open>crates/al-runtime/src/interpreter/value.rs\<close>): the \<open>Value\<close> enum, its total
  order, the coercion of an assigned value to its slot, the default values of the AL types and
  the size limits of the local test runtime.

  \<open>Decimal\<close> is the type of the third-party crate \<^verbatim>\<open>rust_decimal\<close>.  It is a type parameter \<open>'d\<close>, and
  its operations are the fields of \<^verbatim>\<open>decimal_ops\<close>, passed to every definition that uses them.
  \<open>dec_num\<close> is the number a decimal stands for; \<open>Ord\<close> and \<open>Eq\<close> on decimals compare that number.

  \<open>List\<close>, \<open>Dictionary\<close> and \<open>TextBuilder\<close> values are handles (\<open>Arc\<close>) to shared contents.  The
  model writes a handle as the address of its contents and keeps the contents in the \<open>env\<close>.
\<close>

section \<open>The decimal interface\<close>

record 'd decimal_ops =
  dec_num :: "'d \<Rightarrow> rat"
  dec_from :: "int \<Rightarrow> 'd"
  dec_zero :: 'd
  dec_parse :: "string \<Rightarrow> 'd option"
  dec_show :: "'d \<Rightarrow> string"
  dec_normalize :: "'d \<Rightarrow> 'd"
  dec_add :: "'d \<Rightarrow> 'd \<Rightarrow> 'd option"
  dec_sub :: "'d \<Rightarrow> 'd \<Rightarrow> 'd option"
  dec_mul :: "'d \<Rightarrow> 'd \<Rightarrow> 'd option"
  dec_div :: "'d \<Rightarrow> 'd \<Rightarrow> 'd option"
  dec_neg :: "'d \<Rightarrow> 'd"
  dec_abs :: "'d \<Rightarrow> 'd"
  dec_is_whole :: "'d \<Rightarrow> bool"

definition dec_cmp :: "'d decimal_ops \<Rightarrow> 'd \<Rightarrow> 'd \<Rightarrow> ordering" where
  "dec_cmp D a b = lcmp (dec_num D a) (dec_num D b)"

definition dec_eq :: "'d decimal_ops \<Rightarrow> 'd \<Rightarrow> 'd \<Rightarrow> bool" where
  "dec_eq D a b \<longleftrightarrow> dec_num D a = dec_num D b"

text \<open>
  What the code relies on: an \<open>i64\<close> converts exactly (it fits the 96-bit mantissa) and the
  constant \<open>ZERO\<close> is zero.
\<close>

definition dec_exact :: "'d decimal_ops \<Rightarrow> bool" where
  "dec_exact D \<longleftrightarrow> (\<forall>n. in_i64 n \<longrightarrow> dec_num D (dec_from D n) = of_int n) \<and> dec_num D (dec_zero D) = 0"


section \<open>Values\<close>

datatype json_kind = JObject | JArray | JToken | JValue

record record_value =
  rv_table_name :: string
  rv_table_id :: int
  rv_handle :: "nat option"
  rv_temporary :: bool

record error_info =
  ei_message :: string
  ei_error_type :: "string option"
  ei_source :: "string option"

datatype 'd val =
    VNull
  | VEmpty
  | VInteger int
  | VDecimal 'd
  | VBoolean bool
  | VChar char
  | VText string
  | VCode string
  | VTextBuilder nat
  | VJson json_kind "nat option"
  | VDate int
  | VTime int
  | VDateTime int
  | VDuration int
  | VGuid string
  | VOption string string int
  | VRecord record_value
  | VRecordRef record_value
  | VVariant "'d val"
  | VArray "'d val list"
  | VList nat "string option" "string option"
  | VDict nat "string option" "string option"
  | VBlob "nat list"
  | VErrorInfo error_info
  | VCodeunit string "nat option"
  | VBigInteger int
  | VRange "'d val" "'d val"

text \<open>
  The shared contents a comparison reads, and the cancellation flag of the thread.  A Dictionary
  keeps its entries in insertion order: the normalised key text, the key and the value.
\<close>

record 'd env =
  dec :: "'d decimal_ops"
  lists :: "(nat \<times> 'd val list) list"
  dicts :: "(nat \<times> (string \<times> 'd val \<times> 'd val) list) list"
  builders :: "(nat \<times> string) list"
  thread_cancelled :: bool

definition contents_of :: "(nat \<times> 'a list) list \<Rightarrow> nat \<Rightarrow> 'a list" where
  "contents_of h a = (case map_of h a of None \<Rightarrow> [] | Some xs \<Rightarrow> xs)"

definition entries_in_order :: "'d env \<Rightarrow> nat \<Rightarrow> 'd val list" where
  "entries_in_order E a = concat (map (\<lambda>(_, k, v). [k, v]) (contents_of (dicts E) a))"


section \<open>The order of values\<close>

fun variant_index :: "'d val \<Rightarrow> nat" where
  "variant_index VNull = 0"
| "variant_index VEmpty = 1"
| "variant_index (VInteger _) = 2"
| "variant_index (VBigInteger _) = 2"
| "variant_index (VDecimal _) = 3"
| "variant_index (VBoolean _) = 4"
| "variant_index (VChar _) = 5"
| "variant_index (VText _) = 6"
| "variant_index (VCode _) = 7"
| "variant_index (VDate _) = 8"
| "variant_index (VTime _) = 9"
| "variant_index (VDateTime _) = 10"
| "variant_index (VDuration _) = 11"
| "variant_index (VGuid _) = 12"
| "variant_index (VOption _ _ _) = 13"
| "variant_index (VRecord _) = 14"
| "variant_index (VRecordRef _) = 15"
| "variant_index (VVariant _) = 16"
| "variant_index (VArray _) = 17"
| "variant_index (VList _ _ _) = 18"
| "variant_index (VDict _ _ _) = 19"
| "variant_index (VBlob _) = 20"
| "variant_index (VErrorInfo _) = 21"
| "variant_index (VCodeunit _ _) = 22"
| "variant_index (VRange _ _) = 23"
| "variant_index (VTextBuilder _) = 24"
| "variant_index (VJson _ _) = 25"

fun json_kind_index :: "json_kind \<Rightarrow> nat" where
  "json_kind_index JObject = 0"
| "json_kind_index JArray = 1"
| "json_kind_index JToken = 2"
| "json_kind_index JValue = 3"

definition record_cmp :: "record_value \<Rightarrow> record_value \<Rightarrow> ordering" where
  "record_cmp a b =
     then_cmp (lcmp (rv_table_id a) (rv_table_id b))
       (then_cmp (str_cmp (rv_table_name a) (rv_table_name b))
          (option_cmp lcmp (rv_handle a) (rv_handle b)))"

datatype 'd cmp_step = Done ordering | Descend "'d val list" "'d val list"

type_synonym met_pairs = "(nat \<times> nat) list"

text \<open>
  \<^verbatim>\<open>compare_one\<close>: the order of two values of which neither holds others, or the sequences the
  comparison continues with.  \<open>met\<close> holds the pairs of shared contents already started on.
\<close>

definition compare_one ::
  "'d env \<Rightarrow> 'd val \<Rightarrow> 'd val \<Rightarrow> met_pairs \<Rightarrow> 'd cmp_step \<times> met_pairs" where
  "compare_one E left right met =
     (if variant_index left \<noteq> variant_index right
      then (Done (lcmp (variant_index left) (variant_index right)), met)
      else case left of
        VInteger a \<Rightarrow> (case right of VInteger b \<Rightarrow> (Done (lcmp a b), met)
                                  | VBigInteger b \<Rightarrow> (Done (lcmp a b), met) | _ \<Rightarrow> (Done Equal, met))
      | VBigInteger a \<Rightarrow> (case right of VInteger b \<Rightarrow> (Done (lcmp a b), met)
                                     | VBigInteger b \<Rightarrow> (Done (lcmp a b), met) | _ \<Rightarrow> (Done Equal, met))
      | VDecimal a \<Rightarrow> (case right of VDecimal b \<Rightarrow> (Done (dec_cmp (dec E) a b), met) | _ \<Rightarrow> (Done Equal, met))
      | VBoolean a \<Rightarrow> (case right of VBoolean b \<Rightarrow> (Done (bool_cmp a b), met) | _ \<Rightarrow> (Done Equal, met))
      | VChar a \<Rightarrow> (case right of VChar b \<Rightarrow> (Done (char_cmp a b), met) | _ \<Rightarrow> (Done Equal, met))
      | VText a \<Rightarrow> (case right of VText b \<Rightarrow> (Done (str_cmp a b), met) | _ \<Rightarrow> (Done Equal, met))
      | VCode a \<Rightarrow> (case right of VCode b \<Rightarrow> (Done (str_cmp a b), met) | _ \<Rightarrow> (Done Equal, met))
      | VTextBuilder a \<Rightarrow> (case right of VTextBuilder b \<Rightarrow>
            (Done (if a = b then Equal
                   else str_cmp (contents_of (builders E) a) (contents_of (builders E) b)), met)
          | _ \<Rightarrow> (Done Equal, met))
      | VDate a \<Rightarrow> (case right of VDate b \<Rightarrow> (Done (lcmp a b), met) | _ \<Rightarrow> (Done Equal, met))
      | VTime a \<Rightarrow> (case right of VTime b \<Rightarrow> (Done (lcmp a b), met) | _ \<Rightarrow> (Done Equal, met))
      | VDateTime a \<Rightarrow> (case right of VDateTime b \<Rightarrow> (Done (lcmp a b), met) | _ \<Rightarrow> (Done Equal, met))
      | VDuration a \<Rightarrow> (case right of VDuration b \<Rightarrow> (Done (lcmp a b), met) | _ \<Rightarrow> (Done Equal, met))
      | VGuid a \<Rightarrow> (case right of VGuid b \<Rightarrow> (Done (str_cmp a b), met) | _ \<Rightarrow> (Done Equal, met))
      | VJson a ah \<Rightarrow> (case right of VJson b bh \<Rightarrow>
            (Done (then_cmp (lcmp (json_kind_index a) (json_kind_index b)) (option_cmp lcmp ah bh)), met)
          | _ \<Rightarrow> (Done Equal, met))
      | VOption t1 m1 o1 \<Rightarrow> (case right of VOption t2 m2 o2 \<Rightarrow>
            (Done (then_cmp (lcmp o1 o2) (then_cmp (str_cmp t1 t2) (str_cmp m1 m2))), met)
          | _ \<Rightarrow> (Done Equal, met))
      | VRecord a \<Rightarrow> (case right of VRecord b \<Rightarrow> (Done (record_cmp a b), met) | _ \<Rightarrow> (Done Equal, met))
      | VRecordRef a \<Rightarrow> (case right of VRecordRef b \<Rightarrow> (Done (record_cmp a b), met) | _ \<Rightarrow> (Done Equal, met))
      | VVariant a \<Rightarrow> (case right of VVariant b \<Rightarrow> (Descend [a] [b], met) | _ \<Rightarrow> (Done Equal, met))
      | VArray a \<Rightarrow> (case right of VArray b \<Rightarrow> (Descend a b, met) | _ \<Rightarrow> (Done Equal, met))
      | VList a _ _ \<Rightarrow> (case right of VList b _ _ \<Rightarrow>
            (if a = b \<or> (a, b) \<in> set met then (Done Equal, met)
             else (Descend (contents_of (lists E) a) (contents_of (lists E) b), (a, b) # met))
          | _ \<Rightarrow> (Done Equal, met))
      | VDict a _ _ \<Rightarrow> (case right of VDict b _ _ \<Rightarrow>
            (if a = b \<or> (a, b) \<in> set met then (Done Equal, met)
             else (Descend (entries_in_order E a) (entries_in_order E b), (a, b) # met))
          | _ \<Rightarrow> (Done Equal, met))
      | VBlob a \<Rightarrow> (case right of VBlob b \<Rightarrow> (Done (list_cmp lcmp a b), met) | _ \<Rightarrow> (Done Equal, met))
      | VErrorInfo a \<Rightarrow> (case right of VErrorInfo b \<Rightarrow> (Done (str_cmp (ei_message a) (ei_message b)), met)
          | _ \<Rightarrow> (Done Equal, met))
      | VCodeunit a ai \<Rightarrow> (case right of VCodeunit b bi \<Rightarrow>
            (Done (then_cmp (str_cmp a b) (option_cmp lcmp ai bi)), met) | _ \<Rightarrow> (Done Equal, met))
      | VRange as ae \<Rightarrow> (case right of VRange bs be \<Rightarrow> (Descend [as, ae] [bs, be], met)
          | _ \<Rightarrow> (Done Equal, met))
      | _ \<Rightarrow> (Done Equal, met))"

end
