(* ===== verification/Decimal_Instance.thy ===== *)
theory Decimal_Instance
  imports Values
begin

text \<open>
  One concrete decimal type, for applying the theorems to concrete inputs: a 96-bit mantissa and a
  power of ten, the representation \<^verbatim>\<open>rust_decimal\<close> documents.  Nothing else in the development
  depends on it.
\<close>

type_synonym mantissa = "int \<times> nat"

abbreviation point_char :: char where "point_char \<equiv> CHR ''.''"
abbreviation minus_char :: char where "minus_char \<equiv> CHR ''-''"

definition fits :: "int \<Rightarrow> nat \<Rightarrow> mantissa option" where
  "fits m s = (if \<bar>m\<bar> < 2 ^ 96 \<and> s \<le> 28 then Some (m, s) else None)"

definition mantissa_parse :: "string \<Rightarrow> mantissa option" where
  "mantissa_parse s =
     (let neg = (starts_with s ''-'');
          r = (if neg then drop 1 s else s);
          ip = takeWhile is_ascii_digit r;
          sign = (if neg then -1 else 1) in
      case dropWhile is_ascii_digit r of
        [] \<Rightarrow> if ip = [] then None else fits (sign * digits_val ip) 0
      | c # fp \<Rightarrow> if c = point_char \<and> (\<forall>d \<in> set fp. is_ascii_digit d) \<and> ip @ fp \<noteq> []
                 then fits (sign * digits_val (ip @ fp)) (length fp) else None)"

definition mantissa_show :: "mantissa \<Rightarrow> string" where
  "mantissa_show d =
     (let (m, s) = d; ds = show_nat (nat \<bar>m\<bar>);
          padded = replicate (s + 1 - length ds) (CHR ''0'') @ ds; n = length padded - s in
      (if m < 0 then [minus_char] else []) @ take n padded @ (if s = 0 then [] else point_char # drop n padded))"

fun strip_zeros :: "int \<Rightarrow> nat \<Rightarrow> mantissa" where
  "strip_zeros m 0 = (m, 0)"
| "strip_zeros m (Suc s) = (if m mod 10 = 0 then strip_zeros (m div 10) s else (m, Suc s))"

definition aligned :: "(int \<Rightarrow> int \<Rightarrow> int) \<Rightarrow> mantissa \<Rightarrow> mantissa \<Rightarrow> mantissa option" where
  "aligned f a b =
     (let s = max (snd a) (snd b) in
      fits (f (fst a * 10 ^ (s - snd a)) (fst b * 10 ^ (s - snd b))) s)"

definition mantissa_div :: "mantissa \<Rightarrow> mantissa \<Rightarrow> mantissa option" where
  "mantissa_div a b =
     (if fst b = 0 then None
      else let (m, s) = strip_zeros (tdiv (fst a * 10 ^ (snd b + 20)) (fst b * 10 ^ snd a)) 20 in fits m s)"

definition sample_decimal :: "mantissa decimal_ops" where
  "sample_decimal =
     \<lparr>dec_num = (\<lambda>(m, s). of_int m / 10 ^ s), dec_from = (\<lambda>n. (n, 0)), dec_zero = (0, 0),
      dec_parse = mantissa_parse, dec_show = mantissa_show,
      dec_normalize = (\<lambda>(m, s). strip_zeros m s),
      dec_add = aligned (+), dec_sub = aligned (-),
      dec_mul = (\<lambda>a b. fits (fst a * fst b) (snd a + snd b)), dec_div = mantissa_div,
      dec_neg = (\<lambda>(m, s). (- m, s)), dec_abs = (\<lambda>(m, s). (\<bar>m\<bar>, s)),
      dec_is_whole = (\<lambda>(m, s). m mod 10 ^ s = 0)\<rparr>"

definition sample_env :: "mantissa env" where
  "sample_env = \<lparr>dec = sample_decimal, lists = [], dicts = [], builders = [], thread_cancelled = False\<rparr>"

lemma sample_env_simps [simp]:
  "dec sample_env = sample_decimal" "lists sample_env = []" "dicts sample_env = []"
  "builders sample_env = []" "thread_cancelled sample_env = False"
  by (simp_all add: sample_env_def)

lemma sample_decimal_simps [simp]:
  "dec_num sample_decimal (m, s) = of_int m / 10 ^ s"
  "dec_from sample_decimal n = (n, 0)"
  "dec_zero sample_decimal = (0, 0)"
  by (simp_all add: sample_decimal_def)

lemma sample_decimal_exact: "dec_exact sample_decimal"
  by (simp add: dec_exact_def)

end
