(* ===== verification/Value_Order.thy ===== *)
theory Value_Order
  imports Decimal_Instance
begin

text \<open>
  \<^verbatim>\<open>compare\<close> of \<^verbatim>\<open>value.rs\<close>: the comparison of two values by a loop over a stack of sequences.
  A list can hold a list that holds it, so the loop remembers the pairs it has met; the
  termination proof below is the argument that this is enough.  The lemmas show that the loop
  computes the recursive lexicographic order on values without shared contents, and that it is
  a total preorder on the scalars, which is what a \<open>BTreeMap\<close> keyed by values needs.
\<close>

section \<open>Addresses\<close>

fun addrs :: "'d val \<Rightarrow> nat set" where
  "addrs (VList a _ _) = {a}"
| "addrs (VDict a _ _) = {a}"
| "addrs (VVariant v) = addrs v"
| "addrs (VArray vs) = (\<Union>v \<in> set vs. addrs v)"
| "addrs (VRange s e) = addrs s \<union> addrs e"
| "addrs _ = {}"

definition addrs_list :: "'d val list \<Rightarrow> nat set" where
  "addrs_list vs = (\<Union>v \<in> set vs. addrs v)"

definition env_addrs :: "'d env \<Rightarrow> nat set" where
  "env_addrs E = (\<Union>(_, vs) \<in> set (lists E). addrs_list vs) \<union>
     (\<Union>(_, es) \<in> set (dicts E). \<Union>(_, k, v) \<in> set es. addrs k \<union> addrs v)"

definition pending_addrs :: "('d val list \<times> 'd val list) list \<Rightarrow> nat set" where
  "pending_addrs ps = (\<Union>(l, r) \<in> set ps. addrs_list l \<union> addrs_list r)"

definition weight :: "'d val list \<Rightarrow> nat" where
  "weight vs = sum_list (map (\<lambda>v. 2 * size v + 1) vs)"

definition pending_size :: "('d val list \<times> 'd val list) list \<Rightarrow> nat" where
  "pending_size ps = sum_list (map (\<lambda>(l, r). Suc (weight l + weight r)) ps)"

lemma finite_addrs [simp]: "finite (addrs v)"
  by (induction v) auto

lemma finite_addrs_list [simp]: "finite (addrs_list vs)"
  by (simp add: addrs_list_def)

lemma finite_env_addrs [simp]: "finite (env_addrs E)"
  by (auto simp: env_addrs_def)

lemma finite_pending [simp]: "finite (pending_addrs ps)"
  by (auto simp: pending_addrs_def)

lemma addrs_list_simps [simp]:
  "addrs_list [] = {}" "addrs_list (v # vs) = addrs v \<union> addrs_list vs"
  by (auto simp: addrs_list_def)

lemma pending_addrs_simps [simp]:
  "pending_addrs [] = {}"
  "pending_addrs ((l, r) # ps) = addrs_list l \<union> addrs_list r \<union> pending_addrs ps"
  by (auto simp: pending_addrs_def)

lemma addrs_contents: "addrs_list (contents_of (lists E) a) \<subseteq> env_addrs E"
  by (force simp: contents_of_def env_addrs_def split: option.splits dest: map_of_SomeD)

lemma addrs_entries: "addrs_list (entries_in_order E a) \<subseteq> env_addrs E"
proof (cases "map_of (dicts E) a")
  case (Some es)
  then have "(a, es) \<in> set (dicts E)" by (rule map_of_SomeD)
  then show ?thesis
    by (auto simp: contents_of_def entries_in_order_def addrs_list_def env_addrs_def Some)
qed (simp add: contents_of_def entries_in_order_def)

lemma weight_simps [simp]: "weight [] = 0" "weight (v # vs) = 2 * size v + 1 + weight vs"
  by (simp_all add: weight_def)

lemma pending_size_simps [simp]:
  "pending_size [] = 0" "pending_size ((l, r) # ps) = Suc (weight l + weight r) + pending_size ps"
  by (simp_all add: pending_size_def)

lemma weight_size_list: "weight vs \<le> 2 * size_list size vs"
  by (induction vs) auto

lemma addrs_list_VArray: "addrs (VArray vs) = addrs_list vs"
  by (simp add: addrs_list_def)


section \<open>The comparison loop\<close>

text \<open>
  Every pair of addresses is descended into at most once, and any other step makes the pending
  values smaller.
\<close>

definition unmet :: "'d env \<Rightarrow> met_pairs \<Rightarrow> ('d val list \<times> 'd val list) list \<Rightarrow> nat" where
  "unmet E met ps =
     (let A = env_addrs E \<union> pending_addrs ps in card (A \<times> A - set met))"

function compare_loop ::
  "'d env \<Rightarrow> met_pairs \<Rightarrow> ('d val list \<times> 'd val list) list \<Rightarrow> ordering" where
  "compare_loop E met [] = Equal"
| "compare_loop E met ((left, right) # pending) =
     (if thread_cancelled E then Equal
      else case (left, right) of
        ([], []) \<Rightarrow> compare_loop E met pending
      | ([], _ # _) \<Rightarrow> Less
      | (_ # _, []) \<Rightarrow> Greater
      | (a # left', b # right') \<Rightarrow>
          (case compare_one E a b met of
             (Done Equal, met') \<Rightarrow> compare_loop E met' ((left', right') # pending)
           | (Done different, met') \<Rightarrow> different
           | (Descend l r, met') \<Rightarrow> compare_loop E met' ((l, r) # (left', right') # pending)))"
  by pat_completeness auto

lemma compare_one_Done: "compare_one E a b met = (Done ord, met') \<Longrightarrow> met' = met"
  by (auto simp: compare_one_def split: if_splits val.splits)

lemma compare_one_Descend:
  assumes "compare_one E a b met = (Descend l r, met')"
  shows "(met' = met \<and> addrs_list l \<union> addrs_list r \<subseteq> addrs a \<union> addrs b \<and>
            Suc (weight l + weight r) < weight [a] + weight [b]) \<or>
         (\<exists>p q. met' = (p, q) # met \<and> (p, q) \<notin> set met \<and> p \<in> addrs a \<and> q \<in> addrs b \<and>
            addrs_list l \<union> addrs_list r \<subseteq> env_addrs E)"
  using assms addrs_contents [of E] addrs_entries [of E] weight_size_list [of l] weight_size_list [of r]
  by (auto simp: compare_one_def addrs_list_VArray simp del: addrs.simps(4) split: if_splits val.splits)

lemma unmet_mono:
  assumes "pending_addrs ps \<subseteq> env_addrs E \<union> pending_addrs qs" and "set met \<subseteq> set met'"
  shows "unmet E met' ps \<le> unmet E met qs"
  unfolding unmet_def Let_def using assms by (intro card_mono) auto

lemma unmet_less:
  assumes "pending_addrs ps \<subseteq> env_addrs E \<union> pending_addrs qs"
    and "p \<in> pending_addrs qs" "q \<in> pending_addrs qs" "(p, q) \<notin> set met"
  shows "unmet E ((p, q) # met) ps < unmet E met qs"
  unfolding unmet_def Let_def using assms by (intro psubset_card_mono) auto

termination compare_loop
proof (relation "measures [\<lambda>(E, met, ps). unmet E met ps, \<lambda>(E, met, ps). pending_size ps]",
    goal_cases)
  case (2 E met left right pending)
  then show ?case using unmet_mono [of pending E "(left, right) # pending" met met] by auto
next
  case (3 E met left right pending x y a left' b right' s met' ord)
  then have c: "compare_one E a b met = (Done Equal, met')" "left = a # left'" "right = b # right'"
    by auto
  have "unmet E met ((left', right') # pending) \<le> unmet E met ((left, right) # pending)"
    by (intro unmet_mono) (auto simp: c)
  with compare_one_Done [OF c(1)] show ?case by (auto simp: c)
next
  case (4 E met left right pending x y a left' b right' s met' l r)
  then have c: "compare_one E a b met = (Descend l r, met')" by simp
  let ?new = "(l, r) # (left', right') # pending" and ?old = "(left, right) # pending"
  have lr: "left = a # left'" "right = b # right'" using 4 by auto
  from compare_one_Descend [OF c] show ?case
  proof (elim disjE exE conjE)
    assume *: "met' = met" "addrs_list l \<union> addrs_list r \<subseteq> addrs a \<union> addrs b"
      "Suc (weight l + weight r) < weight [a] + weight [b]"
    then have "unmet E met ?new \<le> unmet E met ?old"
      by (intro unmet_mono) (auto simp: lr)
    with * show ?case by (auto simp: lr)
  next
    fix p q
    assume *: "met' = (p, q) # met" "(p, q) \<notin> set met" "p \<in> addrs a" "q \<in> addrs b"
      "addrs_list l \<union> addrs_list r \<subseteq> env_addrs E"
    then have "unmet E met' ?new < unmet E met ?old"
      unfolding \<open>met' = (p, q) # met\<close> by (intro unmet_less) (auto simp: lr)
    then show ?case by simp
  qed
qed simp

definition compare :: "'d env \<Rightarrow> 'd val \<Rightarrow> 'd val \<Rightarrow> ordering" where
  "compare E left right =
     (case compare_one E left right [] of
        (Done ord, _) \<Rightarrow> ord
      | (Descend l r, met) \<Rightarrow> compare_loop E met [(l, r)])"

text \<open>\<open>PartialEq\<close> for \<open>Value\<close>.\<close>

definition value_eq :: "'d env \<Rightarrow> 'd val \<Rightarrow> 'd val \<Rightarrow> bool" where
  "value_eq E a b \<longleftrightarrow> compare E a b = Equal"


section \<open>The order as a lexicographic order of keys\<close>

text \<open>
  Values that hold no \<open>List\<close> and no \<open>Dictionary\<close> have a key: a list of numbers with every text and
  every sequence closed by a zero, so that keys compare as the values do.  \<open>scalar\<close> values are those
  the comparison settles in one step; the others take the loop, which a cancelled thread leaves early.
\<close>

fun scalar :: "'d val \<Rightarrow> bool" where
  "scalar (VVariant _) = False"
| "scalar (VArray _) = False"
| "scalar (VRange _ _) = False"
| "scalar (VList _ _ _) = False"
| "scalar (VDict _ _ _) = False"
| "scalar _ = True"

fun plain :: "'d val \<Rightarrow> bool" where
  "plain (VVariant v) = plain v"
| "plain (VArray vs) = (\<forall>v \<in> set vs. plain v)"
| "plain (VRange s e) = (plain s \<and> plain e)"
| "plain (VList _ _ _) = False"
| "plain (VDict _ _ _) = False"
| "plain _ = True"

definition comparable :: "'d env \<Rightarrow> 'd val \<Rightarrow> bool" where
  "comparable E v \<longleftrightarrow> plain v \<and> (thread_cancelled E \<longrightarrow> scalar v)"

lemma scalar_plain: "scalar v \<Longrightarrow> plain v"
  by (cases v) auto

lemma scalar_comparable: "scalar v \<Longrightarrow> comparable E v"
  by (simp add: comparable_def scalar_plain)

definition key_nat :: "nat \<Rightarrow> rat list" where "key_nat n = [of_nat n]"
definition key_int :: "int \<Rightarrow> rat list" where "key_int n = [of_int n]"
definition key_bytes :: "nat list \<Rightarrow> rat list" where
  "key_bytes bs = map (\<lambda>b. of_nat b + 1) bs @ [0]"
definition key_str :: "string \<Rightarrow> rat list" where "key_str s = key_bytes (map code_of s)"
definition key_handle :: "nat option \<Rightarrow> rat list" where
  "key_handle h = (case h of None \<Rightarrow> [0] | Some n \<Rightarrow> [1, of_nat n])"
definition key_record :: "record_value \<Rightarrow> rat list" where
  "key_record r = key_int (rv_table_id r) @ key_str (rv_table_name r) @ key_handle (rv_handle r)"
definition key_seq :: "rat list list \<Rightarrow> rat list" where
  "key_seq ks = concat (map (\<lambda>k. 1 # k) ks) @ [0]"

fun vkey_body :: "'d env \<Rightarrow> 'd val \<Rightarrow> rat list" and vkey :: "'d env \<Rightarrow> 'd val \<Rightarrow> rat list" where
  "vkey_body E (VInteger n) = key_int n"
| "vkey_body E (VBigInteger n) = key_int n"
| "vkey_body E (VDecimal d) = [dec_num (dec E) d]"
| "vkey_body E (VBoolean b) = key_nat (of_bool b)"
| "vkey_body E (VChar c) = key_nat (code_of c)"
| "vkey_body E (VText s) = key_str s"
| "vkey_body E (VCode s) = key_str s"
| "vkey_body E (VTextBuilder a) = key_str (contents_of (builders E) a)"
| "vkey_body E (VDate n) = key_int n"
| "vkey_body E (VTime n) = key_int n"
| "vkey_body E (VDateTime n) = key_int n"
| "vkey_body E (VDuration n) = key_int n"
| "vkey_body E (VGuid s) = key_str s"
| "vkey_body E (VJson k h) = key_nat (json_kind_index k) @ key_handle h"
| "vkey_body E (VOption t m n) = key_int n @ key_str t @ key_str m"
| "vkey_body E (VRecord r) = key_record r"
| "vkey_body E (VRecordRef r) = key_record r"
| "vkey_body E (VVariant v) = vkey E v"
| "vkey_body E (VArray vs) = key_seq (map (vkey E) vs)"
| "vkey_body E (VBlob bs) = key_bytes bs"
| "vkey_body E (VErrorInfo e) = key_str (ei_message e)"
| "vkey_body E (VCodeunit n i) = key_str n @ key_handle i"
| "vkey_body E (VRange s e) = vkey E s @ vkey E e"
| "vkey_body E _ = []"
| "vkey E v = of_nat (variant_index v) # vkey_body E v"


abbreviation kcmp :: "rat list \<Rightarrow> rat list \<Rightarrow> ordering" where "kcmp \<equiv> list_cmp lcmp"

lemma lcmp_of_nat [simp]: "lcmp (of_nat a :: rat) (of_nat b) = lcmp a b"
  by (simp add: lcmp_def)

lemma lcmp_of_int [simp]: "lcmp (of_int a :: rat) (of_int b) = lcmp a b"
  by (simp add: lcmp_def)

lemma lcmp_succ [simp]: "lcmp (a + 1 :: rat) (b + 1) = lcmp a b"
  by (simp add: lcmp_def)

lemma kcmp_bytes [simp]:
  "kcmp (key_bytes a @ xs) (key_bytes b @ ys) = then_cmp (list_cmp lcmp a b) (kcmp xs ys)"
  unfolding key_bytes_def
  by (induction "lcmp :: nat \<Rightarrow> _" a b rule: list_cmp.induct) (auto simp: lcmp_def)

lemma str_cmp_codes: "str_cmp a b = list_cmp lcmp (map code_of a) (map code_of b)"
  unfolding str_cmp_def char_cmp_def [abs_def]
  by (induction "\<lambda>x y. lcmp (code_of x) (code_of y)" a b rule: list_cmp.induct) auto

lemma kcmp_str [simp]:
  "kcmp (key_str a @ xs) (key_str b @ ys) = then_cmp (str_cmp a b) (kcmp xs ys)"
  by (simp add: key_str_def str_cmp_codes)

lemma kcmp_handle [simp]:
  "kcmp (key_handle a @ xs) (key_handle b @ ys) = then_cmp (option_cmp lcmp a b) (kcmp xs ys)"
  by (cases a; cases b) (auto simp: key_handle_def lcmp_def)

lemma kcmp_nat [simp]: "kcmp (key_nat a @ xs) (key_nat b @ ys) = then_cmp (lcmp a b) (kcmp xs ys)"
  by (simp add: key_nat_def)

lemma kcmp_int [simp]: "kcmp (key_int a @ xs) (key_int b @ ys) = then_cmp (lcmp a b) (kcmp xs ys)"
  by (simp add: key_int_def)

lemma kcmp_record [simp]:
  "kcmp (key_record a @ xs) (key_record b @ ys) = then_cmp (record_cmp a b) (kcmp xs ys)"
  by (simp add: key_record_def record_cmp_def)

lemmas kcmp_ends [simp] =
  kcmp_bytes [of _ "[]" _ "[]", simplified] kcmp_str [of _ "[]" _ "[]", simplified]
  kcmp_handle [of _ "[]" _ "[]", simplified] kcmp_nat [of _ "[]" _ "[]", simplified]
  kcmp_int [of _ "[]" _ "[]", simplified] kcmp_record [of _ "[]" _ "[]", simplified]

text \<open>
  \<open>vcmp\<close> is the order of the keys.  On plain values a key ends where the next one starts, so
  sequences of values compare element by element.
\<close>

definition vcmp :: "'d env \<Rightarrow> 'd val \<Rightarrow> 'd val \<Rightarrow> ordering" where
  "vcmp E a b = kcmp (vkey E a) (vkey E b)"

lemma bool_cmp_nat: "bool_cmp a b = lcmp (of_bool a :: nat) (of_bool b)"
  by (cases a; cases b) (simp_all add: bool_cmp_def lcmp_def)

lemma kcmp_seq:
  assumes "\<And>a b xs ys. a \<in> set as \<Longrightarrow> b \<in> set bs \<Longrightarrow>
    kcmp (f a @ xs) (f b @ ys) = then_cmp (kcmp (f a) (f b)) (kcmp xs ys)"
  shows "kcmp (key_seq (map f as) @ xs) (key_seq (map f bs) @ ys) =
    then_cmp (list_cmp (\<lambda>a b. kcmp (f a) (f b)) as bs) (kcmp xs ys)"
  using assms
proof (induction "\<lambda>a b. kcmp (f a) (f b)" as bs rule: list_cmp.induct)
  case (4 a as b bs)
  have "kcmp (f a @ u) (f b @ v) = then_cmp (kcmp (f a) (f b)) (kcmp u v)" for u v
    using 4(2) by simp
  with 4 show ?case by (simp add: key_seq_def)
qed (simp_all add: key_seq_def lcmp_def)

declare vkey.simps [simp del]

lemma kcmp_vkey: "kcmp (vkey E a @ xs) (vkey E b @ ys) =
    then_cmp (lcmp (variant_index a) (variant_index b)) (kcmp (vkey_body E a @ xs) (vkey_body E b @ ys))"
  by (simp add: vkey.simps)

lemmas kcmp_vkey_end = kcmp_vkey [of _ _ "[]" _ "[]", simplified]

lemma vcmp_other_variant:
  "variant_index a \<noteq> variant_index b \<Longrightarrow> vcmp E a b = lcmp (variant_index a) (variant_index b)"
  by (cases "lcmp (variant_index a) (variant_index b)") (auto simp: vcmp_def kcmp_vkey_end)

lemma vcmp_same_variant:
  "variant_index a = variant_index b \<Longrightarrow> vcmp E a b = kcmp (vkey_body E a) (vkey_body E b)"
  by (simp add: vcmp_def kcmp_vkey_end)

lemma body_delimited:
  assumes "plain a" "plain b" "variant_index a = variant_index b"
  shows "kcmp (vkey_body E a @ xs) (vkey_body E b @ ys) = then_cmp (vcmp E a b) (kcmp xs ys)"
  using assms
proof (induction a arbitrary: b xs ys)
  case (VVariant a)
  then obtain b' where b: "b = VVariant b'" by (cases b) auto
  have "kcmp (vkey E a @ xs) (vkey E b' @ ys) = then_cmp (vcmp E a b') (kcmp xs ys)"
    using VVariant b by (cases "lcmp (variant_index a) (variant_index b')")
      (auto simp: kcmp_vkey vcmp_other_variant vcmp_same_variant)
  with b show ?case by (simp add: vcmp_same_variant) (simp add: vcmp_def)
next
  case (VArray as)
  then obtain bs where b: "b = VArray bs" by (cases b) auto
  have "kcmp (vkey E x @ us) (vkey E y @ vs) = then_cmp (kcmp (vkey E x) (vkey E y)) (kcmp us vs)"
    if "x \<in> set as" "y \<in> set bs" for x y us vs
    using VArray.IH [OF that(1), of y] VArray.prems that b
    by (cases "lcmp (variant_index x) (variant_index y)") (auto simp: kcmp_vkey kcmp_vkey_end vcmp_same_variant)
  note seq = kcmp_seq [of as bs "vkey E", OF this]
  show ?case using seq [of xs ys] seq [of "[]" "[]"] by (simp add: b vcmp_same_variant)
next
  case (VRange s e)
  then obtain s' e' where b: "b = VRange s' e'" by (cases b) auto
  have 1: "kcmp (vkey E s @ us) (vkey E s' @ vs) = then_cmp (vcmp E s s') (kcmp us vs)" for us vs
    using VRange.IH(1) [of s'] VRange.prems b by (cases "lcmp (variant_index s) (variant_index s')")
      (auto simp: kcmp_vkey vcmp_other_variant vcmp_same_variant)
  have 2: "kcmp (vkey E e @ us) (vkey E e' @ vs) = then_cmp (vcmp E e e') (kcmp us vs)" for us vs
    using VRange.IH(2) [of e'] VRange.prems b by (cases "lcmp (variant_index e) (variant_index e')")
      (auto simp: kcmp_vkey vcmp_other_variant vcmp_same_variant)
  show ?case using 2 [of "[]" "[]"] by (simp add: b vcmp_same_variant 1 2)
qed (case_tac [!] b, simp_all add: vcmp_same_variant)

lemma vkey_delimited:
  "plain a \<Longrightarrow> plain b \<Longrightarrow>
   kcmp (vkey E a @ xs) (vkey E b @ ys) = then_cmp (vcmp E a b) (kcmp xs ys)"
  using body_delimited [of a b] by (cases "lcmp (variant_index a) (variant_index b)")
    (auto simp: kcmp_vkey vcmp_other_variant)

lemma body_array: "\<forall>v \<in> set as. plain v \<Longrightarrow> \<forall>v \<in> set bs. plain v \<Longrightarrow>
   kcmp (key_seq (map (vkey E) as)) (key_seq (map (vkey E) bs)) = list_cmp (vcmp E) as bs"
  using kcmp_seq [of as bs "vkey E" "[]" "[]"] by (simp add: vkey_delimited vcmp_def [symmetric])

lemma body_range: "plain s \<Longrightarrow> plain s' \<Longrightarrow>
   kcmp (vkey E s @ vkey E e) (vkey E s' @ vkey E e') = list_cmp (vcmp E) [s, e] [s', e']"
  by (simp add: vkey_delimited vcmp_def [symmetric])

lemma body_variant: "kcmp (vkey E a) (vkey E b) = list_cmp (vcmp E) [a] [b]"
  by (simp add: vcmp_def [symmetric])

lemma str_cmp_self [simp]: "str_cmp s s = Equal"
  by (simp only: str_cmp_Equal)

section \<open>The loop computes the lexicographic order\<close>

lemma compare_one_vcmp:
  assumes "plain a" "plain b"
  shows "compare_one E a b met = (Done (vcmp E a b), met) \<or>
    (\<exists>l r. compare_one E a b met = (Descend l r, met) \<and> vcmp E a b = list_cmp (vcmp E) l r \<and>
       (\<forall>v \<in> set (l @ r). plain v) \<and> \<not> scalar a)"
proof (cases "variant_index a = variant_index b")
  case True
  with assms show ?thesis
    by (cases a; cases b)
      (simp_all add: compare_one_def vcmp_same_variant body_array body_range body_variant dec_cmp_def
        bool_cmp_nat char_cmp_def ball_Un)
next
  case False
  then show ?thesis by (simp add: compare_one_def vcmp_other_variant)
qed

definition pending_cmp :: "'d env \<Rightarrow> ('d val list \<times> 'd val list) list \<Rightarrow> ordering" where
  "pending_cmp E ps = foldr (\<lambda>(l, r). then_cmp (list_cmp (vcmp E) l r)) ps Equal"

lemma pending_cmp_simps [simp]:
  "pending_cmp E [] = Equal"
  "pending_cmp E ((l, r) # ps) = then_cmp (list_cmp (vcmp E) l r) (pending_cmp E ps)"
  by (simp_all add: pending_cmp_def)

lemma compare_loop_vcmp:
  "\<not> thread_cancelled E \<Longrightarrow> \<forall>(l, r) \<in> set ps. \<forall>v \<in> set (l @ r). plain v \<Longrightarrow>
   compare_loop E met ps = pending_cmp E ps"
proof (induction E met ps rule: compare_loop.induct)
  case (2 E met left right pending)
  show ?case
  proof (cases left; cases right)
    fix a left' b right'
    assume lr: "left = a # left'" "right = b # right'"
    then have "plain a" "plain b" using 2 by auto
    from compare_one_vcmp [OF this, of E met] show ?thesis
    proof (elim disjE exE conjE)
      assume "compare_one E a b met = (Done (vcmp E a b), met)"
      then show ?thesis using 2 lr by (cases "vcmp E a b") simp_all
    next
      fix l r
      assume "compare_one E a b met = (Descend l r, met)" "vcmp E a b = list_cmp (vcmp E) l r"
        "\<forall>v \<in> set (l @ r). plain v"
      then show ?thesis using 2 lr by simp
    qed
  qed (use 2 in simp_all)
qed simp

lemma compare_vcmp: "comparable E a \<Longrightarrow> comparable E b \<Longrightarrow> compare E a b = vcmp E a b"
proof -
  assume ab: "comparable E a" "comparable E b"
  then have "plain a" "plain b" by (simp_all add: comparable_def)
  from compare_one_vcmp [OF this, of E "[]"] ab show ?thesis
    by (auto simp: compare_def comparable_def compare_loop_vcmp simp del: compare_loop.simps)
qed


section \<open>The key orders\<close>


definition key_cmp :: "'d env \<Rightarrow> 'd val list \<Rightarrow> 'd val list \<Rightarrow> ordering" where
  "key_cmp E = list_cmp (compare E)"

interpretation vals: key_order "compare E" "{v. comparable E v}" for E :: "'d env"
  by (rule key_order_by [OF key_order_list [OF key_order_lcmp, simplified], where f = "vkey E"])
    (simp add: compare_vcmp vcmp_def)

text \<open>The primary keys of a table are lists of scalar values.\<close>

interpretation keys: key_order "key_cmp E" "{ks. \<forall>v \<in> set ks. scalar v}" for E :: "'d env"
proof -
  have "key_order (compare E) {v. scalar v}"
    by (rule key_order_by [OF key_order_list [OF key_order_lcmp, simplified], where f = "vkey E"])
      (simp add: compare_vcmp vcmp_def scalar_comparable)
  from key_order_list [OF this] show "key_order (key_cmp E) {ks. \<forall>v \<in> set ks. scalar v}"
    by (simp add: key_cmp_def subset_iff Ball_def)
qed



section \<open>Values that reach themselves\<close>

text \<open>
  Reflexivity and antisymmetry hold for every value, cyclic contents included: the loop on swapped
  arguments mirrors the loop step by step.
\<close>

lemma rev_cmp:
  "rev_ordering (lcmp x y) = lcmp y x"
  "rev_ordering (str_cmp s t) = str_cmp t s"
  "rev_ordering (char_cmp a b) = char_cmp b a"
  "rev_ordering (bool_cmp p q) = bool_cmp q p"
  "rev_ordering (dec_cmp D d e) = dec_cmp D e d"
  "rev_ordering (record_cmp r1 r2) = record_cmp r2 r1"
  "rev_ordering (option_cmp lcmp g h) = option_cmp lcmp h (g :: nat option)"
  "rev_ordering (list_cmp lcmp ms ns) = list_cmp lcmp ns (ms :: nat list)"
proof -
  have opt: "rev_ordering (option_cmp lcmp g h) = option_cmp lcmp h g" for g h :: "nat option"
    by (cases g; cases h) (simp_all add: lcmp_swap [symmetric])
  show "rev_ordering (option_cmp lcmp g h) = option_cmp lcmp h g" by (rule opt)
  show "rev_ordering (record_cmp r1 r2) = record_cmp r2 r1"
    by (simp add: record_cmp_def opt lcmp_swap [symmetric] str_cmp_swap [symmetric])
  show "rev_ordering (list_cmp lcmp ms ns) = list_cmp lcmp ns ms"
    by (rule list_cmp_swap [symmetric]) (rule lcmp_swap)
qed (simp_all add: char_cmp_def bool_cmp_def dec_cmp_def lcmp_swap [symmetric] str_cmp_swap [symmetric])

fun mirror :: "'d cmp_step \<times> met_pairs \<Rightarrow> 'd cmp_step \<times> met_pairs" where
  "mirror (Done ord, met) = (Done (rev_ordering ord), map prod.swap met)"
| "mirror (Descend l r, met) = (Descend r l, map prod.swap met)"

lemma mem_mirror [simp]: "(a, b) \<in> prod.swap ` set met \<longleftrightarrow> (b, a) \<in> set met"
  by force

lemma compare_one_mirror:
  "compare_one E b a (map prod.swap met) = mirror (compare_one E a b met)"
proof (cases "variant_index a = variant_index b")
  case True
  then show ?thesis by (cases a; cases b) (simp_all add: compare_one_def rev_cmp)
next
  case False
  then show ?thesis by (simp add: compare_one_def rev_cmp)
qed

lemma compare_loop_mirror:
  "compare_loop E (map prod.swap met) (map prod.swap ps) = rev_ordering (compare_loop E met ps)"
proof (induction E met ps rule: compare_loop.induct)
  case (2 E met left right pending)
  show ?case
  proof (cases left; cases right)
    fix a left' b right'
    assume lr: "left = a # left'" "right = b # right'"
    note one = compare_one_mirror [of E b a met]
    obtain st met' where c: "compare_one E a b met = (st, met')" by fastforce
    show ?thesis
    proof (cases st)
      case (Done ord)
      with one c 2 lr show ?thesis by (cases ord) simp_all
    next
      case (Descend l r)
      with one c 2 lr show ?thesis by simp
    qed
  qed (use 2 in simp_all)
qed simp

lemma compare_mirror: "compare E b a = rev_ordering (compare E a b)"
proof -
  obtain st met where c: "compare_one E a b [] = (st, met)" by fastforce
  have one: "compare_one E b a [] = mirror (st, met)"
    using compare_one_mirror [of E b a "[]"] c by simp
  show ?thesis
  proof (cases st)
    case (Descend l r)
    then show ?thesis using one c compare_loop_mirror [of E met "[(l, r)]"]
      by (simp add: compare_def del: compare_loop.simps)
  qed (use one c in \<open>simp add: compare_def\<close>)
qed

lemma compare_self: "compare E v v = Equal"
  using compare_mirror [of E v v] by (cases "compare E v v") auto

section \<open>Properties\<close>

text \<open>
  C18: the order of values is a total preorder.  Reflexivity and antisymmetry hold for all values,
  cyclic Lists and Dictionaries included, and whatever the cancellation flag says; transitivity holds for
  the values a primary key or a comparison operator sees.
\<close>

theorem compare_total_preorder:
  "compare E x x = Equal \<and> compare E y x = rev_ordering (compare E x y) \<and>
   (comparable E x \<and> comparable E y \<and> comparable E z \<and>
      compare E x y \<noteq> Greater \<and> compare E y z \<noteq> Greater \<longrightarrow> compare E x z \<noteq> Greater)"
  using vals.cmp_trans [of x E y z] compare_self compare_mirror by blast

lemma compare_total_preorder_witness:
  "compare sample_env (VInteger 1) (VText ''A'') = Less \<and>
   compare sample_env (VText ''A'') (VArray [VInteger 1]) = Less \<and>
   compare sample_env (VInteger 1) (VArray [VInteger 1]) \<noteq> Greater"
proof -
  have "compare sample_env (VInteger 1) (VText ''A'') = Less"
    "compare sample_env (VText ''A'') (VArray [VInteger 1]) = Less"
    by (simp_all add: compare_def compare_one_def)
  with compare_total_preorder [of sample_env "VInteger 1" "VText ''A''" "VArray [VInteger 1]"]
  show ?thesis by (simp add: comparable_def)
qed

text \<open>
  on values without shared contents the explicit-stack loop computes the lexicographic order of
  the keys of the values, element by element, a proper prefix first.
\<close>

theorem compare_is_lexicographic:
  assumes "comparable E a" and "comparable E b"
  shows "compare E a b = list_cmp lcmp (vkey E a) (vkey E b)"
  using compare_vcmp [OF assms] by (simp add: vcmp_def)

lemma compare_is_lexicographic_witness:
  "compare sample_env (VArray [VInteger 2]) (VArray [VInteger 1, VInteger 1]) = Greater"
proof -
  have "comparable sample_env (VArray [VInteger 2])" "comparable sample_env (VArray [VInteger 1, VInteger 1])"
    by (simp_all add: comparable_def)
  from compare_is_lexicographic [OF this] show ?thesis
    by (simp add: vkey.simps key_seq_def key_int_def lcmp_def)
qed

text \<open>
  Two Lists that each hold only themselves are equal, and the comparison ends: the pair is met
  again at the second step.
\<close>

lemma compare_cyclic_lists:
  "compare (E\<lparr>lists := [(0, [VList 0 t u]), (1, [VList 1 t u])], thread_cancelled := False\<rparr>)
     (VList 0 t u) (VList 1 t u) = Equal"
  by (simp add: compare_def compare_one_def contents_of_def)

text \<open>The order of arrays is not by length first.\<close>

lemma compare_arrays_not_by_length:
  "\<not> thread_cancelled E \<Longrightarrow> compare E (VArray [VInteger 2]) (VArray [VInteger 1, VInteger 1]) = Greater"
  by (simp add: compare_def compare_one_def)

end
