(* ===== verification/Value_Ops.thy ===== *)
theory Value_Ops
  imports Value_Order
begin

text \<open>
  The operations of \<^verbatim>\<open>impl Value\<close> and the size limits of \<^verbatim>\<open>value.rs\<close>: truth, numeric views, the
  conversion of an assigned value to the type of its variable, default values, type names, and
  the checks on the length of texts and collections.  Errors are the messages the code formats.
\<close>

section \<open>Limits\<close>

definition MAX_TEXT_BYTES :: nat where "MAX_TEXT_BYTES = 64 * 1024 * 1024"
definition MAX_COLLECTION_LEN :: nat where "MAX_COLLECTION_LEN = 1000000"
definition MAX_HELD_BYTES :: nat where "MAX_HELD_BYTES = 256 * 1024 * 1024"

text \<open>\<open>size_of::<Value>()\<close>, as the comment on \<open>MAX_COLLECTION_LEN\<close> gives it.\<close>

definition VALUE_SIZE :: nat where "VALUE_SIZE = 56"

fun text_bytes :: "'d val \<Rightarrow> nat" where
  "text_bytes (VText s) = str_len s"
| "text_bytes (VCode s) = str_len s"
| "text_bytes (VGuid s) = str_len s"
| "text_bytes (VBlob bs) = length bs"
| "text_bytes _ = 0"

fun owned_bytes :: "'d val \<Rightarrow> nat" where
  "owned_bytes (VVariant inner) = owned_bytes inner"
| "owned_bytes (VArray items) = sum_list (map (\<lambda>item. saturating_add VALUE_SIZE (text_bytes item)) items)"
| "owned_bytes other = text_bytes other"

definition element_bytes :: "'d val \<Rightarrow> nat" where
  "element_bytes v = saturating_add VALUE_SIZE (owned_bytes v)"

definition entry_bytes :: "string \<Rightarrow> 'd val \<Rightarrow> 'd val \<Rightarrow> nat" where
  "entry_bytes key_text k v = saturating_add (saturating_add (str_len key_text) (element_bytes k)) (element_bytes v)"

definition check_text_size :: "string \<Rightarrow> nat \<Rightarrow> string + unit" where
  "check_text_size operation bytes =
     (if bytes \<le> MAX_TEXT_BYTES then Ok ()
      else Err (operation @ '' would make a text of '' @ show_nat bytes @
        '' bytes, over the local test runtime's limit of '' @ show_nat (MAX_TEXT_BYTES div (1024 * 1024)) @
        '' MiB for one text''))"

definition check_collection_len :: "string \<Rightarrow> nat \<Rightarrow> string + unit" where
  "check_collection_len operation len =
     (if len \<le> MAX_COLLECTION_LEN then Ok ()
      else Err (operation @ '' would make '' @ show_nat len @
        '' elements, over the local test runtime's limit of '' @ show_nat MAX_COLLECTION_LEN @
        '' elements for one List, Dictionary or array''))"

definition check_string_capacity :: "string \<Rightarrow> nat option \<Rightarrow> string + unit" where
  "check_string_capacity value capacity =
     (case capacity of None \<Rightarrow> Ok ()
      | Some cap \<Rightarrow>
          if length value \<le> cap then Ok ()
          else Err (''The length of the string is '' @ show_nat (length value) @
            '', but it must be less than or equal to '' @ show_nat cap @ '' characters. Value: '' @ value))"


section \<open>Views and conversion\<close>

fun is_truthy :: "'d val \<Rightarrow> bool" where
  "is_truthy (VBoolean b) = b"
| "is_truthy _ = False"

fun as_int :: "'d val \<Rightarrow> int option" where
  "as_int (VInteger n) = Some n"
| "as_int (VBigInteger n) = Some n"
| "as_int _ = None"

fun as_decimal :: "'d decimal_ops \<Rightarrow> 'd val \<Rightarrow> 'd option" where
  "as_decimal D (VInteger n) = Some (dec_from D n)"
| "as_decimal D (VBigInteger n) = Some (dec_from D n)"
| "as_decimal D (VDecimal d) = Some d"
| "as_decimal D _ = None"

text \<open>The string a Text or Code value carries.\<close>

fun as_text :: "'d val \<Rightarrow> string option" where
  "as_text (VText s) = Some s"
| "as_text (VCode s) = Some s"
| "as_text _ = None"

definition coerce_into_slot ::
  "'d decimal_ops \<Rightarrow> 'd val \<Rightarrow> 'd val \<Rightarrow> nat option \<Rightarrow> string + 'd val" where
  "coerce_into_slot D slot incoming capacity =
     (case slot of
        VCode _ \<Rightarrow>
          (case as_text incoming of
             Some s \<Rightarrow> bind_res (check_string_capacity (trim s) capacity) (\<lambda>_. Ok (VCode (to_uppercase (trim s))))
           | None \<Rightarrow> Ok incoming)
      | VText _ \<Rightarrow>
          (case as_text incoming of
             Some s \<Rightarrow> bind_res (check_string_capacity s capacity) (\<lambda>_. Ok (VText s))
           | None \<Rightarrow> Ok incoming)
      | VBigInteger _ \<Rightarrow>
          (case as_int incoming of Some n \<Rightarrow> Ok (VBigInteger n) | None \<Rightarrow> Ok incoming)
      | VInteger _ \<Rightarrow>
          (case as_int incoming of
             Some n \<Rightarrow> if \<not> in_i32 n then Err (''value '' @ show_int n @ '' is outside the Integer range'')
                       else Ok (VInteger n)
           | None \<Rightarrow> Ok incoming)
      | VDecimal _ \<Rightarrow>
          (case as_int incoming of Some n \<Rightarrow> Ok (VDecimal (dec_from D n)) | None \<Rightarrow> Ok incoming)
      | _ \<Rightarrow> Ok incoming)"

text \<open>
  Default values.  \<open>fresh\<close> is the address of the new TextBuilder contents or JSON node, where one
  is made.
\<close>

definition json_default_for :: "nat \<Rightarrow> string \<Rightarrow> 'd val option" where
  "json_default_for fresh type_name =
     (let t = to_ascii_lowercase type_name in
      if t = ''jsonobject'' then Some (VJson JObject (Some fresh))
      else if t = ''jsonarray'' then Some (VJson JArray (Some fresh))
      else if t = ''jsontoken'' then Some (VJson JToken (Some fresh))
      else if t = ''jsonvalue'' then Some (VJson JValue (Some fresh))
      else None)"

definition default_for :: "'d decimal_ops \<Rightarrow> nat \<Rightarrow> string \<Rightarrow> 'd val option" where
  "default_for D fresh type_name =
     (let t = to_ascii_lowercase type_name in
      if t = ''integer'' then Some (VInteger 0)
      else if t = ''biginteger'' then Some (VBigInteger 0)
      else if t = ''decimal'' then Some (VDecimal (dec_zero D))
      else if t = ''boolean'' then Some (VBoolean False)
      else if t = ''text'' then Some (VText '''')
      else if t = ''code'' then Some (VCode '''')
      else if t = ''date'' then Some (VDate 0)
      else if t = ''time'' then Some (VTime 0)
      else if t = ''datetime'' then Some (VDateTime 0)
      else if t = ''duration'' then Some (VDuration 0)
      else if t = ''guid'' then Some (VGuid ''{00000000-0000-0000-0000-000000000000}'')
      else if t = ''char'' then Some (VChar (CHR 0x00))
      else if t = ''textbuilder'' then Some (VTextBuilder fresh)
      else json_default_for fresh t)"

fun type_name :: "'d val \<Rightarrow> string" where
  "type_name VNull = ''Null''"
| "type_name VEmpty = ''Empty''"
| "type_name (VInteger _) = ''Integer''"
| "type_name (VBigInteger _) = ''BigInteger''"
| "type_name (VDecimal _) = ''Decimal''"
| "type_name (VBoolean _) = ''Boolean''"
| "type_name (VChar _) = ''Char''"
| "type_name (VText _) = ''Text''"
| "type_name (VCode _) = ''Code''"
| "type_name (VTextBuilder _) = ''TextBuilder''"
| "type_name (VJson k _) = (case k of JObject \<Rightarrow> ''JsonObject'' | JArray \<Rightarrow> ''JsonArray''
      | JToken \<Rightarrow> ''JsonToken'' | JValue \<Rightarrow> ''JsonValue'')"
| "type_name (VDate _) = ''Date''"
| "type_name (VTime _) = ''Time''"
| "type_name (VDateTime _) = ''DateTime''"
| "type_name (VDuration _) = ''Duration''"
| "type_name (VGuid _) = ''Guid''"
| "type_name (VOption _ _ _) = ''Option''"
| "type_name (VRecord _) = ''Record''"
| "type_name (VRecordRef _) = ''RecordRef''"
| "type_name (VVariant _) = ''Variant''"
| "type_name (VArray _) = ''Array''"
| "type_name (VList _ _ _) = ''List''"
| "type_name (VDict _ _ _) = ''Dict''"
| "type_name (VBlob _) = ''Blob''"
| "type_name (VErrorInfo _) = ''ErrorInfo''"
| "type_name (VCodeunit _ _) = ''Codeunit''"
| "type_name (VRange _ _) = ''Range''"


section \<open>What the conversion keeps\<close>

lemma check_string_capacity_Ok: "check_string_capacity s cap = Ok () \<longleftrightarrow>
   (case cap of None \<Rightarrow> True | Some n \<Rightarrow> length s \<le> n)"
  by (simp add: check_string_capacity_def split: option.splits)

lemma check_string_capacity_cases:
  "(\<exists>e. check_string_capacity s cap = Err e) \<or> check_string_capacity s cap = Ok ()"
  by (auto simp: check_string_capacity_def split: option.splits)


lemma upper_char_upper: "u \<in> set (upper_char c) \<Longrightarrow> upper_char u = [u]"
  by (auto simp: upper_char_def split: if_splits)

lemma upper_char_space: "u \<in> set (upper_char c) \<Longrightarrow> is_whitespace u \<longleftrightarrow> is_whitespace c"
  by (auto simp: upper_char_def is_whitespace_def split: if_splits)

lemma upper_char_length: "code_of c \<noteq> 223 \<Longrightarrow> \<exists>u. upper_char c = [u]"
  by (auto simp: upper_char_def)

lemma length_to_uppercase: "CHR 0xDF \<notin> set s \<Longrightarrow> length (to_uppercase s) = length s"
proof (induction s)
  case (Cons c s)
  then have "code_of c \<noteq> 223" using of_char_eq_iff [of c "CHR 0xDF", where ?'a = nat] by auto
  with upper_char_length [of c] Cons show ?case by (auto simp: to_uppercase_def)
qed (simp add: to_uppercase_def)


lemma trim_uppercase: "trim (to_uppercase (trim s)) = to_uppercase (trim s)"
proof -
  have drop: "dropWhile is_whitespace (concat (map f us)) = concat (map f us)"
    if "us = [] \<or> \<not> is_whitespace (hd us)" "\<And>c. c \<in> set us \<Longrightarrow> f c \<noteq> []"
      "\<And>c u. u \<in> set (f c) \<Longrightarrow> is_whitespace u \<longleftrightarrow> is_whitespace c" for f :: "char \<Rightarrow> string" and us
  proof (cases us)
    case (Cons c cs)
    then have "f c \<noteq> []" "\<not> is_whitespace (hd (f c))" using that(1,2) that(3) [of "hd (f c)" c] by auto
    then show ?thesis by (cases "f c") (simp_all add: Cons)
  qed simp
  have ne: "upper_char c \<noteq> []" for c by (simp add: upper_char_def)
  let ?t = "trim s"
  have start: "?t = [] \<or> \<not> is_whitespace (hd ?t)"
  proof (cases "?t = []")
    case False
    let ?r = "rev (trim_start s)"
    have "?r = takeWhile is_whitespace ?r @ dropWhile is_whitespace ?r" by simp
    then have "trim_start s = rev (dropWhile is_whitespace ?r) @ rev (takeWhile is_whitespace ?r)"
      by (metis rev_append rev_rev_ident)
    then have "\<exists>xs. trim_start s = trim s @ xs" by (auto simp: trim_def trim_end_def)
    then have "hd (trim_start s) = hd ?t" "trim_start s \<noteq> []" using False by auto
    then show ?thesis using hd_dropWhile [of is_whitespace s] by (simp add: trim_start_def)
  qed simp
  have fin: "rev ?t = [] \<or> \<not> is_whitespace (hd (rev ?t))"
    using hd_dropWhile [of is_whitespace "rev (trim_start s)"] by (auto simp: trim_def trim_end_def)
  have rev: "rev (to_uppercase ?t) = concat (map (rev \<circ> upper_char) (rev ?t))"
    by (simp add: to_uppercase_def rev_concat rev_map)
  have "dropWhile is_whitespace (to_uppercase ?t) = to_uppercase ?t"
    unfolding to_uppercase_def by (rule drop) (use start ne upper_char_space in auto)
  moreover have "dropWhile is_whitespace (rev (to_uppercase ?t)) = rev (to_uppercase ?t)"
    unfolding rev by (rule drop) (use fin ne upper_char_space in auto)
  ultimately show ?thesis by (simp add: trim_def [of "to_uppercase ?t"] trim_start_def trim_end_def)
qed

section \<open>Properties\<close>

lemma set_trim: "set (trim s) \<subseteq> set s"
  unfolding trim_def trim_end_def trim_start_def
  by (auto dest!: set_dropWhileD)

text \<open>
  C40: what an accepted assignment stores, for values that hold no sharp s.  Converting the stored value again changes
  nothing.  A text stored in a text variable is within its declared capacity.  A text assigned to a text variable and
  an integer assigned to a numeric variable take the type of the variable.  (The sharp s is left out because its
  upper-case form is longer than itself: \<open>coerce_sharp_s_overflows\<close>.)
\<close>

theorem coerce_into_slot_keeps_slot:
  assumes "coerce_into_slot D slot v cap = Ok w"
    and "\<forall>s. as_text v = Some s \<longrightarrow> CHR 0xDF \<notin> set s"
  shows "coerce_into_slot D slot w cap = Ok w \<and>
    (\<forall>s n. as_text slot \<noteq> None \<and> as_text w = Some s \<and> cap = Some n \<longrightarrow> length s \<le> n) \<and>
    (as_text slot \<noteq> None \<and> as_text v \<noteq> None \<or> as_decimal D slot \<noteq> None \<and> as_int v \<noteq> None \<longrightarrow>
       type_name w = type_name slot)"
proof (cases "\<exists>c. slot = VCode c")
  case True
  then obtain c where slot: "slot = VCode c" by blast
  show ?thesis
  proof (cases "as_text v")
    case (Some s)
    then have s: "CHR 0xDF \<notin> set (trim s)" using assms(2) set_trim [of s] by blast
    have "check_string_capacity (trim s) cap = Ok ()" and w: "w = VCode (to_uppercase (trim s))"
      using assms(1) Some check_string_capacity_cases [of "trim s" cap]
      by (auto simp: coerce_into_slot_def slot)
    then have "check_string_capacity (to_uppercase (trim s)) cap = Ok ()"
      by (simp add: check_string_capacity_Ok length_to_uppercase [OF s] split: option.splits)
    then show ?thesis
      by (simp add: coerce_into_slot_def slot w trim_uppercase)
        (auto simp: check_string_capacity_Ok)
  qed (use assms in \<open>auto simp: coerce_into_slot_def slot\<close>)
next
  case False
  then show ?thesis using assms
    by (cases slot; cases v) (auto simp: coerce_into_slot_def bind_res_def check_string_capacity_def
        split: sum.splits if_splits option.splits)
qed

lemma coerce_into_slot_keeps_slot_witness:
  "coerce_into_slot sample_decimal (VCode '''') (VText '' ab '') (Some 2) = Ok (VCode ''AB'') \<and>
   coerce_into_slot sample_decimal (VCode '''') (VCode ''AB'') (Some 2) = Ok (VCode ''AB'')"
proof -
  have "coerce_into_slot sample_decimal (VCode '''') (VText '' ab '') (Some 2) = Ok (VCode ''AB'')"
    by code_simp
  from this coerce_into_slot_keeps_slot [OF this] show ?thesis by simp
qed

text \<open>
  an integer assigned to a numeric variable keeps its number, and is refused exactly when the
  variable is an Integer and the number does not fit 32 bits.
\<close>

theorem coerce_integer:
  assumes "as_int v = Some n"
  shows "coerce_into_slot D (VInteger m) v cap =
      (if in_i32 n then Ok (VInteger n)
       else Err (''value '' @ show_int n @ '' is outside the Integer range'')) \<and>
    coerce_into_slot D (VBigInteger m) v cap = Ok (VBigInteger n) \<and>
    (dec_exact D \<and> in_i64 n \<longrightarrow>
       (\<exists>d'. coerce_into_slot D (VDecimal d) v cap = Ok (VDecimal d') \<and> dec_num D d' = of_int n))"
  using assms by (auto simp: coerce_into_slot_def dec_exact_def)

lemma coerce_integer_witness:
  "coerce_into_slot sample_decimal (VInteger 0) (VBigInteger 3000000000) None =
     Err (''value '' @ show_int 3000000000 @ '' is outside the Integer range'') \<and>
   (\<exists>d'. coerce_into_slot sample_decimal (VDecimal (0, 0)) (VBigInteger 3000000000) None = Ok (VDecimal d') \<and>
      dec_num sample_decimal d' = 3000000000)"
  using coerce_integer [of "VBigInteger 3000000000" 3000000000 sample_decimal 0 None "(0, 0)"]
    sample_decimal_exact
  by (simp add: int_range_defs)

lemma lower_type_names:
  "to_ascii_lowercase ''Integer'' = ''integer''" "to_ascii_lowercase ''BigInteger'' = ''biginteger''"
  "to_ascii_lowercase ''Decimal'' = ''decimal''" "to_ascii_lowercase ''Boolean'' = ''boolean''"
  "to_ascii_lowercase ''Text'' = ''text''" "to_ascii_lowercase ''Code'' = ''code''"
  "to_ascii_lowercase ''Date'' = ''date''" "to_ascii_lowercase ''Time'' = ''time''"
  "to_ascii_lowercase ''DateTime'' = ''datetime''" "to_ascii_lowercase ''Duration'' = ''duration''"
  "to_ascii_lowercase ''Guid'' = ''guid''" "to_ascii_lowercase ''Char'' = ''char''"
  "to_ascii_lowercase ''TextBuilder'' = ''textbuilder''" "to_ascii_lowercase ''JsonObject'' = ''jsonobject''"
  "to_ascii_lowercase ''JsonArray'' = ''jsonarray''" "to_ascii_lowercase ''JsonToken'' = ''jsontoken''"
  "to_ascii_lowercase ''JsonValue'' = ''jsonvalue''"
  by code_simp+

text \<open>the default value of a type has that type, the name compared without case.\<close>

theorem default_for_has_type:
  assumes "default_for D fresh t = Some v"
  shows "eq_ignore_ascii_case (type_name v) t"
proof -
  define t' where "t' = to_ascii_lowercase t"
  have "to_ascii_lowercase t' = t'"
    by (simp add: t'_def to_ascii_lowercase_def ascii_lower_char_def)
  then have "to_ascii_lowercase (type_name v) = t'"
    using assms unfolding default_for_def json_default_for_def Let_def t'_def [symmetric]
    by (auto simp: lower_type_names split: if_split_asm)
  then show ?thesis by (simp add: eq_ignore_ascii_case_def t'_def)
qed

lemma default_for_has_type_witness:
  "default_for sample_decimal 7 ''JsonArray'' = Some (VJson JArray (Some 7)) \<and>
   eq_ignore_ascii_case (type_name (VJson JArray (Some 7) :: mantissa val)) ''JsonArray''"
proof -
  have "default_for sample_decimal 7 ''JsonArray'' = Some (VJson JArray (Some 7))"
    by code_simp
  from this default_for_has_type [OF this] show ?thesis by simp
qed

text \<open>The capacity of a Code value is checked before the value is converted to upper case.\<close>

lemma coerce_sharp_s_overflows:
  "coerce_into_slot D (VCode '''') (VText [CHR 0xDF]) (Some 1) = Ok (VCode ''SS'')"
  by (simp add: coerce_into_slot_def check_string_capacity_def trim_def trim_start_def trim_end_def
      is_whitespace_def to_uppercase_def upper_char_def)

end
