(* ===== verification/Filter_Expr.thy ===== *)
theory Filter_Expr
  imports Value_Ops
begin

text \<open>
  Filter expressions (\<^verbatim>\<open>crates/al-runtime/src/mock/filter.rs\<close>): the syntax tree, the recursive-descent
  parser and the evaluator behind \<open>SetFilter\<close>.  A parser state is the text that remains; the byte
  position the error message gives is the length of what was consumed.
\<close>

section \<open>Syntax\<close>

datatype filter_error =
    UnexpectedEnd
  | UnexpectedChar char nat
  | EmptyFilter
  | UnmatchedParen
  | InvalidRange string string

record pattern =
  pat_text :: string
  case_sensitive :: bool

datatype 'd orderable = OInteger int | ODecimal 'd | OText string

datatype 'd filter_atom =
    Equals pattern
  | NotEqual pattern
  | LessThan "'d orderable"
  | LessEqual "'d orderable"
  | GreaterThan "'d orderable"
  | GreaterEqual "'d orderable"
  | Range "'d orderable" "'d orderable"

datatype 'd filter_expr = Or "'d filter_expr list" | And "'d filter_expr list" | Atom "'d filter_atom"

fun orderable_show :: "'d decimal_ops \<Rightarrow> 'd orderable \<Rightarrow> string" where
  "orderable_show D (OInteger n) = show_int n"
| "orderable_show D (ODecimal d) = dec_show D (dec_normalize D d)"
| "orderable_show D (OText s) = s"


section \<open>The scanner\<close>

abbreviation tab :: char where "tab \<equiv> CHR 0x09"
abbreviation quote1 :: char where "quote1 \<equiv> CHR 0x27"
abbreviation quote2 :: char where "quote2 \<equiv> CHR 0x22"

fun skip_whitespace :: "string \<Rightarrow> string" where
  "skip_whitespace [] = []"
| "skip_whitespace (c # cs) = (if c = CHR '' '' \<or> c = tab then skip_whitespace cs else c # cs)"

definition delimiter :: "char \<Rightarrow> bool" where
  "delimiter c \<longleftrightarrow> c = CHR '' '' \<or> c = tab \<or> c = CHR ''|'' \<or> c = CHR ''&'' \<or> c = CHR '')''"

fun take_token :: "string \<Rightarrow> string \<times> string" where
  "take_token [] = ([], [])"
| "take_token (c # cs) =
     (if delimiter c \<or> starts_with (c # cs) ''..'' then ([], c # cs)
      else let (t, r) = take_token cs in (c # t, r))"

fun take_quoted :: "char \<Rightarrow> string \<Rightarrow> filter_error + string \<times> string" where
  "take_quoted q [] = Err UnexpectedEnd"
| "take_quoted q (c # cs) =
     (if c = q then Ok ([], cs) else bind_res (take_quoted q cs) (\<lambda>(t, r). Ok (c # t, r)))"

definition read_token :: "string \<Rightarrow> filter_error + string \<times> string" where
  "read_token s =
     (case skip_whitespace s of
        [] \<Rightarrow> Err UnexpectedEnd
      | first # cs \<Rightarrow>
          if first = quote1 \<or> first = quote2 then take_quoted first cs
          else let (t, r) = take_token (first # cs) in
               if t = [] then Err UnexpectedEnd else Ok (t, r))"

definition parse_orderable_str :: "'d decimal_ops \<Rightarrow> string \<Rightarrow> 'd orderable option" where
  "parse_orderable_str D s =
     (case parse_i64 s of
        Some n \<Rightarrow> Some (OInteger n)
      | None \<Rightarrow> (case dec_parse D s of Some d \<Rightarrow> Some (ODecimal d) | None \<Rightarrow> Some (OText s)))"

definition pattern_of :: "string \<Rightarrow> pattern" where
  "pattern_of token =
     (if starts_with token ''@'' then \<lparr>pat_text = drop 1 token, case_sensitive = False\<rparr>
      else \<lparr>pat_text = token, case_sensitive = True\<rparr>)"

definition parse_pattern :: "string \<Rightarrow> filter_error + pattern \<times> string" where
  "parse_pattern s = bind_res (read_token s) (\<lambda>(token, r). Ok (pattern_of token, r))"

definition parse_orderable :: "'d decimal_ops \<Rightarrow> string \<Rightarrow> filter_error + 'd orderable \<times> string" where
  "parse_orderable D s =
     bind_res (read_token s) (\<lambda>(token, r).
       bind_res (ok_or (parse_orderable_str D token) UnexpectedEnd) (\<lambda>v. Ok (v, r)))"


section \<open>The parser\<close>

definition parse_atom :: "'d decimal_ops \<Rightarrow> string \<Rightarrow> filter_error + 'd filter_atom \<times> string" where
  "parse_atom D s =
     (case skip_whitespace s of
        [] \<Rightarrow> Err UnexpectedEnd
      | c # cs \<Rightarrow>
          if c = CHR ''<'' then
            (if starts_with cs ''>'' then
               bind_res (parse_pattern (drop 1 cs)) (\<lambda>(p, r). Ok (NotEqual p, r))
             else if starts_with cs ''='' then
               bind_res (parse_orderable D (drop 1 cs)) (\<lambda>(v, r). Ok (LessEqual v, r))
             else bind_res (parse_orderable D cs) (\<lambda>(v, r). Ok (LessThan v, r)))
          else if c = CHR ''>'' then
            (if starts_with cs ''='' then
               bind_res (parse_orderable D (drop 1 cs)) (\<lambda>(v, r). Ok (GreaterEqual v, r))
             else bind_res (parse_orderable D cs) (\<lambda>(v, r). Ok (GreaterThan v, r)))
          else
            bind_res (read_token (c # cs)) (\<lambda>(first_str, r).
              let r' = skip_whitespace r in
              if starts_with r' ''..'' then
                bind_res (read_token (drop 2 r')) (\<lambda>(second_str, r2).
                  bind_res (ok_or (parse_orderable_str D first_str) (InvalidRange first_str second_str)) (\<lambda>lo.
                  bind_res (ok_or (parse_orderable_str D second_str) (InvalidRange first_str second_str)) (\<lambda>hi.
                    Ok (Range lo hi, r2))))
              else Ok (Equals (pattern_of first_str), r')))"

function
  parse_expr :: "'d decimal_ops \<Rightarrow> string \<Rightarrow> filter_error + 'd filter_expr \<times> string" and
  or_loop :: "'d decimal_ops \<Rightarrow> 'd filter_expr list \<Rightarrow> string \<Rightarrow> filter_error + 'd filter_expr \<times> string" and
  parse_and :: "'d decimal_ops \<Rightarrow> string \<Rightarrow> filter_error + 'd filter_expr \<times> string" and
  and_loop :: "'d decimal_ops \<Rightarrow> 'd filter_expr list \<Rightarrow> string \<Rightarrow> filter_error + 'd filter_expr \<times> string" and
  parse_primary :: "'d decimal_ops \<Rightarrow> string \<Rightarrow> filter_error + 'd filter_expr \<times> string" where
  "parse_expr D s = bind_res (parse_and D s) (\<lambda>(first, r). or_loop D [first] r)"
| "or_loop D terms s =
     (let s' = skip_whitespace s in
      if starts_with s' ''|'' then
        bind_res (parse_and D (drop 1 s')) (\<lambda>(t, r). or_loop D (terms @ [t]) r)
      else Ok (if length terms = 1 then hd terms else Or terms, s'))"
| "parse_and D s = bind_res (parse_primary D s) (\<lambda>(first, r). and_loop D [first] r)"
| "and_loop D terms s =
     (let s' = skip_whitespace s in
      if starts_with s' ''&'' then
        bind_res (parse_primary D (drop 1 s')) (\<lambda>(t, r). and_loop D (terms @ [t]) r)
      else Ok (if length terms = 1 then hd terms else And terms, s'))"
| "parse_primary D s =
     (let s' = skip_whitespace s in
      if starts_with s' ''('' then
        bind_res (parse_expr D (drop 1 s')) (\<lambda>(inner, r).
          let r' = skip_whitespace r in
          if starts_with r' '')'' then Ok (inner, drop 1 r') else Err UnmatchedParen)
      else bind_res (parse_atom D s') (\<lambda>(a, r). Ok (Atom a, r)))"
  by pat_completeness auto

text \<open>The scanner consumes a prefix, and every loop of the parser starts by consuming a character.\<close>

lemma length_skip: "length (skip_whitespace s) \<le> length s"
  by (induction s) auto

lemma length_take_token: "take_token s = (t, r) \<Longrightarrow> length r \<le> length s"
  by (induction s arbitrary: t r) (auto split: if_splits prod.splits)

lemma length_take_quoted: "take_quoted q s = Inr (t, r) \<Longrightarrow> length r < length s"
proof (induction s arbitrary: t)
  case (Cons c s)
  then show ?case by (cases "take_quoted q s") (auto split: if_splits prod.splits)
qed simp

lemma starts_with_length: "starts_with s p \<Longrightarrow> length p \<le> length s"
  by (induction s p rule: starts_with.induct) auto

lemma length_read_token: "read_token s = Inr (t, r) \<Longrightarrow> length r < length s"
proof -
  assume a: "read_token s = Inr (t, r)"
  obtain c cs where s: "skip_whitespace s = c # cs"
    using a by (cases "skip_whitespace s") (auto simp: read_token_def)
  then have "length r < length (c # cs)"
    using a by (auto simp: read_token_def Let_def split: if_splits prod.splits
        dest: length_take_token length_take_quoted)
  then show ?thesis using length_skip [of s] s by simp
qed

lemma length_parse_pattern: "parse_pattern s = Inr (p, r) \<Longrightarrow> length r < length s"
  by (auto simp: parse_pattern_def bind_res_def split: sum.splits prod.splits dest: length_read_token)

lemma length_parse_orderable: "parse_orderable D s = Inr (p, r) \<Longrightarrow> length r < length s"
  by (auto simp: parse_orderable_def bind_res_def split: sum.splits prod.splits dest: length_read_token)

lemma bind_res_Inr: "bind_res r f = Inr y \<longleftrightarrow> (\<exists>x. r = Inr x \<and> f x = Inr y)"
  by (cases r) auto

lemma length_skip_drop: "length r < n \<Longrightarrow> length (skip_whitespace r) - k < n"
  using length_skip [of r] by simp

lemma length_parse_atom: "parse_atom D s = Inr (a, r) \<Longrightarrow> length r < length s"
proof -
  assume a: "parse_atom D s = Inr (a, r)"
  obtain c cs where s: "skip_whitespace s = c # cs"
    using a by (cases "skip_whitespace s") (auto simp: parse_atom_def)
  then have cs: "length cs < length s" using length_skip [of s] by simp
  have tok: "length (skip_whitespace r') - k < length s" if "read_token (c # cs) = Inr (t, r')" for t r' k
    using length_read_token [OF that] length_skip_drop [of r' "length s" k] cs by simp
  have tok2: "length r2 < length s"
    if "read_token (c # cs) = Inr (t, r')" "read_token (drop 2 (skip_whitespace r')) = Inr (t2, r2)" for t r' t2 r2
    using length_read_token [OF that(2)] tok [OF that(1), of 2] by simp
  from a cs show ?thesis
    by (simp add: parse_atom_def s bind_res_Inr Let_def split: if_splits)
      (auto dest!: length_parse_pattern length_parse_orderable intro: tok2, auto dest: tok [of _ _ 0])
qed

lemma starts_with_single: "starts_with s [c] \<longleftrightarrow> (\<exists>cs. s = c # cs)"
  by (cases s) auto

abbreviation "parser_dom \<equiv> parse_expr_or_loop_parse_and_and_loop_parse_primary_dom"

lemmas parser_psimps =
  parse_expr.psimps or_loop.psimps parse_and.psimps and_loop.psimps parse_primary.psimps

definition shrinks :: "string \<Rightarrow> filter_error + 'a \<times> string \<Rightarrow> bool" where
  "shrinks s res \<longleftrightarrow> (\<forall>e r. res = Inr (e, r) \<longrightarrow> length r \<le> length s)"

lemma shrinks_skip: "shrinks (drop 1 (skip_whitespace s)) res \<Longrightarrow> res = Inr (e, r) \<Longrightarrow> length r \<le> length s"
  using length_skip [of s] by (auto simp: shrinks_def)

lemma shrinks_bind:
  "shrinks s (bind_res res f) \<longleftrightarrow> (\<forall>e r. res = Inr (e, r) \<longrightarrow> shrinks s (f (e, r)))"
  by (cases res) (auto simp: shrinks_def)

lemma shrinks_Ok: "shrinks s (Ok (e, r)) \<longleftrightarrow> length r \<le> length s"
  by (simp add: shrinks_def)

lemma shrinks_Err: "shrinks s (Err x)"
  by (simp add: shrinks_def)

lemma shrinks_trans: "length r \<le> length s \<Longrightarrow> shrinks r res \<Longrightarrow> shrinks s res"
  by (auto simp: shrinks_def)

lemma shrinks_seq:
  "shrinks s res \<Longrightarrow> (\<And>e r. res = Inr (e, r) \<Longrightarrow> shrinks r (f (e, r))) \<Longrightarrow> shrinks s (bind_res res f)"
  by (auto simp: shrinks_bind) (auto simp: shrinks_def intro: le_trans)

lemma skip_drop_less: "starts_with (skip_whitespace s) [c] \<Longrightarrow> length (skip_whitespace s) - Suc 0 < length s"
  using length_skip [of s] by (cases "skip_whitespace s") auto

lemmas shrinks_simps = shrinks_bind shrinks_Ok shrinks_Err

lemma parser_shrinks:
  "parser_dom (Inl (Inl (D, s))) \<Longrightarrow> shrinks s (parse_expr D s)"
  "parser_dom (Inl (Inr (D, terms, s))) \<Longrightarrow> shrinks s (or_loop D terms s)"
  "parser_dom (Inr (Inl (D, s))) \<Longrightarrow> shrinks s (parse_and D s)"
  "parser_dom (Inr (Inr (Inl (D, terms, s)))) \<Longrightarrow> shrinks s (and_loop D terms s)"
  "parser_dom (Inr (Inr (Inr (D, s)))) \<Longrightarrow> shrinks s (parse_primary D s)"
proof (induction D s and D terms s and D s and D terms s and D s
    rule: parse_expr_or_loop_parse_and_and_loop_parse_primary.pinduct)
  case (1 D s)
  then show ?case by (simp add: parser_psimps) (rule shrinks_seq, auto)
next
  case (2 D terms s)
  let ?s = "skip_whitespace s"
  show ?case
  proof (cases "starts_with ?s ''|''")
    case True
    then have "shrinks s (bind_res (parse_and D (drop 1 ?s)) (\<lambda>(t, r). or_loop D (terms @ [t]) r))"
      using 2 length_skip [of s] by (intro shrinks_seq) (auto simp: shrinks_def)
    then show ?thesis using True 2 by (simp add: parser_psimps)
  qed (use 2 length_skip [of s] in \<open>simp add: parser_psimps shrinks_simps\<close>)
next
  case (3 D s)
  then show ?case by (simp add: parser_psimps) (rule shrinks_seq, auto)
next
  case (4 D terms s)
  let ?s = "skip_whitespace s"
  show ?case
  proof (cases "starts_with ?s ''&''")
    case True
    then have "shrinks s (bind_res (parse_primary D (drop 1 ?s)) (\<lambda>(t, r). and_loop D (terms @ [t]) r))"
      using 4 length_skip [of s] by (intro shrinks_seq) (auto simp: shrinks_def)
    then show ?thesis using True 4 by (simp add: parser_psimps)
  qed (use 4 length_skip [of s] in \<open>simp add: parser_psimps shrinks_simps\<close>)
next
  case (5 D s)
  have "length (skip_whitespace r) - 1 \<le> length s" if "length r \<le> length s" for r
    using that length_skip [of r] by simp
  with 5 show ?case using length_skip [of s]
    by (auto simp: parser_psimps shrinks_simps Let_def dest: shrinks_skip dest!: length_parse_atom)
qed

termination parse_expr
  apply (relation "measures [\<lambda>x. case x of Inl (Inl (D, s)) \<Rightarrow> length s | Inl (Inr (D, ts, s)) \<Rightarrow> length s
      | Inr (Inl (D, s)) \<Rightarrow> length s | Inr (Inr (Inl (D, ts, s))) \<Rightarrow> length s | Inr (Inr (Inr (D, s))) \<Rightarrow> length s,
    \<lambda>x. case x of Inl (Inl _) \<Rightarrow> 3 | Inl (Inr _) \<Rightarrow> 2
      | Inr (Inl _) \<Rightarrow> 2 | Inr (Inr (Inl _)) \<Rightarrow> 1 | Inr (Inr (Inr _)) \<Rightarrow> 0]")
            apply (auto dest!: parser_shrinks(3,5) simp: skip_drop_less shrinks_def)
   apply (meson le_less_trans skip_drop_less)+
  done

definition parse :: "'d decimal_ops \<Rightarrow> string \<Rightarrow> filter_error + 'd filter_expr" where
  "parse D expr =
     (let trimmed = trim expr in
      if trimmed = [] then Err EmptyFilter
      else bind_res (parse_expr D trimmed) (\<lambda>(result, r).
        case skip_whitespace r of
          [] \<Rightarrow> Ok result
        | c # cs \<Rightarrow> Err (UnexpectedChar c (str_len trimmed - str_len (c # cs)))))"


section \<open>The evaluator\<close>

definition table_set :: "bool list list \<Rightarrow> nat \<Rightarrow> nat \<Rightarrow> bool \<Rightarrow> bool list list" where
  "table_set dp i j b = dp[i := (dp ! i)[j := b]]"

definition wildcard_first_column :: "string \<Rightarrow> bool list list \<Rightarrow> nat \<Rightarrow> bool list list" where
  "wildcard_first_column p dp i =
     (if p ! (i - 1) = CHR ''*'' then table_set dp i 0 (dp ! (i - 1) ! 0) else dp)"

definition wildcard_cell :: "string \<Rightarrow> string \<Rightarrow> nat \<Rightarrow> bool list list \<Rightarrow> nat \<Rightarrow> bool list list" where
  "wildcard_cell p t i dp j =
     (if p ! (i - 1) = CHR ''*'' then table_set dp i j (dp ! (i - 1) ! j \<or> dp ! i ! (j - 1))
      else if p ! (i - 1) = CHR ''?'' \<or> p ! (i - 1) = t ! (j - 1) then table_set dp i j (dp ! (i - 1) ! (j - 1))
      else dp)"

text \<open>\<open>for i in 1..=n\<close>.\<close>

definition for_upto :: "nat \<Rightarrow> ('s \<Rightarrow> nat \<Rightarrow> 's) \<Rightarrow> 's \<Rightarrow> 's" where
  "for_upto n f s = foldl f s [1..<Suc n]"

definition wildcard_match :: "string \<Rightarrow> string \<Rightarrow> bool \<Rightarrow> bool" where
  "wildcard_match pat txt case_insensitive =
     (let p = (if case_insensitive then to_lowercase pat else pat);
          t = (if case_insensitive then to_lowercase txt else txt);
          pn = length p; tn = length t;
          dp0 = table_set (replicate (pn + 1) (replicate (tn + 1) False)) 0 0 True;
          dp1 = for_upto pn (wildcard_first_column p) dp0;
          dp2 = for_upto pn (\<lambda>dp i. for_upto tn (wildcard_cell p t i) dp) dp1 in
      dp2 ! pn ! tn)"

fun value_to_filter_string :: "'d decimal_ops \<Rightarrow> 'd val \<Rightarrow> string" where
  "value_to_filter_string D (VText s) = s"
| "value_to_filter_string D (VCode s) = s"
| "value_to_filter_string D (VInteger n) = show_int n"
| "value_to_filter_string D (VBigInteger n) = show_int n"
| "value_to_filter_string D (VDecimal d) = dec_show D (dec_normalize D d)"
| "value_to_filter_string D (VBoolean b) = (if b then ''true'' else ''false'')"
| "value_to_filter_string D (VChar c) = [c]"
| "value_to_filter_string D (VDate d) = show_int d"
| "value_to_filter_string D (VTime t) = show_int t"
| "value_to_filter_string D (VDateTime dt) = show_int dt"
| "value_to_filter_string D (VOption _ member _) = member"
| "value_to_filter_string D _ = ''''"

text \<open>The rule for set cells: an option answers to its member and to its ordinal.\<close>

definition caseless_cell :: "'d val \<Rightarrow> bool" where
  "caseless_cell v = (case v of VCode _ \<Rightarrow> True | VGuid _ \<Rightarrow> True | VOption _ _ _ \<Rightarrow> True | _ \<Rightarrow> False)"

definition pattern_matches_set :: "'d decimal_ops \<Rightarrow> pattern \<Rightarrow> 'd val \<Rightarrow> bool" where
  "pattern_matches_set D pat v =
     (case v of
        VOption _ member ordinal \<Rightarrow>
          wildcard_match (pat_text pat) member True \<or> wildcard_match (pat_text pat) (show_int ordinal) True
      | _ \<Rightarrow> wildcard_match (pat_text pat) (value_to_filter_string D v)
               (\<not> case_sensitive pat \<or> caseless_cell v))"

definition pattern_matches :: "'d decimal_ops \<Rightarrow> pattern \<Rightarrow> 'd val \<Rightarrow> bool" where
  "pattern_matches D pat v =
     (case v of
        VEmpty \<Rightarrow> (case dec_parse D (pat_text pat) of
                    Some number \<Rightarrow> dec_eq D number (dec_zero D)
                  | None \<Rightarrow> pattern_matches_set D pat v)
      | _ \<Rightarrow> pattern_matches_set D pat v)"

definition cmp_value :: "'d decimal_ops \<Rightarrow> 'd val \<Rightarrow> 'd orderable \<Rightarrow> ordering option" where
  "cmp_value D v ov =
     (case ov of
        OInteger b \<Rightarrow>
          (case v of
             VInteger a \<Rightarrow> Some (lcmp a b)
           | VBigInteger a \<Rightarrow> Some (lcmp a b)
           | VDecimal a \<Rightarrow> Some (dec_cmp D a (dec_from D b))
           | VDate a \<Rightarrow> Some (lcmp a b)
           | VTime a \<Rightarrow> Some (lcmp a b)
           | VDateTime a \<Rightarrow> Some (lcmp a b)
           | VOption _ _ ordinal \<Rightarrow> Some (lcmp ordinal b)
           | VEmpty \<Rightarrow> Some (lcmp 0 b)
           | _ \<Rightarrow> None)
      | ODecimal b \<Rightarrow>
          (case v of
             VInteger a \<Rightarrow> Some (dec_cmp D (dec_from D a) b)
           | VBigInteger a \<Rightarrow> Some (dec_cmp D (dec_from D a) b)
           | VDecimal a \<Rightarrow> Some (dec_cmp D a b)
           | VEmpty \<Rightarrow> Some (dec_cmp D (dec_zero D) b)
           | _ \<Rightarrow> None)
      | OText b \<Rightarrow>
          (case v of
             VCode a \<Rightarrow> Some (str_cmp (to_uppercase a) (to_uppercase b))
           | VText a \<Rightarrow> Some (str_cmp a b)
           | VEmpty \<Rightarrow> Some (str_cmp '''' b)
           | _ \<Rightarrow> None))"

definition is_some_and :: "'a option \<Rightarrow> ('a \<Rightarrow> bool) \<Rightarrow> bool" where
  "is_some_and x P = (case x of None \<Rightarrow> False | Some v \<Rightarrow> P v)"

fun atom_matches :: "'d decimal_ops \<Rightarrow> 'd filter_atom \<Rightarrow> 'd val \<Rightarrow> bool" where
  "atom_matches D (Equals pat) v = pattern_matches D pat v"
| "atom_matches D (NotEqual pat) v = (\<not> pattern_matches D pat v)"
| "atom_matches D (LessThan ov) v = is_some_and (cmp_value D v ov) is_lt"
| "atom_matches D (LessEqual ov) v = is_some_and (cmp_value D v ov) is_le"
| "atom_matches D (GreaterThan ov) v = is_some_and (cmp_value D v ov) is_gt"
| "atom_matches D (GreaterEqual ov) v = is_some_and (cmp_value D v ov) is_ge"
| "atom_matches D (Range lo hi) v =
     (is_some_and (cmp_value D v lo) is_ge \<and> is_some_and (cmp_value D v hi) is_le)"

fun matches :: "'d decimal_ops \<Rightarrow> 'd filter_expr \<Rightarrow> 'd val \<Rightarrow> bool" where
  "matches D (Or terms) v = list_ex (\<lambda>t. matches D t v) terms"
| "matches D (And terms) v = list_all (\<lambda>t. matches D t v) terms"
| "matches D (Atom atom) v = atom_matches D atom v"

section \<open>Wildcards: the table computes the language of the pattern\<close>

definition wildcard_char :: "char \<Rightarrow> string set" where
  "wildcard_char c = (if c = CHR ''*'' then UNIV else if c = CHR ''?'' then {u. length u = 1} else {[c]})"

definition conc :: "string set \<Rightarrow> string set \<Rightarrow> string set" where
  "conc A B = {u @ v | u v. u \<in> A \<and> v \<in> B}"

fun wildcard_lang :: "string \<Rightarrow> string set" where
  "wildcard_lang [] = {[]}"
| "wildcard_lang (c # p) = conc (wildcard_char c) (wildcard_lang p)"

lemma mem_conc: "w \<in> conc A B \<longleftrightarrow> (\<exists>u v. w = u @ v \<and> u \<in> A \<and> v \<in> B)"
  by (auto simp: conc_def)

lemma conc_assoc: "conc (conc A B) C = conc A (conc B C)"
proof (rule set_eqI)
  fix w
  show "w \<in> conc (conc A B) C \<longleftrightarrow> w \<in> conc A (conc B C)"
    by (auto simp: mem_conc) (metis append_assoc)+
qed

lemma conc_unit [simp]: "conc {[]} A = A" "conc A {[]} = A"
  by (auto simp: conc_def)

lemma wildcard_lang_snoc: "wildcard_lang (p @ [c]) = conc (wildcard_lang p) (wildcard_char c)"
  by (induction p) (simp_all add: conc_assoc)

definition wild :: "string \<Rightarrow> string \<Rightarrow> nat \<Rightarrow> nat \<Rightarrow> bool" where
  "wild p t i j \<longleftrightarrow> take j t \<in> wildcard_lang (take i p)"

lemma wild_first_row: "j \<le> length t \<Longrightarrow> wild p t 0 j \<longleftrightarrow> j = 0"
  by (auto simp: wild_def)

lemma wild_first_column: "i < length p \<Longrightarrow> wild p t (Suc i) 0 \<longleftrightarrow> p ! i = CHR ''*'' \<and> wild p t i 0"
  by (auto simp: wild_def take_Suc_conv_app_nth wildcard_lang_snoc mem_conc wildcard_char_def)

lemma wild_star:
  assumes "i < length p" "j < length t" "p ! i = CHR ''*''"
  shows "wild p t (Suc i) (Suc j) \<longleftrightarrow> wild p t i (Suc j) \<or> wild p t (Suc i) j"
proof
  assume "wild p t (Suc i) (Suc j)"
  then obtain u v where uv: "take (Suc j) t = u @ v" "u \<in> wildcard_lang (take i p)"
    using assms by (auto simp: wild_def take_Suc_conv_app_nth [of i] wildcard_lang_snoc mem_conc)
  show "wild p t i (Suc j) \<or> wild p t (Suc i) j"
  proof (cases v rule: rev_cases)
    case Nil
    then show ?thesis using uv by (simp add: wild_def)
  next
    case (snoc v' x)
    then have "take j t = u @ v'" using uv(1) assms(2) by (simp add: take_Suc_conv_app_nth)
    then show ?thesis using uv(2) assms
      by (auto simp: wild_def take_Suc_conv_app_nth [of i] wildcard_lang_snoc mem_conc wildcard_char_def)
  qed
next
  assume "wild p t i (Suc j) \<or> wild p t (Suc i) j"
  then show "wild p t (Suc i) (Suc j)"
  proof
    assume "wild p t i (Suc j)"
    then show ?thesis using assms
      by (simp add: wild_def take_Suc_conv_app_nth [of i] wildcard_lang_snoc mem_conc wildcard_char_def)
        (metis append_Nil2)
  next
    assume "wild p t (Suc i) j"
    then obtain u v where "take j t = u @ v" "u \<in> wildcard_lang (take i p)"
      using assms by (auto simp: wild_def take_Suc_conv_app_nth [of i] wildcard_lang_snoc mem_conc)
    then have "take (Suc j) t = u @ v @ [t ! j]" using assms(2) by (simp add: take_Suc_conv_app_nth)
    then show ?thesis using \<open>u \<in> _\<close> assms
      by (auto simp: wild_def take_Suc_conv_app_nth [of i] wildcard_lang_snoc mem_conc wildcard_char_def)
  qed
qed

lemma wild_char:
  assumes "i < length p" "j < length t" "p ! i \<noteq> CHR ''*''"
  shows "wild p t (Suc i) (Suc j) \<longleftrightarrow> (p ! i = CHR ''?'' \<or> p ! i = t ! j) \<and> wild p t i j"
proof -
  have one: "v \<in> wildcard_char (p ! i) \<longleftrightarrow> (\<exists>x. v = [x] \<and> (p ! i = CHR ''?'' \<or> p ! i = x))" for v
    using assms(3) by (auto simp: wildcard_char_def length_Suc_conv)
  show ?thesis using assms
    by (auto simp: wild_def take_Suc_conv_app_nth wildcard_lang_snoc mem_conc one)
qed

text \<open>The loops, by their invariants.\<close>

lemma for_upto_inv:
  assumes "P 0 s" and "\<And>k s. k < n \<Longrightarrow> P k s \<Longrightarrow> P (Suc k) (f s (Suc k))"
  shows "P n (for_upto n f s)"
proof -
  have "m \<le> n \<Longrightarrow> P m (foldl f s [1..<Suc m])" for m
    by (induction m) (use assms in simp_all)
  then show ?thesis by (simp add: for_upto_def)
qed

definition table_dims :: "nat \<Rightarrow> nat \<Rightarrow> bool list list \<Rightarrow> bool" where
  "table_dims pn tn dp \<longleftrightarrow> length dp = Suc pn \<and> (\<forall>i \<le> pn. length (dp ! i) = Suc tn)"

lemma table_dims_set [simp]: "table_dims pn tn dp \<Longrightarrow> i \<le> pn \<Longrightarrow> table_dims pn tn (table_set dp i j b)"
  by (auto simp: table_dims_def table_set_def nth_list_update)

lemma table_set_get:
  "table_dims pn tn dp \<Longrightarrow> i \<le> pn \<Longrightarrow> j \<le> tn \<Longrightarrow> i' \<le> pn \<Longrightarrow> j' \<le> tn \<Longrightarrow>
   table_set dp i j b ! i' ! j' = (if i' = i \<and> j' = j then b else dp ! i' ! j')"
  by (auto simp: table_dims_def table_set_def nth_list_update)

text \<open>\<open>done\<close> marks the cells already filled; the others are still false.\<close>

definition filled :: "string \<Rightarrow> string \<Rightarrow> (nat \<Rightarrow> nat \<Rightarrow> bool) \<Rightarrow> bool list list \<Rightarrow> bool" where
  "filled p t don dp \<longleftrightarrow> table_dims (length p) (length t) dp \<and>
     (\<forall>i \<le> length p. \<forall>j \<le> length t. dp ! i ! j \<longleftrightarrow> don i j \<and> wild p t i j)"

lemma filled_set:
  assumes "filled p t don dp" "i \<le> length p" "j \<le> length t" "b \<longleftrightarrow> wild p t i j"
    and "\<And>i' j'. don' i' j' \<longleftrightarrow> don i' j' \<or> i' = i \<and> j' = j"
  shows "filled p t don' (table_set dp i j b)"
  using assms by (auto simp: filled_def table_set_get split: if_splits)

lemma filled_skip:
  assumes "filled p t don dp" "\<not> wild p t i j" "\<And>i' j'. don' i' j' \<longleftrightarrow> don i' j' \<or> i' = i \<and> j' = j"
  shows "filled p t don' dp"
  using assms by (auto simp: filled_def)

lemma filled_initial:
  "filled p t (\<lambda>i j. i = 0) (table_set (replicate (length p + 1) (replicate (length t + 1) False)) 0 0 True)"
proof -
  let ?z = "replicate (length p + 1) (replicate (length t + 1) False)"
  have "table_dims (length p) (length t) ?z"
    unfolding table_dims_def by (auto simp: less_Suc_eq_le simp del: replicate_Suc)
  moreover have "\<not> ?z ! i ! j" if "i \<le> length p" "j \<le> length t" for i j
    using that by (simp add: less_Suc_eq_le del: replicate_Suc)
  ultimately show ?thesis
    by (auto simp: filled_def table_set_get wild_first_row simp del: replicate_Suc split: if_splits)
qed

lemma filled_first_column:
  "filled p t (\<lambda>i j. i = 0) dp \<Longrightarrow>
   filled p t (\<lambda>i j. i = 0 \<or> j = 0) (for_upto (length p) (wildcard_first_column p) dp)"
proof -
  assume a: "filled p t (\<lambda>i j. i = 0) dp"
  have "filled p t (\<lambda>i j. i = 0 \<or> j = 0 \<and> i \<le> length p) (for_upto (length p) (wildcard_first_column p) dp)"
  proof (rule for_upto_inv [where P = "\<lambda>k. filled p t (\<lambda>i j. i = 0 \<or> j = 0 \<and> i \<le> k)"], goal_cases)
    case 1
    have "(\<lambda>i j::nat. i = 0 \<or> j = 0 \<and> i \<le> 0) = (\<lambda>i j. i = (0::nat))" by auto
    then show ?case using a by simp
  next
    case (2 k dp)
    let ?don = "\<lambda>i j. i = 0 \<or> j = 0 \<and> i \<le> k"
    have prev: "dp ! k ! 0 \<longleftrightarrow> wild p t k 0" using 2 by (auto simp: filled_def)
    show ?case
    proof (cases "p ! k = CHR ''*''")
      case True
      then show ?thesis using 2 prev wild_first_column [OF 2(1), of t]
        by (auto simp: wildcard_first_column_def intro!: filled_set [where don = ?don])
    next
      case False
      then show ?thesis using 2 wild_first_column [OF 2(1), of t]
        by (auto simp: wildcard_first_column_def intro!: filled_skip [where don = ?don and i = "Suc k" and j = 0])
    qed
  qed
  then show ?thesis by (simp add: filled_def)
qed

lemma filled_row:
  assumes "i < length p" "filled p t (\<lambda>i' j. i' \<le> i \<or> j = 0) dp"
  shows "filled p t (\<lambda>i' j. i' \<le> Suc i \<or> j = 0) (for_upto (length t) (wildcard_cell p t (Suc i)) dp)"
proof -
  have "filled p t (\<lambda>i' j. i' \<le> i \<or> j = 0 \<or> i' = Suc i \<and> j \<le> length t)
      (for_upto (length t) (wildcard_cell p t (Suc i)) dp)"
  proof (rule for_upto_inv [where P = "\<lambda>k. filled p t (\<lambda>i' j. i' \<le> i \<or> j = 0 \<or> i' = Suc i \<and> j \<le> k)"],
      goal_cases)
    case 1
    have "(\<lambda>i' j::nat. i' \<le> i \<or> j = 0 \<or> i' = Suc i \<and> j \<le> 0) = (\<lambda>i' j. i' \<le> i \<or> j = 0)" by auto
    then show ?case using assms by simp
  next
    case (2 k dp)
    let ?don = "\<lambda>i' j. i' \<le> i \<or> j = 0 \<or> i' = Suc i \<and> j \<le> k"
    have prev: "dp ! i ! Suc k \<longleftrightarrow> wild p t i (Suc k)" "dp ! Suc i ! k \<longleftrightarrow> wild p t (Suc i) k"
      "dp ! i ! k \<longleftrightarrow> wild p t i k"
      using 2 assms(1) by (auto simp: filled_def)
    note rules = wild_star [OF assms(1) 2(1)] wild_char [OF assms(1) 2(1)]
    show ?case
    proof (cases "p ! i = CHR ''*''")
      case True
      then show ?thesis using 2 assms(1) prev rules(1)
        by (auto simp: wildcard_cell_def intro!: filled_set [where don = ?don])
    next
      case star: False
      show ?thesis
      proof (cases "p ! i = CHR ''?'' \<or> p ! i = t ! k")
        case True
        have "filled p t (\<lambda>i' j. i' \<le> i \<or> j = 0 \<or> i' = Suc i \<and> j \<le> Suc k) (table_set dp (Suc i) (Suc k) (dp ! i ! k))"
          by (rule filled_set [OF 2(2)]) (use True star rules(2) prev 2 assms(1) in auto)
        then show ?thesis using True star by (auto simp: wildcard_cell_def)
      next
        case False
        have "filled p t (\<lambda>i' j. i' \<le> i \<or> j = 0 \<or> i' = Suc i \<and> j \<le> Suc k) dp"
          by (rule filled_skip [OF 2(2)]) (use False star rules(2) in auto)
        then show ?thesis using False star by (auto simp: wildcard_cell_def)
      qed
    qed
  qed
  then show ?thesis by (auto simp: filled_def le_Suc_eq)
qed

lemma wildcard_match_lang:
  "wildcard_match pat txt ci \<longleftrightarrow>
   (if ci then to_lowercase txt else txt) \<in> wildcard_lang (if ci then to_lowercase pat else pat)"
proof -
  define p t where "p = (if ci then to_lowercase pat else pat)" and "t = (if ci then to_lowercase txt else txt)"
  define dp0 where "dp0 = table_set (replicate (length p + 1) (replicate (length t + 1) False)) 0 0 True"
  define dp1 where "dp1 = for_upto (length p) (wildcard_first_column p) dp0"
  define dp2 where "dp2 = for_upto (length p) (\<lambda>dp i. for_upto (length t) (wildcard_cell p t i) dp) dp1"
  have 1: "filled p t (\<lambda>i j. i \<le> 0 \<or> j = 0) dp1"
    using filled_first_column [OF filled_initial] by (simp add: dp1_def dp0_def)
  have "filled p t (\<lambda>i j. i \<le> length p \<or> j = 0) dp2"
    unfolding dp2_def
    by (rule for_upto_inv [where P = "\<lambda>k. filled p t (\<lambda>i j. i \<le> k \<or> j = 0)"], rule 1) (rule filled_row)
  then have "dp2 ! length p ! length t \<longleftrightarrow> t \<in> wildcard_lang p"
    by (simp add: filled_def wild_def)
  then show ?thesis
    by (simp add: wildcard_match_def Let_def p_def t_def dp0_def dp1_def dp2_def)
qed

end
