(* ===== verification/Record_Table.thy ===== *)
theory Record_Table
  imports Filter_Expr
begin

text \<open>
  The in-memory record table (\<^verbatim>\<open>crates/al-runtime/src/mock/record.rs\<close>): rows keyed by primary key, and
  for every record variable a view with its buffer, filters, sort key and cursor.  An operation
  returns its result together with the table and the view it leaves behind, because the code can
  change a view before it fails.  \<open>E\<close> holds the decimal interface and the shared contents a
  comparison of values reads.
\<close>

section \<open>Data\<close>

type_synonym field_no = int
type_synonym 'd primary_key = "'d val list"
type_synonym 'd row = "(field_no, 'd val) btree"

abbreviation row_get :: "'d row \<Rightarrow> field_no \<Rightarrow> 'd val option" where "row_get \<equiv> bt_get icmp"
abbreviation row_put :: "field_no \<Rightarrow> 'd val \<Rightarrow> 'd row \<Rightarrow> 'd row" where "row_put \<equiv> bt_insert icmp"

datatype flow_agg = AggSum | AggAverage | AggMin | AggMax | AggCount | AggExist | AggLookup

datatype 'd flow_filter = FlowEq "'d val" | FlowExpr "'d filter_expr"

datatype record_error =
    NotFound
  | DuplicateKey
  | MissingKeyField field_no
  | NoCurrentRow
  | EndOfSet
  | FilterParse field_no string
  | TriggerExecutionUnsupported string
  | FlowArithmeticOverflow string
  | PrimaryKeyModifyAll field_no
  | InvalidFindDirection char

datatype 'd field_filter = FieldRange "'d val" "'d val" | FieldExpr "'d filter_expr"

record sort_key =
  sk_fields :: "field_no list"
  descending :: bool

record 'd record_view =
  current :: "'d row"
  x_rec :: "'d row"
  filters :: "(field_no, 'd field_filter) btree"
  view_sort :: sort_key
  iter_set :: "'d primary_key list"
  iter_pos :: "nat option"

record 'd mock_record =
  mr_table_id :: int
  mr_table_name :: string
  primary_key_fields :: "field_no list"
  rows :: "('d primary_key, 'd row) btree"
  field_defaults :: "(field_no \<times> 'd val) list"
  mr_view :: "'d record_view"

record 'd pending_rename =
  old_key :: "'d primary_key"
  saved :: "'d row"

text \<open>The messages of \<open>FilterParseError\<close>, which \<open>FilterParse\<close> carries.\<close>

fun filter_error_show :: "filter_error \<Rightarrow> string" where
  "filter_error_show UnexpectedEnd = ''unexpected end of filter expression''"
| "filter_error_show (UnexpectedChar c pos) =
     ''unexpected character '' @ [quote1, c, quote1] @ '' at position '' @ show_nat pos"
| "filter_error_show EmptyFilter = ''empty filter expression''"
| "filter_error_show UnmatchedParen = ''unmatched parenthesis''"
| "filter_error_show (InvalidRange a b) = ''invalid range: '' @ [quote1] @ a @ ''..'' @ b @ [quote1]"


section \<open>Comparing cells\<close>

definition as_number :: "'d decimal_ops \<Rightarrow> 'd val \<Rightarrow> 'd option" where
  "as_number D v = as_decimal D v"

fun flow_text :: "'d val \<Rightarrow> string option" where
  "flow_text (VText s) = Some s"
| "flow_text (VCode s) = Some s"
| "flow_text (VGuid s) = Some s"
| "flow_text (VOption _ member _) = Some member"
| "flow_text (VBoolean b) = Some (if b then ''true'' else ''false'')"
| "flow_text _ = None"

text \<open>\<open>mem::discriminant\<close>: the variant, with Integer and BigInteger apart.\<close>

definition is_big_integer :: "'d val \<Rightarrow> bool" where
  "is_big_integer v = (case v of VBigInteger _ \<Rightarrow> True | _ \<Rightarrow> False)"

definition is_code :: "'d val \<Rightarrow> bool" where
  "is_code v = (case v of VCode _ \<Rightarrow> True | _ \<Rightarrow> False)"

definition is_empty_cell :: "'d val \<Rightarrow> bool" where
  "is_empty_cell v = (case v of VEmpty \<Rightarrow> True | _ \<Rightarrow> False)"

definition same_discriminant :: "'d val \<Rightarrow> 'd val \<Rightarrow> bool" where
  "same_discriminant a b \<longleftrightarrow>
     variant_index a = variant_index b \<and> (is_big_integer a \<longleftrightarrow> is_big_integer b)"

definition zero_like :: "'d decimal_ops \<Rightarrow> 'd val \<Rightarrow> 'd val option" where
  "zero_like D bound =
     (case bound of
        VInteger _ \<Rightarrow> Some (VInteger 0)
      | VBigInteger _ \<Rightarrow> Some (VInteger 0)
      | VDecimal _ \<Rightarrow> Some (VDecimal (dec_zero D))
      | VBoolean _ \<Rightarrow> Some (VBoolean False)
      | VText _ \<Rightarrow> Some (VText '''')
      | VCode _ \<Rightarrow> Some (VCode '''')
      | VDate _ \<Rightarrow> Some (VDate 0)
      | VTime _ \<Rightarrow> Some (VTime 0)
      | VDateTime _ \<Rightarrow> Some (VDateTime 0)
      | VDuration _ \<Rightarrow> Some (VDuration 0)
      | VChar _ \<Rightarrow> Some (VChar (CHR 0x00))
      | VOption t member _ \<Rightarrow> Some (VOption t member 0)
      | _ \<Rightarrow> None)"

text \<open>\<open>field_cmp\<close> past its first test, for a value that is set or a bound that is not.\<close>

definition field_cmp_set :: "'d env \<Rightarrow> 'd val \<Rightarrow> 'd val \<Rightarrow> ordering option" where
  "field_cmp_set E value bound =
     (case (as_number (dec E) value, as_number (dec E) bound) of
        (Some x, Some y) \<Rightarrow> Some (dec_cmp (dec E) x y)
      | _ \<Rightarrow>
          (case (flow_text value, flow_text bound) of
             (Some x, Some y) \<Rightarrow>
               Some (if is_code value then str_cmp (to_uppercase x) (to_uppercase y) else str_cmp x y)
           | _ \<Rightarrow> if same_discriminant value bound then Some (compare E value bound) else None))"

definition field_cmp :: "'d env \<Rightarrow> 'd val \<Rightarrow> 'd val \<Rightarrow> ordering option" where
  "field_cmp E value bound =
     (if is_empty_cell value \<and> \<not> is_empty_cell bound
      then Option.bind (zero_like (dec E) bound) (\<lambda>zero. field_cmp_set E zero bound)
      else field_cmp_set E value bound)"

fun field_filter_matches :: "'d env \<Rightarrow> 'd field_filter \<Rightarrow> 'd val \<Rightarrow> bool" where
  "field_filter_matches E (FieldRange lo hi) v =
     (is_some_and (field_cmp E v lo) is_ge \<and> is_some_and (field_cmp E v hi) is_le)"
| "field_filter_matches E (FieldExpr e) v = matches (dec E) e v"

definition normalize_key_value :: "'d decimal_ops \<Rightarrow> 'd val \<Rightarrow> 'd val" where
  "normalize_key_value D v =
     (case v of
        VCode s \<Rightarrow> VCode (to_uppercase s)
      | VInteger n \<Rightarrow> VDecimal (dec_from D n)
      | VBigInteger n \<Rightarrow> VDecimal (dec_from D n)
      | other \<Rightarrow> other)"

definition normalize_key :: "'d decimal_ops \<Rightarrow> 'd primary_key \<Rightarrow> 'd primary_key" where
  "normalize_key D ks = map (normalize_key_value D) ks"

definition key_of :: "'d decimal_ops \<Rightarrow> sort_key \<Rightarrow> 'd row \<Rightarrow> 'd val list" where
  "key_of D sk r =
     map (\<lambda>f. case row_get r f of None \<Rightarrow> VEmpty | Some v \<Rightarrow> normalize_key_value D v) (sk_fields sk)"

definition row_matches_filters ::
  "'d env \<Rightarrow> (field_no, 'd field_filter) btree \<Rightarrow> 'd row \<Rightarrow> bool" where
  "row_matches_filters E fs r \<longleftrightarrow>
     list_all (\<lambda>(field, flt). field_filter_matches E flt
       (case row_get r field of None \<Rightarrow> VEmpty | Some v \<Rightarrow> v)) fs"


section \<open>Views\<close>

definition default_view :: "'d record_view" where
  "default_view = \<lparr>current = [], x_rec = [], filters = [],
     view_sort = \<lparr>sk_fields = [], descending = False\<rparr>, iter_set = [], iter_pos = None\<rparr>"

definition from_fields :: "field_no list \<Rightarrow> sort_key" where
  "from_fields fs = \<lparr>sk_fields = fs, descending = False\<rparr>"

definition copy_buffers_from :: "'d record_view \<Rightarrow> 'd record_view \<Rightarrow> 'd record_view" where
  "copy_buffers_from v other = v\<lparr>current := current other, x_rec := x_rec other\<rparr>"

definition clear_cursor :: "'d record_view \<Rightarrow> 'd record_view" where
  "clear_cursor v = v\<lparr>iter_set := [], iter_pos := None\<rparr>"

definition new_record :: "int \<Rightarrow> string \<Rightarrow> field_no list \<Rightarrow> 'd mock_record" where
  "new_record table_id table_name pk =
     \<lparr>mr_table_id = table_id, mr_table_name = table_name, primary_key_fields = pk, rows = [],
      field_defaults = [], mr_view = default_view\<lparr>view_sort := from_fields pk\<rparr>\<rparr>"

definition with_field_defaults :: "'d mock_record \<Rightarrow> (field_no \<times> 'd val) list \<Rightarrow> 'd mock_record" where
  "with_field_defaults T ds = T\<lparr>field_defaults := ds\<rparr>"

definition new_view :: "'d mock_record \<Rightarrow> 'd record_view" where
  "new_view T = default_view\<lparr>view_sort := from_fields (primary_key_fields T)\<rparr>"

text \<open>
  What an operation leaves: its result, the table and the view.  Operations that only read the
  table return no table.
\<close>

type_synonym ('d, 'a) table_result = "(record_error + 'a) \<times> 'd mock_record \<times> 'd record_view"
type_synonym ('d, 'a) view_result = "(record_error + 'a) \<times> 'd record_view"

definition with_default_view ::
  "('d mock_record \<Rightarrow> 'd record_view \<Rightarrow> 'r \<times> 'd mock_record \<times> 'd record_view) \<Rightarrow>
   'd mock_record \<Rightarrow> 'r \<times> 'd mock_record" where
  "with_default_view f T =
     (case f (T\<lparr>mr_view := default_view\<rparr>) (mr_view T) of (res, T', v) \<Rightarrow> (res, T'\<lparr>mr_view := v\<rparr>))"

text \<open>The closures \<open>|table, view| table.op_in(view)\<close> of operations that leave the table alone.\<close>

definition on_view ::
  "('d mock_record \<Rightarrow> 'd record_view \<Rightarrow> 'r \<times> 'd record_view) \<Rightarrow>
   'd mock_record \<Rightarrow> 'd record_view \<Rightarrow> 'r \<times> 'd mock_record \<times> 'd record_view" where
  "on_view f T v = (case f T v of (res, v') \<Rightarrow> (res, T, v'))"


section \<open>Fields and keys\<close>

definition field_set_in :: "'d record_view \<Rightarrow> field_no \<Rightarrow> 'd val \<Rightarrow> 'd record_view" where
  "field_set_in v f x = v\<lparr>current := row_put f x (current v)\<rparr>"

definition field_set :: "'d mock_record \<Rightarrow> field_no \<Rightarrow> 'd val \<Rightarrow> 'd mock_record" where
  "field_set T f x = T\<lparr>mr_view := field_set_in (mr_view T) f x\<rparr>"

definition field_get_in :: "'d record_view \<Rightarrow> field_no \<Rightarrow> 'd val option" where
  "field_get_in v f = row_get (current v) f"

definition field_get :: "'d mock_record \<Rightarrow> field_no \<Rightarrow> 'd val option" where
  "field_get T f = field_get_in (mr_view T) f"

definition primary_key_len :: "'d mock_record \<Rightarrow> nat" where
  "primary_key_len T = length (primary_key_fields T)"

definition key_of_row :: "'d env \<Rightarrow> 'd mock_record \<Rightarrow> 'd row \<Rightarrow> record_error + 'd primary_key" where
  "key_of_row E T r =
     collect_res (map (\<lambda>f.
       case (case row_get r f of Some v \<Rightarrow> Some v | None \<Rightarrow> map_of (field_defaults T) f) of
         Some v \<Rightarrow> Ok (normalize_key_value (dec E) v)
       | None \<Rightarrow> Err (MissingKeyField f)) (primary_key_fields T))"

definition current_primary_key ::
  "'d env \<Rightarrow> 'd mock_record \<Rightarrow> 'd record_view \<Rightarrow> record_error + 'd primary_key" where
  "current_primary_key E T v = key_of_row E T (current v)"

definition init_in :: "'d mock_record \<Rightarrow> 'd record_view \<Rightarrow> 'd record_view" where
  "init_in T v =
     (let preserved = List.map_filter (\<lambda>f. map_option (Pair f) (row_get (current v) f)) (primary_key_fields T) in
      v\<lparr>current := foldl (\<lambda>r (f, x). row_put f x r) [] preserved, x_rec := [], iter_pos := None\<rparr>)"

definition init :: "'d mock_record \<Rightarrow> 'd mock_record" where
  "init T = snd (with_default_view (on_view (\<lambda>T v. ((), init_in T v))) T)"

definition reset_in :: "'d mock_record \<Rightarrow> 'd record_view \<Rightarrow> 'd record_view" where
  "reset_in T v =
     v\<lparr>filters := [], view_sort := from_fields (primary_key_fields T), iter_set := [], iter_pos := None\<rparr>"

definition reset :: "'d mock_record \<Rightarrow> 'd mock_record" where
  "reset T = snd (with_default_view (on_view (\<lambda>T v. ((), reset_in T v))) T)"

abbreviation rows_get :: "'d env \<Rightarrow> 'd mock_record \<Rightarrow> 'd primary_key \<Rightarrow> 'd row option" where
  "rows_get E T k \<equiv> bt_get (key_cmp E) (rows T) k"

definition load_row :: "'d row \<Rightarrow> 'd record_view \<Rightarrow> 'd record_view" where
  "load_row r v = v\<lparr>current := r, x_rec := r\<rparr>"

definition reload_stored_in :: "'d env \<Rightarrow> 'd mock_record \<Rightarrow> 'd record_view \<Rightarrow> 'd record_view" where
  "reload_stored_in E T v =
     (case current_primary_key E T v of
        Inl _ \<Rightarrow> v
      | Inr key \<Rightarrow> (case rows_get E T (normalize_key (dec E) key) of None \<Rightarrow> v | Some r \<Rightarrow> load_row r v))"

definition get_in :: "'d env \<Rightarrow> 'd primary_key \<Rightarrow> 'd mock_record \<Rightarrow> 'd record_view \<Rightarrow> ('d, unit) view_result" where
  "get_in E key T v =
     (case rows_get E T (normalize_key (dec E) key) of
        None \<Rightarrow> (Err NotFound, v)
      | Some r \<Rightarrow> (Ok (), load_row r v))"

definition get :: "'d env \<Rightarrow> 'd mock_record \<Rightarrow> 'd primary_key \<Rightarrow> (record_error + unit) \<times> 'd mock_record" where
  "get E T key = with_default_view (on_view (get_in E key)) T"

section \<open>Writing rows\<close>

definition insert_in :: "'d env \<Rightarrow> bool \<Rightarrow> 'd mock_record \<Rightarrow> 'd record_view \<Rightarrow> ('d, unit) table_result" where
  "insert_in E run_trigger T v =
     (if run_trigger then (Err (TriggerExecutionUnsupported ''Insert''), T, v)
      else case current_primary_key E T v of
        Inl e \<Rightarrow> (Err e, T, v)
      | Inr key \<Rightarrow>
          if bt_contains (key_cmp E) (rows T) key then (Err DuplicateKey, T, v)
          else (Ok (), T\<lparr>rows := bt_insert (key_cmp E) key (current v) (rows T)\<rparr>, v\<lparr>x_rec := current v\<rparr>))"

definition insert_row :: "'d env \<Rightarrow> 'd mock_record \<Rightarrow> bool \<Rightarrow> (record_error + unit) \<times> 'd mock_record" where
  "insert_row E T run_trigger = with_default_view (insert_in E run_trigger) T"

text \<open>\<open>get_mut\<close> and the assignment through it put a value under a key that is there.\<close>

definition modify_in :: "'d env \<Rightarrow> bool \<Rightarrow> 'd mock_record \<Rightarrow> 'd record_view \<Rightarrow> ('d, unit) table_result" where
  "modify_in E run_trigger T v =
     (if run_trigger then (Err (TriggerExecutionUnsupported ''Modify''), T, v)
      else case current_primary_key E T v of
        Inl e \<Rightarrow> (Err e, T, v)
      | Inr key \<Rightarrow>
          (case rows_get E T key of
             None \<Rightarrow> (Err NotFound, T, v)
           | Some old_row \<Rightarrow>
               (Ok (), T\<lparr>rows := bt_insert (key_cmp E) key (current v) (rows T)\<rparr>, v\<lparr>x_rec := old_row\<rparr>)))"

definition modify :: "'d env \<Rightarrow> 'd mock_record \<Rightarrow> bool \<Rightarrow> (record_error + unit) \<times> 'd mock_record" where
  "modify E T run_trigger = with_default_view (modify_in E run_trigger) T"

definition delete_in :: "'d env \<Rightarrow> bool \<Rightarrow> 'd mock_record \<Rightarrow> 'd record_view \<Rightarrow> ('d, unit) table_result" where
  "delete_in E run_trigger T v =
     (if run_trigger then (Err (TriggerExecutionUnsupported ''Delete''), T, v)
      else case current_primary_key E T v of
        Inl e \<Rightarrow> (Err e, T, v)
      | Inr key \<Rightarrow>
          if bt_contains (key_cmp E) (rows T) key
          then (Ok (), T\<lparr>rows := bt_remove (key_cmp E) key (rows T)\<rparr>, v)
          else (Err NotFound, T, v))"

definition delete_row :: "'d env \<Rightarrow> 'd mock_record \<Rightarrow> bool \<Rightarrow> (record_error + unit) \<times> 'd mock_record" where
  "delete_row E T run_trigger = with_default_view (delete_in E run_trigger) T"

definition remove_keys :: "'d env \<Rightarrow> 'd primary_key list \<Rightarrow> ('d primary_key, 'd row) btree \<Rightarrow> ('d primary_key, 'd row) btree" where
  "remove_keys E ks m = foldl (\<lambda>m k. bt_remove (key_cmp E) k m) m ks"

definition delete_all_in :: "'d env \<Rightarrow> bool \<Rightarrow> 'd mock_record \<Rightarrow> 'd record_view \<Rightarrow> ('d, nat) table_result" where
  "delete_all_in E run_trigger T v =
     (if run_trigger then (Err (TriggerExecutionUnsupported ''Delete''), T, v)
      else let doomed = map fst (filter (\<lambda>(_, r). row_matches_filters E (filters v) r) (rows T)) in
        (Ok (length doomed), T\<lparr>rows := remove_keys E doomed (rows T)\<rparr>, v\<lparr>iter_set := [], iter_pos := None\<rparr>))"

definition delete_all :: "'d env \<Rightarrow> 'd mock_record \<Rightarrow> bool \<Rightarrow> (record_error + nat) \<times> 'd mock_record" where
  "delete_all E T run_trigger = with_default_view (delete_all_in E run_trigger) T"


section \<open>Rename\<close>

definition put_all :: "(field_no \<times> 'd val) list \<Rightarrow> 'd row \<Rightarrow> 'd row" where
  "put_all kvs r = foldl (\<lambda>r (f, x). row_put f x r) r kvs"

definition start_rename_in ::
  "'d env \<Rightarrow> (field_no \<times> 'd val) list \<Rightarrow> 'd mock_record \<Rightarrow> 'd record_view \<Rightarrow> ('d, 'd pending_rename) view_result" where
  "start_rename_in E new_key_values T v =
     (case current_primary_key E T v of
        Inl e \<Rightarrow> (Err e, v)
      | Inr key \<Rightarrow> (Ok \<lparr>old_key = key, saved = current v\<rparr>, v\<lparr>current := put_all new_key_values (current v)\<rparr>))"

definition key_eq :: "'d env \<Rightarrow> 'd primary_key \<Rightarrow> 'd primary_key \<Rightarrow> bool" where
  "key_eq E a b \<longleftrightarrow> key_cmp E a b = Equal"

definition move_renamed_row ::
  "'d env \<Rightarrow> 'd primary_key \<Rightarrow> 'd mock_record \<Rightarrow> 'd record_view \<Rightarrow> ('d, unit) table_result" where
  "move_renamed_row E old T v =
     (case current_primary_key E T v of
        Inl e \<Rightarrow> (Err e, T, v)
      | Inr new_key \<Rightarrow>
          if \<not> bt_contains (key_cmp E) (rows T) old then (Err NotFound, T, v)
          else if \<not> key_eq E new_key old \<and> bt_contains (key_cmp E) (rows T) new_key then (Err DuplicateKey, T, v)
          else let v' = (case rows_get E T old of Some old_row \<Rightarrow> v\<lparr>x_rec := old_row\<rparr> | None \<Rightarrow> v);
                   rs = bt_remove (key_cmp E) old (rows T) in
               (Ok (), T\<lparr>rows := bt_insert (key_cmp E) new_key (current v') rs\<rparr>, v'))"

definition finish_rename_in ::
  "'d env \<Rightarrow> 'd pending_rename \<Rightarrow> 'd mock_record \<Rightarrow> 'd record_view \<Rightarrow> ('d, unit) table_result" where
  "finish_rename_in E pending T v =
     (case move_renamed_row E (old_key pending) T v of
        (Inl e, T', v') \<Rightarrow> (Err e, T', v'\<lparr>current := saved pending\<rparr>)
      | (Inr u, T', v') \<Rightarrow> (Ok u, T', v'))"

definition cancel_rename_in :: "'d record_view \<Rightarrow> 'd pending_rename \<Rightarrow> 'd record_view" where
  "cancel_rename_in v pending = v\<lparr>current := saved pending\<rparr>"

definition rename_in ::
  "'d env \<Rightarrow> (field_no \<times> 'd val) list \<Rightarrow> 'd mock_record \<Rightarrow> 'd record_view \<Rightarrow> ('d, unit) table_result" where
  "rename_in E new_key_values T v =
     (case start_rename_in E new_key_values T v of
        (Inl e, v') \<Rightarrow> (Err e, T, v')
      | (Inr pending, v') \<Rightarrow> finish_rename_in E pending T v')"

definition rename ::
  "'d env \<Rightarrow> 'd mock_record \<Rightarrow> (field_no \<times> 'd val) list \<Rightarrow> (record_error + unit) \<times> 'd mock_record" where
  "rename E T new_key_values = with_default_view (rename_in E new_key_values) T"


section \<open>Filters and sort order\<close>

definition set_current_key_in :: "'d record_view \<Rightarrow> field_no list \<Rightarrow> 'd record_view" where
  "set_current_key_in v fs =
     v\<lparr>view_sort := (view_sort v)\<lparr>sk_fields := fs\<rparr>, iter_set := [], iter_pos := None\<rparr>"

definition set_ascending_in :: "'d record_view \<Rightarrow> bool \<Rightarrow> 'd record_view" where
  "set_ascending_in v ascending =
     v\<lparr>view_sort := (view_sort v)\<lparr>descending := \<not> ascending\<rparr>, iter_set := [], iter_pos := None\<rparr>"

definition is_ascending_in :: "'d record_view \<Rightarrow> bool" where
  "is_ascending_in v \<longleftrightarrow> \<not> descending (view_sort v)"

definition set_current_key :: "'d mock_record \<Rightarrow> field_no list \<Rightarrow> 'd mock_record" where
  "set_current_key T fs = snd (with_default_view (on_view (\<lambda>T v. ((), set_current_key_in v fs))) T)"

definition put_filter :: "field_no \<Rightarrow> 'd field_filter \<Rightarrow> 'd record_view \<Rightarrow> 'd record_view" where
  "put_filter f flt v = v\<lparr>filters := bt_insert icmp f flt (filters v), iter_set := [], iter_pos := None\<rparr>"

definition set_range_in :: "'d record_view \<Rightarrow> field_no \<Rightarrow> 'd val \<Rightarrow> 'd val \<Rightarrow> 'd record_view" where
  "set_range_in v f low high = put_filter f (FieldRange low high) v"

definition set_range :: "'d mock_record \<Rightarrow> field_no \<Rightarrow> 'd val \<Rightarrow> 'd val \<Rightarrow> 'd mock_record" where
  "set_range T f low high = snd (with_default_view (on_view (\<lambda>T v. ((), set_range_in v f low high))) T)"

definition clear_filter_in :: "'d record_view \<Rightarrow> field_no \<Rightarrow> 'd record_view" where
  "clear_filter_in v f = v\<lparr>filters := bt_remove icmp f (filters v), iter_set := [], iter_pos := None\<rparr>"

definition clear_filter :: "'d mock_record \<Rightarrow> field_no \<Rightarrow> 'd mock_record" where
  "clear_filter T f = snd (with_default_view (on_view (\<lambda>T v. ((), clear_filter_in v f))) T)"

definition set_filter_in :: "'d env \<Rightarrow> field_no \<Rightarrow> string \<Rightarrow> 'd record_view \<Rightarrow> ('d, unit) view_result" where
  "set_filter_in E f expr v =
     (case parse (dec E) expr of
        Inl e \<Rightarrow> (Err (FilterParse f (filter_error_show e)), v)
      | Inr parsed \<Rightarrow> (Ok (), put_filter f (FieldExpr parsed) v))"

definition set_filter :: "'d env \<Rightarrow> 'd mock_record \<Rightarrow> field_no \<Rightarrow> string \<Rightarrow> (record_error + unit) \<times> 'd mock_record" where
  "set_filter E T f expr = with_default_view (on_view (\<lambda>T. set_filter_in E f expr)) T"


section \<open>The cursor\<close>

text \<open>\<open>slice::sort_by\<close>, which is stable: a later element goes before the first that is not smaller.\<close>

fun insort_by :: "('a \<Rightarrow> 'a \<Rightarrow> ordering) \<Rightarrow> 'a \<Rightarrow> 'a list \<Rightarrow> 'a list" where
  "insort_by c x [] = [x]"
| "insort_by c x (y # ys) = (if c x y = Greater then y # insort_by c x ys else x # y # ys)"

definition sort_by :: "('a \<Rightarrow> 'a \<Rightarrow> ordering) \<Rightarrow> 'a list \<Rightarrow> 'a list" where
  "sort_by c xs = foldr (insort_by c) xs []"

text \<open>The comparison of \<open>matching_keys_in\<close>.  Its keys come from the table, so the lookups succeed.\<close>

definition sort_cells :: "'d env \<Rightarrow> 'd mock_record \<Rightarrow> 'd record_view \<Rightarrow> 'd primary_key \<Rightarrow> 'd val list" where
  "sort_cells E T v k = (case rows_get E T k of Some r \<Rightarrow> key_of (dec E) (view_sort v) r | None \<Rightarrow> [])"

definition matching_keys_in :: "'d env \<Rightarrow> 'd mock_record \<Rightarrow> 'd record_view \<Rightarrow> 'd primary_key list" where
  "matching_keys_in E T v =
     (let keys = map fst (filter (\<lambda>(_, r). row_matches_filters E (filters v) r) (rows T));
          sorted = sort_by (\<lambda>a b. key_cmp E (sort_cells E T v a) (sort_cells E T v b)) keys in
      if descending (view_sort v) then rev sorted else sorted)"

definition build_iter_set :: "'d env \<Rightarrow> 'd mock_record \<Rightarrow> 'd record_view \<Rightarrow> 'd record_view" where
  "build_iter_set E T v = v\<lparr>iter_set := matching_keys_in E T v\<rparr>"

definition load_row_at :: "'d env \<Rightarrow> nat \<Rightarrow> 'd mock_record \<Rightarrow> 'd record_view \<Rightarrow> ('d, unit) view_result" where
  "load_row_at E pos T v =
     (if pos < length (iter_set v) then
        (case rows_get E T (iter_set v ! pos) of
           None \<Rightarrow> (Err NotFound, v)
         | Some r \<Rightarrow> (Ok (), (load_row r v)\<lparr>iter_pos := Some pos\<rparr>))
      else (Err EndOfSet, v))"

definition find_at :: "'d env \<Rightarrow> (nat \<Rightarrow> nat) \<Rightarrow> 'd mock_record \<Rightarrow> 'd record_view \<Rightarrow> ('d, bool) view_result" where
  "find_at E which T v =
     (let v' = build_iter_set E T v in
      if iter_set v' = [] then (Ok False, v'\<lparr>iter_pos := None\<rparr>)
      else case load_row_at E (which (length (iter_set v'))) T v' of
        (Inl e, v'') \<Rightarrow> (Err e, v'')
      | (Inr _, v'') \<Rightarrow> (Ok True, v''))"

definition find_first_in :: "'d env \<Rightarrow> 'd mock_record \<Rightarrow> 'd record_view \<Rightarrow> ('d, bool) view_result" where
  "find_first_in E T v = find_at E (\<lambda>_. 0) T v"

definition find_first :: "'d env \<Rightarrow> 'd mock_record \<Rightarrow> (record_error + bool) \<times> 'd mock_record" where
  "find_first E T = with_default_view (on_view (find_first_in E)) T"

definition find_last_in :: "'d env \<Rightarrow> 'd mock_record \<Rightarrow> 'd record_view \<Rightarrow> ('d, bool) view_result" where
  "find_last_in E T v = find_at E (\<lambda>n. n - 1) T v"

definition find_last :: "'d env \<Rightarrow> 'd mock_record \<Rightarrow> (record_error + bool) \<times> 'd mock_record" where
  "find_last E T = with_default_view (on_view (find_last_in E)) T"

definition find_set_in :: "'d env \<Rightarrow> 'd mock_record \<Rightarrow> 'd record_view \<Rightarrow> ('d, bool) view_result" where
  "find_set_in E T v = find_first_in E T v"

definition find_set :: "'d env \<Rightarrow> 'd mock_record \<Rightarrow> (record_error + bool) \<times> 'd mock_record" where
  "find_set E T = with_default_view (on_view (find_set_in E)) T"

definition find_in :: "'d env \<Rightarrow> char \<Rightarrow> 'd mock_record \<Rightarrow> 'd record_view \<Rightarrow> ('d, bool) view_result" where
  "find_in E direction T v =
     (if direction = CHR ''-'' then find_first_in E T v
      else if direction = CHR ''+'' then find_last_in E T v
      else (Err (InvalidFindDirection direction), v))"

definition find_dir :: "'d env \<Rightarrow> 'd mock_record \<Rightarrow> char \<Rightarrow> (record_error + bool) \<times> 'd mock_record" where
  "find_dir E T direction = with_default_view (on_view (find_in E direction)) T"

definition next_in :: "'d env \<Rightarrow> int \<Rightarrow> 'd mock_record \<Rightarrow> 'd record_view \<Rightarrow> ('d, int) view_result" where
  "next_in E steps T v =
     (case iter_pos v of
        None \<Rightarrow> (Err NoCurrentRow, v)
      | Some current_pos \<Rightarrow>
          if steps = 0 \<or> iter_set v = [] then (Ok 0, v)
          else
            let last_pos = int (length (iter_set v)) - 1;
                target = int current_pos + steps;
                clamped = max 0 (min last_pos target);
                actual = clamped - int current_pos in
            if actual = 0 then (Ok 0, v)
            else case load_row_at E (nat clamped) T v of
              (Inl e, v') \<Rightarrow> (Err e, v')
            | (Inr _, v') \<Rightarrow> (Ok actual, v'))"

definition next_row :: "'d env \<Rightarrow> 'd mock_record \<Rightarrow> int \<Rightarrow> (record_error + int) \<times> 'd mock_record" where
  "next_row E T steps = with_default_view (on_view (next_in E steps)) T"

definition is_empty_in :: "'d env \<Rightarrow> 'd mock_record \<Rightarrow> 'd record_view \<Rightarrow> bool" where
  "is_empty_in E T v = list_all (\<lambda>(_, r). \<not> row_matches_filters E (filters v) r) (rows T)"

definition is_empty :: "'d env \<Rightarrow> 'd mock_record \<Rightarrow> bool" where
  "is_empty E T = is_empty_in E T (mr_view T)"

definition count_in :: "'d env \<Rightarrow> 'd mock_record \<Rightarrow> 'd record_view \<Rightarrow> nat" where
  "count_in E T v = length (filter (\<lambda>(_, r). row_matches_filters E (filters v) r) (rows T))"

definition count_rows :: "'d env \<Rightarrow> 'd mock_record \<Rightarrow> nat" where
  "count_rows E T = count_in E T (mr_view T)"

section \<open>Updates of many rows\<close>

definition modify_all_in ::
  "'d env \<Rightarrow> field_no \<Rightarrow> 'd val \<Rightarrow> bool \<Rightarrow> 'd mock_record \<Rightarrow> 'd record_view \<Rightarrow> (record_error + nat) \<times> 'd mock_record" where
  "modify_all_in E f x run_trigger T v =
     (if run_trigger then (Err (TriggerExecutionUnsupported ''ModifyAll''), T)
      else if f \<in> set (primary_key_fields T) then (Err (PrimaryKeyModifyAll f), T)
      else (Ok (count_in E T v),
            T\<lparr>rows := map (\<lambda>(k, r). (k, if row_matches_filters E (filters v) r then row_put f x r else r)) (rows T)\<rparr>))"

text \<open>
  \<open>replace_field_value\<close>.  The sets of vacated and taken keys are lists here, read by
  \<^verbatim>\<open>key_eq\<close>; \<open>self.rows[key]\<close> indexes with keys taken from the table.
\<close>

definition cell_or :: "'d val \<Rightarrow> 'd row \<Rightarrow> field_no \<Rightarrow> 'd val" where
  "cell_or d r f = (case row_get r f of None \<Rightarrow> d | Some v \<Rightarrow> v)"

definition holding_keys :: "'d env \<Rightarrow> field_no \<Rightarrow> 'd val \<Rightarrow> 'd mock_record \<Rightarrow> 'd primary_key list" where
  "holding_keys E f old T =
     (let old' = normalize_key_value (dec E) old;
          dflt = (case map_of (field_defaults T) f of None \<Rightarrow> VEmpty | Some d \<Rightarrow> d) in
      map fst (filter (\<lambda>(_, r). value_eq E (normalize_key_value (dec E) (cell_or dflt r f)) old') (rows T)))"

definition moved_row ::
  "'d env \<Rightarrow> field_no \<Rightarrow> 'd val \<Rightarrow> 'd mock_record \<Rightarrow> 'd primary_key \<Rightarrow>
   record_error + 'd primary_key \<times> 'd primary_key \<times> 'd row" where
  "moved_row E f new T k =
     (let r = row_put f new (case rows_get E T k of Some r \<Rightarrow> r | None \<Rightarrow> []) in
      bind_res (key_of_row E T r) (\<lambda>new_key. Ok (k, new_key, r)))"

definition has_key :: "'d env \<Rightarrow> 'd primary_key list \<Rightarrow> 'd primary_key \<Rightarrow> bool" where
  "has_key E ks k = list_ex (\<lambda>j. key_eq E j k) ks"

fun keys_free :: "'d env \<Rightarrow> 'd mock_record \<Rightarrow> 'd primary_key list \<Rightarrow> 'd primary_key list \<Rightarrow> 'd primary_key list \<Rightarrow> bool" where
  "keys_free E T vacated taken [] = True"
| "keys_free E T vacated taken (new_key # ks) =
     (if bt_contains (key_cmp E) (rows T) new_key \<and> \<not> has_key E vacated new_key \<or> has_key E taken new_key
      then False else keys_free E T vacated (new_key # taken) ks)"

definition replace_field_value ::
  "'d env \<Rightarrow> field_no \<Rightarrow> 'd val \<Rightarrow> 'd val \<Rightarrow> 'd mock_record \<Rightarrow> (record_error + nat) \<times> 'd mock_record" where
  "replace_field_value E f old new T =
     (let matching = holding_keys E f old T in
      if f \<notin> set (primary_key_fields T) then
        (Ok (length matching),
         T\<lparr>rows := foldl (\<lambda>m k. case bt_get (key_cmp E) m k of
                              Some r \<Rightarrow> bt_insert (key_cmp E) k (row_put f new r) m | None \<Rightarrow> m) (rows T) matching\<rparr>)
      else case collect_res (map (moved_row E f new T) matching) of
        Inl e \<Rightarrow> (Err e, T)
      | Inr moved \<Rightarrow>
          if \<not> keys_free E T matching [] (map (fst \<circ> snd) moved) then (Err DuplicateKey, T)
          else
            (Ok (length matching),
             T\<lparr>rows := foldl (\<lambda>m (_, k, r). bt_insert (key_cmp E) k r m)
                         (remove_keys E (map fst moved) (rows T)) moved\<rparr>))"


section \<open>The invariant of a table\<close>

text \<open>
  Every key is a list of scalar values as \<^verbatim>\<open>normalize_key\<close> leaves them, one per key field; keys are strictly
  increasing; and every row is stored under the key its own cells give.
\<close>

abbreviation scalar_keys :: "'d primary_key set" where
  "scalar_keys \<equiv> {ks. \<forall>v \<in> set ks. scalar v}"

definition row_ok :: "'d row \<Rightarrow> bool" where
  "row_ok r \<longleftrightarrow> bt_ok icmp UNIV r \<and> (\<forall>(_, v) \<in> set r. scalar v)"

definition table_ok :: "'d env \<Rightarrow> 'd mock_record \<Rightarrow> bool" where
  "table_ok E T \<longleftrightarrow>
     bt_ok (key_cmp E) scalar_keys (rows T) \<and>
     (\<forall>(_, d) \<in> set (field_defaults T). scalar d) \<and>
     (\<forall>(k, r) \<in> set (rows T). row_ok r \<and> (\<exists>k'. key_of_row E T r = Ok k' \<and> key_eq E k k'))"

definition view_ok :: "'d record_view \<Rightarrow> bool" where
  "view_ok v \<longleftrightarrow> row_ok (current v) \<and> row_ok (x_rec v) \<and> bt_ok icmp UNIV (filters v) \<and>
     (\<forall>k \<in> set (iter_set v). k \<in> scalar_keys) \<and>
     (\<forall>pos. iter_pos v = Some pos \<longrightarrow> pos < length (iter_set v))"

end
