(* ===== verification/Record_Invariant.thy ===== *)
theory Record_Invariant
  imports Record_Table
begin

text \<open>
  The table invariant and what the writing operations of \<^verbatim>\<open>record.rs\<close> do to the rows.  The lookups and
  updates rest on the laws of the key order, interpreted for primary keys in \<^verbatim>\<open>Value_Order\<close>.
\<close>

section \<open>Keys of rows\<close>

lemma scalar_normalize: "scalar v \<Longrightarrow> scalar (normalize_key_value D v)"
  by (cases v) (simp_all add: normalize_key_value_def)

lemma row_get_scalar: "row_ok r \<Longrightarrow> row_get r f = Some v \<Longrightarrow> scalar v"
  by (auto simp: row_ok_def dest!: ints.get_SomeD)

lemma row_ok_Nil [simp]: "row_ok []"
  by (simp add: row_ok_def)

lemma row_ok_put: "row_ok r \<Longrightarrow> scalar x \<Longrightarrow> row_ok (row_put f x r)"
  by (auto simp: row_ok_def ints.ok_insert dest!: ints.insert_mem)

lemma row_get_put: "row_ok r \<Longrightarrow> row_get (row_put f x r) g = (if g = f then Some x else row_get r g)"
  by (auto simp: row_ok_def ints.get_insert)

lemma put_all_Cons: "put_all ((f, x) # kvs) r = put_all kvs (row_put f x r)"
  by (simp add: put_all_def)

lemma row_ok_put_all: "row_ok r \<Longrightarrow> \<forall>(_, x) \<in> set kvs. scalar x \<Longrightarrow> row_ok (put_all kvs r)"
proof (induction kvs arbitrary: r)
  case (Cons kv kvs)
  then show ?case by (cases kv) (auto simp: put_all_Cons row_ok_put)
qed (simp add: put_all_def)

definition key_cell :: "'d env \<Rightarrow> 'd mock_record \<Rightarrow> 'd row \<Rightarrow> field_no \<Rightarrow> 'd val option" where
  "key_cell E T r f =
     map_option (normalize_key_value (dec E))
       (case row_get r f of Some v \<Rightarrow> Some v | None \<Rightarrow> map_of (field_defaults T) f)"

lemma key_of_row_Ok:
  "key_of_row E T r = Inr k \<longleftrightarrow> map (key_cell E T r) (primary_key_fields T) = map Some k"
proof -
  let ?cell = "\<lambda>f. case row_get r f of Some v \<Rightarrow> Some v | None \<Rightarrow> map_of (field_defaults T) f"
  have one: "(case ?cell f of Some v \<Rightarrow> Ok (normalize_key_value (dec E) v) | None \<Rightarrow> Err (MissingKeyField f)) = Inr w \<longleftrightarrow>
      key_cell E T r f = Some w" for f w
    by (cases "?cell f") (simp_all add: key_cell_def)
  show ?thesis
    unfolding key_of_row_def collect_res_Inr by (auto simp: list_eq_iff_nth_eq one)
qed

lemma key_cells: "key_of_row E T r = Inr k \<Longrightarrow> v \<in> set k \<Longrightarrow> \<exists>f. key_cell E T r f = Some v"
proof -
  assume "key_of_row E T r = Inr k" and "v \<in> set k"
  then have "Some v \<in> set (map (key_cell E T r) (primary_key_fields T))" by (simp add: key_of_row_Ok)
  then show ?thesis by auto
qed

lemma key_of_row_rows [simp]: "key_of_row E (T\<lparr>rows := m\<rparr>) = key_of_row E T"
  by (rule ext) (simp add: key_of_row_def cong: option.case_cong)

lemma key_of_row_view [simp]: "key_of_row E (T\<lparr>mr_view := v\<rparr>) = key_of_row E T"
  by (rule ext) (simp add: key_of_row_def cong: option.case_cong)

lemma current_primary_key_rows [simp]: "current_primary_key E (T\<lparr>rows := m\<rparr>) = current_primary_key E T"
  by (rule ext) (simp add: current_primary_key_def)

lemma key_of_row_scalar:
  assumes "row_ok r" "\<forall>(_, d) \<in> set (field_defaults T). scalar d" "key_of_row E T r = Inr k"
  shows "k \<in> scalar_keys"
proof -
  have "scalar v" if "key_cell E T r f = Some v" for f v
    using that assms(2) row_get_scalar [OF assms(1), of f] scalar_normalize
    by (auto simp: key_cell_def split: option.splits dest!: map_of_SomeD)
  then show ?thesis using key_cells [OF assms(3)] by blast
qed

lemma key_of_row_length: "key_of_row E T r = Inr k \<Longrightarrow> length k = length (primary_key_fields T)"
  by (metis key_of_row_Ok length_map)

text \<open>A stored key is normalised, and normalising it again compares equal.\<close>

lemma normalize_idem: "normalize_key_value D (normalize_key_value D v) = normalize_key_value D v"
  by (cases v) (simp_all add: normalize_key_value_def to_uppercase_idem)

lemma normalize_key_of_row: "key_of_row E T r = Inr k \<Longrightarrow> normalize_key (dec E) k = k"
proof -
  assume k: "key_of_row E T r = Inr k"
  have "\<exists>w. v = normalize_key_value (dec E) w" if "v \<in> set k" for v
    using key_cells [OF k that] by (auto simp: key_cell_def)
  then have "normalize_key_value (dec E) v = v" if "v \<in> set k" for v
    using that normalize_idem [of "dec E"] by metis
  then show ?thesis by (simp add: normalize_key_def map_idI)
qed


section \<open>The invariant\<close>

lemma table_ok_D:
  assumes "table_ok E T"
  shows "bt_ok (key_cmp E) scalar_keys (rows T)" "\<forall>(_, d) \<in> set (field_defaults T). scalar d"
    "(k, r) \<in> set (rows T) \<Longrightarrow> row_ok r"
    "(k, r) \<in> set (rows T) \<Longrightarrow> \<exists>k'. key_of_row E T r = Inr k' \<and> key_eq E k k'"
  using assms by (auto simp: table_ok_def)

lemma key_eq_sym: "j \<in> scalar_keys \<Longrightarrow> k \<in> scalar_keys \<Longrightarrow> key_eq E j k \<Longrightarrow> key_eq E k j"
  unfolding key_eq_def by (rule keys.eq_sym) auto

lemma key_eq_self: "k \<in> scalar_keys \<Longrightarrow> key_eq E k k"
  unfolding key_eq_def by (rule keys.cmp_refl) auto

lemma current_key_scalar:
  "table_ok E T \<Longrightarrow> row_ok (current v) \<Longrightarrow> current_primary_key E T v = Inr k \<Longrightarrow> k \<in> scalar_keys"
  using key_of_row_scalar [of "current v" T E k] table_ok_D(2) [of E T]
  by (simp add: current_primary_key_def)

lemma table_ok_put_at:
  assumes ok: "table_ok E T" and r: "row_ok r" and K: "k \<in> scalar_keys"
    and k: "key_of_row E T r = Inr k0" "key_eq E k k0"
    and m: "bt_ok (key_cmp E) scalar_keys m" "set m \<subseteq> set (rows T)"
  shows "table_ok E (T\<lparr>rows := bt_insert (key_cmp E) k r m\<rparr>)"
proof -
  have K0: "k0 \<in> scalar_keys" using key_of_row_scalar [OF r _ k(1)] table_ok_D(2) [OF ok] by blast
  have "row_ok r' \<and> (\<exists>k''. key_of_row E T r' = Inr k'' \<and> key_eq E k' k'')"
    if "(k', r') \<in> set (bt_insert (key_cmp E) k r m)" for k' r'
  proof (cases "(k', r') \<in> set (rows T)")
    case True
    then show ?thesis using table_ok_D(3,4) [OF ok] by blast
  next
    case False
    have "k' \<in> insert k (fst ` set m)" using fst_bt_insert [of "key_cmp E" k r m] that by force
    then have K': "k' \<in> scalar_keys" using m(1) K by (auto simp: bt_ok_def)
    have "r' = r" "key_cmp E k k' = Equal" using keys.insert_mem [OF that] K False m(2) by auto
    then show ?thesis using r k keys.eq_left [of k k' k0 E] K K' K0 by (simp add: key_eq_def)
  qed
  then show ?thesis using keys.ok_insert [OF m(1), of k r] K table_ok_D(2) [OF ok]
    by (auto simp: table_ok_def)
qed

lemma table_ok_put:
  assumes ok: "table_ok E T" and r: "row_ok r" and k: "key_of_row E T r = Inr k"
    and m: "bt_ok (key_cmp E) scalar_keys m" "set m \<subseteq> set (rows T)"
  shows "table_ok E (T\<lparr>rows := bt_insert (key_cmp E) k r m\<rparr>)"
proof -
  have K: "k \<in> scalar_keys" using key_of_row_scalar [OF r _ k] table_ok_D(2) [OF ok] by blast
  show ?thesis by (rule table_ok_put_at [OF ok r K k key_eq_self [OF K] m])
qed

lemma table_ok_shrink:
  assumes "table_ok E T" "bt_ok (key_cmp E) scalar_keys m" "set m \<subseteq> set (rows T)"
  shows "table_ok E (T\<lparr>rows := m\<rparr>)"
  using assms by (fastforce simp: table_ok_def)

lemma rows_get_row_ok: "table_ok E T \<Longrightarrow> rows_get E T k = Some r \<Longrightarrow> row_ok r"
  by (meson keys.get_SomeD table_ok_D(3))

lemma view_ok_D: "view_ok v \<Longrightarrow> row_ok (current v)" "view_ok v \<Longrightarrow> row_ok (x_rec v)"
  by (simp_all add: view_ok_def)

lemma view_ok_load: "view_ok v \<Longrightarrow> row_ok r \<Longrightarrow> view_ok (load_row r v)"
  by (simp add: view_ok_def load_row_def)

lemma view_ok_x_rec: "view_ok v \<Longrightarrow> row_ok r \<Longrightarrow> view_ok (v\<lparr>x_rec := r\<rparr>)"
  by (simp add: view_ok_def)

lemma view_ok_current: "view_ok v \<Longrightarrow> row_ok r \<Longrightarrow> view_ok (v\<lparr>current := r\<rparr>)"
  by (simp add: view_ok_def)

text \<open>What every table operation keeps.\<close>

definition keeps :: "'d env \<Rightarrow> ('d, 'a) table_result \<Rightarrow> bool" where
  "keeps E res \<longleftrightarrow> (case res of (_, T, v) \<Rightarrow> table_ok E T \<and> view_ok v)"

lemma keepsI [intro]: "table_ok E T \<Longrightarrow> view_ok v \<Longrightarrow> keeps E (x, T, v)"
  by (simp add: keeps_def)

lemma insert_keeps: "table_ok E T \<Longrightarrow> view_ok v \<Longrightarrow> keeps E (insert_in E run_trigger T v)"
  using table_ok_put [of E T "current v"] table_ok_D(1) [of E T] view_ok_D [of v] view_ok_x_rec [of v]
  by (auto simp: insert_in_def current_primary_key_def split: sum.splits)

lemma modify_keeps: "table_ok E T \<Longrightarrow> view_ok v \<Longrightarrow> keeps E (modify_in E run_trigger T v)"
  using table_ok_put [of E T "current v"] table_ok_D(1) [of E T] view_ok_D [of v] view_ok_x_rec [of v]
    rows_get_row_ok [of E T]
  by (auto simp: modify_in_def current_primary_key_def split: sum.splits option.splits)

lemma delete_keeps: "table_ok E T \<Longrightarrow> view_ok v \<Longrightarrow> keeps E (delete_in E run_trigger T v)"
  using table_ok_shrink [of E T, OF _ keys.ok_remove set_bt_remove] table_ok_D(1) [of E T]
  by (auto simp: delete_in_def split: sum.splits)

lemma remove_selected:
  assumes ok: "bt_ok (key_cmp E) scalar_keys m"
  shows "remove_keys E (map fst (filter P m)) m = filter (\<lambda>x. \<not> P x) m"
proof -
  have K: "set (map fst (filter P m)) \<subseteq> scalar_keys" using ok by (auto simp: bt_ok_def)
  show ?thesis
    unfolding remove_keys_def keys.remove_all_is_filter [OF ok K]
  proof (rule filter_cong [OF refl])
    fix x assume x: "x \<in> set m"
    obtain a r where ar: "x = (a, r)" by (cases x)
    have a: "a \<in> scalar_keys" using ok x ar by (auto simp: bt_ok_def)
    have "\<exists>k \<in> set (map fst (filter P m)). key_cmp E k a = Equal" if "P x"
      using that x ar keys.cmp_refl [of a E] a by force
    moreover have "P x" if k: "k \<in> set (map fst (filter P m))" "key_cmp E k a = Equal" for k
    proof -
      obtain s where s: "(k, s) \<in> set m" "P (k, s)" using k(1) by auto
      have "bt_get (key_cmp E) m a = Some r" using keys.get_self [OF ok] x ar by simp
      have "k \<in> scalar_keys" using s ok by (auto simp: bt_ok_def)
      have "k = a"
      proof (rule ccontr)
        assume "k \<noteq> a"
        with s(1) x ar obtain i j where ij: "i < length m" "j < length m" "m ! i = (k, s)" "m ! j = (a, r)" "i \<noteq> j"
          by (metis in_set_conv_nth prod.inject)
        have "sorted_wrt (\<lambda>x y. key_cmp E x y = Less) (map fst m)" using ok by (simp add: bt_ok_def bt_sorted_def)
        then have "key_cmp E k a = Less \<or> key_cmp E a k = Less"
          using ij by (auto simp: sorted_wrt_iff_nth_less) (metis fst_conv linorder_neqE_nat nth_map)
        then show False using k(2) keys.cmp_swap [of k a E] a \<open>k \<in> scalar_keys\<close> by auto
      qed
      then show ?thesis using s ar x keys.distinct_keys [OF ok] by (metis eq_key_imp_eq_value)
    qed
    ultimately show "(case x of (a, _) \<Rightarrow> \<forall>k \<in> set (map fst (filter P m)). key_cmp E k a \<noteq> Equal) \<longleftrightarrow> \<not> P x"
      unfolding ar prod.case by blast
  qed
qed

lemma delete_all_rows:
  "table_ok E T \<Longrightarrow>
   remove_keys E (map fst (filter (\<lambda>(_, r). P r) (rows T))) (rows T) = filter (\<lambda>(_, r). \<not> P r) (rows T)"
  by (subst remove_selected [OF table_ok_D(1)]) (auto intro!: filter_cong)

lemma view_ok_clear: "view_ok v \<Longrightarrow> view_ok (v\<lparr>iter_set := [], iter_pos := None\<rparr>)"
  by (simp add: view_ok_def)

lemma delete_all_keeps: "table_ok E T \<Longrightarrow> view_ok v \<Longrightarrow> keeps E (delete_all_in E run_trigger T v)"
  using table_ok_shrink [of E T "filter (\<lambda>(_, r). \<not> row_matches_filters E (filters v) r) (rows T)"]
    bt_ok_filter [OF table_ok_D(1)] delete_all_rows [of E T] view_ok_clear [of v]
  by (auto simp: delete_all_in_def Let_def)

lemma rename_keeps:
  assumes "table_ok E T" "view_ok v" "\<forall>(_, x) \<in> set kvs. scalar x"
  shows "keeps E (rename_in E kvs T v)"
proof (cases "current_primary_key E T v")
  case (Inr old)
  let ?v = "v\<lparr>current := put_all kvs (current v)\<rparr>"
  have v: "view_ok ?v"
    using assms row_ok_put_all view_ok_D(1) by (intro view_ok_current) blast+
  note table_ok_put [OF assms(1) _ _ keys.ok_remove set_bt_remove]
  from this [of "current ?v"] show ?thesis
    using Inr assms(1,2) v view_ok_x_rec [OF v] rows_get_row_ok [OF assms(1)]
      table_ok_D(1) [OF assms(1)] view_ok_D(1) [OF v]
    by (auto simp: rename_in_def start_rename_in_def finish_rename_in_def move_renamed_row_def Let_def
        current_primary_key_def split: sum.splits option.splits)
qed (use assms in \<open>auto simp: rename_in_def start_rename_in_def\<close>)

section \<open>Updates of many rows\<close>

lemma key_of_row_put_other:
  "row_ok r \<Longrightarrow> f \<notin> set (primary_key_fields T) \<Longrightarrow> key_of_row E T (row_put f x r) = key_of_row E T r"
  unfolding key_of_row_def by (intro arg_cong [where f = collect_res] map_cong) (auto simp: row_get_put)

lemma modify_all_keeps:
  assumes "table_ok E T" "scalar x"
  shows "table_ok E (snd (modify_all_in E f x run_trigger T v))"
proof (cases "run_trigger \<or> f \<in> set (primary_key_fields T)")
  case False
  let ?g = "\<lambda>k r. if row_matches_filters E (filters v) r then row_put f x r else r"
  have "row_ok (?g k r) \<and> (\<exists>k'. key_of_row E T (?g k r) = Inr k' \<and> key_eq E k k')"
    if "(k, r) \<in> set (rows T)" for k r
    using table_ok_D(3,4) [OF assms(1) that] assms(2) False
    by (auto simp: row_ok_put key_of_row_put_other)
  then show ?thesis
    using False bt_ok_map_values [of "key_cmp E" scalar_keys ?g "rows T"] assms(1)
    by (auto simp: modify_all_in_def table_ok_def)
qed (use assms in \<open>auto simp: modify_all_in_def\<close>)

lemma put_existing_keeps:
  assumes "table_ok E T" "scalar x" "f \<notin> set (primary_key_fields T)" "k \<in> scalar_keys"
  shows "table_ok E (T\<lparr>rows := (case rows_get E T k of
      Some r \<Rightarrow> bt_insert (key_cmp E) k (row_put f x r) (rows T) | None \<Rightarrow> rows T)\<rparr>)"
proof (cases "rows_get E T k")
  case (Some r)
  from keys.get_SomeD [OF this] obtain k' where k': "(k', r) \<in> set (rows T)" "key_cmp E k k' = Equal" by blast
  then obtain k0 where k0: "row_ok r" "key_of_row E T r = Inr k0" "key_eq E k' k0"
    using table_ok_D(3,4) [OF assms(1)] by blast
  have K: "k' \<in> scalar_keys" "k0 \<in> scalar_keys"
    using k'(1) table_ok_D(1) [OF assms(1)] key_of_row_scalar [OF k0(1) table_ok_D(2) [OF assms(1)] k0(2)]
    by (auto simp: bt_ok_def)
  have "key_eq E k k0" using keys.eq_left [of k k' k0 E] k'(2) k0(3) K assms(4) by (simp add: key_eq_def)
  then show ?thesis
    using table_ok_put_at [OF assms(1) _ assms(4), of "row_put f x r" k0 "rows T"] k0 assms
      table_ok_D(1) [OF assms(1)]
    by (simp add: Some row_ok_put key_of_row_put_other)
qed (use assms in simp)

lemma put_moved_keeps:
  "table_ok E T \<Longrightarrow> \<forall>(_, k, r) \<in> set moved. row_ok r \<and> key_of_row E T r = Inr k \<Longrightarrow>
   table_ok E (T\<lparr>rows := foldl (\<lambda>m (_, k, r). bt_insert (key_cmp E) k r m) (rows T) moved\<rparr>)"
proof (induction moved arbitrary: T)
  case (Cons x moved)
  obtain j k r where x: "x = (j, k, r)" by (cases x)
  let ?T = "T\<lparr>rows := bt_insert (key_cmp E) k r (rows T)\<rparr>"
  have "table_ok E ?T" using Cons.prems table_ok_D(1) [OF Cons.prems(1)] by (intro table_ok_put) (auto simp: x)
  from Cons.IH [OF this] show ?case using Cons.prems(2) by (simp add: x)
qed simp

lemma moved_rows:
  assumes "table_ok E T" "scalar new" "collect_res (map (moved_row E f new T) ks) = Inr moved"
  shows "map fst moved = ks" "\<forall>(_, k, r) \<in> set moved. row_ok r \<and> key_of_row E T r = Inr k"
proof -
  from assms(3) have m: "map (moved_row E f new T) ks = map Inr moved" by (simp add: collect_res_Inr)
  have one: "k' = k \<and> row_ok r \<and> key_of_row E T r = Inr nk" if "moved_row E f new T k = Inr (k', nk, r)" for k k' nk r
    using that rows_get_row_ok [OF assms(1), of k] assms(2)
    by (auto simp: moved_row_def bind_res_Inr row_ok_put Let_def simp del: bt_insert.simps split: option.splits)
  show "map fst moved = ks"
  proof (rule nth_equalityI)
    have len: "length ks = length moved" using arg_cong [OF m, of length] by simp
    then show "length (map fst moved) = length ks" by simp
    fix i assume "i < length (map fst moved)"
    then have "moved_row E f new T (ks ! i) = Inr (moved ! i)" "i < length moved"
      using arg_cong [OF m, of "\<lambda>xs. xs ! i"] len by simp_all
    then show "map fst moved ! i = ks ! i" using one by (cases "moved ! i") auto
  qed
  show "\<forall>(_, k, r) \<in> set moved. row_ok r \<and> key_of_row E T r = Inr k"
  proof (clarify, goal_cases)
    case (1 a k r)
    then have "Inr (a, k, r) \<in> set (map (moved_row E f new T) ks)" by (simp add: m)
    then obtain j where "Inr (a, k, r) = moved_row E f new T j" by (auto simp only: set_map image_iff)
    from one [OF this [symmetric]] show ?case by blast
  qed
qed

lemma replace_keeps:
  assumes "table_ok E T" "scalar new"
  shows "table_ok E (snd (replace_field_value E f old new T))"
proof -
  let ?ks = "holding_keys E f old T"
  have ks: "set ?ks \<subseteq> scalar_keys" using table_ok_D(1) [OF assms(1)]
    by (auto simp: holding_keys_def bt_ok_def Let_def)
  show ?thesis
  proof (cases "f \<in> set (primary_key_fields T)")
    case False
    let ?put = "\<lambda>m k. case bt_get (key_cmp E) m k of
      Some r \<Rightarrow> bt_insert (key_cmp E) k (row_put f new r) m | None \<Rightarrow> m"
    have "table_ok E (T\<lparr>rows := foldl ?put (rows T) ks\<rparr>)"
      if "table_ok E T" "set ks \<subseteq> scalar_keys" "f \<notin> set (primary_key_fields T)" for ks T
      using that
    proof (induction ks arbitrary: T)
      case (Cons k ks)
      have "table_ok E (T\<lparr>rows := ?put (rows T) k\<rparr>)"
        using put_existing_keeps [OF Cons.prems(1) assms(2) Cons.prems(3), of k] Cons.prems(2) by simp
      from Cons.IH [OF this] show ?case using Cons.prems by simp
    qed simp
    from this [OF assms(1) ks False] show ?thesis using False by (simp add: replace_field_value_def Let_def)
  next
    case True
    show ?thesis
    proof (cases "collect_res (map (moved_row E f new T) ?ks)")
      case (Inr moved)
      note mv = moved_rows [OF assms Inr]
      let ?m = "remove_keys E ?ks (rows T)"
      have "?m = filter (\<lambda>(a, _). \<forall>k \<in> set ?ks. key_cmp E k a \<noteq> Equal) (rows T)"
        unfolding remove_keys_def by (rule keys.remove_all_is_filter [OF table_ok_D(1) [OF assms(1)] ks])
      then have "table_ok E (T\<lparr>rows := ?m\<rparr>)"
        using table_ok_shrink [OF assms(1), of ?m] bt_ok_filter [OF table_ok_D(1) [OF assms(1)]] by auto
      from put_moved_keeps [OF this, of moved] mv show ?thesis
        using True Inr assms(1) by (simp add: replace_field_value_def Let_def)
    qed (use True assms in \<open>simp add: replace_field_value_def Let_def\<close>)
  qed
qed

section \<open>No row is lost\<close>

lemma length_insert_fresh: "bt_get (key_cmp E) m k = None \<Longrightarrow> length (bt_insert (key_cmp E) k r m) = Suc (length m)"
proof (induction m)
  case (Cons x m)
  then show ?case by (cases x) (auto split: ordering.splits)
qed simp

lemma has_key_iff: "has_key E ks k \<longleftrightarrow> (\<exists>j \<in> set ks. key_eq E j k)"
  by (auto simp: has_key_def list_ex_iff)

text \<open>Inserting rows under new keys that \<^const>\<open>keys_free\<close> accepts adds each of them.\<close>

lemma length_put_moved:
  assumes "table_ok E T" "bt_ok (key_cmp E) scalar_keys m" "set vacated \<subseteq> scalar_keys"
    and "keys_free E T vacated taken (map (fst \<circ> snd) moved)"
    and "\<forall>(_, k, _) \<in> set moved. k \<in> scalar_keys" "set taken \<subseteq> scalar_keys"
    and "\<And>k. k \<in> scalar_keys \<Longrightarrow> bt_get (key_cmp E) m k \<noteq> None \<Longrightarrow>
      has_key E taken k \<or> bt_contains (key_cmp E) (rows T) k \<and> \<not> has_key E vacated k"
  shows "length (foldl (\<lambda>m (_, k, r). bt_insert (key_cmp E) k r m) m moved) = length m + length moved"
  using assms(2-)
proof (induction moved arbitrary: m taken)
  case (Cons x moved)
  obtain j k r where x: "x = (j, k, r)" by (cases x)
  have K: "k \<in> scalar_keys" using Cons.prems(4) by (auto simp: x)
  have free: "\<not> (bt_contains (key_cmp E) (rows T) k \<and> \<not> has_key E vacated k)" "\<not> has_key E taken k"
    "keys_free E T vacated (k # taken) (map (fst \<circ> snd) moved)"
    using Cons.prems(3) by (auto simp: x comp_def split: if_splits)
  have none: "bt_get (key_cmp E) m k = None" using Cons.prems(6) [OF K] free by blast
  let ?m = "bt_insert (key_cmp E) k r m"
  have "length (foldl (\<lambda>m (_, k, r). bt_insert (key_cmp E) k r m) ?m moved) = length ?m + length moved"
  proof (rule Cons.IH [OF _ Cons.prems(2) free(3)])
    show "bt_ok (key_cmp E) scalar_keys ?m" by (rule keys.ok_insert [OF Cons.prems(1) K])
    show "\<forall>(_, k, _) \<in> set moved. k \<in> scalar_keys" using Cons.prems(4) by simp
    show "set (k # taken) \<subseteq> scalar_keys" using Cons.prems(5) K by simp
    fix i assume i: "i \<in> scalar_keys" "bt_get (key_cmp E) ?m i \<noteq> None"
    show "has_key E (k # taken) i \<or> bt_contains (key_cmp E) (rows T) i \<and> \<not> has_key E vacated i"
    proof (cases "key_cmp E i k = Equal")
      case True
      then have "key_eq E k i" using key_eq_sym [OF i(1) K] by (simp add: key_eq_def)
      then show ?thesis by (auto simp: has_key_iff)
    next
      case False
      then show ?thesis using i keys.get_insert [OF Cons.prems(1) K i(1), of r] Cons.prems(6) [OF i(1)]
        by (auto simp: has_key_iff)
    qed
  qed
  then show ?case using length_insert_fresh [OF none, of r] by (simp add: x)
qed simp

lemma length_insert_existing: "bt_get (key_cmp E) m k \<noteq> None \<Longrightarrow> length (bt_insert (key_cmp E) k r m) = length m"
proof (induction m)
  case (Cons x m)
  then show ?case by (cases x) (auto split: ordering.splits)
qed simp

lemma length_replace:
  assumes "table_ok E T" "scalar new" "replace_field_value E f old new T = (Inr n, T')"
  shows "length (rows T') = length (rows T) \<and> n = length (holding_keys E f old T)"
proof -
  let ?ks = "holding_keys E f old T"
  obtain P where P: "?ks = map fst (filter P (rows T))" by (simp add: holding_keys_def Let_def)
  note ok = table_ok_D(1) [OF assms(1)]
  have ks: "set ?ks \<subseteq> scalar_keys" using ok by (auto simp: P bt_ok_def)
  show ?thesis
  proof (cases "f \<in> set (primary_key_fields T)")
    case False
    let ?put = "\<lambda>m k. case bt_get (key_cmp E) m k of
      Some r \<Rightarrow> bt_insert (key_cmp E) k (row_put f new r) m | None \<Rightarrow> m"
    have "length (foldl ?put m ks) = length m" for ks m
    proof (induction ks arbitrary: m)
      case (Cons k ks)
      have "length (?put m k) = length m"
        by (cases "bt_get (key_cmp E) m k") (simp_all add: length_insert_existing)
      then show ?case using Cons by simp
    qed simp
    then show ?thesis using assms(3) False by (auto simp: replace_field_value_def Let_def)
  next
    case True
    then obtain moved where mv: "collect_res (map (moved_row E f new T) ?ks) = Inr moved"
      and free: "keys_free E T ?ks [] (map (fst \<circ> snd) moved)" and n: "n = length ?ks"
      and T': "T' = T\<lparr>rows := foldl (\<lambda>m (_, k, r). bt_insert (key_cmp E) k r m)
          (remove_keys E (map fst moved) (rows T)) moved\<rparr>"
      using assms(3) by (auto simp: replace_field_value_def Let_def split: sum.splits if_splits)
    note moved = moved_rows [OF assms(1,2) mv]
    let ?m = "remove_keys E ?ks (rows T)"
    have m: "?m = filter (\<lambda>(a, _). \<forall>k \<in> set ?ks. key_cmp E k a \<noteq> Equal) (rows T)"
      unfolding remove_keys_def by (rule keys.remove_all_is_filter [OF ok ks])
    have "bt_contains (key_cmp E) (rows T) k \<and> \<not> has_key E ?ks k"
      if k: "k \<in> scalar_keys" "bt_get (key_cmp E) ?m k \<noteq> None" for k
    proof -
      obtain r where "bt_get (key_cmp E) ?m k = Some r" using k(2) by blast
      from keys.get_SomeD [OF this] obtain a where a: "(a, r) \<in> set ?m" "key_cmp E k a = Equal" by blast
      then have A: "(a, r) \<in> set (rows T)" "\<forall>j \<in> set ?ks. key_cmp E j a \<noteq> Equal" by (auto simp: m)
      have "bt_get (key_cmp E) (rows T) k = Some r" using keys.get_mem [OF ok A(1) _ a(2)] k(1) by simp
      moreover have "a \<in> scalar_keys" using A(1) ok by (auto simp: bt_ok_def)
      moreover have "\<not> key_eq E j k" if "j \<in> set ?ks" for j
        using keys.eq_left [of j k a E] A(2) a(2) that ks k(1) \<open>a \<in> scalar_keys\<close> by (auto simp: key_eq_def)
      ultimately show ?thesis by (auto simp: bt_contains_def has_key_iff)
    qed
    moreover have "\<forall>(_, k, _) \<in> set moved. k \<in> scalar_keys"
      using moved(2) key_of_row_scalar [OF _ table_ok_D(2) [OF assms(1)]] by fast
    ultimately have "length (rows T') = length ?m + length moved"
      using length_put_moved [OF assms(1) _ ks free, of ?m] bt_ok_filter [OF ok] m
      by (simp add: T' moved(1))
    moreover have "length moved = length ?ks" using arg_cong [OF moved(1), of length] by simp
    moreover have "length ?m = length (rows T) - length ?ks"
      using sum_length_filter_compl [of P "rows T"] by (simp add: P remove_selected [OF ok])
    moreover have "length ?ks \<le> length (rows T)" by (simp add: P)
    ultimately show ?thesis using n by simp
  qed
qed


section \<open>A sample table\<close>

definition sample_table :: "mantissa mock_record" where
  "sample_table = new_record 18 ''Customer'' [1]"

definition sample_view :: "string \<Rightarrow> int \<Rightarrow> mantissa record_view" where
  "sample_view no amount = field_set_in (field_set_in (new_view sample_table) 1 (VCode no)) 2 (VInteger amount)"

definition two_rows :: "mantissa mock_record" where
  "two_rows = fst (snd (insert_in sample_env False
     (fst (snd (insert_in sample_env False sample_table (sample_view ''B'' 5)))) (sample_view ''A'' 7)))"

lemma table_ok_new: "table_ok E (new_record i n pk)"
  by (simp add: table_ok_def new_record_def)

lemma view_ok_new: "view_ok (new_view T)"
  by (simp add: view_ok_def new_view_def default_view_def)

lemma view_ok_field_set: "view_ok v \<Longrightarrow> scalar x \<Longrightarrow> view_ok (field_set_in v f x)"
  by (simp add: view_ok_def field_set_in_def row_ok_put)

lemma sample_view_ok: "view_ok (sample_view no amount)"
  by (simp add: sample_view_def view_ok_field_set view_ok_new)

lemma insert_table_ok: "table_ok E T \<Longrightarrow> view_ok v \<Longrightarrow> table_ok E (fst (snd (insert_in E b T v)))"
  using insert_keeps [of E T v b] by (auto simp: keeps_def split: prod.splits)

lemma two_rows_ok: "table_ok sample_env two_rows"
  unfolding two_rows_def sample_table_def by (intro insert_table_ok table_ok_new sample_view_ok)


text \<open>\<open>Init\<close> keeps the cells of the primary key and no other.\<close>

lemma row_get_put_all:
  "row_ok r \<Longrightarrow> \<forall>(_, x) \<in> set kvs. scalar x \<Longrightarrow>
   row_get (put_all kvs r) f = (case map_of (rev kvs) f of Some x \<Rightarrow> Some x | None \<Rightarrow> row_get r f)"
proof (induction kvs arbitrary: r)
  case (Cons kv kvs)
  obtain g x where kv: "kv = (g, x)" by fastforce
  have r: "row_ok (row_put g x r)" using Cons.prems kv by (simp add: row_ok_put)
  then show ?case
    using Cons.IH [OF r] Cons.prems kv row_get_put [OF Cons.prems(1), of g x f]
    by (auto simp: put_all_Cons map_add_def split: option.splits)
qed (simp add: put_all_def)

definition preserved_cells :: "'d mock_record \<Rightarrow> 'd record_view \<Rightarrow> (field_no \<times> 'd val) list" where
  "preserved_cells T v = List.map_filter (\<lambda>f. map_option (Pair f) (row_get (current v) f)) (primary_key_fields T)"

lemma init_in_cells: "init_in T v = v\<lparr>current := put_all (preserved_cells T v) [], x_rec := [], iter_pos := None\<rparr>"
  by (simp add: init_in_def preserved_cells_def put_all_def)

lemma preserved_cells_set:
  "(f, x) \<in> set (preserved_cells T v) \<longleftrightarrow> f \<in> set (primary_key_fields T) \<and> row_get (current v) f = Some x"
  by (auto simp: preserved_cells_def map_filter_def image_iff)

lemma preserved_cells_of:
  "map_of (rev (preserved_cells T v)) f = (if f \<in> set (primary_key_fields T) then row_get (current v) f else None)"
proof (cases "map_of (rev (preserved_cells T v)) f")
  case None
  then have "\<forall>x. (f, x) \<notin> set (preserved_cells T v)" by (auto simp: map_of_eq_None_iff image_iff)
  then show ?thesis using None by (auto simp: preserved_cells_set)
next
  case (Some x)
  then have "(f, x) \<in> set (preserved_cells T v)" using map_of_SomeD by fastforce
  then show ?thesis using Some by (simp add: preserved_cells_set)
qed

lemma preserved_cells_scalar: "row_ok (current v) \<Longrightarrow> \<forall>(_, x) \<in> set (preserved_cells T v). scalar x"
  using row_get_scalar by (auto simp: preserved_cells_set)

lemma row_ok_empty: "row_ok []"
  by (simp add: row_ok_def bt_ok_def bt_sorted_def)

lemma init_keeps: "view_ok v \<Longrightarrow> view_ok (init_in T v)"
  using row_ok_put_all [OF row_ok_empty preserved_cells_scalar, of v T]
  by (simp add: view_ok_def init_in_cells row_ok_empty)

lemma init_cells:
  "view_ok v \<Longrightarrow>
   row_get (current (init_in T v)) f = (if f \<in> set (primary_key_fields T) then row_get (current v) f else None)"
  using row_get_put_all [OF row_ok_empty preserved_cells_scalar, of v T f]
  by (simp add: view_ok_def init_in_cells preserved_cells_of split: option.splits)

lemma reset_keeps: "view_ok v \<Longrightarrow> view_ok (reset_in T v)"
  by (simp add: view_ok_def reset_in_def bt_ok_def bt_sorted_def)


section \<open>Properties\<close>



text \<open>
  C37: \<open>Insert\<close> then \<open>Get\<close>.  A successful insert was under a free key; the row is then found under that
  key with the cells of the buffer, no other row changes, and inserting the buffer again is refused as a
  duplicate.
\<close>

theorem insert_then_get:
  assumes "table_ok E T" and "view_ok v" and "insert_in E False T v = (Ok (), T', v')"
  shows "\<exists>k. current_primary_key E T v = Ok k \<and> rows_get E T k = None \<and>
    (\<forall>w. get_in E k T' w = (Ok (), w\<lparr>current := current v, x_rec := current v\<rparr>)) \<and>
    (\<forall>j \<in> scalar_keys. \<not> key_eq E j k \<longrightarrow> rows_get E T' j = rows_get E T j) \<and>
    insert_in E False T' v' = (Err DuplicateKey, T', v')"
proof -
  obtain k where k: "current_primary_key E T v = Ok k"
    using assms(3) by (cases "current_primary_key E T v") (simp_all add: insert_in_def)
  then have k: "current_primary_key E T v = Ok k" "rows_get E T k = None"
    "T' = T\<lparr>rows := bt_insert (key_cmp E) k (current v) (rows T)\<rparr>" "v' = v\<lparr>x_rec := current v\<rparr>"
    using assms(3) by (simp_all add: insert_in_def bt_contains_def split: if_splits)
  have K: "k \<in> scalar_keys" using current_key_scalar [OF assms(1) view_ok_D(1) [OF assms(2)] k(1)] .
  have get: "rows_get E T' j = (if key_eq E j k then Some (current v) else rows_get E T j)"
    if "j \<in> scalar_keys" for j
    using keys.get_insert [OF table_ok_D(1) [OF assms(1)] K that, of "current v"] by (simp add: k(3) key_eq_def)
  have norm: "normalize_key (dec E) k = k" using normalize_key_of_row k(1) by (simp add: current_primary_key_def)
  have "rows_get E T' k = Some (current v)" using get [OF K] key_eq_self [OF K, of E] by simp
  moreover have "current_primary_key E T' v' = Ok k" using k by (simp add: current_primary_key_def)
  ultimately show ?thesis using k(1,2) get norm
    by (auto simp: get_in_def load_row_def insert_in_def bt_contains_def)
qed

lemma insert_then_get_witness:
  "\<exists>T' v'. insert_in sample_env False two_rows (sample_view ''C'' 1) = (Ok (), T', v') \<and>
     insert_in sample_env False T' v' = (Err DuplicateKey, T', v')"
proof -
  have "fst (insert_in sample_env False two_rows (sample_view ''C'' 1)) = Ok ()" by code_simp
  then obtain T' v' where "insert_in sample_env False two_rows (sample_view ''C'' 1) = (Ok (), T', v')"
    by (metis prod.collapse)
  with insert_then_get [OF two_rows_ok sample_view_ok this] show ?thesis by blast
qed

text \<open>
  \<open>Modify\<close> and \<open>Delete\<close> act on the row of the buffer's key and on no other, and refuse exactly when
  there is none; \<open>Modify\<close> leaves the prior row in \<open>xRec\<close>.
\<close>

theorem modify_and_delete:
  assumes "table_ok E T" and "view_ok v" and "current_primary_key E T v = Ok k"
  shows "(case rows_get E T k of
      None \<Rightarrow> modify_in E False T v = (Err NotFound, T, v) \<and> delete_in E False T v = (Err NotFound, T, v)
    | Some old_row \<Rightarrow>
        (\<exists>T'. modify_in E False T v = (Ok (), T', v\<lparr>x_rec := old_row\<rparr>) \<and>
          (\<forall>j \<in> scalar_keys. rows_get E T' j = (if key_eq E j k then Some (current v) else rows_get E T j))) \<and>
        (\<exists>T'. delete_in E False T v = (Ok (), T', v) \<and>
          (\<forall>j \<in> scalar_keys. rows_get E T' j = (if key_eq E j k then None else rows_get E T j)) \<and>
          length (rows T) = Suc (length (rows T'))))"
proof -
  note ok = table_ok_D(1) [OF assms(1)]
  have K: "k \<in> scalar_keys" using current_key_scalar [OF assms(1) view_ok_D(1) [OF assms(2)] assms(3)] .
  show ?thesis
  proof (cases "rows_get E T k")
    case (Some r)
    then have "rows T \<noteq> []" by auto
    then show ?thesis
      using Some keys.get_insert [OF ok K] keys.get_remove [OF ok K] keys.length_remove [OF ok, of k] K
      by (auto simp: modify_in_def delete_in_def assms(3) bt_contains_def key_eq_def)
  qed (simp add: modify_in_def delete_in_def assms(3) bt_contains_def)
qed

lemma modify_and_delete_witness:
  "\<exists>T'. delete_in sample_env False two_rows (sample_view ''A'' 0) = (Ok (), T', sample_view ''A'' 0) \<and>
     length (rows two_rows) = Suc (length (rows T'))"
proof -
  have k: "current_primary_key sample_env two_rows (sample_view ''A'' 0) = Ok [VCode ''A'']" by code_simp
  have "rows_get sample_env two_rows [VCode ''A''] = Some [(1, VCode ''A''), (2, VInteger 7)]" by code_simp
  with modify_and_delete [OF two_rows_ok sample_view_ok k] show ?thesis by auto
qed

text \<open>
  C8: \<open>Rename\<close> is atomic.  On an error the table and the buffer are as before; on success the row of the
  old key is gone, the buffer is stored under the new key, \<open>xRec\<close> is the old row, every other row is
  untouched and the number of rows is the same.
\<close>

theorem rename_atomic:
  assumes "table_ok E T" and "view_ok v" and "\<forall>(_, y) \<in> set kvs. scalar y"
  shows "case rename_in E kvs T v of
      (Inl _, T', v') \<Rightarrow> T' = T \<and> v' = v
    | (Inr _, T', v') \<Rightarrow>
        (\<exists>old new old_row. current_primary_key E T v = Ok old \<and> rows_get E T old = Some old_row \<and>
           key_of_row E T (current v') = Ok new \<and> current v' = put_all kvs (current v) \<and> x_rec v' = old_row \<and>
           (\<forall>j \<in> scalar_keys. rows_get E T' j =
              (if key_eq E j new then Some (current v') else if key_eq E j old then None else rows_get E T j)) \<and>
           length (rows T') = length (rows T))"
proof (cases "current_primary_key E T v")
  case (Inl e)
  then show ?thesis by (simp add: rename_in_def start_rename_in_def)
next
  case (Inr old)
  let ?v = "v\<lparr>current := put_all kvs (current v)\<rparr>"
  have v: "row_ok (current ?v)" using assms row_ok_put_all view_ok_D(1) by auto
  note ok = table_ok_D(1) [OF assms(1)]
  have O: "old \<in> scalar_keys" using current_key_scalar [OF assms(1) view_ok_D(1) [OF assms(2)] Inr] .
  show ?thesis
  proof (cases "key_of_row E T (current ?v)")
    case (Inl e)
    then show ?thesis using Inr
      by (simp add: rename_in_def start_rename_in_def finish_rename_in_def move_renamed_row_def current_primary_key_def)
  next
    case new: (Inr new)
    have N: "new \<in> scalar_keys" using key_of_row_scalar [OF v table_ok_D(2) [OF assms(1)] new] .
    show ?thesis
    proof (cases "bt_contains (key_cmp E) (rows T) old \<and> (key_eq E new old \<or> \<not> bt_contains (key_cmp E) (rows T) new)")
      case True
      then obtain old_row where r: "rows_get E T old = Some old_row" by (auto simp: bt_contains_def)
      let ?m = "bt_remove (key_cmp E) old (rows T)"
      have m: "bt_ok (key_cmp E) scalar_keys ?m" using keys.ok_remove [OF ok] .
      have fresh: "bt_get (key_cmp E) ?m new = None"
        using keys.get_remove [OF ok, of old new] O N True by (auto simp: key_eq_def bt_contains_def)
      have "rows T \<noteq> []" using r by auto
      then have len: "length (bt_insert (key_cmp E) new (current ?v) ?m) = length (rows T)"
        using length_insert_fresh [OF fresh] keys.length_remove [OF ok, of old] O r by auto
      have res: "rename_in E kvs T v =
          (Ok (), T\<lparr>rows := bt_insert (key_cmp E) new (current ?v) ?m\<rparr>, ?v\<lparr>x_rec := old_row\<rparr>)"
        using True Inr new r by (auto simp: rename_in_def start_rename_in_def finish_rename_in_def
            move_renamed_row_def current_primary_key_def Let_def)
      show ?thesis using len r new Inr keys.get_insert [OF m N] keys.get_remove [OF ok O]
        by (auto simp: res key_eq_def)
    next
      case False
      then show ?thesis using Inr new
        by (auto simp: rename_in_def start_rename_in_def finish_rename_in_def move_renamed_row_def
            current_primary_key_def)
    qed
  qed
qed

lemma rename_atomic_witness:
  "rename_in sample_env [(1, VCode ''B'')] two_rows (sample_view ''A'' 7) =
     (Err DuplicateKey, two_rows, sample_view ''A'' 7)"
proof -
  have "fst (rename_in sample_env [(1, VCode ''B'')] two_rows (sample_view ''A'' 7)) = Err DuplicateKey"
    by code_simp
  with rename_atomic [OF two_rows_ok sample_view_ok, of "[(1, VCode ''B'')]" "''A''" 7]
  show ?thesis by (auto split: prod.splits)
qed

text \<open>
  \<open>replace_field_value\<close>, which carries a rename to the related tables, either fails and leaves the table
  alone or updates every row that held the value and loses none, although rows may move to keys
  other moved rows leave.
\<close>

theorem replace_field_value_atomic:
  assumes "table_ok E T" and "scalar new"
  shows "case replace_field_value E f old new T of
      (Inl _, T') \<Rightarrow> T' = T
    | (Inr n, T') \<Rightarrow> n = length (holding_keys E f old T) \<and> length (rows T') = length (rows T) \<and> table_ok E T'"
proof (cases "replace_field_value E f old new T")
  case (Pair res T')
  show ?thesis
  proof (cases res)
    case (Inl e)
    then show ?thesis using Pair by (auto simp: replace_field_value_def Let_def split: if_splits sum.splits)
  next
    case (Inr n)
    then show ?thesis using Pair length_replace [OF assms] replace_keeps [OF assms, of f old] by simp
  qed
qed

lemma replace_field_value_atomic_witness:
  "case replace_field_value sample_env 2 (VInteger 7) (VInteger 9) two_rows of
     (Inl _, _) \<Rightarrow> False | (Inr n, T') \<Rightarrow> n = 1 \<and> length (rows T') = 2 \<and> table_ok sample_env T'"
proof -
  have "fst (replace_field_value sample_env 2 (VInteger 7) (VInteger 9) two_rows) = Ok 1"
    "length (rows two_rows) = 2" by code_simp+
  with replace_field_value_atomic [OF two_rows_ok, of "VInteger 9" 2 "VInteger 7"]
  show ?thesis by (auto split: prod.splits sum.splits)
qed

end
