(* ===== verification/Record_Cursor.thy ===== *)
theory Record_Cursor
  imports Record_Invariant "HOL-Library.Multiset"
begin

text \<open>
  Iteration over a table: the order of \<^verbatim>\<open>matching_keys_in\<close>, the cursor moves of \<^verbatim>\<open>find_*\<close> and
  \<^verbatim>\<open>next_in\<close>, and the AL loops built from them.
\<close>

section \<open>Sorting\<close>

lemma mset_insort_by [simp]: "mset (insort_by c x xs) = add_mset x (mset xs)"
  by (induction xs) auto

lemma mset_sort_by [simp]: "mset (sort_by c xs) = mset xs"
  by (induction xs) (auto simp: sort_by_def)

lemma set_sort_by [simp]: "set (sort_by c xs) = set xs"
  by (metis mset_sort_by set_mset_mset)

lemma set_insort_by [simp]: "set (insort_by c x xs) = insert x (set xs)"
  by (induction xs) auto

lemma length_sort_by [simp]: "length (sort_by c xs) = length xs"
  by (metis mset_sort_by size_mset)

text \<open>
  The sort is stable: elements in the order of \<open>d\<close> come out in the order of \<open>c\<close>, ties in the order
  of \<open>d\<close>.
\<close>

definition lex_less :: "('a \<Rightarrow> 'a \<Rightarrow> ordering) \<Rightarrow> ('a \<Rightarrow> 'a \<Rightarrow> ordering) \<Rightarrow> 'a \<Rightarrow> 'a \<Rightarrow> bool" where
  "lex_less c d a b \<longleftrightarrow> then_cmp (c a b) (d a b) = Less"

context key_order
begin

lemma lex_less_trans:
  "x \<in> K \<Longrightarrow> y \<in> K \<Longrightarrow> z \<in> K \<Longrightarrow> c x y \<noteq> Greater \<Longrightarrow> c x y = Equal \<longrightarrow> d x z = Less \<Longrightarrow>
   lex_less c d y z \<Longrightarrow> lex_less c d x z"
proof -
  assume K: "x \<in> K" "y \<in> K" "z \<in> K" and xy: "c x y \<noteq> Greater" "c x y = Equal \<longrightarrow> d x z = Less"
    and yz: "lex_less c d y z"
  have yz': "c y z = Less \<or> c y z = Equal" using yz by (auto simp: lex_less_def)
  show ?thesis
  proof (cases "c x y")
    case Less
    then have "c x z = Less" using yz' less_trans [OF K] eq_right [OF K(2,3,1)] by auto
    then show ?thesis by (simp add: lex_less_def)
  next
    case Equal
    then have "c x z = c y z" by (rule eq_left [OF K])
    then show ?thesis using yz' xy(2) Equal by (auto simp: lex_less_def)
  qed (use xy in simp)
qed

lemma insort_lex:
  "x \<in> K \<Longrightarrow> set ys \<subseteq> K \<Longrightarrow> sorted_wrt (lex_less c d) ys \<Longrightarrow> (\<And>y. y \<in> set ys \<Longrightarrow> d x y = Less) \<Longrightarrow>
   sorted_wrt (lex_less c d) (insort_by c x ys)"
proof (induction ys)
  case (Cons y ys)
  then have K: "y \<in> K" "set ys \<subseteq> K" by auto
  show ?case
  proof (cases "c x y = Greater")
    case True
    then have "lex_less c d y x" using cmp_swap [of x y] Cons.prems(1) K by (simp add: lex_less_def)
    then show ?thesis using True Cons by simp
  next
    case False
    have xy: "lex_less c d x y" using False Cons.prems(4) [of y] by (cases "c x y") (auto simp: lex_less_def)
    have "lex_less c d x z" if "z \<in> set ys" for z
      using lex_less_trans [of x y z d] False K Cons.prems that by auto
    then show ?thesis using False xy Cons.prems by simp
  qed
qed simp

lemma sort_by_lex:
  "set xs \<subseteq> K \<Longrightarrow> sorted_wrt (\<lambda>a b. d a b = Less) xs \<Longrightarrow> sorted_wrt (lex_less c d) (sort_by c xs)"
proof (induction xs)
  case (Cons x xs)
  have "sort_by c (x # xs) = insort_by c x (sort_by c xs)" by (simp add: sort_by_def)
  then show ?case using Cons by (auto intro!: insort_lex)
qed (simp add: sort_by_def)

end

lemma key_order_pull:
  assumes "key_order c K" "\<And>x. x \<in> L \<Longrightarrow> f x \<in> K"
  shows "key_order (\<lambda>a b. c (f a) (f b)) L"
proof (unfold_locales, goal_cases)
  case (1 x)
  then show ?case using key_order.cmp_refl [OF assms(1) assms(2)] by simp
next
  case (2 x y)
  show ?case by (rule key_order.cmp_swap [OF assms(1) assms(2) [OF 2(1)] assms(2) [OF 2(2)]])
next
  case (3 x y z)
  show ?case
    by (rule key_order.cmp_trans [OF assms(1) assms(2) [OF 3(1)] assms(2) [OF 3(2)] assms(2) [OF 3(3)] 3(4,5)])
qed


section \<open>The keys of an iteration\<close>

lemma scalar_keys_key_order: "key_order (key_cmp E) scalar_keys"
  by (rule keys.key_order_axioms)

lemma sort_cells_scalar: "table_ok E T \<Longrightarrow> sort_cells E T v k \<in> scalar_keys"
proof -
  assume ok: "table_ok E T"
  have "key_of D sk r \<in> scalar_keys" if "row_ok r" for D sk r
    using row_get_scalar [OF that] scalar_normalize by (auto simp: key_of_def split: option.splits)
  then show ?thesis using rows_get_row_ok [OF ok, of k] by (cases "rows_get E T k") (simp_all add: sort_cells_def)
qed

definition selected :: "'d env \<Rightarrow> 'd mock_record \<Rightarrow> 'd record_view \<Rightarrow> ('d primary_key \<times> 'd row) list" where
  "selected E T v = filter (\<lambda>(_, r). row_matches_filters E (filters v) r) (rows T)"

text \<open>The order of an iteration: the cells of the current key, then the primary key.\<close>

definition visit_order :: "'d env \<Rightarrow> 'd mock_record \<Rightarrow> 'd record_view \<Rightarrow> 'd primary_key \<Rightarrow> 'd primary_key \<Rightarrow> bool" where
  "visit_order E T v =
     (let before = lex_less (\<lambda>a b. key_cmp E (sort_cells E T v a) (sort_cells E T v b)) (key_cmp E) in
      if descending (view_sort v) then \<lambda>a b. before b a else before)"

lemma mset_matching: "mset (matching_keys_in E T v) = mset (map fst (selected E T v))"
  by (simp add: matching_keys_in_def selected_def Let_def)

lemma length_matching: "length (matching_keys_in E T v) = count_in E T v"
  using arg_cong [OF mset_matching, of size E T v]
  by (simp add: count_in_def selected_def size_mset [symmetric] del: size_mset)

lemma set_matching: "set (matching_keys_in E T v) = fst ` set (selected E T v)"
  using arg_cong [OF mset_matching, of set_mset E T v] by simp

lemma distinct_matching: "table_ok E T \<Longrightarrow> distinct (matching_keys_in E T v)"
proof -
  assume "table_ok E T"
  then have "bt_ok (key_cmp E) scalar_keys (selected E T v)"
    unfolding selected_def by (intro bt_ok_filter table_ok_D(1))
  then have "distinct (map fst (selected E T v))" by (rule keys.distinct_keys)
  then show ?thesis by (metis mset_matching mset_eq_imp_distinct_iff)
qed

lemma matching_key_row:
  assumes "table_ok E T" "k \<in> set (matching_keys_in E T v)"
  shows "\<exists>r. (k, r) \<in> set (rows T) \<and> rows_get E T k = Some r \<and> row_matches_filters E (filters v) r \<and> k \<in> scalar_keys"
proof -
  obtain r where "(k, r) \<in> set (rows T)" "row_matches_filters E (filters v) r"
    using assms(2) by (auto simp: set_matching selected_def)
  moreover have "k \<in> scalar_keys" using calculation(1) table_ok_D(1) [OF assms(1)] by (auto simp: bt_ok_def)
  ultimately show ?thesis using keys.get_self [OF table_ok_D(1) [OF assms(1)]] by blast
qed

lemma matching_sorted:
  assumes "table_ok E T"
  shows "sorted_wrt (visit_order E T v) (matching_keys_in E T v)"
proof -
  let ?c = "\<lambda>a b. key_cmp E (sort_cells E T v a) (sort_cells E T v b)"
  let ?ks = "map fst (selected E T v)"
  have ok: "bt_ok (key_cmp E) scalar_keys (selected E T v)"
    unfolding selected_def by (intro bt_ok_filter table_ok_D(1) assms)
  have "key_order ?c scalar_keys"
    by (rule key_order_pull [OF scalar_keys_key_order sort_cells_scalar [OF assms]])
  then have "sorted_wrt (lex_less ?c (key_cmp E)) (sort_by ?c ?ks)"
    by (rule key_order.sort_by_lex) (use ok in \<open>auto simp: bt_ok_def bt_sorted_def\<close>)
  then show ?thesis
    by (auto simp: visit_order_def matching_keys_in_def selected_def Let_def sorted_wrt_rev)
qed

text \<open>
  C22: the iteration set of a view is sorted and complete.  Its keys are the keys of the rows the filters
  select, each once, in the order of the current key with ties by primary key, all of it reversed after
  \<open>Ascending(false)\<close>; \<open>Count\<close> is its length.
\<close>

theorem matching_keys_sorted_permutation:
  assumes "table_ok E T"
  shows "mset (matching_keys_in E T v) =
      mset (map fst (filter (\<lambda>(_, r). row_matches_filters E (filters v) r) (rows T))) \<and>
    distinct (matching_keys_in E T v) \<and> sorted_wrt (visit_order E T v) (matching_keys_in E T v) \<and>
    length (matching_keys_in E T v) = count_in E T v"
  using mset_matching [of E T v] distinct_matching [OF assms] matching_sorted [OF assms] length_matching [of E T v]
  by (simp add: selected_def)

lemma matching_keys_sorted_permutation_witness:
  "distinct (matching_keys_in sample_env two_rows (new_view two_rows)) \<and>
   length (matching_keys_in sample_env two_rows (new_view two_rows)) = 2"
proof -
  have "count_in sample_env two_rows (new_view two_rows) = 2" by code_simp
  with matching_keys_sorted_permutation [OF two_rows_ok, of "new_view two_rows"] show ?thesis by simp
qed

section \<open>Cursor moves\<close>

text \<open>The row under a key, for keys known to be present.\<close>

definition row_at :: "'d env \<Rightarrow> 'd mock_record \<Rightarrow> 'd primary_key \<Rightarrow> 'd row" where
  "row_at E T k = (case rows_get E T k of Some r \<Rightarrow> r | None \<Rightarrow> [])"

definition on_key :: "'d env \<Rightarrow> 'd mock_record \<Rightarrow> nat \<Rightarrow> 'd record_view \<Rightarrow> 'd record_view" where
  "on_key E T pos v = v\<lparr>current := row_at E T (iter_set v ! pos), x_rec := row_at E T (iter_set v ! pos), iter_pos := Some pos\<rparr>"

lemma load_row_at_ok:
  "pos < length (iter_set v) \<Longrightarrow> rows_get E T (iter_set v ! pos) \<noteq> None \<Longrightarrow>
   load_row_at E pos T v = (Ok (), on_key E T pos v)"
  by (auto simp: load_row_at_def load_row_def on_key_def row_at_def)

lemma find_at_rows:
  assumes "table_ok E T" "which (length (matching_keys_in E T v)) < length (matching_keys_in E T v)"
  shows "find_at E which T v =
    (Ok True, on_key E T (which (length (matching_keys_in E T v))) (v\<lparr>iter_set := matching_keys_in E T v\<rparr>))"
proof -
  let ?ks = "matching_keys_in E T v" and ?v = "build_iter_set E T v"
  have "rows_get E T (?ks ! which (length ?ks)) \<noteq> None"
    using matching_key_row [OF assms(1) nth_mem [OF assms(2)]] by auto
  then have "load_row_at E (which (length ?ks)) T ?v = (Ok (), on_key E T (which (length ?ks)) ?v)"
    using assms(2) by (intro load_row_at_ok) (simp_all add: build_iter_set_def)
  then show ?thesis using assms(2) by (auto simp: find_at_def build_iter_set_def Let_def)
qed

text \<open>
  \<open>FindFirst\<close>, \<open>FindSet\<close> and \<open>FindLast\<close> answer whether a row matches; they load the first or last row
  of the iteration order and leave the table alone.  They never fail on a table that keeps its
  invariant.
\<close>

theorem find_first_and_last:
  assumes "table_ok E T"
  shows "if matching_keys_in E T v = []
    then find_set_in E T v = (Ok False, v\<lparr>iter_set := [], iter_pos := None\<rparr>) \<and>
      find_last_in E T v = (Ok False, v\<lparr>iter_set := [], iter_pos := None\<rparr>)
    else \<exists>w. w = v\<lparr>iter_set := matching_keys_in E T v\<rparr> \<and>
      find_set_in E T v = (Ok True, on_key E T 0 w) \<and>
      find_last_in E T v = (Ok True, on_key E T (length (matching_keys_in E T v) - 1) w)"
  using find_at_rows [OF assms, of "\<lambda>_. 0" v] find_at_rows [OF assms, of "\<lambda>n. n - 1" v]
  by (simp add: find_set_in_def find_first_in_def find_last_in_def)
    (simp add: find_at_def build_iter_set_def)

lemma find_first_and_last_witness:
  "find_set_in sample_env two_rows (new_view two_rows) =
     (Ok True, on_key sample_env two_rows 0 ((new_view two_rows)\<lparr>iter_set := [[VCode ''A''], [VCode ''B'']]\<rparr>))"
proof -
  have "matching_keys_in sample_env two_rows (new_view two_rows) = [[VCode ''A''], [VCode ''B'']]" by code_simp
  with find_first_and_last [OF two_rows_ok, of "new_view two_rows"] show ?thesis by simp
qed

lemma next_in_move:
  assumes "iter_pos v = Some pos" "iter_set v \<noteq> []" "\<forall>k \<in> set (iter_set v). rows_get E T k \<noteq> None"
    and "clamped = max 0 (min (int (length (iter_set v)) - 1) (int pos + steps))"
  shows "next_in E steps T v =
    (if steps = 0 \<or> clamped = int pos then (Ok 0, v) else (Ok (clamped - int pos), on_key E T (nat clamped) v))"
proof -
  have len: "nat clamped < length (iter_set v)" using assms(2,4) by (cases "iter_set v") auto
  have "load_row_at E (nat clamped) T v = (Ok (), on_key E T (nat clamped) v)"
    using len assms(3) by (intro load_row_at_ok) auto
  then show ?thesis using assms by (simp add: next_in_def Let_def)
qed

text \<open>
  \<open>Next(n)\<close> moves as far towards its target as the set allows and returns the steps it took: never more
  than asked, in the direction asked; the cursor ends inside the set, on the row it then shows; and
  stepping back by the returned number returns to the old position.
\<close>

theorem next_clamps:
  assumes "view_ok v" and "iter_pos v = Some pos" and "\<forall>k \<in> set (iter_set v). rows_get E T k \<noteq> None"
  shows "\<exists>moved v'. next_in E steps T v = (Ok moved, v') \<and> \<bar>moved\<bar> \<le> \<bar>steps\<bar> \<and> 0 \<le> moved * steps \<and>
    iter_pos v' = Some (nat (int pos + moved)) \<and> nat (int pos + moved) < length (iter_set v) \<and>
    (moved \<noteq> 0 \<longrightarrow> current v' = row_at E T (iter_set v ! nat (int pos + moved))) \<and>
    (\<bar>moved\<bar> < \<bar>steps\<bar> \<longrightarrow> moved = (if 0 < steps then int (length (iter_set v)) - 1 - int pos else - int pos)) \<and>
    fst (next_in E (- moved) T v') = Ok (- moved) \<and> iter_pos (snd (next_in E (- moved) T v')) = Some pos"
proof -
  let ?n = "int (length (iter_set v))"
  have pos: "pos < length (iter_set v)" "iter_set v \<noteq> []" using assms(1,2) by (auto simp: view_ok_def)
  define clamped where "clamped = max 0 (min (?n - 1) (int pos + steps))"
  define moved where "moved = (if steps = 0 then 0 else clamped - int pos)"
  define v' where "v' = (if moved = 0 then v else on_key E T (nat clamped) v)"
  have res: "next_in E steps T v = (Ok moved, v')"
    using next_in_move [OF assms(2) pos(2) assms(3) clamped_def] by (auto simp: moved_def v'_def)
  have bounds: "0 \<le> clamped" "clamped < ?n" using pos by (auto simp: clamped_def)
  have mv: "\<bar>moved\<bar> \<le> \<bar>steps\<bar>" "0 \<le> moved * steps" "moved \<noteq> 0 \<longrightarrow> int pos + moved = clamped"
    "\<bar>moved\<bar> < \<bar>steps\<bar> \<longrightarrow> moved = (if 0 < steps then ?n - 1 - int pos else - int pos)"
    using pos(1) by (auto simp: moved_def clamped_def mult_le_0_iff zero_le_mult_iff split: if_splits)
  have iter: "iter_set v' = iter_set v" "iter_pos v' = Some (nat (int pos + moved))"
    using mv(3) assms(2) by (auto simp: v'_def on_key_def)
  have "max 0 (min (?n - 1) (int pos + moved + (- moved))) = int pos" using pos(1) by simp
  then have ret: "next_in E (- moved) T v' =
      (if moved = 0 then (Ok 0, v') else (Ok (- moved), on_key E T pos v'))"
    using next_in_move [OF iter(2) _ _ refl, of E T "- moved"] iter(1) pos assms(3) mv(3) bounds by auto
  show ?thesis using res mv iter bounds pos ret
    by (auto simp: v'_def on_key_def assms(2))
qed

lemma next_clamps_witness:
  "\<exists>v'. next_in sample_env 5 two_rows (snd (find_set_in sample_env two_rows (new_view two_rows))) = (Ok 1, v')"
proof -
  let ?v = "snd (find_set_in sample_env two_rows (new_view two_rows))"
  let ?ks = "[[VCode ''A''], [VCode ''B'']] :: mantissa primary_key list"
  have v: "iter_set ?v = ?ks" "iter_pos ?v = Some 0"
    "rows_get sample_env two_rows [VCode ''A''] = Some (current ?v)" "current ?v = x_rec ?v"
    "filters ?v = []" "rows_get sample_env two_rows [VCode ''B''] \<noteq> None"
    by code_simp+
  have "row_ok (current ?v)" using rows_get_row_ok [OF two_rows_ok v(3)] .
  then have ok: "view_ok ?v" using v by (simp add: view_ok_def)
  from next_clamps [OF ok v(2), of sample_env two_rows 5] v show ?thesis by auto
qed

section \<open>Loops over a record\<close>

text \<open>
  \<open>repeat body until Next() = 0\<close> as AL programs write it after \<open>FindSet\<close>.  The loop stops with the error
  a call gives; \<^const>\<open>None\<close> is running out of the fuel \<open>n\<close>, and the theorems give it as much as there
  are rows.
\<close>

fun repeat_until_next ::
  "nat \<Rightarrow> 'd env \<Rightarrow> ('d mock_record \<Rightarrow> 'd record_view \<Rightarrow> ('d, 'a) table_result) \<Rightarrow>
   'd mock_record \<Rightarrow> 'd record_view \<Rightarrow> ('d, 'a list) table_result option" where
  "repeat_until_next 0 E body T v = None"
| "repeat_until_next (Suc n) E body T v =
     (case body T v of
        (Inl e, T', v') \<Rightarrow> Some (Err e, T', v')
      | (Inr a, T', v') \<Rightarrow>
          (case next_in E 1 T' v' of
             (Inl e, v'') \<Rightarrow> Some (Err e, T', v'')
           | (Inr moved, v'') \<Rightarrow>
               if moved = 0 then Some (Ok [a], T', v'')
               else map_option (\<lambda>(res, T3, v3). (bind_res res (\<lambda>as. Ok (a # as)), T3, v3))
                      (repeat_until_next n E body T' v'')))"

definition read_row :: "'d mock_record \<Rightarrow> 'd record_view \<Rightarrow> ('d, 'd row) table_result" where
  "read_row T v = (Ok (current v), T, v)"

lemma next_one:
  assumes "iter_set v = pre @ k # post" "iter_pos v = Some (length pre)"
    and "post \<noteq> [] \<Longrightarrow> rows_get E T (hd post) \<noteq> None"
  shows "next_in E 1 T v = (if post = [] then (Ok 0, v) else (Ok 1, on_key E T (Suc (length pre)) v))"
proof (cases post)
  case Nil
  then show ?thesis using assms by (simp add: next_in_def Let_def)
next
  case (Cons k' post')
  then have "load_row_at E (Suc (length pre)) T v = (Ok (), on_key E T (Suc (length pre)) v)"
    using assms by (intro load_row_at_ok) (auto simp: nth_append)
  then show ?thesis using Cons assms by (simp add: next_in_def Let_def nat_add_distrib)
qed

lemma read_loop:
  "iter_set v = pre @ k # post \<Longrightarrow> iter_pos v = Some (length pre) \<Longrightarrow> current v = row_at E T k \<Longrightarrow>
   \<forall>j \<in> set (k # post). rows_get E T j \<noteq> None \<Longrightarrow> length post < n \<Longrightarrow>
   \<exists>v'. repeat_until_next n E read_row T v = Some (Ok (map (row_at E T) (k # post)), T, v')"
proof (induction post arbitrary: v pre k n)
  case Nil
  then show ?case using next_one [of v pre k "[]" E T] by (cases n) (auto simp: read_row_def)
next
  case (Cons k' post)
  obtain m where n: "n = Suc m" "length post < m" using Cons.prems(5) by (cases n) auto
  let ?w = "on_key E T (Suc (length pre)) v"
  have next1: "next_in E 1 T v = (Ok 1, ?w)" using next_one [of v pre k "k' # post" E T] Cons.prems by simp
  have "iter_set ?w = (pre @ [k]) @ k' # post" "iter_pos ?w = Some (length (pre @ [k]))" "current ?w = row_at E T k'"
    using Cons.prems(1) by (simp_all add: on_key_def nth_append)
  from Cons.IH [OF this _ n(2)] Cons.prems(4) obtain v' where
    "repeat_until_next m E read_row T ?w = Some (Ok (map (row_at E T) (k' # post)), T, v')" by auto
  then show ?case using next1 Cons.prems(3) by (simp add: n read_row_def [of T v])
qed

lemma read_loop_all_rows:
  assumes "table_ok E T" and "matching_keys_in E T v \<noteq> []"
  shows "\<exists>v1 v2. find_set_in E T v = (Ok True, v1) \<and>
    repeat_until_next (count_in E T v) E read_row T v1 = Some (Ok (map (row_at E T) (matching_keys_in E T v)), T, v2)"
proof -
  let ?ks = "matching_keys_in E T v"
  obtain k post where ks: "?ks = k # post" using assms(2) by (cases ?ks) auto
  let ?v = "on_key E T 0 (v\<lparr>iter_set := ?ks\<rparr>)"
  have find: "find_set_in E T v = (Ok True, ?v)"
    using find_at_rows [OF assms(1), of "\<lambda>_. 0" v] assms(2) by (simp add: find_set_in_def find_first_in_def)
  have "\<forall>j \<in> set (k # post). rows_get E T j \<noteq> None"
    using matching_key_row [OF assms(1), of _ v] by (auto simp: ks)
  then have "\<exists>v'. repeat_until_next (count_in E T v) E read_row T ?v = Some (Ok (map (row_at E T) (k # post)), T, v')"
    using ks length_matching [of E T v] by (intro read_loop [of _ "[]"]) (auto simp: on_key_def)
  then show ?thesis using find ks by auto
qed

text \<open>
  C2: \<open>if FindSet then repeat ... until Next() = 0\<close> reads every selected row exactly once, in the iteration
  order, and ends.
\<close>

theorem read_loop_visits_all:
  assumes "table_ok E T" and "matching_keys_in E T v \<noteq> []"
  shows "\<exists>v1 v2. find_set_in E T v = (Ok True, v1) \<and>
    repeat_until_next (count_in E T v) E read_row T v1 = Some (Ok (map (row_at E T) (matching_keys_in E T v)), T, v2)"
  by (rule read_loop_all_rows [OF assms])

lemma read_loop_visits_all_witness:
  "\<exists>v1 v2. find_set_in sample_env two_rows (new_view two_rows) = (Ok True, v1) \<and>
     repeat_until_next 2 sample_env read_row two_rows v1 =
       Some (Ok [[(1, VCode ''A''), (2, VInteger 7)], [(1, VCode ''B''), (2, VInteger 5)]], two_rows, v2)"
proof -
  have "matching_keys_in sample_env two_rows (new_view two_rows) = [[VCode ''A''], [VCode ''B'']]"
    "map (row_at sample_env two_rows) [[VCode ''A''], [VCode ''B'']] =
       [[(1, VCode ''A''), (2, VInteger 7)], [(1, VCode ''B''), (2, VInteger 5)]]"
    "count_in sample_env two_rows (new_view two_rows) = 2"
    by code_simp+
  with read_loop_visits_all [OF two_rows_ok, of "new_view two_rows"] show ?thesis by simp
qed

text \<open>The delete loop.  After each step the rows left are those of the keys not yet visited.\<close>

definition without :: "('d primary_key, 'd row) btree \<Rightarrow> 'd primary_key list \<Rightarrow> ('d primary_key, 'd row) btree" where
  "without m ks = filter (\<lambda>(a, _). a \<notin> set ks) m"

lemma key_unique:
  assumes "bt_ok (key_cmp E) scalar_keys m" "(a, r) \<in> set m" "(b, s) \<in> set m" "key_eq E a b"
  shows "a = b"
proof -
  have K: "a \<in> scalar_keys" "b \<in> scalar_keys" using assms by (auto simp: bt_ok_def)
  obtain i j where ij: "i < length m" "j < length m" "m ! i = (a, r)" "m ! j = (b, s)"
    using assms(2,3) by (metis in_set_conv_nth)
  have sorted: "sorted_wrt (\<lambda>x y. key_cmp E x y = Less) (map fst m)" using assms(1) by (simp add: bt_ok_def bt_sorted_def)
  have "i = j"
  proof (rule ccontr)
    assume "i \<noteq> j"
    then have "key_cmp E a b = Less \<or> key_cmp E b a = Less"
      using sorted ij by (auto simp: sorted_wrt_iff_nth_less) (metis fst_conv linorder_neqE_nat nth_map)
    then show False using assms(4) keys.cmp_swap [of a b E] K by (auto simp: key_eq_def)
  qed
  then show ?thesis using ij by simp
qed

lemma delete_current:
  assumes "table_ok E T" "(k, r) \<in> set (rows T)" "current v = r"
  shows "delete_in E False T v = (Ok (), T\<lparr>rows := without (rows T) [k]\<rparr>, v)"
proof -
  note ok = table_ok_D(1) [OF assms(1)]
  obtain k' where k': "key_of_row E T r = Ok k'" "key_eq E k k'" using table_ok_D(4) [OF assms(1,2)] by blast
  have K: "k \<in> scalar_keys" "k' \<in> scalar_keys"
    using assms(2) ok key_of_row_scalar [OF table_ok_D(3) [OF assms(1,2)] table_ok_D(2) [OF assms(1)] k'(1)]
    by (auto simp: bt_ok_def)
  have eq: "key_cmp E k' k = Equal" using key_eq_sym [OF K k'(2)] by (simp add: key_eq_def)
  have "rows_get E T k' = Some r" using keys.get_mem [OF ok assms(2) _ eq] K(2) by simp
  moreover have "bt_remove (key_cmp E) k' (rows T) = without (rows T) [k]"
    unfolding keys.remove_is_filter [OF ok K(2)] without_def
  proof (rule filter_cong [OF refl])
    fix x assume x: "x \<in> set (rows T)"
    obtain a s where a: "x = (a, s)" by (cases x)
    have A: "a \<in> scalar_keys" using x a ok by (auto simp: bt_ok_def)
    have "key_cmp E k' a = Equal \<longleftrightarrow> a = k"
      using key_unique [OF ok assms(2), of a s] x a keys.eq_left [of k k' a E] k'(2) K A eq by (auto simp: key_eq_def)
    then show "(case x of (b, _) \<Rightarrow> key_cmp E k' b \<noteq> Equal) \<longleftrightarrow> (case x of (b, _) \<Rightarrow> b \<notin> set [k])" by (simp add: a)
  qed
  ultimately show ?thesis using k'(1) assms(3) by (simp add: delete_in_def current_primary_key_def bt_contains_def)
qed

lemma delete_loop:
  assumes "table_ok E T" "bt_ok (key_cmp E) scalar_keys (rows T)"
  shows "iter_set v = pre @ k # post \<Longrightarrow> iter_pos v = Some (length pre) \<Longrightarrow>
    \<forall>j \<in> set (k # post). (j, row_at E T j) \<in> set (rows T) \<Longrightarrow> distinct (k # post) \<Longrightarrow>
    current v = row_at E T k \<Longrightarrow> length post < n \<Longrightarrow>
    \<exists>us v'. repeat_until_next n E (delete_in E False) T v =
      Some (Ok us, T\<lparr>rows := without (rows T) (k # post)\<rparr>, v')"
  using assms
proof (induction post arbitrary: v pre k n T)
  case Nil
  then show ?case using next_one [of v pre k "[]" E] delete_current [of E T k "row_at E T k" v]
    by (cases n) auto
next
  case (Cons k' post)
  obtain m where n: "n = Suc m" "length post < m" using Cons.prems(6) by (cases n) auto
  let ?T = "T\<lparr>rows := without (rows T) [k]\<rparr>"
  have del: "delete_in E False T v = (Ok (), ?T, v)"
    using Cons.prems by (intro delete_current) auto
  have ok: "bt_ok (key_cmp E) scalar_keys (rows ?T)"
    using bt_ok_filter [OF Cons.prems(8)] by (simp add: without_def)
  have T: "table_ok E ?T" using table_ok_shrink [OF Cons.prems(7)] ok by (simp add: without_def)
  have left: "(j, row_at E ?T j) \<in> set (rows ?T) \<and> rows_get E ?T j \<noteq> None" if "j \<in> set (k' # post)" for j
  proof -
    have j: "(j, row_at E T j) \<in> set (rows ?T)" using Cons.prems(3,4) that by (auto simp: without_def)
    from keys.get_self [OF ok j] j show ?thesis by (simp add: row_at_def [of E ?T])
  qed
  let ?w = "on_key E ?T (Suc (length pre)) v"
  have next1: "next_in E 1 ?T v = (Ok 1, ?w)" using next_one [of v pre k "k' # post" E ?T] Cons.prems left by simp
  have w: "iter_set ?w = (pre @ [k]) @ k' # post" "iter_pos ?w = Some (length (pre @ [k]))" "current ?w = row_at E ?T k'"
    using Cons.prems(1) by (simp_all add: on_key_def nth_append)
  obtain us v' where "repeat_until_next m E (delete_in E False) ?T ?w =
      Some (Ok us, ?T\<lparr>rows := without (rows ?T) (k' # post)\<rparr>, v')"
    using Cons.IH [OF w(1,2) _ _ w(3) n(2) T ok] left Cons.prems(4) by auto
  moreover have "without (rows ?T) (k' # post) = without (rows T) (k # k' # post)"
    by (auto simp: without_def intro!: filter_cong)
  ultimately show ?case using next1 del by (simp add: n)
qed

lemma delete_all_without:
  assumes "table_ok E T"
  shows "filter (\<lambda>(_, r). \<not> row_matches_filters E (filters v) r) (rows T) = without (rows T) (matching_keys_in E T v)"
  unfolding without_def
proof (rule filter_cong [OF refl])
  fix x assume x: "x \<in> set (rows T)"
  obtain a r where a: "x = (a, r)" by (cases x)
  have uniq: "r' = r" if "(a, r') \<in> set (rows T)" for r'
    using keys.get_self [OF table_ok_D(1) [OF assms] that] keys.get_self [OF table_ok_D(1) [OF assms], of a r] x a
    by simp
  have "a \<in> set (matching_keys_in E T v) \<longleftrightarrow> (\<exists>r'. (a, r') \<in> set (rows T) \<and> row_matches_filters E (filters v) r')"
    by (auto simp: set_matching selected_def image_iff)
  also have "\<dots> \<longleftrightarrow> row_matches_filters E (filters v) r" using uniq x a by blast
  finally show "(case x of (_, r) \<Rightarrow> \<not> row_matches_filters E (filters v) r) \<longleftrightarrow>
      (case x of (a, _) \<Rightarrow> a \<notin> set (matching_keys_in E T v))"
    unfolding a prod.case by (rule arg_cong [where f = Not, OF sym])
qed

text \<open>
  C5: the delete loop \<open>if FindSet then repeat Delete until Next() = 0\<close> is \<open>DeleteAll\<close>: both remove exactly
  the rows the filters select and leave the same table, although the loop deletes under its own cursor.
\<close>

theorem delete_loop_is_delete_all:
  assumes "table_ok E T" and "matching_keys_in E T v \<noteq> []"
  shows "\<exists>v1 us v2 T'. find_set_in E T v = (Ok True, v1) \<and>
    repeat_until_next (count_in E T v) E (delete_in E False) T v1 = Some (Ok us, T', v2) \<and>
    delete_all_in E False T v = (Ok (count_in E T v), T', v\<lparr>iter_set := [], iter_pos := None\<rparr>) \<and>
    rows T' = filter (\<lambda>(_, r). \<not> row_matches_filters E (filters v) r) (rows T)"
proof -
  let ?ks = "matching_keys_in E T v"
  obtain k post where ks: "?ks = k # post" using assms(2) by (cases ?ks) auto
  let ?v = "on_key E T 0 (v\<lparr>iter_set := ?ks\<rparr>)"
  have find: "find_set_in E T v = (Ok True, ?v)"
    using find_at_rows [OF assms(1), of "\<lambda>_. 0" v] assms(2) by (simp add: find_set_in_def find_first_in_def)
  have present: "(j, row_at E T j) \<in> set (rows T)" if j: "j \<in> set (k # post)" for j
    using matching_key_row [OF assms(1), of j v] j by (auto simp: ks row_at_def)
  have "\<exists>us v'. repeat_until_next (count_in E T v) E (delete_in E False) T ?v =
      Some (Ok us, T\<lparr>rows := without (rows T) (k # post)\<rparr>, v')"
    using ks length_matching [of E T v] present distinct_matching [OF assms(1), of v]
    by (intro delete_loop [OF assms(1) table_ok_D(1) [OF assms(1)], of _ "[]"]) (auto simp: on_key_def)
  moreover have "delete_all_in E False T v =
      (Ok (count_in E T v), T\<lparr>rows := without (rows T) ?ks\<rparr>, v\<lparr>iter_set := [], iter_pos := None\<rparr>)"
    using delete_all_rows [OF assms(1)] delete_all_without [OF assms(1)]
    by (simp add: delete_all_in_def Let_def count_in_def)
  ultimately show ?thesis using find ks delete_all_without [OF assms(1), of v] by auto
qed

lemma delete_loop_is_delete_all_witness:
  "\<exists>v1 us v2 T'. find_set_in sample_env two_rows (new_view two_rows) = (Ok True, v1) \<and>
     repeat_until_next 2 sample_env (delete_in sample_env False) two_rows v1 = Some (Ok us, T', v2) \<and> rows T' = []"
proof -
  let ?v = "new_view two_rows"
  have "matching_keys_in sample_env two_rows ?v \<noteq> []" "count_in sample_env two_rows ?v = 2"
    "filter (\<lambda>(_, r). \<not> row_matches_filters sample_env (filters ?v) r) (rows two_rows) = []"
    by code_simp+
  with delete_loop_is_delete_all [OF two_rows_ok, of ?v] show ?thesis by auto
qed

text \<open>
  \<open>Count\<close>, \<open>IsEmpty\<close> and \<open>DeleteAll\<close> agree: \<open>IsEmpty\<close> holds exactly when \<open>Count\<close> is zero, \<open>DeleteAll\<close> returns
  the count, and afterwards the view is empty and the table is shorter by that count.
\<close>

theorem count_agrees:
  assumes "table_ok E T"
  shows "(is_empty_in E T v \<longleftrightarrow> count_in E T v = 0) \<and>
    (case delete_all_in E False T v of (res, T', v') \<Rightarrow>
       res = Ok (count_in E T v) \<and> is_empty_in E T' v' \<and> length (rows T) = length (rows T') + count_in E T v)"
proof -
  let ?P = "\<lambda>(_, r). row_matches_filters E (filters v) r"
  have "length (filter (\<lambda>x. \<not> ?P x) (rows T)) + count_in E T v = length (rows T)"
    using sum_length_filter_compl [of ?P "rows T"] by (simp add: count_in_def)
  moreover have "is_empty_in E T v \<longleftrightarrow> count_in E T v = 0"
    by (auto simp: is_empty_in_def count_in_def list_all_iff filter_empty_conv)
  ultimately show ?thesis
    using delete_all_rows [OF assms, of "row_matches_filters E (filters v)"]
    by (simp add: delete_all_in_def Let_def count_in_def is_empty_in_def list_all_iff case_prod_unfold)
qed

lemma count_agrees_witness: "\<not> is_empty_in sample_env two_rows (new_view two_rows)"
proof -
  have "count_in sample_env two_rows (new_view two_rows) = 2" by code_simp
  with count_agrees [OF two_rows_ok, of "new_view two_rows"] show ?thesis by simp
qed

end
