(* ===== verification/Flow_Fields.thy ===== *)
theory Flow_Fields
  imports Record_Invariant
begin

text \<open>
  Aggregation over a table: \<open>CalcSums\<close> and the \<open>CalcFormula\<close> of a FlowField
  (\<^verbatim>\<open>calc_sum_in\<close>, \<^verbatim>\<open>calc_flow\<close> and their helpers in \<^verbatim>\<open>mock/record.rs\<close>), and the
  meaning of \<open>SetRange\<close> on the cells it compares.
\<close>

section \<open>Aggregates\<close>

definition flow_value_eq :: "'d env \<Rightarrow> 'd val \<Rightarrow> 'd val \<Rightarrow> bool" where
  "flow_value_eq E a b =
     (if value_eq E a b then True
      else case (as_number (dec E) a, as_number (dec E) b) of
        (Some x, Some y) \<Rightarrow> dec_eq (dec E) x y
      | _ \<Rightarrow> (case (flow_text a, flow_text b) of
                (Some x, Some y) \<Rightarrow> to_uppercase x = to_uppercase y
              | _ \<Rightarrow> False))"

fun flow_filter_matches :: "'d env \<Rightarrow> 'd flow_filter \<Rightarrow> 'd val \<Rightarrow> bool" where
  "flow_filter_matches E (FlowEq want) cell = flow_value_eq E want cell"
| "flow_filter_matches E (FlowExpr e) cell = matches (dec E) e cell"

text \<open>The loop of \<open>sum_cells\<close> over its three accumulators.\<close>

fun sum_loop :: "'d decimal_ops \<Rightarrow> 'd val list \<Rightarrow> int \<Rightarrow> 'd \<Rightarrow> bool \<Rightarrow> record_error + 'd val" where
  "sum_loop D [] int_sum dec_sum any_decimal =
     Ok (if any_decimal then VDecimal dec_sum else VInteger int_sum)"
| "sum_loop D (cell # cells) int_sum dec_sum any_decimal =
     (let overflow = FlowArithmeticOverflow ''Sum'' in
      case as_int cell of
        Some n \<Rightarrow>
          bind_res (ok_or (checked_add int_sum n) overflow) (\<lambda>int_sum'.
          bind_res (ok_or (dec_add D dec_sum (dec_from D n)) overflow) (\<lambda>dec_sum'.
            sum_loop D cells int_sum' dec_sum' any_decimal))
      | None \<Rightarrow>
          (case cell of
             VDecimal d \<Rightarrow>
               bind_res (ok_or (dec_add D dec_sum d) overflow) (\<lambda>dec_sum'. sum_loop D cells int_sum dec_sum' True)
           | _ \<Rightarrow> sum_loop D cells int_sum dec_sum any_decimal))"

definition sum_cells :: "'d decimal_ops \<Rightarrow> 'd val list \<Rightarrow> record_error + 'd val" where
  "sum_cells D cells = sum_loop D cells 0 (dec_zero D) False"

definition calc_sum_in :: "'d env \<Rightarrow> 'd mock_record \<Rightarrow> 'd record_view \<Rightarrow> field_no \<Rightarrow> record_error + 'd val" where
  "calc_sum_in E T v f =
     bind_res (sum_cells (dec E)
       (List.map_filter (\<lambda>(_, r). row_get r f)
          (filter (\<lambda>(_, r). row_matches_filters E (filters v) r) (rows T)))) (\<lambda>total.
     Ok (case (total, map_of (field_defaults T) f) of
           (VInteger n, Some (VDecimal _)) \<Rightarrow> VDecimal (dec_from (dec E) n)
         | _ \<Rightarrow> total))"

definition x_rec_field :: "'d mock_record \<Rightarrow> field_no \<Rightarrow> 'd val option" where
  "x_rec_field T f = row_get (x_rec (mr_view T)) f"

definition flow_rows :: "'d env \<Rightarrow> (field_no \<times> 'd flow_filter) list \<Rightarrow> 'd mock_record \<Rightarrow> 'd row list" where
  "flow_rows E conditions T =
     filter (\<lambda>r. list_all (\<lambda>(f, flt). flow_filter_matches E flt (cell_or VEmpty r f)) conditions) (map snd (rows T))"

definition target_cells :: "field_no option \<Rightarrow> 'd row list \<Rightarrow> 'd val list" where
  "target_cells target rs = List.map_filter (\<lambda>r. Option.bind target (row_get r)) rs"

definition average_cells :: "'d decimal_ops \<Rightarrow> 'd val list \<Rightarrow> record_error + 'd val" where
  "average_cells D cells =
     (let nums = List.map_filter (as_number D) cells; overflow = FlowArithmeticOverflow ''Average'' in
      if nums = [] then Ok (VDecimal (dec_zero D))
      else bind_res (foldl (\<lambda>acc x. bind_res acc (\<lambda>sum. ok_or (dec_add D sum x) overflow)) (Ok (dec_zero D)) nums) (\<lambda>sum.
           bind_res (ok_or (dec_div D sum (dec_from D (int (length nums)))) overflow) (\<lambda>q. Ok (VDecimal q))))"

text \<open>One step of the loop for Min and Max.\<close>

definition best_step :: "'d decimal_ops \<Rightarrow> bool \<Rightarrow> 'd val option \<Rightarrow> 'd val \<Rightarrow> 'd val option" where
  "best_step D want_min best cell =
     (case as_number D cell of
        None \<Rightarrow> best
      | Some cur \<Rightarrow>
          (case best of
             None \<Rightarrow> Some cell
           | Some prev \<Rightarrow>
               let prev_n = (case as_number D prev of Some p \<Rightarrow> p | None \<Rightarrow> cur);
                   take = (if want_min then is_lt (dec_cmp D cur prev_n) else is_gt (dec_cmp D cur prev_n)) in
               if take then Some cell else Some prev))"

definition extreme_cell :: "'d decimal_ops \<Rightarrow> bool \<Rightarrow> 'd val list \<Rightarrow> 'd val" where
  "extreme_cell D want_min cells =
     (case foldl (best_step D want_min) None cells of None \<Rightarrow> VInteger 0 | Some c \<Rightarrow> c)"

text \<open>The cells Min and Max look at: the declared zero stands in for a cell never assigned.\<close>

definition extreme_cells :: "'d mock_record \<Rightarrow> field_no option \<Rightarrow> 'd row list \<Rightarrow> 'd val list" where
  "extreme_cells T target rs =
     (let zero = Option.bind target (map_of (field_defaults T)) in
      List.map_filter (\<lambda>r. case Option.bind target (row_get r) of Some c \<Rightarrow> Some c | None \<Rightarrow> zero) rs)"

definition calc_flow ::
  "'d env \<Rightarrow> (field_no \<times> 'd flow_filter) list \<Rightarrow> field_no option \<Rightarrow> flow_agg \<Rightarrow> 'd mock_record \<Rightarrow> record_error + 'd val" where
  "calc_flow E conditions target agg T =
     (let matching = flow_rows E conditions T; cells = target_cells target matching in
      case agg of
        AggCount \<Rightarrow>
          if int (length matching) \<le> i64_max then Ok (VInteger (int (length matching)))
          else Err (FlowArithmeticOverflow ''Count'')
      | AggExist \<Rightarrow> Ok (VBoolean (matching \<noteq> []))
      | AggSum \<Rightarrow> sum_cells (dec E) cells
      | AggAverage \<Rightarrow> average_cells (dec E) cells
      | AggMin \<Rightarrow> Ok (extreme_cell (dec E) True (extreme_cells T target matching))
      | AggMax \<Rightarrow> Ok (extreme_cell (dec E) False (extreme_cells T target matching))
      | AggLookup \<Rightarrow> Ok (case cells of [] \<Rightarrow> VEmpty | c # _ \<Rightarrow> c))"


section \<open>Sums and extremes\<close>

lemma sum_loop_integers:
  "list_all (\<lambda>c. as_int c \<noteq> None) cells \<Longrightarrow> sum_loop D cells acc d False = Inr v \<Longrightarrow>
   v = VInteger (acc + sum_list (map (\<lambda>c. the (as_int c)) cells)) \<and>
   (cells \<noteq> [] \<longrightarrow> in_i64 (acc + sum_list (map (\<lambda>c. the (as_int c)) cells)))"
proof (induction cells arbitrary: acc d)
  case (Cons c cells)
  then obtain n where n: "as_int c = Some n" by auto
  obtain d' where d': "checked_add acc n = Some (acc + n)" "sum_loop D cells (acc + n) d' False = Inr v"
    using Cons.prems(2) by (auto simp: n bind_res_Inr ok_or_def checked_defs Let_def split: option.splits if_splits)
  have "in_i64 (acc + n)" using d'(1) by (auto simp: checked_defs split: if_splits)
  then show ?case using Cons.IH [OF _ d'(2)] Cons.prems(1) n by (cases cells) (auto simp: add.assoc)
qed simp

lemma sum_loop_decimal:
  "any \<or> list_ex (\<lambda>c. \<exists>d. c = VDecimal d) cells \<Longrightarrow> sum_loop D cells acc ds any = Inr v \<Longrightarrow> \<exists>d. v = VDecimal d"
proof (induction cells arbitrary: acc ds any)
  case (Cons c cells)
  show ?case
  proof (cases "as_int c")
    case (Some n)
    then have "\<nexists>d. c = VDecimal d" by auto
    obtain a' d' where "sum_loop D cells a' d' any = Inr v"
      using Cons.prems(2) Some by (auto simp: bind_res_Inr Let_def)
    then show ?thesis using Cons.IH Cons.prems(1) \<open>\<nexists>d. c = VDecimal d\<close> by auto
  next
    case None
    show ?thesis
    proof (cases "\<exists>d. c = VDecimal d")
      case True
      then obtain d' where "sum_loop D cells acc d' True = Inr v"
        using Cons.prems(2) None by (auto simp: bind_res_Inr Let_def)
      then show ?thesis using Cons.IH by blast
    next
      case False
      then have "sum_loop D (c # cells) acc ds any = sum_loop D cells acc ds any"
        using None by (cases c) auto
      then show ?thesis using Cons False by auto
    qed
  qed
qed auto

lemma foldl_best:
  fixes D :: "'d decimal_ops"
  defines "num \<equiv> \<lambda>c. dec_num D (the (as_number D c))"
  assumes "\<forall>b. best = Some b \<longrightarrow> as_number D b \<noteq> None"
  shows "case foldl (best_step D want_min) best cells of
      None \<Rightarrow> best = None \<and> list_all (\<lambda>c. as_number D c = None) cells
    | Some c \<Rightarrow> as_number D c \<noteq> None \<and> (best = Some c \<or> c \<in> set cells) \<and>
        (\<forall>x. best = Some x \<or> x \<in> set cells \<and> as_number D x \<noteq> None \<longrightarrow>
           (if want_min then num c \<le> num x else num x \<le> num c))"
  using assms(2)
proof (induction cells arbitrary: best)
  case Nil
  then show ?case by (cases best) auto
next
  case (Cons c cells)
  show ?case
  proof (cases "as_number D c")
    case None
    then have "best_step D want_min best c = best" by (simp add: best_step_def)
    then show ?thesis using Cons.IH [OF Cons.prems] None by (auto split: option.splits)
  next
    case (Some cur)
    define b where "b = best_step D want_min best c"
    have b: "\<exists>x. b = Some x \<and> as_number D x \<noteq> None \<and> (x = c \<or> best = Some x) \<and>
        (if want_min then num x \<le> num c else num c \<le> num x) \<and>
        (\<forall>y. best = Some y \<longrightarrow> (if want_min then num x \<le> num y else num y \<le> num x))"
    proof (cases best)
      case None
      then show ?thesis using Some by (simp add: b_def best_step_def)
    next
      case (Some prev)
      then obtain p where p: "as_number D prev = Some p" using Cons.prems by auto
      have "num c = dec_num D cur" "num prev = dec_num D p" using \<open>as_number D c = _\<close> p by (simp_all add: num_def)
      then show ?thesis using Some p \<open>as_number D c = _\<close>
        by (auto simp: b_def best_step_def dec_cmp_def Let_def)
    qed
    then obtain x where x: "b = Some x" by blast
    then have "\<forall>b'. b = Some b' \<longrightarrow> as_number D b' \<noteq> None" using b by auto
    from Cons.IH [OF this] show ?thesis using b x
      by (auto simp: b_def [symmetric] split: option.splits if_splits)
  qed
qed

section \<open>Properties\<close>

text \<open>
  A FlowField of kind Sum over cells that are all integers is their exact sum as an Integer, and the sum
  fits 64 bits; a Decimal cell makes the result a Decimal.  The error is the overflow error.
\<close>

theorem calc_flow_sum:
  assumes "calc_flow E conditions target AggSum T = Ok v"
    and "cells = target_cells target (flow_rows E conditions T)"
  shows "(list_all (\<lambda>c. as_int c \<noteq> None) cells \<longrightarrow>
      v = VInteger (sum_list (map (\<lambda>c. the (as_int c)) cells)) \<and> in_i64 (sum_list (map (\<lambda>c. the (as_int c)) cells))) \<and>
    (list_ex (\<lambda>c. \<exists>d. c = VDecimal d) cells \<longrightarrow> (\<exists>d. v = VDecimal d))"
proof -
  have "sum_loop (dec E) cells 0 (dec_zero (dec E)) False = Inr v"
    using assms by (simp add: calc_flow_def Let_def sum_cells_def)
  then show ?thesis
    using sum_loop_integers [of cells "dec E" 0 _ v] sum_loop_decimal [of False cells "dec E" 0 _ v]
    by (cases cells) (auto simp: int_range_defs)
qed

lemma calc_flow_sum_witness:
  "calc_flow sample_env [] (Some 2) AggSum two_rows = Ok (VInteger 12)"
proof -
  have "\<exists>v. calc_flow sample_env [] (Some 2) AggSum two_rows = Ok v"
    by (rule exI [of _ "VInteger 12"]) code_simp
  then obtain v where v: "calc_flow sample_env [] (Some 2) AggSum two_rows = Ok v" by blast
  have cells: "target_cells (Some 2) (flow_rows sample_env [] two_rows) = [VInteger 7, VInteger 5]" by code_simp
  from calc_flow_sum [OF v refl] v cells show ?thesis by simp
qed

text \<open>
  A FlowField of kind Min or Max returns a cell of the selected rows that no numeric cell beats, the
  declared zero standing in for cells never assigned; without numeric cells it is zero.
\<close>

theorem calc_flow_extreme:
  assumes "cells = extreme_cells T target (flow_rows E conditions T)"
  shows "\<exists>lo hi. calc_flow E conditions target AggMin T = Ok lo \<and> calc_flow E conditions target AggMax T = Ok hi \<and>
    (if list_all (\<lambda>c. as_decimal (dec E) c = None) cells then lo = VInteger 0 \<and> hi = VInteger 0
     else lo \<in> set cells \<and> hi \<in> set cells \<and>
       (\<forall>x \<in> set cells. \<forall>d. as_decimal (dec E) x = Some d \<longrightarrow>
          (\<exists>dl dh. as_decimal (dec E) lo = Some dl \<and> as_decimal (dec E) hi = Some dh \<and>
             dec_num (dec E) dl \<le> dec_num (dec E) d \<and> dec_num (dec E) d \<le> dec_num (dec E) dh)))"
proof -
  note best = foldl_best [where best = None and D = "dec E" and cells = cells]
  have ne: "foldl (best_step (dec E) m) None cells \<noteq> None" if "\<not> list_all (\<lambda>c. as_decimal (dec E) c = None) cells" for m
    using best [of m] that by (auto simp: as_number_def split: option.splits)
  have "list_all (\<lambda>c. as_decimal (dec E) c = None) cells \<Longrightarrow> foldl (best_step (dec E) m) None cells = None" for m
    using best [of m] by (auto simp: as_number_def list_all_iff split: option.splits)
  then show ?thesis
    using best [of True] best [of False] ne [of True] ne [of False]
    by (auto simp: calc_flow_def Let_def extreme_cell_def assms [symmetric] as_number_def split: option.splits)
      (metis option.sel)+
qed

lemma calc_flow_extreme_witness:
  "calc_flow sample_env [] (Some 2) AggMin two_rows = Ok (VInteger 5)"
proof -
  have cells: "extreme_cells two_rows (Some 2) (flow_rows sample_env [] two_rows) = [VInteger 7, VInteger 5]" by code_simp
  from calc_flow_extreme [OF cells [symmetric]] show ?thesis by auto
qed

text \<open>Count and Exist see the same rows: Exist is whether Count is positive.\<close>

theorem calc_flow_exist_count:
  assumes "int (length (rows T)) \<le> i64_max"
  shows "\<exists>n. calc_flow E conditions target AggCount T = Ok (VInteger n) \<and> 0 \<le> n \<and> n \<le> int (length (rows T)) \<and>
    calc_flow E conditions target AggExist T = Ok (VBoolean (0 < n))"
proof -
  have "length (flow_rows E conditions T) \<le> length (rows T)"
    unfolding flow_rows_def by (metis length_filter_le length_map)
  then show ?thesis using assms by (auto simp: calc_flow_def Let_def)
qed

lemma calc_flow_exist_count_witness: "\<exists>n. calc_flow sample_env [] None AggCount two_rows = Ok (VInteger n) \<and> 0 \<le> n"
proof -
  have "int (length (rows two_rows)) \<le> i64_max" by code_simp
  from calc_flow_exist_count [OF this, of sample_env "[]" None] show ?thesis by blast
qed

text \<open>
  \<open>SetRange\<close> on a Code field ignores case, on an integer field it compares numbers, and an unassigned
  cell counts as the empty code or zero.
\<close>

theorem set_range_cells:
  assumes "dec_exact (dec E)" and "in_i64 lo" and "in_i64 hi" and "in_i64 n"
  shows "(field_filter_matches E (FieldRange (VInteger lo) (VInteger hi)) (VInteger n) \<longleftrightarrow> lo \<le> n \<and> n \<le> hi) \<and>
    (field_filter_matches E (FieldRange (VInteger lo) (VInteger hi)) VEmpty \<longleftrightarrow> lo \<le> 0 \<and> 0 \<le> hi) \<and>
    (field_filter_matches E (FieldRange (VCode a) (VCode a)) (VCode b) \<longleftrightarrow> to_uppercase a = to_uppercase b) \<and>
    (field_filter_matches E (FieldRange (VCode a) (VCode a)) VEmpty \<longleftrightarrow> to_uppercase a = '''')"
proof -
  have ord: "str_cmp x y \<noteq> Less \<and> str_cmp x y \<noteq> Greater \<longleftrightarrow> y = x" for x y
    using str_cmp_Equal [of x y] by (cases "str_cmp x y") auto
  have "to_uppercase '''' = ''''" by (simp add: to_uppercase_def)
  moreover
  have "in_i64 0" by (simp add: int_range_defs)
  ultimately have num: "to_uppercase '''' = ''''" "dec_num (dec E) (dec_from (dec E) m) = of_int m" if "m \<in> {lo, hi, n, 0}" for m
    using assms that by (auto simp: dec_exact_def)
  show ?thesis
    by (auto simp: field_cmp_def field_cmp_set_def is_empty_cell_def is_some_and_def zero_like_def as_number_def
        dec_cmp_def is_code_def num not_less ord)
qed

lemma set_range_cells_witness:
  "field_filter_matches sample_env (FieldRange (VInteger 1) (VInteger 5)) (VInteger 3)"
proof -
  have "in_i64 1" "in_i64 5" "in_i64 3" by (simp_all add: int_range_defs)
  with set_range_cells [of sample_env 1 5 3] show ?thesis by (simp add: sample_decimal_exact)
qed

text \<open>
  \<open>SetRange\<close> on an option field does not look at ordinals.  A cell that was never assigned matches every
  option value, and two assigned cells are compared by the names of their members.
\<close>

theorem set_range_option_ignores_ordinal:
  "field_filter_matches E (FieldRange (VOption t m n) (VOption t m n)) VEmpty \<and>
   field_filter_matches E (FieldRange (VOption t m n) (VOption t m n)) (VOption t m k) \<and>
   field_cmp E (VOption t m n) (VOption t m' k) = Some (str_cmp m m')"
  by (simp add: field_cmp_def field_cmp_set_def is_empty_cell_def is_some_and_def zero_like_def as_number_def is_code_def)

end
