(* ===== verification/Filter_Round_Trip.thy ===== *)
theory Filter_Round_Trip
  imports Filter_Expr
begin

text \<open>
  The filter parser against the filter syntax.  \<open>print_filter\<close> writes an expression in the
  documented syntax with every operand quoted, either with every compound operand in parentheses or with those
  the precedences require; the parser reads both back.  Then the meaning of the common filters, from their text to
  the cells they select.
\<close>

section \<open>Printing\<close>

definition quoted :: "string \<Rightarrow> string" where
  "quoted s = quote1 # s @ [quote1]"

definition token_ok :: "string \<Rightarrow> bool" where
  "token_ok s \<longleftrightarrow> quote1 \<notin> set s"

fun print_orderable :: "'d decimal_ops \<Rightarrow> 'd orderable \<Rightarrow> string" where
  "print_orderable D (OInteger n) = quoted (show_int n)"
| "print_orderable D (ODecimal d) = quoted (dec_show D d)"
| "print_orderable D (OText s) = quoted s"

fun orderable_ok :: "'d decimal_ops \<Rightarrow> 'd orderable \<Rightarrow> bool" where
  "orderable_ok D (OInteger n) \<longleftrightarrow> in_i64 n"
| "orderable_ok D (ODecimal d) \<longleftrightarrow> token_ok (dec_show D d) \<and> parse_i64 (dec_show D d) = None \<and>
     dec_parse D (dec_show D d) = Some d"
| "orderable_ok D (OText s) \<longleftrightarrow> token_ok s \<and> parse_i64 s = None \<and> dec_parse D s = None"

definition print_pattern :: "pattern \<Rightarrow> string" where
  "print_pattern p = quoted ((if case_sensitive p then '''' else ''@'') @ pat_text p)"

definition pattern_ok :: "pattern \<Rightarrow> bool" where
  "pattern_ok p \<longleftrightarrow> token_ok (pat_text p) \<and> (case_sensitive p \<longrightarrow> \<not> starts_with (pat_text p) ''@'')"

fun print_atom :: "'d decimal_ops \<Rightarrow> 'd filter_atom \<Rightarrow> string" where
  "print_atom D (Equals p) = print_pattern p"
| "print_atom D (NotEqual p) = ''<>'' @ print_pattern p"
| "print_atom D (LessThan v) = ''<'' @ print_orderable D v"
| "print_atom D (LessEqual v) = ''<='' @ print_orderable D v"
| "print_atom D (GreaterThan v) = ''>'' @ print_orderable D v"
| "print_atom D (GreaterEqual v) = ''>='' @ print_orderable D v"
| "print_atom D (Range lo hi) = print_orderable D lo @ ''..'' @ print_orderable D hi"

fun atom_ok :: "'d decimal_ops \<Rightarrow> 'd filter_atom \<Rightarrow> bool" where
  "atom_ok D (Equals p) = pattern_ok p"
| "atom_ok D (NotEqual p) = pattern_ok p"
| "atom_ok D (LessThan v) = orderable_ok D v"
| "atom_ok D (LessEqual v) = orderable_ok D v"
| "atom_ok D (GreaterThan v) = orderable_ok D v"
| "atom_ok D (GreaterEqual v) = orderable_ok D v"
| "atom_ok D (Range lo hi) = (orderable_ok D lo \<and> orderable_ok D hi)"

fun join :: "char \<Rightarrow> string list \<Rightarrow> string" where
  "join c [] = []"
| "join c (x # xs) = x @ concat (map (\<lambda>y. c # y) xs)"

definition in_parens :: "bool \<Rightarrow> string \<Rightarrow> string" where
  "in_parens yes s = (if yes then ''('' @ s @ '')'' else s)"

text \<open>
  \<open>all\<close> says whether a conjunction in a disjunction gets parentheses; a disjunction in a conjunction always does, as do
  a disjunction in a disjunction and a conjunction in a conjunction, which are other trees than their joins.
\<close>

fun print_filter :: "bool \<Rightarrow> 'd decimal_ops \<Rightarrow> 'd filter_expr \<Rightarrow> string" and
    print_operand :: "bool \<Rightarrow> 'd decimal_ops \<Rightarrow> 'd filter_expr \<Rightarrow> string" and
    print_term :: "bool \<Rightarrow> 'd decimal_ops \<Rightarrow> 'd filter_expr \<Rightarrow> string" where
  "print_filter all D (Or ts) = join (CHR ''|'') (map (print_operand all D) ts)"
| "print_filter all D (And ts) = join (CHR ''&'') (map (print_term all D) ts)"
| "print_filter all D (Atom a) = print_atom D a"
| "print_operand all D (Atom a) = print_atom D a"
| "print_operand all D (Or ts) = in_parens True (join (CHR ''|'') (map (print_operand all D) ts))"
| "print_operand all D (And ts) = in_parens all (join (CHR ''&'') (map (print_term all D) ts))"
| "print_term all D (Atom a) = print_atom D a"
| "print_term all D (Or ts) = in_parens True (join (CHR ''|'') (map (print_operand all D) ts))"
| "print_term all D (And ts) = in_parens True (join (CHR ''&'') (map (print_term all D) ts))"

fun expr_ok :: "'d decimal_ops \<Rightarrow> 'd filter_expr \<Rightarrow> bool" where
  "expr_ok D (Or ts) = (2 \<le> length ts \<and> list_all (expr_ok D) ts)"
| "expr_ok D (And ts) = (2 \<le> length ts \<and> list_all (expr_ok D) ts)"
| "expr_ok D (Atom a) = atom_ok D a"


section \<open>Reading back\<close>

text \<open>What may follow a term: the end, an operator or a closing parenthesis.\<close>

definition follow :: "char set \<Rightarrow> string \<Rightarrow> bool" where
  "follow F r \<longleftrightarrow> (case r of [] \<Rightarrow> True | c # _ \<Rightarrow> c \<in> F)"

abbreviation "bar \<equiv> CHR ''|''"
abbreviation "amp \<equiv> CHR ''&''"
abbreviation "rpar \<equiv> CHR '')''"

lemma follow_simps [simp]: "follow F []" "follow F (c # r) \<longleftrightarrow> c \<in> F"
  by (simp_all add: follow_def)

lemma follow_mono: "F \<subseteq> G \<Longrightarrow> follow F r \<Longrightarrow> follow G r"
  by (auto simp: follow_def split: list.splits)

lemma skip_follow: "follow {bar, amp, rpar} r \<Longrightarrow> skip_whitespace r = r"
  by (cases r) auto

lemma take_quoted_ok: "q \<notin> set s \<Longrightarrow> take_quoted q (s @ q # r) = Inr (s, r)"
  by (induction s) auto

lemma read_quoted: "token_ok s \<Longrightarrow> read_token (quoted s @ r) = Inr (s, r)"
  by (simp add: read_token_def quoted_def token_ok_def take_quoted_ok)

lemma quoted_hd: "\<exists>cs. quoted s @ r = quote1 # cs"
  by (simp add: quoted_def)

lemma show_nat_no_quote: "quote1 \<notin> set (show_nat n)"
  using show_nat_digits [of n] by (auto simp: list_all_iff is_ascii_digit_def)

lemma token_ok_show_int: "token_ok (show_int n)"
  by (simp add: token_ok_def show_int_def show_nat_no_quote)

lemma parse_orderable_print:
  "orderable_ok D v \<Longrightarrow> parse_orderable D (print_orderable D v @ r) = Inr (v, r)"
  by (cases v) (simp_all add: parse_orderable_def read_quoted token_ok_show_int parse_orderable_str_def
      parse_show_i64 ok_or_def)

lemma print_orderable_quoted:
  "orderable_ok D v \<Longrightarrow> \<exists>s. print_orderable D v = quoted s \<and> token_ok s \<and> parse_orderable_str D s = Some v"
  by (cases v) (auto simp: parse_orderable_str_def parse_show_i64 token_ok_show_int)

lemma pattern_print:
  "pattern_ok p \<Longrightarrow> \<exists>s. print_pattern p = quoted s \<and> token_ok s \<and> pattern_of s = p"
  by (rule exI [of _ "(if case_sensitive p then '''' else ''@'') @ pat_text p"])
    (cases p; simp add: print_pattern_def pattern_ok_def pattern_of_def token_ok_def)

lemma starts_with_quoted [simp]: "starts_with (quoted s @ r) [c] \<longleftrightarrow> c = quote1"
  by (auto simp: quoted_def)

lemma parse_atom_print:
  assumes "atom_ok D a" "follow {bar, amp, rpar} r"
  shows "parse_atom D (print_atom D a @ r) = Inr (a, r)"
proof -
  have no_dots: "\<not> starts_with r ''..''" using assms(2) by (cases r) auto
  have skip: "skip_whitespace (quoted s @ r') = quoted s @ r'" for s r' by (simp add: quoted_def)
  have first: "parse_atom D (quoted s @ r') =
      bind_res (read_token (quoted s @ r')) (\<lambda>(first_str, r).
        let r' = skip_whitespace r in
        if starts_with r' ''..'' then
          bind_res (read_token (drop 2 r')) (\<lambda>(second_str, r2).
            bind_res (ok_or (parse_orderable_str D first_str) (InvalidRange first_str second_str)) (\<lambda>lo.
            bind_res (ok_or (parse_orderable_str D second_str) (InvalidRange first_str second_str)) (\<lambda>hi.
              Ok (Range lo hi, r2))))
        else Ok (Equals (pattern_of first_str), r'))" for s r'
    unfolding parse_atom_def skip by (simp add: quoted_def)
  show ?thesis
  proof (cases a)
    case (Equals p)
    then obtain s where "print_pattern p = quoted s" "token_ok s" "pattern_of s = p"
      using assms(1) pattern_print by auto
    then show ?thesis using Equals assms(2) no_dots by (simp add: first read_quoted skip_follow)
  next
    case (Range lo hi)
    then obtain s1 s2 where "print_orderable D lo = quoted s1" "token_ok s1" "parse_orderable_str D s1 = Some lo"
      "print_orderable D hi = quoted s2" "token_ok s2" "parse_orderable_str D s2 = Some hi"
      using assms(1) print_orderable_quoted [of D lo] print_orderable_quoted [of D hi] by auto
    then show ?thesis using Range by (simp add: first read_quoted ok_or_def)
  next
    case (NotEqual p)
    then obtain s where "print_pattern p = quoted s" "token_ok s" "pattern_of s = p"
      using assms(1) pattern_print by auto
    then show ?thesis using NotEqual by (simp add: parse_atom_def parse_pattern_def read_quoted)
  next
    case (LessThan v)
    then show ?thesis using assms(1) print_orderable_quoted [of D v] parse_orderable_print [of D v r]
      by (auto simp: parse_atom_def)
  next
    case (GreaterThan v)
    then show ?thesis using assms(1) print_orderable_quoted [of D v] parse_orderable_print [of D v r]
      by (auto simp: parse_atom_def)
  qed (use assms(1) in \<open>simp_all add: parse_atom_def parse_orderable_print\<close>)
qed

declare parse_expr.simps [simp del] or_loop.simps [simp del] parse_and.simps [simp del]
  and_loop.simps [simp del] parse_primary.simps [simp del]

lemma print_atom_hd: "\<exists>c cs. print_atom D a = c # cs \<and> c \<in> {quote1, CHR ''<'', CHR ''>''}"
proof -
  have "\<exists>cs. print_orderable D v = quote1 # cs" for v by (cases v) (simp_all add: quoted_def)
  moreover have "\<exists>cs. print_pattern p = quote1 # cs" for p by (simp add: print_pattern_def quoted_def)
  ultimately show ?thesis by (cases a) (fastforce simp: append_eq_Cons_conv)+
qed

definition reads_term :: "bool \<Rightarrow> 'd decimal_ops \<Rightarrow> 'd filter_expr \<Rightarrow> bool" where
  "reads_term all D e \<longleftrightarrow>
     (\<forall>r. follow {bar, amp, rpar} r \<longrightarrow> parse_primary D (print_term all D e @ r) = Inr (e, r))"

definition reads_operand :: "bool \<Rightarrow> 'd decimal_ops \<Rightarrow> 'd filter_expr \<Rightarrow> bool" where
  "reads_operand all D e \<longleftrightarrow>
     (\<forall>r. follow {bar, rpar} r \<longrightarrow> parse_and D (print_operand all D e @ r) = Inr (e, r))"

definition reads_filter :: "bool \<Rightarrow> 'd decimal_ops \<Rightarrow> 'd filter_expr \<Rightarrow> bool" where
  "reads_filter all D e \<longleftrightarrow>
     (\<forall>r. follow {rpar} r \<longrightarrow> parse_expr D (print_filter all D e @ r) = Inr (e, r))"

abbreviation texts_after :: "char \<Rightarrow> ('e \<Rightarrow> string) \<Rightarrow> 'e list \<Rightarrow> string" where
  "texts_after c pr ts \<equiv> concat (map (\<lambda>t. c # pr t) ts)"

lemma follow_terms: "c \<in> F \<Longrightarrow> follow F r \<Longrightarrow> follow F (texts_after c pr ts @ r)"
  by (cases ts) auto

lemma and_loop_terms:
  "\<forall>t \<in> set ts. reads_term all D t \<Longrightarrow> follow {bar, rpar} r \<Longrightarrow>
   and_loop D acc (texts_after amp (print_term all D) ts @ r) =
     Inr (if length (acc @ ts) = 1 then hd (acc @ ts) else And (acc @ ts), r)"
proof (induction ts arbitrary: acc)
  case Nil
  then show ?case using skip_follow [OF follow_mono, of "{bar, rpar}" r]
    by (cases r) (auto simp: and_loop.simps [of D acc])
next
  case (Cons t ts)
  have "parse_primary D (print_term all D t @ texts_after amp (print_term all D) ts @ r) =
      Inr (t, texts_after amp (print_term all D) ts @ r)"
    using Cons.prems follow_terms [of amp "{bar, amp, rpar}" r "print_term all D" ts]
      follow_mono [of "{bar, rpar}" "{bar, amp, rpar}" r]
    by (simp add: reads_term_def)
  then show ?case using Cons by (simp add: and_loop.simps [of D acc])
qed

lemma parse_and_term: "reads_term all D t \<Longrightarrow> follow {bar, rpar} r \<Longrightarrow> parse_and D (print_term all D t @ r) = Inr (t, r)"
  using and_loop_terms [of "[]" all D r "[t]"] follow_mono [of "{bar, rpar}" "{bar, amp, rpar}" r]
  by (simp add: parse_and.simps reads_term_def)

lemma or_loop_terms:
  "\<forall>t \<in> set ts. reads_operand all D t \<Longrightarrow> follow {rpar} r \<Longrightarrow>
   or_loop D acc (texts_after bar (print_operand all D) ts @ r) =
     Inr (if length (acc @ ts) = 1 then hd (acc @ ts) else Or (acc @ ts), r)"
proof (induction ts arbitrary: acc)
  case Nil
  then show ?case using skip_follow [OF follow_mono, of "{rpar}" r]
    by (cases r) (auto simp: or_loop.simps [of D acc])
next
  case (Cons t ts)
  have "parse_and D (print_operand all D t @ texts_after bar (print_operand all D) ts @ r) =
      Inr (t, texts_after bar (print_operand all D) ts @ r)"
    using Cons.prems follow_terms [of bar "{bar, rpar}" r "print_operand all D" ts] follow_mono [of "{rpar}" "{bar, rpar}" r]
    by (simp add: reads_operand_def)
  then show ?case using Cons by (simp add: or_loop.simps [of D acc])
qed

lemma parse_expr_of_and:
  "parse_and D s = Inr (e, r) \<Longrightarrow> follow {rpar} r \<Longrightarrow> parse_expr D s = Inr (e, r)"
  using or_loop_terms [of "[]" True D r "[e]"] by (simp add: parse_expr.simps)

lemma reads_compound: "reads_filter all D e \<Longrightarrow> \<nexists>a. e = Atom a \<Longrightarrow> reads_term all D e"
proof -
  assume e: "reads_filter all D e" "\<nexists>a. e = Atom a"
  then have "print_term all D e = ''('' @ print_filter all D e @ '')''" by (cases e) (auto simp: in_parens_def)
  then show ?thesis using e by (simp add: reads_term_def reads_filter_def parse_primary.simps)
qed

lemma reads_as_term: "reads_term all D e \<Longrightarrow> print_operand all D e = print_term all D e \<Longrightarrow> reads_operand all D e"
  by (simp add: reads_operand_def parse_and_term)

lemma reads_atom: "atom_ok D a \<Longrightarrow> reads_term all D (Atom a)"
proof -
  assume a: "atom_ok D a"
  show ?thesis
    unfolding reads_term_def
  proof (intro allI impI)
    fix r assume r: "follow {bar, amp, rpar} r"
    obtain c cs where "print_atom D a = c # cs" "c \<in> {quote1, CHR ''<'', CHR ''>''}"
      using print_atom_hd by blast
    then show "parse_primary D (print_term all D (Atom a) @ r) = Inr (Atom a, r)"
      using parse_atom_print [OF a r] by (auto simp: parse_primary.simps)
  qed
qed

lemma reads_back: "expr_ok D e \<Longrightarrow> reads_term all D e \<and> reads_operand all D e \<and> reads_filter all D e"
proof (induction e)
  case (Atom a)
  then have t: "reads_term all D (Atom a)" by (simp add: reads_atom)
  then show ?case using parse_and_term [of all D "Atom a"] parse_expr_of_and [of D _ "Atom a"]
      follow_mono [of "{rpar}" "{bar, rpar}"] reads_as_term [OF t]
    by (simp add: reads_filter_def)
next
  case (And ts)
  then obtain t ts' where ts: "ts = t # ts'" "ts' \<noteq> []" by (cases ts; cases "tl ts") auto
  have t: "reads_term all D t" "\<forall>t \<in> set ts'. reads_term all D t"
    using And by (auto simp: ts list_all_iff)
  have bare: "parse_and D (print_filter all D (And ts) @ r) = Inr (And ts, r)" if f: "follow {bar, rpar} r" for r
  proof -
    have "follow {bar, amp, rpar} (texts_after amp (print_term all D) ts' @ r)"
      using f follow_terms [of amp "{bar, amp, rpar}" r] follow_mono [of "{bar, rpar}" "{bar, amp, rpar}"] by auto
    then show ?thesis
      using t(1) and_loop_terms [OF t(2) f, of "[t]"] ts by (simp add: parse_and.simps reads_term_def comp_def)
  qed
  have f: "reads_filter all D (And ts)"
    using bare follow_mono [of "{rpar}" "{bar, rpar}"] parse_expr_of_and unfolding reads_filter_def by fastforce
  then have tm: "reads_term all D (And ts)" by (rule reads_compound) simp
  have "reads_operand all D (And ts)"
  proof (cases all)
    case True
    then show ?thesis using reads_as_term [OF tm] by simp
  next
    case False
    then have "print_operand all D (And ts) = print_filter all D (And ts)" by (simp add: in_parens_def)
    then show ?thesis using bare by (simp add: reads_operand_def)
  qed
  then show ?case using f tm by simp
next
  case (Or ts)
  then obtain t ts' where ts: "ts = t # ts'" "ts' \<noteq> []" by (cases ts; cases "tl ts") auto
  have t: "reads_operand all D t" "\<forall>t \<in> set ts'. reads_operand all D t"
    using Or by (auto simp: ts list_all_iff)
  have f: "reads_filter all D (Or ts)"
    unfolding reads_filter_def
  proof (intro allI impI)
    fix r assume r: "follow {rpar} r"
    have "follow {bar, rpar} (texts_after bar (print_operand all D) ts' @ r)"
      using follow_terms [of bar "{bar, rpar}" r] follow_mono [OF _ r, of "{bar, rpar}"] by auto
    then show "parse_expr D (print_filter all D (Or ts) @ r) = Inr (Or ts, r)"
      using t(1) or_loop_terms [OF t(2) r, of "[t]"] ts
      by (simp add: parse_expr.simps reads_operand_def comp_def)
  qed
  then have tm: "reads_term all D (Or ts)" by (rule reads_compound) simp
  then show ?case using f tm reads_as_term [OF tm] by simp
qed

text \<open>A printed expression starts and ends with a visible character.\<close>

definition visible :: "string \<Rightarrow> bool" where
  "visible s \<longleftrightarrow> s \<noteq> [] \<and> \<not> is_whitespace (hd s) \<and> \<not> is_whitespace (last s)"

lemma visible_append: "visible s \<Longrightarrow> visible t \<Longrightarrow> visible (s @ u @ t)"
  by (auto simp: visible_def)

lemma visible_quoted: "visible (quoted s)"
  by (simp add: visible_def quoted_def is_whitespace_def)

lemma visible_orderable: "visible (print_orderable D v)"
  by (cases v) (simp_all add: visible_quoted)

lemma visible_Cons: "visible s \<Longrightarrow> \<not> is_whitespace c \<Longrightarrow> visible (c # s)"
  by (auto simp: visible_def)

lemma visible_atom: "visible (print_atom D a)"
  by (cases a) (simp_all add: print_pattern_def visible_quoted visible_orderable visible_Cons
      is_whitespace_def visible_append [of _ _ "''..''", simplified])

lemma visible_term: "visible (print_term all D e)"
proof (cases e)
  case (Atom a)
  then show ?thesis by (simp add: visible_atom)
qed (simp_all add: visible_def is_whitespace_def in_parens_def)

lemma visible_join: "\<forall>x \<in> set xs. visible x \<Longrightarrow> xs \<noteq> [] \<Longrightarrow> visible (join c xs)"
proof (induction xs rule: rev_induct)
  case (snoc x xs)
  show ?case
  proof (cases xs)
    case (Cons y ys)
    have "visible (join c xs @ [c] @ x)" by (rule visible_append) (use snoc Cons in auto)
    then show ?thesis by (simp add: Cons)
  qed (use snoc in simp)
qed simp

lemma visible_operand: "expr_ok D e \<Longrightarrow> visible (print_operand all D e)"
proof (cases e)
  case (Or ts)
  then show ?thesis by (simp add: visible_def is_whitespace_def in_parens_def)
next
  case (And ts)
  assume "expr_ok D e"
  then have "visible (join amp (map (print_term all D) ts))" using And by (auto simp: visible_term intro!: visible_join)
  then show ?thesis using And by (auto simp: in_parens_def visible_def is_whitespace_def)
qed (simp add: visible_atom)

lemma visible_filter: "expr_ok D e \<Longrightarrow> visible (print_filter all D e)"
  by (cases e) (auto simp: visible_atom visible_term visible_operand list_all_iff intro!: visible_join)

text \<open>
  C14: the parser reads every printed expression back, with all parentheses or with those only that the precedences
  require: \<open>a&b|c\<close> is read as \<open>(a&b)|c\<close>, as \<open>&\<close> binds closer than \<open>|\<close>.  The conditions only ask that a quoted operand
  holds no quote and is read as the kind of operand it is.
\<close>

theorem parse_print_filter:
  assumes "expr_ok D e"
  shows "parse D (print_filter all D e) = Ok e"
proof -
  have "trim (print_filter all D e) = print_filter all D e" "print_filter all D e \<noteq> []"
    using visible_filter [OF assms] by (simp_all add: visible_def trim_id)
  moreover have "parse_expr D (print_filter all D e) = Inr (e, [])"
    using reads_back [OF assms, of all] by (auto simp: reads_filter_def dest: spec [of _ "[]"])
  ultimately show ?thesis by (simp add: parse_def)
qed

definition sample_filter :: "mantissa filter_expr" where
  "sample_filter =
     Or [And [Atom (GreaterEqual (OInteger 10)), Atom (NotEqual \<lparr>pat_text = ''A*'', case_sensitive = False\<rparr>)],
         Atom (Range (OText ''A'') (OText ''C''))]"

lemma parse_print_filter_witness:
  "parse sample_decimal (''>='' @ quoted ''10'' @ ''&<>'' @ quoted ''@A*'' @ ''|'' @ quoted ''A'' @ ''..'' @ quoted ''C'') =
     Ok sample_filter"
proof -
  have ok: "expr_ok sample_decimal sample_filter" by code_simp
  have "print_filter False sample_decimal sample_filter =
      ''>='' @ quoted ''10'' @ ''&<>'' @ quoted ''@A*'' @ ''|'' @ quoted ''A'' @ ''..'' @ quoted ''C''" by code_simp
  then show ?thesis using parse_print_filter [OF ok, of False] by simp
qed

section \<open>The shape of parsed expressions\<close>

text \<open>A disjunction or conjunction the parser builds has at least two terms.\<close>

fun well_nested :: "'d filter_expr \<Rightarrow> bool" where
  "well_nested (Or ts) = (2 \<le> length ts \<and> list_all well_nested ts)"
| "well_nested (And ts) = (2 \<le> length ts \<and> list_all well_nested ts)"
| "well_nested (Atom _) = True"

definition result_ok :: "filter_error + 'd filter_expr \<times> string \<Rightarrow> bool" where
  "result_ok res \<longleftrightarrow>
     (case res of Inl (InvalidRange _ _) \<Rightarrow> False | Inl EmptyFilter \<Rightarrow> False | Inl _ \<Rightarrow> True | Inr (e, _) \<Rightarrow> well_nested e)"

lemma result_ok_Inr [simp]: "result_ok (Inr (e, r)) \<longleftrightarrow> well_nested e"
  by (simp add: result_ok_def)

lemma result_ok_bind:
  "(\<And>x. res = Inl x \<Longrightarrow> result_ok (Inl x :: filter_error + 'd filter_expr \<times> string)) \<Longrightarrow>
   (\<And>x r. res = Inr (x, r) \<Longrightarrow> result_ok (f (x, r))) \<Longrightarrow> result_ok (bind_res res f :: _ + 'd filter_expr \<times> string)"
  by (cases res) auto

lemma read_token_error: "read_token s = Inl x \<Longrightarrow> x = UnexpectedEnd"
proof -
  have q: "take_quoted q cs = Inl x \<Longrightarrow> x = UnexpectedEnd" for q cs
    by (induction cs) (auto simp: bind_res_def split: if_splits sum.splits prod.splits)
  assume "read_token s = Inl x"
  then show ?thesis
    by (auto simp: read_token_def Let_def split: list.splits if_splits prod.splits dest: q)
qed

lemma orderable_total: "\<exists>v. parse_orderable_str D s = Some v"
  by (auto simp: parse_orderable_str_def split: option.splits)

lemma bind_res_Inl: "bind_res r f = Inl x \<longleftrightarrow> r = Inl x \<or> (\<exists>y. r = Inr y \<and> f y = Inl x)"
  by (cases r) auto

lemma ok_or_orderable: "ok_or (parse_orderable_str D s) x \<noteq> Inl y"
  using orderable_total [of D s] by (auto simp: ok_or_def)

lemma parse_atom_error: "parse_atom D s = Inl x \<Longrightarrow> x = UnexpectedEnd"
  by (auto simp: parse_atom_def parse_pattern_def parse_orderable_def bind_res_Inl ok_or_orderable Let_def
      split: list.splits if_splits prod.splits dest: read_token_error)

lemma parser_result_ok:
  "result_ok (parse_expr D s)"
  "ts \<noteq> [] \<Longrightarrow> list_all well_nested ts \<Longrightarrow> result_ok (or_loop D ts s)"
  "result_ok (parse_and D s)"
  "ts \<noteq> [] \<Longrightarrow> list_all well_nested ts \<Longrightarrow> result_ok (and_loop D ts s)"
  "result_ok (parse_primary D s)"
proof (induction D s and D ts s and D s and D ts s and D s
    rule: parse_expr_or_loop_parse_and_and_loop_parse_primary.induct)
  case (1 D s)
  then show ?case unfolding parse_expr.simps [of D s] by (intro result_ok_bind) (auto)
next
  case (2 D ts s)
  have one: "2 \<le> length ts \<or> (\<exists>t. ts = [t])" using 2(3) by (cases ts; cases "tl ts") auto
  show ?case
  proof (cases "starts_with (skip_whitespace s) ''|''")
    case True
    have "result_ok (bind_res (parse_and D (drop 1 (skip_whitespace s))) (\<lambda>(t, r). or_loop D (ts @ [t]) r))"
      by (rule result_ok_bind) (use 2 True in auto)
    then show ?thesis using True by (simp add: or_loop.simps [of D ts s])
  qed (use one 2 in \<open>auto simp: or_loop.simps [of D ts s]\<close>)
next
  case (3 D s)
  then show ?case unfolding parse_and.simps [of D s] by (intro result_ok_bind) (auto)
next
  case (4 D ts s)
  have one: "2 \<le> length ts \<or> (\<exists>t. ts = [t])" using 4(3) by (cases ts; cases "tl ts") auto
  show ?case
  proof (cases "starts_with (skip_whitespace s) ''&''")
    case True
    have "result_ok (bind_res (parse_primary D (drop 1 (skip_whitespace s))) (\<lambda>(t, r). and_loop D (ts @ [t]) r))"
      by (rule result_ok_bind) (use 4 True in auto)
    then show ?thesis using True by (simp add: and_loop.simps [of D ts s])
  qed (use one 4 in \<open>auto simp: and_loop.simps [of D ts s]\<close>)
next
  case (5 D s)
  show ?case
  proof (cases "starts_with (skip_whitespace s) ''(''")
    case True
    have "result_ok (bind_res (parse_expr D (drop 1 (skip_whitespace s))) (\<lambda>(inner, r).
          let r' = skip_whitespace r in
          if starts_with r' '')'' then Ok (inner, drop 1 r') else Err UnmatchedParen))"
      by (rule result_ok_bind) (use 5 True in \<open>auto simp: Let_def, simp add: result_ok_def\<close>)
    then show ?thesis using True by (simp add: parse_primary.simps [of D s])
  next
    case False
    have "result_ok (bind_res (parse_atom D (skip_whitespace s)) (\<lambda>(a, r). Ok (Atom a, r)))"
      by (rule result_ok_bind) (auto dest!: parse_atom_error simp: result_ok_def)
    then show ?thesis using False by (simp add: parse_primary.simps [of D s])
  qed
qed

text \<open>
  What the parser returns.  A parsed expression has no empty or one-term operator; a text of only
  blanks is the one \<open>Empty\<close> error; and the error \<open>InvalidRange\<close> is never returned, because any
  operand reads as a number or as text.
\<close>

theorem parse_result:
  "case parse D s of
     Inr e \<Rightarrow> well_nested e
   | Inl EmptyFilter \<Rightarrow> trim s = []
   | Inl (InvalidRange _ _) \<Rightarrow> False
   | Inl _ \<Rightarrow> trim s \<noteq> []"
  using parser_result_ok(1) [of D "trim s"]
  by (auto simp: parse_def Let_def result_ok_def bind_res_def split: sum.splits list.splits filter_error.splits)


section \<open>From the text of a filter to the cells it selects\<close>

lemma show_int_chars: "c \<in> set (show_int n) \<Longrightarrow> c = CHR ''-'' \<or> is_ascii_digit c"
  using show_nat_digits by (auto simp: show_int_def list_all_iff split: if_splits)

lemma take_token_plain:
  "\<forall>c \<in> set s. \<not> delimiter c \<and> c \<noteq> CHR ''.'' \<Longrightarrow> r = [] \<or> starts_with r ''..'' \<Longrightarrow> take_token (s @ r) = (s, r)"
proof (induction s)
  case Nil
  then show ?case by (cases r) auto
qed auto

lemma show_int_visible: "visible (show_int n)"
proof -
  have ws: "\<not> is_whitespace c" if "c \<in> set (show_int n)" for c
    using show_int_chars [OF that] by (auto simp: is_whitespace_def is_ascii_digit_def)
  have "show_int n \<noteq> []" by (simp add: show_int_def)
  then show ?thesis using ws by (simp add: visible_def)
qed

lemma read_show_int: "r = [] \<or> starts_with r ''..'' \<Longrightarrow> read_token (show_int n @ r) = Inr (show_int n, r)"
proof -
  assume r: "r = [] \<or> starts_with r ''..''"
  have plain: "\<forall>c \<in> set (show_int n). \<not> delimiter c \<and> c \<noteq> CHR ''.'' \<and> c \<noteq> quote1 \<and> c \<noteq> quote2"
  proof
    fix c assume "c \<in> set (show_int n)"
    from show_int_chars [OF this] show "\<not> delimiter c \<and> c \<noteq> CHR ''.'' \<and> c \<noteq> quote1 \<and> c \<noteq> quote2"
      by (auto simp: delimiter_def is_ascii_digit_def)
  qed
  obtain c cs where s: "show_int n = c # cs" by (cases "show_int n") (auto simp: show_int_def split: if_splits)
  have "take_token (show_int n @ r) = (show_int n, r)" using plain r by (intro take_token_plain) auto
  then show ?thesis using plain by (simp add: read_token_def s delimiter_def)
qed

lemma parse_int_range:
  assumes "in_i64 lo" "in_i64 hi"
  shows "parse D (show_int lo @ ''..'' @ show_int hi) = Ok (Atom (Range (OInteger lo) (OInteger hi)))"
proof -
  let ?s = "show_int lo @ ''..'' @ show_int hi"
  have vis: "visible ?s" by (rule visible_append) (simp_all add: show_int_visible)
  obtain c cs where lo: "show_int lo = c # cs" "c = CHR ''-'' \<or> is_ascii_digit c"
    using show_int_chars [of _ lo] by (cases "show_int lo") (auto simp: show_int_def split: if_splits)
  have c: "c \<noteq> CHR '' ''" "c \<noteq> tab" "c \<noteq> CHR ''<''" "c \<noteq> CHR ''>''" "c \<noteq> CHR ''(''"
    using lo(2) by (auto simp: is_ascii_digit_def)
  have ord: "parse_orderable_str D (c # cs) = Some (OInteger lo)" "parse_orderable_str D (show_int hi) = Some (OInteger hi)"
    using parse_show_i64 [OF assms(1)] parse_show_i64 [OF assms(2)] by (simp_all add: parse_orderable_str_def lo(1))
  have "read_token (c # cs @ ''..'' @ show_int hi) = Inr (c # cs, ''..'' @ show_int hi)"
    using read_show_int [of "''..'' @ show_int hi" lo] by (simp add: lo(1))
  then have "parse_atom D ?s = Inr (Range (OInteger lo) (OInteger hi), [])"
    using read_show_int [of "[]" hi] c ord by (simp add: parse_atom_def lo(1) ok_or_def)
  then have "parse_expr D ?s = Inr (Atom (Range (OInteger lo) (OInteger hi)), [])"
    using c by (simp add: parse_expr.simps [of D "c # _"] parse_and.simps [of D "c # _"]
        parse_primary.simps [of D "c # _"] and_loop.simps [of D _ "[]"] or_loop.simps [of D _ "[]"] lo(1))
  then show ?thesis using vis by (simp add: parse_def visible_def trim_id)
qed

text \<open>
  \<open>SetFilter(Field, 'lo..hi')\<close> on a number field selects exactly the rows whose number lies between the
  bounds, both included, whether the cell is an Integer, a BigInteger or a Decimal; a cell that was
  never assigned counts as zero.
\<close>

theorem integer_range_filter:
  assumes "dec_exact D" and "in_i64 lo" and "in_i64 hi"
  shows "\<exists>e. parse D (show_int lo @ ''..'' @ show_int hi) = Ok e \<and>
    (\<forall>n. matches D e (VInteger n) \<longleftrightarrow> lo \<le> n \<and> n \<le> hi) \<and>
    (\<forall>n. matches D e (VBigInteger n) \<longleftrightarrow> lo \<le> n \<and> n \<le> hi) \<and>
    (\<forall>d. matches D e (VDecimal d) \<longleftrightarrow> of_int lo \<le> dec_num D d \<and> dec_num D d \<le> of_int hi) \<and>
    (matches D e VEmpty \<longleftrightarrow> lo \<le> 0 \<and> 0 \<le> hi)"
  using parse_int_range [OF assms(2,3), of D] assms
  by (auto simp: cmp_value_def is_some_and_def dec_cmp_def dec_exact_def not_less)

lemma integer_range_filter_witness:
  "\<exists>e. parse sample_decimal (show_int (-5) @ ''..'' @ show_int 10) = Ok e \<and>
     matches sample_decimal e (VInteger 7) \<and> \<not> matches sample_decimal e (VBigInteger 11) \<and>
     matches sample_decimal e VEmpty"
proof -
  have "in_i64 (-5)" "in_i64 10" by (simp_all add: int_range_defs)
  from integer_range_filter [OF sample_decimal_exact this] show ?thesis by force
qed

lemma wildcard_lang_Nil: "wildcard_match [] s ci \<longleftrightarrow> s = []"
  by (auto simp: wildcard_match_lang to_lowercase_def)

text \<open>
  the blank filters.  \<open>''\<close> selects the empty texts, codes and unassigned cells of a text
  field, \<open><>''\<close> the others.
\<close>

theorem blank_filter:
  assumes "dec_parse D '''' = None"
  shows "\<exists>e e'. parse D (quoted '''') = Ok e \<and> parse D (''<>'' @ quoted '''') = Ok e' \<and>
    (\<forall>v. matches D e' v \<longleftrightarrow> \<not> matches D e v) \<and>
    (\<forall>s. matches D e (VText s) \<longleftrightarrow> s = '''') \<and> (\<forall>s. matches D e (VCode s) \<longleftrightarrow> s = '''') \<and>
    matches D e VEmpty"
proof -
  let ?p = "\<lparr>pat_text = '''', case_sensitive = True\<rparr>"
  have "parse D (quoted '''') = Ok (Atom (Equals ?p))" "parse D (''<>'' @ quoted '''') = Ok (Atom (NotEqual ?p))"
    using reads_back [of D "Atom (Equals ?p)" False] reads_back [of D "Atom (NotEqual ?p)" False]
      visible_atom [of D "Equals ?p"] visible_atom [of D "NotEqual ?p"]
    by (auto simp: pattern_ok_def token_ok_def reads_filter_def parse_def trim_id visible_def print_pattern_def
        dest!: spec [of _ "[]"])
  then show ?thesis using assms
    by (simp add: pattern_matches_def pattern_matches_set_def wildcard_lang_Nil)
qed

lemma blank_filter_witness:
  "\<exists>e. parse sample_decimal (quoted '''') = Ok e \<and> matches sample_decimal e VEmpty"
proof -
  have "dec_parse sample_decimal '''' = None" by code_simp
  from blank_filter [OF this] show ?thesis by blast
qed

text \<open>
  C32: the dynamic-programming table of \<open>wildcard_match\<close> decides the language of the pattern: \<open>*\<close> stands
  for any text, \<open>?\<close> for one character, any other character for itself, after both sides are
  put in lower case when case does not count.
\<close>

theorem wildcard_match_correct:
  "wildcard_match pat txt False = (txt \<in> wildcard_lang pat) \<and>
   wildcard_match pat txt True = (to_lowercase txt \<in> wildcard_lang (to_lowercase pat))"
  by (simp add: wildcard_match_lang)

text \<open>A Guid cell has no text in \<open>value_to_filter_string\<close>, so an equality filter never reads it.\<close>

lemma guid_filter_ignores_value: "matches D (Atom (Equals pat)) (VGuid g) \<longleftrightarrow> matches D (Atom (Equals pat)) (VGuid h)"
  by (simp add: pattern_matches_def pattern_matches_set_def caseless_cell_def)

end
