(* ===== verification/Calc_Formula.thy ===== *)
theory Calc_Formula
  imports Filter_Round_Trip
begin

text \<open>
  The parser of FlowField formulas (\<^verbatim>\<open>crates/al-runtime/src/mock/calcformula_parser.rs\<close>).  As in the filter
  parser, a state is the text that remains; \<open>len\<close> is the length of the whole text, from which error
  messages compute positions.
\<close>

section \<open>Syntax\<close>

datatype calc_error =
    CalcEmpty
  | UnknownType string
  | MissingOpenParen
  | MissingTableName
  | CalcUnexpectedEnd
  | CalcUnmatchedParen
  | UnexpectedToken string nat
  | InvalidWhereClause string
  | EmptyFilterExpression string
  | EmptyFieldArgument string
  | EmptyConstArgument string

datatype formula_type = FSum | FCount | FLookup | FAverage | FMin | FMax | FExist | FLinked

datatype where_value = WConst string | WField string | WFilter string

record where_condition =
  wc_field :: string
  wc_value :: where_value

record calc_formula =
  formula_type :: formula_type
  cf_table :: string
  cf_field :: "string option"
  where_clause :: "where_condition list"

fun formula_type_show :: "formula_type \<Rightarrow> string" where
  "formula_type_show FSum = ''Sum''"
| "formula_type_show FCount = ''Count''"
| "formula_type_show FLookup = ''Lookup''"
| "formula_type_show FAverage = ''Average''"
| "formula_type_show FMin = ''Min''"
| "formula_type_show FMax = ''Max''"
| "formula_type_show FExist = ''Exist''"
| "formula_type_show FLinked = ''Linked''"


section \<open>The scanner\<close>

definition calc_skip :: "string \<Rightarrow> string" where
  "calc_skip s = dropWhile is_ascii_whitespace s"

fun calc_take_quoted :: "char \<Rightarrow> string \<Rightarrow> calc_error + string \<times> string" where
  "calc_take_quoted q [] = Err CalcUnexpectedEnd"
| "calc_take_quoted q (c # cs) =
     (if c = q then Ok ([], cs) else bind_res (calc_take_quoted q cs) (\<lambda>(t, r). Ok (c # t, r)))"

definition calc_read_token :: "(char \<Rightarrow> bool) \<Rightarrow> string \<Rightarrow> calc_error + string \<times> string" where
  "calc_read_token is_token_char s =
     (case calc_skip s of
        [] \<Rightarrow> Err CalcUnexpectedEnd
      | c # cs \<Rightarrow>
          if c = quote2 \<or> c = quote1 then calc_take_quoted c cs
          else let t = takeWhile is_token_char (c # cs) in
               if t = [] then Err CalcUnexpectedEnd else Ok (t, dropWhile is_token_char (c # cs)))"

definition name_char :: "char \<Rightarrow> bool" where
  "name_char c \<longleftrightarrow> is_alphanumeric c \<or> c = CHR ''_''"

definition const_char :: "char \<Rightarrow> bool" where
  "const_char c \<longleftrightarrow> is_alphanumeric c \<or> c = CHR ''_'' \<or> c = CHR ''.'' \<or> c = CHR ''-'' \<or> c = CHR ''/''"

definition read_name :: "string \<Rightarrow> calc_error + string \<times> string" where
  "read_name s = calc_read_token name_char s"

definition read_const_value :: "string \<Rightarrow> calc_error + string \<times> string" where
  "read_const_value s = calc_read_token const_char s"

definition expect_char :: "nat \<Rightarrow> char \<Rightarrow> string \<Rightarrow> calc_error + string" where
  "expect_char len expected s =
     (case calc_skip s of
        [] \<Rightarrow> Err CalcUnexpectedEnd
      | c # cs \<Rightarrow> if c = expected then Ok cs else Err (UnexpectedToken [c] (len - str_len (c # cs))))"

definition keyword_char :: "char \<Rightarrow> bool" where
  "keyword_char c \<longleftrightarrow> c \<noteq> CHR ''('' \<and> c \<noteq> CHR '')'' \<and> c \<noteq> CHR '','' \<and> c \<noteq> CHR '' '' \<and> c \<noteq> tab"

definition read_keyword :: "string \<Rightarrow> calc_error + string \<times> string" where
  "read_keyword s =
     (let s' = calc_skip s; t = takeWhile keyword_char s' in
      if t = [] then Err CalcUnexpectedEnd else Ok (t, dropWhile keyword_char s'))"

fun until_close :: "nat \<Rightarrow> string \<Rightarrow> calc_error + string \<times> string" where
  "until_close depth [] = Err CalcUnexpectedEnd"
| "until_close depth (c # cs) =
     (if c = CHR ''('' then bind_res (until_close (Suc depth) cs) (\<lambda>(t, r). Ok (c # t, r))
      else if c = CHR '')'' \<and> 0 < depth then bind_res (until_close (depth - 1) cs) (\<lambda>(t, r). Ok (c # t, r))
      else if c = CHR '')'' then Ok ([], c # cs)
      else if c = CHR '','' \<and> depth = 0 then Ok ([], c # cs)
      else bind_res (until_close depth cs) (\<lambda>(t, r). Ok (c # t, r)))"

definition read_until_close :: "string \<Rightarrow> calc_error + string \<times> string" where
  "read_until_close s = bind_res (until_close 0 s) (\<lambda>(t, r). Ok (trim t, r))"


section \<open>The parser\<close>

definition parse_value :: "nat \<Rightarrow> string \<Rightarrow> string \<Rightarrow> string \<Rightarrow> calc_error + where_value \<times> string" where
  "parse_value len field value_kw s =
     (let kw = to_uppercase value_kw;
          arg = (\<lambda>read empty mk. bind_res (read s) (\<lambda>(inner, r).
            bind_res (expect_char len (CHR '')'') r) (\<lambda>r'.
            if trim inner = [] then Err (empty field) else Ok (mk inner, r')))) in
      if kw = ''CONST'' then arg read_const_value EmptyConstArgument WConst
      else if kw = ''FIELD'' then arg read_name EmptyFieldArgument WField
      else if kw = ''FILTER'' then arg read_until_close EmptyFilterExpression WFilter
      else Err (InvalidWhereClause (''unknown value token '' @ [quote1] @ kw @ [quote1])))"

definition parse_one_condition :: "nat \<Rightarrow> string \<Rightarrow> calc_error + where_condition \<times> string" where
  "parse_one_condition len s =
     bind_res (read_name s) (\<lambda>(field, r1).
     bind_res (expect_char len (CHR ''='') (calc_skip r1)) (\<lambda>r2.
     bind_res (read_keyword (calc_skip r2)) (\<lambda>(value_kw, r3).
     bind_res (expect_char len (CHR ''('') r3) (\<lambda>r4.
     bind_res (parse_value len field value_kw r4) (\<lambda>(v, r5).
       Ok (\<lparr>wc_field = field, wc_value = v\<rparr>, r5))))))"

lemma length_dropWhile_less: "takeWhile P s \<noteq> [] \<Longrightarrow> length (dropWhile P s) < length s"
  by (cases s) (auto simp: le_imp_less_Suc length_dropWhile_le split: if_splits)

lemma length_calc_skip: "length (calc_skip s) \<le> length s"
  by (simp add: calc_skip_def length_dropWhile_le)

lemma length_calc_quoted: "calc_take_quoted q s = Inr (t, r) \<Longrightarrow> length r < length s"
proof (induction s arbitrary: t)
  case (Cons c s)
  then show ?case by (cases "calc_take_quoted q s") (auto split: if_splits prod.splits)
qed simp

lemma length_calc_token: "calc_read_token P s = Inr (t, r) \<Longrightarrow> length r < length s"
proof -
  assume a: "calc_read_token P s = Inr (t, r)"
  obtain c cs where s: "calc_skip s = c # cs" using a by (cases "calc_skip s") (auto simp: calc_read_token_def)
  then have "length r < length (c # cs)"
    using a length_dropWhile_less [of P "c # cs"]
    by (auto simp: calc_read_token_def Let_def split: if_splits dest: length_calc_quoted)
  then show ?thesis using length_calc_skip [of s] s by simp
qed

lemma length_expect: "expect_char len e s = Inr r \<Longrightarrow> length r < length s"
  using length_calc_skip [of s] by (auto simp: expect_char_def split: list.splits if_splits)

lemma length_keyword: "read_keyword s = Inr (t, r) \<Longrightarrow> length r < length s"
  using length_calc_skip [of s] length_dropWhile_less [of keyword_char "calc_skip s"]
  by (auto simp: read_keyword_def Let_def split: if_splits)

lemma length_until_close: "until_close d s = Inr (t, r) \<Longrightarrow> length r \<le> length s"
proof (induction d s arbitrary: t r rule: until_close.induct)
  case (2 d c cs)
  then show ?case by (auto simp: bind_res_Inr le_SucI split: if_splits)
qed simp

lemma length_parse_value: "parse_value len f kw s = Inr (v, r) \<Longrightarrow> length r < length s"
  by (auto simp: parse_value_def Let_def bind_res_Inr read_const_value_def read_name_def read_until_close_def
      split: if_splits dest!: length_calc_token length_expect length_until_close)

lemma length_condition: "parse_one_condition len s = Inr (w, r) \<Longrightarrow> length r < length s"
proof -
  assume "parse_one_condition len s = Inr (w, r)"
  then obtain f r1 r2 kw r3 r4 v where
    "read_name s = Inr (f, r1)" "expect_char len (CHR ''='') (calc_skip r1) = Inr r2"
    "read_keyword (calc_skip r2) = Inr (kw, r3)" "expect_char len (CHR ''('') r3 = Inr r4"
    "parse_value len f kw r4 = Inr (v, r)"
    by (auto simp: parse_one_condition_def bind_res_Inr)
  then have "length r1 < length s" "length r2 < length (calc_skip r1)" "length r3 < length (calc_skip r2)"
    "length r4 < length r3" "length r < length r4"
    by (auto simp: read_name_def intro: length_calc_token length_expect length_keyword length_parse_value)
  then show ?thesis using length_calc_skip [of r1] length_calc_skip [of r2] by simp
qed

function where_loop :: "nat \<Rightarrow> where_condition list \<Rightarrow> string \<Rightarrow> calc_error + where_condition list \<times> string" where
  "where_loop len conditions s =
     (let s' = calc_skip s in
      if starts_with s' '')'' then Ok (conditions, drop 1 s')
      else bind_res (parse_one_condition len s') (\<lambda>(condition, r).
        case calc_skip r of
          [] \<Rightarrow> Err CalcUnexpectedEnd
        | c # cs \<Rightarrow>
            if c = CHR '','' then where_loop len (conditions @ [condition]) cs
            else if c = CHR '')'' then Ok (conditions @ [condition], cs)
            else Err (UnexpectedToken [c] (len - str_len (c # cs)))))"
  by pat_completeness auto

termination
proof (relation "measure (\<lambda>(len, conditions, s). length s)", goal_cases)
  case (2 len conditions s s' v condition r c cs)
  then have "length r < length (calc_skip s)" by (auto dest: length_condition)
  then show ?case using 2 length_calc_skip [of s] length_calc_skip [of r] by auto
qed simp

declare where_loop.simps [simp del]

definition parse_where_clause :: "nat \<Rightarrow> string \<Rightarrow> calc_error + where_condition list \<times> string" where
  "parse_where_clause len s =
     bind_res (read_keyword s) (\<lambda>(kw, r).
     if \<not> eq_ignore_ascii_case kw ''where''
     then Err (InvalidWhereClause (''expected WHERE, got '' @ [quote1] @ kw @ [quote1]))
     else bind_res (expect_char len (CHR ''('') r) (\<lambda>r'. where_loop len [] r'))"

definition formula_type_of :: "string \<Rightarrow> formula_type option" where
  "formula_type_of kw =
     map_of [(''SUM'', FSum), (''COUNT'', FCount), (''LOOKUP'', FLookup), (''AVERAGE'', FAverage),
       (''MIN'', FMin), (''MAX'', FMax), (''EXIST'', FExist), (''LINKED'', FLinked)] (to_uppercase kw)"

definition needs_field :: "formula_type \<Rightarrow> bool" where
  "needs_field ft \<longleftrightarrow> ft \<in> {FSum, FAverage, FMin, FMax, FLookup}"

definition parse_field_name :: "nat \<Rightarrow> formula_type \<Rightarrow> string \<Rightarrow> calc_error + string option \<times> string" where
  "parse_field_name len ft s =
     (if needs_field ft then
        bind_res (expect_char len (CHR ''.'') s) (\<lambda>r.
        bind_res (read_name (calc_skip r)) (\<lambda>(field, r'). Ok (Some field, r')))
      else Ok (None, s))"

definition calc_parse :: "string \<Rightarrow> calc_error + calc_formula" where
  "calc_parse formula =
     (let trimmed = trim formula; len = str_len trimmed in
      if trimmed = [] then Err CalcEmpty
      else bind_res (read_keyword trimmed) (\<lambda>(type_kw, r).
        case formula_type_of type_kw of
          None \<Rightarrow> Err (UnknownType type_kw)
        | Some ft \<Rightarrow>
            bind_res (expect_char len (CHR ''('') r) (\<lambda>r1.
            bind_res (read_name (calc_skip r1)) (\<lambda>(table_name, r2).
            if table_name = [] then Err MissingTableName
            else bind_res (parse_field_name len ft (calc_skip r2)) (\<lambda>(field_name, r3).
              let r4 = calc_skip r3 in
              bind_res (if starts_with (to_uppercase (trim_start r4)) ''WHERE''
                        then parse_where_clause len (calc_skip r4) else Ok ([], r4)) (\<lambda>(conditions, r5).
              case calc_skip r5 of
                [] \<Rightarrow> Ok \<lparr>formula_type = ft, cf_table = table_name, cf_field = field_name, where_clause = conditions\<rparr>
              | c # _ \<Rightarrow>
                  if c = CHR '')'' then
                    Ok \<lparr>formula_type = ft, cf_table = table_name, cf_field = field_name, where_clause = conditions\<rparr>
                  else Err CalcUnmatchedParen))))))"

section \<open>Printing and reading back\<close>

definition quoted2 :: "string \<Rightarrow> string" where
  "quoted2 s = quote2 # s @ [quote2]"

fun print_value :: "where_value \<Rightarrow> string" where
  "print_value (WConst s) = ''CONST('' @ quoted2 s @ '')''"
| "print_value (WField s) = ''FIELD('' @ quoted2 s @ '')''"
| "print_value (WFilter e) = ''FILTER('' @ e @ '')''"

definition print_condition :: "where_condition \<Rightarrow> string" where
  "print_condition w = quoted2 (wc_field w) @ ''='' @ print_value (wc_value w)"

fun print_conditions :: "where_condition list \<Rightarrow> string" where
  "print_conditions [] = ''''"
| "print_conditions [w] = print_condition w"
| "print_conditions (w # ws) = print_condition w @ CHR '','' # print_conditions ws"

definition print_formula :: "calc_formula \<Rightarrow> string" where
  "print_formula F =
     formula_type_show (formula_type F) @ ''('' @ quoted2 (cf_table F) @
     (case cf_field F of None \<Rightarrow> '''' | Some f \<Rightarrow> ''.'' @ quoted2 f) @
     (if where_clause F = [] then '''' else '' WHERE('' @ print_conditions (where_clause F) @ '')'') @ '')''"

text \<open>A filter expression is written raw: its parentheses close and its commas are inside them.\<close>

fun closed :: "nat \<Rightarrow> string \<Rightarrow> bool" where
  "closed d [] \<longleftrightarrow> d = 0"
| "closed d (c # s) \<longleftrightarrow>
     (if c = CHR ''('' then closed (Suc d) s
      else if c = CHR '')'' then 0 < d \<and> closed (d - 1) s
      else (c = CHR '','' \<longrightarrow> 0 < d) \<and> closed d s)"

definition name_ok :: "string \<Rightarrow> bool" where
  "name_ok s \<longleftrightarrow> quote2 \<notin> set s"

fun value_ok :: "where_value \<Rightarrow> bool" where
  "value_ok (WConst s) \<longleftrightarrow> name_ok s \<and> trim s \<noteq> []"
| "value_ok (WField s) \<longleftrightarrow> name_ok s \<and> trim s \<noteq> []"
| "value_ok (WFilter e) \<longleftrightarrow> closed 0 e \<and> trim e = e \<and> e \<noteq> []"

definition formula_ok :: "calc_formula \<Rightarrow> bool" where
  "formula_ok F \<longleftrightarrow> name_ok (cf_table F) \<and> cf_table F \<noteq> [] \<and>
     (case cf_field F of None \<Rightarrow> \<not> needs_field (formula_type F) | Some f \<Rightarrow> needs_field (formula_type F) \<and> name_ok f) \<and>
     list_all (\<lambda>w. name_ok (wc_field w) \<and> value_ok (wc_value w)) (where_clause F)"

lemma skip_visible: "\<not> is_ascii_whitespace c \<Longrightarrow> calc_skip (c # s) = c # s"
  by (simp add: calc_skip_def)

lemma skip_marks [simp]:
  "calc_skip (quote2 # s) = quote2 # s" "calc_skip (CHR ''('' # s) = CHR ''('' # s"
  "calc_skip (CHR '')'' # s) = CHR '')'' # s" "calc_skip (CHR '','' # s) = CHR '','' # s"
  "calc_skip (CHR ''='' # s) = CHR ''='' # s" "calc_skip (CHR ''.'' # s) = CHR ''.'' # s"
  "calc_skip (CHR ''C'' # s) = CHR ''C'' # s" "calc_skip (CHR ''F'' # s) = CHR ''F'' # s"
  "calc_skip (CHR ''W'' # s) = CHR ''W'' # s" "calc_skip (CHR '' '' # CHR ''W'' # s) = CHR ''W'' # s"
  "calc_skip [] = []"
  by (simp_all add: calc_skip_def is_ascii_whitespace_def)

lemma skip_quoted2 [simp]: "calc_skip (quoted2 s @ r) = quoted2 s @ r"
  by (simp add: quoted2_def)

lemma take_quoted2: "name_ok s \<Longrightarrow> calc_take_quoted quote2 (s @ quote2 # r) = Inr (s, r)"
  by (induction s) (auto simp: name_ok_def)

lemma read_quoted2 [simp]: "name_ok s \<Longrightarrow> calc_read_token P (quoted2 s @ r) = Inr (s, r)"
  unfolding calc_read_token_def skip_quoted2 by (simp add: quoted2_def take_quoted2)

lemma expect_next:
  "expect_char len (CHR ''('') (CHR ''('' # r) = Inr r" "expect_char len (CHR '')'') (CHR '')'' # r) = Inr r"
  "expect_char len (CHR ''='') (CHR ''='' # r) = Inr r" "expect_char len (CHR ''.'') (CHR ''.'' # r) = Inr r"
  by (simp_all add: expect_char_def)

lemma until_close_closed: "closed d e \<Longrightarrow> until_close d (e @ CHR '')'' # r) = Inr (e, CHR '')'' # r)"
proof (induction d e rule: closed.induct)
  case (2 d c s)
  then show ?case by (auto split: if_splits)
qed simp

lemma parse_value_print:
  assumes "value_ok v"
  shows "\<exists>kw s. print_value v = kw @ CHR ''('' # s @ '')'' \<and> kw \<noteq> [] \<and> list_all keyword_char kw \<and>
    hd kw \<in> {CHR ''C'', CHR ''F''} \<and> parse_value len f kw (s @ CHR '')'' # r) = Inr (v, r)"
proof (cases v)
  case (WConst s)
  have "to_uppercase ''CONST'' = ''CONST''" by code_simp
  then show ?thesis using assms WConst
    by (intro exI [of _ "''CONST''"] exI [of _ "quoted2 s"])
      (simp add: parse_value_def read_const_value_def expect_next keyword_char_def)
next
  case (WField s)
  have "to_uppercase ''FIELD'' = ''FIELD''" by code_simp
  then show ?thesis using assms WField
    by (intro exI [of _ "''FIELD''"] exI [of _ "quoted2 s"])
      (simp add: parse_value_def read_name_def expect_next keyword_char_def)
next
  case (WFilter e)
  have "to_uppercase ''FILTER'' = ''FILTER''" by code_simp
  then show ?thesis using assms WFilter
    by (intro exI [of _ "''FILTER''"] exI [of _ e])
      (simp add: parse_value_def read_until_close_def until_close_closed expect_next keyword_char_def)
qed

lemma read_keyword_paren:
  "list_all keyword_char kw \<Longrightarrow> kw \<noteq> [] \<Longrightarrow> calc_skip (kw @ CHR ''('' # r) = kw @ CHR ''('' # r \<Longrightarrow>
   read_keyword (kw @ CHR ''('' # r) = Inr (kw, CHR ''('' # r)"
proof -
  assume a: "list_all keyword_char kw" "kw \<noteq> []" "calc_skip (kw @ CHR ''('' # r) = kw @ CHR ''('' # r"
  have "takeWhile keyword_char (kw @ CHR ''('' # r) = kw" "dropWhile keyword_char (kw @ CHR ''('' # r) = CHR ''('' # r"
    using a(1) by (auto simp: list_all_iff takeWhile_append dropWhile_append keyword_char_def)
  then show ?thesis using a(2,3) by (simp add: read_keyword_def)
qed

lemma parse_condition_print:
  assumes "name_ok (wc_field w)" "value_ok (wc_value w)"
  shows "parse_one_condition len (print_condition w @ r) = Inr (w, r)"
proof -
  obtain kw s where v: "print_value (wc_value w) = kw @ CHR ''('' # s @ '')''" "kw \<noteq> []" "list_all keyword_char kw"
    "hd kw \<in> {CHR ''C'', CHR ''F''}" "parse_value len (wc_field w) kw (s @ CHR '')'' # r) = Inr (wc_value w, r)"
    using parse_value_print [OF assms(2), of len "wc_field w" r] by blast
  have skip: "calc_skip (kw @ t) = kw @ t" for t using v(2,4) by (cases kw) auto
  show ?thesis
    using assms(1) v read_keyword_paren [OF v(3,2) skip]
    by (simp add: parse_one_condition_def print_condition_def read_name_def expect_next skip)
qed

lemma where_loop_print:
  "list_all (\<lambda>w. name_ok (wc_field w) \<and> value_ok (wc_value w)) ws \<Longrightarrow>
   where_loop len acc (print_conditions ws @ CHR '')'' # r) = Inr (acc @ ws, r)"
proof (induction ws arbitrary: acc rule: print_conditions.induct)
  case 1
  then show ?case by (simp add: where_loop.simps)
next
  case (2 w)
  have "calc_skip (print_condition w @ t) = print_condition w @ t" "\<not> starts_with (print_condition w @ t) '')''" for t
    by (simp_all add: print_condition_def quoted2_def)
  then show ?case using 2 by (simp add: where_loop.simps parse_condition_print)
next
  case (3 w w' ws)
  have "calc_skip (print_condition w @ t) = print_condition w @ t" "\<not> starts_with (print_condition w @ t) '')''" for t
    by (simp_all add: print_condition_def quoted2_def)
  then show ?case using 3 by (simp add: where_loop.simps [of _ _ "print_condition w @ _"] parse_condition_print)
qed

lemma formula_type_print: "formula_type_of (formula_type_show ft) = Some ft"
proof -
  have "formula_type_of ''Sum'' = Some FSum" "formula_type_of ''Count'' = Some FCount"
    "formula_type_of ''Lookup'' = Some FLookup" "formula_type_of ''Average'' = Some FAverage"
    "formula_type_of ''Min'' = Some FMin" "formula_type_of ''Max'' = Some FMax"
    "formula_type_of ''Exist'' = Some FExist" "formula_type_of ''Linked'' = Some FLinked"
    by code_simp+
  then show ?thesis by (cases ft) simp_all
qed

lemma type_keyword: "list_all keyword_char (formula_type_show ft)" "formula_type_show ft \<noteq> []"
  "calc_skip (formula_type_show ft @ t) = formula_type_show ft @ t"
  "\<exists>c cs. formula_type_show ft = c # cs \<and> \<not> is_whitespace c"
  by (cases ft; simp add: keyword_char_def calc_skip_def is_ascii_whitespace_def is_whitespace_def)+

lemma read_type_keyword: "read_keyword (formula_type_show ft @ CHR ''('' # r) = Inr (formula_type_show ft, CHR ''('' # r)"
  by (rule read_keyword_paren) (rule type_keyword)+

lemma read_where: "read_keyword (''WHERE('' @ r) = Inr (''WHERE'', CHR ''('' # r)"
  using read_keyword_paren [of "''WHERE''" r] by (simp add: keyword_char_def)

lemma parse_where_print:
  "list_all (\<lambda>w. name_ok (wc_field w) \<and> value_ok (wc_value w)) ws \<Longrightarrow>
   parse_where_clause len (''WHERE('' @ print_conditions ws @ CHR '')'' # r) = Inr (ws, r)"
proof -
  assume ws: "list_all (\<lambda>w. name_ok (wc_field w) \<and> value_ok (wc_value w)) ws"
  have "eq_ignore_ascii_case ''WHERE'' ''where''" by code_simp
  then show ?thesis
    using read_where [of "print_conditions ws @ CHR '')'' # r"] where_loop_print [OF ws, of len "[]" r]
    by (simp add: parse_where_clause_def expect_next)
qed

lemma starts_where:
  "starts_with (to_uppercase (trim_start (''WHERE('' @ r))) ''WHERE''"
  "\<not> starts_with (to_uppercase (trim_start (CHR '')'' # r))) ''WHERE''"
  by (simp_all add: trim_start_def is_whitespace_def to_uppercase_def upper_char_def)

text \<open>
  C33: the formula parser reads every printed FlowField formula back: the type, the table, the field where the
  type has one, and all conditions in order, with quoted names and raw filter expressions.
\<close>

theorem calc_parse_print:
  assumes "formula_ok F"
  shows "calc_parse (print_formula F) = Ok F"
proof -
  let ?ft = "formula_type F" and ?ws = "where_clause F"
  define tail where "tail = (if ?ws = [] then '''' else '' WHERE('' @ print_conditions ?ws @ '')'') @ '')''"
  define field where "field = (case cf_field F of None \<Rightarrow> '''' | Some f \<Rightarrow> ''.'' @ quoted2 f)"
  define body where "body = quoted2 (cf_table F) @ field @ tail"
  have F: "print_formula F = formula_type_show ?ft @ CHR ''('' # body"
    by (simp add: print_formula_def tail_def field_def body_def)
  have trim: "trim (formula_type_show ?ft @ CHR ''('' # body) = formula_type_show ?ft @ CHR ''('' # body"
    using type_keyword(4) [of ?ft]
    by (intro trim_id) (auto simp: body_def tail_def is_whitespace_def)
  have table: "read_name (calc_skip body) = Inr (cf_table F, field @ tail)" "cf_table F \<noteq> []"
    using assms by (simp_all add: body_def read_name_def formula_ok_def)
  have field: "parse_field_name len ?ft (calc_skip (field @ tail)) =
      Inr (cf_field F, if field = [] then calc_skip tail else tail)" for len
    using assms by (auto simp: field_def formula_ok_def parse_field_name_def expect_next read_name_def split: option.splits)
  have skip: "calc_skip (calc_skip tail) = calc_skip tail" by (simp add: calc_skip_def dropWhile_idem)
  have conds: "(if starts_with (to_uppercase (trim_start (calc_skip tail))) ''WHERE''
      then parse_where_clause len (calc_skip tail) else Ok ([], calc_skip tail)) = Inr (?ws, '')'')" for len
    using assms parse_where_print [of ?ws len "'')''"] starts_where
    by (auto simp: tail_def formula_ok_def)
  show ?thesis
    by (simp add: calc_parse_def F trim type_keyword read_type_keyword formula_type_print expect_next
        table field skip conds Let_def if_distrib [of calc_skip] cong: if_cong)
qed

definition sample_formula :: calc_formula where
  "sample_formula =
     \<lparr>formula_type = FSum, cf_table = ''Sales Line'', cf_field = Some ''Amount'',
      where_clause = [\<lparr>wc_field = ''Type'', wc_value = WConst ''Item''\<rparr>,
                      \<lparr>wc_field = ''No.'', wc_value = WFilter ''A*|(B&C)''\<rparr>]\<rparr>"

lemma calc_parse_print_witness:
  "formula_ok sample_formula \<and> calc_parse (print_formula sample_formula) = Ok sample_formula"
proof -
  have "formula_ok sample_formula" by code_simp
  with calc_parse_print [OF this] show ?thesis by simp
qed

text \<open>
  what the parser lets through.  The closing parenthesis of the formula may be missing, and any text may
  follow it.
\<close>

theorem calc_parse_lax:
  "calc_parse ''Count(T'' = Ok \<lparr>formula_type = FCount, cf_table = ''T'', cf_field = None, where_clause = []\<rparr> \<and>
   calc_parse ''Count(T) anything )'' = calc_parse ''Count(T)''"
  by code_simp

text \<open>
  the first example of the module's own documentation does not parse: an unquoted name ends at a
  full stop, so the \<open>No.\<close> of its condition is refused at the full stop.
\<close>

theorem calc_parse_documented_example:
  "calc_parse (''Sum('' @ quoted2 ''Sales Line'' @ ''.Amount WHERE (Type=CONST(Item),No.=FIELD(No.)))'') =
     Err (UnexpectedToken ''.'' 50)"
  by code_simp

end
