(* ===== verification/Calendar.thy ===== *)
theory Calendar
  imports Prelude
begin

text \<open>
  The calendar arithmetic of the interpreter: the conversion between a civil date and a day
  count (\<^verbatim>\<open>days_from_civil\<close>, \<^verbatim>\<open>civil_from_days\<close> and their AL-epoch variants in
  \<^verbatim>\<open>crates/al-runtime/src/interpreter/value.rs\<close>), the validity check of a civil date, weekdays
  and ISO weeks (\<^verbatim>\<open>interpreter/dispatch/datetime.rs\<close>).  Rust's division truncates, so the code
  adjusts negative operands by hand; the model keeps that adjustment and the lemmas show it is
  the floor.  The \<open>i64\<close> carriers are \<^typ>\<open>int\<close>.
\<close>

definition MS_PER_DAY :: int where "MS_PER_DAY = 86400000"
definition AL_EPOCH_TO_UNIX_DAYS :: int where "AL_EPOCH_TO_UNIX_DAYS = 719162"

definition days_from_civil :: "int \<Rightarrow> int \<Rightarrow> int \<Rightarrow> int" where
  "days_from_civil year month day =
     (let y = (if month \<le> 2 then year - 1 else year);
          era = tdiv (if y \<ge> 0 then y else y - 399) 400;
          yoe = y - era * 400;
          doy = tdiv (153 * (if month > 2 then month - 3 else month + 9) + 2) 5 + day - 1;
          doe = yoe * 365 + tdiv yoe 4 - tdiv yoe 100 + doy
      in era * 146097 + doe - 719468)"

definition al_days_from_ymd :: "int \<Rightarrow> int \<Rightarrow> int \<Rightarrow> int" where
  "al_days_from_ymd year month day = days_from_civil year month day + AL_EPOCH_TO_UNIX_DAYS"

definition civil_from_days :: "int \<Rightarrow> int \<times> int \<times> int" where
  "civil_from_days days =
     (let z = days + 719468;
          era = tdiv (if z \<ge> 0 then z else z - 146096) 146097;
          doe = z - era * 146097;
          yoe = tdiv (doe - tdiv doe 1460 + tdiv doe 36524 - tdiv doe 146096) 365;
          y = yoe + era * 400;
          doy = doe - (365 * yoe + tdiv yoe 4 - tdiv yoe 100);
          mp = tdiv (5 * doy + 2) 153;
          day = doy - tdiv (153 * mp + 2) 5 + 1;
          month = (if mp < 10 then mp + 3 else mp - 9)
      in (if month \<le> 2 then y + 1 else y, month, day))"

definition ymd_from_al_days :: "int \<Rightarrow> int \<times> int \<times> int" where
  "ymd_from_al_days days = civil_from_days (days - AL_EPOCH_TO_UNIX_DAYS)"

text \<open>Validate a year, month and day and convert them to the AL day carrier.\<close>

definition is_leap :: "int \<Rightarrow> bool" where
  "is_leap year \<longleftrightarrow> trem year 4 = 0 \<and> (trem year 100 \<noteq> 0 \<or> trem year 400 = 0)"

definition max_day :: "int \<Rightarrow> int \<Rightarrow> int" where
  "max_day year month =
     (if month \<in> {1, 3, 5, 7, 8, 10, 12} then 31
      else if month \<in> {4, 6, 9, 11} then 30
      else if month = 2 \<and> is_leap year then 29 else 28)"

definition checked_al_date :: "int \<Rightarrow> int \<Rightarrow> int \<Rightarrow> int option" where
  "checked_al_date year month day =
     (if \<not> (1 \<le> year \<and> year \<le> 9999) \<or> \<not> (1 \<le> month \<and> month \<le> 12) then None
      else if \<not> (1 \<le> day \<and> day \<le> max_day year month) then None
      else Some (al_days_from_ymd year month day))"

text \<open>Monday is 1, Sunday is 7.\<close>

definition weekday_of :: "int \<Rightarrow> int" where
  "weekday_of date = trem ((date - AL_EPOCH_TO_UNIX_DAYS) mod 7 + 3) 7 + 1"

text \<open>The ISO week of a day count and the year that week belongs to.\<close>

definition iso_week :: "int \<Rightarrow> int \<times> int" where
  "iso_week date =
     (let thursday = date - weekday_of date + 4;
          year = fst (ymd_from_al_days thursday);
          week = tdiv (thursday - al_days_from_ymd year 1 1) 7 + 1
      in (week, year))"


section \<open>Floors\<close>

lemma floor_tdiv:
  assumes "0 < c"
  shows "tdiv (if x \<ge> 0 then x else x - (c - 1)) c = x div c"
proof (cases "x \<ge> 0")
  case False
  have "c - 1 - x = c * (- (x div c)) + (c - 1 - x mod c)"
    using mult_div_mod_eq [of c x] by (simp add: algebra_simps)
  from int_div_pos_eq [OF this] have "(c - 1 - x) div c = - (x div c)"
    using assms pos_mod_bound [of c x] pos_mod_sign [of c x] by linarith
  with False assms show ?thesis by (simp add: tdiv_def)
qed (use assms in \<open>simp add: tdiv_nonneg\<close>)

lemma floor_eras:
  "tdiv (if y \<ge> 0 then y else y - 399) 400 = y div 400"
  "tdiv (if z \<ge> 0 then z else z - 146096) 146097 = z div 146097"
  using floor_tdiv [of 400 y] floor_tdiv [of 146097 z] by (auto split: if_splits)

lemma is_leap_mod: "is_leap y \<longleftrightarrow> 4 dvd y \<and> (\<not> 100 dvd y \<or> 400 dvd y)"
proof -
  have "trem y n = 0 \<longleftrightarrow> n dvd y" if "0 < n" for n
    using that by (auto simp: trem_abs sgn_if dvd_eq_mod_eq_0 [symmetric])
  then show ?thesis by (simp add: is_leap_def)
qed

section \<open>The year of an era\<close>

text \<open>
  Years are counted from March.  \<open>year_start y\<close> is the day of the era on which year \<open>y\<close> of the
  era begins, \<open>year_len\<close> its length (it ends with February of the following civil year), and
  \<open>day_index\<close> the expression the code divides by 365.
\<close>

definition year_start :: "int \<Rightarrow> int" where
  "year_start y = 365 * y + y div 4 - y div 100"

definition year_len :: "int \<Rightarrow> int" where
  "year_len y = (if is_leap (y + 1) then 366 else 365)"

definition day_index :: "int \<Rightarrow> int" where
  "day_index n = n - n div 1460 + n div 36524 - n div 146096"

lemma div_succ: "0 < k \<Longrightarrow> (n + 1) div k = n div k + (if k dvd n + 1 then 1 else 0)" for n k :: int
proof -
  assume k: "0 < k"
  have n: "n + 1 = k * (n div k) + (n mod k + 1)" by simp
  have r: "0 \<le> n mod k" "n mod k < k" using k by simp_all
  have "k dvd n + 1 \<longleftrightarrow> k dvd n mod k + 1"
    by (metis n dvd_add_right_iff dvd_triv_left)
  also have "\<dots> \<longleftrightarrow> n mod k + 1 = k" using r zdvd_imp_le [of k "n mod k + 1"] by auto
  finally have d: "k dvd n + 1 \<longleftrightarrow> n mod k + 1 = k" .
  show ?thesis
  proof (cases "n mod k + 1 = k")
    case True
    then have "n + 1 = k * (n div k + 1) + 0" using n by (simp add: algebra_simps)
    from int_div_pos_eq [OF this] have "(n + 1) div k = n div k + 1" using k by auto
    with d True show ?thesis by simp
  next
    case False
    with int_div_pos_eq [OF n] have "(n + 1) div k = n div k" using r by auto
    with d False show ?thesis by simp
  qed
qed

lemma day_index_step: "day_index n \<le> day_index (n + 1)"
proof -
  have "(146096::int) dvd n + 1 \<Longrightarrow> 36524 dvd n + 1"
    by (rule dvd_trans [of _ 146096]) simp_all
  then show ?thesis unfolding day_index_def by (simp add: div_succ)
qed

lemma day_index_mono: "m \<le> n \<Longrightarrow> day_index m \<le> day_index n"
proof (induction n rule: int_ge_induct)
  case (step i)
  then show ?case using day_index_step [of i] by linarith
qed simp

text \<open>The 400 years of an era, evaluated.\<close>

lemma era_years:
  "list_all (\<lambda>y. 365 * y \<le> day_index (year_start y) \<and>
      day_index (year_start y + year_len y - 1) < 365 * (y + 1)) [0..399]"
  by code_simp

lemma year_of_day:
  assumes "0 \<le> y" "y \<le> 399" "year_start y \<le> doe" "doe < year_start y + year_len y"
  shows "day_index doe div 365 = y"
proof -
  have "365 * y \<le> day_index (year_start y)"
    and "day_index (year_start y + year_len y - 1) < 365 * (y + 1)"
    using era_years assms(1,2) by (auto simp: list_all_iff)
  moreover have "day_index (year_start y) \<le> day_index doe"
    and "day_index doe \<le> day_index (year_start y + year_len y - 1)"
    using assms by (auto intro: day_index_mono)
  ultimately show ?thesis
    by (intro int_div_pos_eq [of _ _ _ "day_index doe - 365 * y"]) auto
qed

lemma year_start_step:
  "0 \<le> y \<Longrightarrow> y < 399 \<Longrightarrow> year_start (y + 1) = year_start y + year_len y"
proof -
  assume y: "0 \<le> y" "y < 399"
  have "\<not> 400 dvd y + 1" using zdvd_imp_le [of 400 "y + 1"] y by auto
  moreover have "(100::int) dvd y + 1 \<Longrightarrow> 4 dvd y + 1"
    by (rule dvd_trans [of _ 100]) simp_all
  ultimately show ?thesis
    unfolding year_start_def year_len_def by (auto simp: div_succ is_leap_mod)
qed

lemma year_exists:
  assumes "0 \<le> doe" "doe \<le> 146096"
  shows "\<exists>y. 0 \<le> y \<and> y \<le> 399 \<and> year_start y \<le> doe \<and> doe < year_start y + year_len y"
proof -
  have *: "(\<exists>y. 0 \<le> y \<and> y < n \<and> year_start y \<le> doe \<and> doe < year_start y + year_len y) \<or>
      year_start n \<le> doe" if "0 \<le> n" "n \<le> 399" for n
    using that
  proof (induction n rule: int_ge_induct)
    case base
    then show ?case using assms by (simp add: year_start_def)
  next
    case (step i)
    then consider "\<exists>y. 0 \<le> y \<and> y < i \<and> year_start y \<le> doe \<and> doe < year_start y + year_len y"
      | "year_start i \<le> doe" by auto
    then show ?case
    proof cases
      case 2
      then show ?thesis using year_start_step [of i] step.hyps step.prems
        by (cases "doe < year_start i + year_len i") auto
    qed force
  qed
  have "year_start 399 + year_len 399 = 146097"
    by (simp add: year_start_def year_len_def is_leap_mod)
  with * [of 399] assms consider
      "\<exists>y. 0 \<le> y \<and> y < 399 \<and> year_start y \<le> doe \<and> doe < year_start y + year_len y"
    | "year_start 399 \<le> doe" "doe < year_start 399 + year_len 399" by auto
  then show ?thesis
  proof cases
    case 2
    then show ?thesis by (intro exI [of _ 399]) auto
  qed (auto intro: less_imp_le)
qed


section \<open>The month of a year\<close>

text \<open>\<open>month_start mp\<close> is the day of the March-based year on which its month \<open>mp\<close> begins.\<close>

definition month_start :: "int \<Rightarrow> int" where
  "month_start mp = (153 * mp + 2) div 5"

definition month_no :: "int \<Rightarrow> int" where
  "month_no mp = (if mp < 10 then mp + 3 else mp - 9)"

lemma months:
  "list_all (\<lambda>mp. list_all (\<lambda>doy. (5 * doy + 2) div 153 = mp)
      [month_start mp .. (if mp = 11 then 365 else month_start (mp + 1) - 1)]) [0..11]"
  by code_simp

lemma month_of_day:
  assumes "0 \<le> mp" "mp \<le> 11" "month_start mp \<le> doy"
    and "if mp = 11 then doy \<le> 365 else doy < month_start (mp + 1)"
  shows "(5 * doy + 2) div 153 = mp"
  using months assms by (auto simp: list_all_iff split: if_splits)

lemma month_lens:
  "list_all (\<lambda>mp. month_start mp + (if month_no mp = 2 then 29 else max_day 1 (month_no mp)) =
      (if mp = 11 then 366 else month_start (mp + 1))) [0..11]"
  by code_simp

section \<open>The two conversions in terms of eras, years and months\<close>

definition valid_civil :: "int \<Rightarrow> int \<Rightarrow> int \<Rightarrow> bool" where
  "valid_civil y m d \<longleftrightarrow> 1 \<le> m \<and> m \<le> 12 \<and> 1 \<le> d \<and> d \<le> max_day y m"

lemma max_day_le: "max_day y m \<le> 31"
  by (simp add: max_day_def)

text \<open>A position in the March-based calendar and the civil date it stands for.\<close>

definition civil_of :: "int \<Rightarrow> int \<Rightarrow> int \<Rightarrow> int \<times> int \<times> int" where
  "civil_of y mp d = (if mp < 10 then y else y + 1, month_no mp, d)"

definition day_ok :: "int \<Rightarrow> int \<Rightarrow> int \<Rightarrow> bool" where
  "day_ok yoe mp d \<longleftrightarrow> 0 \<le> yoe \<and> yoe \<le> 399 \<and> 0 \<le> mp \<and> mp \<le> 11 \<and> 1 \<le> d \<and>
     month_start mp + d - 1 < (if mp = 11 then year_len yoe else month_start (mp + 1))"

lemma month_start_mono:
  "0 \<le> mp \<Longrightarrow> mp \<le> 11 \<Longrightarrow> 0 \<le> month_start mp \<and> month_start mp \<le> 337"
  by (auto simp: month_start_def)

lemma days_from_civil_of:
  assumes "0 \<le> yoe" "yoe \<le> 399" "0 \<le> mp" "mp \<le> 11"
  shows "(case civil_of (yoe + era * 400) mp d of (y, m, d) \<Rightarrow> days_from_civil y m d) =
    era * 146097 + year_start yoe + month_start mp + d - 1 - 719468"
proof -
  define y where "y = yoe + era * 400"
  have era: "y div 400 = era" "y - era * 400 = yoe" using assms by (simp_all add: y_def)
  have "tdiv (153 * mp + 2) 5 = month_start mp" "tdiv yoe 4 = yoe div 4" "tdiv yoe 100 = yoe div 100"
    using assms by (simp_all add: tdiv_nonneg month_start_def)
  then show ?thesis
    using assms era unfolding y_def [symmetric] days_from_civil_def Let_def floor_eras
    by (auto simp: civil_of_def month_no_def year_start_def add.commute)
qed

lemma civil_from_days_steps:
  assumes "(days + 719468) div 146097 = era"
    and "days + 719468 - era * 146097 = doe"
    and "tdiv (doe - tdiv doe 1460 + tdiv doe 36524 - tdiv doe 146096) 365 = yoe"
    and "doe - (365 * yoe + tdiv yoe 4 - tdiv yoe 100) = doy"
    and "tdiv (5 * doy + 2) 153 = mp" and "0 \<le> mp" and "mp \<le> 11"
  shows "civil_from_days days = civil_of (yoe + era * 400) mp (doy - tdiv (153 * mp + 2) 5 + 1)"
  using assms(6,7)
  unfolding civil_from_days_def Let_def floor_eras assms(1-5) civil_of_def month_no_def by auto

lemma civil_from_days_of:
  assumes "day_ok yoe mp d"
  shows "civil_from_days (era * 146097 + year_start yoe + month_start mp + d - 1 - 719468) =
    civil_of (yoe + era * 400) mp d"
proof -
  note ok = assms [unfolded day_ok_def]
  define doy where "doy = month_start mp + d - 1"
  define doe where "doe = year_start yoe + doy"
  have "list_all (\<lambda>mp. month_start (mp + 1) \<le> 337) [0..10]" by code_simp
  then have "mp \<noteq> 11 \<Longrightarrow> month_start (mp + 1) \<le> 337" using ok by (auto simp: list_all_iff)
  then have doy: "0 \<le> doy" "doy < year_len yoe"
    using ok month_start_mono [of mp] by (auto simp: doy_def year_len_def split: if_splits)
  then have len: "doy \<le> 365" by (auto simp: year_len_def split: if_splits)
  have "0 \<le> year_start yoe" "year_start yoe + year_len yoe \<le> 146097"
    using ok by (auto simp: year_start_def year_len_def is_leap_mod)
  then have doe: "0 \<le> doe" "doe \<le> 146096" using doy by (auto simp: doe_def)
  have idx: "day_index doe = doe - tdiv doe 1460 + tdiv doe 36524 - tdiv doe 146096"
    using doe by (simp add: day_index_def tdiv_nonneg)
  have yoe: "day_index doe div 365 = yoe"
    using year_of_day [of yoe doe] ok doy by (simp add: doe_def)
  have "0 \<le> day_index doe" using day_index_mono [of 0 doe] doe by (simp add: day_index_def)
  then have "tdiv (doe - tdiv doe 1460 + tdiv doe 36524 - tdiv doe 146096) 365 = yoe"
    using yoe by (simp add: tdiv_nonneg idx [symmetric])
  moreover have "doe - (365 * yoe + tdiv yoe 4 - tdiv yoe 100) = doy"
    using ok by (simp add: tdiv_nonneg doe_def year_start_def)
  moreover have "tdiv (5 * doy + 2) 153 = mp"
    using month_of_day [of mp doy] ok doy len
    by (auto simp: tdiv_nonneg doy_def split: if_splits)
  moreover have "tdiv (153 * mp + 2) 5 = month_start mp"
    using ok by (simp add: tdiv_nonneg month_start_def)
  moreover have "(era * 146097 + doe) div 146097 = era" using doe by simp
  ultimately show ?thesis
    using civil_from_days_steps
      [of "era * 146097 + year_start yoe + month_start mp + d - 1 - 719468" era doe yoe doy mp]
      ok by (simp add: doe_def doy_def add.assoc [symmetric])
qed

section \<open>Round trips\<close>

lemma max_day_month:
  assumes "0 \<le> yoe" "0 \<le> mp" "mp \<le> 11"
  shows "max_day (if mp < 10 then yoe + era * 400 else yoe + era * 400 + 1) (month_no mp) =
    (if mp = 11 then year_len yoe else month_start (mp + 1)) - month_start mp"
proof -
  have leap: "is_leap (yoe + era * 400 + 1) \<longleftrightarrow> is_leap (yoe + 1)"
  proof -
    have "k dvd 400 \<Longrightarrow> k dvd yoe + era * 400 + 1 \<longleftrightarrow> k dvd yoe + 1" for k
      by (metis add.commute add.left_commute dvd_add_right_iff dvd_mult)
    then show ?thesis by (simp add: is_leap_mod)
  qed
  from assms have "mp \<in> set [0..11]" by simp
  also have "[0..11] = [0,1,2,3,4,5,6,7,8,9,10,11::int]" by code_simp
  finally have "mp \<in> {0,1,2,3,4,5,6,7,8,9,10,11}" by simp
  then show ?thesis using leap
    by (elim insertE emptyE) (simp_all add: month_no_def month_start_def max_day_def year_len_def)
qed

lemma valid_civil_of:
  assumes "0 \<le> yoe" "yoe \<le> 399" "0 \<le> mp" "mp \<le> 11"
  shows "(case civil_of (yoe + era * 400) mp d of (y, m, d) \<Rightarrow> valid_civil y m d) \<longleftrightarrow> day_ok yoe mp d"
  using assms max_day_month [of yoe mp era]
  by (auto simp: civil_of_def valid_civil_def day_ok_def month_no_def split: if_splits)

text \<open>Every valid civil date is a position of the March-based calendar.\<close>

lemma civil_position:
  assumes "valid_civil y m d"
  obtains yoe era mp where "day_ok yoe mp d" "(y, m, d) = civil_of (yoe + era * 400) mp d"
proof -
  define y' mp where "y' = (if m \<le> 2 then y - 1 else y)" and "mp = (if m > 2 then m - 3 else m + 9)"
  have mp: "0 \<le> mp" "mp \<le> 11" using assms by (auto simp: mp_def valid_civil_def)
  have pos: "(y, m, d) = civil_of (y' mod 400 + (y' div 400) * 400) mp d"
    using assms by (auto simp: civil_of_def y'_def mp_def month_no_def valid_civil_def)
  have "day_ok (y' mod 400) mp d"
    using valid_civil_of [of "y' mod 400" mp "y' div 400" d] mp assms
      pos_mod_bound [of 400 y'] pos_mod_sign [of 400 y']
    unfolding pos [symmetric] by simp
  from that [OF this pos] show ?thesis .
qed

theorem civil_round_trip:
  assumes "valid_civil y m d"
  shows "civil_from_days (days_from_civil y m d) = (y, m, d)"
proof -
  obtain yoe era mp where ok: "day_ok yoe mp d" and e: "(y, m, d) = civil_of (yoe + era * 400) mp d"
    using assms by (rule civil_position)
  have "days_from_civil y m d = era * 146097 + year_start yoe + month_start mp + d - 1 - 719468"
    using days_from_civil_of [of yoe mp era d] ok e [symmetric] by (simp add: day_ok_def)
  then show ?thesis using civil_from_days_of [OF ok, of era] e by simp
qed

text \<open>Every day count is a position of the March-based calendar.\<close>

lemma day_position:
  obtains yoe era mp d where "day_ok yoe mp d"
    "z = era * 146097 + year_start yoe + month_start mp + d - 1 - 719468"
proof -
  define era where "era = (z + 719468) div 146097"
  define doe where "doe = (z + 719468) mod 146097"
  have doe: "0 \<le> doe" "doe \<le> 146096" using pos_mod_bound [of 146097 "z + 719468"]
    by (auto simp: doe_def)
  then obtain yoe where y: "0 \<le> yoe" "yoe \<le> 399" "year_start yoe \<le> doe" "doe < year_start yoe + year_len yoe"
    using year_exists by blast
  define doy where "doy = doe - year_start yoe"
  have doy: "0 \<le> doy" "doy < year_len yoe" using y by (auto simp: doy_def)
  have all: "list_all (\<lambda>doy. let mp = (5 * doy + 2) div 153 in 0 \<le> mp \<and> mp \<le> 11 \<and>
      month_start mp \<le> doy \<and> (mp = 11 \<or> doy < month_start (mp + 1))) [0..365]"
    by code_simp
  define mp where "mp = (5 * doy + 2) div 153"
  have "doy \<le> 365" using doy by (auto simp: year_len_def split: if_splits)
  then have "0 \<le> mp \<and> mp \<le> 11 \<and> month_start mp \<le> doy \<and> (mp = 11 \<or> doy < month_start (mp + 1))"
    using all doy by (auto simp: list_all_iff Let_def mp_def)
  then have "day_ok yoe mp (doy - month_start mp + 1)" using y doy by (auto simp: day_ok_def)
  moreover have "z = era * 146097 + year_start yoe + month_start mp + (doy - month_start mp + 1) - 1 - 719468"
    by (simp add: doy_def doe_def era_def)
  ultimately show ?thesis by (rule that)
qed

theorem day_round_trip:
  "(case civil_from_days z of (y, m, d) \<Rightarrow> valid_civil y m d \<and> days_from_civil y m d = z)"
proof -
  obtain yoe era mp d where ok: "day_ok yoe mp d"
    and z: "z = era * 146097 + year_start yoe + month_start mp + d - 1 - 719468"
    by (rule day_position)
  have bounds: "0 \<le> yoe" "yoe \<le> 399" "0 \<le> mp" "mp \<le> 11" using ok by (auto simp: day_ok_def)
  obtain y m d' where c: "civil_of (yoe + era * 400) mp d = (y, m, d')" by (cases "civil_of (yoe + era * 400) mp d")
  then have "civil_from_days z = (y, m, d')" using civil_from_days_of [OF ok] by (simp add: z)
  moreover have "valid_civil y m d'" using valid_civil_of [OF bounds, of era d] ok c by simp
  moreover have "days_from_civil y m d' = z" using days_from_civil_of [OF bounds, of era d] c by (simp add: z)
  ultimately show ?thesis by simp
qed

section \<open>The day count of a civil date in closed form\<close>

text \<open>\<open>year_day y\<close> is the AL day count of the first of January of year \<open>y\<close>.\<close>

definition year_day :: "int \<Rightarrow> int" where
  "year_day y = 365 * (y - 1) + (y - 1) div 4 - (y - 1) div 100 + (y - 1) div 400"

lemma year_day_era: "era * 146097 + year_start yoe = year_day (yoe + era * 400 + 1)" if "0 \<le> yoe" "yoe \<le> 399"
proof -
  have "(yoe + era * 400) div 4 = yoe div 4 + era * 100"
    and "(yoe + era * 400) div 100 = yoe div 100 + era * 4"
    and "(yoe + era * 400) div 400 = era"
    using that div_mult_self1 [of 4 yoe "era * 100"] div_mult_self1 [of 100 yoe "era * 4"] by simp_all
  then show ?thesis by (simp add: year_day_def year_start_def)
qed

lemma year_day_succ: "year_day (y + 1) = year_day y + (if is_leap y then 366 else 365)"
proof -
  have dvds: "(100::int) dvd y \<Longrightarrow> 4 dvd y" "(400::int) dvd y \<Longrightarrow> 100 dvd y"
    using dvd_trans [of 4 100 y] dvd_trans [of 100 400 y] by simp_all
  have "y div k = (y - 1) div k + (if k dvd y then 1 else 0)" if "0 < k" for k
    using div_succ [OF that, of "y - 1"] by simp
  note steps = this [of 4, simplified] this [of 100, simplified] this [of 400, simplified]
  have "year_day (y + 1) = 365 * y + y div 4 - y div 100 + y div 400" by (simp add: year_day_def)
  also have "\<dots> = year_day y + 365 + (if 4 dvd y then 1 else 0) - (if 100 dvd y then 1 else 0) +
      (if 400 dvd y then 1 else 0)"
    unfolding steps year_day_def by (simp add: algebra_simps)
  finally have "year_day (y + 1) = year_day y + 365 + (if 4 dvd y then 1 else 0) -
    (if 100 dvd y then 1 else 0) + (if 400 dvd y then 1 else 0)" .
  with dvds show ?thesis unfolding is_leap_mod by (cases "4 dvd y"; cases "100 dvd y"; cases "400 dvd y") simp_all
qed

lemma year_day_mono: "x \<le> y \<Longrightarrow> year_day x \<le> year_day y"
proof (induction y rule: int_ge_induct)
  case (step i)
  then show ?case using year_day_succ [of i] by (auto split: if_splits)
qed simp

lemma al_days_closed:
  assumes "1 \<le> m" "m \<le> 12"
  shows "al_days_from_ymd y m d =
    (if m \<le> 2 then year_day y + month_start (m + 9) else year_day (y + 1) + month_start (m - 3)) + d - 1 - 306"
proof -
  define Y mp where "Y = (if m \<le> 2 then y - 1 else y)" and "mp = (if m > 2 then m - 3 else m + 9)"
  have mp: "0 \<le> mp" "mp \<le> 11" using assms by (auto simp: mp_def)
  have yoe: "0 \<le> Y mod 400" "Y mod 400 \<le> 399" using pos_mod_bound [of 400 Y] by simp_all
  have civil: "civil_of (Y mod 400 + Y div 400 * 400) mp d = (y, m, d)"
    using assms by (auto simp: civil_of_def Y_def mp_def month_no_def)
  have "days_from_civil y m d = Y div 400 * 146097 + year_start (Y mod 400) + month_start mp + d - 1 - 719468"
    using days_from_civil_of [OF yoe mp, of "Y div 400" d] unfolding civil by simp
  also have "Y div 400 * 146097 + year_start (Y mod 400) = year_day (Y + 1)"
    using year_day_era [OF yoe, of "Y div 400"] by simp
  finally show ?thesis using assms
    by (simp add: al_days_from_ymd_def AL_EPOCH_TO_UNIX_DAYS_def Y_def mp_def)
qed

lemma month_cases:
  assumes "1 \<le> m" "m \<le> (12::int)"
  obtains "m = 1" | "m = 2" | "m = 3" | "m = 4" | "m = 5" | "m = 6" | "m = 7" | "m = 8" | "m = 9" | "m = 10"
    | "m = 11" | "m = 12"
proof -
  from assms have "m \<in> {1..12}" by simp
  also have "{1..12} = set [1, 2, 3, 4, 5, 6, 7, 8, 9, 10, 11, 12::int]" by code_simp
  finally show ?thesis using that by auto
qed

lemma al_days_of_year:
  assumes "valid_civil y m d"
  shows "year_day y \<le> al_days_from_ymd y m d" "al_days_from_ymd y m d < year_day (y + 1)"
proof -
  have m: "1 \<le> m" "m \<le> 12" using assms by (auto simp: valid_civil_def)
  from m show "year_day y \<le> al_days_from_ymd y m d"
    by (rule month_cases) (use assms in \<open>auto simp: al_days_closed valid_civil_def month_start_def year_day_succ\<close>)
  from m show "al_days_from_ymd y m d < year_day (y + 1)"
    by (rule month_cases) (use assms in \<open>auto simp: al_days_closed valid_civil_def month_start_def max_day_def year_day_succ\<close>)
qed

lemma al_days_january: "al_days_from_ymd y 1 1 = year_day y"
  by (simp add: al_days_closed month_start_def)

lemma al_days_december: "al_days_from_ymd y 12 31 = year_day (y + 1) - 1"
  by (simp add: al_days_closed month_start_def)

lemma ymd_of_al_days:
  "ymd_from_al_days n = (y, m, d) \<longleftrightarrow> valid_civil y m d \<and> al_days_from_ymd y m d = n"
  using day_round_trip [of "n - AL_EPOCH_TO_UNIX_DAYS"] civil_round_trip [of y m d]
  by (auto simp: ymd_from_al_days_def al_days_from_ymd_def)

text \<open>
  C36: the day carrier and the civil calendar correspond exactly.  A year, month and day pass
  validation with carrier \<open>n\<close> if and only if \<open>n\<close> lies between 0 (1 January 0001) and 3652058 (31
  December 9999) and decodes to that year, month and day.
\<close>

theorem al_date_round_trip:
  "checked_al_date y m d = Some n \<longleftrightarrow> 0 \<le> n \<and> n \<le> 3652058 \<and> ymd_from_al_days n = (y, m, d)"
proof -
  have range: "1 \<le> y \<and> y \<le> 9999 \<longleftrightarrow> 0 \<le> al_days_from_ymd y m d \<and> al_days_from_ymd y m d \<le> 3652058"
    if "valid_civil y m d"
  proof -
    have J: "year_day 1 = 0" "year_day 10000 = 3652059" by (simp_all add: year_day_def)
    show ?thesis
      using al_days_of_year [OF that] J year_day_mono [of 1 y] year_day_mono [of "y + 1" 1]
        year_day_mono [of "y + 1" 10000] year_day_mono [of 10000 y] by linarith
  qed
  show ?thesis
    using range by (auto simp: ymd_of_al_days checked_al_date_def valid_civil_def split: if_splits)
qed

lemma days_in_month: "al_days_from_ymd (if m = 12 then y + 1 else y) (if m = 12 then 1 else m + 1) 1 -
    al_days_from_ymd y m 1 = max_day y m" if "1 \<le> m" "m \<le> 12"
  using that by (rule month_cases) (simp_all add: al_days_closed month_start_def max_day_def year_day_succ)


section \<open>Weekdays and ISO weeks\<close>

lemma weekday_alt: "weekday_of n = n mod 7 + 1"
proof -
  have "weekday_of n = ((n - 719162) mod 7 + 3) mod 7 + 1"
    by (simp add: weekday_of_def AL_EPOCH_TO_UNIX_DAYS_def trem_abs)
  also have "((n - 719162) mod 7 + 3) mod 7 = (n - 719162 + 3) mod 7" by (rule mod_add_left_eq)
  also have "n - 719162 + 3 = n + 7 * (- 102737)" by simp
  also have "(n + 7 * (- 102737)) mod 7 = n mod 7" by (rule mod_mult_self2)
  finally show ?thesis .
qed

text \<open>
  weekdays run from Monday, 1, to Sunday, 7, and the next day has the next weekday.  An ISO week
  has a number from 1 to 53, is the same for the seven days from Monday to Sunday, and belongs to
  the year of its Thursday: week \<open>w\<close> is the one whose Thursday is the \<open>w\<close>-th Thursday of that year.
\<close>

theorem weekday_and_iso_week:
  "1 \<le> weekday_of n \<and> weekday_of n \<le> 7 \<and> weekday_of (n + 1) = weekday_of n mod 7 + 1 \<and>
   (case iso_week n of (w, y) \<Rightarrow>
      1 \<le> w \<and> w \<le> 53 \<and>
      (\<exists>th m d. weekday_of th = 4 \<and> th - 3 \<le> n \<and> n \<le> th + 3 \<and> ymd_from_al_days th = (y, m, d) \<and>
         al_days_from_ymd y 1 1 + 7 * (w - 1) \<le> th \<and> th < al_days_from_ymd y 1 1 + 7 * w))"
proof -
  have range: "1 \<le> weekday_of k" "weekday_of k \<le> 7" for k
    using pos_mod_bound [of 7 k] by (auto simp: weekday_alt)
  define th where "th = n - weekday_of n + 4"
  obtain y m d where ymd: "ymd_from_al_days th = (y, m, d)" by (cases "ymd_from_al_days th")
  define x where "x = th - al_days_from_ymd y 1 1"
  have x: "0 \<le> x" "x < 366"
    using al_days_of_year [of y m d] ymd year_day_succ [of y]
    by (auto simp: x_def ymd_of_al_days al_days_january split: if_splits)
  have w: "iso_week n = (x div 7 + 1, y)"
    using x by (simp add: iso_week_def th_def [symmetric] ymd Let_def x_def [symmetric] tdiv_nonneg)
  have "n mod 7 + 7 * (n div 7) = n" by simp
  then have "th = 7 * (n div 7) + 3" unfolding th_def weekday_alt by linarith
  then have th: "weekday_of th = 4" by (simp add: weekday_alt)
  have next_day: "weekday_of (n + 1) = weekday_of n mod 7 + 1"
    by (simp add: weekday_alt mod_add_left_eq)
  have "al_days_from_ymd y 1 1 + 7 * (x div 7) \<le> th" "th < al_days_from_ymd y 1 1 + 7 * (x div 7 + 1)"
    using mult_div_mod_eq [of 7 x] pos_mod_bound [of 7 x] pos_mod_sign [of 7 x] by (simp_all add: x_def)
  moreover have "0 \<le> x div 7" "x div 7 \<le> 52" using x by linarith+
  moreover have "th - 3 \<le> n" "n \<le> th + 3" using range [of n] by (auto simp: th_def)
  ultimately show ?thesis using range [of n] next_day th ymd by (auto simp: w)
qed

end
