(* ===== verification/Operators.thy ===== *)
theory Operators
  imports Value_Ops Calendar
begin

text \<open>
  The operators of AL expressions (\<^verbatim>\<open>interpreter/eval_expr/operators.rs\<close>): arithmetic with the overflow
  traps of Integer and BigInteger, Date, Time and Duration arithmetic, equality, ordering and \<open>in\<close>.
  \<open>Eval::Normal\<close> is \<^const>\<open>Inr\<close>; \<open>Eval::Error\<close> is \<^const>\<open>Inl\<close> of its message.
\<close>

section \<open>Numbers\<close>

datatype 'd num = NInt int bool | NDec 'd

fun to_decimal :: "'d decimal_ops \<Rightarrow> 'd num \<Rightarrow> 'd" where
  "to_decimal D (NInt n _) = dec_from D n"
| "to_decimal D (NDec d) = d"

definition classify_numeric :: "'d val \<Rightarrow> 'd num option" where
  "classify_numeric v =
     (case v of
        VInteger n \<Rightarrow> Some (NInt n False)
      | VBigInteger n \<Rightarrow> Some (NInt n True)
      | VChar c \<Rightarrow> Some (NInt (int (code_of c)) False)
      | VOption _ _ ordinal \<Rightarrow> Some (NInt ordinal False)
      | VDecimal d \<Rightarrow> Some (NDec d)
      | _ \<Rightarrow> None)"

definition checked_int :: "int option \<Rightarrow> bool \<Rightarrow> string + 'd val" where
  "checked_int result big =
     (case result of
        None \<Rightarrow> Err ''integer overflow''
      | Some n \<Rightarrow> if big then Ok (VBigInteger n) else if in_i32 n then Ok (VInteger n) else Err ''integer overflow'')"

definition checked_decimal :: "'d option \<Rightarrow> string + 'd val" where
  "checked_decimal d = (case d of Some v \<Rightarrow> Ok (VDecimal v) | None \<Rightarrow> Err ''decimal arithmetic overflow'')"

text \<open>The message of \<open>unreachable!\<close>; \<^verbatim>\<open>apply_binary\<close> passes only the operators named before it.\<close>

definition unreachable_op :: "string + 'd val" where
  "unreachable_op = Err ''internal error: entered unreachable code: op pre-filtered by apply_binary''"

definition apply_numeric :: "'d decimal_ops \<Rightarrow> string \<Rightarrow> 'd num \<Rightarrow> 'd num \<Rightarrow> string + 'd val" where
  "apply_numeric D oper l r =
     (if oper = ''/'' then
        (if dec_eq D (to_decimal D r) (dec_zero D) then Err ''division by zero''
         else checked_decimal (dec_div D (to_decimal D l) (to_decimal D r)))
      else case (l, r) of
        (NInt a ab, NInt b bb) \<Rightarrow>
          (let big = (ab \<or> bb) in
           if oper = ''+'' then checked_int (checked_add a b) big
           else if oper = ''-'' then checked_int (checked_sub a b) big
           else if oper = ''*'' then checked_int (checked_mul a b) big
           else if oper = ''div'' then
             (if b = 0 then Err ''division by zero'' else checked_int (checked_div a b) big)
           else if oper = ''mod'' then
             (if b = 0 then Err ''modulo by zero'' else checked_int (checked_rem a b) big)
           else unreachable_op)
      | _ \<Rightarrow>
          (let a = to_decimal D l; b = to_decimal D r in
           if oper = ''+'' then checked_decimal (dec_add D a b)
           else if oper = ''-'' then checked_decimal (dec_sub D a b)
           else if oper = ''*'' then checked_decimal (dec_mul D a b)
           else if oper = ''div'' \<or> oper = ''mod'' then
             Err (''binary operator `'' @ oper @ ''` is integer-only (not supported on Decimal)'')
           else unreachable_op))"

text \<open>\<open>eval_unary\<close> once its operand has a value.\<close>

definition apply_unary :: "'d decimal_ops \<Rightarrow> string \<Rightarrow> 'd val \<Rightarrow> string + 'd val" where
  "apply_unary D operator v =
     (let oper = to_ascii_lowercase operator;
          unsupported = Err (''unary operator `'' @ oper @ ''` not supported on '' @ type_name v) in
      if oper = ''+'' then
        (case v of VInteger n \<Rightarrow> Ok (VInteger n) | VBigInteger n \<Rightarrow> Ok (VBigInteger n) | VDecimal d \<Rightarrow> Ok (VDecimal d)
         | VOption _ _ ordinal \<Rightarrow> Ok (VInteger ordinal) | _ \<Rightarrow> unsupported)
      else if oper = ''-'' then
        (case v of VInteger n \<Rightarrow> checked_int (checked_neg n) False | VBigInteger n \<Rightarrow> checked_int (checked_neg n) True
         | VDecimal d \<Rightarrow> Ok (VDecimal (dec_neg D d)) | VOption _ _ ordinal \<Rightarrow> checked_int (checked_neg ordinal) False
         | _ \<Rightarrow> unsupported)
      else if oper = ''not'' then (case v of VBoolean b \<Rightarrow> Ok (VBoolean (\<not> b)) | _ \<Rightarrow> unsupported)
      else unsupported)"


section \<open>Dates and times\<close>

definition whole_offset :: "'d decimal_ops \<Rightarrow> 'd val \<Rightarrow> string + int" where
  "whole_offset D v =
     (case v of
        VDuration ms \<Rightarrow> Ok ms
      | _ \<Rightarrow>
          (case classify_numeric v of
             Some (NInt n _) \<Rightarrow> Ok n
           | Some (NDec d) \<Rightarrow>
               if dec_is_whole D d then ok_or (parse_i64 (dec_show D d)) ''Date/Time arithmetic offset is out of range''
               else Err ''Date/Time arithmetic requires a whole-number offset''
           | None \<Rightarrow> Err (''Date/Time arithmetic does not support '' @ type_name v)))"

text \<open>
  The shape the arms share: refuse the undefined value, convert the offset, compute, wrap.
\<close>

definition shift ::
  "'d decimal_ops \<Rightarrow> bool \<Rightarrow> string \<Rightarrow> (int \<Rightarrow> int option) \<Rightarrow> string \<Rightarrow> (int \<Rightarrow> 'd val) \<Rightarrow> 'd val \<Rightarrow> string + 'd val" where
  "shift D undef undef_msg f overflow mk offset =
     (if undef then Err undef_msg
      else bind_res (whole_offset D offset) (\<lambda>n. bind_res (ok_or (f n) overflow) (\<lambda>x. Ok (mk x))))"

definition in_day :: "int option \<Rightarrow> int option" where
  "in_day x = (case x of Some t \<Rightarrow> if 0 \<le> t \<and> t < MS_PER_DAY then Some t else None | None \<Rightarrow> None)"

abbreviation "dt_zero \<equiv> ''DateTime arithmetic is undefined for the zero DateTime''"
abbreviation "date_zero \<equiv> ''Date arithmetic is undefined for 0D''"
abbreviation "time_zero \<equiv> ''Time arithmetic is undefined for 0T''"
abbreviation "dt_over \<equiv> ''DateTime arithmetic overflow''"
abbreviation "date_over \<equiv> ''Date arithmetic overflow''"
abbreviation "time_over \<equiv> ''Time arithmetic overflow''"
abbreviation "dur_over \<equiv> ''Duration arithmetic overflow''"

text \<open>A temporal operand, in the order the arms of the match test for one.\<close>

definition add_to :: "'d decimal_ops \<Rightarrow> 'd val \<Rightarrow> 'd val \<Rightarrow> (string + 'd val) option" where
  "add_to D v offset =
     (case v of
        VDateTime dt \<Rightarrow> Some (shift D (dt = 0) dt_zero (checked_add dt) dt_over VDateTime offset)
      | VDate date \<Rightarrow> Some (shift D (date = 0) date_zero (checked_add date) date_over VDate offset)
      | VTime time \<Rightarrow> Some (shift D (time = 0) time_zero (\<lambda>n. in_day (checked_add time n)) time_over VTime offset)
      | VDuration l \<Rightarrow> Some (shift D False '''' (checked_add l) dur_over VDuration offset)
      | _ \<Rightarrow> None)"

definition temporal_rank :: "'d val \<Rightarrow> nat" where
  "temporal_rank v = (case v of VDateTime _ \<Rightarrow> 3 | VDate _ \<Rightarrow> 2 | VTime _ \<Rightarrow> 1 | VDuration _ \<Rightarrow> 0 | _ \<Rightarrow> 0)"

definition is_temporal :: "'d val \<Rightarrow> bool" where
  "is_temporal v = (case v of VDateTime _ \<Rightarrow> True | VDate _ \<Rightarrow> True | VTime _ \<Rightarrow> True | VDuration _ \<Rightarrow> True | _ \<Rightarrow> False)"

definition temporal_add :: "'d decimal_ops \<Rightarrow> 'd val \<Rightarrow> 'd val \<Rightarrow> (string + 'd val) option" where
  "temporal_add D left right =
     (if is_temporal left \<and> (\<not> is_temporal right \<or> temporal_rank right \<le> temporal_rank left) then add_to D left right
      else if is_temporal right then add_to D right left else None)"

definition temporal_sub :: "'d decimal_ops \<Rightarrow> 'd val \<Rightarrow> 'd val \<Rightarrow> (string + 'd val) option" where
  "temporal_sub D left right =
     (case left of
        VDateTime l \<Rightarrow>
          Some (case right of
                  VDateTime r \<Rightarrow> if l = 0 \<or> r = 0 then Err dt_zero
                    else bind_res (ok_or (checked_sub l r) dt_over) (\<lambda>ms. Ok (VDuration ms))
                | _ \<Rightarrow> shift D (l = 0) dt_zero (checked_sub l) dt_over VDateTime right)
      | VDate l \<Rightarrow>
          Some (case right of
                  VDate r \<Rightarrow> if l = 0 \<or> r = 0 then Err date_zero else checked_int (checked_sub l r) False
                | _ \<Rightarrow> shift D (l = 0) date_zero (checked_sub l) date_over VDate right)
      | VTime l \<Rightarrow>
          Some (case right of
                  VTime r \<Rightarrow> if l = 0 \<or> r = 0 then Err time_zero
                    else bind_res (ok_or (checked_sub l r) time_over) (\<lambda>ms. Ok (VDuration ms))
                | _ \<Rightarrow> shift D (l = 0) time_zero (\<lambda>n. in_day (checked_sub l n)) time_over VTime right)
      | VDuration l \<Rightarrow> Some (shift D False '''' (checked_sub l) dur_over VDuration right)
      | _ \<Rightarrow> None)"

definition apply_temporal_arithmetic :: "'d decimal_ops \<Rightarrow> string \<Rightarrow> 'd val \<Rightarrow> 'd val \<Rightarrow> (string + 'd val) option" where
  "apply_temporal_arithmetic D operator left right =
     (let oper = to_ascii_lowercase operator in
      if oper = ''-'' then temporal_sub D left right
      else if oper = ''+'' then temporal_add D left right
      else None)"

section \<open>Equality and order\<close>

definition values_equal :: "'d env \<Rightarrow> 'd val \<Rightarrow> 'd val \<Rightarrow> bool" where
  "values_equal E a b =
     (case (classify_numeric a, classify_numeric b) of
        (Some l, Some r) \<Rightarrow> dec_eq (dec E) (to_decimal (dec E) l) (to_decimal (dec E) r)
      | _ \<Rightarrow>
          (case a of
             VCode x \<Rightarrow> (case b of VCode y \<Rightarrow> eq_ignore_ascii_case x y | VText y \<Rightarrow> eq_ignore_ascii_case y x
                         | _ \<Rightarrow> value_eq E a b)
           | VText x \<Rightarrow> (case b of VCode y \<Rightarrow> eq_ignore_ascii_case x y | _ \<Rightarrow> value_eq E a b)
           | _ \<Rightarrow> value_eq E a b))"

definition value_ordering :: "'d env \<Rightarrow> 'd val \<Rightarrow> 'd val \<Rightarrow> string + ordering" where
  "value_ordering E a b =
     (let incomparable = Err (''cannot compare '' @ type_name a @ '' and '' @ type_name b);
          caseless = (\<lambda>x y. Ok (str_cmp (to_ascii_uppercase x) (to_ascii_uppercase y))) in
      case (classify_numeric a, classify_numeric b) of
        (Some l, Some r) \<Rightarrow>
          Ok (case (l, r) of
                (NInt m _, NInt n _) \<Rightarrow> lcmp m n
              | _ \<Rightarrow> dec_cmp (dec E) (to_decimal (dec E) l) (to_decimal (dec E) r))
      | _ \<Rightarrow>
          (case a of
             VBoolean l \<Rightarrow> (case b of VBoolean r \<Rightarrow> Ok (bool_cmp l r) | _ \<Rightarrow> incomparable)
           | VText x \<Rightarrow> (case b of VText y \<Rightarrow> Ok (str_cmp x y) | VCode y \<Rightarrow> caseless x y | _ \<Rightarrow> incomparable)
           | VCode x \<Rightarrow> (case b of VText y \<Rightarrow> caseless x y | VCode y \<Rightarrow> caseless x y | _ \<Rightarrow> incomparable)
           | VDate x \<Rightarrow> (case b of VDate y \<Rightarrow> Ok (lcmp x y) | _ \<Rightarrow> incomparable)
           | VTime x \<Rightarrow> (case b of VTime y \<Rightarrow> Ok (lcmp x y) | _ \<Rightarrow> incomparable)
           | VDateTime x \<Rightarrow> (case b of VDateTime y \<Rightarrow> Ok (lcmp x y) | _ \<Rightarrow> incomparable)
           | _ \<Rightarrow> incomparable))"

definition values_cmp :: "'d env \<Rightarrow> 'd val \<Rightarrow> 'd val \<Rightarrow> (ordering \<Rightarrow> bool) \<Rightarrow> string + 'd val" where
  "values_cmp E a b P = bind_res (value_ordering E a b) (\<lambda>ord. Ok (VBoolean (P ord)))"

text \<open>\<open>&&\<close> does not evaluate its right side when the left is false, nor then its error.\<close>

definition value_in_range :: "'d env \<Rightarrow> 'd val \<Rightarrow> 'd val \<Rightarrow> 'd val \<Rightarrow> string + bool" where
  "value_in_range E v start fin =
     bind_res (value_ordering E v start) (\<lambda>lo.
       if is_ge lo then bind_res (value_ordering E v fin) (\<lambda>hi. Ok (is_le hi)) else Ok False)"

fun in_members :: "'d env \<Rightarrow> 'd val \<Rightarrow> 'd val list \<Rightarrow> string + 'd val" where
  "in_members E v [] = Ok (VBoolean False)"
| "in_members E v (m # ms) =
     bind_res (case m of VRange start fin \<Rightarrow> value_in_range E v start fin | _ \<Rightarrow> Ok (values_equal E v m))
       (\<lambda>matched. if matched then Ok (VBoolean True) else in_members E v ms)"


section \<open>Binary operators\<close>

text \<open>The match at the end of \<open>apply_binary\<close>.\<close>

definition apply_other :: "'d env \<Rightarrow> string \<Rightarrow> 'd val \<Rightarrow> 'd val \<Rightarrow> string + 'd val" where
  "apply_other E oper left right =
     (let unsupported = Err (''binary operator `'' @ oper @ ''` not supported on ('' @ type_name left @ '', '' @
            type_name right @ '')'') in
      if oper = ''+'' then
        (case left of
           VText a \<Rightarrow> (case right of VText b \<Rightarrow> Ok (VText (a @ b)) | VCode b \<Rightarrow> Ok (VText (a @ b)) | _ \<Rightarrow> unsupported)
         | VCode a \<Rightarrow> (case right of VText b \<Rightarrow> Ok (VText (a @ b)) | VCode b \<Rightarrow> Ok (VCode (a @ b)) | _ \<Rightarrow> unsupported)
         | _ \<Rightarrow> unsupported)
      else if oper = ''='' then Ok (VBoolean (values_equal E left right))
      else if oper = ''<>'' then Ok (VBoolean (\<not> values_equal E left right))
      else if oper = ''<'' then values_cmp E left right is_lt
      else if oper = ''<='' then values_cmp E left right is_le
      else if oper = ''>'' then values_cmp E left right is_gt
      else if oper = ''>='' then values_cmp E left right is_ge
      else if oper \<in> {''and'', ''or'', ''xor''} then
        (case (left, right) of
           (VBoolean a, VBoolean b) \<Rightarrow>
             Ok (VBoolean (if oper = ''and'' then a \<and> b else if oper = ''or'' then a \<or> b else a \<noteq> b))
         | _ \<Rightarrow> unsupported)
      else if oper = ''..'' then Ok (VRange left right)
      else if oper = ''in'' then
        (case right of
           VList a _ _ \<Rightarrow> in_members E left (contents_of (lists E) a)
         | VArray ms \<Rightarrow> in_members E left ms
         | _ \<Rightarrow> unsupported)
      else unsupported)"

definition concat_check :: "string \<Rightarrow> 'd val \<Rightarrow> 'd val \<Rightarrow> string + unit" where
  "concat_check oper left right =
     (case (as_text left, as_text right) of
        (Some a, Some b) \<Rightarrow>
          if oper = ''+'' then check_text_size ''Text concatenation'' (saturating_add (str_len a) (str_len b)) else Ok ()
      | _ \<Rightarrow> Ok ())"

definition apply_binary :: "'d env \<Rightarrow> string \<Rightarrow> 'd val \<Rightarrow> 'd val \<Rightarrow> string + 'd val" where
  "apply_binary E operator left right =
     (let oper = to_ascii_lowercase operator in
      case (if oper = ''+'' \<or> oper = ''-'' then apply_temporal_arithmetic (dec E) oper left right else None) of
        Some result \<Rightarrow> result
      | None \<Rightarrow>
          (case (if oper \<in> {''+'', ''-'', ''*'', ''/'', ''div'', ''mod''}
                 then (case (classify_numeric left, classify_numeric right) of
                         (Some l, Some r) \<Rightarrow> Some (apply_numeric (dec E) oper l r)
                       | _ \<Rightarrow> None)
                 else None) of
             Some result \<Rightarrow> result
           | None \<Rightarrow> bind_res (concat_check oper left right) (\<lambda>_. apply_other E oper left right)))"

section \<open>Integer arithmetic\<close>

text \<open>The result width of an integer operation: \<open>BigInteger\<close> as soon as one operand is one.\<close>

definition fitted :: "bool \<Rightarrow> int \<Rightarrow> string + 'd val" where
  "fitted big n =
     (if big then (if in_i64 n then Ok (VBigInteger n) else Err ''integer overflow'')
      else (if in_i32 n then Ok (VInteger n) else Err ''integer overflow''))"

lemma checked_int_fitted: "checked_int (checked_i64 n) big = fitted big n"
  by (auto simp: checked_int_def checked_i64_def fitted_def dest: in_i32_in_i64)

lemma checked_int_exact: "in_i64 n \<Longrightarrow> checked_int (Some n) big = fitted big n"
  by (auto simp: checked_int_def fitted_def)

lemma lower_ops [simp]:
  "to_ascii_lowercase ''+'' = ''+''" "to_ascii_lowercase ''-'' = ''-''" "to_ascii_lowercase ''*'' = ''*''"
  "to_ascii_lowercase ''/'' = ''/''" "to_ascii_lowercase ''div'' = ''div''" "to_ascii_lowercase ''mod'' = ''mod''"
  "to_ascii_lowercase ''='' = ''=''" "to_ascii_lowercase ''<>'' = ''<>''" "to_ascii_lowercase ''<'' = ''<''"
  "to_ascii_lowercase ''<='' = ''<=''" "to_ascii_lowercase ''>'' = ''>''" "to_ascii_lowercase ''>='' = ''>=''"
  "to_ascii_lowercase ''in'' = ''in''"
  by code_simp+

lemma numeric_not_temporal:
  assumes "classify_numeric l = Some m" "classify_numeric r = Some n"
  shows "apply_temporal_arithmetic D oper l r = None"
  using assms by (cases l; cases r)
    (auto simp: apply_temporal_arithmetic_def temporal_sub_def temporal_add_def is_temporal_def classify_numeric_def Let_def)

lemma apply_binary_numeric:
  assumes "classify_numeric l = Some m" "classify_numeric r = Some n"
    and "oper \<in> {''+'', ''-'', ''*'', ''/'', ''div'', ''mod''}"
  shows "apply_binary E oper l r = apply_numeric (dec E) oper m n"
  using assms(3) by (auto simp: apply_binary_def Let_def assms(1,2) numeric_not_temporal [OF assms(1,2)])

lemma tdiv_in_i64:
  assumes "in_i64 a" "b \<noteq> 0" "\<not> (a = i64_min \<and> b = - 1)"
  shows "in_i64 (tdiv a b)"
proof -
  have "\<bar>a\<bar> div \<bar>b\<bar> \<le> \<bar>a\<bar> div 1" using assms(2) by (intro zdiv_mono2) auto
  moreover have d: "\<bar>tdiv a b\<bar> \<le> \<bar>a\<bar> div \<bar>b\<bar>"
    using pos_imp_zdiv_nonneg_iff [of "\<bar>b\<bar>" "\<bar>a\<bar>"] assms(2) by (simp add: tdiv_def abs_mult sgn_if)
  ultimately have q: "\<bar>tdiv a b\<bar> \<le> \<bar>a\<bar>" by simp
  show ?thesis
  proof (cases "a = i64_min")
    case True
    have "b = 1 \<or> \<bar>b\<bar> \<ge> 2" using assms(2,3) True by auto
    then show ?thesis
    proof
      assume "b = 1" then show ?thesis using assms(1) True by (simp add: tdiv_def i64_min_def int_range_defs)
    next
      assume "\<bar>b\<bar> \<ge> 2"
      then have "\<bar>a\<bar> div \<bar>b\<bar> \<le> \<bar>a\<bar> div 2" by (intro zdiv_mono2) auto
      then show ?thesis using True d by (simp add: int_range_defs abs_le_iff)
    qed
  qed (use q assms(1) in \<open>auto simp: int_range_defs abs_if split: if_splits\<close>)
qed

text \<open>
  C31: integer arithmetic is exact.  Sum, difference, product and the truncated quotient are the
  mathematical ones when they fit the width of the result, 32 bits or 64 with a BigInteger operand,
  and an overflow error otherwise; they never wrap.  Division by zero is its own error.  The
  remainder satisfies \<open>b * (a div b) + a mod b = a\<close>, is smaller than the divisor and has the sign of
  the dividend.
\<close>

theorem integer_arithmetic_exact:
  assumes "classify_numeric l = Some (NInt a ab)" "classify_numeric r = Some (NInt b bb)"
    and "in_i64 a" "in_i64 b"
  shows "apply_binary E ''+'' l r = fitted (ab \<or> bb) (a + b) \<and>
    apply_binary E ''-'' l r = fitted (ab \<or> bb) (a - b) \<and>
    apply_binary E ''*'' l r = fitted (ab \<or> bb) (a * b) \<and>
    apply_binary E ''div'' l r = (if b = 0 then Err ''division by zero'' else fitted (ab \<or> bb) (tdiv a b)) \<and>
    (b = 0 \<longrightarrow> apply_binary E ''mod'' l r = Err ''modulo by zero'') \<and>
    (b \<noteq> 0 \<and> \<not> (a = i64_min \<and> b = - 1) \<longrightarrow>
       (\<exists>rest. apply_binary E ''mod'' l r = fitted (ab \<or> bb) rest \<and> b * tdiv a b + rest = a \<and>
          \<bar>rest\<bar> < \<bar>b\<bar> \<and> (rest = 0 \<or> sgn rest = sgn a)))"
proof -
  note ops = apply_binary_numeric [OF assms(1,2), of _ E]
  have "in_i64 (trem a b)" if "b \<noteq> 0"
    using trem_bound [OF that, of a] assms(4) by (auto simp: int_range_defs)
  then have rem: "apply_binary E ''mod'' l r = fitted (ab \<or> bb) (trem a b)"
    if "b \<noteq> 0" "\<not> (a = i64_min \<and> b = - 1)"
    using tdiv_in_i64 [OF assms(3) that] that
    by (simp add: ops apply_numeric_def checked_rem_def checked_int_exact)
  show ?thesis
  proof (intro conjI impI)
    assume "b \<noteq> 0 \<and> \<not> (a = i64_min \<and> b = - 1)"
    then show "\<exists>rest. apply_binary E ''mod'' l r = fitted (ab \<or> bb) rest \<and> b * tdiv a b + rest = a \<and>
          \<bar>rest\<bar> < \<bar>b\<bar> \<and> (rest = 0 \<or> sgn rest = sgn a)"
      using rem tdiv_trem trem_bound trem_sign by blast
  qed (simp_all add: ops apply_numeric_def checked_int_fitted checked_add_def checked_sub_def checked_mul_def checked_div_def)
qed

lemma integer_arithmetic_exact_witness:
  "apply_binary sample_env ''*'' (VInteger 2147483647) (VInteger 3) = Err ''integer overflow'' \<and>
   apply_binary sample_env ''*'' (VInteger 2147483647) (VBigInteger 3) = Ok (VBigInteger 6442450941) \<and>
   apply_binary sample_env ''div'' (VInteger (- 7)) (VInteger 2) = Ok (VInteger (- 3))"
  using integer_arithmetic_exact [of "VInteger 2147483647" 2147483647 False "VInteger 3" 3 False sample_env]
    integer_arithmetic_exact [of "VInteger 2147483647" 2147483647 False "VBigInteger 3" 3 True sample_env]
    integer_arithmetic_exact [of "VInteger (- 7)" "- 7" False "VInteger 2" 2 False sample_env]
  by (simp add: classify_numeric_def fitted_def int_range_defs tdiv_def)

section \<open>Equality and order agree\<close>

text \<open>An integer carrier is an \<open>i64\<close>.\<close>

definition carrier_ok :: "'d val \<Rightarrow> bool" where
  "carrier_ok v = (case classify_numeric v of Some (NInt n _) \<Rightarrow> in_i64 n | _ \<Rightarrow> True)"

lemma to_decimal_num:
  assumes "classify_numeric v = Some m" "carrier_ok v" "dec_exact D"
  shows "dec_num D (to_decimal D m) = (case m of NInt n _ \<Rightarrow> of_int n | NDec d \<Rightarrow> dec_num D d)"
  using assms by (cases m) (auto simp: carrier_ok_def dec_exact_def)

lemma value_ordering_numeric:
  assumes "classify_numeric a = Some l" "classify_numeric b = Some r"
    and "carrier_ok a" "carrier_ok b" "dec_exact (dec E)"
  shows "value_ordering E a b =
    Ok (lcmp (dec_num (dec E) (to_decimal (dec E) l)) (dec_num (dec E) (to_decimal (dec E) r)))"
  using to_decimal_num [OF assms(1,3,5)] to_decimal_num [OF assms(2,4,5)]
  by (auto simp: value_ordering_def assms(1,2) dec_cmp_def lcmp_def Let_def split: num.splits)

lemma value_eq_simps [simp]:
  "value_eq E (VBoolean x) (VBoolean y) \<longleftrightarrow> x = y"
  "value_eq E (VText s) (VText t) \<longleftrightarrow> s = t"
  "value_eq E (VDate i) (VDate j) \<longleftrightarrow> i = j"
  "value_eq E (VTime i) (VTime j) \<longleftrightarrow> i = j"
  "value_eq E (VDateTime i) (VDateTime j) \<longleftrightarrow> i = j"
  by (simp_all add: value_eq_def compare_def compare_one_def bool_cmp_def)

lemma value_ordering_other:
  assumes "value_ordering E a b = Ok ord" "classify_numeric a = None \<or> classify_numeric b = None"
  shows "(values_equal E a b \<longleftrightarrow> ord = Equal) \<and> value_ordering E b a = Ok (rev_ordering ord)"
proof -
  have none: "classify_numeric a = None" using assms
    by (cases a) (simp_all add: value_ordering_def classify_numeric_def Let_def split: option.splits del: type_name.simps)
  then have "a \<in> range VBoolean \<union> range VText \<union> range VCode \<union> range VDate \<union> range VTime \<union> range VDateTime"
    using assms(1) by (cases a) (simp_all add: value_ordering_def classify_numeric_def Let_def del: type_name.simps)
  then show ?thesis using assms(1)
    by (elim UnE imageE; cases b)
      (simp_all add: value_ordering_def values_equal_def classify_numeric_def Let_def del: type_name.simps,
       auto simp: str_cmp_swap [symmetric] lcmp_swap [symmetric] eq_ignore_ascii_case_upper bool_cmp_def)
qed

lemma concat_check_other: "oper \<noteq> ''+'' \<Longrightarrow> concat_check oper a b = Ok ()"
  by (simp add: concat_check_def split: option.split)

lemma apply_binary_relation:
  "apply_binary E ''<'' a b = values_cmp E a b is_lt"
  "apply_binary E ''<='' a b = values_cmp E a b is_le"
  "apply_binary E ''>'' a b = values_cmp E a b is_gt"
  "apply_binary E ''>='' a b = values_cmp E a b is_ge"
  "apply_binary E ''='' a b = Ok (VBoolean (values_equal E a b))"
  by (simp_all add: apply_binary_def concat_check_other apply_other_def Let_def)

text \<open>
  Where two values can be ordered, equality and order agree: \<open>=\<close> holds exactly when neither \<open><\<close>
  nor \<open>>\<close> does, exactly one of the three holds, \<open><=\<close> and \<open>>=\<close> are their unions, and exchanging the
  operands reverses the order.  This covers mixed Integer, BigInteger, Char, Option and Decimal
  operands and mixed Text and Code operands.
\<close>

theorem ordering_agrees_with_equality:
  assumes "value_ordering E a b = Ok ord"
    and "carrier_ok a" "carrier_ok b" "dec_exact (dec E)"
  shows "(values_equal E a b \<longleftrightarrow> ord = Equal) \<and> value_ordering E b a = Ok (rev_ordering ord) \<and>
    apply_binary E ''<'' a b = Ok (VBoolean (ord = Less)) \<and>
    apply_binary E ''='' a b = Ok (VBoolean (ord = Equal)) \<and>
    apply_binary E ''>'' a b = Ok (VBoolean (ord = Greater)) \<and>
    apply_binary E ''<='' a b = Ok (VBoolean (ord \<noteq> Greater)) \<and>
    apply_binary E ''>='' a b = Ok (VBoolean (ord \<noteq> Less))"
proof -
  have "(values_equal E a b \<longleftrightarrow> ord = Equal) \<and> value_ordering E b a = Ok (rev_ordering ord)"
  proof (cases "classify_numeric a = None \<or> classify_numeric b = None")
    case False
    then obtain l r where lr: "classify_numeric a = Some l" "classify_numeric b = Some r" by auto
    show ?thesis
      using assms(1) value_ordering_numeric [OF lr assms(2-4)]
        value_ordering_numeric [OF lr(2,1) assms(3,2,4)]
      by (auto simp: values_equal_def lr dec_eq_def lcmp_swap [symmetric])
  next
    case True
    with assms(1) show ?thesis by (rule value_ordering_other)
  qed
  then show ?thesis using assms(1) by (simp add: apply_binary_relation values_cmp_def)
qed

lemma ordering_agrees_with_equality_witness:
  "value_ordering sample_env (VInteger 5) (VDecimal (50, 1)) = Ok Equal \<and>
   values_equal sample_env (VInteger 5) (VDecimal (50, 1)) \<and>
   apply_binary sample_env ''='' (VInteger 5) (VDecimal (50, 1)) = Ok (VBoolean True)"
proof -
  have "value_ordering sample_env (VInteger 5) (VDecimal (50, 1)) = Ok Equal"
    by (simp add: value_ordering_def classify_numeric_def dec_cmp_def)
  from this ordering_agrees_with_equality [OF this] show ?thesis
    by (simp add: carrier_ok_def classify_numeric_def int_range_defs sample_decimal_exact)
qed


section \<open>Date and time arithmetic\<close>

lemma apply_binary_temporal:
  "apply_temporal_arithmetic (dec E) oper l r = Some res \<Longrightarrow> oper \<in> {''+'', ''-''} \<Longrightarrow> apply_binary E oper l r = res"
  by (auto simp: apply_binary_def Let_def)

text \<open>
  The difference of two dates, date-times or times inverts addition and subtraction: what \<open>l - r\<close>
  returns, added to \<open>r\<close>, gives \<open>l\<close>, and subtracted from \<open>l\<close>, gives \<open>r\<close>.  The difference of dates is
  an Integer, the others are a Duration.
\<close>

theorem temporal_difference_inverts:
  assumes "l \<noteq> 0" "r \<noteq> 0" "in_i64 l" "in_i64 r"
  shows "(in_i32 (l - r) \<longrightarrow>
      apply_binary E ''-'' (VDate l) (VDate r) = Ok (VInteger (l - r)) \<and>
      apply_binary E ''+'' (VDate r) (VInteger (l - r)) = Ok (VDate l) \<and>
      apply_binary E ''+'' (VInteger (l - r)) (VDate r) = Ok (VDate l) \<and>
      apply_binary E ''-'' (VDate l) (VInteger (l - r)) = Ok (VDate r)) \<and>
    (in_i64 (l - r) \<longrightarrow>
      apply_binary E ''-'' (VDateTime l) (VDateTime r) = Ok (VDuration (l - r)) \<and>
      apply_binary E ''+'' (VDateTime r) (VDuration (l - r)) = Ok (VDateTime l) \<and>
      apply_binary E ''+'' (VDuration (l - r)) (VDateTime r) = Ok (VDateTime l) \<and>
      apply_binary E ''-'' (VDateTime l) (VDuration (l - r)) = Ok (VDateTime r)) \<and>
    (l \<in> {1 ..< MS_PER_DAY} \<and> r \<in> {1 ..< MS_PER_DAY} \<longrightarrow>
      apply_binary E ''-'' (VTime l) (VTime r) = Ok (VDuration (l - r)) \<and>
      apply_binary E ''+'' (VTime r) (VDuration (l - r)) = Ok (VTime l) \<and>
      apply_binary E ''+'' (VDuration (l - r)) (VTime r) = Ok (VTime l) \<and>
      apply_binary E ''-'' (VTime l) (VDuration (l - r)) = Ok (VTime r))"
proof -
  have day: "in_i64 (l - r)" if "l \<in> {1 ..< MS_PER_DAY}" "r \<in> {1 ..< MS_PER_DAY}"
    using that by (simp add: MS_PER_DAY_def int_range_defs)
  show ?thesis
    using assms day in_i32_in_i64 [of "l - r"]
    by (intro conjI impI; intro apply_binary_temporal)
      (auto simp: apply_temporal_arithmetic_def temporal_sub_def temporal_add_def add_to_def shift_def is_temporal_def
        temporal_rank_def whole_offset_def classify_numeric_def ok_or_def checked_defs in_day_def checked_int_def)
qed

lemma temporal_difference_inverts_witness:
  "apply_binary sample_env ''-'' (VDate 738000) (VDate 737635) = Ok (VInteger 365) \<and>
   apply_binary sample_env ''+'' (VDate 737635) (VInteger 365) = Ok (VDate 738000) \<and>
   apply_binary sample_env ''-'' (VTime 3600001) (VTime 1) = Ok (VDuration 3600000)"
  using temporal_difference_inverts [of 738000 737635 sample_env] temporal_difference_inverts [of 3600001 1 sample_env]
  by (simp add: int_range_defs MS_PER_DAY_def)

lemma in_day_range: "in_day x = Some t \<Longrightarrow> t \<in> {0 ..< MS_PER_DAY}"
  by (auto simp: in_day_def split: option.splits if_splits)

lemma shift_Ok:
  "shift D undef m f over mk v = Ok w \<Longrightarrow> \<exists>n x. \<not> undef \<and> whole_offset D v = Ok n \<and> f n = Some x \<and> w = mk x"
  by (auto simp: shift_def bind_res_def ok_or_def split: if_splits sum.splits option.splits)

lemma checked_results: "checked_int x big \<noteq> Ok (VTime t)" "checked_decimal y \<noteq> Ok (VTime t)"
  "unreachable_op \<noteq> Ok (VTime t)"
  by (auto simp: checked_int_def checked_decimal_def unreachable_op_def split: option.splits)

lemma no_time_elsewhere:
  "apply_numeric D oper m n \<noteq> Ok (VTime t)"
  "oper \<in> {''+'', ''-''} \<Longrightarrow> apply_other E oper l r \<noteq> Ok (VTime t)"
proof -
  show "apply_numeric D oper m n \<noteq> Ok (VTime t)"
    by (cases m; cases n) (simp_all add: apply_numeric_def checked_results Let_def)
  have "apply_other E ''+'' l r \<noteq> Ok (VTime t)"
    by (cases l; simp add: apply_other_def Let_def del: type_name.simps split: val.split)
  moreover have "apply_other E ''-'' l r \<noteq> Ok (VTime t)"
    by (simp add: apply_other_def Let_def)
  ultimately show "oper \<in> {''+'', ''-''} \<Longrightarrow> apply_other E oper l r \<noteq> Ok (VTime t)" by blast
qed

text \<open>
  A Time never leaves the day.  Whatever is added to or subtracted from a Time, on either side,
  a result that is a Time lies between 0 and the last millisecond of the day; nothing is added to or
  subtracted from the undefined time 0T.
\<close>

theorem time_stays_in_day:
  assumes "oper \<in> {''+'', ''-''}" "apply_binary E oper l r = Ok (VTime t)"
  shows "t \<in> {0 ..< MS_PER_DAY} \<and> (\<exists>t0. t0 \<noteq> 0 \<and> (l = VTime t0 \<or> oper = ''+'' \<and> r = VTime t0))"
proof (cases "apply_temporal_arithmetic (dec E) oper l r")
  case (Some res)
  then have res: "apply_temporal_arithmetic (dec E) oper l r = Some (Ok (VTime t))"
    using apply_binary_temporal [OF Some assms(1)] assms(2) by simp
  from assms(1) have "oper = ''+'' \<or> oper = ''-''" by simp
  then show ?thesis
  proof
    assume "oper = ''+''"
    with res have add: "temporal_add (dec E) l r = Some (Ok (VTime t))" by (simp add: apply_temporal_arithmetic_def)
    obtain v w where "add_to (dec E) v w = Some (Ok (VTime t))" "v = l \<or> v = r"
      using add by (auto simp: temporal_add_def split: if_splits)
    then show ?thesis using \<open>oper = ''+''\<close>
      by (cases v) (auto simp: add_to_def dest!: shift_Ok in_day_range)
  next
    assume "oper = ''-''"
    with res have "temporal_sub (dec E) l r = Some (Ok (VTime t))" by (simp add: apply_temporal_arithmetic_def)
    then show ?thesis
      by (cases l) (auto simp: temporal_sub_def checked_int_def bind_res_def ok_or_def
          dest!: shift_Ok in_day_range split: val.splits if_splits option.splits sum.splits)
  qed
next
  case None
  have "apply_binary E oper l r = (case (classify_numeric l, classify_numeric r) of
      (Some m, Some n) \<Rightarrow> apply_numeric (dec E) oper m n
    | _ \<Rightarrow> bind_res (concat_check oper l r) (\<lambda>_. apply_other E oper l r))"
    using assms(1) None by (auto simp: apply_binary_def Let_def split: option.split)
  then show ?thesis using assms(2) no_time_elsewhere(2) [OF assms(1), of E l r t]
    by (auto simp: no_time_elsewhere(1) no_time_elsewhere(1) [symmetric] bind_res_def split: option.splits sum.splits)
qed

lemma time_stays_in_day_witness:
  "apply_binary sample_env ''+'' (VInteger 1000) (VTime 500) = Ok (VTime 1500) \<and> (1500::int) \<in> {0 ..< MS_PER_DAY} \<and>
   apply_binary sample_env ''-'' (VTime 500) (VInteger 501) = Err ''Time arithmetic overflow''"
proof -
  have a: "apply_binary sample_env ''+'' (VInteger 1000) (VTime 500) = Ok (VTime 1500)" by code_simp
  have b: "apply_binary sample_env ''-'' (VTime 500) (VInteger 501) = Err ''Time arithmetic overflow''" by code_simp
  show ?thesis using a b time_stays_in_day [OF _ a] by simp
qed


section \<open>Membership\<close>

definition member_matches :: "'d env \<Rightarrow> 'd val \<Rightarrow> 'd val \<Rightarrow> string + bool" where
  "member_matches E v m =
     (case m of
        VRange start fin \<Rightarrow>
          (case (value_ordering E v start, value_ordering E v fin) of
             (Ok lo, Ok hi) \<Rightarrow> Ok (lo \<noteq> Less \<and> hi \<noteq> Greater)
           | (Ok Less, _) \<Rightarrow> Ok False
           | (Ok _, Err e) \<Rightarrow> Err e
           | (Err e, _) \<Rightarrow> Err e)
      | _ \<Rightarrow> Ok (values_equal E v m))"

lemma in_members_Cons:
  "in_members E v (m # ms) =
     bind_res (member_matches E v m) (\<lambda>matched. if matched then Ok (VBoolean True) else in_members E v ms)"
  by (cases m) (auto simp: member_matches_def value_in_range_def bind_res_def split: sum.splits ordering.splits)

lemma apply_binary_in: "apply_binary E ''in'' v (VArray ms) = in_members E v ms"
  by (simp add: apply_binary_def concat_check_other apply_other_def Let_def)

text \<open>
  \<open>v in [m1, m2, ...]\<close> holds exactly when a member equals \<open>v\<close> or is a range with \<open>v\<close> between its
  bounds, both included, and no member before it makes the comparison fail; a failing comparison
  before the first match is the result.
\<close>

theorem in_operator_membership:
  "apply_binary E ''in'' v (VArray ms) =
     (case dropWhile (\<lambda>m. member_matches E v m = Ok False) ms of
        [] \<Rightarrow> Ok (VBoolean False)
      | m # _ \<Rightarrow> (case member_matches E v m of Inl e \<Rightarrow> Err e | Inr _ \<Rightarrow> Ok (VBoolean True)))"
proof (unfold apply_binary_in, induction ms)
  case (Cons m ms)
  then show ?case by (cases "member_matches E v m") (auto simp: in_members_Cons simp del: in_members.simps(2))
qed simp

text \<open>A whole Decimal written with a fraction is refused as an offset: its text is parsed as an integer.\<close>

lemma whole_offset_refuses_scale:
  "dec_is_whole sample_decimal (50, 1) \<and> dec_num sample_decimal (50, 1) = 5 \<and>
   whole_offset sample_decimal (VDecimal (5, 0)) = Ok 5 \<and>
   whole_offset sample_decimal (VDecimal (50, 1)) = Err ''Date/Time arithmetic offset is out of range''"
proof -
  have "dec_is_whole sample_decimal (50, 1)" by code_simp
  moreover have "whole_offset sample_decimal (VDecimal (5, 0)) = Ok 5" by code_simp
  moreover have "whole_offset sample_decimal (VDecimal (50, 1)) = Err ''Date/Time arithmetic offset is out of range''"
    by code_simp
  ultimately show ?thesis by simp
qed

end
