(* ===== verification/Date_Builtins.thy ===== *)
theory Date_Builtins
  imports Value_Ops Calendar
begin

text \<open>
  The Date, Time and DateTime builtins and the date formula language of \<open>CalcDate\<close>
  (\<^verbatim>\<open>interpreter/dispatch/datetime.rs\<close>).  The wall clock is an argument: \<open>now\<close> is what
  \<open>unix_now_ms\<close> returns.  The session keeps one piece of state, the optional work date of the
  dispatch context.

  \<open>calc_date\<close> does its arithmetic with the plain operators of \<open>i64\<close>; the model uses \<^typ>\<open>int\<close>, which is
  the code's result as long as no intermediate value leaves 64 bits.
\<close>

section \<open>The clock and the work date\<close>

definition clock_today :: "int \<Rightarrow> int" where
  "clock_today now = tdiv now MS_PER_DAY + AL_EPOCH_TO_UNIX_DAYS"

definition clock_time :: "int \<Rightarrow> int" where
  "clock_time now = now mod MS_PER_DAY"

definition clock_current_datetime :: "int \<Rightarrow> int" where
  "clock_current_datetime now = now + AL_EPOCH_TO_UNIX_DAYS * MS_PER_DAY"

definition current_work_date :: "int option \<Rightarrow> int \<Rightarrow> int" where
  "current_work_date work_date now = (case work_date of Some d \<Rightarrow> d | None \<Rightarrow> clock_today now)"

definition builtin_workdate :: "'d val list \<Rightarrow> int option \<Rightarrow> int \<Rightarrow> (string + 'd val) \<times> int option" where
  "builtin_workdate args work_date now =
     (case args of
        [] \<Rightarrow> (Ok (VDate (current_work_date work_date now)), work_date)
      | [v] \<Rightarrow>
          (case v of
             VDate d \<Rightarrow> (Ok (VDate d), Some d)
           | _ \<Rightarrow> (Err (''WorkDate expects a Date, got '' @ type_name v), work_date))
      | _ \<Rightarrow> (Err ''WorkDate expects at most 1 argument'', work_date))"


section \<open>Conversions\<close>

definition builtin_createdatetime :: "'d val list \<Rightarrow> string + 'd val" where
  "builtin_createdatetime args =
     (case args of
        [a, b] \<Rightarrow>
          (case (a, b) of
             (VDate d, VTime t) \<Rightarrow>
               (case Option.bind (checked_mul d MS_PER_DAY) (\<lambda>ms. checked_add ms t) of
                  Some dt \<Rightarrow> Ok (VDateTime dt)
                | None \<Rightarrow> Err ''CreateDateTime: datetime overflow'')
           | _ \<Rightarrow> Err (''CreateDateTime expects (Date, Time), got ('' @ type_name a @ '', '' @ type_name b @ '')''))
      | _ \<Rightarrow> Err ''CreateDateTime expects exactly 2 arguments'')"

definition builtin_dt2date :: "'d val list \<Rightarrow> string + 'd val" where
  "builtin_dt2date args =
     (case args of [VDateTime dt] \<Rightarrow> Ok (VDate (dt div MS_PER_DAY)) | _ \<Rightarrow> Err ''DT2Date expects exactly 1 DateTime argument'')"

definition builtin_dt2time :: "'d val list \<Rightarrow> string + 'd val" where
  "builtin_dt2time args =
     (case args of [VDateTime dt] \<Rightarrow> Ok (VTime (dt mod MS_PER_DAY)) | _ \<Rightarrow> Err ''DT2Time expects exactly 1 DateTime argument'')"

definition date_and_what :: "'d val list \<Rightarrow> (int \<times> int) option" where
  "date_and_what args = (case args of [VDate d, VInteger w] \<Rightarrow> Some (d, w) | _ \<Rightarrow> None)"

definition builtin_date2dmy :: "'d val list \<Rightarrow> string + 'd val" where
  "builtin_date2dmy args =
     (case date_and_what args of
        None \<Rightarrow> Err ''Date2DMY expects (Date, Integer)''
      | Some (date, what) \<Rightarrow>
          if date = 0 then Err ''Date2DMY is undefined for 0D''
          else let (year, month, day) = ymd_from_al_days date in
            if what = 1 then Ok (VInteger day)
            else if what = 2 then Ok (VInteger month)
            else if what = 3 then Ok (VInteger year)
            else Err (''Date2DMY: the what argument must be 1 (day), 2 (month) or 3 (year), got '' @ show_int what))"

definition integer_arg :: "'d val \<Rightarrow> string + int" where
  "integer_arg arg =
     (case arg of VInteger n \<Rightarrow> Ok n | _ \<Rightarrow> Err (''DMY2Date expects Integer arguments, got '' @ type_name arg))"

definition builtin_dmy2date :: "'d val list \<Rightarrow> int option \<Rightarrow> int \<Rightarrow> string + 'd val" where
  "builtin_dmy2date args work_date now =
     (if args = [] \<or> length args > 3 then Err ''DMY2Date expects 1 to 3 arguments''
      else bind_res (collect_res (map integer_arg args)) (\<lambda>parts.
        let (work_year, work_month, _) = ymd_from_al_days (current_work_date work_date now);
            day = parts ! 0;
            month = (if length args \<ge> 2 then parts ! 1 else work_month);
            year = (if length args \<ge> 3 then parts ! 2 else work_year) in
        case checked_al_date year month day of
          Some date \<Rightarrow> Ok (VDate date)
        | None \<Rightarrow> Err (''DMY2Date: '' @ show_int day @ ''/'' @ show_int month @ ''/'' @ show_int year @ '' is not a valid date'')))"

definition builtin_date2dwy :: "'d val list \<Rightarrow> string + 'd val" where
  "builtin_date2dwy args =
     (case date_and_what args of
        None \<Rightarrow> Err ''Date2DWY expects (Date, Integer)''
      | Some (date, what) \<Rightarrow>
          if date = 0 then Err ''Date2DWY is undefined for 0D''
          else let weekday = weekday_of date; (week, year) = iso_week date in
            if what = 1 then Ok (VInteger weekday)
            else if what = 2 then Ok (VInteger week)
            else if what = 3 then Ok (VInteger year)
            else Err (''Date2DWY: the what argument must be 1, 2 or 3, got '' @ show_int what))"


section \<open>Date formulas\<close>

definition days_in_month_of :: "int \<Rightarrow> int \<Rightarrow> int" where
  "days_in_month_of year month =
     (let (next_year, next_month) = (if month = 12 then (year + 1, 1) else (year, month + 1)) in
      al_days_from_ymd next_year next_month 1 - al_days_from_ymd year month 1)"

definition add_months :: "int \<Rightarrow> int \<Rightarrow> int" where
  "add_months date months =
     (let (year, month, day) = ymd_from_al_days date;
          index = year * 12 + (month - 1) + months;
          (year, month) = (index div 12, index mod 12 + 1) in
      al_days_from_ymd year month (min day (days_in_month_of year month)))"

definition formula_text :: "string \<Rightarrow> string" where
  "formula_text formula =
     to_ascii_uppercase (filter (\<lambda>c. \<not> is_whitespace c)
       (rev (dropWhile (\<lambda>c. c = CHR ''>'') (rev (dropWhile (\<lambda>c. c = CHR ''<'') (trim formula))))))"

definition single_quoted :: "string \<Rightarrow> string" where
  "single_quoted s = [CHR 0x27] @ s @ [CHR 0x27]"

definition current_period :: "string \<Rightarrow> bool \<Rightarrow> char \<Rightarrow> int \<Rightarrow> string + int" where
  "current_period formula forward period date =
     (let (year, month, _) = ymd_from_al_days date in
      if period = CHR ''D'' then Ok date
      else if period = CHR ''W'' then
        (let weekday = weekday_of date in Ok (if forward then date + (7 - weekday) else date - (weekday - 1)))
      else if period = CHR ''M'' then
        Ok (if forward then al_days_from_ymd year month (days_in_month_of year month) else al_days_from_ymd year month 1)
      else if period = CHR ''Q'' then
        (let first = tdiv (month - 1) 3 * 3 + 1; final = first + 2 in
         Ok (if forward then al_days_from_ymd year final (days_in_month_of year final) else al_days_from_ymd year first 1))
      else if period = CHR ''Y'' then
        Ok (if forward then al_days_from_ymd year 12 31 else al_days_from_ymd year 1 1)
      else Err (''unsupported period '' @ single_quoted (''C'' @ [period]) @ '' in '' @ single_quoted formula))"

definition shifted :: "string \<Rightarrow> int \<Rightarrow> char \<Rightarrow> int \<Rightarrow> string + int" where
  "shifted formula count period date =
     (if period = CHR ''D'' then Ok (date + count)
      else if period = CHR ''W'' then Ok (date + 7 * count)
      else if period = CHR ''M'' then Ok (add_months date count)
      else if period = CHR ''Q'' then Ok (add_months date (3 * count))
      else if period = CHR ''Y'' then Ok (add_months date (12 * count))
      else Err (''unsupported unit '' @ single_quoted [period] @ '' in '' @ single_quoted formula))"

text \<open>One pass of the loop reads a sign, the letter \<open>C\<close>, a count and a unit.\<close>

definition read_sign :: "string \<Rightarrow> int \<times> string" where
  "read_sign chars =
     (case chars of
        c # cs \<Rightarrow> if c = CHR ''+'' then (1, cs) else if c = CHR ''-'' then (- 1, cs) else (1, chars)
      | [] \<Rightarrow> (1, chars))"

definition read_current :: "string \<Rightarrow> bool \<times> string" where
  "read_current chars = (case chars of c # cs \<Rightarrow> if c = CHR ''C'' then (True, cs) else (False, chars) | [] \<Rightarrow> (False, chars))"

definition read_count :: "string \<Rightarrow> int" where
  "read_count digits = (if digits = [] then 1 else case parse_i64 digits of Some n \<Rightarrow> n | None \<Rightarrow> 0)"

lemma read_sign_length: "length (snd (read_sign cs)) \<le> length cs"
  by (auto simp: read_sign_def split: list.split)

lemma read_current_length: "length (snd (read_current cs)) \<le> length cs"
  by (auto simp: read_current_def split: list.split)

function calc_loop :: "string \<Rightarrow> string \<Rightarrow> int \<Rightarrow> string + int" where
  "calc_loop formula chars date =
     (if chars = [] then Ok date
      else let (sign, after_sign) = read_sign chars;
               (current, after_c) = read_current after_sign;
               count = read_count (takeWhile is_ascii_digit after_c) in
        case dropWhile is_ascii_digit after_c of
          [] \<Rightarrow> Err (single_quoted formula @ '' ends without a unit'')
        | period # rest \<Rightarrow>
            bind_res (if current then current_period formula (sign > 0) period date
                      else shifted formula (sign * count) period date)
              (\<lambda>date. calc_loop formula rest date))"
  by pat_completeness auto
termination
proof (relation "measure (\<lambda>(_, chars, _). length chars)", goal_cases)
  case (2 formula chars date sgn_rest sign after_sign cur_rest current after_c count period rest date')
  have "length after_c \<le> length chars"
    using read_sign_length [of chars] read_current_length [of after_sign] 2(2-5) by (metis le_trans snd_conv)
  moreover have "length rest < length after_c"
    using 2(7) length_dropWhile_le [of is_ascii_digit after_c] by simp
  ultimately show ?case by simp
qed simp

declare calc_loop.simps [simp del]

definition calc_date :: "string \<Rightarrow> int \<Rightarrow> string + int" where
  "calc_date formula date =
     (let text = formula_text formula in
      if text = [] then Err (single_quoted formula @ '' is not a date formula'') else calc_loop formula text date)"

definition formula_and_date :: "'d val list \<Rightarrow> int \<Rightarrow> (string \<times> int) option" where
  "formula_and_date args now =
     (case args of
        [f] \<Rightarrow> (case as_text f of Some s \<Rightarrow> Some (s, clock_today now) | None \<Rightarrow> None)
      | [f, VDate d] \<Rightarrow> (case as_text f of Some s \<Rightarrow> Some (s, d) | None \<Rightarrow> None)
      | _ \<Rightarrow> None)"

definition builtin_calcdate :: "'d val list \<Rightarrow> int \<Rightarrow> string + 'd val" where
  "builtin_calcdate args now =
     (case formula_and_date args now of
        None \<Rightarrow> Err ''CalcDate expects (Text[, Date])''
      | Some (formula, date) \<Rightarrow>
          if date = 0 then Err ''CalcDate is undefined for 0D''
          else (case calc_date formula date of
                  Inr result \<Rightarrow> Ok (VDate result)
                | Inl error \<Rightarrow> Err (''CalcDate: '' @ error)))"

section \<open>Round trips of the conversions\<close>

text \<open>
  the date conversions are inverse to each other.  A date built by \<open>DMY2Date\<close> is taken apart by
  \<open>Date2DMY\<close> into the same day, month and year, unless it is the undefined date; every DateTime is
  \<open>CreateDateTime\<close> of its \<open>DT2Date\<close> and \<open>DT2Time\<close>; and the parts of a created DateTime are the given
  ones when the time lies within the day.
\<close>

theorem date_builtins_round_trip:
  "(builtin_dmy2date [VInteger d, VInteger m, VInteger y] work_date now = Ok (VDate n :: 'd val) \<and> n \<noteq> 0 \<longrightarrow>
      builtin_date2dmy [VDate n, VInteger 1] = Ok (VInteger d :: 'd val) \<and>
      builtin_date2dmy [VDate n, VInteger 2] = Ok (VInteger m :: 'd val) \<and>
      builtin_date2dmy [VDate n, VInteger 3] = Ok (VInteger y :: 'd val)) \<and>
   (in_i64 dt \<and> MS_PER_DAY - 2 ^ 63 \<le> dt \<longrightarrow> (\<exists>day time. builtin_dt2date [VDateTime dt] = Ok day \<and> builtin_dt2time [VDateTime dt] = Ok time \<and>
      builtin_createdatetime [day, time] = Ok (VDateTime dt :: 'd val))) \<and>
   (0 \<le> t \<and> t < MS_PER_DAY \<and> builtin_createdatetime [VDate k, VTime t] = Ok (VDateTime dt' :: 'd val) \<longrightarrow>
      builtin_dt2date [VDateTime dt'] = Ok (VDate k :: 'd val) \<and> builtin_dt2time [VDateTime dt'] = Ok (VTime t :: 'd val))"
proof (intro conjI impI)
  assume a: "builtin_dmy2date [VInteger d, VInteger m, VInteger y] work_date now = Ok (VDate n) \<and> n \<noteq> 0"
  then have "checked_al_date y m d = Some n"
    by (auto simp: builtin_dmy2date_def integer_arg_def split: option.splits)
  then have "ymd_from_al_days n = (y, m, d)" by (auto simp: checked_al_date_def ymd_of_al_days valid_civil_def split: if_splits)
  with a show "builtin_date2dmy [VDate n, VInteger 1] = Ok (VInteger d)"
    "builtin_date2dmy [VDate n, VInteger 2] = Ok (VInteger m)"
    "builtin_date2dmy [VDate n, VInteger 3] = Ok (VInteger y)"
    by (simp_all add: builtin_date2dmy_def date_and_what_def)
next
  assume dt: "in_i64 dt \<and> MS_PER_DAY - 2 ^ 63 \<le> dt"
  have split: "dt div MS_PER_DAY * MS_PER_DAY + dt mod MS_PER_DAY = dt" by simp
  moreover have "0 \<le> dt mod MS_PER_DAY" "dt mod MS_PER_DAY < MS_PER_DAY" by (simp_all add: MS_PER_DAY_def)
  ultimately have "in_i64 (dt div MS_PER_DAY * MS_PER_DAY)" using dt unfolding int_range_defs by linarith
  with dt split show "\<exists>day time. builtin_dt2date [VDateTime dt] = Ok day \<and> builtin_dt2time [VDateTime dt] = Ok time \<and>
      builtin_createdatetime [day, time] = Ok (VDateTime dt)"
    by (simp add: builtin_dt2date_def builtin_dt2time_def builtin_createdatetime_def checked_defs)
next
  assume a: "0 \<le> t \<and> t < MS_PER_DAY \<and> builtin_createdatetime [VDate k, VTime t] = Ok (VDateTime dt')"
  then have "dt' = k * MS_PER_DAY + t"
    by (auto simp: builtin_createdatetime_def checked_defs split: option.splits bind_splits if_splits)
  moreover have "(k * MS_PER_DAY + t) div MS_PER_DAY = k" "(k * MS_PER_DAY + t) mod MS_PER_DAY = t"
    using a by (simp_all add: MS_PER_DAY_def)
  ultimately show "builtin_dt2date [VDateTime dt'] = Ok (VDate k)" "builtin_dt2time [VDateTime dt'] = Ok (VTime t)"
    by (simp_all add: builtin_dt2date_def builtin_dt2time_def)
qed

lemma date_builtins_round_trip_witness:
  "builtin_dmy2date [VInteger 29, VInteger 2, VInteger 2024] None 0 = Ok (VDate 738944 :: mantissa val) \<and>
   builtin_date2dmy [VDate 738944, VInteger 1] = Ok (VInteger 29 :: mantissa val) \<and>
   builtin_createdatetime [VDate 738944, VTime 1] = Ok (VDateTime 63844761600001 :: mantissa val) \<and>
   builtin_dt2date [VDateTime 63844761600001] = Ok (VDate 738944 :: mantissa val)"
proof -
  have a: "builtin_dmy2date [VInteger 29, VInteger 2, VInteger 2024] None 0 = Ok (VDate 738944 :: mantissa val)"
    by code_simp
  have b: "builtin_createdatetime [VDate 738944, VTime 1] = Ok (VDateTime 63844761600001 :: mantissa val)"
    by code_simp
  show ?thesis
    using date_builtins_round_trip [where 'd = mantissa and d = 29 and m = 2 and y = 2024 and work_date = None and now = 0
        and n = 738944 and dt = 0 and t = 1 and k = 738944 and dt' = 63844761600001] a b
    by (simp add: MS_PER_DAY_def)
qed

section \<open>What a date formula computes\<close>

lemma days_in_month_of: "1 \<le> m \<Longrightarrow> m \<le> 12 \<Longrightarrow> days_in_month_of y m = max_day y m"
  using days_in_month [of m y] by (simp add: days_in_month_of_def split: if_splits)

lemma max_day_pos: "28 \<le> max_day y m"
  by (simp add: max_day_def)

lemma add_months_ymd:
  assumes "ymd_from_al_days n = (y, m, d)"
  shows "ymd_from_al_days (add_months n k) =
    (let i = y * 12 + (m - 1) + k; y' = i div 12; m' = i mod 12 + 1 in (y', m', min d (max_day y' m')))"
proof -
  define i where "i = y * 12 + (m - 1) + k"
  have m: "1 \<le> i mod 12 + 1" "i mod 12 + 1 \<le> 12" by simp_all
  have "valid_civil (i div 12) (i mod 12 + 1) (min d (max_day (i div 12) (i mod 12 + 1)))"
    using assms m max_day_pos [of "i div 12" "i mod 12 + 1"] by (auto simp: ymd_of_al_days valid_civil_def)
  then show ?thesis
    using m by (simp add: add_months_def assms i_def [symmetric] days_in_month_of Let_def ymd_of_al_days)
qed

text \<open>The text of a formula without blanks, brackets and small letters is the formula itself.\<close>

definition plain_formula :: "string \<Rightarrow> bool" where
  "plain_formula s = list_all (\<lambda>c. \<not> is_whitespace c \<and> c \<noteq> CHR ''<'' \<and> c \<noteq> CHR ''>'' \<and> ascii_upper_char c = c) s"

lemma dropWhile_none: "list_all (\<lambda>c. \<not> P c) s \<Longrightarrow> dropWhile P s = s"
  by (cases s) auto

lemma formula_text_plain:
  assumes "plain_formula s"
  shows "formula_text s = s" "formula_text (''<'' @ s @ ''>'') = s"
proof -
  have P: "list_all (\<lambda>c. \<not> is_whitespace c) s" "list_all (\<lambda>c. c \<noteq> CHR ''<'') s" "list_all (\<lambda>c. c \<noteq> CHR ''>'') s"
    and U: "map ascii_upper_char s = s" "filter (\<lambda>c. \<not> is_whitespace c) s = s"
    using assms by (auto simp: plain_formula_def list_all_iff map_idI)
  have R: "list_all Q (rev s) \<longleftrightarrow> list_all Q s" for Q by (simp add: list_all_iff)
  have "trim s = s" "trim (''<'' @ s @ ''>'') = ''<'' @ s @ ''>''"
    using P(1) by (simp_all add: trim_def trim_start_def trim_end_def dropWhile_none R is_whitespace_def)
  then show "formula_text s = s" "formula_text (''<'' @ s @ ''>'') = s"
    using P U by (simp_all add: formula_text_def to_ascii_uppercase_def dropWhile_none R dropWhile_append1)
qed

lemma calc_date_plain: "plain_formula s \<Longrightarrow> s \<noteq> [] \<Longrightarrow> calc_date s n = calc_loop s s n"
  by (simp add: calc_date_def formula_text_plain)

definition sign_text :: "int \<Rightarrow> string" where
  "sign_text s = (if s < 0 then ''-'' else '''')"

lemma digit_not_sign: "is_ascii_digit c \<Longrightarrow> c \<noteq> CHR ''+'' \<and> c \<noteq> CHR ''-'' \<and> c \<noteq> CHR ''C''"
  by (auto simp: is_ascii_digit_def)

lemma takeWhile_digits:
  assumes "list_all P ds" "\<not> P u"
  shows "takeWhile P (ds @ u # rest) = ds" "dropWhile P (ds @ u # rest) = u # rest"
  using assms by (induction ds) auto

lemma calc_loop_shift:
  assumes "s \<in> {1, - 1}" "list_all is_ascii_digit ds" "ds \<noteq> []" "\<not> is_ascii_digit u"
  shows "calc_loop f (sign_text s @ ds @ u # rest) n =
    bind_res (shifted f (s * read_count ds) u n) (calc_loop f rest)"
proof -
  obtain c cs where ds: "ds = c # cs" using assms(3) by (cases ds) auto
  have c: "c \<noteq> CHR ''+''" "c \<noteq> CHR ''-''" "c \<noteq> CHR ''C''" using assms(2) digit_not_sign by (auto simp: ds)
  have "read_sign (sign_text s @ ds @ u # rest) = (s, ds @ u # rest)"
    using assms(1) c by (auto simp: sign_text_def read_sign_def ds)
  moreover have "read_current (ds @ u # rest) = (False, ds @ u # rest)"
    using c by (simp add: read_current_def ds)
  ultimately show ?thesis
    by (subst calc_loop.simps) (simp add: takeWhile_digits [OF assms(2,4)])
qed

lemma calc_loop_current:
  assumes "s \<in> {1, - 1}" "\<not> is_ascii_digit u"
  shows "calc_loop f (sign_text s @ CHR ''C'' # u # rest) n =
    bind_res (current_period f (s > 0) u n) (calc_loop f rest)"
proof -
  have "read_sign (sign_text s @ CHR ''C'' # u # rest) = (s, CHR ''C'' # u # rest)"
    using assms(1) by (auto simp: sign_text_def read_sign_def)
  moreover have "read_current (CHR ''C'' # u # rest) = (True, u # rest)" by (simp add: read_current_def)
  ultimately show ?thesis using assms(2) by (subst calc_loop.simps) simp
qed

lemma calc_loop_done [simp]: "calc_loop f [] = Ok"
  by (rule ext) (simp add: calc_loop.simps)

lemma bind_Ok [simp]: "bind_res r Ok = r"
  by (cases r) auto

lemma show_nat_plain: "plain_formula (show_nat k)"
proof -
  have "plain_formula s" if "list_all is_ascii_digit s" for s
    using that by (induction s)
      (auto simp: plain_formula_def is_ascii_digit_def is_whitespace_def ascii_upper_char_def)
  then show ?thesis using show_nat_digits by blast
qed

lemma plain_append [simp]: "plain_formula (s @ t) \<longleftrightarrow> plain_formula s \<and> plain_formula t"
  by (simp add: plain_formula_def)

lemma read_count_show: "int k \<le> i64_max \<Longrightarrow> read_count (show_nat k) = int k"
  using parse_show_i64 [of "int k"] by (simp add: read_count_def show_int_def int_range_defs)

lemma calc_date_shift:
  assumes "s \<in> {1, - 1}" "int k \<le> i64_max" "u \<in> {CHR ''D'', CHR ''W'', CHR ''M'', CHR ''Q'', CHR ''Y''}"
  shows "calc_date (sign_text s @ show_nat k @ [u]) n = shifted (sign_text s @ show_nat k @ [u]) (s * int k) u n"
proof -
  have "plain_formula (sign_text s)" by (simp add: sign_text_def plain_formula_def is_whitespace_def ascii_upper_char_def)
  moreover have "plain_formula [u]" and u: "\<not> is_ascii_digit u"
    using assms(3) by (auto simp: plain_formula_def is_whitespace_def ascii_upper_char_def is_ascii_digit_def)
  ultimately have "calc_date (sign_text s @ show_nat k @ [u]) n =
      calc_loop (sign_text s @ show_nat k @ [u]) (sign_text s @ show_nat k @ [u]) n"
    by (intro calc_date_plain) (simp_all add: show_nat_plain)
  then show ?thesis
    using calc_loop_shift [OF assms(1) show_nat_digits [of k] show_nat_nonempty u] read_count_show [OF assms(2)] by simp
qed

text \<open>
  A count and a unit shift a date as documented.  Days and weeks are added to the day count.
  Months, quarters and years shift the month of the civil date by exactly that number of months and
  keep the day, lowered to the last day of the month reached.
\<close>

theorem calc_date_shifts:
  assumes "ymd_from_al_days n = (y, m, d)" "s \<in> {1, - 1}" "int k \<le> i64_max"
  shows "calc_date (sign_text s @ show_nat k @ ''D'') n = Ok (n + s * int k) \<and>
    calc_date (sign_text s @ show_nat k @ ''W'') n = Ok (n + 7 * (s * int k)) \<and>
    (\<forall>(u, f) \<in> {(''M'', 1), (''Q'', 3), (''Y'', 12)}. \<exists>r y' m'.
       calc_date (sign_text s @ show_nat k @ u) n = Ok r \<and> 1 \<le> m' \<and> m' \<le> 12 \<and>
       y' * 12 + m' = y * 12 + m + f * (s * int k) \<and> ymd_from_al_days r = (y', m', min d (max_day y' m')))"
proof -
  have months: "\<exists>y' m'. 1 \<le> m' \<and> m' \<le> 12 \<and> y' * 12 + m' = y * 12 + m + j \<and>
      ymd_from_al_days (add_months n j) = (y', m', min d (max_day y' m'))" for j
  proof -
    define i where "i = y * 12 + (m - 1) + j"
    have "i div 12 * 12 + (i mod 12 + 1) = y * 12 + m + j" by (simp add: i_def)
    moreover have "1 \<le> i mod 12 + 1" "i mod 12 + 1 \<le> 12" by simp_all
    ultimately show ?thesis
      using add_months_ymd [OF assms(1), of j] unfolding i_def [symmetric] Let_def by blast
  qed
  have shift: "calc_date (sign_text s @ show_nat k @ [u]) n = shifted (sign_text s @ show_nat k @ [u]) (s * int k) u n"
    if "u \<in> {CHR ''D'', CHR ''W'', CHR ''M'', CHR ''Q'', CHR ''Y''}" for u
    using assms(2,3) that by (rule calc_date_shift)
  show ?thesis
    using months [of "s * int k"] months [of "3 * (s * int k)"] months [of "12 * (s * int k)"]
    by (simp add: shift shifted_def)
qed

lemma calc_date_shifts_witness:
  "ymd_from_al_days 738915 = (2024, 1, 31) \<and> calc_date (sign_text 1 @ show_nat 1 @ ''D'') 738915 = Ok 738916 \<and>
   (\<exists>r. calc_date (sign_text 1 @ show_nat 1 @ ''M'') 738915 = Ok r \<and> ymd_from_al_days r = (2024, 2, 29))"
proof -
  have a: "ymd_from_al_days 738915 = (2024, 1, 31)" by code_simp
  have l: "max_day 2024 2 = 29" by code_simp
  have "\<exists>r y' m'. calc_date (sign_text 1 @ show_nat 1 @ ''M'') 738915 = Ok r \<and> 1 \<le> m' \<and> m' \<le> 12 \<and>
       y' * 12 + m' = 2024 * 12 + 1 + (1::int) \<and> ymd_from_al_days r = (y', m', min 31 (max_day y' m'))"
    using calc_date_shifts [OF a, of 1 1] by (simp add: int_range_defs)
  then obtain r y' m' where r: "calc_date (sign_text 1 @ show_nat 1 @ ''M'') 738915 = Ok r" "1 \<le> m'" "m' \<le> 12"
      "y' * 12 + m' = 24290" "ymd_from_al_days r = (y', m', min 31 (max_day y' m'))" by auto
  then have "y' = 2024" by presburger
  with r l have "m' = 2" "ymd_from_al_days r = (2024, 2, 29)" by simp_all
  with r a calc_date_shifts [OF a, of 1 1] show ?thesis by (auto simp: int_range_defs)
qed

text \<open>
  The current-period terms reach the boundaries of the period.  \<open>CW\<close> and \<open>-CW\<close> are the Sunday and
  the Monday of the week; \<open>CM\<close>, \<open>CQ\<close> and \<open>CY\<close> the last day of the month, quarter and year and their
  negations the first; and \<open><CM+1D>\<close> is the first of the next month, as the documentation says.
\<close>

theorem calc_date_periods:
  assumes "ymd_from_al_days n = (y, m, d)"
  shows "(\<exists>r. calc_date ''CW'' n = Ok r \<and> weekday_of r = 7 \<and> n \<le> r \<and> r \<le> n + 6) \<and>
    (\<exists>r. calc_date ''-CW'' n = Ok r \<and> weekday_of r = 1 \<and> n - 6 \<le> r \<and> r \<le> n) \<and>
    calc_date ''CM'' n = Ok (al_days_from_ymd y m (max_day y m)) \<and>
    calc_date ''-CM'' n = Ok (al_days_from_ymd y m 1) \<and>
    (\<exists>q \<in> {3, 6, 9, 12}. m \<le> q \<and> q \<le> m + 2 \<and> calc_date ''CQ'' n = Ok (al_days_from_ymd y q (max_day y q)) \<and>
       calc_date ''-CQ'' n = Ok (al_days_from_ymd y (q - 2) 1)) \<and>
    calc_date ''CY'' n = Ok (al_days_from_ymd y 12 31) \<and> calc_date ''-CY'' n = Ok (al_days_from_ymd y 1 1) \<and>
    calc_date ''<CM+1D>'' n = Ok (al_days_from_ymd (if m = 12 then y + 1 else y) (if m = 12 then 1 else m + 1) 1)"
proof -
  have m: "1 \<le> m" "m \<le> 12" using assms by (auto simp: ymd_of_al_days valid_civil_def)
  have cur: "calc_date (sign_text s @ CHR ''C'' # [u]) n = current_period (sign_text s @ CHR ''C'' # [u]) (s > 0) u n"
    if "s \<in> {1, - 1}" "u \<in> {CHR ''W'', CHR ''M'', CHR ''Q'', CHR ''Y''}" for s u
  proof -
    have "plain_formula (sign_text s @ CHR ''C'' # [u])" "\<not> is_ascii_digit u" using that
      by (auto simp: plain_formula_def sign_text_def is_whitespace_def ascii_upper_char_def is_ascii_digit_def)
    then show ?thesis using calc_loop_current [OF that(1)] by (simp add: calc_date_plain)
  qed
  note pos = cur [of 1, simplified sign_text_def, simplified] and neg = cur [of "- 1", simplified sign_text_def, simplified]
  define q where "q = (m - 1) div 3 * 3 + 3"
  have q: "q \<in> {3, 6, 9, 12} \<and> m \<le> q \<and> q \<le> m + 2" "tdiv (m - 1) 3 * 3 + 1 = q - 2"
    using m by (rule month_cases, simp_all add: q_def) (use m in \<open>simp add: q_def tdiv_nonneg\<close>)
  have q12: "1 \<le> q" "q \<le> 12" using q(1) by auto
  have bracket: "formula_text ''<CM+1D>'' = ''CM+1D''" by code_simp
  have "calc_loop f ''CM+1D'' n = bind_res (current_period f True (CHR ''M'') n) (calc_loop f ''+1D'')" for f
    using calc_loop_current [of 1 "CHR ''M''" f "''+1D''" n] by (simp add: sign_text_def is_ascii_digit_def)
  moreover have "calc_loop f ''+1D'' k = Ok (k + 1)" for f k
    by (subst calc_loop.simps) (simp add: read_sign_def read_current_def is_ascii_digit_def read_count_def
        parse_i64_def shifted_def digits_val_def digit_val_def checked_i64_def int_range_defs)
  ultimately have next_month: "calc_date ''<CM+1D>'' n = Ok (al_days_from_ymd y m (max_day y m) + 1)"
    using m by (simp add: calc_date_def bracket current_period_def assms days_in_month_of)
  have first: "al_days_from_ymd y m (max_day y m) + 1 = al_days_from_ymd y m 1 + max_day y m"
    using m by (simp add: al_days_closed)
  have wd: "1 \<le> weekday_of n" "weekday_of n \<le> 7" "weekday_of (n + (7 - weekday_of n)) = 7"
      "weekday_of (n - (weekday_of n - 1)) = 1"
  proof -
    have "n + (6 - n mod 7) = 6 + 7 * (n div 7)" using mult_div_mod_eq [of 7 n] by linarith
    then have "(n + (6 - n mod 7)) mod 7 = (6 + 7 * (n div 7)) mod 7" by (rule arg_cong)
    also have "\<dots> = 6" by (simp only: mod_mult_self2) simp
    finally have "(n + (6 - n mod 7)) mod 7 = 6" .
    then show "1 \<le> weekday_of n" "weekday_of n \<le> 7" "weekday_of (n + (7 - weekday_of n)) = 7"
        "weekday_of (n - (weekday_of n - 1)) = 1"
      by (simp_all add: weekday_alt)
  qed
  have week: "\<exists>r. calc_date ''CW'' n = Ok r \<and> weekday_of r = 7 \<and> n \<le> r \<and> r \<le> n + 6"
    "\<exists>r. calc_date ''-CW'' n = Ok r \<and> weekday_of r = 1 \<and> n - 6 \<le> r \<and> r \<le> n"
    using wd by (simp_all add: pos neg current_period_def assms)
  have quarter: "calc_date ''CQ'' n = Ok (al_days_from_ymd y q (max_day y q))"
    "calc_date ''-CQ'' n = Ok (al_days_from_ymd y (q - 2) 1)"
  proof -
    have "3 + tdiv (m - 1) 3 * 3 = q" using q(2) by simp
    with q12 show "calc_date ''CQ'' n = Ok (al_days_from_ymd y q (max_day y q))"
      "calc_date ''-CQ'' n = Ok (al_days_from_ymd y (q - 2) 1)"
      by (simp_all add: pos neg current_period_def assms days_in_month_of Let_def q(2))
  qed
  have month_year: "calc_date ''CM'' n = Ok (al_days_from_ymd y m (max_day y m))"
    "calc_date ''-CM'' n = Ok (al_days_from_ymd y m 1)"
    "calc_date ''CY'' n = Ok (al_days_from_ymd y 12 31)" "calc_date ''-CY'' n = Ok (al_days_from_ymd y 1 1)"
    using m by (simp_all add: pos neg current_period_def assms days_in_month_of)
  have "calc_date ''<CM+1D>'' n = Ok (al_days_from_ymd (if m = 12 then y + 1 else y) (if m = 12 then 1 else m + 1) 1)"
    using next_month first days_in_month [OF m, of y] by simp
  then show ?thesis using week quarter q(1) month_year by blast
qed

lemma calc_date_periods_witness:
  "ymd_from_al_days 738915 = (2024, 1, 31) \<and> calc_date ''CY'' 738915 = Ok (al_days_from_ymd 2024 12 31) \<and>
   calc_date ''<CM+1D>'' 738915 = Ok (al_days_from_ymd 2024 2 1)"
proof -
  have a: "ymd_from_al_days 738915 = (2024, 1, 31)" by code_simp
  with calc_date_periods [OF a] show ?thesis by simp
qed

text \<open>The first day of the calendar has the carrier of the undefined date.\<close>

lemma first_day_is_undefined:
  "builtin_dmy2date [VInteger 1, VInteger 1, VInteger 1] None 0 = Ok (VDate 0 :: mantissa val) \<and>
   builtin_date2dmy [VDate 0, VInteger 1] = (Err ''Date2DMY is undefined for 0D'' :: string + mantissa val)"
  by code_simp

end
