(* ===== verification/Text_Builtins.thy ===== *)
theory Text_Builtins
  imports Value_Ops
begin

text \<open>
  The Text and Code builtins (\<^verbatim>\<open>interpreter/dispatch/text.rs\<close>): length, substrings, search, padding,
  \<open>IncStr\<close> and \<open>Evaluate\<close>.  Positions count characters from 1.  \<open>str::find\<close> reports a byte offset, which the
  code turns into a character count; the model counts characters at once.
\<close>

section \<open>Substrings\<close>

definition text_arg1 :: "string \<Rightarrow> (string \<Rightarrow> 'd val) \<Rightarrow> (string \<Rightarrow> 'd val) \<Rightarrow> 'd val list \<Rightarrow> string + 'd val" where
  "text_arg1 name on_text on_code args =
     (case args of
        [v] \<Rightarrow>
          (case v of
             VText s \<Rightarrow> Ok (on_text s)
           | VCode s \<Rightarrow> Ok (on_code s)
           | _ \<Rightarrow> Err (name @ '' expects Text or Code, got '' @ type_name v))
      | _ \<Rightarrow> Err (name @ '' expects exactly 1 argument''))"

definition builtin_strlen :: "'d val list \<Rightarrow> string + 'd val" where
  "builtin_strlen = text_arg1 ''StrLen'' (\<lambda>s. VInteger (int (length s))) (\<lambda>s. VInteger (int (length s)))"

definition builtin_lowercase :: "'d val list \<Rightarrow> string + 'd val" where
  "builtin_lowercase = text_arg1 ''LowerCase'' (\<lambda>s. VText (to_lowercase s)) (\<lambda>s. VText (to_lowercase s))"

definition builtin_uppercase :: "'d val list \<Rightarrow> string + 'd val" where
  "builtin_uppercase = text_arg1 ''UpperCase'' (\<lambda>s. VText (to_uppercase s)) (\<lambda>s. VCode (to_uppercase s))"

definition builtin_maxstrlen :: "'d val list \<Rightarrow> string + 'd val" where
  "builtin_maxstrlen args =
     (case args of
        [v] \<Rightarrow>
          if as_text v \<noteq> None
          then Err ''MaxStrLen is unavailable because the interpreter does not retain declared text lengths''
          else Err (''MaxStrLen expects Text or Code, got '' @ type_name v)
      | _ \<Rightarrow> Err ''MaxStrLen expects exactly 1 argument'')"

text \<open>The arguments \<open>(Text, Integer[, any])\<close> of \<open>CopyStr\<close>, \<open>DelStr\<close> and \<open>PadStr\<close>.\<close>

definition text_int_args :: "'d val list \<Rightarrow> (string \<times> int \<times> 'd val option) option" where
  "text_int_args args =
     (case args of
        [s, VInteger n] \<Rightarrow> (case as_text s of Some t \<Rightarrow> Some (t, n, None) | None \<Rightarrow> None)
      | [s, VInteger n, third] \<Rightarrow> (case as_text s of Some t \<Rightarrow> Some (t, n, Some third) | None \<Rightarrow> None)
      | _ \<Rightarrow> None)"

definition copystr_len :: "string \<Rightarrow> 'd val option \<Rightarrow> string + nat" where
  "copystr_len s third =
     (case third of
        Some v \<Rightarrow>
          (case v of
             VInteger n \<Rightarrow> if n < 0 then Err (''CopyStr: len must be >= 0, got '' @ show_int n) else Ok (as_usize n)
           | _ \<Rightarrow> Err (''CopyStr: len must be Integer, got '' @ type_name v))
      | None \<Rightarrow> Ok (length s))"

definition builtin_copystr :: "'d val list \<Rightarrow> string + 'd val" where
  "builtin_copystr args =
     (case text_int_args args of
        None \<Rightarrow> Err ''CopyStr expects (Text, Integer[, Integer])''
      | Some (s, pos, third) \<Rightarrow>
          bind_res (copystr_len s third) (\<lambda>len.
            if pos \<le> 0 then Err ''CopyStr: position must be >= 1''
            else let pos = as_usize pos in
              if pos > length s then Ok (VText '''')
              else let start = pos - 1; fin = min (start + len) (length s) in
                Ok (VText (take (fin - start) (drop start s)))))"

definition builtin_delstr :: "'d val list \<Rightarrow> string + 'd val" where
  "builtin_delstr args =
     (case text_int_args args of
        None \<Rightarrow> Err ''DelStr expects (Text, Integer[, Integer])''
      | Some (s, pos, third) \<Rightarrow>
          if pos < 1 then Err ''DelStr: position must be >= 1''
          else
            let start = min (nat (pos - 1)) (length s) in
            bind_res
              (case third of
                 None \<Rightarrow> Ok (length s)
               | Some (VInteger len) \<Rightarrow>
                   if len \<ge> 0 then Ok (min (saturating_add start (nat len)) (length s))
                   else Err ''DelStr: length must be a non-negative Integer''
               | Some _ \<Rightarrow> Err ''DelStr: length must be a non-negative Integer'')
              (\<lambda>fin. let kept = take start s @ drop fin s in
                Ok (case args ! 0 of VCode _ \<Rightarrow> VCode kept | _ \<Rightarrow> VText kept)))"


section \<open>Search\<close>

fun find_sub :: "string \<Rightarrow> string \<Rightarrow> nat option" where
  "find_sub needle [] = (if needle = [] then Some 0 else None)"
| "find_sub needle (c # cs) =
     (if starts_with (c # cs) needle then Some 0 else map_option Suc (find_sub needle cs))"

definition position_of :: "string \<Rightarrow> 'd val list \<Rightarrow> string + 'd val" where
  "position_of name args =
     (case args of
        [a, b] \<Rightarrow>
          (case (as_text a, as_text b) of
             (Some s, Some needle) \<Rightarrow>
               if needle = [] then Ok (VInteger 0)
               else Ok (VInteger (case find_sub needle s of Some i \<Rightarrow> int i + 1 | None \<Rightarrow> 0))
           | _ \<Rightarrow> Err (name @ '' expects (Text, Text)''))
      | _ \<Rightarrow> Err (name @ '' expects (Text, Text)''))"

definition builtin_indexof :: "'d val list \<Rightarrow> string + 'd val" where
  "builtin_indexof = position_of ''IndexOf''"

definition builtin_strpos :: "'d val list \<Rightarrow> string + 'd val" where
  "builtin_strpos = position_of ''StrPos''"

definition text_or :: "string \<Rightarrow> string \<Rightarrow> 'd val option \<Rightarrow> string + string" where
  "text_or message dflt arg =
     (case arg of
        None \<Rightarrow> Ok dflt
      | Some v \<Rightarrow> (case as_text v of Some t \<Rightarrow> Ok t | None \<Rightarrow> Err (message @ type_name v)))"

definition arg_at :: "'d val list \<Rightarrow> nat \<Rightarrow> 'd val option" where
  "arg_at args i = (if i < length args then Some (args ! i) else None)"

definition builtin_delchr :: "'d val list \<Rightarrow> string + 'd val" where
  "builtin_delchr args =
     (if args = [] then Err ''DelChr expects 1 to 3 arguments''
      else bind_res (text_or ''DelChr expects Text, got '' '''' (arg_at args 0)) (\<lambda>s.
        if length args > 3 then Err ''DelChr expects 1 to 3 arguments''
        else bind_res (text_or ''DelChr: where must be Text, got '' ''<'' (arg_at args 1)) (\<lambda>where_text.
        bind_res (text_or ''DelChr: which must be Text, got '' '' '' (arg_at args 2)) (\<lambda>which.
        case filter (\<lambda>c. c \<notin> set ''<>='') where_text of
          bad # _ \<Rightarrow> Err (''DelChr: where must contain only '' @ [CHR 0x27, CHR ''<'', CHR 0x27] @ '', '' @
              [CHR 0x27, CHR ''>'', CHR 0x27] @ '' or '' @ [CHR 0x27, CHR ''='', CHR 0x27] @ '', got '' @
              [CHR 0x27, bad, CHR 0x27])
        | [] \<Rightarrow>
            let in_set = (\<lambda>c. c \<in> set which) in
            if CHR ''='' \<in> set where_text then Ok (VText (filter (\<lambda>c. \<not> in_set c) s))
            else
              let result = (if CHR ''<'' \<in> set where_text then dropWhile in_set s else s);
                  result = (if CHR ''>'' \<in> set where_text then rev (dropWhile in_set (rev result)) else result) in
              Ok (VText result)))))"

definition convert_char :: "string \<Rightarrow> string \<Rightarrow> char \<Rightarrow> char" where
  "convert_char from to c = (case map_of (zip from to) c of Some d \<Rightarrow> d | None \<Rightarrow> c)"

definition builtin_convertstr :: "'d val list \<Rightarrow> string + 'd val" where
  "builtin_convertstr args =
     (case map as_text args of
        [Some s, Some from, Some to] \<Rightarrow>
          if length from \<noteq> length to
          then Err ''ConvertStr: FromCharacters and ToCharacters must have the same length''
          else Ok (VText (map (convert_char from to) s))
      | _ \<Rightarrow> Err ''ConvertStr expects (Text, Text, Text)'')"


section \<open>Padding, selection and numbers\<close>

definition saturating_mul :: "nat \<Rightarrow> nat \<Rightarrow> nat" where
  "saturating_mul a b = min usize_max (a * b)"

definition pad_fill :: "'d val option \<Rightarrow> string + char" where
  "pad_fill third =
     (case third of
        None \<Rightarrow> Ok (CHR '' '')
      | Some v \<Rightarrow>
          (case as_text v of
             Some (c # _) \<Rightarrow> Ok c
           | Some [] \<Rightarrow> Err ''PadStr: fill character cannot be empty''
           | None \<Rightarrow> Err (''PadStr: fill character must be Text, got '' @ type_name v)))"

definition builtin_padstr :: "'d val list \<Rightarrow> string + 'd val" where
  "builtin_padstr args =
     (case text_int_args args of
        None \<Rightarrow> Err ''PadStr expects (Text, Integer[, Text])''
      | Some (s, len, third) \<Rightarrow>
          if len < 0 then Err ''PadStr: length must be >= 0''
          else bind_res (pad_fill third) (\<lambda>fill.
            let len = nat len; missing = len - length s;
                size = saturating_add (saturating_mul missing (len_utf8 fill)) (str_len s) in
            bind_res (check_text_size ''PadStr'' size) (\<lambda>_.
              if missing = 0 then Ok (VText (take len s)) else Ok (VText (s @ replicate missing fill)))))"

fun split_on :: "char \<Rightarrow> string \<Rightarrow> string list" where
  "split_on sep [] = [[]]"
| "split_on sep (c # cs) =
     (if c = sep then [] # split_on sep cs
      else case split_on sep cs of part # parts \<Rightarrow> (c # part) # parts | [] \<Rightarrow> [[c]])"

definition builtin_selectstr :: "'d val list \<Rightarrow> string + 'd val" where
  "builtin_selectstr args =
     (case args of
        [VInteger index, v] \<Rightarrow>
          (case as_text v of
             Some list \<Rightarrow>
               if index < 1 then Err ''SelectStr: index must be >= 1''
               else let parts = split_on (CHR '','') list; i = as_usize index - 1 in
                 if i < length parts then Ok (VText (parts ! i))
                 else Err (''SelectStr: index '' @ show_int index @ '' is beyond the number of elements in '' @
                        [CHR 0x27] @ list @ [CHR 0x27])
           | None \<Rightarrow> Err ''SelectStr expects (Integer, Text)'')
      | _ \<Rightarrow> Err ''SelectStr expects (Integer, Text)'')"

definition u64_max :: nat where "u64_max = 2 ^ 64 - 1"

definition builtin_incstr :: "'d val list \<Rightarrow> string + 'd val" where
  "builtin_incstr args =
     (case map as_text args of
        [Some s] \<Rightarrow>
          (let back = dropWhile (\<lambda>c. \<not> is_ascii_digit c) (rev s) in
           if back = [] then Ok (VText '''')
           else
             let after = rev (takeWhile (\<lambda>c. \<not> is_ascii_digit c) (rev s));
                 digits = rev (takeWhile is_ascii_digit back);
                 before = rev (dropWhile is_ascii_digit back);
                 number = digits_val digits in
             if number > u64_max \<or> number + 1 > u64_max
             then Err (''IncStr: number '' @ [CHR 0x27] @ digits @ [CHR 0x27] @ '' is out of range'')
             else let shown = show_nat (number + 1) in
               Ok (VText (before @ replicate (length digits - length shown) (CHR ''0'') @ shown @ after)))
      | _ \<Rightarrow> Err ''IncStr expects exactly 1 Text argument'')"

definition builtin_evaluate :: "'d decimal_ops \<Rightarrow> 'd val list \<Rightarrow> string + bool \<times> 'd val option" where
  "builtin_evaluate D args =
     (case args of
        [target, other] \<Rightarrow>
          (case as_text other of
             None \<Rightarrow> Err (''Evaluate expects Text as its second argument, got '' @ type_name other)
           | Some raw \<Rightarrow>
               let text = trim raw; number = filter (\<lambda>c. c \<noteq> CHR '','') text; low = to_ascii_lowercase text;
                   done = (\<lambda>parsed. Ok (parsed \<noteq> None, parsed)) in
               (case target of
                  VInteger _ \<Rightarrow> done (map_option VInteger (parse_i64 number))
                | VBigInteger _ \<Rightarrow>
                    done (map_option VBigInteger (parse_i64 (rev (dropWhile (\<lambda>c. c \<in> set ''lL'') (rev number)))))
                | VDecimal _ \<Rightarrow> done (map_option VDecimal (dec_parse D number))
                | VBoolean _ \<Rightarrow>
                    done (if low \<in> {''true'', ''yes'', ''1''} then Some (VBoolean True)
                          else if low \<in> {''false'', ''no'', ''0''} then Some (VBoolean False) else None)
                | VText _ \<Rightarrow> done (Some (VText raw))
                | VCode _ \<Rightarrow> done (Some (VCode (to_uppercase text)))
                | _ \<Rightarrow> Err (''Evaluate into '' @ type_name target @ '' is not supported by the local runtime'')))
      | _ \<Rightarrow> Err ''Evaluate expects (var Variable, Text)'')"

section \<open>What the substring builtins return\<close>

lemma starts_with_append: "starts_with s t \<longleftrightarrow> (\<exists>r. s = t @ r)"
  by (induction s t rule: starts_with.induct) auto

lemma find_sub_Some:
  "find_sub needle s = Some i \<Longrightarrow>
   (\<exists>r. s = take i s @ needle @ r) \<and> i + length needle \<le> length s \<and> (\<forall>j < i. \<forall>r. drop j s \<noteq> needle @ r)"
proof (induction needle s arbitrary: i rule: find_sub.induct)
  case (2 needle c cs)
  show ?case
  proof (cases "starts_with (c # cs) needle")
    case False
    then obtain k where k: "find_sub needle cs = Some k" "i = Suc k" using "2.prems" by auto
    then obtain r where r: "cs = take k cs @ needle @ r" "k + length needle \<le> length cs"
      "\<forall>j < k. \<forall>r. drop j cs \<noteq> needle @ r" using "2.IH" [OF False k(1)] by blast
    have "drop j (c # cs) \<noteq> needle @ q" if "j < i" for j q
      using that r(3) False k(2) by (cases j) (auto simp: starts_with_append)
    then show ?thesis using r(1,2) k(2) by auto
  next
    case True
    then obtain r where r: "c # cs = needle @ r" by (auto simp: starts_with_append)
    have "i = 0" using "2.prems" True by simp
    moreover have "length needle \<le> length (c # cs)" unfolding r by simp
    ultimately show ?thesis using r by auto
  qed
qed (auto split: if_splits)

lemma find_sub_None: "find_sub needle s = None \<longleftrightarrow> (\<nexists>p r. s = p @ needle @ r)"
proof (induction needle s rule: find_sub.induct)
  case (2 needle c cs)
  have "(\<exists>p r. c # cs = p @ needle @ r) \<longleftrightarrow> (\<exists>r. c # cs = needle @ r) \<or> (\<exists>p r. cs = p @ needle @ r)"
    by (metis append_Cons append_Nil append_eq_Cons_conv)
  then show ?case using 2 by (auto simp: starts_with_append)
qed auto

lemma text_int_args_simps [simp]:
  "text_int_args [VText s, VInteger n] = Some (s, n, None)"
  "text_int_args [VText s, VInteger n, v] = Some (s, n, Some v)"
  by (simp_all add: text_int_args_def)

text \<open>
  \<open>CopyStr\<close> and \<open>DelStr\<close> cut a text at the same places.  For every position from 1 and every
  length from 0 the text splits into three parts, \<open>CopyStr\<close> returns the middle and \<open>DelStr\<close> the
  other two; the middle starts at the position and has the length, as far as the text reaches.
\<close>

theorem copystr_delstr_split:
  assumes "1 \<le> pos" "0 \<le> len" "in_i64 pos" "in_i64 len" "int (length s) \<le> i64_max"
  shows "\<exists>before mid after. s = before @ mid @ after \<and>
    length before = min (nat (pos - 1)) (length s) \<and> length mid = min (nat len) (length s - nat (pos - 1)) \<and>
    builtin_copystr [VText s, VInteger pos, VInteger len] = Ok (VText mid :: 'd val) \<and>
    builtin_delstr [VText s, VInteger pos, VInteger len] = Ok (VText (before @ after) :: 'd val)"
proof (intro exI conjI)
  let ?i = "min (nat (pos - 1)) (length s)" and ?n = "nat len"
  show "s = take ?i s @ take ?n (drop ?i s) @ drop (?i + ?n) s"
    by (metis append_take_drop_id drop_drop add.commute)
  have usize: "as_usize pos = nat pos" "as_usize len = nat len" using assms by (simp_all add: as_usize_nonneg)
  have sat: "saturating_add ?i ?n = ?i + ?n"
    using assms by (simp add: saturating_add_def usize_max_def int_range_defs)
  show "builtin_copystr [VText s, VInteger pos, VInteger len] = Ok (VText (take ?n (drop ?i s)) :: 'd val)"
  proof (cases "nat pos \<le> length s")
    case True
    define j where "j = nat pos - 1"
    have j: "?i = j" "nat pos = Suc j" using True assms(1) by (simp_all add: nat_diff_distrib j_def)
    have "take (min (j + ?n) (length s) - j) (drop j s) = take ?n (drop j s)"
      by (simp add: min_def take_all)
    then show ?thesis
      using assms(1,2) usize True j by (simp add: builtin_copystr_def copystr_len_def Let_def)
  qed (use assms(1,2) usize in \<open>simp add: builtin_copystr_def copystr_len_def nat_diff_distrib\<close>)
  show "builtin_delstr [VText s, VInteger pos, VInteger len] = Ok (VText (take ?i s @ drop (?i + ?n) s) :: 'd val)"
    using assms(1,2) sat by (simp add: builtin_delstr_def Let_def min_def)
qed (auto simp: min_def)

lemma copystr_delstr_split_witness:
  "\<exists>before mid after. ''abcdef'' = before @ mid @ after \<and> length before = 1 \<and> length mid = 3 \<and>
    builtin_copystr [VText ''abcdef'', VInteger 2, VInteger 3] = Ok (VText mid :: mantissa val) \<and>
    builtin_delstr [VText ''abcdef'', VInteger 2, VInteger 3] = Ok (VText (before @ after) :: mantissa val)"
  using copystr_delstr_split [of 2 3 "''abcdef''", where 'd = mantissa] by (simp add: int_range_defs eval_nat_numeral)

text \<open>
  \<open>StrPos\<close> finds the first occurrence.  A result \<open>i\<close> above zero is a position where the text holds
  the substring, and no earlier position does; the result is zero exactly when the substring is
  empty or does not occur.  \<open>IndexOf\<close> returns the same.
\<close>

theorem strpos_first_occurrence:
  "\<exists>i. builtin_strpos [VText s, VText t] = Ok (VInteger i :: 'd val) \<and>
     builtin_indexof [VText s, VText t] = Ok (VInteger i :: 'd val) \<and>
     0 \<le> i \<and> i \<le> int (length s) \<and>
     (i = 0 \<longleftrightarrow> t = [] \<or> (\<nexists>p r. s = p @ t @ r)) \<and>
     (0 < i \<longrightarrow> (\<exists>r. s = take (nat i - 1) s @ t @ r) \<and> (\<forall>j < nat i - 1. \<forall>r. drop j s \<noteq> t @ r))"
proof -
  define i where "i = (if t = [] then 0 else case find_sub t s of Some k \<Rightarrow> int k + 1 | None \<Rightarrow> 0)"
  have "builtin_strpos [VText s, VText t] = Ok (VInteger i :: 'd val)"
    "builtin_indexof [VText s, VText t] = Ok (VInteger i :: 'd val)"
    by (simp_all add: builtin_strpos_def builtin_indexof_def position_of_def i_def)
  moreover have "0 \<le> i \<and> i \<le> int (length s) \<and> (i = 0 \<longleftrightarrow> t = [] \<or> (\<nexists>p r. s = p @ t @ r)) \<and>
     (0 < i \<longrightarrow> (\<exists>r. s = take (nat i - 1) s @ t @ r) \<and> (\<forall>j < nat i - 1. \<forall>r. drop j s \<noteq> t @ r))"
  proof (cases "t = [] \<or> find_sub t s = None")
    case True
    then show ?thesis using find_sub_None [of t s] by (auto simp: i_def)
  next
    case False
    then obtain k where k: "find_sub t s = Some k" by auto
    have "0 < length t" using False by simp
    moreover have "k + length t \<le> length s" using find_sub_Some [OF k] by blast
    ultimately have "k + 1 \<le> length s" by linarith
    moreover have "i = int k + 1" using False k by (simp add: i_def)
    moreover have "\<exists>p r. s = p @ t @ r" using find_sub_None [of t s] k by auto
    ultimately show ?thesis using find_sub_Some [OF k] False by (simp add: nat_add_distrib)
  qed
  ultimately show ?thesis by blast
qed

lemma strpos_first_occurrence_witness:
  "\<exists>i. builtin_strpos [VText ''banana'', VText ''an''] = Ok (VInteger i :: mantissa val) \<and> i = 2"
proof -
  have "builtin_strpos [VText ''banana'', VText ''an''] = Ok (VInteger 2 :: mantissa val)" by code_simp
  with strpos_first_occurrence [of "''banana''" "''an''", where 'd = mantissa] show ?thesis by auto
qed

section \<open>What \<open>IncStr\<close>, \<open>PadStr\<close> and \<open>SelectStr\<close> return\<close>

lemma digits_val_zeros: "digits_val (replicate n (CHR ''0'') @ s) = digits_val s"
  by (induction n) (simp_all add: digits_val_def digit_val_def)

lemma show_nat_length_mono: "n < 10 ^ k \<Longrightarrow> 0 < k \<Longrightarrow> length (show_nat n) \<le> k"
proof (induction n arbitrary: k rule: show_nat.induct)
  case (1 n)
  show ?case
  proof (cases "n < 10")
    case False
    then have "k \<noteq> 1" using "1.prems" by auto
    then obtain j where k: "k = Suc j" "0 < j" using "1.prems" by (cases k) auto
    then have "n div 10 < 10 ^ j" using "1.prems" by (simp add: div_less_iff_less_mult mult.commute)
    then show ?thesis using 1(1) [OF False _ k(2)] False by (subst show_nat.simps) (simp add: k)
  qed (use 1 in \<open>subst show_nat.simps, simp\<close>)
qed

lemma digits_val_bound: "list_all is_ascii_digit s \<Longrightarrow> digits_val s < 10 ^ length s"
proof (induction s rule: rev_induct)
  case (snoc c s)
  have "digit_val c \<le> 9" using snoc.prems by (auto simp: digit_val_def is_ascii_digit_def)
  then show ?case using snoc by (simp add: digits_val_snoc)
qed (simp add: digits_val_def)

lemma incstr_parts:
  assumes "list_all is_ascii_digit ds" "ds \<noteq> []" "list_all (\<lambda>c. \<not> is_ascii_digit c) after"
    and "before = [] \<or> \<not> is_ascii_digit (last before)"
  shows "takeWhile (\<lambda>c. \<not> is_ascii_digit c) (rev (before @ ds @ after)) = rev after"
    and "dropWhile (\<lambda>c. \<not> is_ascii_digit c) (rev (before @ ds @ after)) = rev ds @ rev before"
    and "takeWhile is_ascii_digit (rev ds @ rev before) = rev ds"
    and "dropWhile is_ascii_digit (rev ds @ rev before) = rev before"
proof -
  have R: "list_all P (rev xs) \<longleftrightarrow> list_all P xs" for P and xs :: string by (simp add: list_all_iff)
  obtain d ds' where ds: "rev ds = d # ds'" "is_ascii_digit d"
    using assms(1,2) R [of is_ascii_digit ds] by (cases "rev ds") auto
  have b: "takeWhile is_ascii_digit (rev before) = []" "dropWhile is_ascii_digit (rev before) = rev before"
    using assms(4) by (cases before rule: rev_cases; simp)+
  have a: "takeWhile P (xs @ ys) = xs @ takeWhile P ys" "dropWhile P (xs @ ys) = dropWhile P ys"
    if "list_all P xs" for P and xs ys :: string using that by (induction xs) auto
  show "takeWhile (\<lambda>c. \<not> is_ascii_digit c) (rev (before @ ds @ after)) = rev after"
    "dropWhile (\<lambda>c. \<not> is_ascii_digit c) (rev (before @ ds @ after)) = rev ds @ rev before"
    using a [of "\<lambda>c. \<not> is_ascii_digit c" "rev after"] assms(3) ds by (simp_all add: R)
  show "takeWhile is_ascii_digit (rev ds @ rev before) = rev ds"
    "dropWhile is_ascii_digit (rev ds @ rev before) = rev before"
    using a [of is_ascii_digit "rev ds"] assms(1) b by (simp_all add: R)
qed

text \<open>
  \<open>IncStr\<close> increments the last number of a text.  With the text split before and after its last
  run of digits, only that run changes; it is read as a number, one larger, and keeps its width unless
  the number outgrows it.  A text without digits gives the empty text, a number beyond 64 bits an error.
\<close>

theorem incstr_increments:
  assumes "list_all is_ascii_digit ds" "ds \<noteq> []" "list_all (\<lambda>c. \<not> is_ascii_digit c) after"
    and "before = [] \<or> \<not> is_ascii_digit (last before)"
  shows "(if digits_val ds < u64_max
      then \<exists>ds'. builtin_incstr [VText (before @ ds @ after)] = Ok (VText (before @ ds' @ after) :: 'd val) \<and>
        list_all is_ascii_digit ds' \<and> digits_val ds' = digits_val ds + 1 \<and>
        length ds' = (if digits_val ds + 1 < 10 ^ length ds then length ds else length (show_nat (digits_val ds + 1)))
      else builtin_incstr [VText (before @ ds @ after)] =
        (Err (''IncStr: number '' @ [CHR 0x27] @ ds @ [CHR 0x27] @ '' is out of range'') :: string + 'd val)) \<and>
    builtin_incstr [VText after] = Ok (VText '''' :: 'd val)"
proof -
  note parts = incstr_parts [OF assms]
  define shown where "shown = show_nat (digits_val ds + 1)"
  define ds' where "ds' = replicate (length ds - length shown) (CHR ''0'') @ shown"
  have zero: "is_ascii_digit CHR ''0''" by (simp add: is_ascii_digit_def)
  have "list_all is_ascii_digit ds'" "digits_val ds' = digits_val ds + 1"
    using show_nat_digits by (auto simp: ds'_def shown_def digits_val_zeros list_all_iff zero)
  moreover have "length ds' = (if digits_val ds + 1 < 10 ^ length ds then length ds else length shown)"
  proof (cases "digits_val ds + 1 < 10 ^ length ds")
    case True
    then have "length shown \<le> length ds" unfolding shown_def using assms(2) by (intro show_nat_length_mono) auto
    with True show ?thesis by (simp add: ds'_def)
  next
    case False
    have "length ds \<le> length shown"
    proof (rule ccontr)
      assume "\<not> length ds \<le> length shown"
      then have "10 ^ length shown \<le> (10::nat) ^ length ds" by (simp add: power_increasing)
      moreover have "digits_val ds + 1 < 10 ^ length shown"
        using digits_val_bound [OF show_nat_digits, of "digits_val ds + 1"] by (simp add: shown_def)
      ultimately show False using False by linarith
    qed
    with False show ?thesis by (simp add: ds'_def)
  qed
  moreover have "builtin_incstr [VText (before @ ds @ after)] = (if digits_val ds < u64_max
      then Ok (VText (before @ ds' @ after) :: 'd val)
      else Err (''IncStr: number '' @ [CHR 0x27] @ ds @ [CHR 0x27] @ '' is out of range''))"
    using assms(2) parts
    by (simp add: builtin_incstr_def Let_def ds'_def shown_def del: rev_append)
  moreover have "dropWhile (\<lambda>c. \<not> is_ascii_digit c) (rev after) = []"
    using assms(3) by (auto simp: dropWhile_eq_Nil_conv list_all_iff)
  then have "builtin_incstr [VText after] = Ok (VText '''' :: 'd val)" by (simp add: builtin_incstr_def)
  ultimately show ?thesis by (auto simp: shown_def)
qed

lemma incstr_increments_witness:
  "\<exists>ds'. builtin_incstr [VText ''INV-099-A''] = Ok (VText (''INV-'' @ ds' @ ''-A'') :: mantissa val) \<and>
     digits_val ds' = 100 \<and> length ds' = 3"
proof -
  have "list_all is_ascii_digit ''099''" "list_all (\<lambda>c. \<not> is_ascii_digit c) ''-A''"
    "\<not> is_ascii_digit (last ''INV-'')" "digits_val ''099'' = 99" by code_simp+
  with incstr_increments [of "''099''" "''-A''" "''INV-''", where 'd = mantissa] show ?thesis
    by (auto simp: u64_max_def)
qed

fun join_comma :: "string list \<Rightarrow> string" where
  "join_comma [] = []"
| "join_comma [p] = p"
| "join_comma (p # q # ps) = p @ '','' @ join_comma (q # ps)"

lemma split_on_nonempty [simp]: "split_on sep s \<noteq> []"
  by (induction s) (auto split: list.splits)

lemma split_on_plain: "sep \<notin> set p \<Longrightarrow> split_on sep p = [p]"
  by (induction p) auto

lemma split_on_part: "sep \<notin> set p \<Longrightarrow> split_on sep (p @ sep # r) = p # split_on sep r"
  by (induction p) auto

lemma split_join:
  "parts \<noteq> [] \<Longrightarrow> \<forall>p \<in> set parts. CHR '','' \<notin> set p \<Longrightarrow> split_on (CHR '','') (join_comma parts) = parts"
  by (induction parts rule: join_comma.induct) (simp_all add: split_on_plain split_on_part)

text \<open>
  \<open>SelectStr\<close> returns the element of a comma-separated text that its index names and fails exactly when
  there is none, and \<open>PadStr\<close> returns a text of exactly the asked length that agrees with the given
  text as far as both reach.
\<close>

theorem selectstr_padstr:
  assumes "parts \<noteq> []" "\<forall>p \<in> set parts. CHR '','' \<notin> set p" "in_i64 i"
    and "0 \<le> n" "n * 2 + 2 * int (length s) \<le> int MAX_TEXT_BYTES"
  shows "(if 1 \<le> i \<and> i \<le> int (length parts)
      then builtin_selectstr [VInteger i, VText (join_comma parts)] = Ok (VText (parts ! nat (i - 1)) :: 'd val)
      else \<exists>e. builtin_selectstr [VInteger i, VText (join_comma parts)] = (Err e :: string + 'd val)) \<and>
    (\<exists>t. builtin_padstr [VText s, VInteger n, VText [c]] = Ok (VText t :: 'd val) \<and> length t = nat n \<and>
       take (min (nat n) (length s)) t = take (nat n) s \<and> (\<forall>k. length s \<le> k \<and> k < nat n \<longrightarrow> t ! k = c))"
proof
  have u: "1 \<le> i \<Longrightarrow> as_usize i = nat i" using assms(3) by (simp add: as_usize_nonneg)
  have d: "1 \<le> i \<Longrightarrow> nat i - Suc 0 = nat (i - 1)" by simp
  show "if 1 \<le> i \<and> i \<le> int (length parts)
      then builtin_selectstr [VInteger i, VText (join_comma parts)] = Ok (VText (parts ! nat (i - 1)) :: 'd val)
      else \<exists>e. builtin_selectstr [VInteger i, VText (join_comma parts)] = (Err e :: string + 'd val)"
    using u d by (auto simp: builtin_selectstr_def split_join [OF assms(1,2)] Let_def)
  have len: "len_utf8 x \<le> 2" for x by (simp add: len_utf8_def)
  have "str_len s \<le> 2 * length s" unfolding str_len_def
  proof (induction s)
    case (Cons a s)
    then show ?case using len [of a] by simp
  qed simp
  moreover have "(nat n - length s) * len_utf8 c \<le> nat n * 2" using len by (intro mult_mono) auto
  ultimately have "(nat n - length s) * len_utf8 c + str_len s \<le> MAX_TEXT_BYTES" using assms(4,5) by linarith
  then have "check_text_size ''PadStr'' (saturating_add (saturating_mul (nat n - length s) (len_utf8 c)) (str_len s)) = Ok ()"
    by (simp add: check_text_size_def saturating_add_def saturating_mul_def)
  then show "\<exists>t. builtin_padstr [VText s, VInteger n, VText [c]] = Ok (VText t :: 'd val) \<and> length t = nat n \<and>
       take (min (nat n) (length s)) t = take (nat n) s \<and> (\<forall>k. length s \<le> k \<and> k < nat n \<longrightarrow> t ! k = c)"
    using assms(4) by (auto simp: builtin_padstr_def pad_fill_def Let_def nth_append)
qed

lemma selectstr_padstr_witness:
  "builtin_selectstr [VInteger 2, VText (join_comma [''a'', ''bc''])] = Ok (VText ''bc'' :: mantissa val) \<and>
   (\<exists>t. builtin_padstr [VText ''ab'', VInteger 4, VText ''*''] = Ok (VText t :: mantissa val) \<and> length t = 4)"
  using selectstr_padstr [of "[''a'', ''bc'']" 2 4 "''ab''" "CHR ''*''", where 'd = mantissa]
  by (auto simp: int_range_defs MAX_TEXT_BYTES_def)

end
