(* ===== verification/Numeric_Builtins.thy ===== *)
theory Numeric_Builtins
  imports Text_Builtins
begin

text \<open>
  Abs, Round, Power, Maximum, Minimum and ArrayLen (\<^verbatim>\<open>interpreter/dispatch/numeric.rs\<close>).  The decimal
  operations beyond \<open>decimal_ops\<close> that the builtins call, rounding to a whole number, the constructor
  \<open>Decimal::new\<close> and \<open>checked_powd\<close>, are arguments.
\<close>

section \<open>The builtins\<close>

datatype rounding = Midpoint_Away_From_Zero | To_Zero | Away_From_Zero

definition builtin_abs :: "'d decimal_ops \<Rightarrow> 'd val list \<Rightarrow> string + 'd val" where
  "builtin_abs D args =
     (case args of
        [VInteger n] \<Rightarrow>
          (case checked_abs n of
             Some v \<Rightarrow> if in_i32 v then Ok (VInteger v) else Err ''Abs: integer overflow''
           | None \<Rightarrow> Err ''Abs: integer overflow'')
      | [VBigInteger n] \<Rightarrow>
          (case checked_abs n of Some v \<Rightarrow> Ok (VBigInteger v) | None \<Rightarrow> Err ''Abs: integer overflow'')
      | [VDecimal d] \<Rightarrow> Ok (VDecimal (dec_abs D d))
      | [v] \<Rightarrow> Err (''Abs expects a numeric value, got '' @ type_name v)
      | _ \<Rightarrow> Err ''Abs expects exactly 1 argument'')"

definition round_precision :: "'d decimal_ops \<Rightarrow> 'd \<Rightarrow> 'd val option \<Rightarrow> string + 'd" where
  "round_precision D cent arg =
     (case arg of
        None \<Rightarrow> Ok cent
      | Some v \<Rightarrow>
          (case as_decimal D v of
             Some p \<Rightarrow> if dec_cmp D p (dec_zero D) = Greater then Ok p else Err ''Round: precision must be greater than zero''
           | None \<Rightarrow> Err (''Round: precision must be numeric, got '' @ type_name v)))"

definition rounding_of :: "string \<Rightarrow> rounding option" where
  "rounding_of direction =
     (if direction = ''='' then Some Midpoint_Away_From_Zero
      else if direction = ''<'' then Some To_Zero
      else if direction = ''>'' then Some Away_From_Zero else None)"

definition builtin_round ::
  "'d decimal_ops \<Rightarrow> (int \<Rightarrow> nat \<Rightarrow> 'd) \<Rightarrow> (rounding \<Rightarrow> 'd \<Rightarrow> 'd) \<Rightarrow> 'd val list \<Rightarrow> string + 'd val" where
  "builtin_round D dec_new round_whole args =
     (if args = [] \<or> length args > 3 then Err ''Round expects 1 to 3 arguments''
      else case as_decimal D (args ! 0) of
        None \<Rightarrow> Err (''Round expects a numeric value, got '' @ type_name (args ! 0))
      | Some number \<Rightarrow>
          bind_res (round_precision D (dec_new 1 2) (arg_at args 1)) (\<lambda>precision.
          bind_res (text_or ''Round: direction must be Text, got '' ''='' (arg_at args 2)) (\<lambda>direction.
            case dec_div D number precision of
              None \<Rightarrow> Err ''Round: arithmetic overflow''
            | Some q \<Rightarrow>
                (case rounding_of direction of
                   None \<Rightarrow> Err (''Round: direction must be '' @ [CHR 0x27] @ ''='' @ [CHR 0x27] @ '', '' @ [CHR 0x27] @ ''<'' @ [CHR 0x27] @
                     '' or '' @ [CHR 0x27] @ ''>'' @ [CHR 0x27] @ '', got '' @ [CHR 0x27] @ direction @ [CHR 0x27])
                 | Some strategy \<Rightarrow>
                     (case dec_mul D (round_whole strategy q) precision of
                        Some result \<Rightarrow> Ok (VDecimal (dec_normalize D result))
                      | None \<Rightarrow> Err ''Round: arithmetic overflow'')))))"

definition builtin_power :: "'d decimal_ops \<Rightarrow> ('d \<Rightarrow> 'd \<Rightarrow> 'd option) \<Rightarrow> 'd val list \<Rightarrow> string + 'd val" where
  "builtin_power D checked_powd args =
     (case args of
        [a, b] \<Rightarrow>
          (case (as_decimal D a, as_decimal D b) of
             (Some base, Some exponent) \<Rightarrow>
               (case checked_powd base exponent of
                  Some result \<Rightarrow> Ok (VDecimal (dec_normalize D result))
                | None \<Rightarrow> Err ''Power: arithmetic overflow or undefined result'')
           | _ \<Rightarrow> Err (''Power expects numeric arguments, got ('' @ type_name a @ '', '' @ type_name b @ '')''))
      | _ \<Rightarrow> Err ''Power expects exactly 2 arguments'')"

definition builtin_extreme :: "'d decimal_ops \<Rightarrow> 'd val list \<Rightarrow> bool \<Rightarrow> string + 'd val" where
  "builtin_extreme D args maximum =
     (let name = (if maximum then ''Maximum'' else ''Minimum'') in
      case args of
        [VInteger a, VInteger b] \<Rightarrow> Ok (VInteger (if (a \<ge> b) = maximum then a else b))
      | [a, b] \<Rightarrow>
          (case (as_decimal D a, as_decimal D b) of
             (Some x, Some y) \<Rightarrow> Ok (VDecimal (if (dec_cmp D x y \<noteq> Less) = maximum then x else y))
           | _ \<Rightarrow> Err (name @ '' expects two numbers''))
      | _ \<Rightarrow> Err (name @ '' expects exactly 2 arguments''))"

definition builtin_arraylen :: "'d val list \<Rightarrow> string + 'd val" where
  "builtin_arraylen args =
     (let len = (\<lambda>items. case checked_i64 (int (length items)) of
                   Some n \<Rightarrow> Ok (VInteger n) | None \<Rightarrow> Err ''ArrayLen exceeds the supported Integer range'') in
      case args of
        [VArray items] \<Rightarrow> len items
      | [VArray items, VInteger d] \<Rightarrow>
          if d = 1 then len items else Err ''ArrayLen of a dimension other than 1 is not supported locally''
      | [VArray _, _] \<Rightarrow> Err ''ArrayLen of a dimension other than 1 is not supported locally''
      | _ \<Rightarrow> Err ''ArrayLen expects an array'')"


section \<open>Rounding\<close>

text \<open>The three strategies on numbers, as the decimal library documents them.\<close>

fun rounded :: "rounding \<Rightarrow> rat \<Rightarrow> int" where
  "rounded Midpoint_Away_From_Zero x = (if x < 0 then - \<lfloor>- x + 1 / 2\<rfloor> else \<lfloor>x + 1 / 2\<rfloor>)"
| "rounded To_Zero x = (if x < 0 then - \<lfloor>- x\<rfloor> else \<lfloor>x\<rfloor>)"
| "rounded Away_From_Zero x = (if x < 0 then - \<lceil>- x\<rceil> else \<lceil>x\<rceil>)"

lemma rounded_nearest: "\<bar>of_int (rounded Midpoint_Away_From_Zero x) - x\<bar> \<le> 1 / 2"
proof -
  have "of_int \<lfloor>y + 1 / 2\<rfloor> \<le> y + 1 / 2" "y + 1 / 2 < of_int \<lfloor>y + 1 / 2\<rfloor> + 1" for y :: rat by linarith+
  note fl = this[of x] this[of "- x"]
  show ?thesis
  proof (cases "x < 0")
    case True
    then have "of_int (rounded Midpoint_Away_From_Zero x) = - (of_int \<lfloor>- x + 1 / 2\<rfloor> :: rat)" by simp
    then show ?thesis using fl by (intro abs_leI) linarith+
  next
    case False
    then have "of_int (rounded Midpoint_Away_From_Zero x) = (of_int \<lfloor>x + 1 / 2\<rfloor> :: rat)" by simp
    then show ?thesis using fl by (intro abs_leI) linarith+
  qed
qed

lemma rounded_to_zero: "\<bar>of_int (rounded To_Zero x) :: rat\<bar> \<le> \<bar>x\<bar> \<and> \<bar>x\<bar> < \<bar>of_int (rounded To_Zero x)\<bar> + 1"
  by (cases "x < 0") (simp_all, linarith+)

lemma rounded_away: "\<bar>x\<bar> \<le> \<bar>of_int (rounded Away_From_Zero x) :: rat\<bar> \<and> \<bar>of_int (rounded Away_From_Zero x) :: rat\<bar> < \<bar>x\<bar> + 1"
  by (cases "x < 0") (simp_all, linarith+)

lemma scaled_bounds:
  assumes "0 < (p :: rat)"
  shows "a \<le> b \<Longrightarrow> a * p \<le> b * p" "a < b + 1 \<Longrightarrow> a * p < b * p + p"
proof -
  show "a \<le> b \<Longrightarrow> a * p \<le> b * p" using assms by simp
  show "a < b + 1 \<Longrightarrow> a * p < b * p + p" using mult_strict_right_mono[of a "b + 1" p] assms by (simp add: distrib_right)
qed

text \<open>
  Round.  Where the decimal library divides and multiplies exactly and rounds as it documents, Round returns a
  multiple of the precision: with = one at most half a precision away, with < the largest in magnitude that does not
  pass the number, with > the smallest in magnitude that reaches it.
\<close>

theorem round_directions:
  fixes D :: "'d decimal_ops"
  assumes args: "as_decimal D v = Some n" "as_decimal D p = Some pr" "0 < dec_num D pr" "dec_num D (dec_zero D) = 0"
    and div_exact: "dec_div D n pr = Some q" "dec_num D q = dec_num D n / dec_num D pr"
    and whole: "dec_num D (round_whole s q) = of_int (rounded s (dec_num D q))"
    and mul_exact: "dec_mul D (round_whole s q) pr = Some r" "dec_num D r = dec_num D (round_whole s q) * dec_num D pr"
    and norm: "dec_num D (dec_normalize D r) = dec_num D r"
    and dir: "rounding_of direction = Some s"
  shows "\<exists>x. builtin_round D dec_new round_whole [v, p, VText direction] = Ok (VDecimal x) \<and>
    (\<exists>k. dec_num D x = of_int k * dec_num D pr) \<and>
    (case s of
       Midpoint_Away_From_Zero \<Rightarrow> \<bar>dec_num D x - dec_num D n\<bar> \<le> dec_num D pr / 2
     | To_Zero \<Rightarrow> \<bar>dec_num D x\<bar> \<le> \<bar>dec_num D n\<bar> \<and> \<bar>dec_num D n\<bar> < \<bar>dec_num D x\<bar> + dec_num D pr
     | Away_From_Zero \<Rightarrow> \<bar>dec_num D n\<bar> \<le> \<bar>dec_num D x\<bar> \<and> \<bar>dec_num D x\<bar> < \<bar>dec_num D n\<bar> + dec_num D pr)"
proof -
  let ?n = "dec_num D n" and ?p = "dec_num D pr" and ?x = "dec_num D (dec_normalize D r)" and ?k = "rounded s (dec_num D n / dec_num D pr)"
  have res: "builtin_round D dec_new round_whole [v, p, VText direction] = Ok (VDecimal (dec_normalize D r))"
    using args div_exact(1) mul_exact(1) dir
    by (simp add: builtin_round_def round_precision_def arg_at_def text_or_def dec_cmp_def)
  have x: "?x = of_int ?k * ?p" using norm mul_exact(2) whole div_exact(2) by simp
  have diff: "?x - ?n = (of_int ?k - ?n / ?p) * ?p" using args(3) x by (simp add: left_diff_distrib)
  have "\<bar>?x - ?n\<bar> = \<bar>of_int ?k - ?n / ?p\<bar> * ?p" unfolding diff abs_mult using args(3) by simp
  moreover have "\<bar>?x\<bar> = \<bar>of_int ?k\<bar> * ?p" "\<bar>?n\<bar> = \<bar>?n / ?p\<bar> * ?p" using args(3) x by (simp_all add: abs_mult)
  ultimately have scale: "\<bar>?x\<bar> = \<bar>of_int ?k\<bar> * ?p" "\<bar>?n\<bar> = \<bar>?n / ?p\<bar> * ?p" "\<bar>?x - ?n\<bar> = \<bar>of_int ?k - ?n / ?p\<bar> * ?p" by blast+
  have "case s of
       Midpoint_Away_From_Zero \<Rightarrow> \<bar>?x - ?n\<bar> \<le> ?p / 2
     | To_Zero \<Rightarrow> \<bar>?x\<bar> \<le> \<bar>?n\<bar> \<and> \<bar>?n\<bar> < \<bar>?x\<bar> + ?p
     | Away_From_Zero \<Rightarrow> \<bar>?n\<bar> \<le> \<bar>?x\<bar> \<and> \<bar>?x\<bar> < \<bar>?n\<bar> + ?p"
  proof (cases s)
    case Midpoint_Away_From_Zero
    then show ?thesis using mult_right_mono[OF rounded_nearest[of "?n / ?p"], of ?p] args(3) scale(3) by simp
  next
    case To_Zero
    note b = rounded_to_zero[of "?n / ?p", folded To_Zero]
    from scaled_bounds[OF args(3)] b have "\<bar>of_int ?k\<bar> * ?p \<le> \<bar>?n / ?p\<bar> * ?p \<and> \<bar>?n / ?p\<bar> * ?p < \<bar>of_int ?k\<bar> * ?p + ?p" by blast
    then show ?thesis by (simp only: To_Zero rounding.case scale(1,2))
  next
    case Away_From_Zero
    note b = rounded_away[of "?n / ?p", folded Away_From_Zero]
    from scaled_bounds[OF args(3)] b have "\<bar>?n / ?p\<bar> * ?p \<le> \<bar>of_int ?k\<bar> * ?p \<and> \<bar>of_int ?k\<bar> * ?p < \<bar>?n / ?p\<bar> * ?p + ?p" by blast
    then show ?thesis by (simp only: Away_From_Zero rounding.case scale(1,2))
  qed
  then show ?thesis using res x by blast
qed

text \<open>A rounding on the concrete decimals, for whole quotients.\<close>

lemma round_directions_witness:
  "\<exists>x. builtin_round sample_decimal Pair (\<lambda>s q. (rounded s (dec_num sample_decimal q), 0)) [VInteger 7, VInteger 2, VText ''<''] =
     Ok (VDecimal x) \<and> \<bar>dec_num sample_decimal x\<bar> \<le> 7"
proof -
  let ?rw = "\<lambda>s q. (rounded s (dec_num sample_decimal q), 0)"
  have div: "dec_div sample_decimal (7, 0) (2, 0) = Some (35, 1)" by code_simp
  have q: "rounded To_Zero (35 / 10) = 3" by (simp add: floor_eq_iff)
  have mul: "dec_mul sample_decimal (?rw To_Zero (35, 1)) (2, 0) = Some (6, 0)"
    using q by (simp add: sample_decimal_def fits_def)
  have norm: "dec_normalize sample_decimal (6, 0) = (6, 0)" by (simp add: sample_decimal_def)
  have "\<exists>x. builtin_round sample_decimal Pair ?rw [VInteger 7, VInteger 2, VText ''<''] = Ok (VDecimal x) \<and>
    (\<exists>k. dec_num sample_decimal x = of_int k * dec_num sample_decimal (2, 0)) \<and>
    (case To_Zero of
       Midpoint_Away_From_Zero \<Rightarrow> \<bar>dec_num sample_decimal x - dec_num sample_decimal (7, 0)\<bar> \<le> dec_num sample_decimal (2, 0) / 2
     | To_Zero \<Rightarrow> \<bar>dec_num sample_decimal x\<bar> \<le> \<bar>dec_num sample_decimal (7, 0)\<bar> \<and>
         \<bar>dec_num sample_decimal (7, 0)\<bar> < \<bar>dec_num sample_decimal x\<bar> + dec_num sample_decimal (2, 0)
     | Away_From_Zero \<Rightarrow> \<bar>dec_num sample_decimal (7, 0)\<bar> \<le> \<bar>dec_num sample_decimal x\<bar> \<and>
         \<bar>dec_num sample_decimal x\<bar> < \<bar>dec_num sample_decimal (7, 0)\<bar> + dec_num sample_decimal (2, 0))"
    by (rule round_directions[where q = "(35, 1)" and r = "(6, 0)"])
       (use div mul q norm in \<open>simp_all add: rounding_of_def\<close>)
  then show ?thesis by auto
qed

text \<open>Abs keeps the type and refuses exactly the magnitudes that do not fit it.\<close>

lemma abs_exact:
  assumes "in_i64 n"
  shows "builtin_abs D [VInteger n] = (if in_i32 \<bar>n\<bar> then Ok (VInteger \<bar>n\<bar>) else Err ''Abs: integer overflow'')"
    and "builtin_abs D [VBigInteger n] = (if n = - (2 ^ 63) then Err ''Abs: integer overflow'' else Ok (VBigInteger \<bar>n\<bar>))"
  using assms by (auto simp: builtin_abs_def checked_defs int_range_defs split: option.splits if_splits)

lemma extreme_bounds:
  "builtin_extreme D [VInteger a, VInteger b] True = Ok (VInteger (max a b)) \<and>
   builtin_extreme D [VInteger a, VInteger b] False = Ok (VInteger (min a b))"
  by (auto simp: builtin_extreme_def)

end
