(* ===== verification/Byte_Budget.thy ===== *)
theory Byte_Budget
  imports Value_Ops
begin

text \<open>
  The memory budget of a test (\<^verbatim>\<open>interpreter/value.rs\<close>): a count per thread of the bytes the values
  of the running test hold, refused past \<^const>\<open>MAX_HELD_BYTES\<close>.  The thread-local cell is an argument and
  a result of every operation.  Frames and shared contents rely on the laws of the locale \<open>byte_counter\<close>.
\<close>

definition over_held_budget :: "string \<Rightarrow> nat \<Rightarrow> string" where
  "over_held_budget operation tot =
     operation @ '' would make the variables, Lists, Dictionaries, arrays, TextBuilders and JSON values of this test hold '' @
     show_nat tot @ '' bytes, over the local test runtime's limit of '' @
     show_nat (MAX_HELD_BYTES div (1024 * 1024)) @ '' MiB for one test''"

definition hold_bytes :: "string \<Rightarrow> nat \<Rightarrow> nat \<Rightarrow> (string + unit) \<times> nat" where
  "hold_bytes operation bytes held =
     (let tot = saturating_add held bytes in
      if bytes > 0 \<and> tot > MAX_HELD_BYTES then (Err (over_held_budget operation tot), held)
      else (Ok (), tot))"

definition add_held_bytes :: "nat \<Rightarrow> nat \<Rightarrow> nat" where
  "add_held_bytes bytes held = saturating_add held bytes"

definition check_held_bytes :: "string \<Rightarrow> nat \<Rightarrow> string + unit" where
  "check_held_bytes operation held =
     (if held > MAX_HELD_BYTES then Err (over_held_budget operation held) else Ok ())"

definition release_held_bytes :: "nat \<Rightarrow> nat \<Rightarrow> nat" where
  "release_held_bytes bytes held = held - bytes"

text \<open>
  What the holders of bytes rely on: below the limit of the machine word additions are exact, and
  what was added can be released.
\<close>

locale byte_counter =
  fixes add release :: "nat \<Rightarrow> nat \<Rightarrow> nat" and limit :: nat
  assumes add_exact: "t + b \<le> limit \<Longrightarrow> add b t = t + b"
    and release_exact: "b \<le> t \<Longrightarrow> release b t = t - b"
begin

lemma add_release: "t + b \<le> limit \<Longrightarrow> release b (add b t) = t"
  by (simp add: add_exact release_exact)

lemma replace: "t + b \<le> limit \<Longrightarrow> old \<le> t \<Longrightarrow> release old (add b t) = t - old + b"
  by (simp add: add_exact release_exact)

end

interpretation held: byte_counter add_held_bytes release_held_bytes usize_max
  by unfold_locales (auto simp: add_held_bytes_def release_held_bytes_def saturating_add_def)

lemma hold_bytes_Ok: "hold_bytes operation b t = (Ok u, t') \<Longrightarrow> t' = saturating_add t b \<and> (b = 0 \<or> t' \<le> MAX_HELD_BYTES)"
  by (auto simp: hold_bytes_def Let_def split: if_splits)

lemma hold_bytes_exact:
  "t \<le> usize_max \<Longrightarrow> hold_bytes operation b t = (Ok u, t') \<Longrightarrow> t' = t + b"
  by (auto simp: hold_bytes_def Let_def saturating_add_def MAX_HELD_BYTES_def usize_max_def min_def split: if_splits)

lemma hold_bytes_Err: "hold_bytes operation b t = (Err e, t') \<Longrightarrow> t' = t"
  by (auto simp: hold_bytes_def Let_def split: if_splits)

end
