(* ===== verification/Scopes.thy ===== *)
theory Scopes
  imports Byte_Budget "HOL-Library.AList"
begin

text \<open>
  Call frames and the scope stack (\<^verbatim>\<open>interpreter/scope.rs\<close>).  A frame keeps its variables under lower-case
  names and counts the bytes their values own; the count of the thread, \<open>tot\<close>, is passed along.  A
  hash map is an association list without double keys.  The newest frame is the last of the list.
\<close>

section \<open>Call frames\<close>

record 'd call_frame =
  procedure :: string
  frame_object :: string
  locals :: "(string \<times> 'd val) list"
  declared_text_lengths :: "(string \<times> nat) list"
  call_site :: "(string \<times> nat) option"
  implicit_record :: bool
  frame_instance :: "nat option"
  frame_held :: nat

definition new_frame :: "string \<Rightarrow> string \<Rightarrow> 'd call_frame" where
  "new_frame obj proc =
     \<lparr>procedure = proc, frame_object = obj, locals = [], declared_text_lengths = [], call_site = None,
      implicit_record = False, frame_instance = None, frame_held = 0\<rparr>"

definition clone_frame :: "'d call_frame \<Rightarrow> nat \<Rightarrow> 'd call_frame \<times> nat" where
  "clone_frame F tot = (F, add_held_bytes (frame_held F) tot)"

definition drop_frame :: "'d call_frame \<Rightarrow> nat \<Rightarrow> nat" where
  "drop_frame F tot = release_held_bytes (frame_held F) tot"

definition release_frame_bytes :: "nat \<Rightarrow> nat \<Rightarrow> nat \<Rightarrow> nat \<times> nat" where
  "release_frame_bytes held bytes tot =
     (let bytes = min bytes held in (held - bytes, release_held_bytes bytes tot))"

definition bind_var :: "string \<Rightarrow> 'd val \<Rightarrow> 'd call_frame \<Rightarrow> nat \<Rightarrow> 'd call_frame \<times> nat" where
  "bind_var name value F tot =
     (let bytes = owned_bytes value;
          tot = add_held_bytes bytes tot;
          held = saturating_add (frame_held F) bytes;
          key = to_ascii_lowercase name;
          (held, tot) = (case map_of (locals F) key of
                             Some old \<Rightarrow> release_frame_bytes held (owned_bytes old) tot
                           | None \<Rightarrow> (held, tot)) in
      (F\<lparr>locals := AList.update key value (locals F), frame_held := held\<rparr>, tot))"

definition unbind_var :: "string \<Rightarrow> 'd call_frame \<Rightarrow> nat \<Rightarrow> 'd val option \<times> 'd call_frame \<times> nat" where
  "unbind_var name F tot =
     (let key = to_ascii_lowercase name in
      case map_of (locals F) key of
        None \<Rightarrow> (None, F, tot)
      | Some old \<Rightarrow>
          let (held, tot) = release_frame_bytes (frame_held F) (owned_bytes old) tot in
          (Some old, F\<lparr>locals := AList.delete key (locals F), frame_held := held\<rparr>, tot))"

definition frame_check_held_bytes :: "string \<Rightarrow> 'd call_frame \<Rightarrow> nat \<Rightarrow> string + unit" where
  "frame_check_held_bytes operation F tot = (if frame_held F = 0 then Ok () else check_held_bytes operation tot)"

definition frame_get :: "'d call_frame \<Rightarrow> string \<Rightarrow> 'd val option" where
  "frame_get F name = map_of (locals F) (to_ascii_lowercase name)"

definition is_object_globals :: "'d call_frame \<Rightarrow> bool" where
  "is_object_globals F \<longleftrightarrow> procedure F = ''<globals>''"

definition bind_declared_text_length :: "string \<Rightarrow> nat \<Rightarrow> 'd call_frame \<Rightarrow> 'd call_frame" where
  "bind_declared_text_length name len F =
     F\<lparr>declared_text_lengths := AList.update (to_ascii_lowercase name) len (declared_text_lengths F)\<rparr>"

text \<open>A \<open>Slot\<close> borrows a variable and the count of its frame; here it is the frame and the key.\<close>

definition slot_recount :: "string \<Rightarrow> nat \<Rightarrow> nat \<Rightarrow> 'd call_frame \<Rightarrow> nat \<Rightarrow> (string + unit) \<times> 'd call_frame \<times> nat" where
  "slot_recount operation old new F tot =
     (case hold_bytes operation new tot of
        (Inl e, tot) \<Rightarrow> (Err e, F, tot)
      | (Inr _, tot) \<Rightarrow>
          let (held, tot) = release_frame_bytes (saturating_add (frame_held F) new) old tot in
          (Ok (), F\<lparr>frame_held := held\<rparr>, tot))"

definition slot_store ::
  "string \<Rightarrow> string \<Rightarrow> 'd val \<Rightarrow> 'd val \<Rightarrow> 'd call_frame \<Rightarrow> nat \<Rightarrow> (string + unit) \<times> 'd call_frame \<times> nat" where
  "slot_store operation key current value F tot =
     (case slot_recount operation (owned_bytes current) (owned_bytes value) F tot of
        (Inl e, F, tot) \<Rightarrow> (Err e, F, tot)
      | (Inr _, F, tot) \<Rightarrow> (Ok (), F\<lparr>locals := AList.update key value (locals F)\<rparr>, tot))"


section \<open>The scope stack\<close>

record 'd scope_stack =
  frames :: "'d call_frame list"
  expr_depth :: nat

definition MAX_EXPR_DEPTH :: nat where "MAX_EXPR_DEPTH = 2560"

definition new_stack :: "'d scope_stack" where
  "new_stack = \<lparr>frames = [], expr_depth = 0\<rparr>"

definition enter_expr :: "'d scope_stack \<Rightarrow> bool \<times> 'd scope_stack" where
  "enter_expr S =
     (if expr_depth S \<ge> MAX_EXPR_DEPTH then (False, S) else (True, S\<lparr>expr_depth := expr_depth S + 1\<rparr>))"

definition exit_expr :: "'d scope_stack \<Rightarrow> 'd scope_stack" where
  "exit_expr S = S\<lparr>expr_depth := expr_depth S - 1\<rparr>"

definition push_frame :: "'d call_frame \<Rightarrow> 'd scope_stack \<Rightarrow> nat \<times> 'd scope_stack" where
  "push_frame F S = (length (frames S), S\<lparr>frames := frames S @ [F]\<rparr>)"

definition pop_frame :: "'d scope_stack \<Rightarrow> 'd call_frame option \<times> 'd scope_stack" where
  "pop_frame S =
     (if frames S = [] then (None, S) else (Some (last (frames S)), S\<lparr>frames := butlast (frames S)\<rparr>))"

definition stack_depth :: "'d scope_stack \<Rightarrow> nat" where
  "stack_depth S = length (frames S)"

definition top_frame :: "'d scope_stack \<Rightarrow> 'd call_frame option" where
  "top_frame S = (if frames S = [] then None else Some (last (frames S)))"

text \<open>The globals of an object, its name compared without case.\<close>

definition globals_of :: "string \<Rightarrow> 'd call_frame \<Rightarrow> bool" where
  "globals_of obj F \<longleftrightarrow> is_object_globals F \<and> eq_ignore_ascii_case (frame_object F) obj"

definition has_object_globals :: "'d scope_stack \<Rightarrow> string \<Rightarrow> bool" where
  "has_object_globals S obj = list_ex (globals_of obj) (frames S)"

definition object_instance :: "'d scope_stack \<Rightarrow> string \<Rightarrow> nat option" where
  "object_instance S obj = Option.bind (List.find (globals_of obj) (rev (frames S))) frame_instance"

text \<open>\<open>iter().rev().skip(1).find_map(..)\<close> over the frames below the running one.\<close>

fun first_of :: "('a \<Rightarrow> 'b option) \<Rightarrow> 'a list \<Rightarrow> 'b option" where
  "first_of f [] = None"
| "first_of f (x # xs) = (case f x of Some y \<Rightarrow> Some y | None \<Rightarrow> first_of f xs)"

definition lookup_in :: "('d call_frame \<Rightarrow> (string \<times> 'a) list) \<Rightarrow> 'd scope_stack \<Rightarrow> string \<Rightarrow> 'a option" where
  "lookup_in part S name =
     (let key = to_ascii_lowercase name in
      case top_frame S of
        None \<Rightarrow> None
      | Some cur \<Rightarrow>
          (case map_of (part cur) key of
             Some v \<Rightarrow> Some v
           | None \<Rightarrow>
               first_of (\<lambda>F. if globals_of (frame_object cur) F then map_of (part F) key else None)
                 (tl (rev (frames S)))))"

definition lookup_var :: "'d scope_stack \<Rightarrow> string \<Rightarrow> 'd val option" where
  "lookup_var = lookup_in locals"

definition declared_text_length :: "'d scope_stack \<Rightarrow> string \<Rightarrow> nat option" where
  "declared_text_length = lookup_in declared_text_lengths"

definition lookup_slot :: "'d scope_stack \<Rightarrow> string \<Rightarrow> (nat \<times> string) option" where
  "lookup_slot S name =
     (let key = to_ascii_lowercase name in
      if frames S = [] then None
      else let top_index = length (frames S) - 1 in
        if map_of (locals (frames S ! top_index)) key \<noteq> None then Some (top_index, key)
        else let obj = frame_object (frames S ! top_index) in
          map_option (\<lambda>i. (i, key))
            (List.find (\<lambda>i. let F = frames S ! i in globals_of obj F \<and> map_of (locals F) key \<noteq> None) (rev [0..<top_index])))"

definition store_var :: "string \<Rightarrow> string \<Rightarrow> 'd val \<Rightarrow> 'd scope_stack \<Rightarrow> nat \<Rightarrow> (string + unit) option \<times> 'd scope_stack \<times> nat" where
  "store_var operation name value S tot =
     (case lookup_slot S name of
        None \<Rightarrow> (None, S, tot)
      | Some (i, key) \<Rightarrow>
          let F = frames S ! i in
          (case map_of (locals F) key of
             None \<Rightarrow> (None, S, tot)
           | Some current \<Rightarrow>
               let (res, F', tot) = slot_store operation key current value F tot in
               (Some res, S\<lparr>frames := (frames S)[i := F']\<rparr>, tot)))"

definition show_frame :: "'d call_frame \<Rightarrow> string" where
  "show_frame F =
     (case call_site F of
        Some (file, line) \<Rightarrow> file @ '':'' @ show_nat line @ '' '' @ frame_object F @ ''::'' @ procedure F
      | None \<Rightarrow> frame_object F @ ''::'' @ procedure F)"

definition stack_trace :: "'d scope_stack \<Rightarrow> string list" where
  "stack_trace S = map show_frame (frames S)"

section \<open>Results of evaluation\<close>

datatype 'd eval = ENormal "'d val" | EError error_info | EExit "'d val" | EBreak | EContinue

fun into_value :: "'d eval \<Rightarrow> 'd val option" where
  "into_value (ENormal v) = Some v"
| "into_value (EExit v) = Some v"
| "into_value (EError _) = None"
| "into_value EBreak = None"
| "into_value EContinue = None"

fun is_error :: "'d eval \<Rightarrow> bool" where
  "is_error (EError _) = True"
| "is_error _ = False"


section \<open>What a frame counts\<close>

text \<open>The bytes the values of an association list own, and the frames that count exactly those.\<close>

definition owned_sum :: "(string \<times> 'd val) list \<Rightarrow> nat" where
  "owned_sum xs = sum_list (map (owned_bytes \<circ> snd) xs)"

definition frame_ok :: "'d call_frame \<Rightarrow> bool" where
  "frame_ok F \<longleftrightarrow> distinct (map fst (locals F)) \<and> frame_held F = owned_sum (locals F)"

lemma owned_sum_simps [simp]: "owned_sum [] = 0" "owned_sum (x # xs) = owned_bytes (snd x) + owned_sum xs"
  by (simp_all add: owned_sum_def)

lemma owned_sum_update:
  "owned_sum (AList.update k v xs) + (case map_of xs k of Some old \<Rightarrow> owned_bytes old | None \<Rightarrow> 0) = owned_sum xs + owned_bytes v"
  by (induction xs) (auto split: option.splits)

lemma delete_fresh: "k \<notin> fst ` set xs \<Longrightarrow> filter (\<lambda>(k', _). k \<noteq> k') xs = xs"
  by (induction xs) auto

lemma owned_sum_delete:
  "distinct (map fst xs) \<Longrightarrow> map_of xs k = Some old \<Longrightarrow> owned_sum (AList.delete k xs) + owned_bytes old = owned_sum xs"
  by (induction xs) (auto simp: AList.delete_eq delete_fresh split: if_splits)

lemma owned_member: "map_of xs k = Some old \<Longrightarrow> owned_bytes old \<le> owned_sum xs"
  by (induction xs) (auto split: if_splits)

text \<open>
  The contract of an operation on a frame: a counted frame stays counted, and the total of the
  thread moves by what the frame's count moved.
\<close>

definition accounted :: "'d call_frame \<Rightarrow> nat \<Rightarrow> 'd call_frame \<Rightarrow> nat \<Rightarrow> bool" where
  "accounted F tot F' tot' \<longleftrightarrow>
     frame_ok F' \<and> tot' + frame_held F = tot + frame_held F' \<and> tot' \<le> usize_max \<and>
     frame_object F' = frame_object F \<and> procedure F' = procedure F"

lemma saturating_add_exact: "a + b \<le> usize_max \<Longrightarrow> saturating_add a b = a + b"
  by (simp add: saturating_add_def)

lemma bind_var_accounted:
  assumes "frame_ok F" "frame_held F \<le> tot" "tot + owned_bytes v \<le> usize_max"
    and "bind_var name v F tot = (F', tot')"
  shows "accounted F tot F' tot'"
proof -
  let ?k = "to_ascii_lowercase name"
  have sum: "owned_sum (AList.update ?k v (locals F)) + (case map_of (locals F) ?k of Some old \<Rightarrow> owned_bytes old | None \<Rightarrow> 0)
      = owned_sum (locals F) + owned_bytes v"
    by (rule owned_sum_update)
  show ?thesis using assms sum owned_member[of "locals F" ?k]
    by (auto simp: bind_var_def Let_def accounted_def frame_ok_def release_frame_bytes_def held.add_exact
        held.release_exact saturating_add_exact distinct_update min_def split: option.splits if_splits)
qed

lemma unbind_var_accounted:
  assumes F: "frame_ok F" "frame_held F \<le> tot" "tot \<le> usize_max"
    and u: "unbind_var name F tot = (res, F', tot')"
  shows "accounted F tot F' tot'"
proof (cases "map_of (locals F) (to_ascii_lowercase name)")
  case None
  with F u show ?thesis by (simp add: unbind_var_def accounted_def)
next
  case (Some old)
  have "owned_sum (AList.delete (to_ascii_lowercase name) (locals F)) + owned_bytes old = frame_held F"
    using owned_sum_delete[OF _ Some] F by (simp add: frame_ok_def)
  with F u Some show ?thesis
    by (auto simp: unbind_var_def accounted_def frame_ok_def release_frame_bytes_def held.release_exact distinct_delete Let_def)
qed

lemma slot_store_outcome:
  "slot_store operation k current v F tot =
     (case hold_bytes operation (owned_bytes v) tot of
        (Inl e, t) \<Rightarrow> (Err e, F, t)
      | (Inr u, t) \<Rightarrow>
          (Ok (), F\<lparr>locals := AList.update k v (locals F),
             frame_held := fst (release_frame_bytes (saturating_add (frame_held F) (owned_bytes v)) (owned_bytes current) t)\<rparr>,
           snd (release_frame_bytes (saturating_add (frame_held F) (owned_bytes v)) (owned_bytes current) t)))"
  by (cases "hold_bytes operation (owned_bytes v) tot"; cases "fst (hold_bytes operation (owned_bytes v) tot)")
     (simp_all add: slot_store_def slot_recount_def case_prod_unfold Let_def)

lemma slot_store_refused:
  "slot_store operation k current v F tot = (Err e, F', tot') \<Longrightarrow> F' = F \<and> tot' = tot"
  by (auto simp: slot_store_outcome dest: hold_bytes_Err split: prod.splits sum.splits)

lemma slot_store_Ok:
  "slot_store operation k current v F tot = (Ok u, F', tot') \<Longrightarrow>
     \<exists>t. hold_bytes operation (owned_bytes v) tot = (Ok (), t) \<and> locals F' = AList.update k v (locals F) \<and>
       (frame_held F', tot') = release_frame_bytes (saturating_add (frame_held F) (owned_bytes v)) (owned_bytes current) t \<and>
       frame_object F' = frame_object F \<and> procedure F' = procedure F"
  by (auto simp: slot_store_outcome split: prod.splits sum.splits)

lemma slot_store_accounted:
  assumes F: "frame_ok F" "frame_held F \<le> tot" "tot \<le> usize_max" "map_of (locals F) k = Some current"
    and st: "slot_store operation k current v F tot = (res, F', tot')"
  shows "accounted F tot F' tot'"
proof (cases res)
  case (Inl e)
  with slot_store_refused st F show ?thesis by (fastforce simp: accounted_def)
next
  case (Inr u)
  from slot_store_Ok[OF st[unfolded Inr]] obtain t where
    t: "hold_bytes operation (owned_bytes v) tot = (Ok (), t)" and l: "locals F' = AList.update k v (locals F)"
    and h: "(frame_held F', tot') = release_frame_bytes (saturating_add (frame_held F) (owned_bytes v)) (owned_bytes current) t"
    and same: "frame_object F' = frame_object F" "procedure F' = procedure F" by blast
  have t': "t = tot + owned_bytes v" "t \<le> usize_max" using hold_bytes_exact[OF F(3) t] t F(3)
    by (auto simp: hold_bytes_def Let_def saturating_add_def split: if_splits)
  have sum: "owned_sum (AList.update k v (locals F)) + owned_bytes current = frame_held F + owned_bytes v"
    using owned_sum_update[of k v "locals F"] F by (simp add: frame_ok_def)
  have cur: "owned_bytes current \<le> frame_held F" using owned_member[OF F(4)] F by (simp add: frame_ok_def)
  show ?thesis using F l h same t' sum cur
    by (auto simp: accounted_def frame_ok_def release_frame_bytes_def saturating_add_exact held.release_exact distinct_update Let_def)
qed

text \<open>An element or a character of a variable is written: the caller counts it with \<open>recount\<close> and then sets the value.\<close>

lemma slot_rewrite_accounted:
  assumes F: "frame_ok F" "frame_held F \<le> tot" "tot \<le> usize_max" "map_of (locals F) k = Some current"
    and v: "owned_bytes v + old = owned_bytes current + new" "old \<le> owned_bytes current"
    and st: "slot_recount operation old new F tot = (Ok u, F', tot')"
  shows "accounted F tot (F'\<lparr>locals := AList.update k v (locals F')\<rparr>) tot'"
proof -
  obtain t where t: "hold_bytes operation new tot = (Ok (), t)"
    and h: "(frame_held F', tot') = release_frame_bytes (saturating_add (frame_held F) new) old t"
    and same: "locals F' = locals F" "frame_object F' = frame_object F" "procedure F' = procedure F"
    using st by (auto simp: slot_recount_def split: prod.splits sum.splits)
  have t': "t = tot + new" "t \<le> usize_max" using hold_bytes_exact[OF F(3) t] t F(3)
    by (auto simp: hold_bytes_def Let_def saturating_add_def split: if_splits)
  have sum: "owned_sum (AList.update k v (locals F)) + owned_bytes current = frame_held F + owned_bytes v"
    using owned_sum_update[of k v "locals F"] F by (simp add: frame_ok_def)
  have cur: "owned_bytes current \<le> frame_held F" using owned_member[OF F(4)] F by (simp add: frame_ok_def)
  show ?thesis using F h same t' sum cur v
    by (auto simp: accounted_def frame_ok_def release_frame_bytes_def saturating_add_exact held.release_exact distinct_update Let_def)
qed

section \<open>The run of a test\<close>

text \<open>
  The state is the stack, the frames that are not on it, the bytes that lists, dictionaries and other shared contents
  have counted, and the thread's count.  A frame is off the stack while its parameters and locals are bound for a call,
  as the globals of a codeunit instance or of a record between two calls, and after a pop until it is dropped or kept.
  A step is one operation of the sources on the stack, on a frame or on the count; in \<open>bind\<close>, \<open>copy\<close> and \<open>count\<close> the
  premise says that the machine word can count the bytes in memory.
\<close>

type_synonym 'd scope_state = "'d scope_stack \<times> 'd call_frame list \<times> nat \<times> nat"

text \<open>What can happen to one frame, on the stack or off it: its other fields are set by \<open>label\<close>.\<close>

inductive frame_step :: "'d call_frame \<Rightarrow> nat \<Rightarrow> 'd call_frame \<Rightarrow> nat \<Rightarrow> bool" where
  bind: "tot + owned_bytes v \<le> usize_max \<Longrightarrow> bind_var name v F tot = (F', tot') \<Longrightarrow> frame_step F tot F' tot'"
| unbind: "unbind_var name F tot = (res, F', tot') \<Longrightarrow> frame_step F tot F' tot'"
| label: "locals F' = locals F \<Longrightarrow> frame_held F' = frame_held F \<Longrightarrow> frame_step F tot F' tot"

inductive scope_step :: "'d scope_state \<Rightarrow> 'd scope_state \<Rightarrow> bool" where
  enter: "scope_step (S, A, rest, tot) (snd (enter_expr S), A, rest, tot)"
| exit: "scope_step (S, A, rest, tot) (exit_expr S, A, rest, tot)"
| create: "scope_step (S, A, rest, tot) (S, new_frame obj proc # A, rest, tot)"
| copy: "F \<in> set (frames S @ A) \<Longrightarrow> tot + frame_held F \<le> usize_max \<Longrightarrow> clone_frame F tot = (F', tot') \<Longrightarrow>
    scope_step (S, A, rest, tot) (S, F' # A, rest, tot')"
| push: "scope_step (S, B @ F # A, rest, tot) (snd (push_frame F S), B @ A, rest, tot)"
| pop: "pop_frame S = (Some F, S') \<Longrightarrow> scope_step (S, A, rest, tot) (S', F # A, rest, tot)"
| swap: "i < length (frames S) \<Longrightarrow>
    scope_step (S, B @ F # A, rest, tot) (S\<lparr>frames := (frames S)[i := F]\<rparr>, B @ (frames S ! i) # A, rest, tot)"
| drop: "scope_step (S, B @ F # A, rest, tot) (S, B @ A, rest, drop_frame F tot)"
| on_stack: "i < length (frames S) \<Longrightarrow> frame_step (frames S ! i) tot F tot' \<Longrightarrow>
    scope_step (S, A, rest, tot) (S\<lparr>frames := (frames S)[i := F]\<rparr>, A, rest, tot')"
| aside: "frame_step F tot F' tot' \<Longrightarrow> scope_step (S, B @ F # A, rest, tot) (S, B @ F' # A, rest, tot')"
| store: "store_var operation name v S tot = (res, S', tot') \<Longrightarrow> scope_step (S, A, rest, tot) (S', A, rest, tot')"
| rewrite: "lookup_slot S name = Some (i, k) \<Longrightarrow> map_of (locals (frames S ! i)) k = Some current \<Longrightarrow>
    owned_bytes v + old = owned_bytes current + new \<Longrightarrow> old \<le> owned_bytes current \<Longrightarrow>
    slot_recount operation old new (frames S ! i) tot = (Ok u, F, tot') \<Longrightarrow>
    scope_step (S, A, rest, tot) (S\<lparr>frames := (frames S)[i := F\<lparr>locals := AList.update k v (locals F)\<rparr>]\<rparr>, A, rest, tot')"
| change: "lookup_slot S name = Some (i, k) \<Longrightarrow> map_of (locals (frames S ! i)) k = Some current \<Longrightarrow>
    owned_bytes v = owned_bytes current \<Longrightarrow> F = frames S ! i \<Longrightarrow>
    scope_step (S, A, rest, tot) (S\<lparr>frames := (frames S)[i := F\<lparr>locals := AList.update k v (locals F)\<rparr>]\<rparr>, A, rest, tot)"
| count: "tot + n \<le> usize_max \<Longrightarrow> scope_step (S, A, rest, tot) (S, A, rest + n, add_held_bytes n tot)"
| give_back: "n \<le> rest \<Longrightarrow> scope_step (S, A, rest, tot) (S, A, rest - n, release_held_bytes n tot)"

abbreviation counted :: "'d call_frame \<Rightarrow> nat \<Rightarrow> 'd call_frame \<Rightarrow> nat \<Rightarrow> bool" where
  "counted F tot F' tot' \<equiv> frame_ok F' \<and> tot' + frame_held F = tot + frame_held F' \<and> tot' \<le> usize_max"

abbreviation frame_bytes :: "'d call_frame list \<Rightarrow> nat" where
  "frame_bytes Fs \<equiv> sum_list (map frame_held Fs)"

definition stack_ok :: "'d scope_state \<Rightarrow> bool" where
  "stack_ok = (\<lambda>(S, A, rest, tot). list_all frame_ok (frames S) \<and> list_all frame_ok A \<and> expr_depth S \<le> MAX_EXPR_DEPTH \<and>
     tot = frame_bytes (frames S) + frame_bytes A + rest \<and> tot \<le> usize_max)"

lemma held_sum: "list_all frame_ok Fs \<Longrightarrow> (\<Sum>F \<leftarrow> Fs. owned_sum (locals F)) = frame_bytes Fs"
  by (induction Fs) (auto simp: frame_ok_def)

lemma sum_list_update_eq:
  "i < length xs \<Longrightarrow> sum_list (map f (xs[i := y])) + f (xs ! i) = sum_list (map f xs) + (f y :: nat)"
  by (induction xs arbitrary: i) (auto split: nat.splits)

lemma list_all_update: "list_all P xs \<Longrightarrow> P y \<Longrightarrow> list_all P (xs[i := y])"
  using set_update_subset_insert[of xs i y] by (auto simp: list_all_iff)

lemma stack_ok_frame:
  assumes "stack_ok (S, A, rest, tot)" "i < length (frames S)"
  shows "frame_ok (frames S ! i)" "frame_held (frames S ! i) \<le> tot" "tot \<le> usize_max"
  using assms member_le_sum_list[of "frame_held (frames S ! i)" "map frame_held (frames S)"]
  by (auto simp: stack_ok_def list_all_iff)

lemma stack_ok_aside:
  assumes "stack_ok (S, B @ F # A, rest, tot)"
  shows "frame_ok F" "frame_held F \<le> tot" "tot \<le> usize_max"
  using assms by (auto simp: stack_ok_def)

lemma frame_replaced:
  assumes ok: "stack_ok (S, A, rest, tot)" and i: "i < length (frames S)" and acc: "counted (frames S ! i) tot F' tot'"
  shows "stack_ok (S\<lparr>frames := (frames S)[i := F']\<rparr>, A, rest, tot')"
  using ok acc sum_list_update_eq[OF i, of frame_held F'] by (auto simp: stack_ok_def list_all_update)

lemma frame_swapped:
  assumes ok: "stack_ok (S, B @ F # A, rest, tot)" and i: "i < length (frames S)"
  shows "stack_ok (S\<lparr>frames := (frames S)[i := F]\<rparr>, B @ (frames S ! i) # A, rest, tot)"
  using ok stack_ok_frame(1)[OF ok i] sum_list_update_eq[OF i, of frame_held F]
  by (auto simp: stack_ok_def list_all_update)

lemma frame_step_counted:
  "frame_step F tot F' tot' \<Longrightarrow> frame_ok F \<Longrightarrow> frame_held F \<le> tot \<Longrightarrow> tot \<le> usize_max \<Longrightarrow> counted F tot F' tot'"
proof (induction rule: frame_step.induct)
  case (bind tot v name F F' tot')
  show ?case using bind_var_accounted[OF bind(3,4,1,2)] by (simp add: accounted_def)
next
  case (unbind name F tot res F' tot')
  show ?case using unbind_var_accounted[OF unbind(2-4,1)] by (simp add: accounted_def)
qed (simp add: frame_ok_def)

lemma find_bound: "List.find P (rev [0..<n]) = Some i \<Longrightarrow> i < n \<and> P i"
  by (auto simp: find_Some_iff rev_nth)

lemma lookup_slot_bound:
  "lookup_slot S name = Some (i, k) \<Longrightarrow>
     i < length (frames S) \<and> k = to_ascii_lowercase name \<and> map_of (locals (frames S ! i)) k \<noteq> None"
  by (fastforce simp: lookup_slot_def Let_def split: if_splits dest: find_bound)

lemma store_var_cases:
  obtains (unknown) "lookup_slot S name = None" "store_var operation name v S tot = (None, S, tot)"
  | (known) i current r F' t where "lookup_slot S name = Some (i, to_ascii_lowercase name)" "i < length (frames S)"
      "map_of (locals (frames S ! i)) (to_ascii_lowercase name) = Some current"
      "slot_store operation (to_ascii_lowercase name) current v (frames S ! i) tot = (r, F', t)"
      "store_var operation name v S tot = (Some r, S\<lparr>frames := (frames S)[i := F']\<rparr>, t)"
proof (cases "lookup_slot S name")
  case None
  then show ?thesis using unknown by (simp add: store_var_def)
next
  case (Some ik)
  obtain i k where ik: "ik = (i, k)" by fastforce
  note b = lookup_slot_bound[OF Some[unfolded ik]]
  then obtain current where cur: "map_of (locals (frames S ! i)) k = Some current" by blast
  obtain r F' t where sl: "slot_store operation k current v (frames S ! i) tot = (r, F', t)" by (metis prod_cases3)
  then show ?thesis using known[of i current r F' t] b cur Some ik by (simp add: store_var_def)
qed

lemma store_var_ok:
  assumes ok: "stack_ok (S, A, rest, tot)" and st: "store_var operation name v S tot = (res, S', tot')"
  shows "stack_ok (S', A, rest, tot')"
proof (cases rule: store_var_cases[where S = S and name = name and operation = operation and v = v and tot = tot])
  case unknown
  with ok st show ?thesis by simp
next
  case (known i current r F' t)
  have "accounted (frames S ! i) tot F' t"
    using slot_store_accounted[OF stack_ok_frame[OF ok known(2)] known(3,4)] .
  then show ?thesis using frame_replaced[OF ok known(2)] st known(5) by (auto simp: accounted_def)
qed

lemma pop_frame_ok:
  assumes ok: "stack_ok (S, A, rest, tot)" and p: "pop_frame S = (Some F, S')"
  shows "stack_ok (S', F # A, rest, tot)"
proof -
  have fs: "frames S = frames S' @ [F]" "expr_depth S' = expr_depth S" using p
    by (auto simp: pop_frame_def split: if_splits)
  then show ?thesis using ok by (simp add: stack_ok_def)
qed

lemma change_counted:
  assumes "frame_ok F" "tot \<le> usize_max" "map_of (locals F) k = Some current" "owned_bytes v = owned_bytes current"
  shows "counted F tot (F\<lparr>locals := AList.update k v (locals F)\<rparr>) tot"
  using assms owned_sum_update[of k v "locals F"] by (simp add: frame_ok_def distinct_update)

lemma scope_step_ok: "scope_step a b \<Longrightarrow> stack_ok a \<Longrightarrow> stack_ok b"
proof (induction rule: scope_step.induct)
  case (copy F S A tot F' tot' rest)
  then have "frame_ok F" by (auto simp: stack_ok_def list_all_iff)
  with copy show ?case by (auto simp: stack_ok_def clone_frame_def held.add_exact)
next
  case (push S B F A rest tot)
  then show ?case by (simp add: stack_ok_def push_frame_def)
next
  case (swap i S B F A rest tot)
  then show ?case by (simp add: frame_swapped)
next
  case (drop S B F A rest tot)
  then show ?case by (auto simp: stack_ok_def drop_frame_def held.release_exact)
next
  case (on_stack i S tot F tot' A rest)
  note f = stack_ok_frame[OF on_stack(3,1)]
  show ?case by (rule frame_replaced[OF on_stack(3,1) frame_step_counted[OF on_stack(2) f]])
next
  case (aside F tot F' tot' S B A rest)
  have "counted F tot F' tot'" by (rule frame_step_counted[OF aside(1) stack_ok_aside[OF aside(2)]])
  with aside(2) show ?case by (auto simp: stack_ok_def)
next
  case (rewrite S name i k current v old new operation tot u F tot' A rest)
  have i: "i < length (frames S)" using lookup_slot_bound[OF rewrite(1)] by simp
  note f = stack_ok_frame[OF rewrite(6) i]
  show ?case
    using frame_replaced[OF rewrite(6) i] slot_rewrite_accounted[OF f rewrite(2-5)] by (simp add: accounted_def)
next
  case (change S name i k current v F A rest tot)
  have i: "i < length (frames S)" using lookup_slot_bound[OF change(1)] by simp
  note f = stack_ok_frame[OF change(5) i]
  show ?case using frame_replaced[OF change(5) i change_counted[OF f(1,3) change(2,3)]] change(4) by simp
next
  case (count tot n S A rest)
  then show ?case by (simp add: stack_ok_def held.add_exact)
next
  case (give_back n rest S A tot)
  then show ?case by (auto simp: stack_ok_def held.release_exact)
qed (auto simp: pop_frame_ok store_var_ok, auto simp: stack_ok_def enter_expr_def exit_expr_def new_frame_def frame_ok_def)

section \<open>Lookup\<close>

text \<open>The two searches of the sources, over the frames and over their indices, agree.\<close>

lemma find_cong: "(\<And>x. x \<in> set xs \<Longrightarrow> P x = Q x) \<Longrightarrow> List.find P xs = List.find Q xs"
  by (induction xs) auto

lemma first_of_by_index:
  "first_of f (rev xs) =
     (case List.find (\<lambda>i. f (xs ! i) \<noteq> None) (rev [0..<length xs]) of None \<Rightarrow> None | Some i \<Rightarrow> f (xs ! i))"
proof (induction xs rule: rev_induct)
  case (snoc x xs)
  have "List.find (\<lambda>i. f ((xs @ [x]) ! i) \<noteq> None) (rev [0..<length xs]) = List.find (\<lambda>i. f (xs ! i) \<noteq> None) (rev [0..<length xs])"
    by (rule find_cong) (simp add: nth_append)
  with snoc show ?case by (fastforce simp: nth_append split: option.splits dest: find_bound)
qed simp

lemma lookup_var_slot:
  "lookup_var S name = (case lookup_slot S name of None \<Rightarrow> None | Some (i, k) \<Rightarrow> map_of (locals (frames S ! i)) k)"
proof (cases "frames S" rule: rev_cases)
  case (snoc fs cur)
  let ?k = "to_ascii_lowercase name"
  let ?f = "\<lambda>F. if globals_of (frame_object cur) F then map_of (locals F) ?k else None"
  have idx: "List.find (\<lambda>i. ?f (fs ! i) \<noteq> None) (rev [0..<length fs]) =
      List.find (\<lambda>i. let F = (fs @ [cur]) ! i in globals_of (frame_object cur) F \<and> map_of (locals F) ?k \<noteq> None) (rev [0..<length fs])"
    by (rule find_cong) (simp add: nth_append Let_def)
  show ?thesis
    using first_of_by_index[of ?f fs] snoc idx
    by (fastforce simp: lookup_var_def lookup_in_def lookup_slot_def top_frame_def Let_def nth_append
        split: option.splits dest: find_bound)
qed (simp add: lookup_var_def lookup_in_def lookup_slot_def top_frame_def)

lemma lookup_slot_cong:
  assumes len: "length (frames S') = length (frames S)"
    and same: "\<And>i. i < length (frames S) \<Longrightarrow> frame_object (frames S' ! i) = frame_object (frames S ! i) \<and>
      procedure (frames S' ! i) = procedure (frames S ! i) \<and> dom (map_of (locals (frames S' ! i))) = dom (map_of (locals (frames S ! i)))"
  shows "lookup_slot S' name = lookup_slot S name"
proof -
  have d: "map_of (locals (frames S' ! i)) k \<noteq> None \<longleftrightarrow> map_of (locals (frames S ! i)) k \<noteq> None"
    if "i < length (frames S)" for i k
    using same[OF that] by (metis domIff)
  have "List.find (\<lambda>i. let F = frames S' ! i in globals_of obj F \<and> map_of (locals F) k \<noteq> None) (rev [0..<length (frames S) - 1]) =
        List.find (\<lambda>i. let F = frames S ! i in globals_of obj F \<and> map_of (locals F) k \<noteq> None) (rev [0..<length (frames S) - 1])" for obj k
  proof (rule find_cong)
    fix i assume "i \<in> set (rev [0..<length (frames S) - 1])"
    then have "i < length (frames S)" by auto
    with same d show "(let F = frames S' ! i in globals_of obj F \<and> map_of (locals F) k \<noteq> None) =
        (let F = frames S ! i in globals_of obj F \<and> map_of (locals F) k \<noteq> None)"
      by (simp add: Let_def globals_of_def is_object_globals_def)
  qed
  then show ?thesis using len same d by (cases "frames S = []") (auto simp: lookup_slot_def Let_def)
qed

lemma lookup_slot_case: "eq_ignore_ascii_case a b \<Longrightarrow> lookup_slot S a = lookup_slot S b"
  by (simp add: lookup_slot_def eq_ignore_ascii_case_def)

lemma dom_update_known: "k \<in> dom (map_of xs) \<Longrightarrow> dom (map_of (AList.update k v xs)) = dom (map_of xs)"
  by (simp add: update_conv' insert_absorb)

text \<open>
  C26: An assignment that is accepted is read back under every spelling of the variable's name and changes no other
  variable the running procedure can see; one that is refused for memory, or whose name is unknown, changes neither
  the stack nor the byte count.
\<close>

theorem store_then_lookup:
  fixes S :: "'d scope_stack"
  shows "case store_var operation name v S tot of
     (Some (Inr u), S', tot') \<Rightarrow> lookup_var S' other = (if eq_ignore_ascii_case other name then Some v else lookup_var S other)
   | (res, S', tot') \<Rightarrow> S' = S \<and> tot' = tot \<and> (res = None \<longleftrightarrow> lookup_var S name = None)"
proof (cases rule: store_var_cases[where S = S and name = name and operation = operation and v = v and tot = tot])
  case unknown
  then show ?thesis by (simp add: lookup_var_slot)
next
  case (known i current r F' t)
  let ?S = "S\<lparr>frames := (frames S)[i := F']\<rparr>"
  show ?thesis
  proof (cases r)
    case (Inl e)
    with slot_store_refused known show ?thesis by (fastforce simp: lookup_var_slot)
  next
    case (Inr u)
    have w: "locals F' = AList.update (to_ascii_lowercase name) v (locals (frames S ! i))"
        "frame_object F' = frame_object (frames S ! i)" "procedure F' = procedure (frames S ! i)"
      using slot_store_Ok[OF known(4)[unfolded Inr]] by auto
    have d: "to_ascii_lowercase name \<in> dom (map_of (locals (frames S ! i)))" using known(3) by (rule domI)
    have same: "frame_object (frames ?S ! j) = frame_object (frames S ! j) \<and> procedure (frames ?S ! j) = procedure (frames S ! j) \<and>
        dom (map_of (locals (frames ?S ! j))) = dom (map_of (locals (frames S ! j)))" for j
      using dom_update_known[OF d] w known(2) by (cases "j = i") auto
    have slot: "lookup_slot ?S x = lookup_slot S x" for x by (rule lookup_slot_cong) (simp, rule same)
    show ?thesis
      using slot w known(1,2,5) Inr lookup_slot_case[of other name S] lookup_slot_bound[of S other]
      by (auto simp: lookup_var_slot nth_list_update update_conv' eq_ignore_ascii_case_def split: option.splits)
  qed
qed

lemma first_of_filter: "(\<And>x. \<not> P x \<Longrightarrow> g x = None) \<Longrightarrow> first_of g (filter P xs) = first_of g xs"
  by (induction xs) (auto split: option.splits)

lemma first_of_map_none: "(\<And>x. g (f x) = None) \<Longrightarrow> first_of g (map f xs) = None"
  by (induction xs) auto

text \<open>
  C28: Scoping is static.  What a name means depends only on the running frame and the global frames of its object:
  no caller's locals, and no other object's globals, are visible.
\<close>

theorem lookup_static_scoping:
  "lookup_var (S\<lparr>frames := filter (globals_of (frame_object cur)) fs @ [cur]\<rparr>) name = lookup_var (S\<lparr>frames := fs @ [cur]\<rparr>) name \<and>
   lookup_var (S\<lparr>frames := map (\<lambda>F. F\<lparr>locals := []\<rparr>) fs @ [cur]\<rparr>) name = frame_get cur name"
  by (simp add: lookup_var_def lookup_in_def top_frame_def Let_def frame_get_def rev_filter first_of_filter
      rev_map first_of_map_none split: option.splits)

text \<open>
  C25: Through every run of a test the byte count is what the variables own in the frames on the stack and in those
  kept off it, plus what lists, dictionaries and other shared contents have counted, whatever was bound, copied,
  overwritten in whole or in part, refused, removed, pushed, popped, kept, put in another frame's place or dropped.
  The expression depth never passes its cap.
\<close>

theorem scope_bytes_accounted:
  assumes "scope_step\<^sup>*\<^sup>* (new_stack, [], start, start) (S :: 'd scope_stack, A, rest, tot)" and "start \<le> usize_max"
  shows "tot = (\<Sum>F \<leftarrow> frames S @ A. \<Sum>x \<leftarrow> locals F. owned_bytes (snd x)) + rest \<and> expr_depth S \<le> MAX_EXPR_DEPTH"
proof -
  have "stack_ok (S, A, rest, tot)" using assms
  proof (induction "(S, A, rest, tot)" arbitrary: S A rest tot rule: rtranclp_induct)
    case base
    then show ?case by (simp add: stack_ok_def new_stack_def)
  next
    case (step y)
    then show ?case by (cases y) (blast intro: scope_step_ok)
  qed
  then show ?thesis using held_sum[of "frames S"] held_sum[of A] by (simp add: stack_ok_def owned_sum_def o_def)
qed

definition sample_frame :: "mantissa call_frame" where
  "sample_frame = fst (bind_var ''Name'' (VText ''abcd'') (new_frame ''Tests'' ''Run'') 0)"

text \<open>The globals of a codeunit instance: bound off the stack, pushed for a call, kept after it.\<close>

theorem scope_bytes_accounted_witness:
  "4 = (\<Sum>F \<leftarrow> [] @ [sample_frame]. \<Sum>x \<leftarrow> locals F. owned_bytes (snd x)) + 0 \<and>
   expr_depth (new_stack :: mantissa scope_stack) \<le> MAX_EXPR_DEPTH"
proof -
  let ?S = "new_stack :: mantissa scope_stack" and ?N = "new_frame ''Tests'' ''Run'' :: mantissa call_frame"
  have four: "str_len ''abcd'' = 4" by code_simp
  have b: "bind_var ''Name'' (VText ''abcd'' :: mantissa val) ?N 0 = (sample_frame, 4)"
    by (simp add: four sample_frame_def bind_var_def new_frame_def add_held_bytes_def saturating_add_def usize_max_def Let_def)
  have "frame_step ?N 0 sample_frame 4"
    by (rule frame_step.bind[OF _ b]) (simp add: usize_max_def four)
  from scope_step.aside[OF this, of ?S "[]" "[]" 0]
  have bound: "scope_step (?S, [?N], 0, 0) (?S, [sample_frame], 0, 4)" by simp
  have created: "scope_step (?S, [], 0, 0) (?S, [?N], 0, 0)" by (rule scope_step.create)
  have pushed: "scope_step (?S, [sample_frame], 0, 4) (?S\<lparr>frames := [sample_frame]\<rparr>, [], 0, 4)"
    using scope_step.push[of ?S "[]" sample_frame "[]" 0 4] by (simp add: push_frame_def new_stack_def)
  have popped: "scope_step (?S\<lparr>frames := [sample_frame]\<rparr>, [], 0, 4) (?S, [sample_frame], 0, 4)"
    by (rule scope_step.pop) (simp add: pop_frame_def new_stack_def)
  have "scope_step\<^sup>*\<^sup>* (?S, [], 0, 0) (?S, [sample_frame], 0, 4)"
    by (rule converse_rtranclp_into_rtranclp[OF created converse_rtranclp_into_rtranclp[OF bound
          converse_rtranclp_into_rtranclp[OF pushed r_into_rtranclp[where r = scope_step, OF popped]]]])
  from scope_bytes_accounted[OF this] show ?thesis by (simp add: new_stack_def)
qed

text \<open>A write is refused for the sum of what the variable holds and what it would hold.\<close>

lemma recount_counts_both:
  assumes "0 < new" "tot + new \<le> usize_max" "MAX_HELD_BYTES < tot + new"
  shows "fst (slot_recount operation old new F tot) = Err (over_held_budget operation (tot + new))"
  using assms by (simp add: slot_recount_def hold_bytes_def saturating_add_exact)

end
