(* ===== verification/Shared_Contents.thy ===== *)
theory Shared_Contents
  imports Byte_Budget "HOL-Library.AList" "HOL-Library.Multiset"
begin

text \<open>
  The shared contents of Lists, Dictionaries and TextBuilders (\<open>Shared\<close>, \<open>Collection\<close> and
  \<open>take_held_values\<close> of \<^verbatim>\<open>interpreter/value.rs\<close>).  An \<open>Arc\<close> is an address of a heap whose cells keep
  the count of handles, the contents and the bytes the contents have added to the test's total.
  Dropping the last handle moves the values held into a work list that is emptied in a loop.
\<close>

section \<open>Cells\<close>

datatype 'd contents =
    CText string
  | CValues "'d val list"
  | CEntries "(string \<times> 'd val \<times> 'd val) list"

record 'd cell =
  handles :: nat
  cell_contents :: "'d contents"
  cell_held :: nat

type_synonym 'd heap = "(nat \<times> 'd cell) list"

fun take_values :: "'d contents \<Rightarrow> 'd val list" where
  "take_values (CText _) = []"
| "take_values (CValues vs) = vs"
| "take_values (CEntries es) = concat (map (\<lambda>(_, key, v). [key, v]) es)"

fun held_bytes :: "'d contents \<Rightarrow> nat" where
  "held_bytes (CText s) = str_len s"
| "held_bytes (CValues vs) = sum_list (map element_bytes vs)"
| "held_bytes (CEntries es) = sum_list (map (\<lambda>(key_text, key, v). entry_bytes key_text key v) es)"

text \<open>The handles a value holds itself, in the order they are dropped.\<close>

fun refs :: "'d val \<Rightarrow> nat list" where
  "refs (VList a _ _) = [a]"
| "refs (VDict a _ _) = [a]"
| "refs (VTextBuilder a) = [a]"
| "refs (VVariant v) = refs v"
| "refs (VArray vs) = concat (map refs vs)"
| "refs (VRange lo hi) = refs lo @ refs hi"
| "refs _ = []"

definition fresh_address :: "'d heap \<Rightarrow> nat" where
  "fresh_address h = Suc (Max (insert 0 (fst ` set h)))"

definition shared_new :: "'d contents \<Rightarrow> 'd heap \<Rightarrow> nat \<Rightarrow> nat \<times> 'd heap \<times> nat" where
  "shared_new c h tot =
     (let held = held_bytes c; tot = add_held_bytes held tot; a = fresh_address h in
      (a, (a, \<lparr>handles = 1, cell_contents = c, cell_held = held\<rparr>) # h, tot))"

definition update_cell :: "nat \<Rightarrow> ('d cell \<Rightarrow> 'd cell) \<Rightarrow> 'd heap \<Rightarrow> 'd heap" where
  "update_cell a f h = map (\<lambda>(b, c). (b, if b = a then f c else c)) h"

definition shared_clone :: "nat \<Rightarrow> 'd heap \<Rightarrow> 'd heap" where
  "shared_clone a = update_cell a (\<lambda>c. c\<lparr>handles := handles c + 1\<rparr>)"

definition clone_values :: "'d val list \<Rightarrow> 'd heap \<Rightarrow> 'd heap" where
  "clone_values vs h = fold shared_clone (concat (map refs vs)) h"

definition shared_snapshot :: "nat \<Rightarrow> 'd heap \<Rightarrow> 'd contents option \<times> 'd heap" where
  "shared_snapshot a h =
     (case map_of h a of None \<Rightarrow> (None, h)
      | Some c \<Rightarrow> (Some (cell_contents c), clone_values (take_values (cell_contents c)) h))"

definition shared_charge :: "string \<Rightarrow> nat \<Rightarrow> nat \<Rightarrow> 'd heap \<Rightarrow> nat \<Rightarrow> (string + unit) \<times> 'd heap \<times> nat" where
  "shared_charge operation a bytes h tot =
     (case hold_bytes operation bytes tot of
        (Inl e, tot) \<Rightarrow> (Err e, h, tot)
      | (Inr _, tot) \<Rightarrow> (Ok (), update_cell a (\<lambda>c. c\<lparr>cell_held := (cell_held c + bytes) mod 2 ^ 64\<rparr>) h, tot))"

definition held_of :: "'d heap \<Rightarrow> nat \<Rightarrow> nat" where
  "held_of h a = (case map_of h a of None \<Rightarrow> 0 | Some c \<Rightarrow> cell_held c)"

definition shared_release :: "nat \<Rightarrow> nat \<Rightarrow> 'd heap \<Rightarrow> nat \<Rightarrow> 'd heap \<times> nat" where
  "shared_release a bytes h tot =
     (let before = held_of h a in
      (update_cell a (\<lambda>c. c\<lparr>cell_held := cell_held c - bytes\<rparr>) h, release_held_bytes (min before bytes) tot))"

definition shared_recount :: "string \<Rightarrow> nat \<Rightarrow> nat \<Rightarrow> 'd heap \<Rightarrow> nat \<Rightarrow> (string + unit) \<times> 'd heap \<times> nat" where
  "shared_recount operation a bytes h tot =
     (let before = held_of h a; h = update_cell a (\<lambda>c. c\<lparr>cell_held := bytes\<rparr>) h in
      if bytes \<le> before then (Ok (), h, release_held_bytes (before - bytes) tot)
      else let tot = add_held_bytes (bytes - before) tot in (check_held_bytes operation tot, h, tot))"

section \<open>Dropping\<close>

fun emptied_contents :: "'d contents \<Rightarrow> 'd contents" where
  "emptied_contents (CText s) = CText s"
| "emptied_contents (CValues _) = CValues []"
| "emptied_contents (CEntries _) = CEntries []"

text \<open>\<open>Arc::get_mut\<close> succeeds for the last handle only.\<close>

definition take_values_if_last :: "nat \<Rightarrow> 'd heap \<Rightarrow> nat \<Rightarrow> 'd val list \<times> 'd heap \<times> nat" where
  "take_values_if_last a h tot =
     (case map_of h a of
        None \<Rightarrow> ([], h, tot)
      | Some c \<Rightarrow>
          if handles c = 1 then
            (take_values (cell_contents c),
             update_cell a (\<lambda>c. c\<lparr>cell_contents := emptied_contents (cell_contents c), cell_held := 0\<rparr>) h,
             release_held_bytes (cell_held c) tot)
          else ([], h, tot))"

text \<open>Dropping the \<open>Arc\<close> itself: one handle fewer, and no cell without handles.\<close>

definition arc_drop :: "nat \<Rightarrow> 'd heap \<Rightarrow> 'd heap" where
  "arc_drop a h =
     (case map_of h a of None \<Rightarrow> h
      | Some c \<Rightarrow> if handles c \<le> 1 then AList.delete a h else update_cell a (\<lambda>c. c\<lparr>handles := handles c - 1\<rparr>) h)"

definition drop_handle :: "nat \<Rightarrow> 'd heap \<Rightarrow> nat \<Rightarrow> 'd val list \<times> 'd heap \<times> nat" where
  "drop_handle a h tot = (let (vs, h, tot) = take_values_if_last a h tot in (vs, arc_drop a h, tot))"

text \<open>
  One turn of the loop: the values a popped value holds, last pushed first, and the drop of the
  emptied value at the end of the turn.  The bounds of a \<open>Range\<close> are dropped one after the other.
\<close>

fun take_held_values :: "'d val \<Rightarrow> 'd heap \<Rightarrow> nat \<Rightarrow> 'd val list \<times> 'd heap \<times> nat" where
  "take_held_values (VList a _ _) h tot = (let (vs, h, tot) = drop_handle a h tot in (rev vs, h, tot))"
| "take_held_values (VDict a _ _) h tot = (let (vs, h, tot) = drop_handle a h tot in (rev vs, h, tot))"
| "take_held_values (VTextBuilder a) h tot = (let (vs, h, tot) = drop_handle a h tot in (rev vs, h, tot))"
| "take_held_values (VArray vs) h tot = (rev vs, h, tot)"
| "take_held_values (VVariant v) h tot = ([v], h, tot)"
| "take_held_values (VRange lo hi) h tot = ([lo, hi], h, tot)"
| "take_held_values _ h tot = ([], h, tot)"

fun val_size :: "'d val \<Rightarrow> nat" where
  "val_size (VArray vs) = Suc (sum_list (map val_size vs))"
| "val_size (VVariant v) = Suc (val_size v)"
| "val_size (VRange lo hi) = Suc (val_size lo + val_size hi)"
| "val_size _ = 1"

abbreviation vals_size :: "'d val list \<Rightarrow> nat" where
  "vals_size vs \<equiv> sum_list (map val_size vs)"

definition heap_size :: "'d heap \<Rightarrow> nat" where
  "heap_size h = (\<Sum>(a, c) \<leftarrow> h. vals_size (take_values (cell_contents c)))"

lemma val_size_pos [simp]: "0 < val_size v"
  by (cases v) auto

lemma delete_update_cell [simp]: "AList.delete a (update_cell a f h) = AList.delete a h"
  by (induction h) (auto simp: update_cell_def AList.delete_eq)

lemma map_of_update_cell: "map_of (update_cell a f h) b = (if b = a then map_option f (map_of h a) else map_of h b)"
  by (induction h) (auto simp: update_cell_def)

lemma keys_update_cell [simp]: "map fst (update_cell a f h) = map fst h"
  by (simp add: update_cell_def case_prod_unfold comp_def)

lemma drop_handle_cases:
  "drop_handle a h tot =
     (case map_of h a of
        None \<Rightarrow> ([], h, tot)
      | Some c \<Rightarrow>
          if handles c = 1 then (take_values (cell_contents c), AList.delete a h, release_held_bytes (cell_held c) tot)
          else if handles c = 0 then ([], AList.delete a h, tot)
          else ([], update_cell a (\<lambda>c. c\<lparr>handles := handles c - 1\<rparr>) h, tot))"
  by (auto simp: drop_handle_def take_values_if_last_def arc_drop_def map_of_update_cell split: option.splits)

lemma heap_size_delete:
  "heap_size (AList.delete a h) + (case map_of h a of None \<Rightarrow> 0 | Some c \<Rightarrow> vals_size (take_values (cell_contents c))) \<le> heap_size h"
  by (induction h) (auto simp: heap_size_def AList.delete_eq split: option.splits)

lemma heap_size_handles: "heap_size (update_cell a (\<lambda>c. c\<lparr>handles := n c\<rparr>) h) = heap_size h"
  by (induction h) (auto simp: heap_size_def update_cell_def)

lemma drop_handle_size:
  "drop_handle a h tot = (vs, h', tot') \<Longrightarrow> vals_size vs + heap_size h' \<le> heap_size h"
  using heap_size_delete[of a h] by (auto simp: drop_handle_cases heap_size_handles split: option.splits if_splits)

lemma take_held_values_size:
  "take_held_values v h tot = (vs, h', tot') \<Longrightarrow> vals_size vs + heap_size h' < val_size v + heap_size h"
  by (cases v) (auto simp: rev_map[symmetric] split: prod.splits dest!: drop_handle_size)

function drop_loop :: "'d val list \<Rightarrow> 'd heap \<Rightarrow> nat \<Rightarrow> 'd heap \<times> nat" where
  "drop_loop [] h tot = (h, tot)"
| "drop_loop (v # orphans) h tot =
     (let (vs, h, tot) = take_held_values v h tot in drop_loop (vs @ orphans) h tot)"
  by pat_completeness auto

termination drop_loop
proof (relation "measure (\<lambda>(ws, h, _). vals_size ws + heap_size h)")
  fix v :: "'d val" and orphans h tot x vs y h' tot'
  assume "x = take_held_values v h tot" "(vs, y) = x" "(h', tot') = y"
  then show "((vs @ orphans, h', tot'), (v # orphans, h, tot)) \<in> measure (\<lambda>(ws, h, _). vals_size ws + heap_size h)"
    using take_held_values_size[of v h tot vs h' tot'] by auto
qed simp

section \<open>Reference counts\<close>

text \<open>
  The handles that exist, with multiplicity: those of the values the program keeps (\<open>roots\<close>) and
  those inside the cells.  A heap is well counted when every cell counts exactly the handles to it.
\<close>

definition val_refs :: "'d val list \<Rightarrow> nat multiset" where
  "val_refs vs = mset (concat (map refs vs))"

definition heap_refs :: "'d heap \<Rightarrow> nat multiset" where
  "heap_refs h = (\<Sum>(a, c) \<leftarrow> h. val_refs (take_values (cell_contents c)))"

abbreviation all_refs :: "'d val list \<Rightarrow> 'd heap \<Rightarrow> nat multiset" where
  "all_refs roots h \<equiv> val_refs roots + heap_refs h"

definition rc_ok :: "'d val list \<Rightarrow> 'd heap \<Rightarrow> bool" where
  "rc_ok roots h \<longleftrightarrow> distinct (map fst h) \<and> set_mset (all_refs roots h) \<subseteq> dom (map_of h) \<and>
     (\<forall>a c. map_of h a = Some c \<longrightarrow> handles c = count (all_refs roots h) a \<and> 0 < handles c)"

definition held_total :: "'d heap \<Rightarrow> nat" where
  "held_total h = (\<Sum>(a, c) \<leftarrow> h. cell_held c)"

lemma val_refs_simps [simp]:
  "val_refs [] = {#}" "val_refs (v # vs) = mset (refs v) + val_refs vs" "val_refs (vs @ ws) = val_refs vs + val_refs ws"
  "val_refs (rev vs) = val_refs vs"
  by (simp_all add: val_refs_def rev_map[symmetric] mset_concat rev_concat)

lemma heap_refs_simps [simp]:
  "heap_refs [] = {#}" "heap_refs ((a, c) # h) = val_refs (take_values (cell_contents c)) + heap_refs h"
  by (simp_all add: heap_refs_def)

lemma held_total_simps [simp]: "held_total [] = 0" "held_total ((a, c) # h) = cell_held c + held_total h"
  by (simp_all add: held_total_def)

lemma delete_absent: "a \<notin> fst ` set h \<Longrightarrow> AList.delete a h = h"
  by (induction h) (auto simp: AList.delete_eq)

lemma update_absent: "a \<notin> fst ` set h \<Longrightarrow> update_cell a f h = h"
  by (induction h) (auto simp: update_cell_def)

lemma heap_refs_delete:
  "distinct (map fst h) \<Longrightarrow> map_of h a = Some c \<Longrightarrow>
     heap_refs h = val_refs (take_values (cell_contents c)) + heap_refs (AList.delete a h) \<and>
     held_total h = cell_held c + held_total (AList.delete a h)"
  by (induction h) (auto simp: delete_absent split: if_splits)

lemma heap_refs_handles: "heap_refs (update_cell a (\<lambda>c. c\<lparr>handles := n c\<rparr>) h) = heap_refs h"
  "held_total (update_cell a (\<lambda>c. c\<lparr>handles := n c\<rparr>) h) = held_total h"
  by (induction h) (auto simp: update_cell_def)

lemma rc_ok_present: "rc_ok roots h \<Longrightarrow> a \<in># all_refs roots h \<Longrightarrow> \<exists>c. map_of h a = Some c \<and> 0 < handles c"
  by (fastforce simp: rc_ok_def)

lemma drop_handle_ok:
  assumes ok: "rc_ok roots h" and refs: "val_refs roots = {#a#} + val_refs roots'"
    and tot: "held_total h \<le> tot" and d: "drop_handle a h tot = (vs, h', tot')"
  shows "rc_ok (vs @ roots') h' \<and> tot' + held_total h = tot + held_total h'"
proof -
  from ok refs obtain c where c: "map_of h a = Some c" "handles c = count (all_refs roots h) a" "0 < handles c"
    using rc_ok_present[OF ok, of a] by (auto simp: rc_ok_def)
  have dist: "distinct (map fst h)" using ok by (simp add: rc_ok_def)
  note del = heap_refs_delete[OF dist c(1)]
  show ?thesis
  proof (cases "handles c = 1")
    case True
    have h': "h' = AList.delete a h" "vs = take_values (cell_contents c)" "tot' = release_held_bytes (cell_held c) tot"
      using d c True by (auto simp: drop_handle_cases)
    have a0: "a \<notin># val_refs roots' + heap_refs h" using True c(2) refs by (simp add: not_in_iff)
    have eq: "all_refs roots h = add_mset a (all_refs (vs @ roots') h')" using refs del h' by (simp add: ac_simps)
    have "rc_ok (vs @ roots') h'" unfolding rc_ok_def
    proof (intro conjI allI impI)
      show "set_mset (all_refs (vs @ roots') h') \<subseteq> dom (map_of h')"
        using ok eq a0 refs h' del by (auto simp: rc_ok_def delete_conv' restrict_map_def)
      show "handles c' = count (all_refs (vs @ roots') h') b" "0 < handles c'" if "map_of h' b = Some c'" for b c'
        using ok eq that h' by (auto simp: rc_ok_def delete_conv' restrict_map_def split: if_splits)
    qed (simp add: h' dist distinct_delete)
    then show ?thesis using h' del tot by (auto simp: held.release_exact)
  next
    case False
    then have h': "h' = update_cell a (\<lambda>c. c\<lparr>handles := handles c - 1\<rparr>) h" "vs = []" "tot' = tot"
      using d c(1,3) by (auto simp: drop_handle_cases)
    then show ?thesis using ok refs c False
      by (auto simp: rc_ok_def heap_refs_handles map_of_update_cell split: if_splits)
  qed
qed

lemma val_refs_perm: "val_refs roots = val_refs roots' \<Longrightarrow> rc_ok roots h = rc_ok roots' h"
  by (simp add: rc_ok_def)

lemma drop_handle_turn:
  assumes "rc_ok (v # roots) h" "refs v = [a]" "held_total h \<le> tot"
    and "(case drop_handle a h tot of (vs, h, tot) \<Rightarrow> (rev vs, h, tot)) = (vs, h', tot')"
  shows "rc_ok (vs @ roots) h' \<and> tot' + held_total h = tot + held_total h'"
proof -
  obtain ws where d: "drop_handle a h tot = (ws, h', tot')" and vs: "vs = rev ws"
    using assms(4) by (cases "drop_handle a h tot") auto
  have "rc_ok (ws @ roots) h' \<and> tot' + held_total h = tot + held_total h'"
    by (rule drop_handle_ok[OF assms(1) _ assms(3) d]) (simp add: assms(2))
  with val_refs_perm[of "ws @ roots" "vs @ roots"] vs show ?thesis by simp
qed

lemma take_held_values_ok:
  assumes "rc_ok (v # roots) h" "held_total h \<le> tot" and t: "take_held_values v h tot = (vs, h', tot')"
  shows "rc_ok (vs @ roots) h' \<and> tot' + held_total h = tot + held_total h'"
proof -
  note turn = drop_handle_turn[OF assms(1) _ assms(2)]
  have keep: "rc_ok (vs @ roots) h' \<and> tot' + held_total h = tot + held_total h'"
    if "val_refs vs = mset (refs v)" "h' = h" "tot' = tot"
    using assms(1) that val_refs_perm[of "v # roots" "vs @ roots"] by simp
  show ?thesis
  proof (cases v)
    case (VList a m w)
    then show ?thesis using turn[of a] t by simp
  next
    case (VDict a m w)
    then show ?thesis using turn[of a] t by simp
  next
    case (VTextBuilder a)
    then show ?thesis using turn[of a] t by simp
  next
    case (VArray ws)
    then have "mset (refs v) = val_refs ws" by (simp add: val_refs_def)
    then show ?thesis using keep t VArray by auto
  qed (use keep t in auto)
qed

lemma drop_loop_ok:
  "rc_ok (orphans @ roots) h \<Longrightarrow> tot = held_total h + rest \<Longrightarrow> drop_loop orphans h tot = (h', tot') \<Longrightarrow>
     rc_ok roots h' \<and> tot' = held_total h' + rest"
proof (induction orphans h tot rule: drop_loop.induct)
  case (2 v orphans h tot)
  obtain vs h1 tot1 where t: "take_held_values v h tot = (vs, h1, tot1)" by (metis prod_cases3)
  have step: "rc_ok (vs @ orphans @ roots) h1 \<and> tot1 + held_total h = tot + held_total h1"
    using take_held_values_ok[OF _ _ t, of "orphans @ roots"] 2 by simp
  then show ?case using 2 t by (simp add: add.commute)
qed simp

lemma rc_ok_by_handles:
  "rc_ok roots h \<longleftrightarrow> distinct (map fst h) \<and>
     (\<forall>b. case map_option handles (map_of h b) of None \<Rightarrow> count (all_refs roots h) b = 0
          | Some n \<Rightarrow> n = count (all_refs roots h) b \<and> 0 < n)"
  unfolding rc_ok_def by (auto simp: subset_iff count_eq_zero_iff dom_def split: option.splits)

lemma rc_ok_absent: "rc_ok roots h \<Longrightarrow> map_of h b = None \<Longrightarrow> count (all_refs roots h) b = 0"
  unfolding rc_ok_by_handles by (drule conjunct2, drule spec[of _ b]) simp

lemma rc_ok_cell: "rc_ok roots h \<Longrightarrow> map_of h b = Some c \<Longrightarrow> handles c = count (all_refs roots h) b \<and> 0 < handles c"
  unfolding rc_ok_def by blast

text \<open>Dropping only gives bytes back.\<close>

lemma take_held_values_total: "take_held_values v h tot = (vs, h', tot') \<Longrightarrow> tot' \<le> tot"
  by (cases v) (auto simp: drop_handle_cases release_held_bytes_def split: prod.splits option.splits if_splits)

lemma drop_total: "drop_loop vs h tot = (h', tot') \<Longrightarrow> tot' \<le> tot"
  by (induction vs h tot rule: drop_loop.induct)
     (fastforce split: prod.splits dest: take_held_values_total)+

text \<open>The cells that stay keep their contents and their count of bytes.\<close>

definition cells_of :: "'d heap \<Rightarrow> nat \<Rightarrow> ('d contents \<times> nat) option" where
  "cells_of h a = map_option (\<lambda>c. (cell_contents c, cell_held c)) (map_of h a)"

lemma drop_handle_cells: "drop_handle a h tot = (vs, h', tot') \<Longrightarrow> cells_of h' \<subseteq>\<^sub>m cells_of h"
  by (auto simp: drop_handle_cases cells_of_def map_le_def map_of_update_cell delete_conv' restrict_map_def
      split: option.splits if_splits)

lemma take_held_values_cells: "take_held_values v h tot = (vs, h', tot') \<Longrightarrow> cells_of h' \<subseteq>\<^sub>m cells_of h"
  by (cases v) (auto split: prod.splits dest!: drop_handle_cells)

lemma drop_loop_cells: "drop_loop vs h tot = (h', tot') \<Longrightarrow> cells_of h' \<subseteq>\<^sub>m cells_of h"
proof (induction vs h tot rule: drop_loop.induct)
  case (2 v orphans h tot)
  obtain vs h1 tot1 where t: "take_held_values v h tot = (vs, h1, tot1)" by (metis prod_cases3)
  then show ?case using 2 take_held_values_cells[OF t] by (fastforce intro: map_le_trans)
qed simp

lemma in_heap_refs: "a \<in># heap_refs h \<Longrightarrow> \<exists>b d. (b, d) \<in> set h \<and> a \<in># val_refs (take_values (cell_contents d))"
  by (induction h) (auto, blast+)

text \<open>A well counted heap that nothing refers to and that has no cycle of handles is empty.\<close>

lemma unreferenced_acyclic:
  assumes ok: "rc_ok [] h"
    and rank: "\<And>a c b. map_of h a = Some c \<Longrightarrow> b \<in># val_refs (take_values (cell_contents c)) \<Longrightarrow> rank b < (rank a :: nat)"
  shows "h = []"
proof (rule ccontr)
  assume "h \<noteq> []"
  then obtain a where a: "a \<in> fst ` set h" "\<And>b. b \<in> fst ` set h \<Longrightarrow> rank b \<le> rank a"
    using Max_in[of "rank ` fst ` set h"] Max_ge[of "rank ` fst ` set h"] by fastforce
  then obtain c where "map_of h a = Some c" by (meson map_of_eq_None_iff not_Some_eq)
  then have "a \<in># heap_refs h" using rc_ok_cell[OF ok, of a c] by (metis add_0 count_greater_zero_iff val_refs_simps(1))
  then obtain b d where "(b, d) \<in> set h" "a \<in># val_refs (take_values (cell_contents d))"
    using in_heap_refs by blast
  moreover have "map_of h b = Some d" using ok calculation(1) by (simp add: rc_ok_def)
  ultimately show False using rank[of b d a] a(2)[of b] by force
qed

section \<open>The life of shared contents\<close>

text \<open>
  A state is the values the program keeps, the heap and the test's total.  The steps are the
  operations of a handle; \<open>put\<close> is a change of contents under \<open>lock\<close>, which moves handles between
  the program and the cell and copies none.
\<close>

type_synonym 'd memory = "'d val list \<times> 'd heap \<times> nat"

inductive memory_step :: "'d memory \<Rightarrow> 'd memory \<Rightarrow> bool" where
  make: "shared_new c h tot = (a, h', tot') \<Longrightarrow> val_refs roots = val_refs roots' + val_refs (take_values c) \<Longrightarrow>
    refs v = [a] \<Longrightarrow> tot + held_bytes c \<le> usize_max \<Longrightarrow> memory_step (roots, h, tot) (v # roots', h', tot')"
| copy: "v \<in> set roots \<Longrightarrow> memory_step (roots, h, tot) (v # roots, clone_values [v] h, tot)"
| snapshot: "a \<in># val_refs roots \<Longrightarrow> shared_snapshot a h = (Some c, h') \<Longrightarrow>
    memory_step (roots, h, tot) (take_values c @ roots, h', tot)"
| put: "map_of h a = Some c \<Longrightarrow> val_refs roots + val_refs (take_values (cell_contents c)) = val_refs roots' + val_refs (take_values cs) \<Longrightarrow>
    memory_step (roots, h, tot) (roots', update_cell a (\<lambda>c. c\<lparr>cell_contents := cs\<rparr>) h, tot)"
| drop: "drop_loop vs h tot = (h', tot') \<Longrightarrow> memory_step (vs @ roots, h, tot) (roots, h', tot')"
| charge: "shared_charge operation a bytes h tot = (res, h', tot') \<Longrightarrow> a \<in># val_refs roots \<Longrightarrow>
    memory_step (roots, h, tot) (roots, h', tot')"
| release: "shared_release a bytes h tot = (h', tot') \<Longrightarrow> memory_step (roots, h, tot) (roots, h', tot')"
| recount: "shared_recount operation a bytes h tot = (res, h', tot') \<Longrightarrow> a \<in># val_refs roots \<Longrightarrow> tot + bytes \<le> usize_max \<Longrightarrow>
    memory_step (roots, h, tot) (roots, h', tot')"

definition memory_ok :: "nat \<Rightarrow> 'd memory \<Rightarrow> bool" where
  "memory_ok rest = (\<lambda>(roots, h, tot). rc_ok roots h \<and> tot = held_total h + rest \<and> tot \<le> usize_max)"

lemma fresh_address_fresh: "map_of h (fresh_address h) = None"
proof -
  have "b \<le> Max (insert 0 (fst ` set h))" if "b \<in> fst ` set h" for b using that by (intro Max_ge) auto
  then have "fresh_address h \<notin> fst ` set h" unfolding fresh_address_def by (meson Suc_n_not_le_n)
  then show ?thesis by (simp add: map_of_eq_None_iff)
qed

lemma update_cell_Cons: "update_cell a f ((b, c) # h) = (b, if b = a then f c else c) # update_cell a f h"
  by (simp add: update_cell_def)

lemma rc_ok_cong:
  assumes "map fst h' = map fst h" "all_refs roots' h' = all_refs roots h"
    and "\<And>b. map_option handles (map_of h' b) = map_option handles (map_of h b)"
  shows "rc_ok roots' h' \<longleftrightarrow> rc_ok roots h"
  unfolding rc_ok_by_handles assms ..

lemma rc_ok_update_held: "rc_ok roots (update_cell a (\<lambda>c. c\<lparr>cell_held := n c\<rparr>) h) = rc_ok roots h"
proof (rule rc_ok_cong)
  have "heap_refs (update_cell a (\<lambda>c. c\<lparr>cell_held := n c\<rparr>) h) = heap_refs h" by (induction h) (auto simp: update_cell_def)
  then show "all_refs roots (update_cell a (\<lambda>c. c\<lparr>cell_held := n c\<rparr>) h) = all_refs roots h" by simp
qed (simp_all add: map_of_update_cell option.map_comp comp_def)

lemma held_total_update:
  "distinct (map fst h) \<Longrightarrow> map_of h a = Some c \<Longrightarrow>
     held_total (update_cell a f h) + cell_held c = held_total h + cell_held (f c)"
proof (induction h)
  case (Cons x h)
  obtain b c' where x: "x = (b, c')" by fastforce
  show ?case using Cons x update_absent[of a h f] by (auto simp: update_cell_Cons split: if_splits)
qed simp

lemma held_le: "map_of h a = Some c \<Longrightarrow> cell_held c \<le> held_total h"
  by (induction h) (auto split: if_splits)

lemma handles_clone:
  "map_option handles (map_of (fold shared_clone as h) b) = map_option (\<lambda>c. handles c + count (mset as) b) (map_of h b)"
  by (induction as arbitrary: h)
     (auto simp: shared_clone_def map_of_update_cell option.map_comp comp_def cong: option.map_cong)

lemma clone_keeps:
  "heap_refs (fold shared_clone as h) = heap_refs h" "held_total (fold shared_clone as h) = held_total h"
  "map fst (fold shared_clone as h) = map fst h"
  by (induction as arbitrary: h) (auto simp: shared_clone_def heap_refs_handles)

lemma clone_values_ok:
  assumes ok: "rc_ok roots h" and sub: "val_refs vs \<subseteq># all_refs roots h"
  shows "rc_ok (vs @ roots) (clone_values vs h)"
proof -
  have cnt: "count (mset (concat (map refs vs))) b = count (val_refs vs) b" for b by (simp add: val_refs_def)
  have le: "count (val_refs vs) b \<le> count (all_refs roots h) b" for b by (rule mset_subset_eq_count[OF sub])
  show ?thesis unfolding rc_ok_by_handles
  proof (intro conjI allI)
    fix b
    show "case map_option handles (map_of (clone_values vs h) b) of None \<Rightarrow> count (all_refs (vs @ roots) (clone_values vs h)) b = 0
          | Some n \<Rightarrow> n = count (all_refs (vs @ roots) (clone_values vs h)) b \<and> 0 < n"
      unfolding clone_values_def handles_clone cnt clone_keeps
      using rc_ok_absent[OF ok, of b] rc_ok_cell[OF ok, of b] le[of b] by (cases "map_of h b") (auto simp del: count_greater_zero_iff)
  qed (use ok in \<open>simp add: clone_values_def clone_keeps rc_ok_def\<close>)
qed

lemma heap_refs_member: "map_of h a = Some c \<Longrightarrow> val_refs (take_values (cell_contents c)) \<subseteq># heap_refs h"
  by (induction h) (auto split: if_splits intro: subset_mset.order_trans[OF _ mset_subset_eq_add_right])

lemma heap_refs_put:
  "distinct (map fst h) \<Longrightarrow> map_of h a = Some c \<Longrightarrow>
     heap_refs (update_cell a (\<lambda>c. c\<lparr>cell_contents := cs\<rparr>) h) + val_refs (take_values (cell_contents c))
     = heap_refs h + val_refs (take_values cs) \<and>
     held_total (update_cell a (\<lambda>c. c\<lparr>cell_contents := cs\<rparr>) h) = held_total h"
proof (induction h)
  case (Cons x h)
  obtain b c' where x: "x = (b, c')" by fastforce
  show ?case using Cons x update_absent[of a h] by (auto simp: update_cell_Cons ac_simps split: if_splits)
qed simp

lemma shared_new_ok:
  assumes ok: "memory_ok rest (roots, h, tot)" and new: "shared_new c h tot = (a, h', tot')"
    and refs: "val_refs roots = val_refs roots' + val_refs (take_values c)" "refs v = [a]" and "tot + held_bytes c \<le> usize_max"
  shows "memory_ok rest (v # roots', h', tot')"
proof -
  let ?cell = "\<lparr>handles = 1, cell_contents = c, cell_held = held_bytes c\<rparr>"
  have h': "h' = (a, ?cell) # h" "tot' = tot + held_bytes c" "map_of h a = None"
    using new assms(5) fresh_address_fresh[of h] by (auto simp: shared_new_def Let_def held.add_exact)
  have eq: "all_refs (v # roots') h' = add_mset a (all_refs roots h)" using refs h' by (simp add: ac_simps)
  have old: "rc_ok roots h" using ok by (simp add: memory_ok_def)
  then have "count (all_refs roots h) a = 0" using h'(3) by (rule rc_ok_absent)
  then have "case map_option handles (map_of h' b) of None \<Rightarrow> count (all_refs (v # roots') h') b = 0
      | Some n \<Rightarrow> n = count (all_refs (v # roots') h') b \<and> 0 < n" for b
    unfolding eq using old h'(1) rc_ok_absent[OF old, of b] rc_ok_cell[OF old, of b]
    by (cases "b = a"; cases "map_of h b") simp_all
  moreover have "distinct (map fst h')" using old h' by (auto simp: rc_ok_def map_of_eq_None_iff)
  ultimately have "rc_ok (v # roots') h'" unfolding rc_ok_by_handles by blast
  then show ?thesis using ok h' assms(5) by (simp add: memory_ok_def)
qed

lemma held_updated:
  assumes ok: "memory_ok rest (roots, h, tot)" and c: "map_of h a = Some c"
    and tot: "tot' + cell_held c = tot + n c" "tot' \<le> usize_max"
  shows "memory_ok rest (roots, update_cell a (\<lambda>c. c\<lparr>cell_held := n c\<rparr>) h, tot')"
proof -
  have "distinct (map fst h)" using ok by (simp add: memory_ok_def rc_ok_def)
  from held_total_update[OF this c, of "\<lambda>c. c\<lparr>cell_held := n c\<rparr>"] show ?thesis
    using assms held_le[OF c] by (simp add: memory_ok_def rc_ok_update_held)
qed

lemma held_same: "map_of h a = None \<Longrightarrow> update_cell a f h = h"
  by (auto simp: map_of_eq_None_iff intro: update_absent)

lemma memory_ok_root: "memory_ok rest (roots, h, tot) \<Longrightarrow> a \<in># val_refs roots \<Longrightarrow> \<exists>c. map_of h a = Some c"
  using rc_ok_present[of roots h a] by (auto simp: memory_ok_def)

lemma charge_ok:
  assumes ok: "memory_ok rest (roots, h, tot)" and a: "a \<in># val_refs roots"
    and ch: "shared_charge operation a bytes h tot = (res, h', tot')"
  shows "memory_ok rest (roots, h', tot')"
proof (cases "hold_bytes operation bytes tot")
  case (Pair r t)
  from memory_ok_root[OF ok a] obtain c where c: "map_of h a = Some c" by blast
  show ?thesis
  proof (cases r)
    case (Inl e)
    then show ?thesis using ok ch Pair hold_bytes_Err[of operation bytes tot e t] by (simp add: shared_charge_def)
  next
    case (Inr u)
    have t: "t = tot + bytes" "t \<le> usize_max"
      using hold_bytes_exact[of tot operation bytes u t] hold_bytes_Ok[of operation bytes tot u t] Pair Inr ok
      by (auto simp: memory_ok_def saturating_add_def)
    have "cell_held c + bytes < 2 ^ 64" using t ok held_le[OF c] by (simp add: memory_ok_def usize_max_def)
    then show ?thesis
      using held_updated[OF ok c, of t "\<lambda>c. (cell_held c + bytes) mod 2 ^ 64"] t ch Pair Inr
      by (simp add: shared_charge_def)
  qed
qed

lemma release_ok:
  assumes ok: "memory_ok rest (roots, h, tot)" and rel: "shared_release a bytes h tot = (h', tot')"
  shows "memory_ok rest (roots, h', tot')"
proof (cases "map_of h a")
  case None
  then show ?thesis using ok rel held_same[OF None] by (simp add: shared_release_def held_of_def release_held_bytes_def)
next
  case (Some c)
  have "cell_held c \<le> tot" using held_le[OF Some] ok by (simp add: memory_ok_def)
  then show ?thesis
    using held_updated[OF ok Some, of tot' "\<lambda>c. cell_held c - bytes"] rel Some ok
    by (auto simp: shared_release_def held_of_def held.release_exact memory_ok_def min_def Let_def split: if_splits)
qed

lemma recount_ok:
  assumes ok: "memory_ok rest (roots, h, tot)" and a: "a \<in># val_refs roots" and room: "tot + bytes \<le> usize_max"
    and rec: "shared_recount operation a bytes h tot = (res, h', tot')"
  shows "memory_ok rest (roots, h', tot')"
proof -
  from memory_ok_root[OF ok a] obtain c where c: "map_of h a = Some c" by blast
  have "cell_held c \<le> tot" using held_le[OF c] ok by (simp add: memory_ok_def)
  then show ?thesis
    using held_updated[OF ok c, of tot' "\<lambda>_. bytes"] rec c ok room
    by (auto simp: shared_recount_def held_of_def held.release_exact held.add_exact memory_ok_def Let_def split: if_splits)
qed

lemma put_ok:
  assumes ok: "memory_ok rest (roots, h, tot)" and c: "map_of h a = Some c"
    and moved: "val_refs roots + val_refs (take_values (cell_contents c)) = val_refs roots' + val_refs (take_values cs)"
  shows "memory_ok rest (roots', update_cell a (\<lambda>c. c\<lparr>cell_contents := cs\<rparr>) h, tot)"
proof -
  let ?h = "update_cell a (\<lambda>c. c\<lparr>cell_contents := cs\<rparr>) h"
  have dist: "distinct (map fst h)" using ok by (simp add: memory_ok_def rc_ok_def)
  note put = heap_refs_put[OF dist c, of cs]
  have "all_refs roots' ?h + val_refs (take_values (cell_contents c)) = all_refs roots h + val_refs (take_values (cell_contents c))"
    using put moved by (metis add.assoc add.commute)
  then have "all_refs roots' ?h = all_refs roots h" by simp
  then have "rc_ok roots' ?h \<longleftrightarrow> rc_ok roots h"
    by (intro rc_ok_cong) (simp_all add: map_of_update_cell option.map_comp comp_def)
  then show ?thesis using ok put by (simp add: memory_ok_def)
qed

lemma refs_member: "v \<in> set vs \<Longrightarrow> val_refs [v] \<subseteq># val_refs vs"
  by (induction vs) (auto intro: subset_mset.order_trans[OF _ mset_subset_eq_add_right])

lemma memory_step_ok: "memory_step m m' \<Longrightarrow> memory_ok rest m \<Longrightarrow> memory_ok rest m'"
proof (induction rule: memory_step.induct)
  case (make c h tot a h' tot' roots roots' v)
  then show ?case by (blast intro: shared_new_ok)
next
  case (copy v roots h tot)
  have "val_refs [v] \<subseteq># all_refs roots h"
    using refs_member[OF copy(1)] by (rule subset_mset.order_trans) simp
  with clone_values_ok[of roots h "[v]"] copy(2) show ?case
    by (simp add: memory_ok_def clone_values_def clone_keeps)
next
  case (snapshot a roots h c h' tot)
  then obtain cl where cl: "map_of h a = Some cl" "c = cell_contents cl" "h' = clone_values (take_values c) h"
    by (auto simp: shared_snapshot_def split: option.splits)
  have "val_refs (take_values c) \<subseteq># all_refs roots h"
    using heap_refs_member[OF cl(1)] cl(2) by (auto intro: subset_mset.order_trans[OF _ mset_subset_eq_add_right])
  with clone_values_ok[of roots h "take_values c"] snapshot(3) cl(3) show ?case
    by (simp add: memory_ok_def clone_values_def clone_keeps)
next
  case (put h a c roots roots' cs tot)
  then show ?case by (blast intro: put_ok)
next
  case (drop vs h tot h' tot' roots)
  then show ?case using drop_loop_ok[of vs roots h tot rest h' tot'] drop_total[of vs h tot h' tot']
    by (auto simp: memory_ok_def)
qed (blast intro: charge_ok release_ok recount_ok)+

text \<open>
  C23: Reference counting is exact through the life of a test.  After any sequence of creating, copying, taking
  snapshots of, changing, charging, releasing, recounting and dropping shared contents, every handle names a live
  cell, every cell is named by as many handles as it counts and by one at least, and the test's total is the sum of
  what the live cells count and what other holders counted.
\<close>

theorem shared_contents_exact:
  assumes "memory_step\<^sup>*\<^sup>* ([], [], rest) (roots :: 'd val list, h, tot)" and "rest \<le> usize_max"
  shows "set_mset (val_refs roots + heap_refs h) = dom (map_of h) \<and>
    (map_of h a = Some c \<longrightarrow> handles c = count (val_refs roots + heap_refs h) a) \<and>
    tot = (\<Sum>(_, c) \<leftarrow> h. cell_held c) + rest"
proof -
  have "memory_ok rest (roots, h, tot)" using assms
  proof (induction "(roots, h, tot)" arbitrary: roots h tot rule: rtranclp_induct)
    case base
    then show ?case by (simp add: memory_ok_def rc_ok_def)
  next
    case (step y)
    then show ?case by (cases y) (blast intro: memory_step_ok)
  qed
  then have ok: "rc_ok roots h" "tot = held_total h + rest" by (auto simp: memory_ok_def)
  have "b \<in># all_refs roots h" if "map_of h b = Some d" for b d
    using rc_ok_cell[OF ok(1) that] by (metis count_greater_zero_iff)
  then have "dom (map_of h) \<subseteq> set_mset (all_refs roots h)" by blast
  moreover have "set_mset (all_refs roots h) \<subseteq> dom (map_of h)" using ok(1) unfolding rc_ok_def by blast
  ultimately show ?thesis using ok rc_ok_cell[OF ok(1), of a c] unfolding held_total_def by blast
qed

lemma shared_contents_exact_witness:
  "let h = [(1, \<lparr>handles = 1, cell_contents = CText ''ab'', cell_held = 2\<rparr> :: mantissa cell)] in
   set_mset (val_refs [VTextBuilder 1 :: mantissa val] + heap_refs h) = dom (map_of h) \<and>
   2 = (\<Sum>(_, c) \<leftarrow> h. cell_held c) + 0"
proof -
  let ?h = "[(1, \<lparr>handles = 1, cell_contents = CText ''ab'', cell_held = 2\<rparr> :: mantissa cell)]"
  have len: "str_len ''ab'' = 2" by code_simp
  have "shared_new (CText ''ab'') [] 0 = (1, ?h, 2)"
    by (simp add: shared_new_def fresh_address_def len add_held_bytes_def saturating_add_def usize_max_def)
  then have "memory_step ([], [], 0) ([VTextBuilder 1], ?h, 2)"
    by (rule memory_step.make) (simp_all add: len usize_max_def)
  then have run: "memory_step\<^sup>*\<^sup>* ([], [], 0) ([VTextBuilder 1], ?h, 2)" by blast
  show ?thesis using shared_contents_exact[OF run] by (simp add: Let_def)
qed

text \<open>
  C24: Dropping frees.  When no contents hold themselves (the handles inside a cell go to cells of lower rank),
  dropping every value the program keeps frees every cell, however deeply nested, and gives back every byte the
  cells counted; the loop always ends.
\<close>

theorem dropping_frees_all:
  fixes rank :: "nat \<Rightarrow> nat"
  assumes "rc_ok roots (h :: 'd heap)"
    and "\<And>a c b. map_of h a = Some c \<Longrightarrow> b \<in># val_refs (take_values (cell_contents c)) \<Longrightarrow> rank b < rank a"
  shows "drop_loop roots h (held_total h + rest) = ([], rest)"
proof -
  obtain h' tot' where d: "drop_loop roots h (held_total h + rest) = (h', tot')" by fastforce
  have ok: "rc_ok [] h'" "tot' = held_total h' + rest" using drop_loop_ok[of roots "[]", OF _ refl d] assms(1) by auto
  have "h' = []"
  proof (rule unreferenced_acyclic[OF ok(1), of rank])
    fix a c b assume c: "map_of h' a = Some c" "b \<in># val_refs (take_values (cell_contents c))"
    have "cells_of h' a = Some (cell_contents c, cell_held c)" using c(1) by (simp add: cells_of_def)
    then have "cells_of h a = Some (cell_contents c, cell_held c)"
      using drop_loop_cells[OF d] by (metis domI map_le_def)
    then obtain c0 where "map_of h a = Some c0" "cell_contents c0 = cell_contents c" by (auto simp: cells_of_def)
    then show "rank b < rank a" using assms(2) c(2) by metis
  qed
  then show ?thesis using d ok by simp
qed

definition nested_heap :: "mantissa heap" where
  "nested_heap =
     [(1, \<lparr>handles = 1, cell_contents = CValues [VList 2 None None, VVariant (VList 2 None None)], cell_held = 48\<rparr>),
      (2, \<lparr>handles = 2, cell_contents = CValues [VInteger 7], cell_held = 24\<rparr>)]"

lemma dropping_frees_all_witness: "drop_loop [VList 1 None None] nested_heap 72 = ([], 0)"
proof -
  have "rc_ok [VList 1 None None] nested_heap"
    by (auto simp: rc_ok_def nested_heap_def val_refs_def split: if_splits)
  moreover have "(\<lambda>a. 2 - a) b < (\<lambda>a. 2 - a) a"
    if "map_of nested_heap a = Some c" "b \<in># val_refs (take_values (cell_contents c))" for a b :: nat and c
    using that by (auto simp: nested_heap_def val_refs_def split: if_splits)
  ultimately have "drop_loop [VList 1 None None] nested_heap (held_total nested_heap + 0) = ([], 0)"
    by (rule dropping_frees_all)
  then show ?thesis by (simp add: nested_heap_def)
qed

end
