(* ===== verification/Coverage_Data.thy ===== *)
theory Coverage_Data
  imports Prelude "HOL-Library.Word" "HOL-Library.Char_ord" "HOL-Library.List_Lexorder" "HOL-Library.Product_Lexorder"
begin

text \<open>
  Statement, branch and condition coverage of a run (\<^verbatim>\<open>interpreter/coverage.rs\<close>).  A \<open>BTreeMap\<close> is an
  association list sorted by its keys, a \<open>BTreeSet\<close> a sorted list; hits are 64-bit words, which wrap.
  The collectors form a monoid under \<open>merge\<close> (locale \<open>pooled\<close>), and recording an event is merging with
  the collector of that one event.
\<close>

section \<open>Ordered maps with default entries\<close>

text \<open>\<open>f(m.entry(k).or_insert(d))\<close>.\<close>

fun entry :: "'k::linorder \<Rightarrow> 'v \<Rightarrow> ('v \<Rightarrow> 'v) \<Rightarrow> ('k \<times> 'v) list \<Rightarrow> ('k \<times> 'v) list" where
  "entry k d f [] = [(k, f d)]"
| "entry k d f ((k', v) # m) =
     (if k < k' then (k, f d) # (k', v) # m
      else if k = k' then (k', f v) # m
      else (k', v) # entry k d f m)"

definition extend_set :: "'a::linorder list \<Rightarrow> 'a list \<Rightarrow> 'a list" where
  "extend_set dst xs = fold insort_insert xs dst"

text \<open>Adding the entries of one map to those of another, value by value.\<close>

definition map_pool :: "'v \<Rightarrow> ('v \<Rightarrow> 'v \<Rightarrow> 'v) \<Rightarrow> ('k::linorder \<times> 'v) list \<Rightarrow> ('k \<times> 'v) list \<Rightarrow> ('k \<times> 'v) list" where
  "map_pool d pool dst other = fold (\<lambda>(k, v). entry k d (\<lambda>old. pool old v)) other dst"


section \<open>The collector\<close>

record branch_tally =
  then_taken :: "64 word"
  else_taken :: "64 word"
  paths :: "(string \<times> 64 word) list"
  condition_observations :: "((bool list \<times> bool) \<times> 64 word) list"

record coverage =
  cov_files :: "(string \<times> nat list) list"
  cov_branches :: "(string \<times> (nat \<times> branch_tally) list) list"
  current_file :: string

definition tally_default :: branch_tally where
  "tally_default = \<lparr>then_taken = 0, else_taken = 0, paths = [], condition_observations = []\<rparr>"

definition coverage_new :: coverage where
  "coverage_new = \<lparr>cov_files = [], cov_branches = [], current_file = []\<rparr>"

definition set_current_file :: "string \<Rightarrow> coverage \<Rightarrow> string \<times> coverage" where
  "set_current_file file c = (current_file c, c\<lparr>current_file := file\<rparr>)"

definition record_statement :: "nat \<Rightarrow> coverage \<Rightarrow> coverage" where
  "record_statement line c = c\<lparr>cov_files := entry (current_file c) [] (insort_insert line) (cov_files c)\<rparr>"

text \<open>\<open>self.branches.entry(current).or_default().entry(line).or_default()\<close>.\<close>

definition at_tally :: "nat \<Rightarrow> (branch_tally \<Rightarrow> branch_tally) \<Rightarrow> coverage \<Rightarrow> coverage" where
  "at_tally line f c =
     c\<lparr>cov_branches := entry (current_file c) [] (entry line tally_default f) (cov_branches c)\<rparr>"

definition record_decision :: "nat \<Rightarrow> bool \<Rightarrow> coverage \<Rightarrow> coverage" where
  "record_decision line taken =
     at_tally line (\<lambda>t. if taken then t\<lparr>then_taken := then_taken t + 1\<rparr> else t\<lparr>else_taken := else_taken t + 1\<rparr>)"

definition record_condition_observation :: "nat \<Rightarrow> bool list \<Rightarrow> bool \<Rightarrow> coverage \<Rightarrow> coverage" where
  "record_condition_observation line conditions outcome c =
     (if conditions = [] then c
      else at_tally line (\<lambda>t. t\<lparr>condition_observations :=
             entry (conditions, outcome) 0 (\<lambda>n. n + 1) (condition_observations t)\<rparr>) c)"

definition ensure_path :: "nat \<Rightarrow> string \<Rightarrow> coverage \<Rightarrow> coverage" where
  "ensure_path line path = at_tally line (\<lambda>t. t\<lparr>paths := entry path 0 (\<lambda>n. n) (paths t)\<rparr>)"

definition record_path :: "nat \<Rightarrow> string \<Rightarrow> coverage \<Rightarrow> coverage" where
  "record_path line path = at_tally line (\<lambda>t. t\<lparr>paths := entry path 0 (\<lambda>n. n + 1) (paths t)\<rparr>)"

definition is_line_executed :: "coverage \<Rightarrow> string \<Rightarrow> nat \<Rightarrow> bool" where
  "is_line_executed c file line = (case map_of (cov_files c) file of None \<Rightarrow> False | Some s \<Rightarrow> line \<in> set s)"

definition executed_lines_of :: "coverage \<Rightarrow> string \<Rightarrow> nat list option" where
  "executed_lines_of c file = map_of (cov_files c) file"

definition branch_of :: "coverage \<Rightarrow> string \<Rightarrow> nat \<Rightarrow> branch_tally option" where
  "branch_of c file line = Option.bind (map_of (cov_branches c) file) (\<lambda>m. map_of m line)"

definition coverage_is_empty :: "coverage \<Rightarrow> bool" where
  "coverage_is_empty c \<longleftrightarrow> cov_files c = [] \<and> cov_branches c = []"

definition total_executed_lines :: "coverage \<Rightarrow> nat" where
  "total_executed_lines c = sum_list (map (length \<circ> snd) (cov_files c))"

definition tally_merge :: "branch_tally \<Rightarrow> branch_tally \<Rightarrow> branch_tally" where
  "tally_merge agg tally =
     agg\<lparr>then_taken := then_taken agg + then_taken tally, else_taken := else_taken agg + else_taken tally,
         paths := map_pool 0 (+) (paths agg) (paths tally),
         condition_observations := map_pool 0 (+) (condition_observations agg) (condition_observations tally)\<rparr>"

definition coverage_merge :: "coverage \<Rightarrow> coverage \<Rightarrow> coverage" where
  "coverage_merge c other =
     c\<lparr>cov_files := map_pool [] extend_set (cov_files c) (cov_files other),
       cov_branches := map_pool [] (map_pool tally_default tally_merge) (cov_branches c) (cov_branches other)\<rparr>"


section \<open>The report\<close>

record condition_mcdc =
  cond_index :: nat
  covered :: bool

record condition_observation =
  obs_conditions :: "bool list"
  obs_outcome :: bool
  obs_hits :: "64 word"

record mcdc =
  mcdc_conditions :: "condition_mcdc list"
  mcdc_observations :: "condition_observation list"

record branch_coverage =
  bc_line :: nat
  bc_then_taken :: "64 word"
  bc_else_taken :: "64 word"
  bc_paths :: "(string \<times> 64 word) list"
  bc_mcdc :: "mcdc option"

record file_coverage =
  fc_file :: string
  fc_executed_lines :: "nat list"
  fc_branches :: "branch_coverage list"

text \<open>The test of one pair: another outcome, and another value at the index and nowhere else.\<close>

definition independent_pair :: "nat \<Rightarrow> bool list \<times> bool \<Rightarrow> bool list \<times> bool \<Rightarrow> bool" where
  "independent_pair index left right \<longleftrightarrow>
     snd left \<noteq> snd right \<and> fst left ! index \<noteq> fst right ! index \<and>
     list_all (\<lambda>(other_index, l, r). other_index = index \<or> l = r)
       (zip [0..<length (fst left)] (zip (fst left) (fst right)))"

fun any_pair :: "('a \<Rightarrow> 'a \<Rightarrow> bool) \<Rightarrow> 'a list \<Rightarrow> bool" where
  "any_pair P [] = False"
| "any_pair P (left # rest) = (list_ex (P left) rest \<or> any_pair P rest)"

definition condition_count_of :: "((bool list \<times> bool) \<times> 64 word) list \<Rightarrow> nat" where
  "condition_count_of observations = fold max (map (\<lambda>((conditions, _), _). length conditions) observations) 0"

definition mcdc_coverage :: "((bool list \<times> bool) \<times> 64 word) list \<Rightarrow> mcdc option" where
  "mcdc_coverage observations =
     (let condition_count = condition_count_of observations in
      if condition_count < 2 then None
      else let compatible = filter (\<lambda>((conditions, _), _). length conditions = condition_count) observations in
        Some \<lparr>mcdc_conditions =
                map (\<lambda>index. \<lparr>cond_index = index, covered = any_pair (independent_pair index) (map fst compatible)\<rparr>)
                  [0..<condition_count],
              mcdc_observations =
                map (\<lambda>((conditions, outcome), hits).
                       \<lparr>obs_conditions = conditions, obs_outcome = outcome, obs_hits = hits\<rparr>) compatible\<rparr>)"

definition covered_count :: "mcdc \<Rightarrow> nat" where
  "covered_count m = length (filter covered (mcdc_conditions m))"

definition from_observations :: "condition_observation list \<Rightarrow> mcdc option" where
  "from_observations observations =
     mcdc_coverage (fold (\<lambda>ob. entry (obs_conditions ob, obs_outcome ob) 0 (\<lambda>n. n + obs_hits ob)) observations [])"

definition coverage_report :: "coverage \<Rightarrow> file_coverage list" where
  "coverage_report c =
     map (\<lambda>file.
       \<lparr>fc_file = file,
        fc_executed_lines = (case map_of (cov_files c) file of None \<Rightarrow> [] | Some s \<Rightarrow> s),
        fc_branches = (case map_of (cov_branches c) file of None \<Rightarrow> []
          | Some m \<Rightarrow> map (\<lambda>(line, t).
              \<lparr>bc_line = line, bc_then_taken = then_taken t, bc_else_taken = else_taken t, bc_paths = paths t,
               bc_mcdc = mcdc_coverage (condition_observations t)\<rparr>) m)\<rparr>)
       (extend_set (map fst (cov_files c)) (map fst (cov_branches c)))"

section \<open>Maps as functions\<close>

definition sorted_map :: "('k::linorder \<times> 'v) list \<Rightarrow> bool" where
  "sorted_map m \<longleftrightarrow> sorted_wrt (<) (map fst m)"

lemma sorted_map_simps [simp]:
  "sorted_map []" "sorted_map ((k, v) # m) \<longleftrightarrow> (\<forall>x \<in> set m. k < fst x) \<and> sorted_map m"
  by (auto simp: sorted_map_def)

lemma entry_keys: "fst ` set (entry k d f m) = insert k (fst ` set m)"
  by (induction k d f m rule: entry.induct) auto

lemma sorted_map_entry: "sorted_map m \<Longrightarrow> sorted_map (entry k d f m)"
proof (induction m)
  case (Cons x m)
  obtain k' v where x: "x = (k', v)" by fastforce
  have "\<forall>y \<in> set (entry k d f m). k' < fst y" if "\<forall>y \<in> set m. k' < fst y" "k' < k"
    using that entry_keys[of k d f m] by (metis image_iff insertE)
  with Cons x show ?case by (auto simp: not_less_iff_gr_or_eq)
qed simp

lemma map_of_below: "sorted_map ((k', v) # m) \<Longrightarrow> k < k' \<Longrightarrow> map_of m k = None"
  by (force simp: map_of_eq_None_iff)

lemma map_of_entry:
  "sorted_map m \<Longrightarrow> map_of (entry k d f m) j = (if j = k then Some (f (case map_of m k of None \<Rightarrow> d | Some v \<Rightarrow> v)) else map_of m j)"
proof (induction m)
  case (Cons x m)
  obtain k' v where x: "x = (k', v)" by fastforce
  show ?case using Cons x map_of_below[of k' v m k] by (auto split: option.splits)
qed simp

lemma sorted_map_ext:
  assumes "sorted_map m" "sorted_map m'" "map_of m = map_of m'"
  shows "m = m'"
proof -
  have dist: "distinct (map fst m)" "distinct (map fst m')" using assms(1,2)
    by (auto simp: sorted_map_def strict_sorted_iff)
  then have "set m = set m'" using assms(3) by (metis map_of_inject_set)
  moreover have "inj_on fst (set m \<union> set m')" using dist calculation by (simp add: distinct_map)
  ultimately show ?thesis
    using assms dist map_sorted_distinct_set_unique[of fst m m'] by (simp add: sorted_map_def strict_sorted_iff)
qed

section \<open>Pooling\<close>

text \<open>
  What the merge of a map relies on in the merge of its values: on the values that occur, \<open>pool\<close> is
  associative, keeps them well formed, and the default entry is neutral.
\<close>

locale pooled =
  fixes ok :: "'v \<Rightarrow> bool" and zero :: 'v and pool :: "'v \<Rightarrow> 'v \<Rightarrow> 'v"
  assumes ok_zero: "ok zero"
    and ok_pool: "ok a \<Longrightarrow> ok b \<Longrightarrow> ok (pool a b)"
    and zero_pool: "ok a \<Longrightarrow> pool zero a = a"
    and pool_zero: "ok a \<Longrightarrow> pool a zero = a"
    and pool_assoc: "ok a \<Longrightarrow> ok b \<Longrightarrow> ok c \<Longrightarrow> pool (pool a b) c = pool a (pool b c)"

definition map_ok :: "('v \<Rightarrow> bool) \<Rightarrow> ('k::linorder \<times> 'v) list \<Rightarrow> bool" where
  "map_ok ok m \<longleftrightarrow> sorted_map m \<and> (\<forall>(k, v) \<in> set m. ok v)"

text \<open>The pool of two maps as a function of the key.\<close>

definition opt_pool :: "('v \<Rightarrow> 'v \<Rightarrow> 'v) \<Rightarrow> 'v option \<Rightarrow> 'v option \<Rightarrow> 'v option" where
  "opt_pool pool x y = (case (x, y) of (Some a, Some b) \<Rightarrow> Some (pool a b) | (None, _) \<Rightarrow> y | (_, None) \<Rightarrow> x)"

lemma map_ok_mem: "map_ok ok m \<Longrightarrow> map_of m k = Some v \<Longrightarrow> ok v"
  by (auto simp: map_ok_def dest: map_of_SomeD)

lemma map_okI: "sorted_map m \<Longrightarrow> (\<And>k v. map_of m k = Some v \<Longrightarrow> ok v) \<Longrightarrow> map_ok ok m"
  by (auto simp: map_ok_def sorted_map_def strict_sorted_iff)

context pooled
begin

lemma map_of_pool:
  "sorted_map dst \<Longrightarrow> map_ok ok other \<Longrightarrow>
     sorted_map (map_pool zero pool dst other) \<and>
     map_of (map_pool zero pool dst other) k = opt_pool pool (map_of dst k) (map_of other k)"
proof (induction other arbitrary: dst)
  case Nil
  then show ?case by (simp add: map_pool_def opt_pool_def split: option.splits)
next
  case (Cons x other)
  obtain j v where x: "x = (j, v)" by fastforce
  have ok: "ok v" "map_ok ok other" and fresh: "map_of other j = None"
    using Cons.prems x by (auto simp: map_ok_def map_of_eq_None_iff)
  let ?dst = "entry j zero (\<lambda>old. pool old v) dst"
  have "map_pool zero pool dst (x # other) = map_pool zero pool ?dst other" by (simp add: map_pool_def x)
  then show ?case
    using Cons.IH[OF sorted_map_entry[OF Cons.prems(1)] ok(2), of j zero "\<lambda>old. pool old v"] fresh ok x
      map_of_entry[OF Cons.prems(1), of j zero "\<lambda>old. pool old v" k] zero_pool
    by (auto simp: opt_pool_def split: option.splits)
qed

lemma map_ok_pool: "map_ok ok a \<Longrightarrow> map_ok ok b \<Longrightarrow> map_ok ok (map_pool zero pool a b)"
  using map_of_pool[of a b] map_ok_mem[of ok a] map_ok_mem[of ok b] ok_pool
  by (intro map_okI) (auto simp: map_ok_def[of ok a] opt_pool_def split: option.splits)

lemma map_pooled: "pooled (map_ok ok) [] (map_pool zero pool)"
proof
  fix a b c :: "('k::linorder \<times> 'v) list"
  assume a: "map_ok ok a"
  then have sa: "sorted_map a" by (simp add: map_ok_def)
  show "map_pool zero pool [] a = a"
    by (rule sorted_map_ext) (use map_of_pool[OF _ a, of "[]"] sa in \<open>auto simp: opt_pool_def\<close>)
  show "map_pool zero pool a [] = a" by (simp add: map_pool_def)
  assume b: "map_ok ok b"
  show "map_ok ok (map_pool zero pool a b)" by (rule map_ok_pool[OF a b])
  assume c: "map_ok ok c"
  let ?ab = "map_pool zero pool a b" and ?bc = "map_pool zero pool b c"
  have sb: "sorted_map b" using b by (simp add: map_ok_def)
  note ab = map_of_pool[OF sa b] and bc = map_of_pool[OF sb c]
  have "map_of (map_pool zero pool ?ab c) k = map_of (map_pool zero pool a ?bc) k" for k
    using map_of_pool[of ?ab c k] map_of_pool[OF sa map_ok_pool[OF b c], of k] ab[of k] bc[of k] c
      map_ok_mem[OF a, of k] map_ok_mem[OF b, of k] map_ok_mem[OF c, of k] pool_assoc
    by (auto simp: opt_pool_def split: option.splits)
  then show "map_pool zero pool ?ab c = map_pool zero pool a ?bc"
    using map_of_pool[of ?ab c] map_of_pool[OF sa map_ok_pool[OF b c]] ab c by (intro sorted_map_ext) auto
qed (simp add: map_ok_def)

end

text \<open>The monoids of the collector, from the counters up.\<close>

interpretation hits: pooled "\<lambda>_. True" "0 :: 64 word" "(+)"
  by unfold_locales (auto simp: add.assoc)

definition set_ok :: "'a::linorder list \<Rightarrow> bool" where
  "set_ok xs \<longleftrightarrow> sorted xs \<and> distinct xs"

lemma extend_set_ok: "set_ok a \<Longrightarrow> set_ok (extend_set a b) \<and> set (extend_set a b) = set a \<union> set b"
  unfolding extend_set_def set_ok_def
  by (induction b arbitrary: a) (auto simp: sorted_insort_insert distinct_insort_insert set_insort_insert)

lemma set_ok_ext: "set_ok a \<Longrightarrow> set_ok b \<Longrightarrow> set a = set b \<Longrightarrow> a = b"
  by (simp add: set_ok_def sorted_distinct_set_unique)

interpretation line_sets: pooled set_ok "[] :: 'a::linorder list" extend_set
proof
  fix a b c :: "'a list"
  assume a: "set_ok a"
  show "extend_set [] a = a" by (rule set_ok_ext) (use a extend_set_ok[of "[]" a] in \<open>auto simp: set_ok_def\<close>)
  show "extend_set a [] = a" by (simp add: extend_set_def)
  assume b: "set_ok b"
  show "set_ok (extend_set a b)" using extend_set_ok[OF a] by blast
  assume c: "set_ok c"
  show "extend_set (extend_set a b) c = extend_set a (extend_set b c)"
    using extend_set_ok[OF a] extend_set_ok[OF b] extend_set_ok[of "extend_set a b" c]
    by (intro set_ok_ext) (simp_all add: Un_assoc)
qed (simp add: set_ok_def)

interpretation path_hits: pooled "map_ok (\<lambda>_. True)" "[] :: ('k::linorder \<times> 64 word) list" "map_pool 0 (+)"
  by (rule hits.map_pooled)

definition tally_ok :: "branch_tally \<Rightarrow> bool" where
  "tally_ok t \<longleftrightarrow> map_ok (\<lambda>_. True) (paths t) \<and> map_ok (\<lambda>_. True) (condition_observations t)"

interpretation tallies: pooled tally_ok tally_default tally_merge
  by unfold_locales
     (auto simp: tally_ok_def tally_default_def tally_merge_def path_hits.ok_zero path_hits.ok_pool path_hits.zero_pool
       path_hits.pool_zero path_hits.pool_assoc add.assoc)

interpretation lines: pooled "map_ok tally_ok" "[] :: (nat \<times> branch_tally) list" "map_pool tally_default tally_merge"
  by (rule tallies.map_pooled)

interpretation branch_maps: pooled "map_ok (map_ok tally_ok)" "[] :: (string \<times> (nat \<times> branch_tally) list) list"
    "map_pool [] (map_pool tally_default tally_merge)"
  by (rule lines.map_pooled)

interpretation file_maps: pooled "map_ok set_ok" "[] :: (string \<times> nat list) list" "map_pool [] extend_set"
  by (rule line_sets.map_pooled)

definition coverage_ok :: "coverage \<Rightarrow> bool" where
  "coverage_ok c \<longleftrightarrow> map_ok set_ok (cov_files c) \<and> map_ok (map_ok tally_ok) (cov_branches c)"

lemma coverage_merge_assoc:
  "coverage_ok a \<Longrightarrow> coverage_ok b \<Longrightarrow> coverage_ok c \<Longrightarrow>
     coverage_merge (coverage_merge a b) c = coverage_merge a (coverage_merge b c)"
  by (simp add: coverage_ok_def coverage_merge_def file_maps.pool_assoc branch_maps.pool_assoc)

lemma coverage_merge_ok: "coverage_ok a \<Longrightarrow> coverage_ok b \<Longrightarrow> coverage_ok (coverage_merge a b)"
  by (simp add: coverage_ok_def coverage_merge_def file_maps.ok_pool branch_maps.ok_pool)

lemma coverage_merge_file [simp]:
  "coverage_merge (a\<lparr>current_file := f\<rparr>) b = (coverage_merge a b)\<lparr>current_file := f\<rparr>"
  "coverage_merge a (b\<lparr>current_file := f\<rparr>) = coverage_merge a b"
  "current_file (coverage_merge a b) = current_file a"
  "coverage_ok (a\<lparr>current_file := f\<rparr>) = coverage_ok a"
  by (simp_all add: coverage_merge_def coverage_ok_def)


section \<open>Recording is merging\<close>

datatype cov_event =
    Enter_File string
  | Statement nat
  | Decision nat bool
  | Conditions nat "bool list" bool
  | Ensure_Path nat string
  | Take_Path nat string

fun record_event :: "cov_event \<Rightarrow> coverage \<Rightarrow> coverage" where
  "record_event (Enter_File file) c = snd (set_current_file file c)"
| "record_event (Statement line) c = record_statement line c"
| "record_event (Decision line taken) c = record_decision line taken c"
| "record_event (Conditions line cs outcome) c = record_condition_observation line cs outcome c"
| "record_event (Ensure_Path line path) c = ensure_path line path c"
| "record_event (Take_Path line path) c = record_path line path c"

definition record_all :: "cov_event list \<Rightarrow> coverage \<Rightarrow> coverage" where
  "record_all es c = fold record_event es c"

text \<open>The collector of one event in one file.\<close>

fun tally_delta :: "cov_event \<Rightarrow> branch_tally" where
  "tally_delta (Decision _ taken) = tally_default\<lparr>then_taken := if taken then 1 else 0, else_taken := if taken then 0 else 1\<rparr>"
| "tally_delta (Conditions _ cs outcome) = tally_default\<lparr>condition_observations := [((cs, outcome), 1)]\<rparr>"
| "tally_delta (Ensure_Path _ path) = tally_default\<lparr>paths := [(path, 0)]\<rparr>"
| "tally_delta (Take_Path _ path) = tally_default\<lparr>paths := [(path, 1)]\<rparr>"
| "tally_delta _ = tally_default"

fun event_line :: "cov_event \<Rightarrow> nat option" where
  "event_line (Decision line _) = Some line"
| "event_line (Conditions line cs _) = (if cs = [] then None else Some line)"
| "event_line (Ensure_Path line _) = Some line"
| "event_line (Take_Path line _) = Some line"
| "event_line _ = None"

definition event_delta :: "cov_event \<Rightarrow> string \<Rightarrow> coverage" where
  "event_delta e file =
     \<lparr>cov_files = (case e of Statement line \<Rightarrow> [(file, [line])] | _ \<Rightarrow> []),
      cov_branches = (case event_line e of None \<Rightarrow> [] | Some line \<Rightarrow> [(file, [(line, tally_delta e)])]),
      current_file = file\<rparr>"

fun next_file :: "cov_event \<Rightarrow> string \<Rightarrow> string" where
  "next_file (Enter_File file) _ = file"
| "next_file _ file = file"

lemma pool_single: "map_pool d pool m [(k, x)] = entry k d (\<lambda>old. pool old x) m"
  by (simp add: map_pool_def)

lemma pool_none [simp]: "map_pool d pool m [] = m"
  by (simp add: map_pool_def)

lemma record_event_is_merge:
  "record_event e c = (coverage_merge c (event_delta e (current_file c)))\<lparr>current_file := next_file e (current_file c)\<rparr>"
  by (cases e)
     (auto simp: set_current_file_def record_statement_def record_decision_def record_condition_observation_def
       ensure_path_def record_path_def at_tally_def coverage_merge_def event_delta_def pool_single tally_merge_def
       tally_default_def extend_set_def)

lemma event_delta_ok: "coverage_ok (event_delta e file)"
  by (cases e) (auto simp: coverage_ok_def event_delta_def map_ok_def set_ok_def tally_ok_def tally_default_def)

lemma record_event_ok: "coverage_ok c \<Longrightarrow> coverage_ok (record_event e c)"
  by (simp add: record_event_is_merge coverage_merge_ok event_delta_ok)

lemma record_after_merge:
  assumes "coverage_ok c" "coverage_ok c2"
  shows "record_event e ((coverage_merge c c2)\<lparr>current_file := current_file c2\<rparr>) =
     (coverage_merge c (record_event e c2))\<lparr>current_file := current_file (record_event e c2)\<rparr>"
  using assms by (simp add: record_event_is_merge coverage_merge_assoc event_delta_ok)

lemma record_all_after_merge:
  "coverage_ok c \<Longrightarrow> coverage_ok c2 \<Longrightarrow>
     record_all es ((coverage_merge c c2)\<lparr>current_file := current_file c2\<rparr>) =
     (coverage_merge c (record_all es c2))\<lparr>current_file := current_file (record_all es c2)\<rparr>"
  by (induction es arbitrary: c2) (simp_all add: record_all_def record_after_merge record_event_ok)

lemma record_all_ok: "coverage_ok c \<Longrightarrow> coverage_ok (record_all es c)"
  by (induction es arbitrary: c) (simp_all add: record_all_def record_event_ok)

lemma coverage_new_ok: "coverage_ok coverage_new"
  by (simp add: coverage_ok_def coverage_new_def map_ok_def)

text \<open>
  C29: Merging the coverage of two runs is the coverage of one run after the other: the collector that recorded the
  first events, merged with one that recorded the rest, holds exactly the lines, counters, paths and condition
  vectors of a collector that recorded all of them.
\<close>

theorem merge_is_replay:
  "let c1 = record_all es1 coverage_new;
       c2 = record_all es2 (coverage_new\<lparr>current_file := current_file c1\<rparr>) in
   coverage_merge c1 c2 = (record_all (es1 @ es2) coverage_new)\<lparr>current_file := current_file c1\<rparr>"
proof -
  let ?c1 = "record_all es1 coverage_new" and ?e = "coverage_new\<lparr>current_file := current_file (record_all es1 coverage_new)\<rparr>"
  have ok: "coverage_ok ?c1" "coverage_ok ?e" by (simp_all add: record_all_ok coverage_new_ok)
  have "(coverage_merge ?c1 ?e)\<lparr>current_file := current_file ?e\<rparr> = ?c1"
    by (simp add: coverage_merge_def coverage_new_def)
  with record_all_after_merge[OF ok, of es2] show ?thesis by (simp add: Let_def record_all_def)
qed


section \<open>Condition coverage\<close>

lemma any_pair_iff:
  assumes "\<And>x y. x \<in> set xs \<Longrightarrow> y \<in> set xs \<Longrightarrow> P x y = P y x" "\<And>x. \<not> P x x"
  shows "any_pair P xs \<longleftrightarrow> (\<exists>x \<in> set xs. \<exists>y \<in> set xs. P x y)"
  using assms(1)
proof (induction xs)
  case (Cons a xs)
  have "any_pair P xs \<longleftrightarrow> (\<exists>x \<in> set xs. \<exists>y \<in> set xs. P x y)" using Cons by simp
  moreover have "P x a = P a x" if "x \<in> set xs" for x using Cons.prems that by simp
  ultimately show ?case by (auto simp: assms(2) list_ex_iff)
qed simp

lemma independent_pair_iff:
  assumes "length (fst l) = n" "length (fst r) = n" "index < n"
  shows "independent_pair index l r \<longleftrightarrow> snd l \<noteq> snd r \<and> fst r = (fst l)[index := \<not> fst l ! index]"
proof -
  have "list_all (\<lambda>(i, a, b). i = index \<or> a = b) (zip [0..<length (fst l)] (zip (fst l) (fst r))) \<longleftrightarrow>
      (\<forall>i < n. i = index \<or> fst l ! i = fst r ! i)"
    using assms by (simp add: list_all_length)
  then show ?thesis using assms by (auto simp: independent_pair_def list_eq_iff_nth_eq nth_list_update)
qed

lemma flip_flip: "i < length xs \<Longrightarrow> (xs[i := \<not> xs ! i])[i := \<not> (xs[i := \<not> xs ! i]) ! i] = xs"
  by simp

text \<open>
  C30: MC/DC.  Of the recorded vectors with the most conditions, a condition is covered if and only if two of them
  differ in that condition alone and the decision came out differently.
\<close>

theorem mcdc_covered_iff:
  assumes "mcdc_coverage observations = Some m" and "index < length (mcdc_conditions m)"
  shows "covered (mcdc_conditions m ! index) \<longleftrightarrow>
    (\<exists>values outcome. (values, outcome) \<in> fst ` set observations \<and>
       (values[index := \<not> values ! index], \<not> outcome) \<in> fst ` set observations \<and>
       length values = length (mcdc_conditions m))"
proof -
  define n where "n = condition_count_of observations"
  define comp where "comp = filter (\<lambda>((conditions, _), _). length conditions = n) observations"
  have m: "length (mcdc_conditions m) = n"
    "covered (mcdc_conditions m ! index) = any_pair (independent_pair index) (map fst comp)"
    using assms by (auto simp: mcdc_coverage_def Let_def n_def comp_def split: if_splits)
  have mem: "x \<in> set (map fst comp) \<longleftrightarrow> x \<in> fst ` set observations \<and> length (fst x) = n" for x
    by (force simp: comp_def)
  have ind: "independent_pair index x y \<longleftrightarrow> snd x \<noteq> snd y \<and> fst y = (fst x)[index := \<not> fst x ! index]"
    if "x \<in> set (map fst comp)" "y \<in> set (map fst comp)" for x y
    by (rule independent_pair_iff[of _ n]) (use that mem assms(2) m in auto)
  have "any_pair (independent_pair index) (map fst comp) \<longleftrightarrow>
      (\<exists>x \<in> set (map fst comp). \<exists>y \<in> set (map fst comp). independent_pair index x y)"
  proof (rule any_pair_iff)
    fix x y assume xy: "x \<in> set (map fst comp)" "y \<in> set (map fst comp)"
    have len: "index < length (fst x)" "index < length (fst y)" using xy mem assms(2) m(1) by auto
    show "independent_pair index x y = independent_pair index y x"
      unfolding ind[OF xy] ind[OF xy(2,1)] using flip_flip[OF len(1)] flip_flip[OF len(2)] by metis
  qed (simp add: independent_pair_def)
  also have "\<dots> \<longleftrightarrow> (\<exists>x \<in> set (map fst comp). ((fst x)[index := \<not> fst x ! index], \<not> snd x) \<in> set (map fst comp))"
  proof (rule bex_cong[OF refl])
    fix x assume x: "x \<in> set (map fst comp)"
    let ?z = "((fst x)[index := \<not> fst x ! index], \<not> snd x)"
    have "independent_pair index x y \<longleftrightarrow> y = ?z" if "y \<in> set (map fst comp)" for y
      unfolding ind[OF x that] by (cases y) auto
    then show "(\<exists>y \<in> set (map fst comp). independent_pair index x y) \<longleftrightarrow> ?z \<in> set (map fst comp)"
      by (metis (no_types, lifting))
  qed
  also have "\<dots> \<longleftrightarrow> (\<exists>values outcome. (values, outcome) \<in> fst ` set observations \<and>
       (values[index := \<not> values ! index], \<not> outcome) \<in> fst ` set observations \<and> length values = n)"
    by (simp only: Bex_def mem split_paired_Ex fst_conv snd_conv length_list_update) blast
  finally show ?thesis using m by simp
qed

definition sample_observations :: "((bool list \<times> bool) \<times> 64 word) list" where
  "sample_observations = [(([False, True], False), 2), (([True, True], True), 1)]"

lemma mcdc_covered_iff_witness:
  "\<exists>m. mcdc_coverage sample_observations = Some m \<and> covered (mcdc_conditions m ! 0) \<and> \<not> covered (mcdc_conditions m ! 1)"
proof -
  have two: "condition_count_of sample_observations = 2" by (simp add: condition_count_of_def sample_observations_def)
  then obtain m where m: "mcdc_coverage sample_observations = Some m" "length (mcdc_conditions m) = 2"
    by (auto simp: mcdc_coverage_def Let_def)
  have keys: "fst ` set sample_observations = {([False, True], False), ([True, True], True)}"
    by (simp add: sample_observations_def)
  have "covered (mcdc_conditions m ! 0)"
    using mcdc_covered_iff[OF m(1), of 0] m(2) unfolding keys by fastforce
  moreover have "\<not> covered (mcdc_conditions m ! 1)"
    using mcdc_covered_iff[OF m(1), of 1] m(2) unfolding keys by auto
  ultimately show ?thesis using m(1) by blast
qed

text \<open>Pooling reported observations is pooling the collectors: \<open>from_observations\<close> adds entry by entry.\<close>

definition reported :: "((bool list \<times> bool) \<times> 64 word) list \<Rightarrow> condition_observation list" where
  "reported observations =
     (case mcdc_coverage observations of None \<Rightarrow> [] | Some m \<Rightarrow> mcdc_observations m)"

lemma count_same_length:
  assumes "\<And>x. x \<in> set observations \<Longrightarrow> length (fst (fst x)) = n" "observations \<noteq> []"
  shows "condition_count_of observations = n"
proof -
  have "fold max (map (\<lambda>((cs, _), _). length cs) xs) n = n" if "\<And>x. x \<in> set xs \<Longrightarrow> length (fst (fst x)) = n"
    for xs :: "((bool list \<times> bool) \<times> 64 word) list"
    using that by (induction xs) (auto simp: case_prod_unfold)
  with assms show ?thesis by (cases observations) (auto simp: condition_count_of_def case_prod_unfold)
qed

lemma reported_same_length:
  assumes "\<And>x. x \<in> set observations \<Longrightarrow> length (fst (fst x)) = n" "2 \<le> n"
  shows "reported observations =
    map (\<lambda>((cs, outcome), hits). \<lparr>obs_conditions = cs, obs_outcome = outcome, obs_hits = hits\<rparr>) observations"
proof (cases "observations = []")
  case False
  then have "condition_count_of observations = n" using count_same_length assms by blast
  moreover have "filter (\<lambda>((cs, _), _). length cs = n) observations = observations"
    using assms(1) by (auto simp: filter_id_conv)
  ultimately show ?thesis using assms(2) by (simp add: reported_def mcdc_coverage_def)
qed (simp add: reported_def mcdc_coverage_def condition_count_of_def)

lemma fold_reported:
  "fold (\<lambda>ob. entry (obs_conditions ob, obs_outcome ob) 0 (\<lambda>n. n + obs_hits ob))
     (map (\<lambda>((cs, outcome), hits). \<lparr>obs_conditions = cs, obs_outcome = outcome, obs_hits = hits\<rparr>) xs) m = map_pool 0 (+) m xs"
  unfolding map_pool_def by (induction xs arbitrary: m) auto

text \<open>
  Aggregating reports loses nothing.  For two sessions that observed the same decision of at least two
  conditions, recalculating MC/DC from the observations of both reports gives the MC/DC of the merged collectors.
\<close>

theorem from_observations_merges:
  assumes "tally_ok t1" and "\<And>cs outcome hits. ((cs, outcome), hits) \<in> set (condition_observations t1 @ condition_observations t2) \<Longrightarrow> length cs = n"
    and "2 \<le> n"
  shows "from_observations (reported (condition_observations t1) @ reported (condition_observations t2)) =
    mcdc_coverage (condition_observations (tally_merge t1 t2))"
proof -
  have "length (fst (fst x)) = n" if "x \<in> set (condition_observations t1) \<union> set (condition_observations t2)" for x
    using that assms(2)[of "fst (fst x)" "snd (fst x)" "snd x"] by auto
  then have "reported (condition_observations t) =
      map (\<lambda>((cs, outcome), hits). \<lparr>obs_conditions = cs, obs_outcome = outcome, obs_hits = hits\<rparr>) (condition_observations t)"
    if "t \<in> {t1, t2}" for t
    using that by (intro reported_same_length[OF _ assms(3)]) auto
  moreover have "map_pool 0 (+) [] (condition_observations t1) = condition_observations t1"
    using assms(1) by (simp add: tally_ok_def path_hits.zero_pool)
  ultimately show ?thesis by (simp add: from_observations_def fold_reported tally_merge_def)
qed

lemma from_observations_merges_witness:
  "from_observations (reported sample_observations @ reported sample_observations) =
   mcdc_coverage (condition_observations (tally_merge (tally_default\<lparr>condition_observations := sample_observations\<rparr>)
     (tally_default\<lparr>condition_observations := sample_observations\<rparr>)))"
proof -
  let ?t = "tally_default\<lparr>condition_observations := sample_observations\<rparr>"
  have "tally_ok ?t" by (auto simp: tally_ok_def map_ok_def sample_observations_def tally_default_def)
  moreover have "length cs = 2" if "((cs, outcome), hits) \<in> set (condition_observations ?t @ condition_observations ?t)" for cs outcome hits
    using that by (auto simp: sample_observations_def)
  ultimately show ?thesis using from_observations_merges[of ?t ?t 2] by simp
qed

end
