(* ===== verification/Rendering.thy ===== *)
theory Rendering
  imports Text_Builtins Calendar
begin

text \<open>
  Values as text: Format, StrSubstNo and picture strings (\<^verbatim>\<open>interpreter/dispatch/render.rs\<close> and
  \<^verbatim>\<open>picture.rs\<close>).  The decimal type and its rounding to places, \<open>round_dp_with_strategy\<close> with
  \<open>MidpointAwayFromZero\<close>, are arguments.
\<close>

section \<open>Padding and grouping\<close>

definition pad_left :: "string \<Rightarrow> nat option \<Rightarrow> char \<Rightarrow> string" where
  "pad_left text width filler =
     (case width of
        Some w \<Rightarrow> if length text < w then replicate (w - length text) filler @ text else text
      | None \<Rightarrow> text)"

text \<open>\<open>format!("{n:0w$}")\<close>: zeros after the sign.\<close>

definition show_padded :: "nat \<Rightarrow> int \<Rightarrow> string" where
  "show_padded w n =
     (let ds = show_nat (nat \<bar>n\<bar>) in
      if n < 0 then CHR ''-'' # replicate (w - 1 - length ds) (CHR ''0'') @ ds
      else replicate (w - length ds) (CHR ''0'') @ ds)"

fun group_from :: "nat \<Rightarrow> nat \<Rightarrow> string \<Rightarrow> string" where
  "group_from len index [] = []"
| "group_from len index (d # ds) =
     (if index > 0 \<and> (len - index) mod 3 = 0 then [CHR '','', d] else [d]) @ group_from len (index + 1) ds"

definition group_thousands :: "string \<Rightarrow> string" where
  "group_thousands digits = group_from (length digits) 0 digits"

text \<open>\<open>str::split_once(c)\<close>.\<close>

definition split_once :: "char \<Rightarrow> string \<Rightarrow> (string \<times> string) option" where
  "split_once c s = (if c \<in> set s then Some (takeWhile (\<lambda>x. x \<noteq> c) s, drop 1 (dropWhile (\<lambda>x. x \<noteq> c) s)) else None)"

text \<open>\<open>str::parse\<close> for unsigned integers up to \<open>m\<close>.\<close>

definition parse_unsigned :: "nat \<Rightarrow> string \<Rightarrow> nat option" where
  "parse_unsigned m s =
     (let ds = (if starts_with s ''+'' then drop 1 s else s) in
      if ds = [] \<or> \<not> list_all is_ascii_digit ds \<or> digits_val ds > m then None else Some (digits_val ds))"


section \<open>Values\<close>

definition render_time_ms :: "int \<Rightarrow> string" where
  "render_time_ms ms =
     (let seconds = ms div 1000; millis = ms mod 1000;
          h = tdiv seconds 3600; m = trem (tdiv seconds 60) 60; s = trem seconds 60 in
      if millis = 0 then show_padded 2 h @ '':'' @ show_padded 2 m @ '':'' @ show_padded 2 s
      else show_padded 2 h @ '':'' @ show_padded 2 m @ '':'' @ show_padded 2 s @ ''.'' @ show_padded 3 millis)"

fun duration_parts :: "(nat \<times> string) list \<Rightarrow> nat \<Rightarrow> string list" where
  "duration_parts [] rest = []"
| "duration_parts ((unit, name) # units) rest =
     (let count = rest div unit in
      (if count \<noteq> 0 then [show_nat count @ '' '' @ name @ (if count = 1 then '''' else ''s'')] else []) @
      duration_parts units (rest mod unit))"

fun join_with :: "string \<Rightarrow> string list \<Rightarrow> string" where
  "join_with sep [] = []"
| "join_with sep [x] = x"
| "join_with sep (x # xs) = x @ sep @ join_with sep xs"

definition duration_units :: "(nat \<times> string) list" where
  "duration_units = [(86400000, ''day''), (3600000, ''hour''), (60000, ''minute''), (1000, ''second''), (1, ''millisecond'')]"

definition render_duration :: "int \<Rightarrow> string" where
  "render_duration milliseconds =
     (let parts = duration_parts duration_units (nat \<bar>milliseconds\<bar>) in
      if parts = [] then ''0 seconds''
      else if milliseconds < 0 then CHR ''-'' # join_with '' '' parts else join_with '' '' parts)"

definition render_integer :: "int \<Rightarrow> string" where
  "render_integer n = (if n < 0 then ''-'' else '''') @ group_thousands (show_nat (nat \<bar>n\<bar>))"

definition render_decimal :: "'d decimal_ops \<Rightarrow> 'd \<Rightarrow> string" where
  "render_decimal D n =
     (let text = dec_show D (dec_normalize D n);
          (sign, digits) = (if starts_with text ''-'' then (''-'', drop 1 text) else ('''', text)) in
      case split_once (CHR ''.'') digits of
        Some (integer, fraction) \<Rightarrow> sign @ group_thousands integer @ ''.'' @ fraction
      | None \<Rightarrow> sign @ group_thousands digits)"

definition builder_text :: "'d env \<Rightarrow> nat \<Rightarrow> string" where
  "builder_text E a = (case map_of (builders E) a of None \<Rightarrow> '''' | Some s \<Rightarrow> s)"

definition render_date :: "int \<Rightarrow> string" where
  "render_date d = (let (y, m, day) = ymd_from_al_days d in show_padded 2 m @ ''/'' @ show_padded 2 day @ ''/'' @ show_padded 4 y)"

fun render_value :: "'d env \<Rightarrow> 'd val \<Rightarrow> string" where
  "render_value E (VInteger n) = render_integer n"
| "render_value E (VBigInteger n) = render_integer n"
| "render_value E (VDecimal n) = render_decimal (dec E) n"
| "render_value E (VBoolean b) = (if b then ''Yes'' else ''No'')"
| "render_value E (VText s) = s"
| "render_value E (VCode s) = s"
| "render_value E (VTextBuilder a) = builder_text E a"
| "render_value E (VDate d) = (if d = 0 then '''' else render_date d)"
| "render_value E (VTime t) = (if t = 0 then '''' else render_time_ms t)"
| "render_value E (VDateTime dt) =
     (if dt = 0 then '''' else render_date (dt div MS_PER_DAY) @ '' '' @ render_time_ms (dt mod MS_PER_DAY))"
| "render_value E (VDuration d) = render_duration d"
| "render_value E (VGuid g) = g"
| "render_value E (VChar c) = [c]"
| "render_value E VNull = ''''"
| "render_value E VEmpty = ''''"
| "render_value E (VOption _ member _) = member"
| "render_value E other = ''<'' @ type_name other @ ''>''"

definition render_xml_date :: "int \<Rightarrow> string" where
  "render_xml_date d = (let (y, m, day) = ymd_from_al_days d in show_padded 4 y @ ''-'' @ show_padded 2 m @ ''-'' @ show_padded 2 day)"

fun render_value_xml :: "'d env \<Rightarrow> 'd val \<Rightarrow> string" where
  "render_value_xml E (VInteger n) = show_int n"
| "render_value_xml E (VBigInteger n) = show_int n"
| "render_value_xml E (VDecimal n) = dec_show (dec E) (dec_normalize (dec E) n)"
| "render_value_xml E (VBoolean b) = (if b then ''true'' else ''false'')"
| "render_value_xml E (VDate d) = (if d = 0 then '''' else render_xml_date d)"
| "render_value_xml E (VTime t) = (if t = 0 then '''' else render_time_ms t)"
| "render_value_xml E (VDateTime dt) =
     (if dt = 0 then '''' else render_xml_date (dt div MS_PER_DAY) @ ''T'' @ render_time_ms (dt mod MS_PER_DAY) @ ''Z'')"
| "render_value_xml E other = render_value E other"


section \<open>Placeholders\<close>

fun substitute_loop :: "nat \<Rightarrow> (nat \<Rightarrow> string + string) \<Rightarrow> string \<Rightarrow> string \<Rightarrow> string + string" where
  "substitute_loop arg_count render result [] =
     bind_res (check_text_size ''Substituting placeholders'' (str_len result)) (\<lambda>_. Ok result)"
| "substitute_loop arg_count render result (c # cs) =
     (if c \<noteq> CHR 0x25 then substitute_loop arg_count render (result @ [c]) cs
      else let digits = takeWhile is_ascii_digit cs; rest = drop (length digits) cs in
        case parse_unsigned usize_max digits of
          Some n \<Rightarrow>
            if n \<ge> 1 \<and> n \<le> arg_count then
              bind_res (render n) (\<lambda>v.
              bind_res (check_text_size ''Substituting placeholders'' (str_len result + str_len v)) (\<lambda>_.
                substitute_loop arg_count render (result @ v) rest))
            else substitute_loop arg_count render (result @ CHR 0x25 # digits) rest
        | None \<Rightarrow> substitute_loop arg_count render (result @ CHR 0x25 # digits) rest)"

definition substitute_placeholders_with :: "string \<Rightarrow> nat \<Rightarrow> (nat \<Rightarrow> string + string) \<Rightarrow> string + string" where
  "substitute_placeholders_with fmt arg_count render = substitute_loop arg_count render [] fmt"

definition substitute_placeholders :: "'d env \<Rightarrow> string \<Rightarrow> 'd val list \<Rightarrow> string + string" where
  "substitute_placeholders E fmt args =
     substitute_placeholders_with fmt (length args) (\<lambda>n. Ok (render_value E (args ! (n - 1))))"

definition builtin_strsubstno :: "'d env \<Rightarrow> 'd val list \<Rightarrow> string + 'd val" where
  "builtin_strsubstno E args =
     (case args of
        [] \<Rightarrow> Err ''StrSubstNo requires at least 1 argument''
      | v # rest \<Rightarrow>
          let fmt = (case v of VText s \<Rightarrow> s | VCode s \<Rightarrow> s | _ \<Rightarrow> render_value E v) in
          case substitute_placeholders E fmt rest of
            Inr result \<Rightarrow> Ok (VText result)
          | Inl e \<Rightarrow> Err (''StrSubstNo: '' @ e))"

section \<open>Pictures\<close>

datatype part = Literal string | Component string "string option"

definition MONTHS :: "string list" where
  "MONTHS = [''January'', ''February'', ''March'', ''April'', ''May'', ''June'', ''July'', ''August'',
     ''September'', ''October'', ''November'', ''December'']"

definition WEEKDAYS :: "string list" where
  "WEEKDAYS = [''Monday'', ''Tuesday'', ''Wednesday'', ''Thursday'', ''Friday'', ''Saturday'', ''Sunday'']"

definition component_of :: "string \<Rightarrow> part" where
  "component_of inner =
     (case split_once (CHR '','') inner of
        Some (name, argument) \<Rightarrow> Component (to_ascii_lowercase (trim name)) (Some argument)
      | None \<Rightarrow> Component (to_ascii_lowercase (trim inner)) None)"

function picture_parts :: "string \<Rightarrow> string \<Rightarrow> string + part list" where
  "picture_parts picture [] = Ok []"
| "picture_parts picture (c # cs) =
     (if c = CHR ''<'' then
        case split_once (CHR ''>'') cs of
          None \<Rightarrow> Err (''unclosed component in format '' @ [CHR 0x27] @ picture @ [CHR 0x27])
        | Some (inner, rest) \<Rightarrow> bind_res (picture_parts picture rest) (\<lambda>ps. Ok (component_of inner # ps))
      else
        bind_res (picture_parts picture (dropWhile (\<lambda>x. x \<noteq> CHR ''<'') cs))
          (\<lambda>ps. Ok (Literal (c # takeWhile (\<lambda>x. x \<noteq> CHR ''<'') cs) # ps)))"
  by pat_completeness auto

termination picture_parts
proof (relation "measure (length \<circ> snd)")
  show "((picture, rest), (picture, c # cs)) \<in> measure (length \<circ> snd)"
    if "split_once (CHR ''>'') cs = Some x" "(inner, rest) = x" for picture rest inner c cs x
    using that length_dropWhile_le[of "\<lambda>x. x \<noteq> CHR ''>''" cs] by (auto simp: split_once_def split: if_splits)
qed (auto simp: less_Suc_eq_le length_dropWhile_le)

record number_parts =
  num_negative :: bool
  num_integer :: string
  num_fraction :: string

text \<open>A number split for rendering; the fraction is filled up to the smallest number of places.\<close>

definition number_of :: "'d decimal_ops \<Rightarrow> (nat \<Rightarrow> 'd \<Rightarrow> 'd) \<Rightarrow> 'd val \<Rightarrow> (nat \<times> nat) option \<Rightarrow> number_parts option" where
  "number_of D round_dp v precision =
     map_option (\<lambda>d.
       let d = (case precision of Some (_, mx) \<Rightarrow> round_dp mx d | None \<Rightarrow> d);
           text = dec_show D (dec_normalize D (dec_abs D d));
           (integer, fraction) = (case split_once (CHR ''.'') text of Some p \<Rightarrow> p | None \<Rightarrow> (text, ''''));
           fraction = (case precision of
                         Some (mn, _) \<Rightarrow> fraction @ replicate (mn - length fraction) (CHR ''0'')
                       | None \<Rightarrow> fraction) in
       \<lparr>num_negative = dec_num D d < 0, num_integer = integer, num_fraction = fraction\<rparr>)
       (as_decimal D v)"

definition is_number :: "'d val \<Rightarrow> bool" where
  "is_number v = (case v of VInteger _ \<Rightarrow> True | VBigInteger _ \<Rightarrow> True | VDecimal _ \<Rightarrow> True | _ \<Rightarrow> False)"

definition standard_picture :: "'d val \<Rightarrow> int \<Rightarrow> string + string" where
  "standard_picture v number =
     (if is_number v \<and> number = 0 then Ok ''<Sign><Integer Thousand><Decimals>''
      else if is_number v \<and> number = 1 then Ok ''<Sign><Integer><Decimals>''
      else if is_number v \<and> number = 2 then Ok ''<Sign><Integer><Decimals>''
      else if is_number v \<and> number = 3 then Ok ''<Integer Thousand><Decimals><Sign>''
      else if is_number v \<and> number = 4 then Ok ''<Integer><Decimals><Sign>''
      else Err (''standard format '' @ show_int number @ '' of a '' @ type_name v @ '' is not supported by the local runtime''))"

text \<open>The first pass: filler character and precision, the last declaration of each counts.\<close>

definition u32_max :: nat where "u32_max = 2 ^ 32 - 1"

definition precision_of :: "string option \<Rightarrow> string + nat \<times> nat" where
  "precision_of argument =
     (let arg = (case argument of None \<Rightarrow> '''' | Some a \<Rightarrow> a);
          (mn, mx) = (case split_once (CHR '':'') arg of Some p \<Rightarrow> p | None \<Rightarrow> (arg, arg));
          bad = ''invalid precision '' @ [CHR 0x27] @ arg @ [CHR 0x27] in
      bind_res (ok_or (parse_unsigned u32_max (trim mn)) bad) (\<lambda>mn.
      bind_res (ok_or (parse_unsigned u32_max (trim mx)) bad) (\<lambda>mx. Ok (mn, mx))))"

fun picture_settings :: "part list \<Rightarrow> char \<Rightarrow> (nat \<times> nat) option \<Rightarrow> string + char \<times> (nat \<times> nat) option" where
  "picture_settings [] filler precision = Ok (filler, precision)"
| "picture_settings (Literal _ # ps) filler precision = picture_settings ps filler precision"
| "picture_settings (Component name argument # ps) filler precision =
     (if name = ''filler character'' then
        picture_settings ps (case argument of Some (c # _) \<Rightarrow> c | _ \<Rightarrow> CHR '' '') precision
      else if name = ''precision'' then
        bind_res (precision_of argument) (\<lambda>p. picture_settings ps filler (Some p))
      else picture_settings ps filler precision)"

definition date_of :: "'d val \<Rightarrow> int option" where
  "date_of v = (case v of VDate d \<Rightarrow> Some d | VDateTime dt \<Rightarrow> Some (dt div MS_PER_DAY) | _ \<Rightarrow> None)"

definition time_of :: "'d val \<Rightarrow> int option" where
  "time_of v = (case v of VTime t \<Rightarrow> Some t | VDateTime dt \<Rightarrow> Some (dt mod MS_PER_DAY) | _ \<Rightarrow> None)"

text \<open>The components of a date and of a time.\<close>

definition date_component :: "string \<Rightarrow> nat option \<Rightarrow> int \<Rightarrow> string option" where
  "date_component name width d =
     (let (y, m, day) = ymd_from_al_days d;
          text_of = (\<lambda>text. take (case width of Some w \<Rightarrow> w | None \<Rightarrow> length text) text) in
      if name = ''day'' then Some (pad_left (show_int day) width (CHR ''0''))
      else if name = ''month'' then Some (pad_left (show_int m) width (CHR ''0''))
      else if name = ''month text'' then Some (text_of (MONTHS ! nat (m - 1)))
      else if name = ''year'' then Some (show_padded 2 (y mod 100))
      else if name = ''year4'' then Some (show_padded 4 y)
      else if name = ''weekday'' then Some (show_int (weekday_of d))
      else if name = ''weekday text'' then Some (text_of (WEEKDAYS ! nat (weekday_of d - 1)))
      else if name = ''week'' then Some (pad_left (show_int (fst (iso_week d))) width (CHR ''0''))
      else if name = ''closing'' then Some ''''
      else None)"

definition time_component :: "string \<Rightarrow> nat option \<Rightarrow> int \<Rightarrow> string option" where
  "time_component name width ms =
     (let seconds = ms div 1000; hours = tdiv seconds 3600 in
      map_option (\<lambda>text. pad_left text width (CHR ''0''))
       (if name = ''hours24'' then Some (show_int hours)
        else if name = ''hours12'' then Some (show_int (if trem hours 12 = 0 then 12 else trem hours 12))
        else if name = ''minutes'' then Some (show_int (trem (tdiv seconds 60) 60))
        else if name = ''seconds'' then Some (show_int (trem seconds 60))
        else if name = ''thousands'' then Some (show_padded 3 (ms mod 1000))
        else if name = ''am/pm'' then Some (if hours < 12 then ''AM'' else ''PM'')
        else None))"

definition date_names :: "string list" where
  "date_names = [''day'', ''month'', ''month text'', ''year'', ''year4'', ''weekday'', ''weekday text'', ''week'', ''closing'']"

definition time_names :: "string list" where
  "time_names = [''hours24'', ''hours12'', ''minutes'', ''seconds'', ''thousands'', ''am/pm'']"

definition unsupported_component :: "string \<Rightarrow> 'd val \<Rightarrow> string" where
  "unsupported_component name v =
     ''format component <'' @ name @ ''> of a '' @ type_name v @ '' is not supported by the local runtime''"

text \<open>
  One component.  \<open>nested\<close> renders the picture a numbered format stands for, which declares no
  numbered format itself.
\<close>

definition standard_component ::
  "'d env \<Rightarrow> (nat \<Rightarrow> 'd \<Rightarrow> 'd) \<Rightarrow> (string \<Rightarrow> string + string) \<Rightarrow> 'd val \<Rightarrow> (nat \<times> nat) option \<Rightarrow> string option \<Rightarrow> string + string" where
  "standard_component E round_dp nested v precision argument =
     bind_res (ok_or (Option.bind argument (\<lambda>arg. parse_i64 (trim arg))) (unsupported_component ''standard format'' v)) (\<lambda>number.
       if number = 9 then Ok (render_value_xml E v)
       else case number_of (dec E) round_dp v precision of
         Some _ \<Rightarrow> bind_res (standard_picture v number) (\<lambda>standard.
             nested (case precision of
               Some (mn, mx) \<Rightarrow> ''<Precision,'' @ show_nat mn @ '':'' @ show_nat mx @ ''>'' @ standard
             | None \<Rightarrow> standard))
       | None \<Rightarrow> if number = 0 then Ok (render_value E v) else Err (unsupported_component ''standard format'' v))"

definition render_component ::
  "'d env \<Rightarrow> (nat \<Rightarrow> 'd \<Rightarrow> 'd) \<Rightarrow> (string \<Rightarrow> string + string) \<Rightarrow> 'd val \<Rightarrow> char \<Rightarrow> (nat \<times> nat) option \<Rightarrow> string \<Rightarrow> string option \<Rightarrow> string + string" where
  "render_component E round_dp nested v filler precision name argument =
     (let width = Option.bind argument (\<lambda>arg. parse_unsigned usize_max (trim arg));
          unsupported = unsupported_component name v;
          number = (\<lambda>p. ok_or (number_of (dec E) round_dp v p) unsupported) in
      if name = ''filler character'' \<or> name = ''precision'' then Ok ''''
      else if name = ''standard format'' then standard_component E round_dp nested v precision argument
      else if name = ''sign'' then bind_res (number precision) (\<lambda>n. Ok (if num_negative n then ''-'' else ''''))
      else if name = ''integer'' \<or> name = ''integer thousand'' then
        bind_res (number precision) (\<lambda>n.
          Ok (pad_left (if name = ''integer thousand'' then group_thousands (num_integer n) else num_integer n) width filler))
      else if name = ''decimals'' then
        let precision = (case (precision, width) of
                           (None, Some w) \<Rightarrow> Some ((w - 1) mod 2 ^ 32, (w - 1) mod 2 ^ 32)
                         | _ \<Rightarrow> precision) in
        bind_res (number precision) (\<lambda>n. Ok (if num_fraction n = '''' then '''' else CHR ''.'' # num_fraction n))
      else if name \<in> set date_names then
        bind_res (ok_or (date_of v) unsupported) (\<lambda>d. ok_or (date_component name width d) unsupported)
      else if name \<in> set time_names then
        bind_res (ok_or (time_of v) unsupported) (\<lambda>ms. ok_or (time_component name width ms) unsupported)
      else if name = ''text'' then Ok (render_value E v)
      else Err unsupported)"

fun render_parts ::
  "'d env \<Rightarrow> (nat \<Rightarrow> 'd \<Rightarrow> 'd) \<Rightarrow> (string \<Rightarrow> string + string) \<Rightarrow> 'd val \<Rightarrow> char \<Rightarrow> (nat \<times> nat) option \<Rightarrow> part list \<Rightarrow> string \<Rightarrow> string + string" where
  "render_parts E round_dp nested v filler precision [] out = Ok out"
| "render_parts E round_dp nested v filler precision (Literal text # ps) out =
     render_parts E round_dp nested v filler precision ps (out @ text)"
| "render_parts E round_dp nested v filler precision (Component name argument # ps) out =
     bind_res (render_component E round_dp nested v filler precision name argument) (\<lambda>text.
       render_parts E round_dp nested v filler precision ps (out @ text))"

text \<open>
  \<open>render_picture\<close> calls itself for a numbered format only, on a picture without one, so two levels
  are enough (lemma \<open>render_depth_enough\<close>).
\<close>

fun render_depth :: "nat \<Rightarrow> 'd env \<Rightarrow> (nat \<Rightarrow> 'd \<Rightarrow> 'd) \<Rightarrow> 'd val \<Rightarrow> string \<Rightarrow> string + string" where
  "render_depth 0 E round_dp v picture = Err ''''"
| "render_depth (Suc n) E round_dp v picture =
     bind_res (picture_parts picture picture) (\<lambda>parts.
     bind_res (picture_settings parts (CHR '' '') None) (\<lambda>(filler, precision).
       render_parts E round_dp (render_depth n E round_dp v) v filler precision parts ''''))"

definition render_picture :: "'d env \<Rightarrow> (nat \<Rightarrow> 'd \<Rightarrow> 'd) \<Rightarrow> 'd val \<Rightarrow> string \<Rightarrow> string + string" where
  "render_picture E round_dp v picture = render_depth 2 E round_dp v picture"

definition render_standard :: "'d env \<Rightarrow> (nat \<Rightarrow> 'd \<Rightarrow> 'd) \<Rightarrow> 'd val \<Rightarrow> int \<Rightarrow> string + string" where
  "render_standard E round_dp v number = bind_res (standard_picture v number) (render_picture E round_dp v)"


section \<open>Format\<close>

definition format_rendered :: "'d env \<Rightarrow> (nat \<Rightarrow> 'd \<Rightarrow> 'd) \<Rightarrow> 'd val \<Rightarrow> 'd val option \<Rightarrow> string + string" where
  "format_rendered E round_dp v fmt =
     (let wrap = (\<lambda>r. case r of Inr text \<Rightarrow> Ok text | Inl e \<Rightarrow> Err (''Format: '' @ e)) in
      case fmt of
        None \<Rightarrow> Ok (render_value E v)
      | Some (VInteger n) \<Rightarrow>
          if n = 0 then Ok (render_value E v)
          else if n = 9 then Ok (render_value_xml E v)
          else wrap (render_standard E round_dp v n)
      | Some f \<Rightarrow>
          (case as_text f of
             Some s \<Rightarrow> if s = '''' then Ok (render_value E v) else wrap (render_picture E round_dp v s)
           | None \<Rightarrow> Err (''Format: format argument must be an Integer or Text, got '' @ type_name f)))"

definition format_length :: "'d val option \<Rightarrow> string + int" where
  "format_length arg =
     (case arg of None \<Rightarrow> Ok 0
      | Some (VInteger n) \<Rightarrow> Ok n
      | Some other \<Rightarrow> Err (''Format: length must be an Integer, got '' @ type_name other))"

definition fit_text :: "string \<Rightarrow> int \<Rightarrow> string + string" where
  "fit_text rendered len =
     (if len = 0 then Ok rendered
      else let width = nat \<bar>len\<bar>; missing = width - length rendered in
        bind_res (check_text_size ''Format'' (saturating_add (str_len rendered) missing)) (\<lambda>_.
          Ok (if length rendered > width then take width rendered
              else if len > 0 then rendered @ replicate (width - length rendered) (CHR '' '')
              else replicate (width - length rendered) (CHR '' '') @ rendered)))"

definition builtin_format :: "'d env \<Rightarrow> (nat \<Rightarrow> 'd \<Rightarrow> 'd) \<Rightarrow> 'd val list \<Rightarrow> string + 'd val" where
  "builtin_format E round_dp args =
     (case args of
        [] \<Rightarrow> Err ''Format() requires at least 1 argument''
      | v # _ \<Rightarrow>
          if length args > 3 then Err ''Format expects at most 3 arguments''
          else bind_res (format_rendered E round_dp v (arg_at args 2)) (\<lambda>rendered.
               bind_res (format_length (arg_at args 1)) (\<lambda>len.
               bind_res (fit_text rendered len) (\<lambda>text. Ok (VText text)))))"

section \<open>Grouping\<close>

lemma group_from_filter: "CHR '','' \<notin> set ds \<Longrightarrow> filter (\<lambda>c. c \<noteq> CHR '','') (group_from len i ds) = ds"
  by (induction len i ds rule: group_from.induct) auto

lemma group_thousands_filter: "CHR '','' \<notin> set ds \<Longrightarrow> filter (\<lambda>c. c \<noteq> CHR '','') (group_thousands ds) = ds"
  by (simp add: group_thousands_def group_from_filter)

lemma group_from_ends: "ds \<noteq> [] \<Longrightarrow> group_from len i ds \<noteq> [] \<and> last (group_from len i ds) = last ds"
  by (induction len i ds rule: group_from.induct) (auto split: if_splits)

lemma group_from_split:
  "i > 0 \<Longrightarrow> len = i + length (xs @ ds) \<Longrightarrow> length xs < 3 \<Longrightarrow> length ds mod 3 = 0 \<Longrightarrow> 
   group_from len i (xs @ ds) = xs @ group_from len (i + length xs) ds"
proof (induction xs arbitrary: i)
  case (Cons x xs)
  have "(length ds + Suc (length xs)) mod 3 = Suc (length xs)"
    using Cons.prems(3,4) unfolding list.size by presburger
  with Cons show ?case by (simp add: add.commute)
qed simp

lemma group_from_groups:
  "i > 0 \<Longrightarrow> len = i + length ds \<Longrightarrow> length ds = 3 * k \<Longrightarrow>
   \<exists>gs. group_from len i ds = concat (map (Cons (CHR '','')) gs) \<and> concat gs = ds \<and> (\<forall>g \<in> set gs. length g = 3)"
proof (induction k arbitrary: i ds)
  case (Suc k)
  obtain a b c ds' where ds: "ds = a # b # c # ds'" "length ds' = 3 * k"
    using Suc.prems(3) by (auto simp: length_Suc_conv Suc_length_conv eval_nat_numeral)
  obtain gs where gs: "group_from len (i + 3) ds' = concat (map (Cons (CHR '','')) gs)" "concat gs = ds'" "\<forall>g \<in> set gs. length g = 3"
    using Suc.IH[of "i + 3" ds'] Suc.prems ds by auto
  have s3: "i + 3 = Suc (Suc (Suc i))" by simp
  have "group_from len (i + 1) ([b, c] @ ds') = [b, c] @ group_from len (i + 1 + length [b, c]) ds'"
    by (rule group_from_split) (use Suc.prems ds in simp_all)
  then have "group_from len i ds = CHR '','' # [a, b, c] @ group_from len (i + 3) ds'"
    using Suc.prems ds unfolding s3 by simp
  then show ?case using gs ds by (intro exI[of _ "[a, b, c] # gs"]) auto
qed (auto intro: exI[of _ "[]"])

text \<open>Groups of three from the right, the first of one to three digits.\<close>

lemma group_thousands_groups:
  assumes "ds \<noteq> []"
  shows "\<exists>g gs. group_thousands ds = g @ concat (map (Cons (CHR '','')) gs) \<and> g @ concat gs = ds \<and>
    1 \<le> length g \<and> length g \<le> 3 \<and> (\<forall>x \<in> set gs. length x = 3)"
proof -
  obtain d ds' where ds: "ds = d # ds'" using assms by (cases ds) auto
  define xs where "xs = take (length ds' mod 3) ds'"
  define rest where "rest = drop (length ds' mod 3) ds'"
  have split: "ds' = xs @ rest" "length xs = length ds' mod 3" "length rest = 3 * (length ds' div 3)"
    by (simp_all add: xs_def rest_def minus_mod_eq_mult_div)
  have len: "length ds = 1 + length xs + length rest" by (simp add: ds split(1))
  obtain gs where gs: "group_from (length ds) (1 + length xs) rest = concat (map (Cons (CHR '','')) gs)"
      "concat gs = rest" "\<forall>g \<in> set gs. length g = 3"
    using group_from_groups[of "1 + length xs" "length ds" rest, OF _ len split(3)] by auto
  have "group_from (length ds) 1 (xs @ rest) = xs @ group_from (length ds) (1 + length xs) rest"
    by (rule group_from_split) (simp_all add: len split(2,3))
  then have eq: "group_thousands ds = (d # xs) @ concat (map (Cons (CHR '','')) gs)"
    using gs(1) by (simp add: group_thousands_def ds split(1))
  have "length (d # xs) \<le> 3" by (simp add: split(2))
  then show ?thesis using eq gs ds split(1) by (intro exI[of _ "d # xs"] exI[of _ gs]) simp
qed

section \<open>Format and Evaluate\<close>

lemma digit_plain: "is_ascii_digit c \<Longrightarrow> c \<noteq> CHR '','' \<and> c \<noteq> CHR ''l'' \<and> c \<noteq> CHR ''L'' \<and> \<not> is_whitespace c"
  by (auto simp: is_ascii_digit_def is_whitespace_def)

lemma show_nat_no_comma: "CHR '','' \<notin> set (show_nat n)"
  using show_nat_digits[of n] digit_plain by (auto simp: list_all_iff)

lemma last_show_nat: "is_ascii_digit (last (show_nat n))"
  using show_nat_digits[of n] by (simp add: list_all_iff)

lemma hd_group: "ds \<noteq> [] \<Longrightarrow> hd (group_thousands ds) = hd ds"
  by (cases ds) (auto simp: group_thousands_def)

lemma group_nonempty: "ds \<noteq> [] \<Longrightarrow> group_thousands ds \<noteq> []"
  by (cases ds) (auto simp: group_thousands_def)

lemma render_integer_trim: "trim (render_integer n) = render_integer n"
proof (rule trim_id)
  let ?g = "group_thousands (show_nat (nat \<bar>n\<bar>))"
  have g: "?g \<noteq> []" "last ?g = last (show_nat (nat \<bar>n\<bar>))" "hd ?g = hd (show_nat (nat \<bar>n\<bar>))"
    using group_from_ends[of "show_nat (nat \<bar>n\<bar>)"] hd_group[of "show_nat (nat \<bar>n\<bar>)"] by (auto simp: group_thousands_def)
  have "is_ascii_digit (hd (show_nat (nat \<bar>n\<bar>)))" using show_nat_digits[of "nat \<bar>n\<bar>"] by (simp add: list_all_iff)
  then show "\<not> is_whitespace (hd (render_integer n))"
    using g digit_plain by (auto simp: render_integer_def is_whitespace_def)
  show "\<not> is_whitespace (last (render_integer n))"
    using g digit_plain[OF last_show_nat] by (auto simp: render_integer_def)
qed (simp add: render_integer_def group_nonempty)

lemma render_integer_filter: "filter (\<lambda>c. c \<noteq> CHR '','') (render_integer n) = show_int n"
  by (simp add: render_integer_def group_thousands_filter show_nat_no_comma show_int_def)

lemma last_show_int: "is_ascii_digit (last (show_int n))"
  by (simp add: show_int_def last_show_nat)

lemma strip_suffix: "is_ascii_digit (last (show_int n)) \<Longrightarrow>
    rev (dropWhile (\<lambda>c. c = CHR ''l'' \<or> c = CHR ''L'') (rev (show_int n))) = show_int n"
  using digit_plain[of "last (show_int n)"] by (cases "show_int n" rule: rev_cases) auto

text \<open>
  C38: Evaluate reads back what Format writes.  Integers and BigIntegers of 64 bits come back from their rendering
  with grouped thousands, Booleans from Yes and No, texts as they are.
\<close>

theorem format_evaluate_round_trip:
  fixes E :: "'d env"
  assumes "in_i64 n"
  shows "builtin_evaluate D [VInteger k, VText (render_value E (VInteger n))] = Ok (True, Some (VInteger n)) \<and>
    builtin_evaluate D [VBigInteger k, VText (render_value E (VBigInteger n))] = Ok (True, Some (VBigInteger n)) \<and>
    builtin_evaluate D [VBoolean c, VText (render_value E (VBoolean b))] = Ok (True, Some (VBoolean b)) \<and>
    builtin_evaluate D [VText t, VText (render_value E (VText s))] = Ok (True, Some (VText s))"
proof -
  have "to_ascii_lowercase (trim ''Yes'') = ''yes''" "to_ascii_lowercase (trim ''No'') = ''no''" by code_simp+
  then show ?thesis
    by (simp add: builtin_evaluate_def render_integer_trim render_integer_filter parse_show_i64[OF assms]
        strip_suffix[OF last_show_int] Let_def)
qed

lemma format_evaluate_round_trip_witness:
  "render_value sample_env (VInteger (- 1234567)) = ''-1,234,567'' \<and>
   builtin_evaluate sample_decimal [VInteger 0, VText ''-1,234,567''] = Ok (True, Some (VInteger (- 1234567)))"
proof -
  have r: "render_value sample_env (VInteger (- 1234567)) = ''-1,234,567''"
    by (simp add: render_integer_def group_thousands_def show_nat.simps digit_char_def, code_simp)
  have "in_i64 (- 1234567)" by (simp add: int_range_defs)
  from format_evaluate_round_trip[OF this, of sample_decimal 0 sample_env] r show ?thesis by simp
qed

text \<open>
  Format's length.  A positive length fills the rendering with spaces on the right, a negative one on the left,
  and either cuts a longer rendering, so the result has exactly that many characters; 0 leaves it alone.
\<close>

theorem format_length_exact:
  fixes E :: "'d env"
  assumes "builtin_format E round_dp [v, VInteger len] = Ok (VText t)"
  shows "(if len = 0 then t = render_value E v else length t = nat \<bar>len\<bar>) \<and>
    (len > 0 \<longrightarrow> (\<exists>k. t = take (nat len) (render_value E v @ replicate k (CHR '' '')))) \<and>
    (len < 0 \<longrightarrow> t = take (nat \<bar>len\<bar>) (replicate (nat \<bar>len\<bar> - length (render_value E v)) (CHR '' '') @ render_value E v))"
proof -
  have "fit_text (render_value E v) len = Ok t"
    using assms by (auto simp: builtin_format_def arg_at_def format_rendered_def format_length_def bind_res_def split: sum.splits)
  then show ?thesis
    by (auto simp: fit_text_def bind_res_def Let_def not_less split: if_splits sum.splits intro!: exI[of _ "nat len - length (render_value E v)"])
qed

lemma format_length_exact_witness:
  "\<exists>t. builtin_format sample_env (\<lambda>_ d. d) [VInteger 1234, VInteger (- 8)] = Ok (VText t) \<and> length t = 8"
proof -
  have "builtin_format sample_env (\<lambda>_ d. d) [VInteger 1234, VInteger (- 8)] = Ok (VText ''   1,234'')"
  proof -
    have r: "render_value sample_env (VInteger 1234) = ''1,234''"
      by (simp add: render_integer_def group_thousands_def show_nat.simps digit_char_def, code_simp)
    have "str_len ''1,234'' = 5" by code_simp
    then have "fit_text ''1,234'' (- 8) = Ok ''   1,234''"
      by (simp add: fit_text_def check_text_size_def saturating_add_def MAX_TEXT_BYTES_def usize_max_def numeral_3_eq_3)
    then show ?thesis using r by (simp add: builtin_format_def arg_at_def format_rendered_def format_length_def)
  qed
  from format_length_exact[OF this] this show ?thesis by auto
qed

section \<open>Substitution\<close>

text \<open>A template as a list of literal stretches and placeholders, its spelling and its meaning.\<close>

datatype segment = Stretch string | Placeholder nat

fun spell :: "segment \<Rightarrow> string" where
  "spell (Stretch s) = s"
| "spell (Placeholder n) = CHR 0x25 # show_nat n"

fun filled_with :: "'d env \<Rightarrow> 'd val list \<Rightarrow> segment \<Rightarrow> string" where
  "filled_with E args (Stretch s) = s"
| "filled_with E args (Placeholder n) =
     (if 1 \<le> n \<and> n \<le> length args then render_value E (args ! (n - 1)) else spell (Placeholder n))"

text \<open>No percent sign in a stretch, no digit right after a placeholder.\<close>

fun template :: "segment list \<Rightarrow> bool" where
  "template [] = True"
| "template (Stretch s # ss) = (CHR 0x25 \<notin> set s \<and> template ss)"
| "template (Placeholder n # ss) =
     (n \<le> usize_max \<and> (case concat (map spell ss) of [] \<Rightarrow> True | c # _ \<Rightarrow> \<not> is_ascii_digit c) \<and> template ss)"

lemma str_len_append [simp]: "str_len (s @ t) = str_len s + str_len t"
  by (simp add: str_len_def)

lemma substitute_stretch:
  "CHR 0x25 \<notin> set s \<Longrightarrow> substitute_loop k render out (s @ t) = substitute_loop k render (out @ s) t"
  by (induction s arbitrary: out) auto

lemma parse_unsigned_show: "n \<le> m \<Longrightarrow> parse_unsigned m (show_nat n) = Some n"
proof -
  assume "n \<le> m"
  obtain c cs where s: "show_nat n = c # cs" using show_nat_nonempty[of n] by (cases "show_nat n") auto
  then have "is_ascii_digit c" using show_nat_digits[of n] by simp
  then have "\<not> starts_with (show_nat n) ''+''" using s by (auto simp: is_ascii_digit_def)
  then show ?thesis using \<open>n \<le> m\<close> show_nat_digits[of n] by (simp add: parse_unsigned_def)
qed

lemma digits_then:
  "(case t of [] \<Rightarrow> True | c # _ \<Rightarrow> \<not> is_ascii_digit c) \<Longrightarrow> takeWhile is_ascii_digit (show_nat n @ t) = show_nat n"
  using show_nat_digits[of n] by (cases t) (auto simp: list_all_iff takeWhile_append)

lemma substitute_placeholder:
  assumes "n \<le> usize_max" "case t of [] \<Rightarrow> True | c # _ \<Rightarrow> \<not> is_ascii_digit c"
  shows "substitute_loop k render out (spell (Placeholder n) @ t) =
    (if 1 \<le> n \<and> n \<le> k then
       bind_res (render n) (\<lambda>v. bind_res (check_text_size ''Substituting placeholders'' (str_len out + str_len v)) (\<lambda>_.
         substitute_loop k render (out @ v) t))
     else substitute_loop k render (out @ spell (Placeholder n)) t)"
  using digits_then[OF assms(2)] parse_unsigned_show[OF assms(1)] by (simp add: Let_def)

lemma substitute_loop_template:
  "template ss \<Longrightarrow> \<exists>e. substitute_loop (length args) (\<lambda>n. Ok (render_value E (args ! (n - 1)))) out (concat (map spell ss)) =
     (let text = out @ concat (map (filled_with E args) ss) in if str_len text \<le> MAX_TEXT_BYTES then Ok text else Err e)"
proof (induction ss arbitrary: out rule: template.induct)
  case 1
  then show ?case by (simp add: check_text_size_def Let_def)
next
  case (2 s ss)
  then show ?case using 2(1)[of "out @ s"] by (simp add: substitute_stretch)
next
  case (3 n ss)
  let ?t = "concat (map spell ss)"
  have t: "n \<le> usize_max" "case ?t of [] \<Rightarrow> True | c # _ \<Rightarrow> \<not> is_ascii_digit c" "template ss" using 3(2) by auto
  note step = substitute_placeholder[OF t(1,2), of "length args" "\<lambda>n. Ok (render_value E (args ! (n - 1)))" out]
  show ?case
    using 3(1)[OF t(3), of "out @ filled_with E args (Placeholder n)"] step
    by (cases "1 \<le> n \<and> n \<le> length args")
       (auto simp: check_text_size_def Let_def bind_res_def simp del: spell.simps(2) substitute_loop.simps)
qed

text \<open>
  StrSubstNo replaces each placeholder of a template by the rendering of its argument, once and from left to
  right, so a percent sign in an argument stays as it is; a placeholder without an argument stays too.  It fails
  exactly when the result would be longer than a text may be.
\<close>

theorem strsubstno_fills:
  fixes E :: "'d env"
  assumes "template ss"
  shows "case builtin_strsubstno E (VText (concat (map spell ss)) # args) of
      Inr v \<Rightarrow> v = VText (concat (map (filled_with E args) ss)) \<and> str_len (concat (map (filled_with E args) ss)) \<le> MAX_TEXT_BYTES
    | Inl _ \<Rightarrow> str_len (concat (map (filled_with E args) ss)) > MAX_TEXT_BYTES"
  using substitute_loop_template[OF assms, of args E "[]"]
  by (auto simp: builtin_strsubstno_def substitute_placeholders_def substitute_placeholders_with_def Let_def split: sum.splits if_splits)

lemma strsubstno_fills_witness:
  "builtin_strsubstno sample_env [VText ''a %1%2 %3'', VText ''%2'', VText ''b''] = Ok (VText ''a %2b %3'')"
proof -
  let ?ss = "[Stretch ''a '', Placeholder 1, Placeholder 2, Stretch '' '', Placeholder 3]"
  let ?args = "[VText ''%2'', VText ''b'' :: mantissa val]"
  have d: "show_nat 1 = ''1''" "show_nat 2 = ''2''" "show_nat 3 = ''3''" by code_simp+
  have tmpl: "template ?ss" by (simp add: d usize_max_def is_ascii_digit_def)
  have eqs: "concat (map spell ?ss) = ''a %1%2 %3''" "concat (map (filled_with sample_env ?args) ?ss) = ''a %2b %3''"
    by (simp_all add: d d(1)[unfolded One_nat_def])
  have "str_len ''a %2b %3'' \<le> MAX_TEXT_BYTES" by (simp add: str_len_def len_utf8_def MAX_TEXT_BYTES_def)
  with strsubstno_fills[OF tmpl, of sample_env ?args] show ?thesis unfolding eqs by (auto split: sum.splits)
qed

section \<open>Pictures and the standard formats\<close>

text \<open>A picture without a numbered format does not look below its own level.\<close>

definition no_standard :: "part list \<Rightarrow> bool" where
  "no_standard ps \<longleftrightarrow> (\<forall>argument. Component ''standard format'' argument \<notin> set ps)"

lemma render_parts_nested:
  "no_standard ps \<Longrightarrow>
     render_parts E round_dp nested v filler precision ps out = render_parts E round_dp nested' v filler precision ps out"
proof (induction ps arbitrary: out)
  case (Cons p ps)
  then have ps: "no_standard ps" by (auto simp: no_standard_def)
  show ?case
  proof (cases p)
    case (Component name argument)
    then have other: "name \<noteq> ''standard format''" using Cons.prems by (auto simp: no_standard_def)
    then have "render_component E round_dp nested v filler precision name argument =
        render_component E round_dp nested' v filler precision name argument"
      unfolding render_component_def by (simp only: other if_False)
    then show ?thesis using Component Cons.IH[OF ps] by (simp add: bind_res_def split: sum.splits)
  qed (use Cons.IH[OF ps] in simp)
qed simp

lemma standard_pictures:
  "standard_picture v number = Ok s \<Longrightarrow>
     s \<in> {''<Sign><Integer Thousand><Decimals>'', ''<Sign><Integer><Decimals>'', ''<Integer Thousand><Decimals><Sign>'', ''<Integer><Decimals><Sign>''}"
  by (auto simp: standard_picture_def split: if_splits)

lemma standard_parts:
  "picture_parts w ''<Sign><Integer Thousand><Decimals>'' = Ok [Component ''sign'' None, Component ''integer thousand'' None, Component ''decimals'' None]"
  "picture_parts w ''<Sign><Integer><Decimals>'' = Ok [Component ''sign'' None, Component ''integer'' None, Component ''decimals'' None]"
  "picture_parts w ''<Integer Thousand><Decimals><Sign>'' = Ok [Component ''integer thousand'' None, Component ''decimals'' None, Component ''sign'' None]"
  "picture_parts w ''<Integer><Decimals><Sign>'' = Ok [Component ''integer'' None, Component ''decimals'' None, Component ''sign'' None]"
  by (simp_all add: split_once_def component_of_def trim_def trim_start_def trim_end_def is_whitespace_def to_ascii_lowercase_def ascii_lower_char_def, code_simp+)

lemma split_once_append: "c \<notin> set s \<Longrightarrow> split_once c (s @ c # t) = Some (s, t)"
  by (induction s) (auto simp: split_once_def)

lemma precision_parts:
  "picture_parts w (''<Precision,'' @ show_nat mn @ '':'' @ show_nat mx @ ''>'' @ s) =
     bind_res (picture_parts w s) (\<lambda>ps. Ok (Component ''precision'' (Some (show_nat mn @ '':'' @ show_nat mx)) # ps))"
proof -
  have no: "CHR ''>'' \<notin> set (show_nat n)" for n using show_nat_digits[of n] by (auto simp: list_all_iff is_ascii_digit_def)
  let ?arg = "show_nat mn @ '':'' @ show_nat mx"
  have inner: "split_once (CHR ''>'') (''Precision,'' @ ?arg @ CHR ''>'' # s) = Some (''Precision,'' @ ?arg, s)"
    using split_once_append[of "CHR ''>''" "''Precision,'' @ ?arg" s] no by simp
  have name: "to_ascii_lowercase (trim ''Precision'') = ''precision''" by code_simp
  have "split_once (CHR '','') (''Precision'' @ CHR '','' # ?arg) = Some (''Precision'', ?arg)"
    by (rule split_once_append) simp
  then have "component_of (''Precision,'' @ ?arg) = Component ''precision'' (Some ?arg)"
    using name by (simp add: component_of_def)
  then show ?thesis using inner by simp
qed

lemma standard_no_standard:
  assumes "standard_picture v number = Ok s" "picture_parts w s = Ok ps"
  shows "no_standard ps"
  using standard_pictures[OF assms(1)] assms(2) standard_parts[of w] by (auto simp: no_standard_def)

lemma render_depth_simple:
  assumes "\<And>ps. picture_parts s s = Ok ps \<Longrightarrow> no_standard ps"
  shows "render_depth (Suc n) E round_dp v s = render_depth (Suc m) E round_dp v s"
proof (cases "picture_parts s s")
  case (Inr ps)
  then show ?thesis
    using render_parts_nested[OF assms[OF Inr], of E round_dp "render_depth n E round_dp v" v _ _ "[]" "render_depth m E round_dp v"]
    by (simp add: bind_res_def case_prod_unfold split: sum.splits)
qed simp

lemma standard_component_depth:
  "standard_component E round_dp (render_depth (Suc n) E round_dp v) v precision argument =
   standard_component E round_dp (render_depth (Suc m) E round_dp v) v precision argument"
proof -
  have eq: "render_depth (Suc n) E round_dp v (pre @ s) = render_depth (Suc m) E round_dp v (pre @ s)"
    if "standard_picture v number = Ok s" and "pre = [] \<or> (\<exists>mn mx. pre = ''<Precision,'' @ show_nat mn @ '':'' @ show_nat mx @ ''>'')"
    for number s pre
  proof (rule render_depth_simple)
    fix ps assume ps: "picture_parts (pre @ s) (pre @ s) = Ok ps"
    from that(2) show "no_standard ps"
    proof
      assume "\<exists>mn mx. pre = ''<Precision,'' @ show_nat mn @ '':'' @ show_nat mx @ ''>''"
      then obtain mn mx where "pre = ''<Precision,'' @ show_nat mn @ '':'' @ show_nat mx @ ''>''" by blast
      then show ?thesis using ps precision_parts[of "pre @ s" mn mx s] standard_no_standard[OF that(1), of "pre @ s"]
        by (auto simp: no_standard_def bind_res_def split: sum.splits)
    qed (use ps standard_no_standard[OF that(1)] in auto)
  qed
  have plain: "render_depth (Suc n) E round_dp v s = render_depth (Suc m) E round_dp v s"
    if "standard_picture v number = Ok s" for number s using eq[OF that, of "[]"] by (simp del: render_depth.simps)
  have prec: "render_depth (Suc n) E round_dp v (''<Precision,'' @ show_nat mn @ '':'' @ show_nat mx @ ''>'' @ s) =
      render_depth (Suc m) E round_dp v (''<Precision,'' @ show_nat mn @ '':'' @ show_nat mx @ ''>'' @ s)"
    if "standard_picture v number = Ok s" for number s mn mx
  proof -
    let ?pre = "''<Precision,'' @ show_nat mn @ '':'' @ show_nat mx @ ''>''"
    have "\<exists>mn mx. ?pre = ''<Precision,'' @ show_nat mn @ '':'' @ show_nat mx @ ''>''" by blast
    then show ?thesis using eq[OF that, of ?pre] by (simp only: append_assoc) blast
  qed
  show ?thesis
    unfolding standard_component_def bind_res_def
    by (auto simp del: render_depth.simps append.simps intro: plain prec split: sum.splits option.splits)
qed

lemma render_component_depth:
  "render_component E round_dp (render_depth (Suc n) E round_dp v) v filler precision name argument =
   render_component E round_dp (render_depth (Suc m) E round_dp v) v filler precision name argument"
  unfolding render_component_def standard_component_depth[of E round_dp n v _ _ m] ..

lemma render_parts_depth:
  "render_parts E round_dp (render_depth (Suc n) E round_dp v) v filler precision ps out =
   render_parts E round_dp (render_depth (Suc m) E round_dp v) v filler precision ps out"
proof (induction ps arbitrary: out)
  case (Cons p ps)
  then show ?case
    by (cases p) (simp_all del: render_depth.simps add: render_component_depth[of E round_dp n v _ _ _ _ m] bind_res_def
       split: sum.splits)
qed simp

lemma render_depth_enough: "render_depth (Suc (Suc n)) E round_dp v s = render_picture E round_dp v s"
  unfolding render_picture_def numeral_2_eq_2
  by (subst (1 2) render_depth.simps) (simp only: render_parts_depth[of E round_dp n v _ _ _ _ 0])

lemma padded_pad: "0 \<le> n \<Longrightarrow> pad_left (show_int n) (Some w) (CHR ''0'') = show_padded w n"
  by (auto simp: pad_left_def show_padded_def show_int_def Let_def)

lemma calendar_parts:
  "picture_parts w ''<Year4>-<Month,2>-<Day,2>'' =
     Ok [Component ''year4'' None, Literal ''-'', Component ''month'' (Some ''2''), Literal ''-'', Component ''day'' (Some ''2'')]"
  "picture_parts w ''<Hours24,2>:<Minutes,2>:<Seconds,2>'' =
     Ok [Component ''hours24'' (Some ''2''), Literal '':'', Component ''minutes'' (Some ''2''), Literal '':'', Component ''seconds'' (Some ''2'')]"
  by (simp_all add: split_once_def component_of_def trim_def trim_start_def trim_end_def is_whitespace_def
      to_ascii_lowercase_def ascii_lower_char_def, code_simp+)

lemma width_two: "parse_unsigned usize_max (trim ''2'') = Some 2"
  by (simp add: parse_unsigned_def trim_def trim_start_def trim_end_def is_whitespace_def is_ascii_digit_def digits_val_def
      digit_val_def usize_max_def)

lemma calendar_components:
  "date_of v = Some d \<Longrightarrow> render_component E rd nested v filler precision ''year4'' None = Ok (show_padded 4 (fst (ymd_from_al_days d)))"
  "date_of v = Some d \<Longrightarrow> render_component E rd nested v filler precision ''month'' (Some ''2'') = Ok (show_padded 2 (fst (snd (ymd_from_al_days d))))"
  "date_of v = Some d \<Longrightarrow> render_component E rd nested v filler precision ''day'' (Some ''2'') = Ok (show_padded 2 (snd (snd (ymd_from_al_days d))))"
proof -
  obtain y m dd where ymd: "ymd_from_al_days d = (y, m, dd)" by (metis prod_cases3)
  then have pos: "0 \<le> m" "0 \<le> dd" using ymd_of_al_days[of d y m dd] by (auto simp: valid_civil_def)
  note defs = render_component_def Let_def date_names_def date_component_def ok_or_def width_two ymd padded_pad pos
  show "date_of v = Some d \<Longrightarrow> render_component E rd nested v filler precision ''year4'' None = Ok (show_padded 4 (fst (ymd_from_al_days d)))"
    "date_of v = Some d \<Longrightarrow> render_component E rd nested v filler precision ''month'' (Some ''2'') = Ok (show_padded 2 (fst (snd (ymd_from_al_days d))))"
    "date_of v = Some d \<Longrightarrow> render_component E rd nested v filler precision ''day'' (Some ''2'') = Ok (show_padded 2 (snd (snd (ymd_from_al_days d))))"
    by (simp_all add: defs)
qed

lemma clock_components:
  assumes "time_of v = Some t" "0 \<le> t"
  shows "render_component E rd nested v filler precision ''hours24'' (Some ''2'') = Ok (show_padded 2 (tdiv (t div 1000) 3600))"
    "render_component E rd nested v filler precision ''minutes'' (Some ''2'') = Ok (show_padded 2 (trem (tdiv (t div 1000) 60) 60))"
    "render_component E rd nested v filler precision ''seconds'' (Some ''2'') = Ok (show_padded 2 (trem (t div 1000) 60))"
proof -
  have pos: "0 \<le> tdiv (t div 1000) 3600" "0 \<le> trem (tdiv (t div 1000) 60) 60" "0 \<le> trem (t div 1000) 60"
    using assms(2) by (simp_all add: tdiv_nonneg trem_def pos_imp_zdiv_nonneg_iff minus_div_mult_eq_mod)
  note defs = render_component_def Let_def date_names_def time_names_def time_component_def ok_or_def width_two padded_pad pos assms
  show "render_component E rd nested v filler precision ''hours24'' (Some ''2'') = Ok (show_padded 2 (tdiv (t div 1000) 3600))"
    "render_component E rd nested v filler precision ''minutes'' (Some ''2'') = Ok (show_padded 2 (trem (tdiv (t div 1000) 60) 60))"
    "render_component E rd nested v filler precision ''seconds'' (Some ''2'') = Ok (show_padded 2 (trem (t div 1000) 60))"
    by (simp_all add: defs)
qed

text \<open>
  The picture renderer agrees with the fixed renderings.  Standard format 0 of an integer, as a picture, is its
  default rendering; year, month and day components spell the XML date; hours, minutes and seconds spell a time of
  whole seconds.  The decimal type must print the magnitude of an integer as its digits.
\<close>

theorem standard_format_agrees:
  fixes E :: "'d env"
  assumes exact: "dec_exact (dec E)" and n: "in_i64 n"
    and shown: "dec_show (dec E) (dec_normalize (dec E) (dec_abs (dec E) (dec_from (dec E) n))) = show_nat (nat \<bar>n\<bar>)"
    and d: "d \<noteq> 0" and t: "0 < t" "t mod 1000 = 0"
  shows "render_standard E round_dp (VInteger n) 0 = Ok (render_value E (VInteger n)) \<and>
    render_picture E round_dp (VDate d) ''<Year4>-<Month,2>-<Day,2>'' = Ok (render_value_xml E (VDate d)) \<and>
    render_picture E round_dp (VTime t) ''<Hours24,2>:<Minutes,2>:<Seconds,2>'' = Ok (render_value E (VTime t))"
proof (intro conjI)
  have nodot: "CHR ''.'' \<notin> set (show_nat k)" for k
    using show_nat_digits[of k] by (auto simp: list_all_iff is_ascii_digit_def)
  have num: "number_of (dec E) round_dp (VInteger n) None =
      Some \<lparr>num_negative = n < 0, num_integer = show_nat (nat \<bar>n\<bar>), num_fraction = []\<rparr>"
    using exact n shown nodot by (simp add: number_of_def split_once_def dec_exact_def)
  show "render_standard E round_dp (VInteger n) 0 = Ok (render_value E (VInteger n))"
    by (simp add: render_standard_def standard_picture_def is_number_def render_picture_def numeral_2_eq_2 standard_parts
        render_component_def num ok_or_def pad_left_def render_integer_def del: picture_parts.simps)
  show "render_picture E round_dp (VDate d) ''<Year4>-<Month,2>-<Day,2>'' = Ok (render_value_xml E (VDate d))"
    using d by (simp add: render_picture_def numeral_2_eq_2 calendar_parts calendar_components[of "VDate d" d] date_of_def
        render_xml_date_def case_prod_unfold Let_def del: picture_parts.simps)
  show "render_picture E round_dp (VTime t) ''<Hours24,2>:<Minutes,2>:<Seconds,2>'' = Ok (render_value E (VTime t))"
    using t by (simp add: render_picture_def numeral_2_eq_2 calendar_parts clock_components[of "VTime t" t] time_of_def
        render_time_ms_def Let_def del: picture_parts.simps)
qed

lemma standard_format_agrees_witness:
  "render_standard sample_env (\<lambda>_ d. d) (VInteger (- 5)) 0 = Ok ''-5'' \<and>
   render_picture sample_env (\<lambda>_ d. d) (VTime 3723000) ''<Hours24,2>:<Minutes,2>:<Seconds,2>'' = Ok (render_value sample_env (VTime 3723000))"
proof -
  have shown: "dec_show (dec sample_env) (dec_normalize (dec sample_env) (dec_abs (dec sample_env) (dec_from (dec sample_env) (- 5)))) = show_nat (nat \<bar>- 5\<bar>)"
    by code_simp
  have r: "render_value sample_env (VInteger (- 5)) = ''-5''" by code_simp
  have "in_i64 (- 5)" by (simp add: int_range_defs)
  from standard_format_agrees[where E = sample_env, OF _ this shown, of 1 3723000] r show ?thesis
    by (simp add: sample_decimal_exact)
qed

text \<open>A picture is not held to the limit on the size of a text: the width of a component is taken as written.\<close>

lemma day_picture:
  "picture_parts w (''<Day,'' @ show_nat k @ ''>'') = Ok [Component ''day'' (Some (show_nat k))]"
proof -
  have no: "CHR ''>'' \<notin> set (show_nat k)" using show_nat_digits[of k] by (auto simp: list_all_iff is_ascii_digit_def)
  have "split_once (CHR ''>'') ((''Day,'' @ show_nat k) @ CHR ''>'' # []) = Some (''Day,'' @ show_nat k, [])"
    by (rule split_once_append) (use no in auto)
  moreover have "split_once (CHR '','') (''Day'' @ CHR '','' # show_nat k) = Some (''Day'', show_nat k)"
    by (rule split_once_append) simp
  moreover have "to_ascii_lowercase (trim ''Day'') = ''day''" by code_simp
  ultimately show ?thesis by (simp add: component_of_def)
qed

lemma trim_show_nat: "trim (show_nat k) = show_nat k"
  using show_nat_digits[of k] digit_plain by (intro trim_id) (auto simp: list_all_iff)

lemma picture_width_unbounded:
  assumes "k \<le> usize_max"
  shows "\<exists>t. builtin_format E round_dp [VDate d, VInteger 0, VText (''<Day,'' @ show_nat k @ ''>'')] = Ok (VText t) \<and> k \<le> length t"
proof -
  have "render_picture E round_dp (VDate d) (''<Day,'' @ show_nat k @ ''>'') =
      Ok (pad_left (show_int (snd (snd (ymd_from_al_days d)))) (Some k) (CHR ''0''))"
    using parse_unsigned_show[OF assms] unfolding render_picture_def numeral_2_eq_2 render_depth.simps day_picture
    by (simp add: render_component_def trim_show_nat date_names_def date_of_def date_component_def ok_or_def case_prod_unfold)
  then show ?thesis
    by (simp add: builtin_format_def arg_at_def format_rendered_def format_length_def fit_text_def pad_left_def)
qed

end
