(* ===== verification/Variable_Storage.thy ===== *)
theory Variable_Storage
  imports Rendering
begin

text \<open>
  The native codeunit Library - Variable Storage (\<^verbatim>\<open>stubs/library_variable_storage.rs\<close>): a queue of at most
  25 values that tests and handlers share.  The thread-local queue is an argument and a result; a
  message is a constructor of \<open>lvs_error\<close> with the values it shows.
\<close>

section \<open>The queue\<close>

definition MAX_QUEUE_SIZE :: nat where "MAX_QUEUE_SIZE = 25"

type_synonym 'd lvs_queue = "'d val list"

datatype lvs_error =
    Queue_Overflow
  | Queue_Underflow
  | Index_Out_Of_Bounds
  | Peek_Unavailable int int
  | Queue_Not_Empty nat
  | Queue_Not_Full nat nat
  | Type_Mismatch string string
  | Expects string string

definition lvs_enqueue :: "'d val \<Rightarrow> 'd lvs_queue \<Rightarrow> (lvs_error + unit) \<times> 'd lvs_queue" where
  "lvs_enqueue v q = (if length q \<ge> MAX_QUEUE_SIZE then (Err Queue_Overflow, q) else (Ok (), q @ [v]))"

fun lvs_dequeue :: "'d lvs_queue \<Rightarrow> (lvs_error + 'd val) \<times> 'd lvs_queue" where
  "lvs_dequeue [] = (Err Queue_Underflow, [])"
| "lvs_dequeue (v # q) = (Ok v, q)"

definition lvs_peek :: "nat \<Rightarrow> 'd lvs_queue \<Rightarrow> lvs_error + 'd val" where
  "lvs_peek index q = (if index = 0 \<or> index > length q then Err Index_Out_Of_Bounds else Ok (q ! (index - 1)))"

definition reset_queue :: "'d lvs_queue \<Rightarrow> 'd lvs_queue" where
  "reset_queue q = []"


section \<open>The procedures\<close>

type_synonym 'd lvs_result = "(lvs_error + 'd val) \<times> 'd lvs_queue"

definition assert_empty :: "'d val list \<Rightarrow> 'd lvs_queue \<Rightarrow> 'd lvs_result" where
  "assert_empty args q = (if length q \<noteq> 0 then (Err (Queue_Not_Empty (length q)), []) else (Ok VEmpty, []))"

definition assert_full :: "'d val list \<Rightarrow> 'd lvs_queue \<Rightarrow> 'd lvs_result" where
  "assert_full args q =
     (if length q \<ge> MAX_QUEUE_SIZE then (Ok VEmpty, q) else (Err (Queue_Not_Full (length q) MAX_QUEUE_SIZE), q))"

definition assert_not_overflow :: "'d val list \<Rightarrow> 'd lvs_queue \<Rightarrow> 'd lvs_result" where
  "assert_not_overflow args q = (if length q + 1 > MAX_QUEUE_SIZE then (Err Queue_Overflow, q) else (Ok VEmpty, q))"

definition assert_not_underflow :: "'d val list \<Rightarrow> 'd lvs_queue \<Rightarrow> 'd lvs_result" where
  "assert_not_underflow args q = (if q = [] then (Err Queue_Underflow, q) else (Ok VEmpty, q))"

definition assert_peek_available :: "'d val list \<Rightarrow> 'd lvs_queue \<Rightarrow> 'd lvs_result" where
  "assert_peek_available args q =
     (case map as_int args of
        [Some index] \<Rightarrow>
          if index \<le> 0 \<or> index > int (length q) then (Err (Peek_Unavailable index (int (length q))), q) else (Ok VEmpty, q)
      | _ \<Rightarrow> (Err (Expects ''AssertPeekAvailable'' ''(Integer)''), q))"

definition lvs_clear :: "'d val list \<Rightarrow> 'd lvs_queue \<Rightarrow> 'd lvs_result" where
  "lvs_clear args q = (Ok VEmpty, [])"

definition enqueue :: "'d val list \<Rightarrow> 'd lvs_queue \<Rightarrow> 'd lvs_result" where
  "enqueue args q =
     (case args of
        [v] \<Rightarrow> (case lvs_enqueue v q of (Inr _, q) \<Rightarrow> (Ok VEmpty, q) | (Inl e, q) \<Rightarrow> (Err e, q))
      | _ \<Rightarrow> (Err (Expects ''Enqueue'' ''(Variant)''), q))"

definition dequeue :: "'d val list \<Rightarrow> 'd lvs_queue \<Rightarrow> 'd lvs_result" where
  "dequeue args q = lvs_dequeue q"

definition peek :: "'d val list \<Rightarrow> 'd lvs_queue \<Rightarrow> 'd lvs_result" where
  "peek args q =
     (case map as_int args of
        [Some i] \<Rightarrow> (lvs_peek (as_usize i) q, q)
      | [_, Some i] \<Rightarrow> (lvs_peek (as_usize i) q, q)
      | _ \<Rightarrow> (Err (Expects ''Peek'' ''(Variant, Integer)''), q))"

definition lvs_length :: "'d val list \<Rightarrow> 'd lvs_queue \<Rightarrow> 'd lvs_result" where
  "lvs_length args q = (Ok (VInteger (int (length q))), q)"

definition max_length :: "'d val list \<Rightarrow> 'd lvs_queue \<Rightarrow> 'd lvs_result" where
  "max_length args q = (Ok (VInteger (int MAX_QUEUE_SIZE)), q)"

text \<open>What the typed procedures do with the value taken or read.\<close>

fun as_decimal_value :: "'d decimal_ops \<Rightarrow> string \<Rightarrow> 'd val \<Rightarrow> lvs_error + 'd val" where
  "as_decimal_value D p (VDecimal d) = Ok (VDecimal d)"
| "as_decimal_value D p (VInteger i) = Ok (VDecimal (dec_from D i))"
| "as_decimal_value D p (VBigInteger i) = Ok (VDecimal (dec_from D i))"
| "as_decimal_value D p v = Err (Type_Mismatch p (type_name v))"

definition only :: "('d val \<Rightarrow> bool) \<Rightarrow> string \<Rightarrow> 'd val \<Rightarrow> lvs_error + 'd val" where
  "only P p v = (if P v then Ok v else Err (Type_Mismatch p (type_name v)))"

definition take_as :: "('d val \<Rightarrow> lvs_error + 'd val) \<Rightarrow> 'd lvs_queue \<Rightarrow> 'd lvs_result" where
  "take_as conv q = (case lvs_dequeue q of (r, q) \<Rightarrow> (bind_res r conv, q))"

fun is_integer_value :: "'d val \<Rightarrow> bool" where
  "is_integer_value (VInteger _) = True"
| "is_integer_value (VBigInteger _) = True"
| "is_integer_value _ = False"

definition is_small_integer :: "'d val \<Rightarrow> bool" where
  "is_small_integer v = (case v of VInteger _ \<Rightarrow> True | _ \<Rightarrow> False)"
definition is_date_value :: "'d val \<Rightarrow> bool" where
  "is_date_value v = (case v of VDate _ \<Rightarrow> True | _ \<Rightarrow> False)"
definition is_date_time_value :: "'d val \<Rightarrow> bool" where
  "is_date_time_value v = (case v of VDateTime _ \<Rightarrow> True | _ \<Rightarrow> False)"
definition is_time_value :: "'d val \<Rightarrow> bool" where
  "is_time_value v = (case v of VTime _ \<Rightarrow> True | _ \<Rightarrow> False)"
definition is_boolean_value :: "'d val \<Rightarrow> bool" where
  "is_boolean_value v = (case v of VBoolean _ \<Rightarrow> True | _ \<Rightarrow> False)"

definition dequeue_text :: "'d env \<Rightarrow> 'd val list \<Rightarrow> 'd lvs_queue \<Rightarrow> 'd lvs_result" where
  "dequeue_text E args = take_as (\<lambda>v. Ok (VText (render_value E v)))"
definition dequeue_decimal :: "'d env \<Rightarrow> 'd val list \<Rightarrow> 'd lvs_queue \<Rightarrow> 'd lvs_result" where
  "dequeue_decimal E args = take_as (as_decimal_value (dec E) ''DequeueDecimal'')"
definition dequeue_integer :: "'d val list \<Rightarrow> 'd lvs_queue \<Rightarrow> 'd lvs_result" where
  "dequeue_integer args = take_as (only is_integer_value ''DequeueInteger'')"
definition dequeue_date :: "'d val list \<Rightarrow> 'd lvs_queue \<Rightarrow> 'd lvs_result" where
  "dequeue_date args = take_as (only is_date_value ''DequeueDate'')"
definition dequeue_date_time :: "'d val list \<Rightarrow> 'd lvs_queue \<Rightarrow> 'd lvs_result" where
  "dequeue_date_time args = take_as (only is_date_time_value ''DequeueDateTime'')"
definition dequeue_time :: "'d val list \<Rightarrow> 'd lvs_queue \<Rightarrow> 'd lvs_result" where
  "dequeue_time args = take_as (only is_time_value ''DequeueTime'')"
definition dequeue_boolean :: "'d val list \<Rightarrow> 'd lvs_queue \<Rightarrow> 'd lvs_result" where
  "dequeue_boolean args = take_as (only is_boolean_value ''DequeueBoolean'')"

definition peek_as :: "string \<Rightarrow> ('d val \<Rightarrow> lvs_error + 'd val) \<Rightarrow> 'd val list \<Rightarrow> 'd lvs_queue \<Rightarrow> 'd lvs_result" where
  "peek_as p conv args q =
     (case args of
        [VInteger i] \<Rightarrow> (bind_res (lvs_peek (as_usize i) q) conv, q)
      | _ \<Rightarrow> (Err (Expects p ''(Integer)''), q))"

definition peek_text :: "'d env \<Rightarrow> 'd val list \<Rightarrow> 'd lvs_queue \<Rightarrow> 'd lvs_result" where
  "peek_text E = peek_as ''PeekText'' (\<lambda>v. Ok (VText (render_value E v)))"
definition peek_decimal :: "'d env \<Rightarrow> 'd val list \<Rightarrow> 'd lvs_queue \<Rightarrow> 'd lvs_result" where
  "peek_decimal E = peek_as ''PeekDecimal'' (as_decimal_value (dec E) ''PeekDecimal'')"
definition peek_integer :: "'d val list \<Rightarrow> 'd lvs_queue \<Rightarrow> 'd lvs_result" where
  "peek_integer = peek_as ''PeekInteger'' (only is_small_integer ''PeekInteger'')"
definition peek_date :: "'d val list \<Rightarrow> 'd lvs_queue \<Rightarrow> 'd lvs_result" where
  "peek_date = peek_as ''PeekDate'' (only is_date_value ''PeekDate'')"
definition peek_time :: "'d val list \<Rightarrow> 'd lvs_queue \<Rightarrow> 'd lvs_result" where
  "peek_time = peek_as ''PeekTime'' (only is_time_value ''PeekTime'')"
definition peek_boolean :: "'d val list \<Rightarrow> 'd lvs_queue \<Rightarrow> 'd lvs_result" where
  "peek_boolean = peek_as ''PeekBoolean'' (only is_boolean_value ''PeekBoolean'')"

text \<open>The catalog, names compared without case.\<close>

definition lvs_catalog :: "'d env \<Rightarrow> (string \<times> ('d val list \<Rightarrow> 'd lvs_queue \<Rightarrow> 'd lvs_result)) list" where
  "lvs_catalog E =
     [(''assertempty'', assert_empty), (''assertfull'', assert_full), (''assertnotoverflow'', assert_not_overflow),
      (''assertnotunderflow'', assert_not_underflow), (''assertpeekavailable'', assert_peek_available),
      (''clear'', lvs_clear), (''enqueue'', enqueue), (''dequeue'', dequeue), (''peek'', peek), (''length'', lvs_length),
      (''maxlength'', max_length), (''dequeuetext'', dequeue_text E), (''dequeuedecimal'', dequeue_decimal E),
      (''dequeueinteger'', dequeue_integer), (''dequeuedate'', dequeue_date), (''dequeuedatetime'', dequeue_date_time),
      (''dequeuetime'', dequeue_time), (''dequeueboolean'', dequeue_boolean), (''peektext'', peek_text E),
      (''peekdecimal'', peek_decimal E), (''peekinteger'', peek_integer), (''peekdate'', peek_date),
      (''peektime'', peek_time), (''peekboolean'', peek_boolean)]"

definition lvs_resolve :: "'d env \<Rightarrow> string \<Rightarrow> ('d val list \<Rightarrow> 'd lvs_queue \<Rightarrow> 'd lvs_result) option" where
  "lvs_resolve E procedure = map_of (lvs_catalog E) (to_ascii_lowercase procedure)"

section \<open>First in, first out\<close>

text \<open>\<open>n\<close> removals in a row: what each returned, and the queue left.\<close>

fun take_many :: "nat \<Rightarrow> ('q \<Rightarrow> ('e + 'a) \<times> 'q) \<Rightarrow> 'q \<Rightarrow> ('e + 'a) list \<times> 'q" where
  "take_many 0 take_one q = ([], q)"
| "take_many (Suc n) take_one q =
     (let (r, q) = take_one q; (rs, q) = take_many n take_one q in (r # rs, q))"

text \<open>What a client relies on in a bounded queue.\<close>

locale bounded_fifo =
  fixes items :: "'q \<Rightarrow> 'a list" and put :: "'a \<Rightarrow> 'q \<Rightarrow> ('e + 'u) \<times> 'q" and take_one :: "'q \<Rightarrow> ('e + 'a) \<times> 'q"
    and cap :: nat and under :: 'e
  assumes put_room: "length (items q) < cap \<Longrightarrow> items (snd (put v q)) = items q @ [v]"
    and put_full: "cap \<le> length (items q) \<Longrightarrow> items (snd (put v q)) = items q"
    and take_some: "items q = v # vs \<Longrightarrow> fst (take_one q) = Inr v \<and> items (snd (take_one q)) = vs"
    and take_none: "items q = [] \<Longrightarrow> fst (take_one q) = Inl under \<and> items (snd (take_one q)) = []"
begin

lemma put_all: "length (items q) \<le> cap \<Longrightarrow>
    items (fold (\<lambda>v q. snd (put v q)) vs q) = items q @ take (cap - length (items q)) vs"
proof (induction vs arbitrary: q)
  case (Cons v vs)
  show ?case
  proof (cases "length (items q) < cap")
    case True
    then show ?thesis using Cons.IH[of "snd (put v q)"] Cons.prems
      by (simp add: put_room take_Cons' Suc_le_eq)
  next
    case False
    then show ?thesis using Cons.IH[of "snd (put v q)"] Cons.prems by (simp add: put_full)
  qed
qed simp

lemma take_many_items:
  "take_many n take_one q = (rs, q') \<Longrightarrow>
     rs = map Inr (take n (items q)) @ replicate (n - length (items q)) (Inl under) \<and> items q' = drop n (items q)"
proof (induction n arbitrary: q rs)
  case (Suc n)
  obtain r q1 where t: "take_one q = (r, q1)" by fastforce
  obtain rs1 where m: "take_many n take_one q1 = (rs1, q')" "rs = r # rs1"
    using Suc.prems t by (auto split: prod.splits)
  show ?case
  proof (cases "items q")
    case Nil
    then show ?thesis using take_none[of q] t Suc.IH[OF m(1)] m(2) by simp
  next
    case (Cons v vs)
    then show ?thesis using take_some[OF Cons] t Suc.IH[OF m(1)] m(2) by simp
  qed
qed simp

end

interpretation lvs: bounded_fifo "\<lambda>q. q" "\<lambda>v. enqueue [v]" "dequeue []" MAX_QUEUE_SIZE Queue_Underflow
  by unfold_locales (auto simp: enqueue_def lvs_enqueue_def dequeue_def split: prod.splits)

text \<open>
  C39: Library - Variable Storage is a first-in-first-out queue of 25 values.  Of the values enqueued into an empty
  queue the first 25 come back in the order they went in, later ones were refused, and every further Dequeue is an
  underflow.
\<close>

theorem variable_storage_fifo:
  "take_many n (dequeue []) (fold (\<lambda>v q. snd (enqueue [v] q)) vs []) =
     (map Ok (take (min n 25) vs) @ replicate (n - min 25 (length vs)) (Err Queue_Underflow), drop n (take 25 vs))"
proof -
  obtain rs q where t: "take_many n (dequeue []) (fold (\<lambda>v q. snd (enqueue [v] q)) vs []) = (rs, q)" by fastforce
  have "fold (\<lambda>v q. snd (enqueue [v] q)) vs [] = take 25 vs"
    using lvs.put_all[of "[]" vs] by (simp add: MAX_QUEUE_SIZE_def)
  with lvs.take_many_items[OF t] t show ?thesis by (simp add: min.commute)
qed

text \<open>What a procedure may do to the queue: leave it, empty it, drop its first value or append its argument.\<close>

definition queue_move :: "'d val list \<Rightarrow> 'd lvs_queue \<Rightarrow> 'd lvs_queue \<Rightarrow> bool" where
  "queue_move args q q' \<longleftrightarrow> q' = q \<or> q' = [] \<or> q' = tl q \<or> (\<exists>v. args = [v] \<and> length q < MAX_QUEUE_SIZE \<and> q' = q @ [v])"

lemma take_as_move: "queue_move args q (snd (take_as conv q))"
  by (cases q) (auto simp: take_as_def queue_move_def)

lemma peek_as_move: "snd (peek_as p conv args q) = q"
  by (auto simp: peek_as_def split: list.splits val.splits)

lemma enqueue_move: "queue_move args q (snd (enqueue args q))"
  by (auto simp: enqueue_def queue_move_def lvs_enqueue_def split: list.splits)

lemma dequeue_move: "queue_move args q (snd (dequeue args q))"
  by (cases q) (auto simp: dequeue_def queue_move_def)

lemma peek_move: "snd (peek args q) = q" "snd (assert_peek_available args q) = q"
  by (auto simp: peek_def assert_peek_available_def split: list.splits option.splits)

lemma catalog_moves: "(name, f) \<in> set (lvs_catalog E) \<Longrightarrow> queue_move args q (snd (f args q))"
  unfolding lvs_catalog_def
  by (auto simp: dequeue_text_def dequeue_decimal_def dequeue_integer_def dequeue_date_def dequeue_date_time_def dequeue_time_def
      dequeue_boolean_def take_as_move enqueue_move dequeue_move peek_move peek_as_move peek_text_def peek_decimal_def
      peek_integer_def peek_date_def peek_time_def peek_boolean_def)
    (auto simp: queue_move_def assert_empty_def assert_full_def assert_not_overflow_def assert_not_underflow_def lvs_clear_def
      lvs_length_def max_length_def peek_move)

text \<open>A run: calls by name, unknown names skipped.\<close>

fun run_calls :: "'d env \<Rightarrow> (string \<times> 'd val list) list \<Rightarrow> 'd lvs_queue \<Rightarrow> 'd lvs_queue" where
  "run_calls E [] q = q"
| "run_calls E ((name, args) # calls) q =
     run_calls E calls (case lvs_resolve E name of None \<Rightarrow> q | Some f \<Rightarrow> snd (f args q))"

lemma run_calls_bound: "length q \<le> MAX_QUEUE_SIZE \<Longrightarrow> length (run_calls E calls q) \<le> MAX_QUEUE_SIZE"
proof (induction E calls q rule: run_calls.induct)
  case (2 E name args calls q)
  have "length (snd (f args q)) \<le> MAX_QUEUE_SIZE" if "lvs_resolve E name = Some f" for f
    using catalog_moves[of "to_ascii_lowercase name" f E args q] that 2(2)
    by (auto simp: lvs_resolve_def queue_move_def dest!: map_of_SomeD)
  then show ?case using 2 by (auto split: option.splits)
qed simp

text \<open>
  Whatever procedures a test calls, with whatever arguments, the storage never holds more than 25 values, and
  Peek with any 64-bit index, negative ones included, reads the value at a position in range or reports that the
  index is out of bounds; AssertPeekAvailable succeeds exactly when Peek does.
\<close>

theorem variable_storage_bounds:
  fixes E :: "'d env"
  assumes "in_i64 i"
  shows "let q = run_calls E calls [] in
    length q \<le> 25 \<and>
    peek [VInteger i] q = (if 1 \<le> i \<and> i \<le> int (length q) then Ok (q ! nat (i - 1)) else Err Index_Out_Of_Bounds, q) \<and>
    (fst (assert_peek_available [VInteger i] q) = Ok VEmpty \<longleftrightarrow> fst (peek [VInteger i] q) \<noteq> Err Index_Out_Of_Bounds)"
proof -
  define q where "q = run_calls E calls []"
  have len: "length q \<le> 25" using run_calls_bound[of "[]" E calls] by (simp add: q_def MAX_QUEUE_SIZE_def)
  have "lvs_peek (as_usize i) q = (if 1 \<le> i \<and> i \<le> int (length q) then Ok (q ! nat (i - 1)) else Err Index_Out_Of_Bounds)"
  proof (cases "0 \<le> i")
    case True
    then show ?thesis using as_usize_nonneg[OF True assms] by (auto simp: lvs_peek_def nat_diff_distrib)
  next
    case False
    then show ?thesis using as_usize_neg[of i] assms len by (auto simp: lvs_peek_def)
  qed
  then show ?thesis using len by (auto simp: Let_def q_def[symmetric] peek_def assert_peek_available_def)
qed

lemma variable_storage_bounds_witness:
  "run_calls sample_env [(''Enqueue'', [VInteger 7]), (''Enqueue'', [VText ''a'']), (''DequeueDate'', [])] [] = [VText ''a''] \<and>
   peek [VInteger (- 1)] [VText ''a'' :: mantissa val] = (Err Index_Out_Of_Bounds, [VText ''a''])"
proof -
  let ?calls = "[(''Enqueue'', [VInteger 7]), (''Enqueue'', [VText ''a'']), (''DequeueDate'', [])] :: (string \<times> mantissa val list) list"
  have run: "run_calls sample_env ?calls [] = [VText ''a'']" by code_simp
  have "in_i64 (- 1)" by (simp add: int_range_defs)
  from variable_storage_bounds[OF this, of sample_env ?calls] run show ?thesis by (simp add: Let_def)
qed

text \<open>DequeueInteger takes a BigInteger, PeekInteger refuses the same value.\<close>

lemma peek_integer_refuses_big:
  "dequeue_integer [] [VBigInteger n] = (Ok (VBigInteger n), []) \<and>
   fst (peek_integer [VInteger 1] [VBigInteger n]) = Err (Type_Mismatch ''PeekInteger'' (type_name (VBigInteger n)))"
  by (simp add: dequeue_integer_def take_as_def only_def peek_integer_def peek_as_def is_small_integer_def lvs_peek_def as_usize_def)

end
