(* ===== verification/Random_Gen.thy ===== *)
theory Random_Gen
  imports Value_Ops Decimal_Instance "HOL-Library.Word"
begin

text \<open>
  The two pseudo-random generators: Random and Randomize (\<^verbatim>\<open>interpreter/dispatch/random.rs\<close>) and the native
  codeunit Library - Random (\<^verbatim>\<open>stubs/library_random.rs\<close>).  A state is a 64-bit word; arithmetic wraps.  The
  constructor and the conversion of the decimal type, \<open>Decimal::new\<close> and \<open>to_i64\<close>, are arguments.
\<close>

unbundle bit_operations_syntax

section \<open>Random and Randomize\<close>

definition LCG_MULTIPLIER :: "64 word" where "LCG_MULTIPLIER = 6364136223846793005"
definition LCG_INCREMENT :: "64 word" where "LCG_INCREMENT = 1442695040888963407"
definition DEFAULT_RANDOM_SEED :: "64 word" where "DEFAULT_RANDOM_SEED = 1"

definition lcg_step :: "64 word \<Rightarrow> 64 word \<times> 64 word" where
  "lcg_step st = (let st = st * LCG_MULTIPLIER + LCG_INCREMENT in (drop_bit 33 st, st))"

definition next_random :: "64 word \<Rightarrow> int \<times> 64 word" where
  "next_random st =
     (let (hi, st) = lcg_step st; (lo, st) = lcg_step st in (sint (push_bit 31 hi OR lo), st))"

definition builtin_random :: "'d val list \<Rightarrow> 64 word \<Rightarrow> (string + 'd val) \<times> 64 word" where
  "builtin_random args st =
     (case args of
        [VInteger n] \<Rightarrow>
          if n < 1 then (Err ''Random: the maximum must be >= 1'', st)
          else let (r, st) = next_random st in (Ok (VInteger (trem r n + 1)), st)
      | _ \<Rightarrow> (Err ''Random expects exactly 1 Integer argument'', st))"

definition builtin_randomize :: "'d val list \<Rightarrow> 64 word \<Rightarrow> (string + 'd val) \<times> 64 word" where
  "builtin_randomize args st =
     (case map as_int args of
        [] \<Rightarrow> (Ok VEmpty, DEFAULT_RANDOM_SEED)
      | [Some seed] \<Rightarrow> (Ok VEmpty, word_of_int seed)
      | _ \<Rightarrow> (Err ''Randomize expects at most 1 Integer argument'', st))"


section \<open>Library - Random\<close>

text \<open>A message, or one of the two messages about the number of places, which leave the modelled character range.\<close>

datatype random_error = Message string | Places_Too_Low | Places_Too_High

definition next_rand :: "int \<Rightarrow> 64 word \<Rightarrow> int \<times> 64 word" where
  "next_rand mx st =
     (if mx \<le> 1 then (1, st)
      else let next = st * 214013 + 2531011; r = uint (drop_bit 16 next AND 0x7FFF) in (trem r mx + 1, next))"

definition rand_int :: "'d val list \<Rightarrow> 64 word \<Rightarrow> (random_error + 'd val) \<times> 64 word" where
  "rand_int args st =
     (case map as_int args of
        [Some mx] \<Rightarrow>
          if mx < 1 then (Ok (VInteger 1), st)
          else let (r, st) = next_rand mx st in (Ok (VInteger r), st)
      | [] \<Rightarrow> (Err (Message ''LibraryRandom.RandInt requires 1 argument''), st)
      | _ \<Rightarrow> (Err (Message ''LibraryRandom.RandInt expects (Integer)''), st))"

definition rand_int_in_range :: "'d val list \<Rightarrow> 64 word \<Rightarrow> (random_error + 'd val) \<times> 64 word" where
  "rand_int_in_range args st =
     (case map as_int args of
        [Some mn, Some mx] \<Rightarrow>
          if mn \<ge> mx then (Ok (VInteger mn), st)
          else (case Option.bind (checked_sub mx mn) (\<lambda>v. checked_add v 1) of
                  None \<Rightarrow> (Err (Message ''LibraryRandom.RandIntInRange: range width overflows Integer''), st)
                | Some width \<Rightarrow>
                    let (r, st) = next_rand width st in
                    (case checked_add mn (r - 1) of
                       None \<Rightarrow> (Err (Message ''LibraryRandom.RandIntInRange: generated value overflows Integer''), st)
                     | Some v \<Rightarrow> (Ok (VInteger v), st)))
      | _ \<Rightarrow> (Err (Message ''LibraryRandom.RandIntInRange expects (Integer, Integer)''), st))"

definition whole_max :: "'d decimal_ops \<Rightarrow> ('d \<Rightarrow> int option) \<Rightarrow> 'd val \<Rightarrow> random_error + int" where
  "whole_max D to_i64 v =
     (case v of
        VDecimal m \<Rightarrow>
          (case to_i64 m of
             None \<Rightarrow> Err (Message ''LibraryRandom.RandDec: MaxValue must be a whole Decimal within Integer range'')
           | Some mx \<Rightarrow> if \<not> dec_eq D (dec_from D mx) m then Err (Message ''LibraryRandom.RandDec: MaxValue must be a whole Decimal'') else Ok mx)
      | _ \<Rightarrow> ok_or (as_int v) (Message ''LibraryRandom.RandDec expects (Integer, Integer)''))"

definition rand_dec ::
  "'d decimal_ops \<Rightarrow> (int \<Rightarrow> nat \<Rightarrow> 'd) \<Rightarrow> ('d \<Rightarrow> int option) \<Rightarrow> 'd val list \<Rightarrow> 64 word \<Rightarrow> (random_error + 'd val) \<times> 64 word" where
  "rand_dec D dec_new to_i64 args st =
     (case args of
        [m, p] \<Rightarrow>
          (case as_int p of
             None \<Rightarrow> (Err (Message ''LibraryRandom.RandDec expects (Integer, Integer)''), st)
           | Some places \<Rightarrow>
               (case whole_max D to_i64 m of
                  Inl e \<Rightarrow> (Err e, st)
                | Inr max_val \<Rightarrow>
                    if places < 0 then (Err Places_Too_Low, st)
                    else if places > 9 then (Err Places_Too_High, st)
                    else (case checked_mul max_val (10 ^ nat places) of
                            None \<Rightarrow> (Err (Message ''LibraryRandom.RandDec: scaled MaxValue overflows Integer''), st)
                          | Some scaled_max \<Rightarrow>
                              let (raw, st) = next_rand (max scaled_max 1) st in
                              (Ok (VDecimal (dec_new raw (nat places))), st))))
      | _ \<Rightarrow> (Err (Message ''LibraryRandom.RandDec expects (Integer, Integer)''), st))"

fun rand_chars :: "nat \<Rightarrow> 64 word \<Rightarrow> string \<times> 64 word" where
  "rand_chars 0 st = ([], st)"
| "rand_chars (Suc n) st =
     (let (r, st) = next_rand 26 st; (cs, st) = rand_chars n st in (char_of (nat (97 + (r - 1))) # cs, st))"

definition rand_text :: "'d val list \<Rightarrow> 64 word \<Rightarrow> (random_error + 'd val) \<times> 64 word" where
  "rand_text args st =
     (let go = (\<lambda>max_len. let (len, st) = next_rand max_len st; (s, st) = rand_chars (nat len) st in (Ok (VText s), st)) in
      case map as_int args of
        [] \<Rightarrow> go 30
      | [Some n] \<Rightarrow> go (min (max n 1) 250)
      | _ \<Rightarrow> (Err (Message ''LibraryRandom.RandText expects ([Integer])''), st))"

definition set_lcg_seed :: "64 word \<Rightarrow> 64 word" where
  "set_lcg_seed seed = max seed 1"

definition reset_lcg :: "64 word \<Rightarrow> 64 word" where
  "reset_lcg st = set_lcg_seed 1"

definition set_seed :: "'d val list \<Rightarrow> 64 word \<Rightarrow> (random_error + 'd val) \<times> 64 word" where
  "set_seed args st =
     (case map as_int args of
        [Some n] \<Rightarrow> (Ok VEmpty, set_lcg_seed (word_of_int n))
      | [] \<Rightarrow> (Err (Message ''LibraryRandom.SetSeed requires 1 argument''), st)
      | _ \<Rightarrow> (Err (Message ''LibraryRandom.SetSeed expects (Integer)''), st))"

definition rand_date_from :: "'d val list \<Rightarrow> 64 word \<Rightarrow> (random_error + 'd val) \<times> 64 word" where
  "rand_date_from args st =
     (case args of
        [VDate start, n] \<Rightarrow>
          (case as_int n of
             None \<Rightarrow> (Err (Message ''LibraryRandom.RandDateFrom expects (Date, Integer)''), st)
           | Some max_days \<Rightarrow>
               if max_days \<le> 0 then (Ok (VDate start), st)
               else (case checked_add max_days 1 of
                       None \<Rightarrow> (Err (Message ''LibraryRandom.RandDateFrom: day range overflows Integer''), st)
                     | Some days \<Rightarrow>
                         let (r, st) = next_rand days st in
                         (case checked_add start (r - 1) of
                            None \<Rightarrow> (Err (Message ''LibraryRandom.RandDateFrom: resulting date is outside the supported range''), st)
                          | Some date \<Rightarrow> (Ok (VDate date), st))))
      | _ \<Rightarrow> (Err (Message ''LibraryRandom.RandDateFrom expects (Date, Integer)''), st))"

text \<open>The catalog, names compared without case; one name is listed in two spellings.\<close>

definition random_catalog ::
  "'d decimal_ops \<Rightarrow> (int \<Rightarrow> nat \<Rightarrow> 'd) \<Rightarrow> ('d \<Rightarrow> int option) \<Rightarrow>
     (string \<times> ('d val list \<Rightarrow> 64 word \<Rightarrow> (random_error + 'd val) \<times> 64 word)) list" where
  "random_catalog D dec_new to_i64 =
     [(''randint'', rand_int), (''randinginrange'', rand_int_in_range), (''randintinrange'', rand_int_in_range),
      (''randdec'', rand_dec D dec_new to_i64), (''randtext'', rand_text), (''setseed'', set_seed),
      (''randdatefrom'', rand_date_from)]"

definition random_resolve ::
  "'d decimal_ops \<Rightarrow> (int \<Rightarrow> nat \<Rightarrow> 'd) \<Rightarrow> ('d \<Rightarrow> int option) \<Rightarrow> string \<Rightarrow>
     ('d val list \<Rightarrow> 64 word \<Rightarrow> (random_error + 'd val) \<times> 64 word) option" where
  "random_resolve D dec_new to_i64 procedure = map_of (random_catalog D dec_new to_i64) (to_ascii_lowercase procedure)"


section \<open>Ranges\<close>

lemma uint_below: "uint (w :: 64 word) < 2 ^ 64"
  using uint_lt2p[of w] by simp

lemma lcg_out: "uint (fst (lcg_step st)) < 2 ^ 31"
proof -
  have "uint (drop_bit 33 w) < 2 ^ 31" for w :: "64 word"
    using uint_below[of w] by (subst unsigned_drop_bit_eq) (simp add: take_bit_int_eq_self drop_bit_eq_div)
  then show ?thesis by (simp add: lcg_step_def Let_def)
qed

lemma next_random_range: "0 \<le> fst (next_random st) \<and> fst (next_random st) < 2 ^ 62"
proof -
  obtain hi st1 where h: "lcg_step st = (hi, st1)" by fastforce
  obtain lo st2 where l: "lcg_step st1 = (lo, st2)" by fastforce
  have small: "uint hi < 2 ^ 31" "uint lo < 2 ^ 31" using lcg_out[of st] lcg_out[of st1] h l by auto
  have "uint (push_bit 31 hi) = uint hi * 2 ^ 31"
    using small(1) by (subst unsigned_push_bit_eq) (simp add: take_bit_int_eq_self push_bit_eq_mult)
  then have "uint (push_bit 31 hi) < 2 ^ 62" using small(1) by simp
  moreover have "uint lo < 2 ^ 62" using small(2) by simp
  ultimately have "uint (push_bit 31 hi OR lo) < 2 ^ 62"
    by (simp only: unsigned_or_eq) (intro OR_upper, simp_all)
  moreover from this have "sint (push_bit 31 hi OR lo) = uint (push_bit 31 hi OR lo)"
    by (subst sint_uint, intro signed_take_bit_int_eq_self) (simp_all add: order_trans[OF _ uint_ge_0])
  ultimately show ?thesis using h l by (simp add: next_random_def)
qed

lemma trem_range: "0 \<le> r \<Longrightarrow> 0 < n \<Longrightarrow> 0 \<le> trem r n \<and> trem r n < n \<and> trem r n \<le> r"
  by (simp add: trem_def tdiv_nonneg minus_mult_div_eq_mod zmod_le_nonneg_dividend)

lemma next_rand_range: "1 \<le> fst (next_rand mx st) \<and> fst (next_rand mx st) \<le> max mx 1 \<and> fst (next_rand mx st) \<le> 32768"
proof -
  let ?r = "uint (drop_bit 16 (st * 214013 + 2531011) AND (0x7FFF :: 64 word))"
  have "?r \<le> 32767" unfolding unsigned_and_eq by (rule order_trans[OF AND_upper2]) simp_all
  moreover have "0 \<le> ?r" by simp
  ultimately show ?thesis using trem_range[of ?r mx] by (auto simp: next_rand_def Let_def simp del: uint_ge_0)
qed

text \<open>
  Random(n) returns an Integer from 1 to n, whatever the state of the generator.
\<close>

theorem random_in_range:
  fixes st :: "64 word"
  assumes "1 \<le> n"
  shows "\<exists>k. fst (builtin_random [VInteger n] st) = Ok (VInteger k :: 'd val) \<and> 1 \<le> k \<and> k \<le> n"
proof -
  obtain r st' where r: "next_random st = (r, st')" by fastforce
  then have "0 \<le> r" using next_random_range[of st] by simp
  then show ?thesis using trem_range[of r n] assms r by (simp add: builtin_random_def)
qed

lemma random_in_range_witness:
  "\<exists>k. fst (builtin_random [VInteger 6] 1) = Ok (VInteger k :: mantissa val) \<and> 1 \<le> k \<and> k \<le> 6"
  by (rule random_in_range) simp

definition is_letter :: "char \<Rightarrow> bool" where
  "is_letter c \<longleftrightarrow> 97 \<le> code_of c \<and> code_of c \<le> 122"

lemma rand_chars_letters: "length (fst (rand_chars n st)) = n \<and> list_all is_letter (fst (rand_chars n st))"
proof (induction n arbitrary: st)
  case (Suc n)
  obtain r st1 where r: "next_rand 26 st = (r, st1)" by fastforce
  obtain cs st2 where cs: "rand_chars n st1 = (cs, st2)" by fastforce
  have "1 \<le> r" "r \<le> 26" using next_rand_range[of 26 st] r by auto
  then have "is_letter (char_of (nat (97 + (r - 1))))" by (auto simp: is_letter_def nat_le_iff le_nat_iff)
  then show ?case using Suc[of st1] r cs by simp
qed simp

lemma rand_int_in_range_ok:
  assumes "mn < mx" "in_i64 mn" "in_i64 mx" "in_i64 (mx - mn + 1)"
  shows "\<exists>k. fst (rand_int_in_range [VInteger mn, VInteger mx] st) = Ok (VInteger k) \<and> mn \<le> k \<and> k \<le> mx"
proof -
  obtain r st' where r: "next_rand (mx - mn + 1) st = (r, st')" by fastforce
  have b: "1 \<le> r" "r \<le> mx - mn + 1" using next_rand_range[of "mx - mn + 1" st] r assms(1) by auto
  have "in_i64 (mx - mn)" "in_i64 (mn + (r - 1))" using assms b by (auto simp: int_range_defs)
  then show ?thesis using assms r b by (auto simp: rand_int_in_range_def checked_defs)
qed

lemma rand_dec_ok:
  assumes "1 \<le> m" "0 \<le> p" "p \<le> 9" "in_i64 (m * 10 ^ nat p)"
    and new: "\<And>raw k. dec_num D (dec_new raw k) = of_int raw / 10 ^ k"
  shows "\<exists>d. fst (rand_dec D dec_new to_i64 [VInteger m, VInteger p] st) = Ok (VDecimal d) \<and>
    0 < dec_num D d \<and> dec_num D d \<le> of_int m"
proof -
  let ?s = "m * 10 ^ nat p"
  have s: "1 \<le> ?s" using mult_mono[OF assms(1), of 1 "10 ^ nat p"] assms(1) by simp
  obtain raw st' where r: "next_rand ?s st = (raw, st')" by fastforce
  have b: "1 \<le> raw" "raw \<le> ?s" using next_rand_range[of ?s st] r s by auto
  have "(of_int raw :: rat) \<le> of_int m * 10 ^ nat p" using b(2) by (metis of_int_le_iff of_int_mult of_int_numeral of_int_power)
  then have "(of_int raw :: rat) / 10 ^ nat p \<le> of_int m" by (simp add: divide_le_eq)
  moreover have "fst (rand_dec D dec_new to_i64 [VInteger m, VInteger p] st) = Ok (VDecimal (dec_new raw (nat p)))"
    using assms s r by (simp add: rand_dec_def whole_max_def ok_or_def checked_defs max_def)
  ultimately show ?thesis using b(1) new by simp
qed

lemma rand_text_ok:
  "\<exists>s. fst (rand_text [VInteger len] st) = Ok (VText s) \<and> 1 \<le> length s \<and> int (length s) \<le> min (max len 1) 250 \<and> list_all is_letter s"
proof -
  let ?m = "min (max len 1) 250"
  obtain n st1 where n: "next_rand ?m st = (n, st1)" by fastforce
  have b: "1 \<le> n" "n \<le> ?m" using next_rand_range[of ?m st] n by auto
  obtain s st2 where s: "rand_chars (nat n) st1 = (s, st2)" by fastforce
  then show ?thesis using rand_chars_letters[of "nat n" st1] n b by (auto simp: rand_text_def nat_le_iff Suc_le_eq)
qed

lemma rand_date_from_ok:
  assumes "0 \<le> days" "in_i64 start" "in_i64 (start + days)" "in_i64 (days + 1)"
  shows "\<exists>d. fst (rand_date_from [VDate start, VInteger days] st) = Ok (VDate d) \<and> start \<le> d \<and> d \<le> start + days"
proof (cases "days = 0")
  case False
  obtain r st' where r: "next_rand (days + 1) st = (r, st')" by fastforce
  have b: "1 \<le> r" "r \<le> days + 1" using next_rand_range[of "days + 1" st] r assms(1) by auto
  have "in_i64 (start + (r - 1))" using assms b by (auto simp: int_range_defs)
  then show ?thesis using assms False r b by (auto simp: rand_date_from_def checked_defs)
qed (simp add: rand_date_from_def)

text \<open>
  Library - Random stays in the ranges it names, whatever the state of the generator: RandIntInRange within its
  bounds, RandDec above 0 and at most MaxValue, RandText with 1 to MaxLength lower-case letters and never more than
  250, RandDateFrom at most the given number of days after the start.
\<close>

theorem library_random_ranges:
  fixes D :: "'d decimal_ops"
  assumes "mn < mx" "in_i64 mn" "in_i64 mx" "in_i64 (mx - mn + 1)"
    and "1 \<le> m" "0 \<le> p" "p \<le> 9" "in_i64 (m * 10 ^ nat p)" "\<And>raw k. dec_num D (dec_new raw k) = of_int raw / 10 ^ k"
    and "0 \<le> days" "in_i64 start" "in_i64 (start + days)" "in_i64 (days + 1)"
  shows "(\<exists>k. fst (rand_int_in_range [VInteger mn, VInteger mx] st) = Ok (VInteger k :: 'd val) \<and> mn \<le> k \<and> k \<le> mx) \<and>
    (\<exists>d. fst (rand_dec D dec_new to_i64 [VInteger m, VInteger p] st) = Ok (VDecimal d) \<and> 0 < dec_num D d \<and> dec_num D d \<le> of_int m) \<and>
    (\<exists>s. fst (rand_text [VInteger len] st) = Ok (VText s :: 'd val) \<and> 1 \<le> length s \<and> int (length s) \<le> min (max len 1) 250 \<and>
       list_all is_letter s) \<and>
    (\<exists>d. fst (rand_date_from [VDate start, VInteger days] st) = Ok (VDate d :: 'd val) \<and> start \<le> d \<and> d \<le> start + days)"
  using rand_int_in_range_ok[OF assms(1-4)] rand_dec_ok[OF assms(5-9)] rand_text_ok rand_date_from_ok[OF assms(10-13)] by blast

lemma library_random_ranges_witness:
  "\<exists>k. fst (rand_int_in_range [VInteger 5, VInteger 9] 1) = Ok (VInteger k :: mantissa val) \<and> 5 \<le> k \<and> k \<le> 9"
proof -
  have "dec_num sample_decimal (raw, k) = of_int raw / 10 ^ k" for raw k by simp
  from library_random_ranges[where D = sample_decimal and dec_new = Pair and mn = 5 and mx = 9 and m = 1 and p = 2 and days = 3
      and start = 10, OF _ _ _ _ _ _ _ _ this] show ?thesis
    by (simp add: int_range_defs)
qed

text \<open>A MaxValue that is not positive gives a value above it, the smallest with the number of places.\<close>

lemma rand_dec_not_positive:
  assumes "m \<le> 0" "0 \<le> p" "p \<le> 9" "in_i64 (m * 10 ^ nat p)"
  shows "rand_dec D dec_new to_i64 [VInteger m, VInteger p] st = (Ok (VDecimal (dec_new 1 (nat p))), st)"
proof -
  have "m * 10 ^ nat p \<le> 0" using assms(1) by (simp add: mult_nonpos_nonneg)
  then show ?thesis using assms by (simp add: rand_dec_def whole_max_def ok_or_def checked_defs next_rand_def)
qed

text \<open>RandDateFrom can leave the calendar, whose last day is 3652058.\<close>

lemma rand_date_leaves_calendar:
  "fst (rand_date_from [VDate 3652058, VInteger 10] 1) = Ok (VDate 3652066 :: mantissa val)"
  by code_simp

end
