(* ===== verification/Syntax_Tree.thy ===== *)
theory Syntax_Tree
  imports Strings
begin

text \<open>
  The syntax tree the evaluator walks, and the functions of \<^verbatim>\<open>eval_stmt.rs\<close>, \<^verbatim>\<open>indexing.rs\<close>,
  \<^verbatim>\<open>assignment_chain.rs\<close> and \<^verbatim>\<open>al-syntax/src/lib.rs\<close> that only look at it.

  A node carries what the evaluator reads of a tree-sitter node: its kind, whether it is named, the field it has
  in its parent, its text, its first row, its byte range and its children.  The sources are Rust strings and a
  node starts and ends on character boundaries, so \<open>utf8_text\<close> always has a text.
\<close>

datatype node =
  Node (node_kind: string) (is_named: bool) (field_of: "string option") (node_text: string) (start_row: nat)
    (byte_range: "nat \<times> nat") (node_children: "node list")

lemma child_smaller [termination_simp]: "c \<in> set (node_children n) \<Longrightarrow> size c < size n"
proof (cases n)
  case (Node k m f t r b cs)
  moreover assume "c \<in> set (node_children n)"
  ultimately show ?thesis using size_list_estimation' [of c cs "size c" size] by simp
qed

definition named_children :: "node \<Rightarrow> node list" where
  "named_children n = filter is_named (node_children n)"

lemma named_child_smaller [termination_simp]: "c \<in> set (named_children n) \<Longrightarrow> size c < size n"
  by (auto simp: named_children_def intro: child_smaller)

definition nth_opt :: "'a list \<Rightarrow> nat \<Rightarrow> 'a option" where
  "nth_opt xs i = (if i < length xs then Some (xs ! i) else None)"

lemma nth_opt_set: "nth_opt xs i = Some x \<Longrightarrow> x \<in> set xs"
  by (auto simp: nth_opt_def split: if_splits)

lemma nth_opt_simps [simp]:
  "nth_opt [] i = None" "nth_opt (x # xs) 0 = Some x" "nth_opt (x # xs) (Suc i) = nth_opt xs i"
  by (auto simp: nth_opt_def)

definition named_child :: "node \<Rightarrow> nat \<Rightarrow> node option" where
  "named_child n i = nth_opt (named_children n) i"

definition named_child_count :: "node \<Rightarrow> nat" where
  "named_child_count n = length (named_children n)"

definition child_by_field_name :: "node \<Rightarrow> string \<Rightarrow> node option" where
  "child_by_field_name n f = List.find (\<lambda>c. field_of c = Some f) (node_children n)"

definition or_else :: "'a option \<Rightarrow> 'a option \<Rightarrow> 'a option" where
  "or_else a b = (case a of None \<Rightarrow> b | Some x \<Rightarrow> Some x)"

lemma or_else_Some: "or_else a b = Some x \<Longrightarrow> a = Some x \<or> b = Some x"
  by (auto simp: or_else_def split: option.splits)

lemma find_set: "List.find P xs = Some x \<Longrightarrow> x \<in> set xs"
  by (auto simp: find_Some_iff)

lemma child_by_field_smaller: "child_by_field_name n f = Some c \<Longrightarrow> size c < size n"
  by (auto simp: child_by_field_name_def intro: child_smaller find_set)

lemma named_child_of [termination_simp]: "named_child n i = Some c \<Longrightarrow> size c < size n"
  by (auto simp: named_child_def intro: named_child_smaller nth_opt_set)


section \<open>Identifiers\<close>

definition strip_prefix :: "string \<Rightarrow> string \<Rightarrow> string option" where
  "strip_prefix p s = (if starts_with s p then Some (drop (length p) s) else None)"

definition ends_with :: "string \<Rightarrow> string \<Rightarrow> bool" where
  "ends_with s p = starts_with (rev s) (rev p)"

definition strip_suffix :: "string \<Rightarrow> string \<Rightarrow> string option" where
  "strip_suffix p s = (if ends_with s p then Some (take (length s - length p) s) else None)"

definition unwrap_or :: "'a option \<Rightarrow> 'a \<Rightarrow> 'a" where
  "unwrap_or a d = (case a of None \<Rightarrow> d | Some x \<Rightarrow> x)"

text \<open>\<open>str::replace\<close> of a doubled quote by one.\<close>

fun undouble :: "char \<Rightarrow> string \<Rightarrow> string" where
  "undouble q (a # b # s) = (if a = q \<and> b = q then q # undouble q s else a # undouble q (b # s))"
| "undouble q s = s"

definition unquote_identifier :: "string \<Rightarrow> string" where
  "unquote_identifier s =
     (let text = trim s;
          text = unwrap_or (strip_prefix ''\"'' text) text;
          text = unwrap_or (strip_suffix ''\"'' text) text in
      undouble (CHR ''\"'') text)"

definition has_char :: "char \<Rightarrow> string \<Rightarrow> bool" where
  "has_char c s = (c \<in> set s)"

definition is_ascii_alphabetic :: "char \<Rightarrow> bool" where
  "is_ascii_alphabetic c \<longleftrightarrow> (code_of c :: nat) \<in> {65..90} \<or> (code_of c :: nat) \<in> {97..122}"

definition identifier_rest :: "char \<Rightarrow> bool" where
  "identifier_rest c \<longleftrightarrow> is_ascii_alphabetic c \<or> is_ascii_digit c \<or> c = CHR ''_''"

definition simple_lvalue_name :: "node \<Rightarrow> string option" where
  "simple_lvalue_name n =
     (let text = trim (node_text n) in
      case Option.bind (strip_prefix ''\"'' text) (strip_suffix ''\"'') of
        Some quoted \<Rightarrow>
          (if quoted \<noteq> [] \<and> \<not> has_char (CHR ''\"'') quoted then Some (to_ascii_lowercase quoted) else None)
      | None \<Rightarrow>
          (case unquote_identifier text of
             [] \<Rightarrow> None
           | first # chars \<Rightarrow>
               if (is_ascii_alphabetic first \<or> first = CHR ''_'') \<and> list_all identifier_rest chars
               then Some (to_ascii_lowercase (first # chars)) else None))"


section \<open>Statement nodes\<close>

definition punctuation_kinds :: "string list" where
  "punctuation_kinds = [''comment'', '';'', '','', ''('', '')'', ''{'', ''}'', ''semicolon'', ''comma'']"

definition is_punctuation :: "string \<Rightarrow> bool" where
  "is_punctuation kind \<longleftrightarrow> kind \<in> set punctuation_kinds \<or> starts_with kind ''kw_''"

definition stmt_children :: "node \<Rightarrow> node list" where
  "stmt_children n = filter (\<lambda>c. \<not> is_punctuation (node_kind c)) (named_children n)"

definition named_stmt_child :: "node \<Rightarrow> nat \<Rightarrow> node option" where
  "named_stmt_child n i = nth_opt (stmt_children n) i"

lemma stmt_child_smaller [termination_simp]: "c \<in> set (stmt_children n) \<Longrightarrow> size c < size n"
  by (auto simp: stmt_children_def intro: named_child_smaller)

lemma named_stmt_child_smaller: "named_stmt_child n i = Some c \<Longrightarrow> size c < size n"
  by (auto simp: named_stmt_child_def intro: stmt_child_smaller nth_opt_set)

definition child_or :: "node \<Rightarrow> string \<Rightarrow> nat \<Rightarrow> node option" where
  "child_or n f i = or_else (child_by_field_name n f) (named_stmt_child n i)"

lemma child_or_smaller: "child_or n f i = Some c \<Longrightarrow> size c < size n"
  unfolding child_or_def by (metis or_else_Some child_by_field_smaller named_stmt_child_smaller)

definition node_name :: "node \<Rightarrow> string" where
  "node_name n = unquote_identifier (node_text n)"

function unwrap_exit_expr :: "node \<Rightarrow> node" where
  "unwrap_exit_expr n =
     (if node_kind n = ''argument_list'' \<or> node_kind n = ''expression_list''
      then (case named_child n 0 of None \<Rightarrow> n | Some c \<Rightarrow> unwrap_exit_expr c)
      else n)"
  by pat_completeness auto
termination unwrap_exit_expr by (relation "measure size") (auto intro: named_child_of)

definition is_wrapper :: "string \<Rightarrow> bool" where
  "is_wrapper kind \<longleftrightarrow> kind = ''expression'' \<or> kind = ''unary_expression''"

function resolve_to_call_node :: "node \<Rightarrow> node" where
  "resolve_to_call_node n =
     (if is_wrapper (node_kind n) \<and> named_child_count n = 1
      then (case named_child n 0 of None \<Rightarrow> n | Some inner \<Rightarrow> resolve_to_call_node inner)
      else n)"
  by pat_completeness auto
termination resolve_to_call_node by (relation "measure size") (auto intro: named_child_of)

declare unwrap_exit_expr.simps [simp del] resolve_to_call_node.simps [simp del]

definition last_child :: "node \<Rightarrow> node option" where
  "last_child n = (if node_children n = [] then None else Some (last (node_children n)))"

definition is_call_suffix :: "string \<Rightarrow> bool" where
  "is_call_suffix kind \<longleftrightarrow> kind = ''call_suffix'' \<or> kind = ''member_call_suffix'' \<or> kind = ''scope_call_suffix''"

definition is_call_postfix :: "node \<Rightarrow> bool" where
  "is_call_postfix n = (case last_child n of None \<Rightarrow> False | Some c \<Rightarrow> is_call_suffix (node_kind c))"


section \<open>Calls and arguments\<close>

fun collect_arg_nodes :: "node \<Rightarrow> node list" where
  "collect_arg_nodes n =
     concat (map (\<lambda>c. if is_punctuation (node_kind c) then []
                      else if node_kind c = ''expression_list'' then collect_arg_nodes c else [c])
               (named_children n))"

declare collect_arg_nodes.simps [simp del]

definition arg_expr_nodes :: "node \<Rightarrow> node list" where
  "arg_expr_nodes = collect_arg_nodes"

definition find_argument_list :: "node \<Rightarrow> node option" where
  "find_argument_list n =
     or_else (child_by_field_name n ''call'') (List.find (\<lambda>c. node_kind c = ''argument_list'') (named_children n))"

text \<open>The receiver, the procedure name and the argument list of a call.\<close>

type_synonym call_parts = "string option \<times> string \<times> node option"

definition member_call_parts :: "node \<Rightarrow> node \<Rightarrow> call_parts" where
  "member_call_parts n sfx =
     (map_option node_name (nth_opt (node_children n) 0),
      unwrap_or (map_option node_name
        (List.find (\<lambda>c. node_kind c = ''identifier'' \<or> node_kind c = ''name'') (named_children sfx))) [],
      find_argument_list sfx)"

definition bare_call_parts :: "node \<Rightarrow> node \<Rightarrow> call_parts" where
  "bare_call_parts n sfx =
     (None,
      unwrap_or (map_option (\<lambda>c. if node_kind c = ''primary_expression''
                                 then node_name (unwrap_or (named_child c 0) c) else node_name c)
        (nth_opt (node_children n) 0)) [],
      find_argument_list sfx)"

definition flat_call_parts :: "node \<Rightarrow> call_parts" where
  "flat_call_parts n =
     (let parts = filter is_named (node_children n);
          args = List.find (\<lambda>c. node_kind c = ''argument_list'') parts;
          names = map node_name (filter (\<lambda>c. node_kind c \<noteq> ''argument_list'') parts) in
      case names of
        [] \<Rightarrow> (None, node_name n, args)
      | [single] \<Rightarrow> (None, single, args)
      | recv # proc # _ \<Rightarrow> (Some recv, proc, args))"

definition extract_call_parts :: "node \<Rightarrow> call_parts" where
  "extract_call_parts n =
     (if node_kind n = ''postfix_expression'' \<and> is_call_postfix n then
        (let sfx = last (node_children n) in
         if node_kind sfx = ''call_suffix'' then bare_call_parts n sfx else member_call_parts n sfx)
      else flat_call_parts n)"

text \<open>\<open>Name[index]\<close>, through the wrappers the grammar puts around it.\<close>

function unwrap_single :: "node \<Rightarrow> node option" where
  "unwrap_single n =
     (if is_wrapper (node_kind n) then
        (if named_child_count n \<noteq> 1 then None else Option.bind (named_child n 0) unwrap_single)
      else Some n)"
  by pat_completeness auto
termination unwrap_single by (relation "measure size") (auto intro: named_child_of)

declare unwrap_single.simps [simp del]

definition variable_kinds :: "string list" where
  "variable_kinds = [''name'', ''object_keyword'', ''type_keyword'']"

definition indexed_variable :: "node \<Rightarrow> (string \<times> node) option" where
  "indexed_variable n =
     (case unwrap_single n of
        None \<Rightarrow> None
      | Some postfix \<Rightarrow>
          (case named_children postfix of
             [primary, suffix] \<Rightarrow>
               if node_kind postfix = ''postfix_expression'' \<and> node_kind primary = ''primary_expression'' \<and>
                  node_kind suffix = ''index_suffix''
               then (case named_child primary 0 of
                       Some name \<Rightarrow> if node_kind name \<in> set variable_kinds
                                    then Some (to_ascii_lowercase (node_name name), suffix) else None
                     | None \<Rightarrow> None)
               else None
           | _ \<Rightarrow> None))"

definition nested_name_kinds :: "string list" where
  "nested_name_kinds = [''unary_expression'', ''postfix_expression'', ''primary_expression'']"

fun first_some :: "('a \<Rightarrow> 'b option) \<Rightarrow> 'a list \<Rightarrow> 'b option" where
  "first_some f [] = None"
| "first_some f (x # xs) = (case f x of None \<Rightarrow> first_some f xs | Some y \<Rightarrow> Some y)"

lemma first_some_cong [fundef_cong]:
  "xs = ys \<Longrightarrow> (\<And>x. x \<in> set ys \<Longrightarrow> f x = g x) \<Longrightarrow> first_some f xs = first_some g ys"
  by (induction xs arbitrary: ys) (auto split: option.splits)

fun extract_identifier_name :: "node \<Rightarrow> string option" where
  "extract_identifier_name n =
     first_some (\<lambda>c.
       if node_kind c = ''identifier'' \<or> node_kind c = ''name'' then Some (to_ascii_lowercase (node_name c))
       else if node_kind c \<in> set nested_name_kinds then extract_identifier_name c else None)
     (named_children n)"

declare extract_identifier_name.simps [simp del]

text \<open>\<open>find_exit_expression\<close> and \<open>find_expression\<close>: the expression of a fragment parsed on its own.\<close>

fun find_exit_expression :: "node \<Rightarrow> node option" where
  "find_exit_expression n =
     (if node_kind n = ''expression'' then Some n else first_some find_exit_expression (named_children n))"

declare find_exit_expression.simps [simp del]

text \<open>\<open>descend_to_postfix\<close> of \<^verbatim>\<open>records/field_access.rs\<close>.\<close>

function descend_to_postfix :: "node \<Rightarrow> node option" where
  "descend_to_postfix n =
     (if node_kind n = ''postfix_expression'' then Some n
      else if is_wrapper (node_kind n) \<or> node_kind n = ''primary_expression'' then
        (if named_child_count n = 1 then Option.bind (named_child n 0) descend_to_postfix else None)
      else None)"
  by pat_completeness auto
termination descend_to_postfix by (relation "measure size") (auto intro: named_child_of)

declare descend_to_postfix.simps [simp del]

end
