(* ===== verification/Literals.thy ===== *)
theory Literals
  imports Syntax_Tree Value_Ops Calendar
begin

text \<open>
  Literals (\<^verbatim>\<open>interpreter/eval_expr/literals.rs\<close>): integers with their width, strings with doubled quotes, dates,
  times, and the members of a set literal.
\<close>

section \<open>Integers and strings\<close>

definition trim_end_matches :: "(char \<Rightarrow> bool) \<Rightarrow> string \<Rightarrow> string" where
  "trim_end_matches P s = rev (dropWhile P (rev s))"

definition is_suffix_l :: "char \<Rightarrow> bool" where
  "is_suffix_l c \<longleftrightarrow> c = CHR ''l'' \<or> c = CHR ''L''"

definition int_literal_value :: "string \<Rightarrow> 'd val option" where
  "int_literal_value s =
     (let text = trim s;
          had_suffix = (text \<noteq> [] \<and> is_suffix_l (last text)) in
      map_option (\<lambda>n. if had_suffix \<or> \<not> in_i32 n then VBigInteger n else VInteger n)
        (parse_i64 (trim_end_matches is_suffix_l text)))"

definition unescape_al_string :: "string \<Rightarrow> string" where
  "unescape_al_string s =
     (let trimmed = trim s;
          inner = unwrap_or (Option.bind (strip_prefix [CHR 0x27] trimmed) (strip_suffix [CHR 0x27])) trimmed in
      undouble (CHR 0x27) inner)"


section \<open>Dates and times\<close>

definition all_digits :: "string \<Rightarrow> bool" where
  "all_digits s = list_all is_ascii_digit s"

definition digits_int :: "string \<Rightarrow> int" where
  "digits_int s = int (digits_val s)"

definition eval_date_literal :: "node \<Rightarrow> string + 'd val" where
  "eval_date_literal n =
     (let text = node_text n;
          digits = trim_end_matches (\<lambda>c. c = CHR ''d'' \<or> c = CHR ''D'') (trim text) in
      if digits = ''0'' then Ok (VDate 0)
      else if str_len digits \<noteq> 8 \<or> \<not> all_digits digits then Err (''malformed date literal: '' @ text)
      else
        (let year = digits_int (take 4 digits);
             month = digits_int (take 2 (drop 4 digits));
             day = digits_int (take 2 (drop 6 digits)) in
         if \<not> (1 \<le> year \<and> year \<le> 9999) \<or> day < 1 \<or> day > max_day year month
         then Err (''date literal out of range: '' @ text)
         else Ok (VDate (al_days_from_ymd year month day))))"

definition eval_time_literal :: "node \<Rightarrow> string + 'd val" where
  "eval_time_literal n =
     (let text = node_text n;
          digits = trim_end_matches (\<lambda>c. c = CHR ''t'' \<or> c = CHR ''T'') (trim text) in
      if digits = ''0'' then Ok (VTime 0)
      else if \<not> (6 \<le> str_len digits \<and> str_len digits \<le> 9) \<or> \<not> all_digits digits
      then Err (''malformed time literal: '' @ text)
      else
        (let hours = digits_int (take 2 digits);
             minutes = digits_int (take 2 (drop 2 digits));
             seconds = digits_int (take 2 (drop 4 digits));
             millis = (if str_len digits > 6 then digits_int (take 3 (drop 6 digits @ ''000'')) else 0) in
         if hours > 23 \<or> minutes > 59 \<or> seconds > 59 then Err (''time literal out of range: '' @ text)
         else Ok (VTime (((hours * 60 + minutes) * 60 + seconds) * 1000 + millis))))"


section \<open>Set literals\<close>

text \<open>The position of the scan: the depth of each bracket, and the quote or comment it is in.\<close>

record set_scan =
  paren_depth :: nat
  bracket_depth :: nat
  brace_depth :: nat
  in_single :: bool
  in_double :: bool
  line_comment :: bool
  block_comment :: bool

definition scan_start :: set_scan where
  "scan_start = \<lparr>paren_depth = 0, bracket_depth = 0, brace_depth = 0, in_single = False, in_double = False,
     line_comment = False, block_comment = False\<rparr>"

definition unquoted :: "set_scan \<Rightarrow> bool" where
  "unquoted st \<longleftrightarrow> \<not> in_single st \<and> \<not> in_double st"

definition at_top :: "set_scan \<Rightarrow> bool" where
  "at_top st \<longleftrightarrow> paren_depth st = 0 \<and> bracket_depth st = 0 \<and> brace_depth st = 0"

text \<open>The one-byte steps of the scan: an opening or closing delimiter or a quote.\<close>

definition closed :: "nat \<Rightarrow> char \<Rightarrow> string + nat" where
  "closed d c = (if d = 0 then Err (''set literal: unmatched `'' @ [c] @ ''`'') else Ok (d - 1))"

definition scan_char :: "char \<Rightarrow> set_scan \<Rightarrow> string + set_scan" where
  "scan_char c st =
     (if c = CHR 0x27 \<and> \<not> in_double st then Ok (st\<lparr>in_single := \<not> in_single st\<rparr>)
      else if c = CHR ''\"'' \<and> \<not> in_single st then Ok (st\<lparr>in_double := \<not> in_double st\<rparr>)
      else if \<not> unquoted st then Ok st
      else if c = CHR ''('' then Ok (st\<lparr>paren_depth := paren_depth st + 1\<rparr>)
      else if c = CHR '')'' then map_sum id (\<lambda>d. st\<lparr>paren_depth := d\<rparr>) (closed (paren_depth st) c)
      else if c = CHR ''['' then Ok (st\<lparr>bracket_depth := bracket_depth st + 1\<rparr>)
      else if c = CHR '']'' then map_sum id (\<lambda>d. st\<lparr>bracket_depth := d\<rparr>) (closed (bracket_depth st) c)
      else if c = CHR ''{'' then Ok (st\<lparr>brace_depth := brace_depth st + 1\<rparr>)
      else if c = CHR ''}'' then map_sum id (\<lambda>d. st\<lparr>brace_depth := d\<rparr>) (closed (brace_depth st) c)
      else Ok st)"

text \<open>
  \<open>cur\<close> is the text since the last top-level comma, the members found so far are in \<open>ms\<close>.
\<close>

function scan_members :: "set_scan \<Rightarrow> string \<Rightarrow> string list \<Rightarrow> string \<Rightarrow> string + string list" where
  "scan_members st cur ms s =
     (case s of
        [] \<Rightarrow>
          if in_single st \<or> in_double st \<or> \<not> at_top st \<or> block_comment st
          then Err ''set literal: unterminated quote or nested delimiter''
          else if trim cur = [] then Err ''set literal: empty trailing member''
          else Ok (ms @ [trim cur])
      | c # rest \<Rightarrow>
          if line_comment st then scan_members (st\<lparr>line_comment := c \<noteq> CHR 0x0A\<rparr>) (cur @ [c]) ms rest
          else if block_comment st then
            (if starts_with s ''*/'' then scan_members (st\<lparr>block_comment := False\<rparr>) (cur @ take 2 s) ms (drop 2 s)
             else scan_members st (cur @ [c]) ms rest)
          else if unquoted st \<and> starts_with s ''//'' then
            scan_members (st\<lparr>line_comment := True\<rparr>) (cur @ take 2 s) ms (drop 2 s)
          else if unquoted st \<and> starts_with s ''/*'' then
            scan_members (st\<lparr>block_comment := True\<rparr>) (cur @ take 2 s) ms (drop 2 s)
          else if unquoted st \<and> c = CHR ''#'' then scan_members (st\<lparr>line_comment := True\<rparr>) (cur @ [c]) ms rest
          else if in_single st \<and> starts_with s [CHR 0x27, CHR 0x27] then
            scan_members st (cur @ take 2 s) ms (drop 2 s)
          else if in_double st \<and> starts_with s ''\"\"'' then scan_members st (cur @ take 2 s) ms (drop 2 s)
          else if c = CHR '','' \<and> unquoted st \<and> at_top st then
            (if trim cur = [] then Err ''set literal: empty member''
             else scan_members st [] (ms @ [trim cur]) rest)
          else (case scan_char c st of
                  Inl e \<Rightarrow> Err e
                | Inr st' \<Rightarrow> scan_members st' (cur @ [c]) ms rest))"
  by pat_completeness auto
termination scan_members by (relation "measure (\<lambda>(st, cur, ms, s). length s)") auto

declare scan_members.simps [simp del]

definition split_set_members :: "string \<Rightarrow> string + string list" where
  "split_set_members source = (if trim source = [] then Ok [] else scan_members scan_start [] [] source)"

end
