(* ===== verification/Interp_State.thy ===== *)
theory Interp_State
  imports Scopes Coverage_Data Syntax_Tree Operators Numeric_Builtins
begin

text \<open>
  What the evaluator threads through its calls: the scope stack, the count of held bytes and the fields of
  \<open>DispatchCtx\<close> (\<^verbatim>\<open>interpreter/dispatch/mod.rs\<close>), with the helpers that record coverage.

  A step of the evaluator takes the state to a result and the next state, or to \<^const>\<open>None\<close> when the fuel of a
  loop is used up.  Everything outside the evaluator that the model does not describe (the record stores, the JSON
  nodes, the event index) is the field \<open>outside\<close>, of any type.
\<close>

section \<open>The state\<close>

definition MAX_RECURSION_DEPTH :: nat where "MAX_RECURSION_DEPTH = 512"
definition MAX_AST_DEPTH :: nat where "MAX_AST_DEPTH = 2560"

type_synonym cond_trace = "((nat \<times> nat) \<times> bool list) list"

record ('d, 'x) interp =
  scopes :: "'d scope_stack"
  held :: nat
  shared :: "'d env"
  recursion_depth :: nat
  ast_depth :: nat
  ticks :: nat
  coverage_of :: "coverage option"
  condition_trace_stack :: "cond_trace list"
  var_writebacks :: "(nat \<times> 'd val) list"
  stmt_position :: bool
  last_error :: "error_info option"
  work_date :: "int option"
  random_state :: "64 word"
  codeunit_instances :: "(nat \<times> 'd call_frame) list"
  active_instances :: "nat list"
  single_instances :: "(string \<times> nat) list"
  next_codeunit_instance :: nat
  pending_instance :: "nat option"
  pending_subscriber :: bool
  record_globals :: "(nat \<times> 'd call_frame) list"
  active_record_globals :: "(nat \<times> nat) list"
  next_address :: nat
  clock_reads :: nat
  outside :: 'x

definition new_pure :: "'d env \<Rightarrow> 'x \<Rightarrow> ('d, 'x) interp" where
  "new_pure E x =
     \<lparr>scopes = new_stack, held = 0, shared = E, recursion_depth = 0, ast_depth = 0, ticks = 0, coverage_of = None,
      condition_trace_stack = [], var_writebacks = [], stmt_position = False, last_error = None, work_date = None,
      random_state = 1, codeunit_instances = [], active_instances = [], single_instances = [],
      next_codeunit_instance = 0, pending_instance = None, pending_subscriber = False, record_globals = [],
      active_record_globals = [], next_address = 0, clock_reads = 0, outside = x\<rparr>"


section \<open>Steps\<close>

type_synonym ('d, 'x, 'a) step = "('d, 'x) interp \<Rightarrow> ('a \<times> ('d, 'x) interp) option"
type_synonym ('d, 'x) run = "('d, 'x, 'd eval) step"

definition ret :: "'a \<Rightarrow> ('d, 'x, 'a) step" where
  "ret a s = Some (a, s)"

definition andThen :: "('d, 'x, 'a) step \<Rightarrow> ('a \<Rightarrow> ('d, 'x, 'b) step) \<Rightarrow> ('d, 'x, 'b) step" where
  "andThen m f s = (case m s of None \<Rightarrow> None | Some (a, t) \<Rightarrow> f a t)"

definition reads :: "(('d, 'x) interp \<Rightarrow> 'a) \<Rightarrow> ('d, 'x, 'a) step" where
  "reads f s = Some (f s, s)"

definition updates :: "(('d, 'x) interp \<Rightarrow> ('d, 'x) interp) \<Rightarrow> ('d, 'x, unit) step" where
  "updates f s = Some ((), f s)"

definition out_of_fuel :: "('d, 'x, 'a) step" where
  "out_of_fuel s = None"

lemma step_simps [simp]:
  "ret a s = Some (a, s)" "reads f s = Some (f s, s)" "updates g s = Some ((), g s)" "out_of_fuel s = None"
  by (simp_all add: ret_def reads_def updates_def out_of_fuel_def)

lemma andThen_ret [simp]: "andThen (ret a) f = f a"
  by (simp add: andThen_def fun_eq_iff)

lemma andThen_assoc: "andThen (andThen m f) g = andThen m (\<lambda>a. andThen (f a) g)"
  by (auto simp: andThen_def fun_eq_iff split: option.splits)

text \<open>A total change of the state with a result.\<close>

definition does :: "(('d, 'x) interp \<Rightarrow> 'a \<times> ('d, 'x) interp) \<Rightarrow> ('d, 'x, 'a) step" where
  "does f s = Some (f s)"

lemma does_simp [simp]: "does f s = Some (f s)"
  by (simp add: does_def)

text \<open>The value of an evaluation; any other outcome ends the caller with it.\<close>

definition value_then :: "('d, 'x) run \<Rightarrow> ('d val \<Rightarrow> ('d, 'x) run) \<Rightarrow> ('d, 'x) run" where
  "value_then m f = andThen m (\<lambda>r. case r of ENormal v \<Rightarrow> f v | other \<Rightarrow> ret other)"

definition plain_error :: "string \<Rightarrow> error_info" where
  "plain_error msg = \<lparr>ei_message = msg, ei_error_type = None, ei_source = None\<rparr>"

definition eval_error :: "string \<Rightarrow> 'd eval" where
  "eval_error msg = EError (plain_error msg)"

definition fails :: "string \<Rightarrow> ('d, 'x) run" where
  "fails msg = ret (eval_error msg)"

text \<open>A computation that yields a message or a value, as an evaluation.\<close>

definition of_result :: "string + 'd val \<Rightarrow> 'd eval" where
  "of_result r = (case r of Inl e \<Rightarrow> eval_error e | Inr v \<Rightarrow> ENormal v)"

definition done_with :: "'d val \<Rightarrow> ('d, 'x) run" where
  "done_with v = ret (ENormal v)"


section \<open>Coverage\<close>

definition cov_update :: "(coverage \<Rightarrow> coverage) \<Rightarrow> ('d, 'x) interp \<Rightarrow> ('d, 'x) interp" where
  "cov_update f s = s\<lparr>coverage_of := map_option f (coverage_of s)\<rparr>"

definition row_of :: "node \<Rightarrow> nat" where
  "row_of n = start_row n + 1"

definition cov_record_stmt :: "node \<Rightarrow> ('d, 'x) interp \<Rightarrow> ('d, 'x) interp" where
  "cov_record_stmt n = cov_update (record_statement (row_of n))"

definition cov_record_decision :: "node \<Rightarrow> bool \<Rightarrow> ('d, 'x) interp \<Rightarrow> ('d, 'x) interp" where
  "cov_record_decision n taken = cov_update (record_decision (row_of n) taken)"

definition cov_ensure_path :: "node \<Rightarrow> string \<Rightarrow> ('d, 'x) interp \<Rightarrow> ('d, 'x) interp" where
  "cov_ensure_path n path = cov_update (ensure_path (row_of n) path)"

definition cov_record_path :: "node \<Rightarrow> string \<Rightarrow> ('d, 'x) interp \<Rightarrow> ('d, 'x) interp" where
  "cov_record_path n path = cov_update (record_path (row_of n) path)"

definition cov_enter_file :: "string \<Rightarrow> ('d, 'x) interp \<Rightarrow> string option \<times> ('d, 'x) interp" where
  "cov_enter_file file s =
     (case coverage_of s of
        None \<Rightarrow> (None, s)
      | Some c \<Rightarrow> let (prev, c) = set_current_file file c in (Some prev, s\<lparr>coverage_of := Some c\<rparr>))"

definition cov_restore_file :: "string option \<Rightarrow> ('d, 'x) interp \<Rightarrow> ('d, 'x) interp" where
  "cov_restore_file prev s =
     (case prev of None \<Rightarrow> s | Some p \<Rightarrow> cov_update (\<lambda>c. snd (set_current_file p c)) s)"

definition cov_begin_condition_trace :: "('d, 'x) interp \<Rightarrow> ('d, 'x) interp" where
  "cov_begin_condition_trace s =
     (if coverage_of s \<noteq> None then s\<lparr>condition_trace_stack := condition_trace_stack s @ [[]]\<rparr> else s)"

definition cov_finish_condition_trace :: "node \<Rightarrow> ('d, 'x) interp \<Rightarrow> bool list option \<times> ('d, 'x) interp" where
  "cov_finish_condition_trace n s =
     (if coverage_of s = None \<or> condition_trace_stack s = [] then (None, s)
      else (map_of (last (condition_trace_stack s)) (byte_range n),
            s\<lparr>condition_trace_stack := butlast (condition_trace_stack s)\<rparr>))"

definition cov_record_condition_observation ::
  "node \<Rightarrow> bool list option \<Rightarrow> bool \<Rightarrow> ('d, 'x) interp \<Rightarrow> ('d, 'x) interp" where
  "cov_record_condition_observation n conditions outcome =
     (case conditions of
        None \<Rightarrow> id
      | Some cs \<Rightarrow> if cs = [] then id else cov_update (record_condition_observation (row_of n) cs outcome))"

definition cov_set_expression_trace :: "node \<Rightarrow> bool list \<Rightarrow> ('d, 'x) interp \<Rightarrow> ('d, 'x) interp" where
  "cov_set_expression_trace n conditions s =
     (if condition_trace_stack s = [] then s
      else s\<lparr>condition_trace_stack := butlast (condition_trace_stack s) @
               [AList.update (byte_range n) conditions (last (condition_trace_stack s))]\<rparr>)"

definition cov_expression_trace :: "('d, 'x) interp \<Rightarrow> node \<Rightarrow> bool list option" where
  "cov_expression_trace s n =
     (if condition_trace_stack s = [] then None else map_of (last (condition_trace_stack s)) (byte_range n))"

definition cov_condition_trace_active :: "('d, 'x) interp \<Rightarrow> bool" where
  "cov_condition_trace_active s \<longleftrightarrow> condition_trace_stack s \<noteq> []"

section \<open>What calls the evaluator back\<close>

text \<open>
  A piece of code a table declares, and what the record layer and the events run: the functions that call each
  other in a circle are a record of functions.  \<open>cb_table_code\<close> is \<open>run_table_code\<close> of \<^verbatim>\<open>dispatch/table_code.rs\<close>, \<open>cb_raise\<close>
  is \<open>raise\<close> of \<^verbatim>\<open>dispatch/events.rs\<close>: the kind, name, event and element, the names and values of the publisher's
  parameters and the sender.
\<close>

datatype table_code = Table_Procedure string | Table_Trigger string | Field_Trigger string string

record ('d, 'x) callbacks =
  cb_expr :: "node \<Rightarrow> ('d, 'x) run"
  cb_stmt :: "node \<Rightarrow> ('d, 'x) run"
  cb_call_parts :: "string option \<Rightarrow> string \<Rightarrow> node option \<Rightarrow> ('d, 'x) run"
  cb_table_code :: "'d val \<Rightarrow> 'd val \<Rightarrow> table_code \<Rightarrow> 'd val list \<Rightarrow> ('d, 'x, 'd eval option) step"
  cb_raise :: "string \<Rightarrow> string \<Rightarrow> string \<Rightarrow> string \<Rightarrow> string list \<Rightarrow> 'd val list \<Rightarrow> 'd val option \<Rightarrow>
    ('d, 'x, 'd eval + 'd val list) step"


section \<open>What the evaluator calls\<close>

text \<open>
  The parts of the runtime around the evaluator, as the operations it calls on them.  \<open>w_parse\<close> is the parser of
  AL source (it runs the generated grammar), \<open>w_parse_errors\<close> and \<open>w_has_error\<close> its two reports of a syntax error,
  \<open>w_find_kind\<close> to \<open>w_object_name\<close> are the trait \<open>ProcedureSource\<close> through which the workspace is read, \<open>w_cancelled\<close>
  and \<open>w_deadline\<close> say what the n-th look at the cancel flag and at the deadline finds, \<open>w_clock\<close> what the n-th reading
  of the wall clock is.  \<open>w_publication\<close> reads the attributes of a declaration and the object around it (kind of the
  object, and whether the sender is passed), \<open>w_subscribers\<close> is the index of the workspace's event subscribers,
  \<open>w_field_section\<close> the section of a table's field.  The others are the record layer, the methods of values and the
  test libraries.  A record method evaluates its arguments, runs the triggers of its table and raises the table's
  events, so it is given the callbacks and may, as they, not return; the other operations get values and call
  nothing of the evaluator.
\<close>

record table_ref =
  tr_name :: string
  temp_owner :: "nat option"

record subscriber =
  sub_object :: string
  sub_procedure :: string
  sub_params :: "string list"

type_synonym ('d, 'x, 'a) outer = "('d, 'x) interp \<Rightarrow> 'a \<times> ('d, 'x) interp"

record ('d, 'x) world =
  w_cancelled :: "nat \<Rightarrow> bool"
  w_deadline :: "nat \<Rightarrow> bool"
  w_clock :: "nat \<Rightarrow> int"
  w_parse :: "string \<Rightarrow> node"
  w_parse_errors :: "string \<Rightarrow> bool"
  w_has_error :: "node \<Rightarrow> bool"
  w_find_kind :: "string \<Rightarrow> string list \<Rightarrow> string option"
  w_find_name :: "string \<Rightarrow> string option"
  w_parse_file :: "string \<Rightarrow> node option"
  w_object_name :: "string \<Rightarrow> string option"
  w_implicit_get :: "string \<Rightarrow> ('d, 'x, 'd eval option) outer"
  w_implicit_set :: "string \<Rightarrow> 'd val \<Rightarrow> ('d, 'x, 'd eval option) outer"
  w_record_binding :: "string \<Rightarrow> ('d, 'x, (table_ref \<times> nat) option) outer"
  w_field_section :: "node \<Rightarrow> string \<Rightarrow> node option"
  w_declares_field :: "table_ref \<Rightarrow> string \<Rightarrow> ('d, 'x, bool) outer"
  w_field_get :: "table_ref \<Rightarrow> nat \<Rightarrow> string \<Rightarrow> ('d, 'x, 'd eval) outer"
  w_field_set :: "string \<Rightarrow> string \<Rightarrow> 'd val \<Rightarrow> ('d, 'x, 'd eval option) outer"
  w_fork_record :: "record_value \<Rightarrow> ('d, 'x, record_value) outer"
  w_forget_record :: "nat \<Rightarrow> ('d, 'x) interp \<Rightarrow> ('d, 'x) interp"
  w_record_method :: "('d, 'x) callbacks \<Rightarrow> table_ref \<Rightarrow> nat \<Rightarrow> string \<Rightarrow> node option \<Rightarrow> ('d, 'x) run"
  w_value_method :: "string \<Rightarrow> string \<Rightarrow> 'd val list \<Rightarrow> bool \<Rightarrow> ('d, 'x, 'd eval) outer"
  w_dict_lookup :: "string \<Rightarrow> 'd val \<Rightarrow> ('d, 'x) interp \<Rightarrow> string + 'd val option"
  w_json_method :: "json_kind \<Rightarrow> string \<Rightarrow> bool"
  w_stub :: "string \<Rightarrow> string \<Rightarrow> ('d val list \<Rightarrow> ('d, 'x, 'd eval) outer) option"
  w_handler :: "string \<Rightarrow> (string \<times> string) option"
  w_new_guid :: "('d, 'x, 'd eval) outer"
  w_round :: "nat \<Rightarrow> 'd \<Rightarrow> 'd"
  w_dec_new :: "int \<Rightarrow> nat \<Rightarrow> 'd"
  w_round_whole :: "rounding \<Rightarrow> 'd \<Rightarrow> 'd"
  w_powd :: "'d \<Rightarrow> 'd \<Rightarrow> 'd option"
  w_publication :: "node \<Rightarrow> (string \<times> bool) option"
  w_subscribers :: "string \<Rightarrow> string \<Rightarrow> string \<Rightarrow> string \<Rightarrow> subscriber list"

text \<open>A reading of the wall clock.\<close>

definition read_clock :: "('d, 'x) world \<Rightarrow> ('d, 'x, int) outer" where
  "read_clock W s = (w_clock W (clock_reads s), s\<lparr>clock_reads := clock_reads s + 1\<rparr>)"

text \<open>A look at the cancel flag and the clock at the head of a loop.\<close>

definition interrupted :: "('d, 'x) world \<Rightarrow> string \<Rightarrow> ('d, 'x, string option) step" where
  "interrupted W loop =
     does (\<lambda>s. let t = ticks s in
       (if w_cancelled W t then Some (''interpreter cancelled in '' @ loop)
        else if w_deadline W t then Some (''interpreter deadline exceeded in '' @ loop)
        else None,
        s\<lparr>ticks := t + 1, shared := (shared s)\<lparr>thread_cancelled := w_cancelled W t\<rparr>\<rparr>))"

text \<open>
  New shared contents.  An address is never used twice.  The contents of Lists, Dictionaries and TextBuilders are
  kept for good: when they are freed, and the bytes they count, is the subject of \<open>Shared_Contents\<close>.
\<close>

definition alloc_list :: "'d val list \<Rightarrow> string option \<Rightarrow> ('d, 'x, 'd val) outer" where
  "alloc_list vs member s =
     (let a = next_address s in
      (VList a member None, s\<lparr>next_address := a + 1, shared := (shared s)\<lparr>lists := (a, vs) # lists (shared s)\<rparr>\<rparr>))"

definition alloc_dict :: "string option \<Rightarrow> string option \<Rightarrow> ('d, 'x, 'd val) outer" where
  "alloc_dict key value s =
     (let a = next_address s in
      (VDict a key value, s\<lparr>next_address := a + 1, shared := (shared s)\<lparr>dicts := (a, []) # dicts (shared s)\<rparr>\<rparr>))"

definition fresh_default :: "string \<Rightarrow> ('d, 'x, 'd val option) outer" where
  "fresh_default base s =
     (let a = next_address s in
      case default_for (dec (shared s)) a base of
        Some (VTextBuilder b) \<Rightarrow>
          (Some (VTextBuilder b), s\<lparr>next_address := a + 1, shared := (shared s)\<lparr>builders := (a, []) # builders (shared s)\<rparr>\<rparr>)
      | Some (VJson kind h) \<Rightarrow> (Some (VJson kind h), s\<lparr>next_address := a + 1\<rparr>)
      | d \<Rightarrow> (d, s))"

end
