(* ===== verification/Operator_Chain.thy ===== *)
theory Operator_Chain
  imports Interp_State
begin

text \<open>
  The flat \<open>expression\<close> node (\<^verbatim>\<open>interpreter/eval_expr/assignment_chain.rs\<close>): the grammar lists operands and operators
  side by side, and the evaluator finds the precedence by turning the list into reverse Polish order before it
  runs it.  \<open>ee\<close> is the evaluator of an operand.
\<close>

section \<open>Precedence\<close>

definition binary_precedence :: "string \<Rightarrow> nat option" where
  "binary_precedence operator =
     (let oper = to_ascii_lowercase operator in
      if oper \<in> {''*'', ''/'', ''div'', ''mod'', ''and'', ''xor''} then Some 4
      else if oper \<in> {''+'', ''-'', ''or''} then Some 3
      else if oper \<in> {''>'', ''>='', ''<'', ''<='', ''='', ''<>'', ''in''} then Some 2
      else if oper = ''..'' then Some 1
      else None)"

datatype chain_token = Operand node | Operator string

definition operator_text :: "node \<Rightarrow> string" where
  "operator_text n = to_ascii_lowercase (trim (node_text n))"

text \<open>
  The conversion.  \<open>ops\<close> is the operator stack with its top first, \<open>operand_turn\<close> says that the next child stands
  at an even index.
\<close>

definition pop_stronger :: "nat \<Rightarrow> (string \<times> nat) list \<Rightarrow> chain_token list" where
  "pop_stronger p ops = map (Operator \<circ> fst) (takeWhile (\<lambda>(_, q). q \<ge> p) ops)"

definition keep_weaker :: "nat \<Rightarrow> (string \<times> nat) list \<Rightarrow> (string \<times> nat) list" where
  "keep_weaker p ops = dropWhile (\<lambda>(_, q). q \<ge> p) ops"

fun to_rpn :: "bool \<Rightarrow> node list \<Rightarrow> (string \<times> nat) list \<Rightarrow> chain_token list \<Rightarrow> string + chain_token list" where
  "to_rpn operand_turn [] ops output = Ok (output @ map (Operator \<circ> fst) ops)"
| "to_rpn True (n # ns) ops output = to_rpn False ns ops (output @ [Operand n])"
| "to_rpn False (n # ns) ops output =
     (let operator = operator_text n in
      case binary_precedence operator of
        None \<Rightarrow> Err (''unsupported binary operator in expression: `'' @ operator @ ''`'')
      | Some p \<Rightarrow> to_rpn True ns ((operator, p) # keep_weaker p ops) (output @ pop_stronger p ops))"


section \<open>Running the chain\<close>

type_synonym 'd traced = "'d val \<times> bool list option"

definition atomic_condition :: "'d val \<Rightarrow> bool list option" where
  "atomic_condition v = (case v of VBoolean b \<Rightarrow> Some [b] | _ \<Rightarrow> None)"

definition conditions_of :: "'d traced \<Rightarrow> bool list" where
  "conditions_of t = unwrap_or (or_else (snd t) (atomic_condition (fst t))) []"

definition combined_conditions :: "string \<Rightarrow> 'd traced \<Rightarrow> 'd traced \<Rightarrow> 'd val \<Rightarrow> bool list option" where
  "combined_conditions operator left right v =
     (case v of
        VBoolean outcome \<Rightarrow>
          if operator \<in> {''and'', ''or'', ''xor''} then Some (conditions_of left @ conditions_of right)
          else Some [outcome]
      | _ \<Rightarrow> None)"

type_synonym 'd traced_eval = "'d eval \<times> bool list option"

definition value_traced :: "('d, 'x) run \<Rightarrow> ('d val \<Rightarrow> ('d, 'x, 'd traced_eval) step) \<Rightarrow> ('d, 'x, 'd traced_eval) step" where
  "value_traced m f = andThen m (\<lambda>r. case r of ENormal v \<Rightarrow> f v | other \<Rightarrow> ret (other, None))"

fun run_tokens :: "(node \<Rightarrow> ('d, 'x) run) \<Rightarrow> chain_token list \<Rightarrow> 'd traced list \<Rightarrow> ('d, 'x, 'd traced_eval) step" where
  "run_tokens ee [] vals =
     (case vals of
        [(v, conditions)] \<Rightarrow> ret (ENormal v, conditions)
      | _ \<Rightarrow> ret (eval_error ''expression chain: invalid operand/operator structure'', None))"
| "run_tokens ee (Operand n # tokens) vals =
     value_traced (ee n) (\<lambda>v.
       andThen (reads (\<lambda>s. cov_expression_trace s n)) (\<lambda>conditions.
         run_tokens ee tokens ((v, conditions) # vals)))"
| "run_tokens ee (Operator operator # tokens) vals =
     (case vals of
        [] \<Rightarrow> ret (eval_error ''expression chain: binary operator missing right operand'', None)
      | [right] \<Rightarrow> ret (eval_error ''expression chain: binary operator missing left operand'', None)
      | right # left # rest \<Rightarrow>
          andThen (reads (\<lambda>s. apply_binary (shared s) operator (fst left) (fst right))) (\<lambda>res.
            case res of
              Inl e \<Rightarrow> ret (eval_error e, None)
            | Inr v \<Rightarrow> run_tokens ee tokens ((v, combined_conditions operator left right v) # rest)))"

definition eval_expr_chain :: "(node \<Rightarrow> ('d, 'x) run) \<Rightarrow> node list \<Rightarrow> ('d, 'x, 'd traced_eval) step" where
  "eval_expr_chain ee children =
     (case children of
        [] \<Rightarrow> ret (eval_error ''expression chain: empty'', None)
      | [n] \<Rightarrow> andThen (ee n) (\<lambda>r. ret (r, None))
      | _ \<Rightarrow>
          if even (length children)
          then ret (eval_error ''expression chain: expected alternating operands and operators'', None)
          else (case to_rpn True children [] [] of
                  Inl e \<Rightarrow> ret (eval_error e, None)
                | Inr tokens \<Rightarrow> run_tokens ee tokens []))"


section \<open>The conditional operator\<close>

definition operator_is :: "string \<Rightarrow> node \<Rightarrow> bool" where
  "operator_is oper n \<longleftrightarrow> node_kind n = ''binary_operator'' \<and> trim (node_text n) = oper"

definition question_index :: "node list \<Rightarrow> nat option" where
  "question_index children =
     List.find (\<lambda>i. odd i \<and> operator_is ''?'' (children ! i)) [0..<length children]"

fun colon_index :: "node list \<Rightarrow> nat \<Rightarrow> nat list \<Rightarrow> nat option" where
  "colon_index children nested [] = None"
| "colon_index children nested (i # is) =
     (let n = children ! i in
      if operator_is ''?'' n then colon_index children (nested + 1) is
      else if operator_is '':'' n then (if nested = 0 then Some i else colon_index children (nested - 1) is)
      else colon_index children nested is)"

definition later_operators :: "nat \<Rightarrow> nat \<Rightarrow> nat list" where
  "later_operators q len = filter (\<lambda>i. even (i - q)) [q + 2..<len]"

lemma colon_index_mem: "colon_index children nested is = Some c \<Longrightarrow> c \<in> set is"
  by (induction children nested "is" rule: colon_index.induct) (auto simp: Let_def split: if_splits)

lemma question_index_bound: "question_index children = Some q \<Longrightarrow> q < length children"
  by (auto simp: question_index_def find_Some_iff)

lemma later_operators_bound: "c \<in> set (later_operators q len) \<Longrightarrow> q + 2 \<le> c \<and> c < len"
  by (auto simp: later_operators_def)

function eval_computation_chain :: "(node \<Rightarrow> ('d, 'x) run) \<Rightarrow> node list \<Rightarrow> ('d, 'x, 'd traced_eval) step" where
  "eval_computation_chain ee children =
     (case question_index children of
        None \<Rightarrow> eval_expr_chain ee children
      | Some q \<Rightarrow>
          (case colon_index children 0 (later_operators q (length children)) of
             None \<Rightarrow> ret (eval_error ''conditional expression: `?` has no matching `:`'', None)
           | Some c \<Rightarrow>
               let condition = take q children;
                   when_true = take (c - (q + 1)) (drop (q + 1) children);
                   when_false = drop (c + 1) children in
               if condition = [] \<or> when_true = [] \<or> when_false = []
               then ret (eval_error ''conditional expression: condition and both result branches are required'', None)
               else andThen (eval_computation_chain ee condition) (\<lambda>(r, _).
                 case r of
                   ENormal (VBoolean b) \<Rightarrow>
                     andThen (if b then eval_computation_chain ee when_true
                              else eval_computation_chain ee when_false) (\<lambda>(r, selected).
                       ret (r, case r of ENormal (VBoolean v) \<Rightarrow> or_else selected (Some [v]) | _ \<Rightarrow> None))
                 | ENormal other \<Rightarrow>
                     ret (eval_error (''conditional expression requires Boolean condition, got '' @ type_name other), None)
                 | other \<Rightarrow> ret (other, None))))"
  by pat_completeness auto
termination eval_computation_chain
  by (relation "measure (length \<circ> snd)")
    (auto dest!: question_index_bound colon_index_mem later_operators_bound)

declare eval_computation_chain.simps [simp del]

section \<open>The tree a chain stands for\<close>

text \<open>
  The reference reading of a chain: the weakest operator is the root, of equal ones the last, so that every tier
  associates to the left; a tree is evaluated left operand first.
\<close>

datatype chain_tree = Leaf node | Binary string chain_tree chain_tree

type_synonym chain_item = "string \<times> nat \<times> node"

fun chain_items :: "node list \<Rightarrow> chain_item list option" where
  "chain_items [] = Some []"
| "chain_items [_] = None"
| "chain_items (oper # n # ns) =
     (case binary_precedence (operator_text oper) of
        None \<Rightarrow> None
      | Some p \<Rightarrow> map_option (\<lambda>items. (operator_text oper, p, n) # items) (chain_items ns))"

definition weakest :: "chain_item list \<Rightarrow> nat" where
  "weakest items = Min ((fst \<circ> snd) ` set items)"

definition after_weakest :: "chain_item list \<Rightarrow> chain_item list" where
  "after_weakest items = rev (takeWhile (\<lambda>(_, q, _). q > weakest items) (rev items))"

definition upto_weakest :: "chain_item list \<Rightarrow> chain_item list" where
  "upto_weakest items = rev (dropWhile (\<lambda>(_, q, _). q > weakest items) (rev items))"

lemma weakest_split: "items = upto_weakest items @ after_weakest items"
  by (simp add: upto_weakest_def after_weakest_def rev_append [symmetric] del: rev_append)

lemma weakest_le: "(oper, p, n) \<in> set items \<Longrightarrow> weakest items \<le> p"
  unfolding weakest_def by (rule Min_le) force+

lemma upto_weakest_last:
  assumes "items \<noteq> []"
  shows "upto_weakest items \<noteq> [] \<and> fst (snd (last (upto_weakest items))) = weakest items"
proof -
  have "weakest items \<in> (fst \<circ> snd) ` set items" unfolding weakest_def using assms by (intro Min_in) auto
  then obtain x where x: "x \<in> set items" "fst (snd x) = weakest items" by auto
  let ?P = "\<lambda>(_, q, _). q > weakest items"
  have ne: "dropWhile ?P (rev items) \<noteq> []" using x by (force simp: dropWhile_eq_Nil_conv)
  obtain oper p n where h: "hd (dropWhile ?P (rev items)) = (oper, p, n)" by (metis prod_cases3)
  have "hd (dropWhile ?P (rev items)) \<in> set items" using ne by (metis hd_in_set set_dropWhileD set_rev)
  then show ?thesis
    using ne hd_dropWhile [OF ne] h weakest_le [of oper p n items] by (auto simp: upto_weakest_def last_rev)
qed

lemma weakest_lengths:
  assumes "items \<noteq> []"
  shows "length (butlast (upto_weakest items)) < length items" and "length (after_weakest items) < length items"
proof -
  have "length items = length (upto_weakest items) + length (after_weakest items)"
    by (subst weakest_split) simp
  moreover have "length (upto_weakest items) > 0" using upto_weakest_last [OF assms] by simp
  ultimately show "length (butlast (upto_weakest items)) < length items" "length (after_weakest items) < length items"
    by (simp_all del: length_greater_0_conv)
qed

function tree_of :: "node \<Rightarrow> chain_item list \<Rightarrow> chain_tree" where
  "tree_of n items =
     (if items = [] then Leaf n
      else let (oper, _, m) = last (upto_weakest items) in
        Binary oper (tree_of n (butlast (upto_weakest items))) (tree_of m (after_weakest items)))"
  by pat_completeness auto
termination tree_of
  by (relation "measure (length \<circ> snd)") (simp_all add: weakest_lengths del: length_butlast)

declare tree_of.simps [simp del]

text \<open>The tree, its operands run from left to right and each operator once both sides have a value.\<close>

definition with_value ::
  "('d, 'x, 'd traced_eval) step \<Rightarrow> ('d traced \<Rightarrow> ('d, 'x, 'd traced_eval) step) \<Rightarrow> ('d, 'x, 'd traced_eval) step" where
  "with_value m f = andThen m (\<lambda>(r, c). case r of ENormal v \<Rightarrow> f (v, c) | other \<Rightarrow> ret (other, None))"

fun eval_tree :: "(node \<Rightarrow> ('d, 'x) run) \<Rightarrow> chain_tree \<Rightarrow> ('d, 'x, 'd traced_eval) step" where
  "eval_tree ee (Leaf n) =
     value_traced (ee n) (\<lambda>v. andThen (reads (\<lambda>s. cov_expression_trace s n)) (\<lambda>c. ret (ENormal v, c)))"
| "eval_tree ee (Binary oper l r) =
     with_value (eval_tree ee l) (\<lambda>left. with_value (eval_tree ee r) (\<lambda>right.
       andThen (reads (\<lambda>s. apply_binary (shared s) oper (fst left) (fst right))) (\<lambda>res.
         case res of
           Inl e \<Rightarrow> ret (eval_error e, None)
         | Inr v \<Rightarrow> ret (ENormal v, combined_conditions oper left right v))))"

fun postfix :: "chain_tree \<Rightarrow> chain_token list" where
  "postfix (Leaf n) = [Operand n]"
| "postfix (Binary oper l r) = postfix l @ postfix r @ [Operator oper]"

lemma with_value_cases: "with_value (with_value m f) g = with_value m (\<lambda>x. with_value (f x) g)"
  unfolding with_value_def andThen_assoc
  by (intro arg_cong [of _ _ "andThen m"] ext) (auto simp: eval_error_def split: prod.splits eval.splits)

lemma run_postfix: "run_tokens ee (postfix t @ tokens) vals = with_value (eval_tree ee t) (\<lambda>x. run_tokens ee tokens (x # vals))"
proof (induction t arbitrary: tokens vals)
  case (Leaf n)
  show ?case
    by (auto simp: with_value_def value_traced_def andThen_def reads_def fun_eq_iff split: option.splits eval.splits)
next
  case (Binary oper l r)
  have "run_tokens ee (Operator oper # tokens) (right # left # vals) =
    with_value (andThen (reads (\<lambda>s. apply_binary (shared s) oper (fst left) (fst right))) (\<lambda>res.
         case res of
           Inl e \<Rightarrow> ret (eval_error e, None)
         | Inr v \<Rightarrow> ret (ENormal v, combined_conditions oper left right v))) (\<lambda>x. run_tokens ee tokens (x # vals))" for left right
    by (auto simp: with_value_def andThen_def reads_def eval_error_def fun_eq_iff split: sum.splits)
  then show ?case by (simp add: Binary with_value_cases)
qed

text \<open>What the conversion writes after the first operand.\<close>

fun yard :: "chain_item list \<Rightarrow> (string \<times> nat) list \<Rightarrow> chain_token list" where
  "yard [] ops = map (Operator \<circ> fst) ops"
| "yard ((oper, p, n) # items) ops = pop_stronger p ops @ Operand n # yard items ((oper, p) # keep_weaker p ops)"

lemma to_rpn_yard: "chain_items ns = Some items \<Longrightarrow> to_rpn False ns ops out = Ok (out @ yard items ops)"
  by (induction ns arbitrary: items ops out rule: chain_items.induct) (auto split: option.splits)

lemma yard_weakest:
  "\<forall>(_, q, _) \<in> set ys. p \<le> q \<Longrightarrow> \<forall>(_, q) \<in> set ops. p \<le> q \<Longrightarrow>
   yard (ys @ (oper, p, n) # zs) ops = yard ys ops @ Operand n # yard zs [(oper, p)]"
proof (induction ys arbitrary: ops)
  case Nil
  then have "takeWhile (\<lambda>(_, q). q \<ge> p) ops = ops" "dropWhile (\<lambda>(_, q). q \<ge> p) ops = []"
    by (simp_all add: takeWhile_eq_all_conv dropWhile_eq_Nil_conv)
  then show ?case by (simp only: append_Nil yard.simps pop_stronger_def keep_weaker_def)
next
  case (Cons y ys)
  obtain o' q m where y: "y = (o', q, m)" by (metis prod_cases3)
  have "\<forall>(_, r) \<in> set ((o', q) # keep_weaker q ops). p \<le> r"
    using Cons.prems y by (auto simp: keep_weaker_def dest!: set_dropWhileD)
  then show ?case using Cons y by simp
qed

lemma yard_stronger:
  "\<forall>(_, q, _) \<in> set zs. p < q \<Longrightarrow> yard zs (ops @ [(oper, p)]) = yard zs ops @ [Operator oper]"
proof (induction zs arbitrary: ops)
  case (Cons z zs)
  obtain o' q m where z: "z = (o', q, m)" by (metis prod_cases3)
  with Cons.prems have "pop_stronger q (ops @ [(oper, p)]) = pop_stronger q ops"
    "keep_weaker q (ops @ [(oper, p)]) = keep_weaker q ops @ [(oper, p)]"
    by (induction ops) (auto simp: pop_stronger_def keep_weaker_def)
  with z Cons show ?case using Cons.IH [of "(o', q) # keep_weaker q ops"] by simp
qed simp

lemma yard_tree: "Operand n # yard items [] = postfix (tree_of n items)"
proof (induction n items rule: tree_of.induct)
  case (1 n items)
  show ?case
  proof (cases "items = []")
    case False
    let ?ys = "butlast (upto_weakest items)" and ?zs = "after_weakest items"
    obtain oper p m where l: "last (upto_weakest items) = (oper, p, m)" by (metis prod_cases3)
    with upto_weakest_last [OF False] have p: "p = weakest items" and u: "upto_weakest items = ?ys @ [(oper, p, m)]"
      by (auto, metis append_butlast_last_id)
    have items: "items = ?ys @ (oper, p, m) # ?zs" using weakest_split [of items] u by (metis append.assoc append_Cons append_Nil)
    have ys: "\<forall>(_, q, _) \<in> set ?ys. p \<le> q" using weakest_le p items by (metis (no_types, lifting) UnCI case_prodI2 set_append)
    have zs: "\<forall>(_, q, _) \<in> set ?zs. p < q" using p by (auto simp: after_weakest_def dest!: set_takeWhileD)
    have "Operand n # yard items [] = Operand n # yard ?ys [] @ Operand m # yard ?zs [] @ [Operator oper]"
      using yard_weakest [OF ys, of "[]" oper m ?zs] yard_stronger [OF zs, of "[]" oper] items by simp
    moreover have "Operand n # yard ?ys [] = postfix (tree_of n ?ys)" "Operand m # yard ?zs [] = postfix (tree_of m ?zs)"
      using 1 False l by auto
    ultimately show ?thesis using l False by (simp add: tree_of.simps [of n items])
  qed (simp add: tree_of.simps)
qed

lemma chain_items_None:
  "chain_items ns = None \<Longrightarrow> even (length ns) \<Longrightarrow>
   \<exists>oper \<in> set ns. binary_precedence (operator_text oper) = None \<and>
     to_rpn False ns ops out = Err (''unsupported binary operator in expression: `'' @ operator_text oper @ ''`'')"
  by (induction ns arbitrary: ops out rule: chain_items.induct) (auto split: option.splits)

lemma apply_step_value:
  "with_value (andThen (reads f) (\<lambda>res. case res of Inl e \<Rightarrow> ret (eval_error e, None) | Inr v \<Rightarrow> ret (ENormal v, g v)))
     (\<lambda>x. ret (ENormal (fst x), snd x)) =
   andThen (reads f) (\<lambda>res. case res of Inl e \<Rightarrow> ret (eval_error e, None) | Inr v \<Rightarrow> ret (ENormal v, g v))"
  by (auto simp: with_value_def andThen_def reads_def eval_error_def fun_eq_iff split: sum.splits)

lemma eval_tree_value: "with_value (eval_tree ee t) (\<lambda>x. ret (ENormal (fst x), snd x)) = eval_tree ee t"
proof (induction t)
  case (Leaf n)
  show ?case
    by (auto simp: with_value_def value_traced_def andThen_def reads_def fun_eq_iff split: option.splits eval.splits)
next
  case (Binary oper l r)
  then show ?case by (simp only: eval_tree.simps with_value_cases apply_step_value)
qed

text \<open>
  C4: A flat chain of operands and operators is evaluated as the tree of its operator precedences, equal precedences
  to the left: the same operands in the same order, the same operators on the same values, the same errors, the
  same condition trace and the same final state.
\<close>

theorem operator_chain_is_tree:
  fixes ee :: "node \<Rightarrow> ('d, 'x) run"
  assumes "chain_items ns = Some items" and "ns \<noteq> []"
  shows "eval_expr_chain ee (n # ns) = eval_tree ee (tree_of n items)"
proof -
  have "even (length ns)" using assms(1) by (induction ns arbitrary: items rule: chain_items.induct) (auto split: option.splits)
  then have "eval_expr_chain ee (n # ns) = run_tokens ee (Operand n # yard items []) []"
    using assms to_rpn_yard [OF assms(1), of "[]" "[Operand n]"] by (cases ns) (auto simp: eval_expr_chain_def)
  also have "\<dots> = with_value (eval_tree ee (tree_of n items)) (\<lambda>x. ret (ENormal (fst x), snd x))"
    using run_postfix [of ee "tree_of n items" "[]" "[]"] by (simp add: yard_tree case_prod_unfold)
  finally show ?thesis by (simp only: eval_tree_value)
qed

definition sample_token :: "string \<Rightarrow> string \<Rightarrow> node" where
  "sample_token kind s = Node kind True None s 0 (0, 0) []"

lemma operator_chain_is_tree_witness:
  "eval_expr_chain (\<lambda>n. done_with (VText (node_text n)) :: (mantissa, unit) run)
     (map (sample_token ''integer'') [''1''] @ [sample_token ''binary_operator'' ''-'', sample_token ''integer'' ''2'',
        sample_token ''binary_operator'' ''-'', sample_token ''integer'' ''3'',
        sample_token ''binary_operator'' ''*'', sample_token ''integer'' ''4'']) =
   eval_tree (\<lambda>n. done_with (VText (node_text n))) (Binary ''-'' (Binary ''-'' (Leaf (sample_token ''integer'' ''1'')) (Leaf (sample_token ''integer'' ''2'')))
     (Binary ''*'' (Leaf (sample_token ''integer'' ''3'')) (Leaf (sample_token ''integer'' ''4''))))"
proof -
  let ?n = "sample_token ''integer''" and ?o = "sample_token ''binary_operator''"
  let ?items = "[(''-'', 3, ?n ''2''), (''-'', 3, ?n ''3''), (''*'', 4, ?n ''4'')]"
  have items: "chain_items [?o ''-'', ?n ''2'', ?o ''-'', ?n ''3'', ?o ''*'', ?n ''4''] = Some ?items" by code_simp
  have tree: "tree_of (?n ''1'') ?items = Binary ''-'' (Binary ''-'' (Leaf (?n ''1'')) (Leaf (?n ''2'')))
     (Binary ''*'' (Leaf (?n ''3'')) (Leaf (?n ''4'')))"
    by code_simp
  show ?thesis using operator_chain_is_tree [OF items, of "\<lambda>n. done_with (VText (node_text n))" "?n ''1''"] tree by simp
qed

end
