(* ===== verification/Indexing.thy ===== *)
theory Indexing
  imports Operator_Chain Literals Date_Builtins
begin

text \<open>
  Elements of arrays and characters of texts (\<^verbatim>\<open>interpreter/indexing.rs\<close>), the arguments of a call and the writing
  back of its \<open>var\<close> arguments (\<^verbatim>\<open>interpreter/eval_stmt.rs\<close>).  \<open>ee\<close> is the expression evaluator.
\<close>

section \<open>Variables of the running frame\<close>

definition lookup :: "string \<Rightarrow> ('d, 'x) interp \<Rightarrow> 'd val option" where
  "lookup name s = lookup_var (scopes s) name"

definition store :: "string \<Rightarrow> string \<Rightarrow> 'd val \<Rightarrow> ('d, 'x, (string + unit) option) step" where
  "store operation name v = does (\<lambda>s.
     let (res, S, tot) = store_var operation name v (scopes s) (held s) in (res, s\<lparr>scopes := S, held := tot\<rparr>))"

text \<open>The top frame, when there is one, changed together with the count of bytes.\<close>

definition with_top :: "('d call_frame \<Rightarrow> nat \<Rightarrow> 'd call_frame \<times> nat) \<Rightarrow> ('d, 'x) interp \<Rightarrow> ('d, 'x) interp" where
  "with_top f s =
     (if frames (scopes s) = [] then s
      else let (F, tot) = f (last (frames (scopes s))) (held s) in
        s\<lparr>scopes := (scopes s)\<lparr>frames := butlast (frames (scopes s)) @ [F]\<rparr>, held := tot\<rparr>)"

definition bind_top :: "string \<Rightarrow> 'd val \<Rightarrow> ('d, 'x) interp \<Rightarrow> ('d, 'x) interp" where
  "bind_top name v = with_top (bind_var name v)"

definition unbind_top :: "string \<Rightarrow> ('d, 'x) interp \<Rightarrow> ('d, 'x) interp" where
  "unbind_top name = with_top (\<lambda>F tot. snd (unbind_var name F tot))"

definition store_or :: "string \<Rightarrow> string \<Rightarrow> 'd val \<Rightarrow> ('d, 'x) run \<Rightarrow> ('d, 'x) run" where
  "store_or operation name v absent =
     andThen (store operation name v) (\<lambda>res. case res of
       None \<Rightarrow> absent
     | Some (Inl e) \<Rightarrow> fails e
     | Some (Inr _) \<Rightarrow> done_with VEmpty)"


section \<open>Expressions parsed on their own\<close>

definition index_wrapper :: "string \<Rightarrow> string" where
  "index_wrapper s = ''codeunit 1 Index { procedure Index() begin exit('' @ s @ ''); end; }''"

definition eval_standalone_expression ::
  "('d, 'x) world \<Rightarrow> (node \<Rightarrow> ('d, 'x) run) \<Rightarrow> string \<Rightarrow> ('d, 'x) run" where
  "eval_standalone_expression W ee s =
     (let root = w_parse W (index_wrapper s) in
      case (if w_has_error W root then None else find_exit_expression root) of
        None \<Rightarrow> fails ([CHR 0x27] @ s @ [CHR 0x27] @ '' is not an expression'')
      | Some expr \<Rightarrow>
          andThen (does (\<lambda>s. (coverage_of s, s\<lparr>coverage_of := None\<rparr>))) (\<lambda>cov.
          andThen (ee expr) (\<lambda>r.
          andThen (updates (\<lambda>s. s\<lparr>coverage_of := cov\<rparr>)) (\<lambda>_. ret r))))"

definition trim_start_matches :: "(char \<Rightarrow> bool) \<Rightarrow> string \<Rightarrow> string" where
  "trim_start_matches P s = dropWhile P s"

definition index_text :: "node \<Rightarrow> string" where
  "index_text suffix =
     trim (trim_end_matches (\<lambda>c. c = CHR '']'') (trim_start_matches (\<lambda>c. c = CHR ''['')
       (trim (node_text (unwrap_or (child_by_field_name suffix ''index'') suffix)))))"

definition index_of :: "'d val \<Rightarrow> string + int" where
  "index_of v =
     (case v of
        VInteger i \<Rightarrow> Ok i
      | VBigInteger i \<Rightarrow> Ok i
      | other \<Rightarrow> Err (''an index must be an Integer, got '' @ type_name other))"

text \<open>A position, or the outcome that ends the caller.\<close>

definition eval_index :: "('d, 'x) world \<Rightarrow> (node \<Rightarrow> ('d, 'x) run) \<Rightarrow> node \<Rightarrow> ('d, 'x, 'd eval + int) step" where
  "eval_index W ee suffix =
     (let s = index_text suffix in
      if has_char (CHR '','') s
      then ret (Err (eval_error (''indexing with several dimensions (['' @ s @ '']) is not supported by the local runtime'')))
      else
        andThen (case parse_i64 s of
                   Some i \<Rightarrow> done_with (VInteger i)
                 | None \<Rightarrow>
                     andThen (reads (lookup (to_ascii_lowercase (unquote_identifier s)))) (\<lambda>bound.
                       case bound of Some v \<Rightarrow> done_with v | None \<Rightarrow> eval_standalone_expression W ee s))
          (\<lambda>r. case r of
             ENormal v \<Rightarrow> ret (map_sum eval_error id (index_of v))
           | other \<Rightarrow> ret (Err other)))"


section \<open>Elements\<close>

definition position :: "int \<Rightarrow> nat \<Rightarrow> string \<Rightarrow> string + nat" where
  "position index len name =
     (if in_i64 (index - 1) \<and> 0 \<le> index - 1 \<and> nat (index - 1) < len then Ok (nat (index - 1))
      else Err (''index '' @ show_int index @ '' is outside the bounds of '' @ [CHR 0x27] @ name @ [CHR 0x27] @
                '' (1..'' @ show_nat len @ '')''))"

definition element_of :: "string \<Rightarrow> int \<Rightarrow> 'd val option \<Rightarrow> string + 'd val" where
  "element_of name index bound =
     (case bound of
        None \<Rightarrow> Err (''unbound identifier: '' @ name)
      | Some v \<Rightarrow>
          (case v of
             VArray items \<Rightarrow> map_sum id (\<lambda>pos. items ! pos) (position index (length items) name)
           | VText t \<Rightarrow> map_sum id (\<lambda>pos. VChar (t ! pos)) (position index (length t) name)
           | VCode t \<Rightarrow> map_sum id (\<lambda>pos. VChar (t ! pos)) (position index (length t) name)
           | other \<Rightarrow> Err ([CHR 0x27] @ name @ [CHR 0x27] @ '' is a '' @ type_name other @ '', not an array'')))"

definition read_element_at :: "string \<Rightarrow> int \<Rightarrow> ('d, 'x) interp \<Rightarrow> string + 'd val" where
  "read_element_at name index s = element_of name index (lookup name s)"

definition read_element :: "('d, 'x) world \<Rightarrow> (node \<Rightarrow> ('d, 'x) run) \<Rightarrow> string \<Rightarrow> node \<Rightarrow> ('d, 'x) run" where
  "read_element W ee name suffix =
     andThen (eval_index W ee suffix) (\<lambda>r. case r of
       Inl e \<Rightarrow> ret e
     | Inr i \<Rightarrow> andThen (reads (read_element_at name i)) (\<lambda>v. ret (of_result v)))"

text \<open>
  What a write to an element makes of the variable: the new value of the variable, the name of the operation and
  the bytes it takes out and puts in.
\<close>

definition written_char :: "string \<Rightarrow> bool \<Rightarrow> 'd val \<Rightarrow> string + char" where
  "written_char name is_code v =
     map_sum id (\<lambda>c. if is_code then ascii_upper_char c else c)
       (case v of
          VChar c \<Rightarrow> Ok c
        | VText [c] \<Rightarrow> Ok c
        | VCode [c] \<Rightarrow> Ok c
        | other \<Rightarrow> Err (''a character of '' @ [CHR 0x27] @ name @ [CHR 0x27] @ '' takes a Char, got '' @ type_name other))"

definition element_write ::
  "'d decimal_ops \<Rightarrow> string \<Rightarrow> nat \<Rightarrow> 'd val \<Rightarrow> 'd val \<Rightarrow> string + (string \<times> nat \<times> nat \<times> 'd val)" where
  "element_write D name pos v bound =
     (case bound of
        VArray items \<Rightarrow>
          map_sum id (\<lambda>v'. (''Array element assignment'', owned_bytes (items ! pos), owned_bytes v', VArray (items[pos := v'])))
            (coerce_into_slot D (items ! pos) v None)
      | VText t \<Rightarrow>
          map_sum id (\<lambda>c. (''Text character assignment'', str_len t, str_len (t[pos := c]), VText (t[pos := c])))
            (written_char name False v)
      | VCode t \<Rightarrow>
          map_sum id (\<lambda>c. (''Text character assignment'', str_len t, str_len (t[pos := c]), VCode (t[pos := c])))
            (written_char name True v)
      | other \<Rightarrow> Err '''')"

text \<open>\<open>slot.recount\<close> followed by the change of the value in its slot.\<close>

definition recount_slot ::
  "nat \<Rightarrow> string \<Rightarrow> string \<Rightarrow> nat \<Rightarrow> nat \<Rightarrow> 'd val \<Rightarrow> ('d, 'x, string + unit) step" where
  "recount_slot i key operation old new v = does (\<lambda>s.
     let S = scopes s;
         (res, F, tot) = slot_recount operation old new (frames S ! i) (held s);
         F = (case res of Inl _ \<Rightarrow> F | Inr _ \<Rightarrow> F\<lparr>locals := AList.update key v (locals F)\<rparr>) in
     (res, s\<lparr>scopes := S\<lparr>frames := (frames S)[i := F]\<rparr>, held := tot\<rparr>))"

definition of_unit :: "string + unit \<Rightarrow> 'd eval" where
  "of_unit r = (case r of Inl e \<Rightarrow> eval_error e | Inr _ \<Rightarrow> ENormal VEmpty)"

definition write_element_at ::
  "string \<Rightarrow> int \<Rightarrow> 'd val \<Rightarrow> ('d env \<Rightarrow> 'd val \<Rightarrow> 'd val \<Rightarrow> string + 'd val) \<Rightarrow> ('d, 'x) run" where
  "write_element_at name index v combine =
     andThen (reads (\<lambda>s. bind_res (read_element_at name index s) (\<lambda>current. combine (shared s) current v))) (\<lambda>r.
     case r of
       Inl e \<Rightarrow> fails e
     | Inr v \<Rightarrow>
         andThen (reads (\<lambda>s. (lookup_slot (scopes s) name, lookup name s, dec (shared s)))) (\<lambda>(slot, bound, D).
         case (slot, bound) of
           (Some (i, key), Some current) \<Rightarrow>
             (case element_write D name (nat (index - 1)) v current of
                Inl e \<Rightarrow> fails e
              | Inr (operation, old, new, v') \<Rightarrow>
                  andThen (recount_slot i key operation old new v') (\<lambda>r. ret (of_unit r)))
         | _ \<Rightarrow> fails (''unbound identifier: '' @ name)))"

definition write_element ::
  "('d, 'x) world \<Rightarrow> (node \<Rightarrow> ('d, 'x) run) \<Rightarrow> string \<Rightarrow> node \<Rightarrow> 'd val \<Rightarrow>
   ('d env \<Rightarrow> 'd val \<Rightarrow> 'd val \<Rightarrow> string + 'd val) \<Rightarrow> ('d, 'x) run" where
  "write_element W ee name suffix v combine =
     andThen (eval_index W ee suffix) (\<lambda>r. case r of
       Inl e \<Rightarrow> ret e
     | Inr i \<Rightarrow> write_element_at name i v combine)"


section \<open>Arguments\<close>

text \<open>
  An argument is a value and, for \<open>Name[index]\<close>, the element it named.  A break or continue out of an argument is an
  error; an exit ends the caller with its value.
\<close>

type_synonym 'd argument = "'d val \<times> (string \<times> int) option"

fun from_raised :: "'d eval \<Rightarrow> 'd eval" where
  "from_raised (EError e) = EError e"
| "from_raised (EExit v) = EExit v"
| "from_raised _ = eval_error ''break/continue is not valid in an expression''"

definition eval_argument :: "('d, 'x) world \<Rightarrow> (node \<Rightarrow> ('d, 'x) run) \<Rightarrow> node \<Rightarrow> ('d, 'x, 'd eval + 'd argument) step" where
  "eval_argument W ee n =
     (case indexed_variable n of
        Some (name, suffix) \<Rightarrow>
          andThen (eval_index W ee suffix) (\<lambda>r. case r of
            Inl e \<Rightarrow> ret (Err (from_raised e))
          | Inr i \<Rightarrow>
              andThen (reads (read_element_at name i)) (\<lambda>v. case v of
                Inl e \<Rightarrow> ret (Err (eval_error e))
              | Inr v \<Rightarrow> ret (Ok (v, Some (name, i)))))
      | None \<Rightarrow>
          andThen (ee n) (\<lambda>r. case r of
            ENormal v \<Rightarrow> ret (Ok (v, None))
          | other \<Rightarrow> ret (Err (from_raised other))))"

fun eval_argument_list ::
  "('d, 'x) world \<Rightarrow> (node \<Rightarrow> ('d, 'x) run) \<Rightarrow> node list \<Rightarrow> ('d, 'x, 'd eval + 'd argument list) step" where
  "eval_argument_list W ee [] = ret (Ok [])"
| "eval_argument_list W ee (n # ns) =
     andThen (eval_argument W ee n) (\<lambda>r. case r of
       Inl e \<Rightarrow> ret (Err e)
     | Inr a \<Rightarrow> andThen (eval_argument_list W ee ns) (\<lambda>r. ret (map_sum id (\<lambda>as. a # as) r)))"

definition arguments_of :: "node option \<Rightarrow> node list" where
  "arguments_of args = (case args of None \<Rightarrow> [] | Some n \<Rightarrow> arg_expr_nodes n)"

definition eval_call_args ::
  "('d, 'x) world \<Rightarrow> (node \<Rightarrow> ('d, 'x) run) \<Rightarrow> node option \<Rightarrow> ('d, 'x, 'd eval + 'd argument list) step" where
  "eval_call_args W ee args =
     andThen (updates (\<lambda>s. s\<lparr>stmt_position := False\<rparr>)) (\<lambda>_. eval_argument_list W ee (arguments_of args))"

text \<open>The arguments, then the call.\<close>

definition with_args ::
  "('d, 'x) world \<Rightarrow> (node \<Rightarrow> ('d, 'x) run) \<Rightarrow> node option \<Rightarrow> ('d argument list \<Rightarrow> ('d, 'x) run) \<Rightarrow> ('d, 'x) run" where
  "with_args W ee args f =
     andThen (eval_call_args W ee args) (\<lambda>r. case r of Inl e \<Rightarrow> ret e | Inr as \<Rightarrow> f as)"


section \<open>Writing \<open>var\<close> arguments back\<close>

definition record_field_access :: "node \<Rightarrow> (string \<times> string) option" where
  "record_field_access n =
     (case descend_to_postfix n of
        None \<Rightarrow> None
      | Some pf \<Rightarrow>
          (case List.find (\<lambda>c. node_kind c \<in> {''member_suffix'', ''member_call_suffix'', ''scope_call_suffix'', ''scope_suffix''})
                  (rev (node_children pf)) of
             None \<Rightarrow> None
           | Some suffix \<Rightarrow>
               if node_kind suffix \<noteq> ''member_suffix'' then None
               else
                 (case or_else (child_by_field_name suffix ''member'')
                    (List.find (\<lambda>c. node_kind c \<in> {''identifier'', ''quoted_identifier'', ''name''}) (named_children suffix)) of
                    None \<Rightarrow> None
                  | Some member \<Rightarrow> Some (node_name (hd (node_children pf)), node_name member))))"

definition try_field_assign :: "('d, 'x) world \<Rightarrow> node \<Rightarrow> 'd val \<Rightarrow> ('d, 'x, 'd eval option) step" where
  "try_field_assign W n v =
     (case record_field_access n of None \<Rightarrow> ret None | Some (recv, field) \<Rightarrow> does (w_field_set W recv field v))"

definition write_var_argument :: "('d, 'x) world \<Rightarrow> node \<Rightarrow> 'd val \<Rightarrow> ('d, 'x) run" where
  "write_var_argument W n v =
     (let settled = (\<lambda>r. ret (unwrap_or r (eval_error
            (''the local runtime cannot write the var argument '' @ [CHR 0x27] @ trim (node_text n) @ [CHR 0x27] @ '' back'')))) in
      case simple_lvalue_name n of
        Some name \<Rightarrow>
          store_or (''The var argument '' @ [CHR 0x27] @ name @ [CHR 0x27]) name v
            (andThen (does (w_implicit_set W name v)) settled)
      | None \<Rightarrow> andThen (try_field_assign W n v) settled)"

definition write_back :: "('d, 'x) world \<Rightarrow> node list \<Rightarrow> (string \<times> int) option list \<Rightarrow> nat \<times> 'd val \<Rightarrow> ('d, 'x) run" where
  "write_back W ns elements wb =
     (let (idx, v) = wb in
      case nth_opt elements idx of
        Some (Some (name, i)) \<Rightarrow> write_element_at name i v (\<lambda>E current new. Ok new)
      | _ \<Rightarrow> (case nth_opt ns idx of Some n \<Rightarrow> write_var_argument W n v | None \<Rightarrow> done_with VEmpty))"

fun write_all_back ::
  "('d, 'x) world \<Rightarrow> node list \<Rightarrow> (string \<times> int) option list \<Rightarrow> (nat \<times> 'd val) list \<Rightarrow> ('d, 'x, 'd eval option) step" where
  "write_all_back W ns elements [] = ret None"
| "write_all_back W ns elements (wb # wbs) =
     andThen (write_back W ns elements wb) (\<lambda>r.
       case r of EError e \<Rightarrow> ret (Some (EError e)) | _ \<Rightarrow> write_all_back W ns elements wbs)"

definition apply_var_writebacks ::
  "('d, 'x) world \<Rightarrow> node option \<Rightarrow> (string \<times> int) option list \<Rightarrow> ('d, 'x, 'd eval option) step" where
  "apply_var_writebacks W args elements =
     andThen (does (\<lambda>s. (var_writebacks s, s\<lparr>var_writebacks := []\<rparr>))) (\<lambda>wbs.
       case args of None \<Rightarrow> ret None | Some a \<Rightarrow> write_all_back W (arg_expr_nodes a) elements wbs)"

definition first_error :: "'d eval \<Rightarrow> 'd eval option \<Rightarrow> 'd eval" where
  "first_error result written =
     (case written of Some error \<Rightarrow> if is_error result then result else error | None \<Rightarrow> result)"

text \<open>A call whose arguments are written back.\<close>

definition call_and_write_back ::
  "('d, 'x) world \<Rightarrow> node option \<Rightarrow> 'd argument list \<Rightarrow> ('d, 'x) run \<Rightarrow> ('d, 'x) run" where
  "call_and_write_back W args as call =
     andThen call (\<lambda>result. andThen (apply_var_writebacks W args (map snd as)) (\<lambda>written. ret (first_error result written)))"

end
