(* ===== verification/Table_Lookup.thy ===== *)
theory Table_Lookup
  imports Interp_State
begin

text \<open>
  Finding a piece of table code in the workspace (\<^verbatim>\<open>dispatch/table_code.rs\<close> and \<^verbatim>\<open>records/table_meta.rs\<close>): the
  table's object, the declaration of a procedure, of a trigger or of the trigger of a field.
\<close>

definition is_table_object :: "string \<Rightarrow> node \<Rightarrow> bool" where
  "is_table_object want n \<longleftrightarrow>
     node_kind n = ''object_declaration'' \<and>
     (case child_by_field_name n ''kind'' of Some k \<Rightarrow> node_kind k = ''kw_table'' | None \<Rightarrow> False) \<and>
     (case child_by_field_name n ''name'' of Some m \<Rightarrow> eq_ignore_ascii_case (node_name m) want | None \<Rightarrow> False)"

definition object_name_of :: "node \<Rightarrow> string option" where
  "object_name_of obj = map_option node_name (child_by_field_name obj ''name'')"

text \<open>The walk takes the last child first; \<open>nodes_below\<close> lists the nodes in the order it visits them.\<close>

fun nodes_below :: "node \<Rightarrow> node list" where
  "nodes_below n = n # concat (map nodes_below (rev (named_children n)))"

declare nodes_below.simps [simp del]

definition find_table_object :: "node \<Rightarrow> string \<Rightarrow> node option" where
  "find_table_object tree want = List.find (is_table_object want) (nodes_below tree)"

definition named_child_declarations :: "node \<Rightarrow> string \<Rightarrow> string \<Rightarrow> node list" where
  "named_child_declarations body kind name =
     filter (\<lambda>c. node_kind c = kind \<and>
         (case child_by_field_name c ''name'' of Some m \<Rightarrow> eq_ignore_ascii_case (node_name m) name | None \<Rightarrow> False))
       (named_children body)"

definition named_child_declaration :: "node \<Rightarrow> string \<Rightarrow> string \<Rightarrow> node option" where
  "named_child_declaration body kind name =
     (case named_child_declarations body kind name of [] \<Rightarrow> None | c # cs \<Rightarrow> Some c)"

definition find_code :: "('d, 'x) world \<Rightarrow> node \<Rightarrow> table_code \<Rightarrow> node option" where
  "find_code W obj code =
     Option.bind (child_by_field_name obj ''body'') (\<lambda>body. case code of
       Table_Procedure name \<Rightarrow> named_child_declaration body ''procedure_declaration'' name
     | Table_Trigger name \<Rightarrow> named_child_declaration body ''trigger_declaration'' name
     | Field_Trigger field trigger \<Rightarrow>
         Option.bind (w_field_section W obj field) (\<lambda>section.
         Option.bind (child_by_field_name section ''body'') (\<lambda>fbody.
           named_child_declaration fbody ''trigger_declaration'' trigger)))"

text \<open>The file of a table and the table's object in it.\<close>

definition table_source :: "('d, 'x) world \<Rightarrow> string \<Rightarrow> (string \<times> node) option" where
  "table_source W table =
     Option.bind (w_find_kind W table [''table'']) (\<lambda>path.
     Option.bind (w_parse_file W path) (\<lambda>tree.
       map_option (\<lambda>obj. (path, obj)) (find_table_object tree table)))"

definition table_declares :: "('d, 'x) world \<Rightarrow> string \<Rightarrow> table_code \<Rightarrow> bool" where
  "table_declares W table code \<longleftrightarrow>
     (case table_source W table of None \<Rightarrow> False | Some (path, obj) \<Rightarrow> find_code W obj code \<noteq> None)"

end
