(* ===== verification/Chains.thy ===== *)
theory Chains
  imports Indexing Table_Lookup
begin

text \<open>
  Enum values (\<^verbatim>\<open>interpreter/enums.rs\<close>, \<^verbatim>\<open>eval_expr/member_access.rs\<close>) and chained calls (\<^verbatim>\<open>interpreter/chain.rs\<close>).
  The evaluator functions that call each other in a circle are the record of functions \<open>K\<close>.
\<close>

section \<open>Enums of the workspace\<close>

fun enum_values :: "node \<Rightarrow> node list" where
  "enum_values n =
     (if node_kind n = ''enum_value_declaration'' then [n] else concat (map enum_values (named_children n)))"

declare enum_values.simps [simp del]

definition enum_member :: "node \<Rightarrow> (nat \<times> string \<times> int) option" where
  "enum_member n =
     (case (child_by_field_name n ''name'', Option.bind (child_by_field_name n ''id'') (\<lambda>i. parse_i64 (trim (node_text i)))) of
        (Some name, Some ordinal) \<Rightarrow> Some (fst (byte_range n), node_name name, ordinal)
      | _ \<Rightarrow> None)"

definition is_enum_object :: "string \<Rightarrow> node \<Rightarrow> bool" where
  "is_enum_object name n \<longleftrightarrow>
     node_kind n = ''object_declaration'' \<and>
     (case child_by_field_name n ''kind'' of Some k \<Rightarrow> node_kind k = ''kw_enum'' | None \<Rightarrow> False) \<and>
     (case child_by_field_name n ''name'' of Some m \<Rightarrow> eq_ignore_ascii_case (node_name m) name | None \<Rightarrow> False)"

definition workspace_enum_members :: "('d, 'x) world \<Rightarrow> string \<Rightarrow> (string \<times> int) list option" where
  "workspace_enum_members W name =
     (case Option.bind (w_find_kind W name [''enum'']) (w_parse_file W) of
        None \<Rightarrow> None
      | Some tree \<Rightarrow>
          map_option (\<lambda>obj. map snd (sort_key fst (List.map_filter enum_member (enum_values obj))))
            (List.find (is_enum_object name) (named_children tree)))"

definition workspace_enum_ordinal :: "('d, 'x) world \<Rightarrow> string \<Rightarrow> string \<Rightarrow> int option" where
  "workspace_enum_ordinal W name member =
     Option.bind (workspace_enum_members W name)
       (\<lambda>members. map_option snd (List.find (\<lambda>(m, _). eq_ignore_ascii_case m member) members))"

definition named_member :: "('d, 'x) world \<Rightarrow> 'd val \<Rightarrow> 'd val" where
  "named_member W v =
     (case v of
        VOption name [] ordinal \<Rightarrow>
          VOption name (unwrap_or (Option.bind (workspace_enum_members W name)
            (\<lambda>members. map_option fst (List.find (\<lambda>(_, o'). o' = ordinal) members))) (show_int ordinal)) ordinal
      | _ \<Rightarrow> v)"

definition with_member_names :: "('d, 'x) world \<Rightarrow> 'd val list \<Rightarrow> 'd val list" where
  "with_member_names W vs = map (named_member W) vs"

definition supports_enum_method :: "string \<Rightarrow> bool" where
  "supports_enum_method m \<longleftrightarrow> to_ascii_lowercase m \<in> {''asinteger'', ''names'', ''ordinals''}"

definition new_list :: "string option \<Rightarrow> 'd val list \<Rightarrow> ('d, 'x) run" where
  "new_list member vs = andThen (does (alloc_list vs member)) done_with"

definition quoted :: "string \<Rightarrow> string" where
  "quoted s = [CHR 0x27] @ s @ [CHR 0x27]"

definition dispatch_enum_static :: "('d, 'x) world \<Rightarrow> string \<Rightarrow> string \<Rightarrow> 'd val list \<Rightarrow> ('d, 'x) run" where
  "dispatch_enum_static W name m args =
     (case workspace_enum_members W name of
        None \<Rightarrow> fails (''enum '' @ quoted name @ '' has no workspace declaration; live BC execution is required'')
      | Some members \<Rightarrow>
          let lower = to_ascii_lowercase m in
          if lower = ''names'' \<and> args = [] then new_list (Some ''Text'') (map (VText \<circ> fst) members)
          else if lower = ''ordinals'' \<and> args = [] then new_list (Some ''Integer'') (map (VInteger \<circ> snd) members)
          else (case args of
            [VInteger wanted] \<Rightarrow>
              if lower = ''frominteger'' then
                (case List.find (\<lambda>(_, o'). o' = wanted) members of
                   Some (member, ordinal) \<Rightarrow> done_with (VOption name member ordinal)
                 | None \<Rightarrow> fails (show_int wanted @ '' is not an ordinal of enum '' @ quoted name))
              else fails (''unsupported call '' @ lower @ '' on enum '' @ quoted name)
          | _ \<Rightarrow> fails (''unsupported call '' @ lower @ '' on enum '' @ quoted name)))"

definition dispatch_enum_method :: "('d, 'x) world \<Rightarrow> 'd val \<Rightarrow> string \<Rightarrow> 'd val list \<Rightarrow> ('d, 'x) run" where
  "dispatch_enum_method W v m args =
     (case v of
        VOption name _ ordinal \<Rightarrow>
          if args \<noteq> [] then fails (m @ '' takes no arguments'')
          else if to_ascii_lowercase m = ''asinteger'' then done_with (VInteger ordinal)
          else if to_ascii_lowercase m \<in> {''names'', ''ordinals''} then dispatch_enum_static W name m args
          else fails (''unsupported enum method: '' @ to_ascii_lowercase m)
      | _ \<Rightarrow> fails (m @ '' needs an enum value''))"

definition member_of_suffix :: "node \<Rightarrow> string option" where
  "member_of_suffix n = map_option node_name (or_else (child_by_field_name n ''member'') (named_child n 0))"

definition scope_target :: "string \<Rightarrow> node list \<Rightarrow> string + string \<times> string" where
  "scope_target primary members =
     (let first_m = Option.bind (nth_opt members 0) member_of_suffix;
          last_m = (if members = [] then None else member_of_suffix (last members)) in
      if eq_ignore_ascii_case primary ''enum'' then
        (case (first_m, last_m) of
           (Some t, Some m) \<Rightarrow> if length members \<ge> 2 then Ok (t, m) else Ok ([], t)
         | (Some t, None) \<Rightarrow> Ok ([], t)
         | _ \<Rightarrow> Err ''scope access: missing enum member'')
      else
        (case last_m of
           Some m \<Rightarrow> Ok (primary, m)
         | None \<Rightarrow> Err ''scope access: missing enum member''))"

definition eval_scope_access :: "('d, 'x) world \<Rightarrow> node \<Rightarrow> node list \<Rightarrow> 'd eval" where
  "eval_scope_access W n members =
     (case scope_target (unwrap_or (map_option node_name (named_child n 0)) []) members of
        Inl e \<Rightarrow> eval_error e
      | Inr (name, member) \<Rightarrow>
          (case workspace_enum_ordinal W name member of
             Some ordinal \<Rightarrow> ENormal (VOption name member ordinal)
           | None \<Rightarrow> eval_error (''enum member '' @ quoted (name @ ''::'' @ member) @
               '' has no workspace declaration; live BC execution is required'')))"


section \<open>Methods of values\<close>

definition supports_list_method :: "string \<Rightarrow> bool" where
  "supports_list_method m \<longleftrightarrow> to_ascii_lowercase m \<in>
     {''add'', ''addrange'', ''get'', ''getrange'', ''count'', ''contains'', ''indexof'', ''lastindexof'', ''insert'',
      ''remove'', ''removeat'', ''removerange'', ''reverse'', ''set''}"

definition supports_text_method :: "string \<Rightarrow> bool" where
  "supports_text_method m \<longleftrightarrow> to_ascii_lowercase m \<in>
     {''contains'', ''startswith'', ''endswith'', ''indexof'', ''lastindexof'', ''replace'', ''split'', ''trim'',
      ''trimstart'', ''trimend'', ''tolower'', ''toupper'', ''substring'', ''padleft'', ''padright'', ''remove''}"

definition supports_dict_method :: "string \<Rightarrow> bool" where
  "supports_dict_method m \<longleftrightarrow> to_ascii_lowercase m \<in>
     {''add'', ''get'', ''set'', ''containskey'', ''remove'', ''count'', ''keys'', ''values''}"

definition supports_textbuilder_method :: "string \<Rightarrow> bool" where
  "supports_textbuilder_method m \<longleftrightarrow> to_ascii_lowercase m \<in>
     {''append'', ''appendline'', ''length'', ''totext'', ''clear'', ''insert'', ''remove'', ''replace''}"

definition supports_record_method :: "string \<Rightarrow> bool" where
  "supports_record_method m \<longleftrightarrow> to_ascii_lowercase m \<in>
     {''init'', ''insert'', ''modify'', ''delete'', ''get'', ''setrange'', ''setfilter'', ''findset'', ''findfirst'',
      ''findlast'', ''find'', ''next'', ''count'', ''countapprox'', ''isempty'', ''reset'', ''setcurrentkey'',
      ''deleteall'', ''calcfields'', ''calcsums'', ''modifyall'', ''ascending'', ''rename'', ''testfield'',
      ''validate'', ''istemporary''}"


section \<open>Chains\<close>

definition chain_suffix_kinds :: "string list" where
  "chain_suffix_kinds = [''member_call_suffix'', ''call_suffix'', ''member_suffix'', ''index_suffix'']"

definition chain_parts :: "node \<Rightarrow> (node \<times> node list) option" where
  "chain_parts n =
     (case named_children n of
        [] \<Rightarrow> None
      | primary # suffixes \<Rightarrow>
          let value_receiver = (case named_child primary 0 of
                 Some inner \<Rightarrow> node_kind inner \<notin> set variable_kinds | None \<Rightarrow> False) in
          if node_kind n = ''postfix_expression'' \<and> (length suffixes \<ge> 2 \<or> value_receiver) \<and>
             list_all (\<lambda>c. node_kind c \<in> set chain_suffix_kinds)
               (dropWhile (\<lambda>c. node_kind c = ''scope_suffix'') suffixes)
          then Some (primary, suffixes) else None)"

definition primary_name :: "node \<Rightarrow> string option" where
  "primary_name primary =
     (if node_kind primary = ''primary_expression'' then map_option node_name (named_child primary 0)
      else Some (node_name primary))"

definition suffix_member :: "node \<Rightarrow> string" where
  "suffix_member n = unwrap_or (map_option node_name (child_by_field_name n ''member'')) []"

definition with_temporary :: "'d val \<Rightarrow> node \<Rightarrow> (string \<Rightarrow> ('d, 'x) run) \<Rightarrow> ('d, 'x) run" where
  "with_temporary v step body =
     (let name = ''<chain@'' @ show_nat (fst (byte_range step)) @ ''>'' in
      andThen (reads (\<lambda>s. frames (scopes s) = [])) (\<lambda>no_frame.
        if no_frame then fails ''a chained call needs a procedure frame''
        else
          andThen (updates (bind_top name v)) (\<lambda>_.
          andThen (body name) (\<lambda>r.
          andThen (updates (unbind_top name)) (\<lambda>_. ret r)))))"

definition is_enum_type_call :: "node \<Rightarrow> node list \<Rightarrow> bool" where
  "is_enum_type_call primary prefix \<longleftrightarrow>
     (case prefix of
        [scope] \<Rightarrow> node_kind scope = ''scope_suffix'' \<and>
          (case primary_name primary of Some name \<Rightarrow> eq_ignore_ascii_case name ''enum'' | None \<Rightarrow> False)
      | _ \<Rightarrow> False)"

definition enum_type_call ::
  "('d, 'x) world \<Rightarrow> ('d, 'x) callbacks \<Rightarrow> node list \<Rightarrow> node \<Rightarrow> ('d, 'x) run" where
  "enum_type_call W K prefix call =
     with_args W (cb_expr K) (find_argument_list call) (\<lambda>as.
       dispatch_enum_static W (unwrap_or (member_of_suffix (hd prefix)) []) (suffix_member call) (map fst as))"

definition chain_supports :: "('d, 'x) world \<Rightarrow> 'd val \<Rightarrow> string \<Rightarrow> bool" where
  "chain_supports W receiver m =
     (case receiver of
        VText _ \<Rightarrow> supports_text_method m
      | VCode _ \<Rightarrow> supports_text_method m
      | VList _ _ _ \<Rightarrow> supports_list_method m
      | VDict _ _ _ \<Rightarrow> supports_dict_method m
      | VRecord _ \<Rightarrow> supports_record_method m
      | VCodeunit _ _ \<Rightarrow> True
      | VOption _ _ _ \<Rightarrow> supports_enum_method m
      | VTextBuilder _ \<Rightarrow> supports_textbuilder_method m
      | VJson kind _ \<Rightarrow> w_json_method W kind m
      | _ \<Rightarrow> False)"

definition call_on :: "('d, 'x) world \<Rightarrow> ('d, 'x) callbacks \<Rightarrow> 'd val \<Rightarrow> node \<Rightarrow> ('d, 'x) run" where
  "call_on W K receiver suffix =
     (let m = suffix_member suffix in
      if \<not> chain_supports W receiver m
      then fails (type_name receiver @ ''.'' @ m @ '' in a chained call is not supported by the local runtime'')
      else with_temporary receiver suffix (\<lambda>name. cb_call_parts K (Some name) m (find_argument_list suffix)))"

text \<open>\<open>rsuffixes\<close> are the suffixes with the last one first.\<close>

fun eval_prefix ::
  "('d, 'x) world \<Rightarrow> ('d, 'x) callbacks \<Rightarrow> node \<Rightarrow> node \<Rightarrow> node list \<Rightarrow> ('d, 'x) run" where
  "eval_prefix W K whole primary [] = cb_expr K primary"
| "eval_prefix W K whole primary (suffix # rest) =
     (let kind = node_kind suffix in
      if kind = ''scope_suffix'' then ret (eval_scope_access W whole (rev (suffix # rest)))
      else if kind = ''call_suffix'' \<and> rest = [] then
        (case primary_name primary of
           None \<Rightarrow> fails ''a chained call must start with a name''
         | Some name \<Rightarrow> cb_call_parts K None name (find_argument_list suffix))
      else if kind = ''member_call_suffix'' then
        (if is_enum_type_call primary (rev rest) then enum_type_call W K (rev rest) suffix
         else value_then (eval_prefix W K whole primary rest) (\<lambda>receiver. call_on W K receiver suffix))
      else if kind = ''member_suffix'' then
        value_then (eval_prefix W K whole primary rest) (\<lambda>receiver.
          let field = unwrap_or (member_of_suffix suffix) [] in
          with_temporary receiver suffix (\<lambda>name.
            andThen (does (w_record_binding W name)) (\<lambda>b.
              case b of
                Some (table, handle) \<Rightarrow> does (w_field_get W table handle field)
              | None \<Rightarrow> fails (quoted (''.'' @ field) @ '' needs a record before it in the chain''))))
      else if kind = ''index_suffix'' then
        value_then (eval_prefix W K whole primary rest) (\<lambda>receiver.
          with_temporary receiver suffix (\<lambda>name. read_element W (cb_expr K) name suffix))
      else fails (''unsupported step '' @ quoted kind @ '' in a chained call''))"

definition eval_chained_call ::
  "('d, 'x) world \<Rightarrow> ('d, 'x) callbacks \<Rightarrow> node \<Rightarrow> ('d, 'x) run option" where
  "eval_chained_call W K n =
     (case chain_parts n of
        None \<Rightarrow> None
      | Some (primary, suffixes) \<Rightarrow>
          if suffixes = [] \<or> node_kind (last suffixes) \<noteq> ''member_call_suffix'' then None
          else Some
            (if is_enum_type_call primary (butlast suffixes)
             then enum_type_call W K (butlast suffixes) (last suffixes)
             else
               andThen (does (\<lambda>s. (stmt_position s, s\<lparr>stmt_position := False\<rparr>))) (\<lambda>statement.
               value_then (eval_prefix W K n primary (rev (butlast suffixes))) (\<lambda>receiver.
               andThen (updates (\<lambda>s. s\<lparr>stmt_position := statement\<rparr>)) (\<lambda>_.
                 call_on W K receiver (last suffixes))))))"

definition eval_chained_value ::
  "('d, 'x) world \<Rightarrow> ('d, 'x) callbacks \<Rightarrow> node \<Rightarrow> ('d, 'x) run option" where
  "eval_chained_value W K n =
     map_option (\<lambda>(primary, suffixes). eval_prefix W K n primary (rev suffixes)) (chain_parts n)"

definition eval_call :: "('d, 'x) world \<Rightarrow> ('d, 'x) callbacks \<Rightarrow> node \<Rightarrow> ('d, 'x) run" where
  "eval_call W K n =
     (case eval_chained_call W K n of
        Some result \<Rightarrow> result
      | None \<Rightarrow> let (receiver, name, args) = extract_call_parts n in cb_call_parts K receiver name args)"

end
