(* ===== verification/Expressions.thy ===== *)
theory Expressions
  imports Chains
begin

text \<open>
  The expression evaluator (\<^verbatim>\<open>interpreter/eval_expr\<close>): assignments, set literals, postfix expressions and the
  dispatch on the kind of a node.
\<close>

section \<open>Assignment\<close>

datatype assign_kind = Plain | Compound string

definition assignment_kind :: "string \<Rightarrow> assign_kind option" where
  "assignment_kind s =
     (if s = '':='' then Some Plain
      else if s = ''+='' then Some (Compound ''+'')
      else if s = ''-='' then Some (Compound ''-'')
      else if s = ''*='' then Some (Compound ''*'')
      else if s = ''/='' then Some (Compound ''/'')
      else None)"

definition assignment_at :: "node list \<Rightarrow> (nat \<times> assign_kind) option" where
  "assignment_at children =
     first_some (\<lambda>i. if odd i \<and> node_kind (children ! i) = ''binary_operator''
                     then map_option (\<lambda>k. (i, k)) (assignment_kind (trim (node_text (children ! i)))) else None)
       [0..<length children]"

text \<open>The value an assignment stores, given what the target holds.\<close>

definition combine_assign :: "assign_kind \<Rightarrow> 'd env \<Rightarrow> 'd val \<Rightarrow> 'd val \<Rightarrow> string + 'd val" where
  "combine_assign kind E current rhs =
     (case kind of Plain \<Rightarrow> Ok rhs | Compound base \<Rightarrow> apply_binary E base current rhs)"

definition combined_with ::
  "assign_kind \<Rightarrow> 'd val \<Rightarrow> ('d, 'x) run \<Rightarrow> ('d val \<Rightarrow> ('d, 'x) run) \<Rightarrow> ('d, 'x) run" where
  "combined_with kind rhs load f =
     (case kind of
        Plain \<Rightarrow> f rhs
      | Compound base \<Rightarrow>
          value_then load (\<lambda>current.
            value_then (andThen (reads (\<lambda>s. apply_binary (shared s) base current rhs)) (\<lambda>r. ret (of_result r))) f))"

definition assign_record_field ::
  "('d, 'x) world \<Rightarrow> node \<Rightarrow> string \<Rightarrow> string \<Rightarrow> assign_kind \<Rightarrow> 'd val \<Rightarrow> ('d, 'x) run" where
  "assign_record_field W lhs recv field kind rhs =
     combined_with kind rhs
       (andThen (does (w_record_binding W recv)) (\<lambda>b. case b of
          None \<Rightarrow> fails (''record variable '' @ quoted recv @ '' is not bound'')
        | Some (table, handle) \<Rightarrow> does (w_field_get W table handle field)))
       (\<lambda>v. andThen (try_field_assign W lhs v) (\<lambda>r.
          ret (unwrap_or r (eval_error (''record field assignment failed for '' @ quoted (recv @ ''.'' @ field))))))"

text \<open>
  A field of the implicit record: \<open>Some\<close> the outcome when the name is one, \<open>None\<close> to go on with the variables.
\<close>

definition assign_implicit ::
  "('d, 'x) world \<Rightarrow> string \<Rightarrow> assign_kind \<Rightarrow> 'd val \<Rightarrow> ('d, 'x, 'd eval option) step" where
  "assign_implicit W name kind rhs =
     (case kind of
        Plain \<Rightarrow> does (w_implicit_set W name rhs)
      | Compound base \<Rightarrow>
          andThen (does (w_implicit_get W name)) (\<lambda>r. case r of
            None \<Rightarrow> ret None
          | Some (ENormal current) \<Rightarrow>
              andThen (reads (\<lambda>s. apply_binary (shared s) base current rhs)) (\<lambda>v. case v of
                Inl e \<Rightarrow> ret (Some (eval_error e))
              | Inr v \<Rightarrow> does (w_implicit_set W name v))
          | Some other \<Rightarrow> ret (Some other)))"

definition assign_variable :: "string \<Rightarrow> string \<Rightarrow> assign_kind \<Rightarrow> 'd val \<Rightarrow> ('d, 'x) run" where
  "assign_variable written name kind rhs =
     combined_with kind rhs
       (andThen (reads (lookup name)) (\<lambda>bound. case bound of
          Some v \<Rightarrow> done_with v
        | None \<Rightarrow> fails (''compound assignment to unbound identifier: '' @ name)))
       (\<lambda>v. andThen (reads (\<lambda>s. map_option (\<lambda>slot. coerce_into_slot (dec (shared s)) slot v
                                  (declared_text_length (scopes s) name)) (lookup name s))) (\<lambda>r. case r of
          None \<Rightarrow> fails (''assignment to unbound identifier '' @ quoted name @ '' - variables must be declared'')
        | Some (Inl e) \<Rightarrow> fails e
        | Some (Inr v) \<Rightarrow> store_or (''Assignment to '' @ quoted written) name v
            (fails (''assignment to unbound identifier '' @ quoted name @ '' - variables must be declared''))))"

definition assigned_name :: "node \<Rightarrow> string" where
  "assigned_name lhs = unwrap_or (extract_identifier_name lhs) (to_ascii_lowercase (node_name lhs))"

definition assign_name :: "('d, 'x) world \<Rightarrow> node \<Rightarrow> assign_kind \<Rightarrow> 'd val \<Rightarrow> ('d, 'x) run" where
  "assign_name W lhs kind rhs =
     (let name = assigned_name lhs in
      if name = [] then fails ''expression: cannot resolve LHS name for assignment''
      else
        andThen (reads (lookup name)) (\<lambda>bound.
        andThen (if bound = None then assign_implicit W name kind rhs else ret None) (\<lambda>r.
          case r of Some result \<Rightarrow> ret result | None \<Rightarrow> assign_variable (node_text lhs) name kind rhs)))"

definition is_record :: "'d val option \<Rightarrow> bool" where
  "is_record bound = (case bound of Some (VRecord _) \<Rightarrow> True | _ \<Rightarrow> False)"

definition eval_assignment ::
  "('d, 'x) world \<Rightarrow> ('d, 'x) callbacks \<Rightarrow> node \<Rightarrow> assign_kind \<Rightarrow> node list \<Rightarrow> ('d, 'x) run" where
  "eval_assignment W K lhs kind rhs_children =
     andThen (eval_computation_chain (cb_expr K) rhs_children) (\<lambda>(r, _).
     case r of
       ENormal rhs \<Rightarrow>
         (case indexed_variable lhs of
            Some (name, suffix) \<Rightarrow> write_element W (cb_expr K) name suffix rhs (combine_assign kind)
          | None \<Rightarrow>
              (case record_field_access lhs of
                 Some (recv, field) \<Rightarrow>
                   andThen (reads (lookup recv)) (\<lambda>bound.
                     if is_record bound then assign_record_field W lhs recv field kind rhs
                     else assign_name W lhs kind rhs)
               | None \<Rightarrow> assign_name W lhs kind rhs))
     | other \<Rightarrow> ret other)"

definition eval_expression_node :: "('d, 'x) world \<Rightarrow> ('d, 'x) callbacks \<Rightarrow> node \<Rightarrow> ('d, 'x) run" where
  "eval_expression_node W K n =
     (let children = named_children n in
      case children of
        [] \<Rightarrow> fails ''expression: no children''
      | [only] \<Rightarrow> cb_expr K only
      | _ \<Rightarrow>
          (case assignment_at children of
             Some (i, kind) \<Rightarrow> eval_assignment W K (children ! (i - 1)) kind (drop (i + 1) children)
           | None \<Rightarrow>
               andThen (eval_computation_chain (cb_expr K) children) (\<lambda>(r, conditions).
                 case conditions of
                   Some cs \<Rightarrow> andThen (updates (cov_set_expression_trace n cs)) (\<lambda>_. ret r)
                 | None \<Rightarrow> ret r)))"


section \<open>Set literals\<close>

definition fragment_wrapper :: "string \<Rightarrow> string" where
  "fragment_wrapper s = ''codeunit 0 __SetExpression { procedure __Eval(): Variant begin exit('' @ s @ ''); end; }''"

text \<open>The search keeps a stack and looks at the last child first.\<close>

fun expression_below :: "node \<Rightarrow> node option" where
  "expression_below n =
     (if node_kind n = ''expression'' then Some n else first_some expression_below (rev (named_children n)))"

declare expression_below.simps [simp del]

definition exit_arguments :: "node \<Rightarrow> node option" where
  "exit_arguments n = List.find (\<lambda>c. node_kind c = ''argument_list'') (named_children n)"

fun find_expression :: "node \<Rightarrow> node option" where
  "find_expression n =
     (if node_kind n = ''exit_statement'' then Option.bind (exit_arguments n) expression_below
      else first_some find_expression (named_children n))"

declare find_expression.simps [simp del]

definition eval_expression_fragment :: "('d, 'x) world \<Rightarrow> ('d, 'x) callbacks \<Rightarrow> string \<Rightarrow> ('d, 'x) run" where
  "eval_expression_fragment W K s =
     (if w_parse_errors W (fragment_wrapper s)
      then fails (''set literal member is not a valid expression: `'' @ s @ ''`'')
      else (case find_expression (w_parse W (fragment_wrapper s)) of
              None \<Rightarrow> fails ''set literal member expression could not be recovered''
            | Some n \<Rightarrow> cb_expr K n))"

fun eval_members :: "('d, 'x) world \<Rightarrow> ('d, 'x) callbacks \<Rightarrow> string list \<Rightarrow> 'd val list \<Rightarrow> ('d, 'x) run" where
  "eval_members W K [] vs = new_list None vs"
| "eval_members W K (m # ms) vs = value_then (eval_expression_fragment W K m) (\<lambda>v. eval_members W K ms (vs @ [v]))"

definition eval_set_literal :: "('d, 'x) world \<Rightarrow> ('d, 'x) callbacks \<Rightarrow> node \<Rightarrow> ('d, 'x) run" where
  "eval_set_literal W K n =
     (case Option.bind (strip_prefix ''['' (node_text n)) (strip_suffix '']'') of
        None \<Rightarrow> fails ''set literal: missing brackets''
      | Some inner \<Rightarrow>
          (case split_set_members inner of
             Inl e \<Rightarrow> fails e
           | Inr members \<Rightarrow> eval_members W K members []))"


section \<open>Names\<close>

text \<open>Each use of a clock function reads the clock anew.\<close>

definition niladic_clock_builtin :: "('d, 'x) world \<Rightarrow> string \<Rightarrow> ('d, 'x, 'd val option) outer" where
  "niladic_clock_builtin W name s =
     (let (now, t) = read_clock W s; lower = to_ascii_lowercase name in
      if lower = ''today'' then (Some (VDate (clock_today now)), t)
      else if lower = ''time'' then (Some (VTime (clock_time now)), t)
      else if lower = ''currentdatetime'' then (Some (VDateTime (clock_current_datetime now)), t)
      else if lower = ''workdate'' then
        (Some (VDate (current_work_date (work_date s) now)), if work_date s = None then t else s)
      else (None, s))"

definition eval_bound_name :: "('d, 'x) world \<Rightarrow> string \<Rightarrow> string \<Rightarrow> ('d, 'x) run" where
  "eval_bound_name W name unbound =
     andThen (does (\<lambda>s. case lookup name s of
                          Some v \<Rightarrow> (Some v, s)
                        | None \<Rightarrow> niladic_clock_builtin W name s)) (\<lambda>bound. case bound of
       Some v \<Rightarrow> done_with v
     | None \<Rightarrow> andThen (does (w_implicit_get W name)) (\<lambda>r. ret (unwrap_or r (eval_error unbound))))"

definition eval_name :: "('d, 'x) world \<Rightarrow> node \<Rightarrow> ('d, 'x) run" where
  "eval_name W n =
     (let lower = to_ascii_lowercase (node_text n); name = node_name n in
      if lower = ''true'' then done_with (VBoolean True)
      else if lower = ''false'' then done_with (VBoolean False)
      else eval_bound_name W name (''unbound identifier: '' @ name))"


section \<open>Postfix and unary expressions\<close>

definition eval_record_access ::
  "('d, 'x) world \<Rightarrow> ('d, 'x) callbacks \<Rightarrow> string \<Rightarrow> string \<Rightarrow> table_ref \<Rightarrow> nat \<Rightarrow> ('d, 'x) run" where
  "eval_record_access W K recv field table handle =
     andThen (if supports_record_method field \<or> table_declares W (tr_name table) (Table_Procedure field)
              then does (\<lambda>s. let (declared, s) = w_declares_field W table field s in (\<not> declared, s))
              else ret False)
       (\<lambda>call. if call then cb_call_parts K (Some recv) field None else does (w_field_get W table handle field))"

text \<open>The last alternatives: an index, a chain, a wrapper.\<close>

definition eval_postfix_value :: "('d, 'x) world \<Rightarrow> ('d, 'x) callbacks \<Rightarrow> node \<Rightarrow> ('d, 'x) run" where
  "eval_postfix_value W K n =
     (case indexed_variable n of
        Some (name, suffix) \<Rightarrow> read_element W (cb_expr K) name suffix
      | None \<Rightarrow>
          (case eval_chained_value W K n of
             Some result \<Rightarrow> result
           | None \<Rightarrow>
               if named_child_count n > 1
               then fails (quoted (trim (node_text n)) @ '' is not an expression the local runtime can evaluate'')
               else (case named_child n 0 of
                       Some inner \<Rightarrow> cb_expr K inner
                     | None \<Rightarrow> fails ''empty postfix expression'')))"

definition eval_unary :: "('d, 'x) callbacks \<Rightarrow> node \<Rightarrow> ('d, 'x) run" where
  "eval_unary K n =
     (if named_child_count n \<le> 1 then
        (case named_child n 0 of Some inner \<Rightarrow> cb_expr K inner | None \<Rightarrow> fails ''unary expression: empty node'')
      else
        value_then (cb_expr K (named_children n ! 1)) (\<lambda>v.
          andThen (reads (\<lambda>s. apply_unary (dec (shared s)) (trim (node_text (named_children n ! 0))) v))
            (\<lambda>r. ret (of_result r))))"

definition eval_postfix :: "('d, 'x) world \<Rightarrow> ('d, 'x) callbacks \<Rightarrow> node \<Rightarrow> ('d, 'x) run" where
  "eval_postfix W K n =
     (let members = filter (\<lambda>c. node_kind c = ''scope_suffix'') (node_children n) in
      if is_call_postfix n then eval_call W K n
      else if members \<noteq> [] then ret (eval_scope_access W n members)
      else (case record_field_access n of
        None \<Rightarrow> eval_postfix_value W K n
      | Some (recv, field) \<Rightarrow>
          andThen (reads (lookup recv)) (\<lambda>bound.
            if is_record bound then
              andThen (does (w_record_binding W recv)) (\<lambda>b. case b of
                Some (table, handle) \<Rightarrow> eval_record_access W K recv field table handle
              | None \<Rightarrow> eval_postfix_value W K n)
            else if bound \<noteq> None \<and> named_child_count n = 2 then cb_call_parts K (Some recv) field None
            else eval_postfix_value W K n)))"


section \<open>The dispatch on the kind of a node\<close>

text \<open>A node whose Boolean value is that of a child passes the child's conditions on.\<close>

definition is_transparent :: "node \<Rightarrow> bool" where
  "is_transparent n \<longleftrightarrow>
     node_kind n \<in> {''expression'', ''parenthesized_expression'', ''primary_expression'', ''case_label_expression'',
                    ''unary_expression''} \<or>
     node_kind n = ''postfix_expression'' \<and> \<not> is_call_postfix n"

definition record_condition_trace :: "node \<Rightarrow> 'd eval \<Rightarrow> ('d, 'x) interp \<Rightarrow> ('d, 'x) interp" where
  "record_condition_trace n result s =
     (if \<not> cov_condition_trace_active s \<or> cov_expression_trace s n \<noteq> None then s
      else case result of
        ENormal (VBoolean outcome) \<Rightarrow>
          cov_set_expression_trace n
            (unwrap_or (if is_transparent n then first_some (cov_expression_trace s) (named_children n) else None) [outcome]) s
      | _ \<Rightarrow> s)"

definition eval_first_child :: "('d, 'x) callbacks \<Rightarrow> node \<Rightarrow> ('d, 'x) run" where
  "eval_first_child K n =
     (case named_child n 0 of Some inner \<Rightarrow> cb_expr K inner | None \<Rightarrow> fails ''empty expression wrapper'')"

definition eval_literal :: "'d decimal_ops \<Rightarrow> node \<Rightarrow> 'd eval option" where
  "eval_literal D n =
     (let kind = node_kind n; s = node_text n in
      if kind = ''integer'' then
        Some (case int_literal_value s of Some v \<Rightarrow> ENormal v | None \<Rightarrow> eval_error (''malformed integer literal: '' @ s))
      else if kind = ''decimal'' then
        Some (case dec_parse D s of Some d \<Rightarrow> ENormal (VDecimal d) | None \<Rightarrow> eval_error ''malformed decimal literal'')
      else if kind = ''date_literal'' then Some (of_result (eval_date_literal n))
      else if kind = ''time_literal'' then Some (of_result (eval_time_literal n))
      else if kind = ''string'' \<or> kind = ''verbatim_string'' then Some (ENormal (VText (unescape_al_string s)))
      else None)"

definition eval_expr_inner :: "('d, 'x) world \<Rightarrow> ('d, 'x) callbacks \<Rightarrow> node \<Rightarrow> ('d, 'x) run" where
  "eval_expr_inner W K n =
     andThen (reads (\<lambda>s. eval_literal (dec (shared s)) n)) (\<lambda>literal.
     case literal of
       Some r \<Rightarrow> ret r
     | None \<Rightarrow>
         let kind = node_kind n in
         if kind = ''expression'' then eval_expression_node W K n
         else if kind = ''postfix_expression'' then eval_postfix W K n
         else if kind = ''case_label_expression'' \<and> named_child_count n > 1 then eval_expression_node W K n
         else if kind \<in> {''parenthesized_expression'', ''primary_expression'', ''case_label_expression''}
         then eval_first_child K n
         else if kind = ''bracketed_block'' then eval_set_literal W K n
         else if kind = ''identifier'' \<or> kind = ''name'' then eval_name W n
         else if kind = ''object_keyword'' \<or> kind = ''type_keyword'' then
           eval_bound_name W (node_text n) (''unsupported expression kind: '' @ kind)
         else if kind = ''unary_expression'' then eval_unary K n
         else if kind = ''signed_case_label'' then eval_standalone_expression W (cb_expr K) (trim (node_text n))
         else fails (''unsupported expression kind: '' @ kind))"

definition expr_depth_error :: "string" where
  "expr_depth_error = ''expression nesting depth exceeded (max '' @ show_nat MAX_EXPR_DEPTH @
     '' levels) - likely a pathological or generated test source''"

text \<open>The guard of the nesting depth around an evaluation.\<close>

definition with_expr_depth :: "('d, 'x) run \<Rightarrow> ('d, 'x) run" where
  "with_expr_depth m =
     andThen (does (\<lambda>s. let (ok, S) = enter_expr (scopes s) in (ok, s\<lparr>scopes := S\<rparr>))) (\<lambda>ok.
       if \<not> ok then fails expr_depth_error
       else andThen m (\<lambda>r. andThen (updates (\<lambda>s. s\<lparr>scopes := exit_expr (scopes s)\<rparr>)) (\<lambda>_. ret r)))"

text \<open>\<open>eval_expr\<close>; the error of the depth guard leaves no trace, so the trace is recorded after it in every case.\<close>

definition expr_step :: "('d, 'x) world \<Rightarrow> ('d, 'x) callbacks \<Rightarrow> node \<Rightarrow> ('d, 'x) run" where
  "expr_step W K n =
     andThen (with_expr_depth (eval_expr_inner W K n)) (\<lambda>r.
     andThen (updates (record_condition_trace n r)) (\<lambda>_. ret r))"

end
