(* ===== verification/Statements.thy ===== *)
theory Statements
  imports Expressions
begin

text \<open>
  The statement evaluator (\<^verbatim>\<open>interpreter/eval_stmt.rs\<close>).  The loops of AL take fuel: a loop that goes on when the
  fuel is used up has no result.
\<close>

section \<open>Blocks and branches\<close>

definition quiet :: "node \<Rightarrow> bool" where
  "quiet n = is_punctuation (node_kind n)"

fun eval_statements :: "('d, 'x) callbacks \<Rightarrow> node list \<Rightarrow> 'd eval \<Rightarrow> ('d, 'x) run" where
  "eval_statements K [] final = ret final"
| "eval_statements K (n # ns) final =
     (if quiet n then eval_statements K ns final
      else andThen (cb_stmt K n) (\<lambda>r. case r of ENormal v \<Rightarrow> eval_statements K ns r | _ \<Rightarrow> ret r))"

definition eval_block :: "('d, 'x) callbacks \<Rightarrow> node \<Rightarrow> ('d, 'x) run" where
  "eval_block K n = eval_statements K (named_children n) (ENormal VEmpty)"

definition eval_decision_condition :: "('d, 'x) callbacks \<Rightarrow> node \<Rightarrow> node \<Rightarrow> ('d, 'x) run" where
  "eval_decision_condition K condition decision =
     andThen (updates cov_begin_condition_trace) (\<lambda>_.
     andThen (cb_expr K condition) (\<lambda>result.
     andThen (does (cov_finish_condition_trace condition)) (\<lambda>trace.
     andThen (updates (case result of
         ENormal (VBoolean outcome) \<Rightarrow> cov_record_condition_observation decision trace outcome
       | _ \<Rightarrow> id)) (\<lambda>_. ret result))))"

definition eval_optional :: "('d, 'x) callbacks \<Rightarrow> node option \<Rightarrow> ('d, 'x) run" where
  "eval_optional K n = (case n of Some n \<Rightarrow> cb_stmt K n | None \<Rightarrow> done_with VEmpty)"

definition is_boolean :: "'d val \<Rightarrow> bool" where
  "is_boolean v = (case v of VBoolean _ \<Rightarrow> True | _ \<Rightarrow> False)"

definition eval_if :: "('d, 'x) callbacks \<Rightarrow> node \<Rightarrow> ('d, 'x) run" where
  "eval_if K n =
     (case child_or n ''condition'' 0 of
        None \<Rightarrow> fails ''if_statement: missing condition node''
      | Some c \<Rightarrow>
          value_then (eval_decision_condition K c n) (\<lambda>cond.
            if \<not> is_boolean cond then fails (''if condition must be Boolean, got '' @ type_name cond)
            else
              andThen (updates (cov_record_decision n (is_truthy cond))) (\<lambda>_.
                eval_optional K (if is_truthy cond then child_or n ''consequence'' 1
                                 else child_or n ''alternative'' 2))))"


section \<open>Loops\<close>

text \<open>The body of a loop: whether the loop goes on, and if not, what it yields.\<close>

datatype 'd after_body = Go_On | Leave "'d eval"

definition loop_body :: "('d, 'x) callbacks \<Rightarrow> node option \<Rightarrow> ('d, 'x, 'd after_body) step" where
  "loop_body K body =
     (case body of
        None \<Rightarrow> ret Go_On
      | Some b \<Rightarrow>
          andThen (cb_stmt K b) (\<lambda>r. ret (case r of
            ENormal _ \<Rightarrow> Go_On
          | EContinue \<Rightarrow> Go_On
          | EBreak \<Rightarrow> Leave (ENormal VEmpty)
          | other \<Rightarrow> Leave other)))"

text \<open>The look at the flag and the clock at the head of each turn.\<close>

definition unless_interrupted :: "('d, 'x) world \<Rightarrow> string \<Rightarrow> ('d, 'x) run \<Rightarrow> ('d, 'x) run" where
  "unless_interrupted W loop m =
     andThen (interrupted W loop) (\<lambda>r. case r of Some e \<Rightarrow> fails e | None \<Rightarrow> m)"

fun while_loop :: "nat \<Rightarrow> ('d, 'x) world \<Rightarrow> ('d, 'x) callbacks \<Rightarrow> node \<Rightarrow> node \<Rightarrow> node option \<Rightarrow> ('d, 'x) run" where
  "while_loop 0 W K n condition body = out_of_fuel"
| "while_loop (Suc fuel) W K n condition body =
     unless_interrupted W ''while loop''
       (value_then (eval_decision_condition K condition n) (\<lambda>cond.
        andThen (updates (cov_record_decision n (is_truthy cond))) (\<lambda>_.
          if \<not> is_truthy cond then done_with VEmpty
          else andThen (loop_body K body) (\<lambda>r. case r of
            Go_On \<Rightarrow> while_loop fuel W K n condition body
          | Leave result \<Rightarrow> ret result))))"

definition eval_while :: "nat \<Rightarrow> ('d, 'x) world \<Rightarrow> ('d, 'x) callbacks \<Rightarrow> node \<Rightarrow> ('d, 'x) run" where
  "eval_while fuel W K n =
     (case child_or n ''condition'' 0 of
        None \<Rightarrow> fails ''while_statement: missing condition''
      | Some c \<Rightarrow> while_loop fuel W K n c (child_or n ''body'' 1))"

fun repeat_loop :: "nat \<Rightarrow> ('d, 'x) world \<Rightarrow> ('d, 'x) callbacks \<Rightarrow> node \<Rightarrow> node option \<Rightarrow> node option \<Rightarrow> ('d, 'x) run" where
  "repeat_loop 0 W K n body condition = out_of_fuel"
| "repeat_loop (Suc fuel) W K n body condition =
     unless_interrupted W ''repeat loop''
       (andThen (loop_body K body) (\<lambda>r. case r of
          Leave result \<Rightarrow> ret result
        | Go_On \<Rightarrow>
            (case condition of
               None \<Rightarrow> fails ''repeat_statement: missing until condition''
             | Some c \<Rightarrow>
                 value_then (eval_decision_condition K c n) (\<lambda>cond.
                 andThen (updates (cov_record_decision n (is_truthy cond))) (\<lambda>_.
                   if is_truthy cond then done_with VEmpty else repeat_loop fuel W K n body condition)))))"

definition eval_repeat :: "nat \<Rightarrow> ('d, 'x) world \<Rightarrow> ('d, 'x) callbacks \<Rightarrow> node \<Rightarrow> ('d, 'x) run" where
  "eval_repeat fuel W K n = repeat_loop fuel W K n (child_or n ''body'' 0) (child_or n ''condition'' 1)"

text \<open>
  A for loop counts in 64 bits.  Past the largest or smallest number the loop ends, since no further turn would be
  in the range.
\<close>

definition counter_value :: "bool \<Rightarrow> int \<Rightarrow> 'd val" where
  "counter_value big i = (if big then VBigInteger i else VInteger i)"

definition next_counter :: "bool \<Rightarrow> int \<Rightarrow> int option" where
  "next_counter downto i = (if downto then checked_sub i 1 else checked_add i 1)"

fun for_loop ::
  "nat \<Rightarrow> ('d, 'x) world \<Rightarrow> ('d, 'x) callbacks \<Rightarrow> node \<Rightarrow> string \<Rightarrow> bool \<Rightarrow> bool \<Rightarrow> int \<Rightarrow> node option \<Rightarrow> int \<Rightarrow> ('d, 'x) run" where
  "for_loop 0 W K n name big downto end_i body i = out_of_fuel"
| "for_loop (Suc fuel) W K n name big downto end_i body i =
     (let in_range = (if downto then i \<ge> end_i else i \<le> end_i) in
      unless_interrupted W ''for loop''
        (andThen (updates (cov_record_decision n in_range)) (\<lambda>_.
          if \<not> in_range then done_with VEmpty
          else
            value_then (store_or (''The for variable '' @ quoted name) name (counter_value big i)
                (andThen (updates (bind_top name (counter_value big i))) (\<lambda>_. done_with VEmpty))) (\<lambda>_.
            andThen (loop_body K body) (\<lambda>r. case r of
              Leave result \<Rightarrow> ret result
            | Go_On \<Rightarrow>
                (case next_counter downto i of
                   None \<Rightarrow> done_with VEmpty
                 | Some j \<Rightarrow> for_loop fuel W K n name big downto end_i body j))))))"

definition contains_sub :: "string \<Rightarrow> string \<Rightarrow> bool" where
  "contains_sub s p = list_ex (\<lambda>i. starts_with (drop i s) p) [0..<Suc (length s)]"

definition is_downto :: "node \<Rightarrow> bool" where
  "is_downto n =
     (case child_by_field_name n ''direction'' of
        Some d \<Rightarrow> node_kind d = ''kw_downto''
      | None \<Rightarrow> contains_sub (to_ascii_lowercase (node_name n)) ''downto'')"

definition is_big :: "'d val option \<Rightarrow> bool" where
  "is_big v = (case v of Some (VBigInteger _) \<Rightarrow> True | _ \<Rightarrow> False)"

definition eval_needed :: "('d, 'x) callbacks \<Rightarrow> node option \<Rightarrow> string \<Rightarrow> ('d val \<Rightarrow> ('d, 'x) run) \<Rightarrow> ('d, 'x) run" where
  "eval_needed K n missing f = (case n of None \<Rightarrow> fails missing | Some n \<Rightarrow> value_then (cb_expr K n) f)"

definition eval_for :: "nat \<Rightarrow> ('d, 'x) world \<Rightarrow> ('d, 'x) callbacks \<Rightarrow> node \<Rightarrow> ('d, 'x) run" where
  "eval_for fuel W K n =
     (case child_or n ''iterator'' 0 of
        None \<Rightarrow> fails ''for_statement: missing variable''
      | Some var \<Rightarrow>
          eval_needed K (child_or n ''from'' 2) ''for_statement: missing start value'' (\<lambda>start.
          eval_needed K (child_or n ''to'' 3) ''for_statement: missing end value'' (\<lambda>final.
          case (as_int start, as_int final) of
            (None, _) \<Rightarrow> fails (''for_statement: start must be Integer, got '' @ type_name start)
          | (Some _, None) \<Rightarrow> fails (''for_statement: end must be Integer, got '' @ type_name final)
          | (Some start_i, Some end_i) \<Rightarrow>
              andThen (reads (lookup (node_name var))) (\<lambda>bound.
                for_loop fuel W K n (node_name var) (is_big (Some start) \<or> is_big (Some final) \<or> is_big bound)
                  (is_downto n) end_i (child_or n ''body'' 4) start_i))))"

text \<open>A foreach loop walks a copy of the list, so it needs no fuel.\<close>

definition bind_foreach :: "string \<Rightarrow> 'd val \<Rightarrow> ('d, 'x) run" where
  "bind_foreach name item =
     andThen (updates (bind_top name item)) (\<lambda>_.
     andThen (reads (\<lambda>s. case top_frame (scopes s) of
         None \<Rightarrow> Ok ()
       | Some F \<Rightarrow> frame_check_held_bytes (''The foreach variable '' @ quoted name) F (held s))) (\<lambda>r. ret (of_unit r)))"

fun foreach_loop :: "('d, 'x) world \<Rightarrow> ('d, 'x) callbacks \<Rightarrow> node \<Rightarrow> string \<Rightarrow> node option \<Rightarrow> 'd val list \<Rightarrow> ('d, 'x) run" where
  "foreach_loop W K n name body [] = andThen (updates (cov_record_decision n False)) (\<lambda>_. done_with VEmpty)"
| "foreach_loop W K n name body (item # items) =
     andThen (updates (cov_record_decision n True)) (\<lambda>_.
     unless_interrupted W ''foreach loop''
       (value_then (store_or (''The foreach variable '' @ quoted name) name item (bind_foreach name item)) (\<lambda>_.
        andThen (loop_body K body) (\<lambda>r. case r of
          Leave result \<Rightarrow> ret result
        | Go_On \<Rightarrow> foreach_loop W K n name body items))))"

definition foreach_items :: "'d val \<Rightarrow> 'd env \<Rightarrow> string + 'd val list" where
  "foreach_items v E =
     (case v of
        VList a _ _ \<Rightarrow> Ok (contents_of (lists E) a)
      | VArray items \<Rightarrow> Ok items
      | other \<Rightarrow> Err (''foreach: expected List or Array, got '' @ type_name other))"

definition eval_foreach :: "('d, 'x) world \<Rightarrow> ('d, 'x) callbacks \<Rightarrow> node \<Rightarrow> ('d, 'x) run" where
  "eval_foreach W K n =
     (case child_or n ''iterator'' 0 of
        None \<Rightarrow> fails ''foreach: missing variable''
      | Some var \<Rightarrow>
          eval_needed K (child_or n ''collection'' 1) ''foreach: missing collection'' (\<lambda>v.
          andThen (reads (\<lambda>s. foreach_items v (shared s))) (\<lambda>r. case r of
            Inl e \<Rightarrow> fails e
          | Inr items \<Rightarrow> foreach_loop W K n (node_name var) (child_or n ''body'' 2) items)))"


section \<open>Case\<close>

definition label_matches :: "'d env \<Rightarrow> 'd val \<Rightarrow> 'd val \<Rightarrow> string + bool" where
  "label_matches E selector label =
     (case label of
        VRange low high \<Rightarrow> value_in_range E selector low high
      | _ \<Rightarrow> Ok (values_equal E selector label))"

text \<open>Whether one of the labels of an arm matches; the labels after the first match are not evaluated.\<close>

fun match_labels :: "('d, 'x) callbacks \<Rightarrow> 'd val \<Rightarrow> node list \<Rightarrow> ('d, 'x, 'd eval + bool) step" where
  "match_labels K selector [] = ret (Ok False)"
| "match_labels K selector (l # ls) =
     (if quiet l then match_labels K selector ls
      else andThen (cb_expr K l) (\<lambda>r. case r of
        ENormal v \<Rightarrow>
          andThen (reads (\<lambda>s. label_matches (shared s) selector v)) (\<lambda>m. case m of
            Inl e \<Rightarrow> ret (Err (eval_error e))
          | Inr b \<Rightarrow> if b then ret (Ok True) else match_labels K selector ls)
      | other \<Rightarrow> ret (Err other)))"

definition arm_path :: "nat \<Rightarrow> node \<Rightarrow> string" where
  "arm_path index arm = ''arm:'' @ show_nat (index + 1) @ '':'' @ show_nat (row_of arm)"

definition case_arms :: "node \<Rightarrow> (nat \<times> node) list" where
  "case_arms n = List.enumerate 0 (filter (\<lambda>c. node_kind c = ''case_branch'') (named_children n))"

definition arm_body :: "node \<Rightarrow> node option" where
  "arm_body arm = or_else (child_by_field_name arm ''body'') (named_child arm 1)"

definition arm_labels :: "node \<Rightarrow> node list" where
  "arm_labels arm =
     (case or_else (child_by_field_name arm ''labels'') (named_child arm 0) of None \<Rightarrow> [] | Some l \<Rightarrow> named_children l)"

fun run_arms :: "('d, 'x) callbacks \<Rightarrow> node \<Rightarrow> 'd val \<Rightarrow> ('d, 'x) run \<Rightarrow> (nat \<times> node) list \<Rightarrow> ('d, 'x) run" where
  "run_arms K n selector no_match [] = no_match"
| "run_arms K n selector no_match ((index, arm) # arms) =
     (case arm_body arm of
        None \<Rightarrow> run_arms K n selector no_match arms
      | Some body \<Rightarrow>
          andThen (match_labels K selector (arm_labels arm)) (\<lambda>r. case r of
            Inl e \<Rightarrow> ret e
          | Inr matched \<Rightarrow>
              if matched then
                andThen (updates (cov_record_path n (arm_path index arm) \<circ> cov_record_decision n True)) (\<lambda>_. cb_stmt K body)
              else run_arms K n selector no_match arms))"

definition eval_case :: "('d, 'x) callbacks \<Rightarrow> node \<Rightarrow> ('d, 'x) run" where
  "eval_case K n =
     eval_needed K (child_or n ''value'' 0) ''case_statement: missing selector'' (\<lambda>selector.
       let else_body = child_by_field_name n ''else_body'';
           arms = case_arms n;
           fallback = (if else_body \<noteq> None then ''else'' else ''no-match'') in
       andThen (updates (cov_ensure_path n fallback \<circ> fold (\<lambda>(i, arm). cov_ensure_path n (arm_path i arm)) arms)) (\<lambda>_.
         run_arms K n selector
           (andThen (updates (cov_record_path n fallback \<circ> cov_record_decision n False)) (\<lambda>_. eval_optional K else_body))
           arms))"


section \<open>Exit, asserterror and expression statements\<close>

definition eval_exit :: "('d, 'x) callbacks \<Rightarrow> node \<Rightarrow> ('d, 'x) run" where
  "eval_exit K n =
     (case named_stmt_child n 0 of
        None \<Rightarrow> ret (EExit VEmpty)
      | Some e \<Rightarrow> value_then (cb_expr K (unwrap_exit_expr e)) (\<lambda>v. ret (EExit v)))"

definition assert_failed :: "'d eval" where
  "assert_failed = EError \<lparr>ei_message = ''asserterror: expected an error to be raised, but none was'',
     ei_error_type = Some ''AssertError'', ei_source = None\<rparr>"

definition eval_asserterror :: "('d, 'x) callbacks \<Rightarrow> node \<Rightarrow> ('d, 'x) run" where
  "eval_asserterror K n =
     (case named_stmt_child n 0 of
        None \<Rightarrow> fails ''asserterror: missing body statement''
      | Some body \<Rightarrow>
          andThen (cb_stmt K body) (\<lambda>r. case r of
            EError caught \<Rightarrow> andThen (updates (\<lambda>s. s\<lparr>last_error := Some caught\<rparr>)) (\<lambda>_. done_with VEmpty)
          | ENormal _ \<Rightarrow> ret assert_failed
          | other \<Rightarrow> ret other))"

definition set_stmt_position :: "bool \<Rightarrow> ('d, 'x, unit) step" where
  "set_stmt_position b = updates (\<lambda>s. s\<lparr>stmt_position := b\<rparr>)"

definition eval_expression_stmt :: "('d, 'x) world \<Rightarrow> ('d, 'x) callbacks \<Rightarrow> node \<Rightarrow> ('d, 'x) run" where
  "eval_expression_stmt W K n =
     (let effective = resolve_to_call_node n in
      if node_kind effective = ''postfix_expression'' then
        andThen (set_stmt_position True) (\<lambda>_.
          if is_call_postfix effective then eval_call W K effective
          else andThen (cb_expr K n) (\<lambda>r. andThen (set_stmt_position False) (\<lambda>_. ret r)))
      else cb_expr K n)"


section \<open>The dispatch on the kind of a node\<close>

definition eval_stmt_inner :: "nat \<Rightarrow> ('d, 'x) world \<Rightarrow> ('d, 'x) callbacks \<Rightarrow> node \<Rightarrow> ('d, 'x) run" where
  "eval_stmt_inner fuel W K n =
     (let kind = node_kind n in
      if kind = ''statement'' then eval_optional K (named_stmt_child n 0)
      else if kind = ''begin_end_block'' \<or> kind = ''statement_list'' then eval_block K n
      else if kind = ''if_statement'' \<or> kind = ''empty_if_statement'' then eval_if K n
      else if kind = ''while_statement'' then eval_while fuel W K n
      else if kind = ''for_statement'' then eval_for fuel W K n
      else if kind = ''foreach_statement'' then eval_foreach W K n
      else if kind = ''repeat_statement'' then eval_repeat fuel W K n
      else if kind = ''case_statement'' then eval_case K n
      else if kind = ''exit_statement'' then eval_exit K n
      else if kind = ''break_statement'' then ret EBreak
      else if kind = ''continue_statement'' then ret EContinue
      else if kind = ''asserterror_statement'' then eval_asserterror K n
      else if kind = ''expression_statement'' then
        (case named_child n 0 of Some inner \<Rightarrow> eval_expression_stmt W K inner | None \<Rightarrow> done_with VEmpty)
      else eval_expression_stmt W K n)"

definition ast_depth_error :: "string" where
  "ast_depth_error = ''AST nesting depth exceeded (max '' @ show_nat MAX_AST_DEPTH @
     '' levels) - likely a pathological or generated test source''"

definition with_ast_depth :: "('d, 'x) run \<Rightarrow> ('d, 'x) run" where
  "with_ast_depth m =
     andThen (updates (\<lambda>s. s\<lparr>ast_depth := ast_depth s + 1\<rparr>)) (\<lambda>_.
     andThen m (\<lambda>r. andThen (updates (\<lambda>s. s\<lparr>ast_depth := ast_depth s - 1\<rparr>)) (\<lambda>_. ret r)))"

definition stmt_step :: "nat \<Rightarrow> ('d, 'x) world \<Rightarrow> ('d, 'x) callbacks \<Rightarrow> node \<Rightarrow> ('d, 'x) run" where
  "stmt_step fuel W K n =
     andThen (reads (\<lambda>s. ast_depth s \<ge> MAX_AST_DEPTH)) (\<lambda>too_deep.
       if too_deep then fails ast_depth_error
       else andThen (updates (cov_record_stmt n)) (\<lambda>_. with_ast_depth (eval_stmt_inner fuel W K n)))"

end
