(* ===== verification/Frames.thy ===== *)
theory Frames
  imports Chains Rendering
begin

text \<open>
  Binding a call frame (\<^verbatim>\<open>interpreter/dispatch/frames.rs\<close>, \<^verbatim>\<open>interpreter/records/helpers.rs\<close>): parameters, locals, the
  globals of an object and the return slot, each read from the declaration in the syntax tree.
\<close>

section \<open>Declared types\<close>

definition before_any :: "(char \<Rightarrow> bool) \<Rightarrow> string \<Rightarrow> string" where
  "before_any P s = takeWhile (\<lambda>c. \<not> P c) s"

definition is_bracket :: "char \<Rightarrow> bool" where
  "is_bracket c \<longleftrightarrow> c = CHR ''[''"

definition is_base_end :: "char \<Rightarrow> bool" where
  "is_base_end c \<longleftrightarrow> c = CHR ''['' \<or> c = CHR '' ''"

text \<open>The text between the first \<open>[\<close> and the first \<open>]\<close> after it.\<close>

definition bracketed :: "string \<Rightarrow> string option" where
  "bracketed s =
     (case dropWhile (\<lambda>c. c \<noteq> CHR ''['') s of
        [] \<Rightarrow> None
      | _ # rest \<Rightarrow> if has_char (CHR '']'') rest then Some (takeWhile (\<lambda>c. c \<noteq> CHR '']'') rest) else None)"

definition declared_length :: "string \<Rightarrow> nat option" where
  "declared_length type_text =
     (let trimmed = trim type_text in
      if to_ascii_lowercase (trim (before_any is_bracket trimmed)) \<in> {''text'', ''code''}
      then Option.bind (bracketed trimmed) (\<lambda>s. parse_unsigned usize_max (trim s)) else None)"

definition default_for_declared_type :: "string \<Rightarrow> ('d, 'x, 'd val option) outer" where
  "default_for_declared_type type_text = fresh_default (trim (before_any is_bracket (trim type_text)))"

definition starts_blank :: "string \<Rightarrow> bool" where
  "starts_blank s = (case s of [] \<Rightarrow> True | c # _ \<Rightarrow> is_whitespace c)"

definition unquote_subtype :: "string \<Rightarrow> string" where
  "unquote_subtype raw =
     (let trimmed = trim raw in
      trim (unwrap_or (Option.bind (strip_prefix ''\"'' trimmed) (strip_suffix ''\"'')) trimmed))"

definition split_temporary_keyword :: "string \<Rightarrow> string \<times> bool" where
  "split_temporary_keyword after =
     (let trimmed = trim after;
          head_part = take (length trimmed - 9) trimmed;
          tail = drop (length trimmed - 9) trimmed in
      if length trimmed \<ge> 9 \<and> eq_ignore_ascii_case tail ''temporary'' \<and> head_part \<noteq> [] \<and> is_whitespace (last head_part)
      then (unquote_subtype head_part, True) else (unquote_subtype trimmed, False))"

text \<open>The types between the brackets of \<open>List of [T]\<close>, split at the commas outside brackets and quotes.\<close>

fun split_arguments :: "string \<Rightarrow> nat \<Rightarrow> bool \<Rightarrow> string \<Rightarrow> string list" where
  "split_arguments [] depth quote cur = [trim cur]"
| "split_arguments (c # s) depth quote cur =
     (if c = CHR ''\"'' then split_arguments s depth (\<not> quote) (cur @ [c])
      else if c = CHR ''['' \<and> \<not> quote then split_arguments s (depth + 1) quote (cur @ [c])
      else if c = CHR '']'' \<and> \<not> quote then split_arguments s (depth - 1) quote (cur @ [c])
      else if c = CHR '','' \<and> \<not> quote \<and> depth = 0 then trim cur # split_arguments s depth quote []
      else split_arguments s depth quote (cur @ [c]))"

definition type_arguments :: "string \<Rightarrow> string list" where
  "type_arguments after =
     (case Option.bind (strip_prefix ''['' (trim after)) (strip_suffix '']'') of
        None \<Rightarrow> []
      | Some inner \<Rightarrow> split_arguments inner 0 False [])"

definition strip_keyword :: "string \<Rightarrow> string \<Rightarrow> string option" where
  "strip_keyword keyword s =
     (if length s \<ge> length keyword \<and> eq_ignore_ascii_case (take (length keyword) s) keyword
      then Some (drop (length keyword) s) else None)"

text \<open>\<open>array[N] of T\<close>: the length and the element type.\<close>

definition array_type :: "string \<Rightarrow> (nat \<times> string) option" where
  "array_type type_text =
     Option.bind (strip_keyword ''array'' type_text) (\<lambda>rest.
     Option.bind (strip_prefix ''['' (trim_start rest)) (\<lambda>rest.
     if \<not> has_char (CHR '']'') rest then None
     else Option.bind (parse_unsigned usize_max (trim (takeWhile (\<lambda>c. c \<noteq> CHR '']'') rest))) (\<lambda>len.
       case check_collection_len ''array'' len of
         Inl _ \<Rightarrow> None
       | Inr _ \<Rightarrow>
           map_option (\<lambda>element. (len, trim (before_any is_bracket (trim element))))
             (strip_keyword ''of'' (trim_start (drop 1 (dropWhile (\<lambda>c. c \<noteq> CHR '']'') rest)))))))"

fun fresh_defaults :: "nat \<Rightarrow> string \<Rightarrow> ('d, 'x, 'd val list option) outer" where
  "fresh_defaults 0 base s = (Some [], s)"
| "fresh_defaults (Suc n) base s =
     (let (d, s) = fresh_default base s in
      case d of
        None \<Rightarrow> (None, s)
      | Some v \<Rightarrow> let (vs, s) = fresh_defaults n base s in (map_option (\<lambda>vs. v # vs) vs, s))"

definition default_for_array :: "string \<Rightarrow> ('d, 'x, 'd val option) outer" where
  "default_for_array type_text s =
     (case array_type type_text of
        None \<Rightarrow> (None, s)
      | Some (len, base) \<Rightarrow> let (vs, s) = fresh_defaults len base s in (map_option VArray vs, s))"

definition default_enum_value :: "string \<Rightarrow> 'd val option" where
  "default_enum_value type_text =
     (let after = drop 4 (trim type_text); name = unquote_identifier (trim after) in
      if eq_ignore_ascii_case (take 4 (trim type_text)) ''enum'' \<and> after \<noteq> [] \<and> is_whitespace (hd after) \<and> name \<noteq> []
      then Some (VOption name [] 0) else None)"

definition default_for_structured :: "string \<Rightarrow> ('d, 'x, 'd val option) outer" where
  "default_for_structured type_text s =
     (let trimmed = trim type_text; lower = to_ascii_lowercase trimmed;
          subtype = unquote_subtype (drop 8 trimmed) in
      if starts_with lower ''record'' \<and> starts_blank (drop 6 lower) then
        (let (name, temporary) = split_temporary_keyword (drop 6 trimmed) in
         (Some (VRecord \<lparr>rv_table_name = name, rv_table_id = 0, rv_handle = None, rv_temporary = temporary\<rparr>), s))
      else if starts_with lower ''codeunit'' \<and> starts_blank (drop 8 lower) \<and> subtype \<noteq> [] then
        (Some (VCodeunit subtype None), s)
      else if starts_with lower ''list of'' then
        (let (v, s) = alloc_list [] (nth_opt (type_arguments (drop 7 trimmed)) 0) s in (Some v, s))
      else if starts_with lower ''dictionary of'' then
        (let args = type_arguments (drop 13 trimmed); (v, s) = alloc_dict (nth_opt args 0) (nth_opt args 1) s in (Some v, s))
      else if lower = ''variant'' then (Some (VVariant VNull), s)
      else
        (let (a, s) = default_for_array trimmed s in
         case a of Some v \<Rightarrow> (Some v, s) | None \<Rightarrow> (default_enum_value trimmed, s)))"

section \<open>Parameters and the return value\<close>

record param_decl =
  p_name :: string
  p_type :: string
  is_var :: bool

record return_decl =
  r_name :: "string option"
  r_type :: string

definition child_by_field_or_kind :: "node \<Rightarrow> string \<Rightarrow> string list \<Rightarrow> node option" where
  "child_by_field_or_kind n field kinds =
     or_else (child_by_field_name n field) (List.find (\<lambda>c. node_kind c \<in> set kinds) (named_children n))"

definition collect_return :: "node \<Rightarrow> return_decl option" where
  "collect_return proc =
     map_option (\<lambda>t. \<lparr>r_name = Option.bind (child_by_field_name proc ''return_var'')
                              (\<lambda>v. if node_name v = [] then None else Some (node_name v)),
                       r_type = trim (node_text t)\<rparr>)
       (child_by_field_name proc ''return_type'')"

definition is_var_token :: "node \<Rightarrow> bool" where
  "is_var_token c \<longleftrightarrow> node_kind c = ''kw_var'' \<or> eq_ignore_ascii_case (node_text c) ''var''"

definition param_of :: "node \<Rightarrow> param_decl option" where
  "param_of n =
     (if node_kind n \<noteq> ''parameter'' then None
      else map_option (\<lambda>name. \<lparr>p_name = node_name name,
             p_type = (case child_by_field_or_kind n ''type'' [''type_reference''] of
                         None \<Rightarrow> [] | Some t \<Rightarrow> trim (node_text t)),
             is_var = list_ex is_var_token (node_children n)\<rparr>)
           (child_by_field_or_kind n ''name'' [''identifier'', ''name'', ''name_or_keyword'']))"

definition collect_params :: "node \<Rightarrow> param_decl list" where
  "collect_params proc =
     (case child_by_field_or_kind proc ''parameters'' [''parameter_list''] of
        None \<Rightarrow> []
      | Some ps \<Rightarrow> List.map_filter param_of (named_children ps))"

definition type_base :: "string \<Rightarrow> string" where
  "type_base s = before_any is_base_end s"

definition is_text_like :: "'d val \<Rightarrow> bool" where
  "is_text_like v = (case v of VText _ \<Rightarrow> True | VCode _ \<Rightarrow> True | VChar _ \<Rightarrow> True | _ \<Rightarrow> False)"

definition is_integer_like :: "'d val \<Rightarrow> bool" where
  "is_integer_like v = (case v of VInteger _ \<Rightarrow> True | VBigInteger _ \<Rightarrow> True | _ \<Rightarrow> False)"

definition is_decimal_like :: "'d val \<Rightarrow> bool" where
  "is_decimal_like v = (case v of VDecimal _ \<Rightarrow> True | _ \<Rightarrow> is_integer_like v)"

definition check_param_type :: "'d val \<Rightarrow> string \<Rightarrow> string option" where
  "check_param_type arg type_text =
     (let base = type_base (to_lowercase type_text);
          mismatch = (\<lambda>expected. Some (''expected '' @ expected @ '', got '' @ type_name arg)) in
      if base \<in> {''integer'', ''biginteger''} \<and> \<not> is_integer_like arg then mismatch ''Integer''
      else if base = ''decimal'' \<and> \<not> is_decimal_like arg then mismatch ''Decimal''
      else if base = ''boolean'' \<and> (case arg of VBoolean _ \<Rightarrow> False | _ \<Rightarrow> True) then mismatch ''Boolean''
      else if base = ''text'' \<and> \<not> is_text_like arg then mismatch ''Text''
      else if base = ''code'' \<and> \<not> is_text_like arg then mismatch ''Code''
      else None)"

text \<open>The subtype a declared type and an argument name, when both are of the same kind.\<close>

definition subtypes :: "'d val option \<Rightarrow> 'd val \<Rightarrow> (string \<times> string) option" where
  "subtypes declared arg =
     (case (declared, arg) of
        (Some (VRecord d), VRecord r) \<Rightarrow> Some (rv_table_name d, rv_table_name r)
      | (Some (VCodeunit d _), VCodeunit obj _) \<Rightarrow> Some (d, obj)
      | (Some (VOption d _ _), VOption t _ _) \<Rightarrow> Some (d, t)
      | _ \<Rightarrow> None)"

definition subtype_matches :: "('d, 'x) interp \<Rightarrow> 'd val \<Rightarrow> string \<Rightarrow> bool" where
  "subtype_matches s arg type_text =
     (case subtypes (fst (default_for_structured type_text s)) arg of
        None \<Rightarrow> True
      | Some (declared, given) \<Rightarrow> declared = [] \<or> given = [] \<or> eq_ignore_ascii_case declared given)"

definition coerce_int_width :: "'d val \<Rightarrow> string \<Rightarrow> 'd val" where
  "coerce_int_width v type_text =
     (case v of
        VInteger n \<Rightarrow> if eq_ignore_ascii_case type_text ''biginteger'' then VBigInteger n else v
      | VBigInteger n \<Rightarrow> if eq_ignore_ascii_case type_text ''integer'' then VInteger n else v
      | _ \<Rightarrow> v)"


section \<open>Binding\<close>

text \<open>A frame under construction, with the state whose byte count it changes.\<close>

type_synonym ('d, 'x) frame_step = "'d call_frame \<times> ('d, 'x) interp \<Rightarrow> 'd call_frame \<times> ('d, 'x) interp"

definition frame_bind :: "string \<Rightarrow> 'd val \<Rightarrow> ('d, 'x) frame_step" where
  "frame_bind name v = (\<lambda>(F, s). let (F, tot) = bind_var name v F (held s) in (F, s\<lparr>held := tot\<rparr>))"

definition bind_if_free :: "string \<Rightarrow> 'd val \<Rightarrow> ('d, 'x) frame_step" where
  "bind_if_free name v = (\<lambda>(F, s). if frame_get F name = None then frame_bind name v (F, s) else (F, s))"

definition frame_length :: "string \<Rightarrow> nat option \<Rightarrow> ('d, 'x) frame_step" where
  "frame_length name len =
     (\<lambda>(F, s). case len of None \<Rightarrow> (F, s) | Some l \<Rightarrow> (bind_declared_text_length name l F, s))"

definition with_field :: "string \<Rightarrow> node \<Rightarrow> node list" where
  "with_field f n = filter (\<lambda>c. field_of c = Some f) (node_children n)"

definition declared_names :: "node \<Rightarrow> string list" where
  "declared_names reg = map node_name (with_field ''name'' reg)"

definition declared_type :: "node \<Rightarrow> string option" where
  "declared_type reg = (case with_field ''type'' reg of [] \<Rightarrow> None | ts \<Rightarrow> Some (node_text (last ts)))"

text \<open>Every name of a declaration; a type without a default ends it.\<close>

fun bind_names ::
  "(('d, 'x) interp \<Rightarrow> 'd val option \<times> ('d, 'x) interp) \<Rightarrow> nat option \<Rightarrow> string list \<Rightarrow> ('d, 'x) frame_step" where
  "bind_names default_of len [] (F, s) = (F, s)"
| "bind_names default_of len (name # names) (F, s) =
     (let (d, s) = default_of s in
      case d of
        None \<Rightarrow> (F, s)
      | Some v \<Rightarrow> bind_names default_of len names (bind_if_free name v (frame_length name len (F, s))))"

definition bind_regular_var_decl :: "node \<Rightarrow> ('d, 'x) frame_step" where
  "bind_regular_var_decl reg =
     (case declared_type reg of
        None \<Rightarrow> id
      | Some t \<Rightarrow> bind_names (fresh_default (trim (type_base t))) (declared_length t) (declared_names reg))"

definition bind_structured_var_decl :: "node \<Rightarrow> ('d, 'x) frame_step" where
  "bind_structured_var_decl reg =
     (case declared_type reg of
        None \<Rightarrow> id
      | Some t \<Rightarrow> bind_names (default_for_structured t) None (declared_names reg))"

definition label_text :: "node \<Rightarrow> string option" where
  "label_text label =
     Option.bind (child_by_field_name label ''value'') (\<lambda>v.
       map_option (undouble (CHR 0x27))
         (Option.bind (strip_prefix [CHR 0x27] (trim (node_text v))) (strip_suffix [CHR 0x27])))"

definition bind_label_decl :: "node \<Rightarrow> ('d, 'x) frame_step" where
  "bind_label_decl label =
     (case (child_by_field_name label ''name'', label_text label) of
        (Some name, Some t) \<Rightarrow> bind_if_free (node_name name) (VText t)
      | _ \<Rightarrow> id)"

definition children_of_kind :: "string \<Rightarrow> node \<Rightarrow> node list" where
  "children_of_kind kind n = filter (\<lambda>c. node_kind c = kind) (named_children n)"

text \<open>The declarations under the \<open>var\<close> sections of a procedure.\<close>

definition local_declarations :: "node \<Rightarrow> node list" where
  "local_declarations proc =
     concat (map named_children (concat (map (children_of_kind ''variable_declaration'')
       (children_of_kind ''var_section'' proc))))"

definition bind_local_vars :: "node \<Rightarrow> ('d, 'x) frame_step" where
  "bind_local_vars proc =
     fold (\<lambda>reg. if node_kind reg = ''regular_variable_declaration'' then bind_regular_var_decl reg
                 else if node_kind reg = ''label_declaration'' then bind_label_decl reg else id)
       (local_declarations proc)"

definition bind_structured_locals :: "node \<Rightarrow> ('d, 'x) frame_step" where
  "bind_structured_locals proc =
     fold (\<lambda>reg. if node_kind reg = ''regular_variable_declaration'' then bind_structured_var_decl reg else id)
       (local_declarations proc)"

definition bind_procedure_locals :: "node \<Rightarrow> ('d, 'x) frame_step" where
  "bind_procedure_locals proc = bind_structured_locals proc \<circ> bind_local_vars proc"

text \<open>The \<open>var\<close> sections of an object, in the order a stack visits them: the last child first.\<close>

fun sections_below :: "string list \<Rightarrow> node \<Rightarrow> node list" where
  "sections_below skipped n =
     (if node_kind n = ''object_var_section'' then [n]
      else if node_kind n \<in> set skipped then []
      else concat (map (sections_below skipped) (rev (named_children n))))"

declare sections_below.simps [simp del]

definition object_sections :: "node \<Rightarrow> node list" where
  "object_sections obj = sections_below [''procedure_declaration'', ''trigger_declaration''] obj"

definition section_declarations :: "node \<Rightarrow> node list" where
  "section_declarations section = concat (map named_children (children_of_kind ''object_variable_declaration'' section))"

definition bind_object_globals :: "node \<Rightarrow> ('d, 'x) frame_step" where
  "bind_object_globals obj =
     fold (\<lambda>reg. if node_kind reg = ''regular_variable_declaration''
                 then bind_structured_var_decl reg \<circ> bind_regular_var_decl reg
                 else if node_kind reg = ''label_declaration'' then bind_label_decl reg else id)
       (concat (map section_declarations (object_sections obj)))"

definition object_has_global_declarations :: "node \<Rightarrow> bool" where
  "object_has_global_declarations obj =
     (case sections_below [''procedure_declaration'', ''trigger_declaration'', ''event_declaration''] obj of
        [] \<Rightarrow> False
      | section # _ \<Rightarrow>
          list_ex (\<lambda>c. node_kind c \<in> {''regular_variable_declaration'', ''label_declaration''}) (section_declarations section))"

end
