(* ===== verification/Dispatch.thy ===== *)
theory Dispatch
  imports Frames Text_Builtins Random_Gen
begin

text \<open>
  Calls: the order in which a call is resolved (\<^verbatim>\<open>dispatch/routing.rs\<close>), procedures of the workspace
  (\<^verbatim>\<open>dispatch/workspace_procedure.rs\<close>) and the calls on a variable (\<^verbatim>\<open>eval_stmt.rs\<close>).
\<close>

section \<open>Procedures of the workspace\<close>

text \<open>The declarations below an object, the last child first, not looking into procedures.\<close>

fun procedures_below :: "node \<Rightarrow> node list" where
  "procedures_below n =
     (if node_kind n = ''procedure_declaration'' then [n]
      else concat (map procedures_below (rev (named_children n))))"

declare procedures_below.simps [simp del]

definition declared_as :: "string \<Rightarrow> node \<Rightarrow> bool" where
  "declared_as name n \<longleftrightarrow>
     (case child_by_field_name n ''name'' of Some m \<Rightarrow> eq_ignore_ascii_case (node_name m) name | None \<Rightarrow> False)"

definition procedure_candidates :: "node \<Rightarrow> string \<Rightarrow> node list" where
  "procedure_candidates obj name = sort_key (fst \<circ> byte_range) (filter (declared_as name) (procedures_below obj))"

definition declared_object_name :: "node \<Rightarrow> string option" where
  "declared_object_name obj =
     (if node_kind obj = ''object_declaration'' then map_option node_name (child_by_field_name obj ''name'') else None)"

definition object_declaration_named :: "node \<Rightarrow> string \<Rightarrow> node option" where
  "object_declaration_named tree name =
     List.find (\<lambda>obj. case declared_object_name obj of Some d \<Rightarrow> eq_ignore_ascii_case d name | None \<Rightarrow> False)
       (named_children tree)"

text \<open>Overloads: a lone candidate is taken as it is; of several, the first with the most exact arguments.\<close>

definition takes_args :: "('d, 'x) interp \<Rightarrow> 'd val list \<Rightarrow> node \<Rightarrow> bool" where
  "takes_args s args n \<longleftrightarrow>
     length (collect_params n) = length args \<and>
     list_all2 (\<lambda>p arg. check_param_type arg (p_type p) = None \<and> subtype_matches s arg (p_type p)) (collect_params n) args"

definition exact_args :: "'d val list \<Rightarrow> node \<Rightarrow> nat" where
  "exact_args args n =
     length (filter (\<lambda>(p, arg). eq_ignore_ascii_case (type_base (p_type p)) (type_name arg)) (zip (collect_params n) args))"

fun best_overload :: "'d val list \<Rightarrow> (nat \<times> node) option \<Rightarrow> node list \<Rightarrow> node option" where
  "best_overload args chosen [] = map_option snd chosen"
| "best_overload args chosen (n # ns) =
     (case chosen of
        None \<Rightarrow> best_overload args (Some (exact_args args n, n)) ns
      | Some (best, _) \<Rightarrow>
          best_overload args (if exact_args args n > best then Some (exact_args args n, n) else chosen) ns)"

definition choose_overload :: "('d, 'x) interp \<Rightarrow> node list \<Rightarrow> string \<Rightarrow> 'd val list \<Rightarrow> string + node" where
  "choose_overload s candidates name args =
     (case candidates of
        [only] \<Rightarrow> Ok only
      | _ \<Rightarrow>
          ok_or (best_overload args None (filter (takes_args s args) candidates))
            (''no overload of '' @ quoted name @ '' takes these arguments ('' @
              join_with '', '' (map type_name args) @ '')''))"

section \<open>Running a declaration\<close>

fun first_mismatch :: "param_decl list \<Rightarrow> 'd val list \<Rightarrow> string option" where
  "first_mismatch (p # ps) (arg # args) =
     (case check_param_type arg (p_type p) of
        Some e \<Rightarrow> Some (''type mismatch for parameter '' @ quoted (p_name p) @ '': '' @ e)
      | None \<Rightarrow> first_mismatch ps args)"
| "first_mismatch _ _ = None"

definition body_of :: "node \<Rightarrow> node option" where
  "body_of proc =
     List.find (\<lambda>c. node_kind c = ''begin_end_block'' \<or> node_kind c = ''statement_list'') (named_children proc)"

text \<open>A record passed by value gets a view of its own.\<close>

definition bind_param :: "('d, 'x) world \<Rightarrow> param_decl \<times> 'd val \<Rightarrow> ('d, 'x) frame_step" where
  "bind_param W pv = (\<lambda>(F, s).
     let (p, v) = pv;
         (v, s) = (case v of
            VRecord rv \<Rightarrow> if is_var p then (v, s) else (let (rv, s) = w_fork_record W rv s in (VRecord rv, s))
          | _ \<Rightarrow> (v, s)) in
     frame_length (p_name p) (declared_length (p_type p)) (frame_bind (p_name p) (coerce_int_width v (p_type p)) (F, s)))"

definition return_default :: "return_decl option \<Rightarrow> ('d, 'x, 'd val) outer" where
  "return_default r s =
     (case r of
        None \<Rightarrow> (VEmpty, s)
      | Some r \<Rightarrow> let (d, s) = default_for_declared_type (r_type r) s in (unwrap_or d VEmpty, s))"

definition bind_return :: "return_decl option \<Rightarrow> 'd val \<Rightarrow> ('d, 'x) frame_step" where
  "bind_return r d =
     (case r of
        None \<Rightarrow> id
      | Some r \<Rightarrow>
          (case r_name r of
             None \<Rightarrow> id
           | Some name \<Rightarrow> frame_length name (declared_length (r_type r)) \<circ> frame_bind name d))"

definition bind_implicit :: "('d val \<times> 'd val) option \<Rightarrow> ('d, 'x) frame_step" where
  "bind_implicit rec =
     (case rec of
        None \<Rightarrow> id
      | Some (r, x) \<Rightarrow> (\<lambda>(F, s). (F\<lparr>implicit_record := True\<rparr>, s)) \<circ> frame_bind ''xRec'' x \<circ> frame_bind ''Rec'' r)"

text \<open>The frame of a call and the default of its result.\<close>

definition call_frame_for ::
  "('d, 'x) world \<Rightarrow> node \<Rightarrow> string \<Rightarrow> string \<Rightarrow> 'd val list \<Rightarrow> ('d val \<times> 'd val) option \<Rightarrow>
   ('d, 'x, 'd call_frame \<times> 'd val) outer" where
  "call_frame_for W proc obj name args rec s =
     (let (F, s) = fold (bind_param W) (zip (collect_params proc) args) (new_frame obj name, s);
          (d, s) = return_default (collect_return proc) s;
          (F, s) = bind_implicit rec (bind_procedure_locals proc (bind_return (collect_return proc) d (F, s))) in
      ((F, d), s))"

definition push :: "'d call_frame \<Rightarrow> ('d, 'x) interp \<Rightarrow> ('d, 'x) interp" where
  "push F s = s\<lparr>scopes := snd (push_frame F (scopes s))\<rparr>"

text \<open>A popped frame that is not kept gives its bytes back.\<close>

definition pop :: "('d, 'x) interp \<Rightarrow> 'd call_frame option \<times> ('d, 'x) interp" where
  "pop s = (let (F, S) = pop_frame (scopes s) in (F, s\<lparr>scopes := S\<rparr>))"

definition pop_drop :: "('d, 'x) interp \<Rightarrow> ('d, 'x) interp" where
  "pop_drop s = (let (F, s) = pop s in case F of None \<Rightarrow> s | Some F \<Rightarrow> s\<lparr>held := drop_frame F (held s)\<rparr>)"

definition top_value :: "string \<Rightarrow> ('d, 'x) interp \<Rightarrow> 'd val option" where
  "top_value name s = Option.bind (top_frame (scopes s)) (\<lambda>F. frame_get F name)"

definition collect_writebacks :: "param_decl list \<Rightarrow> ('d, 'x) interp \<Rightarrow> (nat \<times> 'd val) list" where
  "collect_writebacks ps s =
     List.map_filter (\<lambda>(i, p). if is_var p then map_option (\<lambda>v. (i, v)) (top_value (p_name p) s) else None)
       (List.enumerate 0 ps)"

definition fallthrough_value :: "return_decl option \<Rightarrow> 'd val \<Rightarrow> ('d, 'x) interp \<Rightarrow> 'd val" where
  "fallthrough_value r d s =
     (case Option.bind r r_name of None \<Rightarrow> d | Some name \<Rightarrow> unwrap_or (top_value name s) d)"

text \<open>What the caller gets for the outcome of a body.\<close>

definition call_result :: "'d eval \<Rightarrow> 'd val \<Rightarrow> 'd eval" where
  "call_result result fallthrough =
     (case result of
        EExit v \<Rightarrow> (case v of VEmpty \<Rightarrow> ENormal fallthrough | _ \<Rightarrow> ENormal v)
      | ENormal _ \<Rightarrow> ENormal fallthrough
      | EBreak \<Rightarrow> eval_error ''break statement not inside a loop''
      | EContinue \<Rightarrow> eval_error ''continue statement not inside a loop''
      | EError e \<Rightarrow> EError e)"

text \<open>
  The event a publisher raises when it is called: the subscribers get its parameters' values, and the sender when
  the event includes it (the instance whose globals the publisher reads, or the record of table code).  What they
  leave in \<open>var\<close> parameters is stored.
\<close>

definition event_sender :: "string \<Rightarrow> bool \<Rightarrow> string \<Rightarrow> ('d, 'x) interp \<Rightarrow> 'd val option" where
  "event_sender kind includes obj s =
     (if \<not> includes then None
      else if eq_ignore_ascii_case kind ''table'' then
        Option.bind (top_frame (scopes s)) (\<lambda>F. if implicit_record F then frame_get F ''Rec'' else None)
      else Some (VCodeunit obj (object_instance (scopes s) obj)))"

definition published_values :: "param_decl list \<Rightarrow> ('d, 'x) interp \<Rightarrow> 'd val list" where
  "published_values ps s = map (\<lambda>p. unwrap_or (top_value (p_name p) s) VEmpty) ps"

definition store_published :: "param_decl list \<Rightarrow> 'd val list \<Rightarrow> ('d, 'x) interp \<Rightarrow> ('d, 'x) interp" where
  "store_published ps values = fold (\<lambda>(p, v). if is_var p then bind_top (p_name p) v else id) (zip ps values)"

definition raise_published_event ::
  "('d, 'x) callbacks \<Rightarrow> string \<Rightarrow> bool \<Rightarrow> string \<Rightarrow> string \<Rightarrow> param_decl list \<Rightarrow> ('d, 'x, 'd eval option) step" where
  "raise_published_event K kind includes obj name ps =
     andThen (reads (\<lambda>s. (event_sender kind includes obj s, published_values ps s))) (\<lambda>(sender, values).
     andThen (cb_raise K kind obj name [] (map p_name ps) values sender) (\<lambda>r. case r of
       Inl e \<Rightarrow> ret (Some e)
     | Inr values \<Rightarrow> andThen (updates (store_published ps values)) (\<lambda>_. ret None)))"

text \<open>The body between the push of its frame and the pop, and the values read from the frame before it goes.\<close>

definition after_publishing ::
  "('d, 'x) world \<Rightarrow> ('d, 'x) callbacks \<Rightarrow> node \<Rightarrow> string \<Rightarrow> string \<Rightarrow> 'd eval \<Rightarrow> ('d, 'x) run" where
  "after_publishing W K proc obj name result =
     (if is_error result then ret result
      else case w_publication W proc of
        None \<Rightarrow> ret result
      | Some (kind, includes) \<Rightarrow>
          andThen (raise_published_event K kind includes obj name (collect_params proc)) (\<lambda>e. ret (unwrap_or e result)))"

definition run_body ::
  "('d, 'x) world \<Rightarrow> ('d, 'x) callbacks \<Rightarrow> node \<Rightarrow> node \<Rightarrow> string \<Rightarrow> string \<Rightarrow> string \<Rightarrow> 'd val \<Rightarrow>
   ('d, 'x, 'd eval \<times> 'd val) step" where
  "run_body W K proc body path obj name d =
     andThen (does (cov_enter_file path)) (\<lambda>prev.
     andThen (cb_stmt K body) (\<lambda>result.
     andThen (updates (cov_restore_file prev)) (\<lambda>_.
     andThen (after_publishing W K proc obj name result) (\<lambda>result.
     andThen (updates (\<lambda>s. s\<lparr>recursion_depth := recursion_depth s - 1,
                              var_writebacks := collect_writebacks (collect_params proc) s\<rparr>)) (\<lambda>_.
     andThen (reads (fallthrough_value (collect_return proc) d)) (\<lambda>v. ret (result, v)))))))"

definition fresh_globals :: "node \<Rightarrow> string \<Rightarrow> ('d, 'x, 'd call_frame) outer" where
  "fresh_globals obj_node obj s = bind_object_globals obj_node (new_frame obj ''<globals>'', s)"

text \<open>\<open>m\<close> with a frame pushed before and popped after it.\<close>

definition with_frame :: "'d call_frame \<Rightarrow> ('d, 'x, 'a) step \<Rightarrow> ('d, 'x, 'a) step" where
  "with_frame F m =
     andThen (updates (push F)) (\<lambda>_. andThen m (\<lambda>a. andThen (updates pop_drop) (\<lambda>_. ret a)))"

definition run_declaration ::
  "('d, 'x) world \<Rightarrow> ('d, 'x) callbacks \<Rightarrow> node \<Rightarrow> string \<Rightarrow> string \<Rightarrow> string \<Rightarrow> node option \<Rightarrow>
   ('d val \<times> 'd val) option \<Rightarrow> 'd val list \<Rightarrow> ('d, 'x) run" where
  "run_declaration W K proc name path obj globals rec args =
     (let ps = collect_params proc in
      if length args \<noteq> length ps
      then fails (''procedure '' @ quoted name @ '' expects '' @ show_nat (length ps) @ '' argument(s), got '' @ show_nat (length args))
      else (case first_mismatch ps args of
        Some e \<Rightarrow> fails e
      | None \<Rightarrow>
          (case body_of proc of
             None \<Rightarrow> fails (''procedure '' @ quoted name @ '' has no body'')
           | Some body \<Rightarrow>
               andThen (does (call_frame_for W proc obj name args rec)) (\<lambda>(F, d).
               andThen (reads (\<lambda>s. frame_check_held_bytes (''The call to '' @ quoted name) F (held s))) (\<lambda>r.
               case r of
                 Inl e \<Rightarrow> andThen (updates (\<lambda>s. s\<lparr>held := drop_frame F (held s)\<rparr>)) (\<lambda>_. fails e)
               | Inr _ \<Rightarrow>
                   andThen (updates (\<lambda>s. s\<lparr>recursion_depth := recursion_depth s + 1\<rparr>)) (\<lambda>_.
                   andThen (let call = with_frame F (run_body W K proc body path obj name d) in
                            case globals of
                              None \<Rightarrow> call
                            | Some g \<Rightarrow> andThen (does (fresh_globals g obj)) (\<lambda>G. with_frame G call))
                     (\<lambda>(result, v). ret (call_result result v))))))))"

section \<open>The globals of an object\<close>

datatype 'd globals = No_Globals | On_Stack | Fresh | Instance nat "'d call_frame"

definition single_instance :: "node \<Rightarrow> bool" where
  "single_instance obj =
     (case child_by_field_name obj ''body'' of
        None \<Rightarrow> False
      | Some body \<Rightarrow>
          list_ex (\<lambda>c. node_kind c = ''property_assignment'' \<and>
              starts_with (filter (\<lambda>ch. \<not> is_whitespace ch) (to_ascii_lowercase (node_text c))) ''singleinstance=true'')
            (named_children body))"

text \<open>The instance of a \<open>SingleInstance\<close> codeunit, made on its first use.\<close>

definition single_instance_id :: "string \<Rightarrow> ('d, 'x, nat) outer" where
  "single_instance_id obj s =
     (let key = to_ascii_lowercase obj in
      case map_of (single_instances s) key of
        Some inst_id \<Rightarrow> (inst_id, s)
      | None \<Rightarrow>
          let inst_id = next_codeunit_instance s + 1 in
          (inst_id, s\<lparr>next_codeunit_instance := inst_id, single_instances := AList.update key inst_id (single_instances s)\<rparr>))"

definition stored_globals :: "node \<Rightarrow> string \<Rightarrow> nat \<Rightarrow> ('d, 'x, 'd globals) outer" where
  "stored_globals obj_node obj inst_id s =
     (case map_of (codeunit_instances s) inst_id of
        Some F \<Rightarrow> (Instance inst_id F, s\<lparr>codeunit_instances := AList.delete inst_id (codeunit_instances s)\<rparr>)
      | None \<Rightarrow> let (F, s) = fresh_globals obj_node obj s in (Instance inst_id F, s))"

definition globals_for_call :: "node \<Rightarrow> string \<Rightarrow> nat option \<Rightarrow> bool \<Rightarrow> ('d, 'x, 'd globals) outer" where
  "globals_for_call obj_node obj inst subscriber s =
     (if \<not> object_has_global_declarations obj_node then (No_Globals, s)
      else
        let (inst, s) = (if single_instance obj_node
                         then (let (inst_id, s) = single_instance_id obj s in (Some inst_id, s)) else (inst, s)) in
        case inst of
          Some inst_id \<Rightarrow> if inst_id \<in> set (active_instances s) then (On_Stack, s) else stored_globals obj_node obj inst_id s
        | None \<Rightarrow>
            if \<not> subscriber \<and> has_object_globals (scopes s) obj then (On_Stack, s) else (Fresh, s))"

definition activate :: "nat \<Rightarrow> ('d, 'x) interp \<Rightarrow> ('d, 'x) interp" where
  "activate inst_id s = s\<lparr>active_instances := List.insert inst_id (active_instances s)\<rparr>"

definition deactivate :: "nat \<Rightarrow> ('d, 'x) interp \<Rightarrow> ('d, 'x) interp" where
  "deactivate inst_id s = s\<lparr>active_instances := removeAll inst_id (active_instances s)\<rparr>"

text \<open>A call on a new instance: its globals go when the call returns.\<close>

definition on_fresh_instance :: "node \<Rightarrow> string \<Rightarrow> ('d, 'x) run \<Rightarrow> ('d, 'x) run" where
  "on_fresh_instance obj_node obj call =
     andThen (does (\<lambda>s. (next_codeunit_instance s + 1, s\<lparr>next_codeunit_instance := next_codeunit_instance s + 1\<rparr>))) (\<lambda>inst_id.
     andThen (does (fresh_globals obj_node obj)) (\<lambda>F.
     with_frame (F\<lparr>frame_instance := Some inst_id\<rparr>)
       (andThen (updates (activate inst_id)) (\<lambda>_. andThen call (\<lambda>r. andThen (updates (deactivate inst_id)) (\<lambda>_. ret r))))))"

text \<open>A call on a kept instance: its globals are put away for its next call.\<close>

definition keep_instance :: "nat \<Rightarrow> ('d, 'x) interp \<Rightarrow> ('d, 'x) interp" where
  "keep_instance inst_id s =
     (let (F, s) = pop s in
      case F of None \<Rightarrow> s | Some F \<Rightarrow> s\<lparr>codeunit_instances := AList.update inst_id F (codeunit_instances s)\<rparr>)"

definition on_kept_instance :: "nat \<Rightarrow> 'd call_frame \<Rightarrow> ('d, 'x) run \<Rightarrow> ('d, 'x) run" where
  "on_kept_instance inst_id F call =
     andThen (updates (activate inst_id \<circ> push (F\<lparr>frame_instance := Some inst_id\<rparr>))) (\<lambda>_.
     andThen call (\<lambda>r.
     andThen (updates (keep_instance inst_id \<circ> deactivate inst_id)) (\<lambda>_. ret r)))"

definition on_globals :: "node \<Rightarrow> string \<Rightarrow> 'd globals \<Rightarrow> ('d, 'x) run \<Rightarrow> ('d, 'x) run" where
  "on_globals obj_node obj g call =
     (case g of
        No_Globals \<Rightarrow> call
      | On_Stack \<Rightarrow> call
      | Fresh \<Rightarrow> on_fresh_instance obj_node obj call
      | Instance inst_id F \<Rightarrow> on_kept_instance inst_id F call)"


section \<open>Finding the procedure\<close>

definition call_depth_error :: "string \<Rightarrow> string" where
  "call_depth_error name =
     ''call depth of '' @ show_nat MAX_RECURSION_DEPTH @ '' exceeded at '' @ quoted name @
     ''. This is a limit of the local test runner, not of Business Central: re-run this test on live BC if the recursion is genuine.''"

definition not_found :: "string option \<Rightarrow> string \<Rightarrow> string" where
  "not_found receiver name =
     ''procedure not found: '' @ (case receiver of None \<Rightarrow> [] | Some r \<Rightarrow> r @ ''.'') @ name"

text \<open>The file, the object's node and the object's name for a call on \<open>target\<close>.\<close>

definition find_object :: "('d, 'x) world \<Rightarrow> string \<Rightarrow> string + string \<times> node \<times> string" where
  "find_object W target =
     (case or_else (w_find_kind W target [''codeunit'']) (w_find_name W target) of
        None \<Rightarrow> Err (''object '' @ quoted target @ '' not found in workspace'')
      | Some path \<Rightarrow>
          (case w_parse_file W path of
             None \<Rightarrow> Err (''object source '' @ quoted path @ '' has no coherent cached parse'')
           | Some tree \<Rightarrow>
               let obj_node = unwrap_or (object_declaration_named tree target) tree in
               (case or_else (declared_object_name obj_node) (w_object_name W path) of
                  None \<Rightarrow> Err (''object source '' @ quoted path @ '' has no indexed object identity'')
                | Some obj \<Rightarrow> Ok (path, obj_node, obj))))"

definition call_target :: "string option \<Rightarrow> ('d, 'x) interp \<Rightarrow> string option" where
  "call_target receiver s = or_else receiver (map_option frame_object (top_frame (scopes s)))"

text \<open>The declaration a call runs.\<close>

definition resolve_procedure ::
  "('d, 'x) world \<Rightarrow> string option \<Rightarrow> string \<Rightarrow> 'd val list \<Rightarrow> ('d, 'x) interp \<Rightarrow> string + string \<times> node \<times> string \<times> node" where
  "resolve_procedure W receiver name args s =
     (if recursion_depth s \<ge> MAX_RECURSION_DEPTH then Err (call_depth_error name)
      else case call_target receiver s of
        None \<Rightarrow> Err (''procedure not found: workspace call '' @ quoted name @ '' has no current object context'')
      | Some target \<Rightarrow>
          bind_res (find_object W target) (\<lambda>(path, obj_node, obj).
            let candidates = procedure_candidates obj_node name in
            if candidates = [] then Err (not_found receiver name)
            else bind_res (choose_overload s candidates name args) (\<lambda>proc. Ok (path, obj_node, obj, proc))))"

definition dispatch_workspace_procedure ::
  "('d, 'x) world \<Rightarrow> ('d, 'x) callbacks \<Rightarrow> string option \<Rightarrow> string \<Rightarrow> 'd val list \<Rightarrow> ('d, 'x) run" where
  "dispatch_workspace_procedure W K receiver name args =
     andThen (does (\<lambda>s. ((pending_instance s, pending_subscriber s),
       s\<lparr>pending_instance := None, pending_subscriber := False\<rparr>))) (\<lambda>(inst, subscriber).
     andThen (reads (resolve_procedure W receiver name args)) (\<lambda>r. case r of
       Inl e \<Rightarrow> fails e
     | Inr (path, obj_node, obj, proc) \<Rightarrow>
         andThen (does (globals_for_call obj_node obj inst subscriber)) (\<lambda>g.
           on_globals obj_node obj g (run_declaration W K proc name path obj None None args))))"


section \<open>Built-in procedures\<close>

text \<open>
  The built-in functions of values only.  \<open>now\<close> is the next reading of the clock; the functions of
  \<open>clock_builtins\<close>, which may look at it, take it.
\<close>

definition clock_builtins :: "string list" where
  "clock_builtins = [''currentdatetime'', ''today'', ''time'', ''calcdate'', ''dmy2date'']"

definition pure_builtin :: "('d, 'x) world \<Rightarrow> ('d, 'x) interp \<Rightarrow> string \<Rightarrow> 'd val list \<Rightarrow> (string + 'd val) option" where
  "pure_builtin W s name args =
     (let E = shared s; D = dec E; now = fst (read_clock W s) in
      map_of
       [(''strsubstno'', builtin_strsubstno E args), (''format'', builtin_format E (w_round W) args),
        (''strlen'', builtin_strlen args), (''copystr'', builtin_copystr args),
        (''lowercase'', builtin_lowercase args), (''uppercase'', builtin_uppercase args),
        (''indexof'', builtin_indexof args), (''maxstrlen'', builtin_maxstrlen args),
        (''createdatetime'', builtin_createdatetime args),
        (''currentdatetime'', Ok (VDateTime (clock_current_datetime now))),
        (''today'', Ok (VDate (clock_today now))), (''time'', Ok (VTime (clock_time now))),
        (''abs'', builtin_abs D args), (''round'', builtin_round D (w_dec_new W) (w_round_whole W) args),
        (''power'', builtin_power D (w_powd W) args), (''strpos'', builtin_strpos args),
        (''delchr'', builtin_delchr args), (''convertstr'', builtin_convertstr args),
        (''padstr'', builtin_padstr args), (''selectstr'', builtin_selectstr args),
        (''incstr'', builtin_incstr args), (''date2dmy'', builtin_date2dmy args),
        (''date2dwy'', builtin_date2dwy args), (''calcdate'', builtin_calcdate args now),
        (''delstr'', builtin_delstr args), (''maximum'', builtin_extreme D args True),
        (''minimum'', builtin_extreme D args False), (''arraylen'', builtin_arraylen args),
        (''dmy2date'', builtin_dmy2date args (work_date s) now), (''dt2date'', builtin_dt2date args),
        (''dt2time'', builtin_dt2time args)] name)"

definition message_text :: "'d env \<Rightarrow> 'd val list \<Rightarrow> string" where
  "message_text E args =
     (case args of
        [] \<Rightarrow> []
      | VText s # _ \<Rightarrow> s
      | VCode s # _ \<Rightarrow> s
      | v # _ \<Rightarrow> render_value E v)"

definition builtin_error :: "'d env \<Rightarrow> 'd val list \<Rightarrow> 'd eval" where
  "builtin_error E args =
     (if args = [] then eval_error ''Error() called with no arguments''
      else eval_error (if length args > 1
                       then (case substitute_placeholders E (message_text E args) (tl args) of Inl e \<Rightarrow> e | Inr m \<Rightarrow> m)
                       else message_text E args))"

definition formatted_dialog_text :: "'d env \<Rightarrow> 'd val list \<Rightarrow> string + string" where
  "formatted_dialog_text E args =
     (if length args > 1 then substitute_placeholders E (message_text E args) (tl args) else Ok (message_text E args))"

text \<open>\<open>Clear\<close>: the default of the value's type; a record gets a new view, a list new contents.\<close>

fun cleared :: "('d, 'x) world \<Rightarrow> 'd val \<Rightarrow> ('d, 'x, string + 'd val) outer"
  and cleared_all :: "('d, 'x) world \<Rightarrow> 'd val list \<Rightarrow> ('d, 'x, string + 'd val list) outer" where
  "cleared W v s =
     (case v of
        VInteger _ \<Rightarrow> (Ok (VInteger 0), s)
      | VBigInteger _ \<Rightarrow> (Ok (VBigInteger 0), s)
      | VDecimal _ \<Rightarrow> (Ok (VDecimal (dec_zero (dec (shared s)))), s)
      | VBoolean _ \<Rightarrow> (Ok (VBoolean False), s)
      | VChar _ \<Rightarrow> (Ok (VChar (CHR 0x00)), s)
      | VText _ \<Rightarrow> (Ok (VText []), s)
      | VCode _ \<Rightarrow> (Ok (VCode []), s)
      | VTextBuilder _ \<Rightarrow> (let (d, s) = fresh_default ''textbuilder'' s in (Ok (unwrap_or d VNull), s))
      | VDate _ \<Rightarrow> (Ok (VDate 0), s)
      | VTime _ \<Rightarrow> (Ok (VTime 0), s)
      | VDateTime _ \<Rightarrow> (Ok (VDateTime 0), s)
      | VDuration _ \<Rightarrow> (Ok (VDuration 0), s)
      | VGuid _ \<Rightarrow> (let (d, s) = fresh_default ''guid'' s in (Ok (unwrap_or d VNull), s))
      | VOption name _ _ \<Rightarrow> (Ok (VOption name [] 0), s)
      | VJson kind _ \<Rightarrow> (Ok (VJson kind (Some (next_address s))), s\<lparr>next_address := next_address s + 1\<rparr>)
      | VRecord r \<Rightarrow>
          (Ok (VRecord (r\<lparr>rv_handle := None\<rparr>)), case rv_handle r of None \<Rightarrow> s | Some h \<Rightarrow> w_forget_record W h s)
      | VCodeunit name _ \<Rightarrow> (Ok (VCodeunit name None), s)
      | VVariant _ \<Rightarrow> (Ok (VVariant VNull), s)
      | VList _ member _ \<Rightarrow> (let (v, s) = alloc_list [] member s in (Ok v, s))
      | VDict _ key value \<Rightarrow> (let (v, s) = alloc_dict key value s in (Ok v, s))
      | VBlob _ \<Rightarrow> (Ok (VBlob []), s)
      | VArray items \<Rightarrow> (let (r, s) = cleared_all W items s in (map_sum id VArray r, s))
      | VNull \<Rightarrow> (Ok v, s)
      | VEmpty \<Rightarrow> (Ok v, s)
      | other \<Rightarrow> (Err (''Clear: the local runtime does not clear a '' @ type_name other @ '' value''), s))"
| "cleared_all W [] s = (Ok [], s)"
| "cleared_all W (v # vs) s =
     (let (r, s) = cleared W v s in
      case r of
        Inl e \<Rightarrow> (Err e, s)
      | Inr v' \<Rightarrow> let (r, s) = cleared_all W vs s in (map_sum id (\<lambda>vs'. v' # vs') r, s))"

end
