(* ===== verification/Events.thy ===== *)
theory Events
  imports Dispatch
begin

text \<open>
  Raising an event (\<^verbatim>\<open>dispatch/events.rs\<close>): every subscriber of the event is called, in the order of the index, with
  the publisher's values of the parameters it declares; what it leaves in \<open>var\<close> parameters goes to the next one.
\<close>

fun position_where :: "('a \<Rightarrow> bool) \<Rightarrow> 'a list \<Rightarrow> nat option" where
  "position_where P [] = None"
| "position_where P (x # xs) = (if P x then Some 0 else map_option Suc (position_where P xs))"

text \<open>The position of each parameter among the published names, \<^const>\<open>None\<close> for the sender.\<close>

fun subscriber_positions :: "string list \<Rightarrow> bool \<Rightarrow> string list \<Rightarrow> string + nat option list" where
  "subscriber_positions names has_sender [] = Ok []"
| "subscriber_positions names has_sender (p # ps) =
     (case position_where (\<lambda>name. eq_ignore_ascii_case name p) names of
        Some i \<Rightarrow> map_sum id (Cons (Some i)) (subscriber_positions names has_sender ps)
      | None \<Rightarrow>
          if p = ''sender'' \<and> has_sender then map_sum id (Cons None) (subscriber_positions names has_sender ps)
          else Err p)"

definition subscriber_args :: "'d val list \<Rightarrow> 'd val option \<Rightarrow> nat option list \<Rightarrow> 'd val list" where
  "subscriber_args values sender positions =
     map (\<lambda>p. case p of Some i \<Rightarrow> values ! i | None \<Rightarrow> unwrap_or sender VNull) positions"

text \<open>The final values of a subscriber's \<open>var\<close> parameters go back to the publisher's values.\<close>

definition take_back :: "nat option list \<Rightarrow> (nat \<times> 'd val) list \<Rightarrow> 'd val list \<Rightarrow> 'd val list" where
  "take_back positions =
     fold (\<lambda>(j, v) values. case nth_opt positions j of Some (Some i) \<Rightarrow> values[i := v] | _ \<Rightarrow> values)"

definition not_published :: "subscriber \<Rightarrow> string \<Rightarrow> string \<Rightarrow> string" where
  "not_published sub p event =
     ''subscriber '' @ sub_object sub @ ''.'' @ sub_procedure sub @ '' declares parameter '' @ quoted p @
     '', which event '' @ event @ '' does not publish''"

fun raise_to ::
  "('d, 'x) world \<Rightarrow> ('d, 'x) callbacks \<Rightarrow> string \<Rightarrow> string list \<Rightarrow> 'd val option \<Rightarrow> subscriber list \<Rightarrow> 'd val list \<Rightarrow>
   ('d, 'x, 'd eval + 'd val list) step" where
  "raise_to W K event names sender [] values = ret (Inr values)"
| "raise_to W K event names sender (sub # subs) values =
     (case subscriber_positions names (sender \<noteq> None) (sub_params sub) of
        Inl p \<Rightarrow> ret (Inl (eval_error (not_published sub p event)))
      | Inr positions \<Rightarrow>
          andThen (updates (\<lambda>s. s\<lparr>pending_subscriber := True\<rparr>)) (\<lambda>_.
          andThen (dispatch_workspace_procedure W K (Some (sub_object sub)) (sub_procedure sub)
                     (subscriber_args values sender positions)) (\<lambda>r. case r of
            ENormal _ \<Rightarrow>
              andThen (does (\<lambda>s. (var_writebacks s, s\<lparr>var_writebacks := []\<rparr>))) (\<lambda>wbs.
                raise_to W K event names sender subs (take_back positions wbs values))
          | other \<Rightarrow> ret (Inl other))))"

definition raise_event ::
  "('d, 'x) world \<Rightarrow> ('d, 'x) callbacks \<Rightarrow> string \<Rightarrow> string \<Rightarrow> string \<Rightarrow> string \<Rightarrow> string list \<Rightarrow> 'd val list \<Rightarrow>
   'd val option \<Rightarrow> ('d, 'x, 'd eval + 'd val list) step" where
  "raise_event W K publisher_kind publisher event element names values sender =
     raise_to W K event names sender
       (w_subscribers W (to_ascii_lowercase publisher_kind) (to_ascii_lowercase (unquote_identifier publisher))
          (to_ascii_lowercase event) (to_ascii_lowercase element)) values"

end
