(* ===== verification/Table_Code.thy ===== *)
theory Table_Code
  imports Dispatch Table_Lookup
begin

text \<open>
  Running a table's code (\<^verbatim>\<open>dispatch/table_code.rs\<close>) on a record that becomes the implicit \<open>Rec\<close> of its frame.  The
  table's globals belong to the record variable's view: they are put on the stack for the call and kept for the
  next one; when they are on the stack already, they move to the top for the call.
\<close>

section \<open>The declaration\<close>

definition table_code_name :: "table_code \<Rightarrow> string" where
  "table_code_name code = (case code of Table_Procedure n \<Rightarrow> n | Table_Trigger n \<Rightarrow> n | Field_Trigger _ n \<Rightarrow> n)"

definition code_declaration ::
  "('d, 'x) world \<Rightarrow> node \<Rightarrow> table_code \<Rightarrow> 'd val list \<Rightarrow> ('d, 'x) interp \<Rightarrow> (string + node) option" where
  "code_declaration W obj code args s =
     (case code of
        Table_Procedure name \<Rightarrow>
          Option.bind (child_by_field_name obj ''body'') (\<lambda>body.
            let candidates = named_child_declarations body ''procedure_declaration'' name in
            if candidates = [] then None else Some (choose_overload s candidates name args))
      | _ \<Rightarrow> map_option Ok (find_code W obj code))"

definition table_depth_error :: "string \<Rightarrow> string" where
  "table_depth_error table =
     ''call depth of '' @ show_nat MAX_RECURSION_DEPTH @ '' exceeded in table '' @ quoted table"


section \<open>The globals of a record\<close>

definition take_record_globals :: "nat \<Rightarrow> node \<Rightarrow> string \<Rightarrow> ('d, 'x, 'd call_frame) outer" where
  "take_record_globals handle obj_node obj s =
     (case map_of (record_globals s) handle of
        Some F \<Rightarrow> (F, s\<lparr>record_globals := AList.delete handle (record_globals s)\<rparr>)
      | None \<Rightarrow> fresh_globals obj_node obj s)"

definition enter_record_globals :: "nat \<Rightarrow> 'd call_frame \<Rightarrow> ('d, 'x) interp \<Rightarrow> ('d, 'x) interp" where
  "enter_record_globals handle F s =
     (push F s)\<lparr>active_record_globals := AList.update handle (length (frames (scopes s))) (active_record_globals s)\<rparr>"

definition keep_record_globals :: "nat \<Rightarrow> ('d, 'x) interp \<Rightarrow> ('d, 'x) interp" where
  "keep_record_globals handle s =
     (let s = s\<lparr>active_record_globals := AList.delete handle (active_record_globals s)\<rparr>; (F, s) = pop s in
      case F of None \<Rightarrow> s | Some F \<Rightarrow> s\<lparr>record_globals := AList.update handle F (record_globals s)\<rparr>)"

text \<open>A frame of the stack changed in place by another.\<close>

definition put_frame :: "nat \<Rightarrow> 'd call_frame \<Rightarrow> ('d, 'x) interp \<Rightarrow> ('d, 'x) interp" where
  "put_frame i F s = s\<lparr>scopes := (scopes s)\<lparr>frames := (frames (scopes s))[i := F]\<rparr>\<rparr>"

definition lift_frame :: "nat \<Rightarrow> ('d, 'x) interp \<Rightarrow> ('d, 'x) interp" where
  "lift_frame i s =
     (let F = frames (scopes s) ! i in
      push F (put_frame i (new_frame (frame_object F) ''<globals moved to the top>'') s))"

definition lower_frame :: "nat \<Rightarrow> ('d, 'x) interp \<Rightarrow> ('d, 'x) interp" where
  "lower_frame i s =
     (let (F, s) = pop s in
      case (F, nth_opt (frames (scopes s)) i) of
        (Some F, Some holder) \<Rightarrow> put_frame i F (s\<lparr>held := drop_frame holder (held s)\<rparr>)
      | (Some F, None) \<Rightarrow> s\<lparr>held := drop_frame F (held s)\<rparr>
      | (None, _) \<Rightarrow> s)"

definition set_active :: "nat \<Rightarrow> nat \<Rightarrow> ('d, 'x) interp \<Rightarrow> ('d, 'x) interp" where
  "set_active handle i s = s\<lparr>active_record_globals := AList.update handle i (active_record_globals s)\<rparr>"

definition run_on_active_globals :: "nat \<Rightarrow> nat \<Rightarrow> ('d, 'x) run \<Rightarrow> ('d, 'x) run" where
  "run_on_active_globals handle i call =
     andThen (reads (\<lambda>s. i < length (frames (scopes s)))) (\<lambda>on_stack.
       if \<not> on_stack then call
       else
         andThen (updates (\<lambda>s. set_active handle (length (frames (scopes s))) (lift_frame i s))) (\<lambda>_.
         andThen call (\<lambda>r.
         andThen (updates (lower_frame i \<circ> set_active handle i)) (\<lambda>_. ret r))))"

definition on_record_globals ::
  "nat option \<Rightarrow> node \<Rightarrow> string \<Rightarrow> (node option \<Rightarrow> ('d, 'x) run) \<Rightarrow> ('d, 'x) run" where
  "on_record_globals handle obj_node obj call =
     (if \<not> object_has_global_declarations obj_node then call None
      else case handle of
        None \<Rightarrow> call (Some obj_node)
      | Some h \<Rightarrow>
          andThen (reads (\<lambda>s. map_of (active_record_globals s) h)) (\<lambda>active. case active of
            Some i \<Rightarrow> run_on_active_globals h i (call None)
          | None \<Rightarrow>
              andThen (does (take_record_globals h obj_node obj)) (\<lambda>F.
              andThen (updates (enter_record_globals h F)) (\<lambda>_.
              andThen (call None) (\<lambda>r.
              andThen (updates (keep_record_globals h)) (\<lambda>_. ret r))))))"


section \<open>The call\<close>

definition run_table_code ::
  "('d, 'x) world \<Rightarrow> ('d, 'x) callbacks \<Rightarrow> 'd val \<Rightarrow> 'd val \<Rightarrow> table_code \<Rightarrow> 'd val list \<Rightarrow>
   ('d, 'x, 'd eval option) step" where
  "run_table_code W K rec x_rec code args =
     (case rec of
        VRecord r \<Rightarrow>
          (case table_source W (rv_table_name r) of
             None \<Rightarrow> ret None
           | Some (path, obj_node) \<Rightarrow>
               andThen (reads (\<lambda>s. (code_declaration W obj_node code args s, recursion_depth s \<ge> MAX_RECURSION_DEPTH)))
                 (\<lambda>(declaration, too_deep). case declaration of
                    None \<Rightarrow> ret None
                  | Some (Inl e) \<Rightarrow> ret (Some (eval_error e))
                  | Some (Inr proc) \<Rightarrow>
                      if too_deep then ret (Some (eval_error (table_depth_error (rv_table_name r))))
                      else
                        let obj = unwrap_or (object_name_of obj_node) (rv_table_name r) in
                        andThen (on_record_globals (rv_handle r) obj_node obj (\<lambda>globals.
                                   run_declaration W K proc (table_code_name code) path obj globals (Some (rec, x_rec)) args))
                          (\<lambda>result. ret (Some result))))
      | _ \<Rightarrow> ret None)"

text \<open>
  A call that is a table procedure: on a record variable or, in table code, bare.  \<^const>\<open>Inr\<close> gives the arguments
  back when it is neither.
\<close>

definition table_receiver :: "string option \<Rightarrow> ('d, 'x) interp \<Rightarrow> string option" where
  "table_receiver receiver s =
     (case receiver of
        Some r \<Rightarrow> Some r
      | None \<Rightarrow>
          (case top_frame (scopes s) of
             Some F \<Rightarrow> if implicit_record F then Some ''Rec'' else None
           | None \<Rightarrow> None))"

definition table_procedure_on ::
  "('d, 'x) world \<Rightarrow> string option \<Rightarrow> string \<Rightarrow> ('d, 'x) interp \<Rightarrow> string option" where
  "table_procedure_on W receiver name s =
     Option.bind (table_receiver receiver s) (\<lambda>v.
       case lookup v s of
         Some (VRecord r) \<Rightarrow> if table_declares W (rv_table_name r) (Table_Procedure name) then Some v else None
       | _ \<Rightarrow> None)"

definition dispatch_table_procedure ::
  "('d, 'x) world \<Rightarrow> ('d, 'x) callbacks \<Rightarrow> string option \<Rightarrow> string \<Rightarrow> 'd val list \<Rightarrow> ('d, 'x, 'd eval + 'd val list) step" where
  "dispatch_table_procedure W K receiver name args =
     andThen (reads (table_procedure_on W receiver name)) (\<lambda>variable. case variable of
       None \<Rightarrow> ret (Inr args)
     | Some v \<Rightarrow>
         andThen (does (w_record_binding W v)) (\<lambda>b. case b of
           None \<Rightarrow> ret (Inr args)
         | Some _ \<Rightarrow>
             andThen (reads (\<lambda>s. let rec = unwrap_or (lookup v s) VNull in
                (rec, case receiver of None \<Rightarrow> unwrap_or (lookup ''xRec'' s) rec | Some _ \<Rightarrow> rec))) (\<lambda>(rec, x_rec).
             andThen (run_table_code W K rec x_rec (Table_Procedure name) args) (\<lambda>r. case r of
               Some result \<Rightarrow> ret (Inl result)
             | None \<Rightarrow> ret (Inr [])))))"

end
