(* ===== verification/Routing.thy ===== *)
theory Routing
  imports Events Table_Code Chains
begin

text \<open>
  The order in which a call tries the test libraries, the built-in functions, the procedures of tables and the
  procedures of the workspace (\<^verbatim>\<open>dispatch/routing.rs\<close>), and the routing of a call on a variable by the kind of its
  value (\<open>eval_call_parts\<close> of \<^verbatim>\<open>eval_stmt.rs\<close>).
\<close>

section \<open>Built-in functions with an effect\<close>

type_synonym ('d, 'x) call_proc = "string option \<Rightarrow> string \<Rightarrow> 'd val list \<Rightarrow> ('d, 'x) run"

definition clear_writebacks :: "('d, 'x, unit) step" where
  "clear_writebacks = updates (\<lambda>s. s\<lparr>var_writebacks := []\<rparr>)"

definition set_writeback :: "nat \<Rightarrow> 'd val \<Rightarrow> ('d, 'x, unit) step" where
  "set_writeback i v = updates (\<lambda>s. s\<lparr>var_writebacks := [(i, v)]\<rparr>)"

text \<open>The call of a handler, and the write-backs cleared after it.\<close>

definition no_handler :: "string \<Rightarrow> string \<Rightarrow> string" where
  "no_handler name attribute = name @ '' requires a configured ['' @ attribute @ ''] in the local test runtime''"

definition with_handler ::
  "('d, 'x) world \<Rightarrow> string \<Rightarrow> string \<Rightarrow> (string \<times> string \<Rightarrow> ('d, 'x) run) \<Rightarrow> ('d, 'x) run" where
  "with_handler W name attribute f =
     (case w_handler W (to_ascii_lowercase name) of None \<Rightarrow> fails (no_handler name attribute) | Some h \<Rightarrow> f h)"

definition call_handler :: "('d, 'x) call_proc \<Rightarrow> string \<times> string \<Rightarrow> 'd val list \<Rightarrow> ('d, 'x) run" where
  "call_handler proc h args =
     andThen (proc (Some (fst h)) (snd h) args) (\<lambda>r. andThen clear_writebacks (\<lambda>_. ret r))"

text \<open>A handler with a reply: the value its second parameter, the one with index 1, was left with.\<close>

definition handler_reply :: "('d val \<Rightarrow> 'd val option) \<Rightarrow> 'd val \<Rightarrow> ('d, 'x) interp \<Rightarrow> 'd val" where
  "handler_reply accepts otherwise s =
     unwrap_or (Option.bind (map_option snd (List.find (\<lambda>(i, _). i = 1) (var_writebacks s))) accepts) otherwise"

definition ask_handler ::
  "('d, 'x) call_proc \<Rightarrow> ('d val \<Rightarrow> 'd val option) \<Rightarrow> 'd val \<Rightarrow> string \<times> string \<Rightarrow> 'd val list \<Rightarrow> ('d, 'x) run" where
  "ask_handler proc accepts otherwise h args =
     andThen (proc (Some (fst h)) (snd h) args) (\<lambda>r.
       if is_error r then ret r
       else andThen (reads (handler_reply accepts otherwise)) (\<lambda>v.
            andThen clear_writebacks (\<lambda>_. done_with v)))"

definition a_boolean :: "'d val \<Rightarrow> 'd val option" where
  "a_boolean v = (case v of VBoolean _ \<Rightarrow> Some v | _ \<Rightarrow> None)"

definition an_integer :: "'d val \<Rightarrow> 'd val option" where
  "an_integer v = (case v of VInteger _ \<Rightarrow> Some v | _ \<Rightarrow> None)"

definition dialog_text :: "'d val list \<Rightarrow> (string \<Rightarrow> ('d, 'x) run) \<Rightarrow> ('d, 'x) run" where
  "dialog_text args f =
     andThen (reads (\<lambda>s. formatted_dialog_text (shared s) args)) (\<lambda>r.
       case r of Inl e \<Rightarrow> fails e | Inr t \<Rightarrow> f t)"

definition builtin_message :: "('d, 'x) world \<Rightarrow> ('d, 'x) call_proc \<Rightarrow> 'd val list \<Rightarrow> ('d, 'x) run" where
  "builtin_message W proc args =
     with_handler W ''Message'' ''MessageHandler'' (\<lambda>h.
       if args = [] then fails ''Message requires a message argument''
       else dialog_text args (\<lambda>t. call_handler proc h [VText t]))"

definition builtin_confirm :: "('d, 'x) world \<Rightarrow> ('d, 'x) call_proc \<Rightarrow> 'd val list \<Rightarrow> ('d, 'x) run" where
  "builtin_confirm W proc args =
     with_handler W ''Confirm'' ''ConfirmHandler'' (\<lambda>h.
       if args = [] then fails ''Confirm requires a question argument''
       else dialog_text args (\<lambda>t. ask_handler proc a_boolean (VBoolean False) h [VText t, VBoolean False]))"

definition rendered_arg :: "'d env \<Rightarrow> 'd val list \<Rightarrow> nat \<Rightarrow> string" where
  "rendered_arg E args i = (case nth_opt args i of None \<Rightarrow> [] | Some v \<Rightarrow> render_value E v)"

definition builtin_strmenu :: "('d, 'x) world \<Rightarrow> ('d, 'x) call_proc \<Rightarrow> 'd val list \<Rightarrow> ('d, 'x) run" where
  "builtin_strmenu W proc args =
     (if args = [] then fails ''StrMenu requires a menu-options argument''
      else
        let otherwise = unwrap_or (Option.bind (nth_opt args 1) an_integer) (VInteger 0) in
        with_handler W ''StrMenu'' ''StrMenuHandler'' (\<lambda>h.
          andThen (reads (\<lambda>s. (rendered_arg (shared s) args 0, rendered_arg (shared s) args 2))) (\<lambda>(options, instruction).
            ask_handler proc an_integer otherwise h [VText options, otherwise, VText instruction])))"

definition builtin_hyperlink :: "('d, 'x) world \<Rightarrow> ('d, 'x) call_proc \<Rightarrow> 'd val list \<Rightarrow> ('d, 'x) run" where
  "builtin_hyperlink W proc args =
     with_handler W ''Hyperlink'' ''HyperlinkHandler'' (\<lambda>h.
       if args = [] then fails ''Hyperlink requires a link argument''
       else andThen (reads (\<lambda>s. rendered_arg (shared s) args 0)) (\<lambda>link. call_handler proc h [VText link]))"

definition builtin_isnullguid :: "'d val list \<Rightarrow> 'd eval" where
  "builtin_isnullguid args =
     (case args of
        [VGuid g] \<Rightarrow> ENormal (VBoolean (list_all (\<lambda>c. c \<in> set ''0-{}'') g))
      | _ \<Rightarrow> eval_error ''IsNullGuid expects a Guid'')"

text \<open>A failed \<open>Evaluate\<close> raises an error as a statement and is \<^const>\<open>False\<close> as an expression.\<close>

definition text_of :: "'d val \<Rightarrow> string" where
  "text_of v = (case v of VText t \<Rightarrow> t | VCode t \<Rightarrow> t | _ \<Rightarrow> [])"

definition evaluate_call :: "bool \<Rightarrow> 'd val list \<Rightarrow> ('d, 'x) run" where
  "evaluate_call statement args =
     andThen (reads (\<lambda>s. builtin_evaluate (dec (shared s)) args)) (\<lambda>r. case r of
       Inl e \<Rightarrow> fails e
     | Inr (ok, v) \<Rightarrow>
         (case (ok, v) of
            (True, Some v) \<Rightarrow> andThen (set_writeback 0 v) (\<lambda>_. done_with (VBoolean True))
          | _ \<Rightarrow>
              if statement
              then fails (''Evaluate: '' @ quoted (text_of (args ! 1)) @ '' is not a valid '' @ type_name (args ! 0))
              else done_with (VBoolean False)))"

definition clear_call :: "('d, 'x) world \<Rightarrow> 'd val list \<Rightarrow> ('d, 'x) run" where
  "clear_call W args =
     (case args of
        [v] \<Rightarrow>
          andThen (does (cleared W v)) (\<lambda>r. case r of
            Inl e \<Rightarrow> fails e
          | Inr v' \<Rightarrow> andThen (updates (\<lambda>s. s\<lparr>var_writebacks := var_writebacks s @ [(0, v')]\<rparr>)) (\<lambda>_. done_with VEmpty))
      | _ \<Rightarrow> fails ''Clear expects one variable'')"

definition get_last_error_text :: "'d val list \<Rightarrow> ('d, 'x) run" where
  "get_last_error_text args =
     (if args \<noteq> [] then fails ''GetLastErrorText expects no arguments''
      else andThen (reads (\<lambda>s. case last_error s of None \<Rightarrow> [] | Some e \<Rightarrow> ei_message e)) (\<lambda>t. done_with (VText t)))"

definition clear_last_error :: "'d val list \<Rightarrow> ('d, 'x) run" where
  "clear_last_error args =
     (if args \<noteq> [] then fails ''ClearLastError expects no arguments''
      else andThen (updates (\<lambda>s. s\<lparr>last_error := None\<rparr>)) (\<lambda>_. done_with VEmpty))"

definition workdate_call :: "('d, 'x) world \<Rightarrow> 'd val list \<Rightarrow> ('d, 'x) run" where
  "workdate_call W args =
     does (\<lambda>s. let (now, s) = read_clock W s; (r, d) = builtin_workdate args (work_date s) now in
       (of_result r, s\<lparr>work_date := d\<rparr>))"

definition random_call :: "('d val list \<Rightarrow> 64 word \<Rightarrow> (string + 'd val) \<times> 64 word) \<Rightarrow> 'd val list \<Rightarrow> ('d, 'x) run" where
  "random_call f args = does (\<lambda>s. let (r, st) = f args (random_state s) in (of_result r, s\<lparr>random_state := st\<rparr>))"

definition effect_builtin ::
  "('d, 'x) world \<Rightarrow> ('d, 'x) call_proc \<Rightarrow> bool \<Rightarrow> string \<Rightarrow> 'd val list \<Rightarrow> ('d, 'x) run option" where
  "effect_builtin W proc statement name args =
     map_of
       [(''error'', andThen (reads (\<lambda>s. builtin_error (shared s) args)) ret),
        (''message'', builtin_message W proc args), (''confirm'', builtin_confirm W proc args),
        (''strmenu'', builtin_strmenu W proc args), (''hyperlink'', builtin_hyperlink W proc args),
        (''isnullguid'', ret (builtin_isnullguid args)), (''evaluate'', evaluate_call statement args),
        (''workdate'', workdate_call W args), (''random'', random_call builtin_random args),
        (''randomize'', random_call builtin_randomize args), (''getlasterrortext'', get_last_error_text args),
        (''clearlasterror'', clear_last_error args), (''clear'', clear_call W args)] name"

definition pure_result :: "('d, 'x) world \<Rightarrow> string \<Rightarrow> string + 'd val \<Rightarrow> ('d, 'x) run" where
  "pure_result W name r =
     andThen (updates (if name \<in> set clock_builtins then snd \<circ> read_clock W else id)) (\<lambda>_. ret (of_result r))"

definition global_builtin ::
  "('d, 'x) world \<Rightarrow> ('d, 'x) call_proc \<Rightarrow> bool \<Rightarrow> string \<Rightarrow> 'd val list \<Rightarrow> ('d, 'x) interp \<Rightarrow> ('d, 'x) run option" where
  "global_builtin W proc statement name args s =
     (let lower = to_ascii_lowercase name in
      if lower = ''createguid'' \<and> args = [] then Some (does (w_new_guid W))
      else or_else (effect_builtin W proc statement lower args)
             (map_option (pure_result W lower) (pure_builtin W s lower args)))"


section \<open>The order of resolution\<close>

definition needs_names :: "'d val list \<Rightarrow> bool" where
  "needs_names args = list_ex (\<lambda>v. case v of VOption _ [] _ \<Rightarrow> True | _ \<Rightarrow> False) args"

definition workspace_call ::
  "('d, 'x) world \<Rightarrow> ('d, 'x) callbacks \<Rightarrow> nat option \<Rightarrow> string option \<Rightarrow> string \<Rightarrow> 'd val list \<Rightarrow> ('d, 'x) run" where
  "workspace_call W K inst receiver name args =
     andThen (dispatch_table_procedure W K receiver name args) (\<lambda>r. case r of
       Inl result \<Rightarrow> ret result
     | Inr args \<Rightarrow>
         andThen (updates (\<lambda>s. s\<lparr>pending_instance := inst\<rparr>)) (\<lambda>_. dispatch_workspace_procedure W K receiver name args))"

definition dispatch_call_scoped ::
  "('d, 'x) world \<Rightarrow> ('d, 'x) callbacks \<Rightarrow> string option \<Rightarrow> string \<Rightarrow> 'd val list \<Rightarrow> ('d, 'x) run" where
  "dispatch_call_scoped W K receiver name args =
     andThen (does (\<lambda>s. ((stmt_position s, pending_instance s),
       s\<lparr>var_writebacks := [], stmt_position := False, pending_instance := None\<rparr>))) (\<lambda>(statement, inst).
     let args = (if needs_names args then with_member_names W args else args) in
     case receiver of
       Some r \<Rightarrow>
         (case w_stub W r name of
            Some f \<Rightarrow> does (f args)
          | None \<Rightarrow> workspace_call W K inst receiver name args)
     | None \<Rightarrow>
         andThen (reads (global_builtin W (dispatch_workspace_procedure W K) statement name args)) (\<lambda>b. case b of
           Some result \<Rightarrow> result
         | None \<Rightarrow> workspace_call W K inst receiver name args))"


section \<open>Calls on a variable\<close>

text \<open>The record a bare record method of table code acts on.\<close>

definition implicit_receiver :: "string \<Rightarrow> ('d, 'x) interp \<Rightarrow> string option" where
  "implicit_receiver name s =
     (case top_frame (scopes s) of
        Some F \<Rightarrow> if implicit_record F \<and> supports_record_method name then Some ''Rec'' else None
      | None \<Rightarrow> None)"

text \<open>\<open>MaxStrLen\<close> of a variable is the length of its declaration.\<close>

definition declared_max_strlen :: "string option \<Rightarrow> string \<Rightarrow> node option \<Rightarrow> ('d, 'x) interp \<Rightarrow> nat option" where
  "declared_max_strlen receiver name args s =
     (if receiver = None \<and> eq_ignore_ascii_case name ''MaxStrLen'' then
        (case arguments_of args of
           [n] \<Rightarrow> Option.bind (simple_lvalue_name n) (declared_text_length (scopes s))
         | _ \<Rightarrow> None)
      else None)"

text \<open>The instance of a codeunit variable, given to the variable on its first call.\<close>

definition with_instance :: "'d val \<Rightarrow> nat \<Rightarrow> 'd val" where
  "with_instance v inst_id = (case v of VCodeunit obj _ \<Rightarrow> VCodeunit obj (Some inst_id) | _ \<Rightarrow> v)"

definition set_instance :: "string \<Rightarrow> nat \<Rightarrow> 'd scope_stack \<Rightarrow> 'd scope_stack" where
  "set_instance name inst_id S =
     (case lookup_slot S name of
        None \<Rightarrow> S
      | Some (i, key) \<Rightarrow>
          S\<lparr>frames := (frames S)[i := (frames S ! i)\<lparr>locals :=
              map (\<lambda>(k, v). (k, if k = key then with_instance v inst_id else v)) (locals (frames S ! i))\<rparr>]\<rparr>)"

definition instance_of :: "string \<Rightarrow> nat option \<Rightarrow> ('d, 'x, nat) outer" where
  "instance_of recv inst s =
     (case inst of
        Some inst_id \<Rightarrow> (inst_id, s)
      | None \<Rightarrow>
          let inst_id = next_codeunit_instance s + 1 in
          (inst_id, s\<lparr>next_codeunit_instance := inst_id, scopes := set_instance recv inst_id (scopes s)\<rparr>))"

definition codeunit_call ::
  "('d, 'x) world \<Rightarrow> ('d, 'x) callbacks \<Rightarrow> string \<Rightarrow> string \<Rightarrow> nat option \<Rightarrow> string \<Rightarrow> node option \<Rightarrow> ('d, 'x) run" where
  "codeunit_call W K recv obj inst name args_node =
     andThen (does (instance_of recv inst)) (\<lambda>inst_id.
     with_args W (cb_expr K) args_node (\<lambda>as.
     andThen (updates (\<lambda>s. s\<lparr>pending_instance := Some inst_id\<rparr>)) (\<lambda>_.
     call_and_write_back W args_node as (dispatch_call_scoped W K (Some obj) name (map fst as)))))"

text \<open>\<open>Get(key, var value)\<close> of a Dictionary: whether the key is there, and its value to the variable.\<close>

definition dict_get_into ::
  "('d, 'x) world \<Rightarrow> string \<Rightarrow> node option \<Rightarrow> 'd argument list \<Rightarrow> ('d, 'x) run" where
  "dict_get_into W recv args_node as =
     andThen (reads (w_dict_lookup W recv (fst (as ! 0)))) (\<lambda>r. case r of
       Inl e \<Rightarrow> fails e
     | Inr None \<Rightarrow> done_with (VBoolean False)
     | Inr (Some v) \<Rightarrow>
         andThen (set_writeback 1 v) (\<lambda>_.
         andThen (apply_var_writebacks W args_node (map snd as)) (\<lambda>written.
           ret (unwrap_or written (ENormal (VBoolean True))))))"

text \<open>A method of the value of a variable, when its kind has the method.\<close>

definition method_call ::
  "('d, 'x) world \<Rightarrow> ('d, 'x) callbacks \<Rightarrow> bool \<Rightarrow> string \<Rightarrow> string \<Rightarrow> node option \<Rightarrow> 'd val \<Rightarrow> ('d, 'x) run option" where
  "method_call W K statement recv name args_node v =
     (let args = with_args W (cb_expr K) args_node;
          run_method = (\<lambda>as. does (w_value_method W recv name (map fst as) statement)) in
      case v of
        VRecord _ \<Rightarrow>
          if supports_record_method name then
            Some (andThen (does (w_record_binding W recv)) (\<lambda>b. case b of
              None \<Rightarrow> fails (''record variable '' @ quoted recv @ '' is not bound'')
            | Some (table, handle) \<Rightarrow> w_record_method W K table handle name args_node))
          else None
      | VList _ _ _ \<Rightarrow>
          if supports_list_method name then Some (args (\<lambda>as. call_and_write_back W args_node as (run_method as))) else None
      | VText _ \<Rightarrow> if supports_text_method name then Some (args run_method) else None
      | VCode _ \<Rightarrow> if supports_text_method name then Some (args run_method) else None
      | VDict _ _ _ \<Rightarrow>
          if supports_dict_method name then
            Some (args (\<lambda>as.
              if eq_ignore_ascii_case name ''get'' \<and> length as = 2 then dict_get_into W recv args_node as
              else call_and_write_back W args_node as (run_method as)))
          else None
      | VJson kind _ \<Rightarrow>
          if w_json_method W kind name then Some (args (\<lambda>as. call_and_write_back W args_node as (run_method as))) else None
      | VTextBuilder _ \<Rightarrow> if supports_textbuilder_method name then Some (args run_method) else None
      | VOption _ _ _ \<Rightarrow>
          if supports_enum_method name then
            Some (andThen (reads (lookup recv)) (\<lambda>v.
              args (\<lambda>as. dispatch_enum_method W (unwrap_or v VNull) name (map fst as))))
          else None
      | VCodeunit obj inst \<Rightarrow> Some (codeunit_call W K recv obj inst name args_node)
      | _ \<Rightarrow> None)"

definition general_call ::
  "('d, 'x) world \<Rightarrow> ('d, 'x) callbacks \<Rightarrow> bool \<Rightarrow> string option \<Rightarrow> string \<Rightarrow> node option \<Rightarrow> ('d, 'x) run" where
  "general_call W K statement receiver name args_node =
     with_args W (cb_expr K) args_node (\<lambda>as.
     andThen (updates (\<lambda>s. s\<lparr>stmt_position := statement\<rparr>)) (\<lambda>_.
     call_and_write_back W args_node as (dispatch_call_scoped W K receiver name (map fst as))))"

definition eval_call_parts ::
  "('d, 'x) world \<Rightarrow> ('d, 'x) callbacks \<Rightarrow> string option \<Rightarrow> string \<Rightarrow> node option \<Rightarrow> ('d, 'x) run" where
  "eval_call_parts W K receiver name args_node =
     andThen (reads (\<lambda>s. (or_else receiver (implicit_receiver name s), stmt_position s))) (\<lambda>(receiver, statement).
     andThen (reads (declared_max_strlen receiver name args_node)) (\<lambda>len. case len of
       Some l \<Rightarrow> done_with (VInteger (int l))
     | None \<Rightarrow>
         andThen (reads (\<lambda>s. Option.bind receiver (\<lambda>r. map_option (\<lambda>v. (r, v)) (lookup r s)))) (\<lambda>bound.
           case Option.bind bound (\<lambda>(r, v). method_call W K statement r name args_node v) of
             Some result \<Rightarrow> result
           | None \<Rightarrow> general_call W K statement receiver name args_node)))"

end
