(* ===== verification/Interpreter.thy ===== *)
theory Interpreter
  imports Statements Routing
begin

text \<open>
  The evaluator as a whole.  \<open>eval_stmt\<close>, \<open>eval_expr\<close> and \<open>eval_call_parts\<close> call each other, and so do the code of
  tables and the subscribers of events: \<open>interpreter turns d\<close> lets a chain of such calls be \<open>d\<close> long and a loop take
  \<open>turns\<close> turns.
\<close>

primrec interpreter :: "nat \<Rightarrow> nat \<Rightarrow> ('d, 'x) world \<Rightarrow> ('d, 'x) callbacks" where
  "interpreter turns 0 W =
     \<lparr>cb_expr = (\<lambda>n. out_of_fuel), cb_stmt = (\<lambda>n. out_of_fuel), cb_call_parts = (\<lambda>recv name args. out_of_fuel),
      cb_table_code = (\<lambda>rec x_rec code args. out_of_fuel),
      cb_raise = (\<lambda>kind publisher event element names values sender. out_of_fuel)\<rparr>"
| "interpreter turns (Suc d) W =
     (let K = interpreter turns d W in
      \<lparr>cb_expr = expr_step W K, cb_stmt = stmt_step turns W K, cb_call_parts = eval_call_parts W K,
       cb_table_code = run_table_code W K, cb_raise = raise_event W K\<rparr>)"

definition eval_stmt :: "nat \<Rightarrow> nat \<Rightarrow> ('d, 'x) world \<Rightarrow> node \<Rightarrow> ('d, 'x) run" where
  "eval_stmt turns d W = cb_stmt (interpreter turns d W)"

definition eval_expr :: "nat \<Rightarrow> nat \<Rightarrow> ('d, 'x) world \<Rightarrow> node \<Rightarrow> ('d, 'x) run" where
  "eval_expr turns d W = cb_expr (interpreter turns d W)"

text \<open>
  A call from outside: it has a scope stack of its own, empty at the start, which is dropped when it returns.  The
  caller's stack is not seen.
\<close>

definition drop_stack :: "'d scope_stack \<Rightarrow> nat \<Rightarrow> nat" where
  "drop_stack S tot = fold drop_frame (frames S) tot"

definition with_new_stack :: "('d, 'x, 'a) step \<Rightarrow> ('d, 'x, 'a) step" where
  "with_new_stack m =
     andThen (does (\<lambda>s. (scopes s, s\<lparr>scopes := new_stack\<rparr>))) (\<lambda>outer.
     andThen m (\<lambda>a.
     andThen (updates (\<lambda>s. s\<lparr>scopes := outer, held := drop_stack (scopes s) (held s)\<rparr>)) (\<lambda>_. ret a)))"

definition dispatch_call ::
  "nat \<Rightarrow> nat \<Rightarrow> ('d, 'x) world \<Rightarrow> string option \<Rightarrow> string \<Rightarrow> 'd val list \<Rightarrow> ('d, 'x) run" where
  "dispatch_call turns d W receiver name args =
     with_new_stack (dispatch_call_scoped W (interpreter turns d W) receiver name args)"

end
