(* ===== verification/Run_Contract.thy ===== *)
theory Run_Contract
  imports Interpreter
begin

text \<open>
  What every run of the evaluator keeps, as one contract.  A step is compared with a second one that gets more
  fuel: whatever the first returns, the second returns, and the call stack is as before.  The contract is a locale
  over the places a run can be at; it is proved once for every function of the evaluator and interpreted for the
  real call stack, for runs that end and for runs that may not.
\<close>

section \<open>The call stack of a state\<close>

definition frame_shape :: "'d call_frame \<Rightarrow> string \<times> string \<times> bool \<times> nat option" where
  "frame_shape F = (procedure F, frame_object F, implicit_record F, frame_instance F)"

definition same_stack :: "('d, 'x) interp \<Rightarrow> ('d, 'x) interp \<Rightarrow> bool" where
  "same_stack s t \<longleftrightarrow>
     map frame_shape (frames (scopes t)) = map frame_shape (frames (scopes s)) \<and>
     expr_depth (scopes t) = expr_depth (scopes s) \<and> ast_depth t = ast_depth s \<and>
     recursion_depth t = recursion_depth s \<and> ticks s \<le> ticks t"

lemma same_stack_refl [simp]: "same_stack s s"
  by (simp add: same_stack_def)

lemma same_stack_trans: "same_stack s t \<Longrightarrow> same_stack t u \<Longrightarrow> same_stack s u"
  by (auto simp: same_stack_def)

lemma same_stack_updates [simp]:
  "same_stack s (t\<lparr>held := n\<rparr>) = same_stack s t" "same_stack s (t\<lparr>shared := E\<rparr>) = same_stack s t"
  "same_stack s (t\<lparr>coverage_of := c\<rparr>) = same_stack s t"
  "same_stack s (t\<lparr>condition_trace_stack := cs\<rparr>) = same_stack s t"
  "same_stack s (t\<lparr>var_writebacks := wbs\<rparr>) = same_stack s t"
  "same_stack s (t\<lparr>stmt_position := b\<rparr>) = same_stack s t" "same_stack s (t\<lparr>last_error := e\<rparr>) = same_stack s t"
  "same_stack s (t\<lparr>work_date := d\<rparr>) = same_stack s t" "same_stack s (t\<lparr>random_state := r\<rparr>) = same_stack s t"
  "same_stack s (t\<lparr>codeunit_instances := is\<rparr>) = same_stack s t"
  "same_stack s (t\<lparr>active_instances := as\<rparr>) = same_stack s t"
  "same_stack s (t\<lparr>single_instances := ss\<rparr>) = same_stack s t"
  "same_stack s (t\<lparr>next_codeunit_instance := n\<rparr>) = same_stack s t"
  "same_stack s (t\<lparr>pending_instance := p\<rparr>) = same_stack s t"
  "same_stack s (t\<lparr>pending_subscriber := b\<rparr>) = same_stack s t"
  "same_stack s (t\<lparr>next_address := n\<rparr>) = same_stack s t" "same_stack s (t\<lparr>outside := x\<rparr>) = same_stack s t"
  "same_stack s (t\<lparr>clock_reads := n\<rparr>) = same_stack s t" "same_stack s (t\<lparr>record_globals := rs\<rparr>) = same_stack s t"
  "same_stack s (t\<lparr>active_record_globals := rs'\<rparr>) = same_stack s t"
  by (simp_all add: same_stack_def)

lemma same_stack_scopes [simp]:
  "same_stack s (t\<lparr>scopes := S\<rparr>) \<longleftrightarrow>
     map frame_shape (frames S) = map frame_shape (frames (scopes s)) \<and> expr_depth S = expr_depth (scopes s) \<and>
     ast_depth t = ast_depth s \<and> recursion_depth t = recursion_depth s \<and> ticks s \<le> ticks t"
  by (auto simp: same_stack_def)

text \<open>Changes of variables leave the shape of a frame alone.\<close>

lemma shape_updates [simp]:
  "frame_shape (F\<lparr>locals := ls\<rparr>) = frame_shape F" "frame_shape (F\<lparr>frame_held := n\<rparr>) = frame_shape F"
  "frame_shape (F\<lparr>declared_text_lengths := ds\<rparr>) = frame_shape F"
  by (simp_all add: frame_shape_def)

lemma shape_bind_var [simp]: "frame_shape (fst (bind_var name v F tot)) = frame_shape F"
  by (simp add: bind_var_def Let_def split: prod.splits option.splits)

lemma shape_unbind_var [simp]: "frame_shape (fst (snd (unbind_var name F tot))) = frame_shape F"
  by (simp add: unbind_var_def Let_def split: prod.splits option.splits)

lemma shape_recount: "slot_recount operation old new F tot = (res, G, tot') \<Longrightarrow> frame_shape G = frame_shape F"
  by (auto simp: slot_recount_def Let_def split: prod.splits sum.splits)

lemma shape_slot_store: "slot_store operation key cur v F tot = (res, G, tot') \<Longrightarrow> frame_shape G = frame_shape F"
  by (auto simp: slot_store_def dest: shape_recount split: prod.splits sum.splits)

lemma shapes_replaced:
  "i < length Fs \<Longrightarrow> frame_shape G = frame_shape (Fs ! i) \<Longrightarrow> map frame_shape (Fs[i := G]) = map frame_shape Fs"
  by (simp add: map_update list_update_same_conv)

lemma shapes_last: "Fs \<noteq> [] \<Longrightarrow> map frame_shape (butlast Fs) @ [frame_shape (last Fs)] = map frame_shape Fs"
  by (metis append_butlast_last_id list.simps(8,9) map_append)

lemma same_stack_with_top:
  assumes "\<And>F tot. frame_shape (fst (f F tot)) = frame_shape F"
  shows "same_stack s (with_top f s)"
proof -
  have "frame_shape G = frame_shape F" if "f F tot = (G, tot')" for F G tot tot'
    using assms[of F tot] that by simp
  then show ?thesis by (auto simp: with_top_def shapes_last split: prod.splits)
qed

lemma same_stack_bind_top [simp]: "same_stack s (bind_top name v s)"
  by (simp add: bind_top_def same_stack_with_top)

lemma same_stack_unbind_top [simp]: "same_stack s (unbind_top name s)"
  by (simp add: unbind_top_def same_stack_with_top)

lemma store_var_shapes:
  assumes "store_var operation name v S tot = (res, S', tot')"
  shows "map frame_shape (frames S') = map frame_shape (frames S) \<and> expr_depth S' = expr_depth S"
proof (cases "lookup_slot S name")
  case None
  then show ?thesis using assms by (simp add: store_var_def)
next
  case (Some slot)
  obtain i key where slot: "slot = (i, key)" by fastforce
  have "i < length (frames S)" using Some slot lookup_slot_bound by fastforce
  then show ?thesis
    using assms Some slot
    by (auto simp: store_var_def Let_def shapes_replaced dest: shape_slot_store split: option.splits prod.splits)
qed

section \<open>The operations on a state\<close>

named_theorems stack_kept \<open>operations after which the call stack is as before\<close>

lemma store_kept [stack_kept]:
  "same_stack s (snd (let (res, S, tot) = store_var operation name v (scopes s) (held s) in (res, s\<lparr>scopes := S, held := tot\<rparr>)))"
  by (auto simp: store_var_shapes split: prod.splits dest: store_var_shapes)

lemma cov_kept [stack_kept]:
  "same_stack s (cov_update f s)" "same_stack s (cov_begin_condition_trace s)"
  "same_stack s (cov_record_stmt n s)" "same_stack s (cov_record_decision n b s)"
  "same_stack s (cov_ensure_path n p s)" "same_stack s (cov_record_path n p s)"
  "same_stack s (cov_set_expression_trace n cs s)" "same_stack s (cov_restore_file prev s)"
  "same_stack s (snd (cov_finish_condition_trace n s))" "same_stack s (snd (cov_enter_file file s))"
  by (simp_all add: cov_update_def cov_begin_condition_trace_def cov_record_stmt_def cov_record_decision_def
      cov_ensure_path_def cov_record_path_def cov_set_expression_trace_def cov_restore_file_def
      cov_finish_condition_trace_def cov_enter_file_def split: option.splits prod.splits)

lemma observation_kept [stack_kept]: "same_stack s (cov_record_condition_observation n cs b s)"
  by (simp add: cov_record_condition_observation_def cov_kept split: option.splits)

lemma trace_kept [stack_kept]: "same_stack s (record_condition_trace n r s)"
  by (simp add: record_condition_trace_def cov_kept split: eval.splits val.splits)

lemma alloc_kept [stack_kept]: "same_stack s (snd (alloc_list vs m s))" "same_stack s (snd (alloc_dict a b s))"
  by (simp_all add: alloc_list_def alloc_dict_def Let_def)

lemma fresh_kept [stack_kept]: "same_stack s (snd (fresh_default base s))"
  by (simp add: fresh_default_def Let_def split: option.splits val.splits)

lemma same_stack_pair: "same_stack s (snd p) \<Longrightarrow> p = (a, t) \<Longrightarrow> same_stack s t"
  by simp

lemma fresh_defaults_kept [stack_kept]: "same_stack s (snd (fresh_defaults n base s))"
proof (induction n arbitrary: s)
  case (Suc n)
  obtain d t where d: "fresh_default base s = (d, t)" by fastforce
  then have "same_stack s t" using fresh_kept[of s base] by simp
  then show ?case using d Suc.IH[of t] by (auto simp: split: option.splits prod.splits intro: same_stack_trans)
qed simp

lemma array_kept [stack_kept]: "same_stack s (snd (default_for_array u s))"
  by (simp add: default_for_array_def case_prod_beta Let_def fresh_defaults_kept split: option.splits)

lemma structured_kept [stack_kept]: "same_stack s (snd (default_for_structured t s))"
  unfolding default_for_structured_def Let_def
  by (simp add: case_prod_beta array_kept alloc_kept split: option.splits)

text \<open>The construction of a frame.\<close>

definition frame_step_kept :: "('d, 'x) frame_step \<Rightarrow> bool" where
  "frame_step_kept f \<longleftrightarrow> (\<forall>F s. same_stack s (snd (f (F, s))))"

lemma frame_step_id [stack_kept]: "frame_step_kept id" "frame_step_kept (\<lambda>p. p)"
  by (simp_all add: frame_step_kept_def)

lemma frame_step_comp [stack_kept]: "frame_step_kept f \<Longrightarrow> frame_step_kept g \<Longrightarrow> frame_step_kept (f \<circ> g)"
  unfolding frame_step_kept_def o_def by (metis prod.collapse same_stack_trans)

lemma frame_step_fold [stack_kept]: "(\<And>x. frame_step_kept (f x)) \<Longrightarrow> frame_step_kept (fold f xs)"
  by (induction xs) (auto simp: frame_step_id frame_step_comp)

lemma frame_bind_kept [stack_kept]: "frame_step_kept (frame_bind name v)"
  by (simp add: frame_step_kept_def frame_bind_def split: prod.splits)

lemma bind_if_free_kept [stack_kept]: "frame_step_kept (bind_if_free name v)"
  using frame_bind_kept[of name v] by (auto simp: frame_step_kept_def bind_if_free_def)

lemma frame_length_kept [stack_kept]: "frame_step_kept (frame_length name len)"
  by (simp add: frame_step_kept_def frame_length_def split: option.splits)

lemma bind_names_kept [stack_kept]:
  assumes "\<And>s. same_stack s (snd (default_of s))"
  shows "frame_step_kept (bind_names default_of len names)"
proof -
  have "same_stack s (snd (bind_names default_of len names (F, s)))" for F s
  proof (induction names arbitrary: F s)
    case (Cons name names)
    obtain d t where d: "default_of s = (d, t)" by fastforce
    show ?case
    proof (cases d)
      case (Some v)
      obtain G u where G: "bind_if_free name v (frame_length name len (F, t)) = (G, u)" by fastforce
      have "same_stack s t" using assms[of s] d by simp
      moreover have "same_stack t u"
        using frame_step_comp[OF bind_if_free_kept[of name v] frame_length_kept[of name len]] G
        unfolding frame_step_kept_def o_def by (metis snd_conv)
      moreover have "same_stack u (snd (bind_names default_of len names (G, u)))" by (rule Cons.IH)
      ultimately show ?thesis using d Some G by (auto intro: same_stack_trans)
    qed (use assms[of s] d in simp)
  qed simp
  then show ?thesis by (simp add: frame_step_kept_def)
qed

lemma decl_kept [stack_kept]:
  "frame_step_kept (bind_regular_var_decl reg)" "frame_step_kept (bind_structured_var_decl reg)"
  "frame_step_kept (bind_label_decl reg)"
  by (auto simp: bind_regular_var_decl_def bind_structured_var_decl_def bind_label_decl_def
      intro: stack_kept split: option.splits)

lemma locals_kept [stack_kept]: "frame_step_kept (bind_procedure_locals proc)"
  unfolding bind_procedure_locals_def bind_local_vars_def bind_structured_locals_def
  by (intro frame_step_comp frame_step_fold) (auto intro: stack_kept)

lemma globals_kept [stack_kept]: "frame_step_kept (bind_object_globals obj)"
  unfolding bind_object_globals_def by (intro frame_step_fold) (auto intro: stack_kept)

section \<open>The operations around the evaluator\<close>

text \<open>
  The operations of a world that call nothing of the evaluator leave the call stack as it was.  The record methods,
  which do, are not among them.
\<close>

definition plain_orderly :: "('d, 'x) world \<Rightarrow> bool" where
  "plain_orderly W \<longleftrightarrow> (\<forall>s.
     (\<forall>name. same_stack s (snd (w_implicit_get W name s))) \<and>
     (\<forall>name v. same_stack s (snd (w_implicit_set W name v s))) \<and>
     (\<forall>name. same_stack s (snd (w_record_binding W name s))) \<and>
     (\<forall>table field. same_stack s (snd (w_declares_field W table field s))) \<and>
     (\<forall>table h field. same_stack s (snd (w_field_get W table h field s))) \<and>
     (\<forall>recv field v. same_stack s (snd (w_field_set W recv field v s))) \<and>
     (\<forall>rv. same_stack s (snd (w_fork_record W rv s))) \<and>
     (\<forall>h. same_stack s (w_forget_record W h s)) \<and>
     (\<forall>recv name args b. same_stack s (snd (w_value_method W recv name args b s))) \<and>
     (\<forall>recv name f args. w_stub W recv name = Some f \<longrightarrow> same_stack s (snd (f args s))) \<and>
     same_stack s (snd (w_new_guid W s)))"


section \<open>The contract\<close>

text \<open>
  From a state in \<open>P\<close>, the second step returns what the first returns, in a state of \<open>Q\<close>; when \<open>p\<close> is false, the
  first does return.
\<close>

definition triple ::
  "bool \<Rightarrow> (('d, 'x) interp \<Rightarrow> bool) \<Rightarrow> ('d, 'x, 'a) step \<Rightarrow> ('d, 'x, 'a) step \<Rightarrow> (('d, 'x) interp \<Rightarrow> bool) \<Rightarrow> bool" where
  "triple p P m m' Q \<longleftrightarrow>
     (\<forall>s. P s \<longrightarrow> (case m s of None \<Rightarrow> p | Some (a, t) \<Rightarrow> m' s = Some (a, t) \<and> Q t))"

lemma triple_andThen:
  assumes m: "triple p P m m' Q" and f: "\<And>a. triple p Q (f a) (f' a) R"
  shows "triple p P (andThen m f) (andThen m' f') R"
  unfolding triple_def
proof (intro allI impI)
  fix s assume s: "P s"
  show "case andThen m f s of None \<Rightarrow> p | Some (b, u) \<Rightarrow> andThen m' f' s = Some (b, u) \<and> R u"
  proof (cases "m s")
    case None
    then show ?thesis using m s by (auto simp: triple_def andThen_def)
  next
    case (Some r)
    obtain a t where r: "r = (a, t)" by fastforce
    then have t: "m' s = Some (a, t)" "Q t" using m s Some by (auto simp: triple_def split: option.splits)
    then show ?thesis using f[of a] Some r by (cases "f a t") (fastforce simp: triple_def andThen_def)+
  qed
qed

lemma triple_pre: "triple p Q m m' R \<Longrightarrow> (\<And>s. P s \<Longrightarrow> Q s) \<Longrightarrow> triple p P m m' R"
  by (auto simp: triple_def)

lemma triple_state: "(\<And>s. P s \<Longrightarrow> triple p (\<lambda>s'. s' = s) m m' Q) \<Longrightarrow> triple p P m m' Q"
  unfolding triple_def by blast

locale run_contract =
  fixes at_place :: "'i \<Rightarrow> nat \<Rightarrow> ('d, 'x) interp \<Rightarrow> bool"
    and in_expr :: "'i \<Rightarrow> 'i"
    and in_stmt :: "'i \<Rightarrow> 'i"
    and in_call :: "'i \<Rightarrow> 'i"
    and in_frame :: "'d call_frame \<Rightarrow> 'i \<Rightarrow> 'i"
    and near :: "'i \<Rightarrow> 'i \<Rightarrow> bool"
    and in_moved :: "nat \<Rightarrow> 'i \<Rightarrow> 'i"
    and partial :: bool
  assumes same: "at_place i k s \<Longrightarrow> same_stack s t \<Longrightarrow> at_place i k t"
    and clock: "at_place i k s \<Longrightarrow> k \<le> ticks s"
    and later: "at_place i k s \<Longrightarrow> k' \<le> ticks s \<Longrightarrow> at_place i k' s"
    and expr_in: "at_place i k s \<Longrightarrow> at_place (in_expr i) k (s\<lparr>scopes := (scopes s)\<lparr>expr_depth := Suc (expr_depth (scopes s))\<rparr>\<rparr>)"
    and expr_out: "at_place (in_expr i) k s \<Longrightarrow> at_place i k (s\<lparr>scopes := exit_expr (scopes s)\<rparr>)"
    and stmt_in: "at_place i k s \<Longrightarrow> at_place (in_stmt i) k (s\<lparr>ast_depth := Suc (ast_depth s)\<rparr>)"
    and stmt_out: "at_place (in_stmt i) k s \<Longrightarrow> at_place i k (s\<lparr>ast_depth := ast_depth s - 1\<rparr>)"
    and call_in: "at_place i k s \<Longrightarrow> at_place (in_call i) k (s\<lparr>recursion_depth := Suc (recursion_depth s)\<rparr>)"
    and call_out: "at_place (in_call i) k s \<Longrightarrow> at_place i k (s\<lparr>recursion_depth := recursion_depth s - 1\<rparr>)"
    and frame_in: "at_place i k s \<Longrightarrow> at_place (in_frame F i) k (push F s)"
    and frame_out: "at_place (in_frame F i) k s \<Longrightarrow> at_place i k (snd (pop s))"
    and moved_in: "at_place i k s \<Longrightarrow> n < length (frames (scopes s)) \<Longrightarrow> at_place (in_moved n i) k (lift_frame n s)"
    and moved_out: "at_place i k s \<Longrightarrow> n < length (frames (scopes s)) \<Longrightarrow> at_place (in_moved n i) k t \<Longrightarrow>
      at_place i k (lower_frame n t)"
    and call_frame: "in_call (in_frame F i) = in_frame F (in_call i)"
    and near_refl: "near i i"
    and near_frame: "near i j \<Longrightarrow> near i (in_frame F j)"
    and near_moved: "near i j \<Longrightarrow> near i (in_moved n j)"
    and near_trans: "near i j \<Longrightarrow> near j l \<Longrightarrow> near i l"
begin

definition kept :: "'i \<Rightarrow> ('d, 'x, 'a) step \<Rightarrow> ('d, 'x, 'a) step \<Rightarrow> bool" where
  "kept i m m' \<longleftrightarrow> (\<forall>k. triple partial (at_place i k) m m' (at_place i k))"

definition exprs_below :: "'i \<Rightarrow> ('d, 'x) callbacks \<Rightarrow> ('d, 'x) callbacks \<Rightarrow> bool" where
  "exprs_below i K K' \<longleftrightarrow> (\<forall>n. kept i (cb_expr K n) (cb_expr K' n))"

definition stmts_below :: "'i \<Rightarrow> ('d, 'x) callbacks \<Rightarrow> ('d, 'x) callbacks \<Rightarrow> bool" where
  "stmts_below i K K' \<longleftrightarrow> (\<forall>n. kept i (cb_stmt K n) (cb_stmt K' n))"

definition calls_below :: "'i \<Rightarrow> ('d, 'x) callbacks \<Rightarrow> ('d, 'x) callbacks \<Rightarrow> bool" where
  "calls_below i K K' \<longleftrightarrow> (\<forall>recv m args. kept i (cb_call_parts K recv m args) (cb_call_parts K' recv m args))"

lemma kept_ret: "kept i (ret a) (ret a)"
  by (simp add: kept_def triple_def)

lemma kept_reads: "kept i (reads f) (reads f)"
  by (simp add: kept_def triple_def)

lemma kept_does: "(\<And>s. same_stack s (snd (f s))) \<Longrightarrow> kept i (does f) (does f)"
  by (auto simp: kept_def triple_def split: prod.splits intro: same) (metis same snd_conv)

lemma kept_updates: "(\<And>s. same_stack s (f s)) \<Longrightarrow> kept i (updates f) (updates f)"
  by (auto simp: kept_def triple_def intro: same)

lemma kept_fails: "kept i (fails e) (fails e)"
  by (simp add: fails_def kept_ret)

lemma kept_done: "kept i (done_with v) (done_with v)"
  by (simp add: done_with_def kept_ret)

lemma kept_andThen: "kept i m m' \<Longrightarrow> (\<And>a. kept i (f a) (f' a)) \<Longrightarrow> kept i (andThen m f) (andThen m' f')"
  by (auto simp: kept_def intro: triple_andThen)

lemma kept_value_then: "kept i m m' \<Longrightarrow> (\<And>v. kept i (f v) (f' v)) \<Longrightarrow> kept i (value_then m f) (value_then m' f')"
  unfolding value_then_def by (rule kept_andThen) (auto simp: kept_ret split: eval.splits)

text \<open>
  What a record method may call: expressions, the code of tables and the subscribers of events.  A world is calm
  when its plain operations keep the stack, and its record methods keep the contract if what they call does.
\<close>

definition codes_below :: "'i \<Rightarrow> ('d, 'x) callbacks \<Rightarrow> ('d, 'x) callbacks \<Rightarrow> bool" where
  "codes_below i K K' \<longleftrightarrow>
     (\<forall>rec x_rec code args. kept i (cb_table_code K rec x_rec code args) (cb_table_code K' rec x_rec code args))"

definition raises_below :: "'i \<Rightarrow> ('d, 'x) callbacks \<Rightarrow> ('d, 'x) callbacks \<Rightarrow> bool" where
  "raises_below i K K' \<longleftrightarrow>
     (\<forall>kind publisher event element names values sender.
        kept i (cb_raise K kind publisher event element names values sender)
          (cb_raise K' kind publisher event element names values sender))"

definition entries_below :: "'i \<Rightarrow> ('d, 'x) callbacks \<Rightarrow> ('d, 'x) callbacks \<Rightarrow> bool" where
  "entries_below i K K' \<longleftrightarrow> exprs_below i K K' \<and> codes_below i K K' \<and> raises_below i K K'"

definition calm :: "('d, 'x) world \<Rightarrow> bool" where
  "calm W \<longleftrightarrow> plain_orderly W \<and>
     (\<forall>i K K' table h name args. entries_below i K K' \<longrightarrow>
        kept i (w_record_method W K table h name args) (w_record_method W K' table h name args))"

lemma kept_calm: "calm W \<Longrightarrow> (\<And>s. plain_orderly W \<Longrightarrow> same_stack s (snd (f s))) \<Longrightarrow> kept i (does f) (does f)"
  by (simp add: calm_def kept_does)

lemma kept_record_method:
  "calm W \<Longrightarrow> entries_below i K K' \<Longrightarrow>
   kept i (w_record_method W K table h name args) (w_record_method W K' table h name args)"
  by (simp add: calm_def)

lemma kept_code: "codes_below i K K' \<Longrightarrow> kept i (cb_table_code K rec x_rec code args) (cb_table_code K' rec x_rec code args)"
  by (simp add: codes_below_def)

lemma kept_raise:
  "raises_below i K K' \<Longrightarrow>
   kept i (cb_raise K kind publisher event element names values sender)
     (cb_raise K' kind publisher event element names values sender)"
  by (simp add: raises_below_def)

lemma kept_expr: "exprs_below i K K' \<Longrightarrow> kept i (cb_expr K n) (cb_expr K' n)"
  by (simp add: exprs_below_def)

lemma kept_stmt: "stmts_below i K K' \<Longrightarrow> kept i (cb_stmt K n) (cb_stmt K' n)"
  by (simp add: stmts_below_def)

lemma kept_call: "calls_below i K K' \<Longrightarrow> kept i (cb_call_parts K recv m args) (cb_call_parts K' recv m args)"
  by (simp add: calls_below_def)

lemmas kept_basic = kept_ret kept_reads kept_fails kept_done kept_andThen kept_value_then kept_expr kept_stmt kept_call
  kept_code kept_raise

end

end
