(* ===== verification/Run_Exprs.thy ===== *)
theory Run_Exprs
  imports Run_Contract
begin

text \<open>The contract of \<open>Run_Contract\<close> for expressions: operator chains, elements, arguments, chained calls and assignments.\<close>

named_theorems kept_rules \<open>the contract of each function\<close>

declare step_simps [simp del] does_simp [simp del]

context run_contract begin

lemmas [kept_rules] = kept_basic

lemma kept_if [kept_rules]: "(b \<Longrightarrow> kept i m m') \<Longrightarrow> (\<not> b \<Longrightarrow> kept i f f') \<Longrightarrow> kept i (if b then m else f) (if b then m' else f')"
  by simp

text \<open>The operations of a world.\<close>

lemma kept_world [kept_rules]:
  assumes "calm W"
  shows "kept i (does (w_implicit_get W name)) (does (w_implicit_get W name))"
    "kept i (does (w_implicit_set W name v)) (does (w_implicit_set W name v))"
    "kept i (does (w_record_binding W name)) (does (w_record_binding W name))"
    "kept i (does (w_field_get W table h name)) (does (w_field_get W table h name))"
    "kept i (does (w_field_set W recv name v)) (does (w_field_set W recv name v))"
    "kept i (does (w_value_method W recv name args b)) (does (w_value_method W recv name args b))"
    "kept i (does (w_new_guid W)) (does (w_new_guid W))"
  by (rule kept_calm [OF assms], simp add: plain_orderly_def)+

section \<open>Operator chains\<close>

text \<open>In these lemmas \<open>ee\<close> is an evaluator of expressions that keeps the contract.\<close>

lemma kept_value_traced [kept_rules]:
  "kept i m m' \<Longrightarrow> (\<And>v. kept i (f v) (f' v)) \<Longrightarrow> kept i (value_traced m f) (value_traced m' f')"
  unfolding value_traced_def by (rule kept_andThen) (auto simp: kept_ret split: eval.splits)

lemma kept_run_tokens [kept_rules]:
  assumes ee: "\<And>n. kept i (ee n) (ee' n)"
  shows "kept i (run_tokens ee tokens vals) (run_tokens ee' tokens vals)"
proof (induction tokens arbitrary: vals)
  case (Cons token tokens)
  then show ?case by (cases token) (auto intro!: kept_rules ee split: list.splits sum.splits)
qed (auto intro!: kept_rules split: list.splits)

lemma kept_expr_chain [kept_rules]:
  assumes ee: "\<And>n. kept i (ee n) (ee' n)"
  shows "kept i (eval_expr_chain ee ns) (eval_expr_chain ee' ns)"
proof (cases "length ns \<le> 1")
  case True
  then show ?thesis
    by (cases ns) (auto simp: eval_expr_chain_def intro!: kept_ret kept_andThen ee)
next
  case False
  then obtain a b cs where ns: "ns = a # b # cs" by (cases ns; cases "tl ns") auto
  have "kept i (case r of Inl e \<Rightarrow> ret (eval_error e, None) | Inr tokens \<Rightarrow> run_tokens ee tokens [])
      (case r of Inl e \<Rightarrow> ret (eval_error e, None) | Inr tokens \<Rightarrow> run_tokens ee' tokens [])"
    for r :: "string + chain_token list"
    by (cases r) (auto intro: kept_ret kept_run_tokens ee)
  then show ?thesis by (simp add: ns eval_expr_chain_def kept_ret)
qed

lemma kept_selected:
  assumes "kept i m m'" "kept i f f'"
  shows "kept i
      (case r of ENormal (VBoolean b) \<Rightarrow> andThen (if b then m else f) (\<lambda>(r, selected). ret (g r selected))
       | ENormal other \<Rightarrow> ret (eval_error (''conditional expression requires Boolean condition, got '' @ type_name other), None) | other \<Rightarrow> ret (other, None))
      (case r of ENormal (VBoolean b) \<Rightarrow> andThen (if b then m' else f') (\<lambda>(r, selected). ret (g r selected))
       | ENormal other \<Rightarrow> ret (eval_error (''conditional expression requires Boolean condition, got '' @ type_name other), None) | other \<Rightarrow> ret (other, None))"
proof (cases r)
  case (ENormal v)
  have "kept i (andThen (if b then m else f) (\<lambda>(r, selected). ret (g r selected)))
      (andThen (if b then m' else f') (\<lambda>(r, selected). ret (g r selected)))" for b
    using assms by (intro kept_andThen) (auto intro: kept_ret)
  then show ?thesis using ENormal by (cases v) (simp_all add: kept_ret)
qed (simp_all add: kept_ret)

lemma kept_computation_chain [kept_rules]:
  assumes ee: "\<And>n. kept i (ee n) (ee' n)"
  shows "kept i (eval_computation_chain ee ns) (eval_computation_chain ee' ns)"
proof (induction ns rule: measure_induct_rule [where f = length])
  case (less ns)
  show ?case
  proof (cases "question_index ns")
    case None
    then show ?thesis by (simp add: eval_computation_chain.simps [of _ ns] kept_expr_chain ee)
  next
    case (Some q)
    show ?thesis
    proof (cases "colon_index ns 0 (later_operators q (length ns))")
      case None
      then show ?thesis using Some by (simp add: eval_computation_chain.simps [of _ ns] kept_ret)
    next
      case colon: (Some c)
      have bounds: "q < length ns" "q + 2 \<le> c" "c < length ns"
        using Some colon by (auto dest!: question_index_bound colon_index_mem later_operators_bound)
      have parts: "kept i (eval_computation_chain ee ms) (eval_computation_chain ee' ms)"
        if "ms = take q ns \<or> ms = take (c - Suc q) (drop (Suc q) ns) \<or> ms = drop (Suc c) ns" for ms
        using that bounds by (intro less.IH) auto
      show ?thesis
        unfolding eval_computation_chain.simps [of _ ns] Some colon Let_def option.case
        by (intro kept_if kept_ret kept_andThen parts)
          (simp_all only: prod.case split: prod.split, auto intro!: kept_selected parts)
    qed
  qed
qed


section \<open>Variables and elements\<close>

lemma kept_store [kept_rules]: "kept i (store operation name v) (store operation name v)"
  unfolding store_def by (rule kept_does) (rule store_kept)

lemma kept_store_or [kept_rules]: "kept i absent absent' \<Longrightarrow> kept i (store_or operation name v absent) (store_or operation name v absent')"
  unfolding store_or_def by (auto intro!: kept_rules split: option.splits sum.splits)

lemma kept_standalone [kept_rules]:
  assumes ee: "\<And>n. kept i (ee n) (ee' n)"
  shows "kept i (eval_standalone_expression W ee s) (eval_standalone_expression W ee' s)"
  unfolding eval_standalone_expression_def Let_def
  by (auto intro!: kept_rules ee kept_does kept_updates split: option.splits)

lemma kept_index [kept_rules]:
  assumes ee: "\<And>n. kept i (ee n) (ee' n)"
  shows "kept i (eval_index W ee n) (eval_index W ee' n)"
  unfolding eval_index_def Let_def by (auto intro!: kept_rules ee split: option.splits eval.splits)

lemma kept_read_element [kept_rules]:
  assumes ee: "\<And>n. kept i (ee n) (ee' n)"
  shows "kept i (read_element W ee name n) (read_element W ee' name n)"
  unfolding read_element_def by (auto intro!: kept_rules ee split: sum.splits)

text \<open>Elements are written in a slot that a lookup found.\<close>

lemma same_stack_recount:
  assumes "j < length (frames (scopes s))"
  shows "same_stack s (snd (let S = scopes s; (res, F, tot) = slot_recount operation old new (frames S ! j) (held s);
           F = (case res of Inl _ \<Rightarrow> F | Inr _ \<Rightarrow> F\<lparr>locals := AList.update key v (locals F)\<rparr>) in
     (res, s\<lparr>scopes := S\<lparr>frames := (frames S)[j := F]\<rparr>, held := tot\<rparr>)))"
  using assms by (auto simp: Let_def shapes_replaced dest: shape_recount split: prod.splits sum.splits)

lemma kept_total: "(\<And>s. \<exists>a t. m s = Some (a, t) \<and> same_stack s t) \<Longrightarrow> kept i m m"
  unfolding kept_def triple_def by (metis (mono_tags, lifting) case_prod_conv option.simps(5) same)

lemma total_does: "same_stack s (snd (f s)) \<Longrightarrow> \<exists>a t. does f s = Some (a, t) \<and> same_stack s t"
  by (cases "f s") (simp add: does_simp)

lemma write_element_total: "\<exists>a t. write_element_at name j v combine s = Some (a, t) \<and> same_stack s t"
proof -
  have recount: "\<exists>a t. recount_slot k key operation old new v' s = Some (a, t) \<and> same_stack s t"
    if "lookup_slot (scopes s) name = Some (k, key')" for k key key' operation old new v'
    unfolding recount_slot_def using lookup_slot_bound [OF that] by (intro total_does same_stack_recount) simp
  note defs = write_element_at_def andThen_def step_simps fails_def
  show ?thesis
  proof (cases "bind_res (read_element_at name j s) (\<lambda>current. combine (shared s) current v)")
    case (Inl e)
    then show ?thesis by (simp add: defs)
  next
    case (Inr v')
    show ?thesis
    proof (cases "lookup_slot (scopes s) name")
      case None
      then show ?thesis using Inr by (simp add: defs)
    next
      case (Some slot)
      obtain k key where slot: "lookup_slot (scopes s) name = Some (k, key)" using Some by (cases slot) auto
      show ?thesis
      proof (cases "lookup name s")
        case None
        then show ?thesis using Inr slot by (simp add: defs)
      next
        case (Some current)
        show ?thesis
        proof (cases "element_write (dec (shared s)) name (nat (j - 1)) v' current")
          case (Inl e)
          then show ?thesis using Inr slot Some by (simp add: defs)
        next
          case written: (Inr w)
          obtain operation old new v'' where w: "w = (operation, old, new, v'')" by (cases w)
          show ?thesis
            using recount [OF slot, of key operation old new v''] Inr slot Some written w by (auto simp: defs)
        qed
      qed
    qed
  qed
qed

lemma kept_write_element_at [kept_rules]: "kept i (write_element_at name j v combine) (write_element_at name j v combine)"
  by (rule kept_total) (rule write_element_total)

lemma kept_write_element [kept_rules]:
  assumes ee: "\<And>n. kept i (ee n) (ee' n)"
  shows "kept i (write_element W ee name n v combine) (write_element W ee' name n v combine)"
  unfolding write_element_def by (auto intro!: kept_rules ee split: sum.splits)


section \<open>Arguments\<close>

lemma kept_argument [kept_rules]:
  assumes ee: "\<And>n. kept i (ee n) (ee' n)"
  shows "kept i (eval_argument W ee n) (eval_argument W ee' n)"
  unfolding eval_argument_def by (auto intro!: kept_rules ee split: option.splits sum.splits eval.splits)

lemma kept_argument_list [kept_rules]:
  assumes ee: "\<And>n. kept i (ee n) (ee' n)"
  shows "kept i (eval_argument_list W ee ns) (eval_argument_list W ee' ns)"
  by (induction ns) (auto intro!: kept_rules ee split: sum.splits)

lemma kept_with_args [kept_rules]:
  assumes ee: "\<And>n. kept i (ee n) (ee' n)" and f: "\<And>as. kept i (f as) (f' as)"
  shows "kept i (with_args W ee args f) (with_args W ee' args f')"
  unfolding with_args_def eval_call_args_def by (auto intro!: kept_rules kept_updates ee f split: sum.splits)

lemma kept_field_assign [kept_rules]: "calm W \<Longrightarrow> kept i (try_field_assign W n v) (try_field_assign W n v)"
  unfolding try_field_assign_def by (auto intro!: kept_rules split: option.splits)

lemma kept_write_var [kept_rules]: "calm W \<Longrightarrow> kept i (write_var_argument W n v) (write_var_argument W n v)"
  unfolding write_var_argument_def Let_def
  by (auto intro!: kept_rules split: option.splits)

lemma kept_write_back [kept_rules]: "calm W \<Longrightarrow> kept i (write_back W ns elements wb) (write_back W ns elements wb)"
  unfolding write_back_def Let_def by (auto intro!: kept_rules split: option.splits prod.splits)

lemma kept_write_all [kept_rules]: "calm W \<Longrightarrow> kept i (write_all_back W ns elements wbs) (write_all_back W ns elements wbs)"
  by (induction wbs) (auto intro!: kept_rules split: eval.splits)

lemma kept_writebacks [kept_rules]: "calm W \<Longrightarrow> kept i (apply_var_writebacks W args elements) (apply_var_writebacks W args elements)"
  unfolding apply_var_writebacks_def by (auto intro!: kept_rules kept_does split: option.splits)

lemma kept_call_and_write_back [kept_rules]:
  "calm W \<Longrightarrow> kept i call call' \<Longrightarrow> kept i (call_and_write_back W args as call) (call_and_write_back W args as call')"
  unfolding call_and_write_back_def by (auto intro!: kept_rules)


section \<open>Enums and chains\<close>

lemma kept_new_list [kept_rules]: "kept i (new_list m vs) (new_list m vs)"
  unfolding new_list_def by (auto intro!: kept_rules kept_does alloc_kept)

lemma kept_enum_static [kept_rules]: "kept i (dispatch_enum_static W name m args) (dispatch_enum_static W name m args)"
  unfolding dispatch_enum_static_def Let_def
  by (auto intro!: kept_rules split: option.splits list.splits val.splits prod.splits)

lemma kept_enum_method [kept_rules]: "kept i (dispatch_enum_method W v m args) (dispatch_enum_method W v m args)"
  unfolding dispatch_enum_method_def by (auto intro!: kept_rules split: val.splits)

lemma kept_temporary [kept_rules]:
  assumes "\<And>name. kept i (body name) (body' name)"
  shows "kept i (with_temporary v n body) (with_temporary v n body')"
  unfolding with_temporary_def Let_def by (auto intro!: kept_rules kept_updates assms)

lemma kept_enum_call [kept_rules]:
  "exprs_below i K K' \<Longrightarrow> kept i (enum_type_call W K prefix n) (enum_type_call W K' prefix n)"
  unfolding enum_type_call_def by (auto intro!: kept_rules)

lemma kept_call_on [kept_rules]: "calls_below i K K' \<Longrightarrow> kept i (call_on W K v n) (call_on W K' v n)"
  unfolding call_on_def Let_def by (auto intro!: kept_rules)

lemma kept_prefix [kept_rules]:
  assumes "calm W" "exprs_below i K K'" "calls_below i K K'"
  shows "kept i (eval_prefix W K whole primary suffixes) (eval_prefix W K' whole primary suffixes)"
proof (induction suffixes)
  case (Cons suffix rest)
  then show ?case
    using assms by (auto simp: Let_def intro!: kept_rules split: option.splits)
qed (use assms in \<open>auto intro!: kept_rules\<close>)

text \<open>A chain has a result for the first evaluator when it has one for the second.\<close>

definition kept_option :: "'i \<Rightarrow> ('d, 'x) run option \<Rightarrow> ('d, 'x) run option \<Rightarrow> bool" where
  "kept_option i a b \<longleftrightarrow> rel_option (kept i) a b"

lemma kept_option_simps [simp]:
  "kept_option i None None" "kept_option i (Some m) (Some m') = kept i m m'"
  "kept_option i None (Some m) = False" "kept_option i (Some m) None = False"
  by (simp_all add: kept_option_def)

lemma kept_option_case [kept_rules]:
  "kept_option i a b \<Longrightarrow> kept i m m' \<Longrightarrow>
   kept i (case a of None \<Rightarrow> m | Some r \<Rightarrow> r) (case b of None \<Rightarrow> m' | Some r \<Rightarrow> r)"
  by (cases a; cases b) auto

lemma kept_chained_call [kept_rules]:
  assumes "calm W" "exprs_below i K K'" "calls_below i K K'"
  shows "kept_option i (eval_chained_call W K n) (eval_chained_call W K' n)"
  unfolding eval_chained_call_def
  using assms by (auto intro!: kept_rules kept_does kept_updates split: option.splits prod.splits)

lemma kept_chained_value [kept_rules]:
  assumes "calm W" "exprs_below i K K'" "calls_below i K K'"
  shows "kept_option i (eval_chained_value W K n) (eval_chained_value W K' n)"
  using assms by (cases "chain_parts n") (auto simp: eval_chained_value_def intro!: kept_rules)

lemma kept_eval_call [kept_rules]:
  assumes "calm W" "exprs_below i K K'" "calls_below i K K'"
  shows "kept i (eval_call W K n) (eval_call W K' n)"
  unfolding eval_call_def using assms by (auto intro!: kept_rules split: prod.splits)


section \<open>Assignments\<close>

lemma kept_of_result [kept_rules]: "kept i (andThen (reads f) (\<lambda>r. ret (of_result r))) (andThen (reads f) (\<lambda>r. ret (of_result r)))"
  by (intro kept_rules)

lemma kept_combined [kept_rules]:
  assumes "kept i load load'" "\<And>v. kept i (f v) (f' v)"
  shows "kept i (combined_with kind rhs load f) (combined_with kind rhs load' f')"
  unfolding combined_with_def using assms by (auto intro!: kept_rules split: assign_kind.splits)

lemma kept_assign_field [kept_rules]:
  "calm W \<Longrightarrow> kept i (assign_record_field W lhs recv field kind rhs) (assign_record_field W lhs recv field kind rhs)"
  unfolding assign_record_field_def
  by (auto intro!: kept_rules split: option.splits)

lemma kept_assign_implicit [kept_rules]:
  "calm W \<Longrightarrow> kept i (assign_implicit W name kind rhs) (assign_implicit W name kind rhs)"
  unfolding assign_implicit_def
  by (auto intro!: kept_rules split: option.splits eval.splits sum.splits assign_kind.splits)

lemma kept_assign_variable [kept_rules]: "kept i (assign_variable written name kind rhs) (assign_variable written name kind rhs)"
  unfolding assign_variable_def by (auto intro!: kept_rules split: option.splits sum.splits)

lemma kept_assign_name [kept_rules]: "calm W \<Longrightarrow> kept i (assign_name W lhs kind rhs) (assign_name W lhs kind rhs)"
  unfolding assign_name_def Let_def by (auto intro!: kept_rules split: option.splits)

lemma kept_assignment [kept_rules]:
  assumes "calm W" "exprs_below i K K'"
  shows "kept i (eval_assignment W K lhs kind ns) (eval_assignment W K' lhs kind ns)"
  unfolding eval_assignment_def
  using assms by (auto intro!: kept_rules split: prod.splits eval.splits option.splits)

lemma kept_expression_node [kept_rules]:
  assumes "calm W" "exprs_below i K K'"
  shows "kept i (eval_expression_node W K n) (eval_expression_node W K' n)"
  unfolding eval_expression_node_def Let_def
  using assms by (auto intro!: kept_rules kept_updates cov_kept split: list.splits option.splits)


section \<open>Set literals, names and postfix expressions\<close>

lemma kept_fragment [kept_rules]:
  "exprs_below i K K' \<Longrightarrow> kept i (eval_expression_fragment W K s) (eval_expression_fragment W K' s)"
  unfolding eval_expression_fragment_def by (auto intro!: kept_rules split: option.splits)

lemma kept_members [kept_rules]:
  "exprs_below i K K' \<Longrightarrow> kept i (eval_members W K ms vs) (eval_members W K' ms vs)"
  by (induction ms arbitrary: vs) (auto intro!: kept_rules)

lemma kept_set_literal [kept_rules]:
  "exprs_below i K K' \<Longrightarrow> kept i (eval_set_literal W K n) (eval_set_literal W K' n)"
  unfolding eval_set_literal_def by (auto intro!: kept_rules split: option.splits sum.splits)

lemma niladic_kept: "same_stack s (snd (case lookup name s of Some v \<Rightarrow> (Some v, s) | None \<Rightarrow> niladic_clock_builtin W name s))"
  by (simp add: niladic_clock_builtin_def read_clock_def Let_def split: option.split)

lemma kept_bound_name [kept_rules]: "calm W \<Longrightarrow> kept i (eval_bound_name W name e) (eval_bound_name W name e)"
  unfolding eval_bound_name_def
  by (auto intro!: kept_rules kept_does [OF niladic_kept] split: option.splits)

lemma kept_name [kept_rules]: "calm W \<Longrightarrow> kept i (eval_name W n) (eval_name W n)"
  unfolding eval_name_def Let_def by (auto intro!: kept_rules)

lemma kept_record_access [kept_rules]:
  "calm W \<Longrightarrow> calls_below i K K' \<Longrightarrow>
   kept i (eval_record_access W K recv field table h) (eval_record_access W K' recv field table h)"
  unfolding eval_record_access_def
  by (auto simp: plain_orderly_def case_prod_beta intro!: kept_rules kept_calm)

lemma kept_postfix_value [kept_rules]:
  assumes "calm W" "exprs_below i K K'" "calls_below i K K'"
  shows "kept i (eval_postfix_value W K n) (eval_postfix_value W K' n)"
  unfolding eval_postfix_value_def
  using assms by (cases "indexed_variable n"; cases "named_child n 0") (auto intro!: kept_rules split: prod.splits)

lemma kept_unary [kept_rules]: "exprs_below i K K' \<Longrightarrow> kept i (eval_unary K n) (eval_unary K' n)"
  unfolding eval_unary_def by (auto intro!: kept_rules split: option.splits)

lemma kept_postfix [kept_rules]:
  assumes "calm W" "exprs_below i K K'" "calls_below i K K'"
  shows "kept i (eval_postfix W K n) (eval_postfix W K' n)"
  unfolding eval_postfix_def Let_def
  using assms by (auto intro!: kept_rules split: option.splits)

lemma kept_first_child [kept_rules]: "exprs_below i K K' \<Longrightarrow> kept i (eval_first_child K n) (eval_first_child K' n)"
  unfolding eval_first_child_def by (auto intro!: kept_rules split: option.splits)

lemma kept_expr_inner:
  assumes "calm W" "exprs_below i K K'" "calls_below i K K'"
  shows "kept i (eval_expr_inner W K n) (eval_expr_inner W K' n)"
  unfolding eval_expr_inner_def Let_def using assms by (auto intro!: kept_rules split: option.splits)

end

end
