(* ===== verification/Run_Stmts.thy ===== *)
theory Run_Stmts
  imports Run_Exprs
begin

text \<open>
  The contract of \<open>Run_Contract\<close> for statements, for the guards of the nesting depths and for the loops, which need
  fuel for as many turns as there are ticks before the deadline.
\<close>

context run_contract begin

section \<open>The guards of the nesting depths\<close>

definition full_expr :: "'i \<Rightarrow> bool" where
  "full_expr i \<longleftrightarrow> (\<forall>k s. at_place i k s \<longrightarrow> expr_depth (scopes s) \<ge> MAX_EXPR_DEPTH)"

definition full_call :: "'i \<Rightarrow> bool" where
  "full_call i \<longleftrightarrow> (\<forall>k s. at_place i k s \<longrightarrow> recursion_depth s \<ge> MAX_RECURSION_DEPTH)"

definition full_stmt :: "'i \<Rightarrow> bool" where
  "full_stmt i \<longleftrightarrow> (\<forall>k s. at_place i k s \<longrightarrow> ast_depth s \<ge> MAX_AST_DEPTH)"

lemma triple_kept: "kept i m m' \<Longrightarrow> triple partial (at_place i k) m m' (at_place i k)"
  by (simp add: kept_def)

text \<open>A bracket: a change of place, a step there, the way back.\<close>

lemma triple_bracket:
  assumes "\<And>s. at_place i k s \<Longrightarrow> at_place j k (enter s)" "\<And>s. at_place j k s \<Longrightarrow> at_place i k (leave s)" "kept j m m'"
  shows "triple partial (at_place i k)
      (andThen (updates enter) (\<lambda>_. andThen m (\<lambda>r. andThen (updates leave) (\<lambda>_. ret r))))
      (andThen (updates enter) (\<lambda>_. andThen m' (\<lambda>r. andThen (updates leave) (\<lambda>_. ret r)))) (at_place i k)"
  by (rule triple_andThen [where Q = "at_place j k"], use assms(1) in \<open>simp add: triple_def step_simps\<close>,
      rule triple_andThen [where Q = "at_place j k"], rule triple_kept [OF assms(3)],
      use assms(2) in \<open>simp add: triple_def step_simps andThen_def\<close>)

lemma kept_ast_depth:
  assumes "kept (in_stmt i) m m'"
  shows "kept i (with_ast_depth m) (with_ast_depth m')"
  unfolding with_ast_depth_def kept_def
  by (intro allI triple_bracket [where j = "in_stmt i"] assms) (auto dest: stmt_in stmt_out)

text \<open>The guard of an expression: at a full place it yields its error without a look at the expression.\<close>

lemma with_expr_depth_step:
  "with_expr_depth m s =
     (if expr_depth (scopes s) \<ge> MAX_EXPR_DEPTH then Some (eval_error expr_depth_error, s)
      else andThen m (\<lambda>r. andThen (updates (\<lambda>s. s\<lparr>scopes := exit_expr (scopes s)\<rparr>)) (\<lambda>_. ret r))
             (s\<lparr>scopes := (scopes s)\<lparr>expr_depth := Suc (expr_depth (scopes s))\<rparr>\<rparr>))"
  by (simp add: with_expr_depth_def andThen_def does_simp enter_expr_def fails_def step_simps)

lemma kept_expr_depth:
  assumes "\<not> full_expr i \<Longrightarrow> kept (in_expr i) m m'"
  shows "kept i (with_expr_depth m) (with_expr_depth m')"
  unfolding kept_def
proof (intro allI)
  fix k
  let ?inner = "\<lambda>m. andThen m (\<lambda>r. andThen (updates (\<lambda>s. s\<lparr>scopes := exit_expr (scopes s)\<rparr>)) (\<lambda>_. ret r))"
  have inner: "triple partial (at_place (in_expr i) k) (?inner m) (?inner m') (at_place i k)" if "\<not> full_expr i"
    by (rule triple_andThen [where Q = "at_place (in_expr i) k"], rule triple_kept [OF assms [OF that]])
      (auto simp: triple_def step_simps andThen_def dest: expr_out)
  show "triple partial (at_place i k) (with_expr_depth m) (with_expr_depth m') (at_place i k)"
    unfolding triple_def
  proof (intro allI impI)
    fix s assume s: "at_place i k s"
    show "case with_expr_depth m s of None \<Rightarrow> partial | Some (a, t) \<Rightarrow> with_expr_depth m' s = Some (a, t) \<and> at_place i k t"
    proof (cases "expr_depth (scopes s) \<ge> MAX_EXPR_DEPTH")
      case True
      then show ?thesis using s by (simp add: with_expr_depth_step)
    next
      case False
      then have "\<not> full_expr i" using s by (auto simp: full_expr_def)
      then show ?thesis
        using inner [unfolded triple_def, rule_format, OF _ expr_in [OF s]] False
        unfolding with_expr_depth_step if_not_P [OF False] by simp
    qed
  qed
qed

lemma kept_expr_step:
  assumes "calm W" "\<not> full_expr i \<Longrightarrow> exprs_below (in_expr i) K K' \<and> calls_below (in_expr i) K K'"
  shows "kept i (expr_step W K n) (expr_step W K' n)"
  unfolding expr_step_def
  using assms by (auto intro!: kept_rules kept_updates trace_kept kept_expr_depth kept_expr_inner)


section \<open>Statements without a loop\<close>

lemma kept_statements [kept_rules]:
  "stmts_below i K K' \<Longrightarrow> kept i (eval_statements K ns r) (eval_statements K' ns r)"
  by (induction ns arbitrary: r) (auto intro!: kept_rules split: eval.splits)

lemma kept_block [kept_rules]: "stmts_below i K K' \<Longrightarrow> kept i (eval_block K n) (eval_block K' n)"
  unfolding eval_block_def by (intro kept_rules)

lemma kept_decision [kept_rules]:
  "exprs_below i K K' \<Longrightarrow> kept i (eval_decision_condition K c n) (eval_decision_condition K' c n)"
  unfolding eval_decision_condition_def
  by (auto intro!: kept_rules kept_updates kept_does cov_kept observation_kept split: eval.splits val.splits)

lemma kept_optional [kept_rules]: "stmts_below i K K' \<Longrightarrow> kept i (eval_optional K n) (eval_optional K' n)"
  unfolding eval_optional_def by (auto intro!: kept_rules split: option.splits)

lemma kept_cov_decision [kept_rules]: "kept i (updates (cov_record_decision n b)) (updates (cov_record_decision n b))"
  by (rule kept_updates) (rule cov_kept)

lemma kept_eval_if [kept_rules]:
  "exprs_below i K K' \<Longrightarrow> stmts_below i K K' \<Longrightarrow> kept i (eval_if K n) (eval_if K' n)"
  unfolding eval_if_def by (auto intro!: kept_rules split: option.splits)

lemma kept_loop_body [kept_rules]: "stmts_below i K K' \<Longrightarrow> kept i (loop_body K body) (loop_body K' body)"
  unfolding loop_body_def by (auto intro!: kept_rules split: option.splits)

lemma kept_needed [kept_rules]:
  assumes "exprs_below i K K'" "\<And>v. kept i (f v) (f' v)"
  shows "kept i (eval_needed K n e f) (eval_needed K' n e f')"
  unfolding eval_needed_def using assms by (auto intro!: kept_rules split: option.splits)

lemma kept_match_labels [kept_rules]:
  "exprs_below i K K' \<Longrightarrow> kept i (match_labels K v ls) (match_labels K' v ls)"
  by (induction ls) (auto intro!: kept_rules split: eval.splits sum.splits)

lemma kept_cov_paths [kept_rules]:
  "kept i (updates (cov_record_path n p \<circ> cov_record_decision n b)) (updates (cov_record_path n p \<circ> cov_record_decision n b))"
  unfolding o_def by (rule kept_updates) (blast intro: cov_kept same_stack_trans)

lemma kept_cov_arms [kept_rules]:
  "kept i (updates (cov_ensure_path n p \<circ> fold (\<lambda>(j, arm). cov_ensure_path n (q j arm)) arms))
     (updates (cov_ensure_path n p \<circ> fold (\<lambda>(j, arm). cov_ensure_path n (q j arm)) arms))"
proof -
  have "same_stack s (fold (\<lambda>(j, arm). cov_ensure_path n (q j arm)) arms s)" for s
    by (induction arms arbitrary: s) (auto intro: cov_kept same_stack_trans)
  then show ?thesis unfolding o_def by (intro kept_updates) (blast intro: cov_kept same_stack_trans)
qed

lemma kept_arms [kept_rules]:
  assumes "exprs_below i K K'" "stmts_below i K K'" "kept i m m'"
  shows "kept i (run_arms K n v m arms) (run_arms K' n v m' arms)"
proof (induction arms)
  case (Cons a arms)
  then show ?case using assms by (cases a) (auto intro!: kept_rules split: option.splits sum.splits)
qed (use assms in simp)

lemma kept_eval_case [kept_rules]:
  "exprs_below i K K' \<Longrightarrow> stmts_below i K K' \<Longrightarrow> kept i (eval_case K n) (eval_case K' n)"
  unfolding eval_case_def Let_def by (intro kept_rules)

lemma kept_exit [kept_rules]: "exprs_below i K K' \<Longrightarrow> kept i (eval_exit K n) (eval_exit K' n)"
  unfolding eval_exit_def by (auto intro!: kept_rules split: option.splits)

lemma kept_asserterror [kept_rules]: "stmts_below i K K' \<Longrightarrow> kept i (eval_asserterror K n) (eval_asserterror K' n)"
  unfolding eval_asserterror_def by (auto intro!: kept_rules kept_updates split: option.splits eval.splits)

lemma kept_expression_stmt [kept_rules]:
  assumes "calm W" "exprs_below i K K'" "calls_below i K K'"
  shows "kept i (eval_expression_stmt W K n) (eval_expression_stmt W K' n)"
  unfolding eval_expression_stmt_def set_stmt_position_def Let_def
  using assms by (auto intro!: kept_rules kept_updates)


section \<open>Loops\<close>

text \<open>
  \<open>k\<close> is a number of ticks the run has reached.  From tick \<open>N\<close> on the run is cancelled or past its deadline; a loop
  with fuel for \<open>N\<close> turns meets it before its fuel is used up.
\<close>

definition stops_at :: "nat \<Rightarrow> ('d, 'x) world \<Rightarrow> bool" where
  "stops_at N W \<longleftrightarrow> partial \<or> (\<forall>t\<ge>N. w_cancelled W t \<or> w_deadline W t)"

definition turn :: "'i \<Rightarrow> nat \<Rightarrow> ('d, 'x, 'a) step \<Rightarrow> ('d, 'x, 'a) step \<Rightarrow> bool" where
  "turn i k m m' \<longleftrightarrow> triple partial (at_place i k) m m' (at_place i k)"

lemma turn_kept: "kept i m m' \<Longrightarrow> turn i k m m'"
  by (simp add: turn_def kept_def)

lemma kept_turn: "(\<And>k. turn i k m m') \<Longrightarrow> kept i m m'"
  by (simp add: turn_def kept_def)

lemma turn_andThen: "kept i m m' \<Longrightarrow> (\<And>a. turn i k (f a) (f' a)) \<Longrightarrow> turn i k (andThen m f) (andThen m' f')"
  by (auto simp: turn_def intro: triple_andThen triple_kept)

lemma turn_value_then: "kept i m m' \<Longrightarrow> (\<And>v. turn i k (f v) (f' v)) \<Longrightarrow> turn i k (value_then m f) (value_then m' f')"
  unfolding value_then_def by (rule turn_andThen) (auto intro: turn_kept kept_ret split: eval.splits)

lemma turn_if: "(b \<Longrightarrow> turn i k m m') \<Longrightarrow> (\<not> b \<Longrightarrow> turn i k f f') \<Longrightarrow> turn i k (if b then m else f) (if b then m' else f')"
  by simp

lemma turn_leave:
  "turn i k m m' \<Longrightarrow>
   turn i k (case b of Go_On \<Rightarrow> m | Leave r \<Rightarrow> ret r) (case b of Go_On \<Rightarrow> m' | Leave r \<Rightarrow> ret r)"
  by (cases b) (auto intro: turn_kept kept_ret)

lemmas turn_rules = turn_andThen turn_value_then turn_if turn_leave turn_kept [OF kept_ret] turn_kept [OF kept_done]
  turn_kept [OF kept_fails]

lemma turn_head:
  assumes stop: "stops_at N W" and rest: "partial \<or> k < N \<Longrightarrow> turn i (Suc k) m m'"
  shows "turn i k (unless_interrupted W loop m) (unless_interrupted W loop m')"
  unfolding turn_def triple_def
proof (intro allI impI)
  fix s assume s: "at_place i k s"
  define t where "t = s\<lparr>ticks := ticks s + 1, shared := (shared s)\<lparr>thread_cancelled := w_cancelled W (ticks s)\<rparr>\<rparr>"
  have step: "unless_interrupted W loop m s =
      (if w_cancelled W (ticks s) then Some (eval_error (''interpreter cancelled in '' @ loop), t)
       else if w_deadline W (ticks s) then Some (eval_error (''interpreter deadline exceeded in '' @ loop), t)
       else m t)" for m
    by (simp add: unless_interrupted_def interrupted_def andThen_def does_simp Let_def fails_def step_simps t_def)
  have "same_stack s t" by (simp add: t_def same_stack_def)
  then have t: "at_place i k t" using s same by blast
  show "case unless_interrupted W loop m s of None \<Rightarrow> partial
    | Some (a, u) \<Rightarrow> unless_interrupted W loop m' s = Some (a, u) \<and> at_place i k u"
  proof (cases "w_cancelled W (ticks s) \<or> w_deadline W (ticks s)")
    case True
    then show ?thesis using t unfolding step by auto
  next
    case False
    then have "partial \<or> ticks s < N" using stop unfolding stops_at_def by (meson not_le)
    then have "partial \<or> k < N" using clock [OF s] by auto
    then have m: "turn i (Suc k) m m'" by (rule rest)
    have "Suc k \<le> ticks t" using clock [OF s] by (simp add: t_def)
    then have after: "at_place i (Suc k) t" by (rule later [OF t])
    have weaken: "at_place i k u" if "at_place i (Suc k) u" for u
      using later [OF that, of k] clock [OF that] by simp
    show ?thesis
      using m [unfolded turn_def triple_def, rule_format, OF after] False weaken unfolding step
      by (auto split: option.splits)
  qed
qed

definition fuelled :: "nat \<Rightarrow> nat \<Rightarrow> nat \<Rightarrow> bool" where
  "fuelled N fuel k \<longleftrightarrow> partial \<or> 0 < fuel \<and> N < fuel + k"

lemma fuelled_next: "fuelled N (Suc fuel) k \<Longrightarrow> partial \<or> k < N \<Longrightarrow> fuelled N fuel (Suc k)"
  by (auto simp: fuelled_def)

lemma turn_no_fuel: "fuelled N 0 k \<Longrightarrow> turn i k out_of_fuel m'"
  unfolding turn_def triple_def fuelled_def by (simp add: step_simps)

lemma turn_while:
  assumes "stops_at N W" "exprs_below i K K'" "stmts_below i K K'"
  shows "fuelled N fuel k \<Longrightarrow> fuel \<le> fuel' \<Longrightarrow>
    turn i k (while_loop fuel W K n c body) (while_loop fuel' W K' n c body)"
proof (induction fuel arbitrary: fuel' k)
  case (Suc fuel)
  then obtain f' where f': "fuel' = Suc f'" "fuel \<le> f'" by (cases fuel') auto
  show ?case
    unfolding f' while_loop.simps
    by (rule turn_head [OF assms(1)], intro turn_rules kept_rules assms Suc.IH f')
      (use Suc.prems fuelled_next in blast)
qed (simp add: turn_no_fuel)

lemma turn_repeat:
  assumes "stops_at N W" "exprs_below i K K'" "stmts_below i K K'"
  shows "fuelled N fuel k \<Longrightarrow> fuel \<le> fuel' \<Longrightarrow>
    turn i k (repeat_loop fuel W K n body c) (repeat_loop fuel' W K' n body c)"
proof (induction fuel arbitrary: fuel' k)
  case (Suc fuel)
  then obtain f' where f': "fuel' = Suc f'" "fuel \<le> f'" by (cases fuel') auto
  have next_turn: "turn i (Suc k) (repeat_loop fuel W K n body c) (repeat_loop f' W K' n body c)" if "partial \<or> k < N"
    using Suc fuelled_next that f' by blast
  show ?case
    unfolding f' repeat_loop.simps
    by (rule turn_head [OF assms(1)])
      (use next_turn assms in \<open>auto intro!: turn_rules kept_rules split: after_body.splits option.splits\<close>)
qed (simp add: turn_no_fuel)

lemma turn_for:
  assumes "stops_at N W" "stmts_below i K K'"
  shows "fuelled N fuel k \<Longrightarrow> fuel \<le> fuel' \<Longrightarrow>
    turn i k (for_loop fuel W K n name big down z body j) (for_loop fuel' W K' n name big down z body j)"
proof (induction fuel arbitrary: fuel' k j)
  case (Suc fuel)
  then obtain f' where f': "fuel' = Suc f'" "fuel \<le> f'" by (cases fuel') auto
  have next_turn: "turn i (Suc k) (for_loop fuel W K n name big down z body j') (for_loop f' W K' n name big down z body j')"
    if "partial \<or> k < N" for j'
    using Suc fuelled_next that f' by blast
  show ?case
    unfolding f' for_loop.simps Let_def
    by (rule turn_head [OF assms(1)])
      (use next_turn assms in \<open>auto intro!: turn_rules kept_rules kept_updates split: after_body.splits option.splits\<close>)
qed (simp add: turn_no_fuel)

lemma stops_later: "stops_at N W \<Longrightarrow> N \<le> M \<Longrightarrow> stops_at M W"
  unfolding stops_at_def by (meson le_trans)

lemma fuelled_start: "N < turns \<Longrightarrow> fuelled N turns k"
  by (auto simp: fuelled_def)

lemma kept_bind_foreach: "kept i (bind_foreach name item) (bind_foreach name item)"
  unfolding bind_foreach_def by (intro kept_rules kept_updates same_stack_bind_top)

lemma kept_foreach_loop [kept_rules]:
  assumes "stops_at N W" "stmts_below i K K'"
  shows "kept i (foreach_loop W K n name body items) (foreach_loop W K' n name body items)"
proof (induction items)
  case (Cons item items)
  show ?case
    unfolding foreach_loop.simps
    by (rule kept_andThen, rule kept_cov_decision, rule kept_turn, rule turn_head [OF assms(1)])
      (intro turn_rules kept_rules kept_bind_foreach turn_kept [OF Cons] assms)
qed (auto intro!: kept_rules)

text \<open>The whole statement: the loop fuel of the first evaluator is enough, or nothing is claimed of its end.\<close>

definition paced :: "('d, 'x) world \<Rightarrow> nat \<Rightarrow> nat \<Rightarrow> bool" where
  "paced W turns turns' \<longleftrightarrow> turns \<le> turns' \<and> (partial \<or> (\<exists>N. N < turns \<and> stops_at N W))"

lemma paced_loop:
  assumes "paced W turns turns'"
  obtains N where "stops_at N W" "\<And>k. fuelled N turns k" "turns \<le> turns'"
proof (cases partial)
  case True
  then show thesis using that [of 0] assms unfolding paced_def stops_at_def fuelled_def by blast
next
  case False
  then obtain N where "N < turns" "stops_at N W" using assms unfolding paced_def by blast
  then show thesis using that fuelled_start assms unfolding paced_def by blast
qed

lemma kept_eval_while [kept_rules]:
  assumes "paced W turns turns'" "exprs_below i K K'" "stmts_below i K K'"
  shows "kept i (eval_while turns W K n) (eval_while turns' W K' n)"
  using assms(1)
  by (elim paced_loop) (auto simp: eval_while_def intro!: kept_rules kept_turn turn_while assms split: option.splits)

lemma kept_eval_repeat [kept_rules]:
  assumes "paced W turns turns'" "exprs_below i K K'" "stmts_below i K K'"
  shows "kept i (eval_repeat turns W K n) (eval_repeat turns' W K' n)"
  using assms(1) by (elim paced_loop) (auto simp: eval_repeat_def intro!: kept_turn turn_repeat assms)

lemma kept_eval_for [kept_rules]:
  assumes "paced W turns turns'" "exprs_below i K K'" "stmts_below i K K'"
  shows "kept i (eval_for turns W K n) (eval_for turns' W K' n)"
proof -
  have loop: "kept i (for_loop turns W K m name big down z body j) (for_loop turns' W K' m name big down z body j)"
    for m name big down z body j
    using assms(1) by (elim paced_loop) (auto intro: kept_turn turn_for assms)
  show ?thesis
    unfolding eval_for_def using assms by (auto intro!: kept_rules loop split: option.splits)
qed

lemma kept_eval_foreach [kept_rules]:
  assumes "paced W turns turns'" "exprs_below i K K'" "stmts_below i K K'"
  shows "kept i (eval_foreach W K n) (eval_foreach W K' n)"
  using assms(1)
  by (elim paced_loop) (auto simp: eval_foreach_def intro!: kept_rules assms split: option.splits sum.splits)

lemma kept_stmt_inner:
  assumes "calm W" "paced W turns turns'" "exprs_below i K K'" "stmts_below i K K'" "calls_below i K K'"
  shows "kept i (eval_stmt_inner turns W K n) (eval_stmt_inner turns' W K' n)"
proof -
  have inner: "kept i (case c of Some inner \<Rightarrow> eval_expression_stmt W K inner | None \<Rightarrow> done_with VEmpty)
      (case c of Some inner \<Rightarrow> eval_expression_stmt W K' inner | None \<Rightarrow> done_with VEmpty)" for c
    using assms by (auto intro!: kept_rules split: option.splits)
  show ?thesis
    unfolding eval_stmt_inner_def Let_def
    by (intro kept_if inner kept_optional kept_block kept_eval_if kept_eval_while kept_eval_for kept_eval_foreach [OF assms(2)]
        kept_eval_repeat kept_eval_case kept_exit kept_ret kept_asserterror kept_expression_stmt assms)
qed

lemma kept_stmt_step:
  assumes "calm W" "paced W turns turns'"
    and "\<not> full_stmt i \<Longrightarrow> exprs_below (in_stmt i) K K' \<and> stmts_below (in_stmt i) K K' \<and> calls_below (in_stmt i) K K'"
  shows "kept i (stmt_step turns W K n) (stmt_step turns' W K' n)"
proof -
  let ?run = "\<lambda>turns K. andThen (updates (cov_record_stmt n)) (\<lambda>_. with_ast_depth (eval_stmt_inner turns W K n))"
  have run: "kept i (?run turns K) (?run turns' K')" if "\<not> full_stmt i"
    using assms that by (intro kept_andThen kept_updates cov_kept kept_ast_depth kept_stmt_inner) auto
  have step: "stmt_step turns W K n s =
      (if ast_depth s \<ge> MAX_AST_DEPTH then Some (eval_error ast_depth_error, s) else ?run turns K s)" for turns K s
    by (simp add: stmt_step_def andThen_def [of "reads _"] step_simps fails_def)
  show ?thesis
    unfolding kept_def triple_def
  proof (intro allI impI)
    fix k s assume s: "at_place i k s"
    show "case stmt_step turns W K n s of None \<Rightarrow> partial
      | Some (a, t) \<Rightarrow> stmt_step turns' W K' n s = Some (a, t) \<and> at_place i k t"
    proof (cases "ast_depth s \<ge> MAX_AST_DEPTH")
      case True
      then show ?thesis using s by (simp add: step)
    next
      case False
      then have "\<not> full_stmt i" using s by (auto simp: full_stmt_def)
      then show ?thesis
        using run [unfolded kept_def triple_def, rule_format, OF _ s] unfolding step if_not_P [OF False] by simp
    qed
  qed
qed

end

end
