(* ===== verification/Run_Calls.thy ===== *)
theory Run_Calls
  imports Run_Stmts
begin

text \<open>The contract of \<open>Run_Contract\<close> for calls: the frames they push are popped, whatever the body does.\<close>

section \<open>The frame of a call\<close>

lemma frame_step_at: "frame_step_kept f \<Longrightarrow> same_stack s (snd (f (F, s)))"
  by (simp add: frame_step_kept_def)

lemma return_default_kept [stack_kept]: "same_stack s (snd (return_default r s))"
proof -
  have "same_stack s (snd (default_for_declared_type t s))" for t
    by (simp add: default_for_declared_type_def fresh_kept)
  then show ?thesis by (simp add: return_default_def case_prod_beta Let_def split: option.splits)
qed

lemma bind_return_kept [stack_kept]: "frame_step_kept (bind_return r d)"
  unfolding bind_return_def by (auto intro: stack_kept split: option.splits)

lemma bind_implicit_kept [stack_kept]: "frame_step_kept (bind_implicit rec)"
proof -
  have "frame_step_kept (\<lambda>(F, s). (F\<lparr>implicit_record := True\<rparr>, s))" by (simp add: frame_step_kept_def)
  then show ?thesis unfolding bind_implicit_def by (auto intro!: frame_step_comp frame_step_id frame_bind_kept split: option.splits)
qed

lemma bind_param_kept:
  assumes "plain_orderly W"
  shows "frame_step_kept (bind_param W pv)"
proof -
  obtain p v where pv: "pv = (p, v)" by fastforce
  have bound: "same_stack s (snd (frame_length nm len (frame_bind nm w (F, s))))" for nm len w F s
    using frame_step_at [OF frame_step_comp [OF frame_length_kept frame_bind_kept]] by simp
  have "same_stack s (snd (w_fork_record W rv s))" for rv s using assms by (simp add: plain_orderly_def)
  then show ?thesis
    unfolding frame_step_kept_def bind_param_def pv
    by (auto simp: case_prod_beta Let_def bound split: val.splits intro: same_stack_trans [OF _ bound])
qed

lemma call_frame_for_kept:
  fixes W :: "('d, 'x) world" and s :: "('d, 'x) interp"
  assumes "plain_orderly W"
  shows "same_stack s (snd (call_frame_for W proc obj name args rec s))"
proof -
  define step :: "'d val \<Rightarrow> ('d, 'x) frame_step" where "step = (\<lambda>d. bind_implicit rec \<circ> (bind_procedure_locals proc \<circ> bind_return (collect_return proc) d))"
  have step: "frame_step_kept (step d)" for d
    unfolding step_def by (intro frame_step_comp bind_implicit_kept locals_kept bind_return_kept)
  have params: "frame_step_kept (fold (bind_param W) (zip (collect_params proc) args))"
    by (intro frame_step_fold bind_param_kept assms)
  obtain F t where F: "fold (bind_param W) (zip (collect_params proc) args) (new_frame obj name, s) = (F, t)" by fastforce
  obtain d u where d: "return_default (collect_return proc) t = (d, u)" by fastforce
  obtain G w where G: "step d (F, u) = (G, w)" by fastforce
  have "same_stack s t" using params F unfolding frame_step_kept_def by (metis snd_conv)
  moreover have "same_stack t u" using return_default_kept [of t "collect_return proc"] d by simp
  moreover have "same_stack u w" using step [of d] G unfolding frame_step_kept_def by (metis snd_conv)
  ultimately show ?thesis using F d G by (auto simp: call_frame_for_def step_def intro: same_stack_trans)
qed

lemma fresh_globals_kept [stack_kept]: "same_stack s (snd (fresh_globals obj_node obj s))"
  unfolding fresh_globals_def by (rule frame_step_at) (rule globals_kept)

lemma globals_for_call_kept [stack_kept]: "same_stack s (snd (globals_for_call obj_node obj inst sub s))"
proof -
  have id: "same_stack s (snd (single_instance_id obj s))" for s
    by (simp add: single_instance_id_def Let_def split: option.splits)
  have stored: "same_stack s (snd (stored_globals obj_node obj k s))" for k s
    by (simp add: stored_globals_def case_prod_beta Let_def fresh_globals_kept split: option.splits)
  have both: "same_stack s (snd (stored_globals obj_node obj k (snd (single_instance_id obj s))))" for k s
    using same_stack_trans [OF id stored] by blast
  show ?thesis
    by (auto simp: globals_for_call_def case_prod_beta Let_def id stored both split: option.splits)
qed

lemma orderly_forget: "plain_orderly W \<Longrightarrow> same_stack s (w_forget_record W h s)"
  by (simp add: plain_orderly_def)

lemma cleared_kept:
  assumes "plain_orderly W"
  shows "same_stack s (snd (cleared W v s))" and "same_stack s (snd (cleared_all W vs s))"
  using assms
proof (induction W v s and W vs s rule: cleared_cleared_all.induct)
  case (1 W v s)
  have forget: "same_stack s (case h of None \<Rightarrow> s | Some h \<Rightarrow> w_forget_record W h s)" for h
    using "1.prems" by (simp add: orderly_forget split: option.split)
  show ?case
  proof (cases v)
    case (VArray items)
    then show ?thesis using "1.IH" "1.prems" by (simp add: case_prod_beta Let_def)
  qed (simp_all add: case_prod_beta Let_def fresh_kept alloc_kept forget)
next
  case (3 W v vs s)
  obtain r t where r: "cleared W v s = (r, t)" by fastforce
  have "same_stack s t" using 3 r by (metis snd_conv)
  moreover have "same_stack t (snd (cleared_all W vs t))" if "r = Ok v'" for v'
    using "3.IH"(2) [OF r [symmetric] refl that] "3.prems" by blast
  ultimately show ?case
    using r by (auto simp: case_prod_beta Let_def simp del: cleared.simps split: sum.splits intro: same_stack_trans)
qed simp_all

context run_contract begin

section \<open>Frames\<close>

lemma frame_dropped: "at_place (in_frame F i) k s \<Longrightarrow> at_place i k (pop_drop s)"
  using frame_out [of F i k s] same [of i k "snd (pop s)"]
  by (auto simp: pop_drop_def split: prod.splits option.splits)

lemma triple_updates: "(\<And>s. P s \<Longrightarrow> Q (f s)) \<Longrightarrow> triple p P (updates f) (updates f) Q"
  by (simp add: triple_def step_simps)

lemma triple_ret: "triple p P (ret a) (ret a) P"
  by (simp add: triple_def step_simps)

lemma triple_frame:
  assumes "triple partial (at_place (in_frame F i) k) m m' (at_place (in_frame F j) k)"
  shows "triple partial (at_place i k) (with_frame F m) (with_frame F m') (at_place j k)"
  unfolding with_frame_def
  by (intro triple_andThen [where Q = "at_place (in_frame F i) k"] triple_andThen [where Q = "at_place (in_frame F j) k"]
      triple_andThen [where Q = "at_place j k"] triple_updates triple_ret assms frame_in frame_dropped)

lemma kept_frame: "kept (in_frame F i) m m' \<Longrightarrow> kept i (with_frame F m) (with_frame F m')"
  by (auto simp: kept_def intro: triple_frame)

text \<open>
  What the body of a call needs of the callbacks: statements and events, one call deeper, under any frames.  At a
  place that is full of calls no body runs.
\<close>

definition bodies_near :: "'i \<Rightarrow> ('d, 'x) callbacks \<Rightarrow> ('d, 'x) callbacks \<Rightarrow> bool" where
  "bodies_near i K K' \<longleftrightarrow> (\<forall>j. near i j \<longrightarrow> stmts_below (in_call j) K K' \<and> raises_below (in_call j) K K')"

definition ready :: "'i \<Rightarrow> ('d, 'x) callbacks \<Rightarrow> ('d, 'x) callbacks \<Rightarrow> bool" where
  "ready i K K' \<longleftrightarrow> full_call i \<or> bodies_near i K K'"

lemma bodies_near_moved: "bodies_near i K K' \<Longrightarrow> near i j \<Longrightarrow> bodies_near j K K'"
  by (auto simp: bodies_near_def intro: near_trans)


section \<open>Declarations\<close>

lemma store_published_kept: "same_stack s (store_published ps values s)"
proof -
  have "same_stack s (fold (\<lambda>(p, v). if is_var p then bind_top (p_name p) v else id) pvs s)" for pvs
  proof (induction pvs arbitrary: s)
    case (Cons pv pvs)
    then show ?case
      using same_stack_trans [OF same_stack_bind_top [of s "p_name (fst pv)" "snd pv"]] by (simp add: case_prod_beta)
  qed simp
  then show ?thesis by (simp add: store_published_def)
qed

lemma kept_publishing [kept_rules]:
  "raises_below i K K' \<Longrightarrow> kept i (after_publishing W K proc obj name r) (after_publishing W K' proc obj name r)"
  unfolding after_publishing_def raise_published_event_def
  by (auto intro!: kept_rules kept_updates store_published_kept split: option.splits sum.splits)

lemma triple_body:
  assumes "stmts_below (in_call i) K K'" "raises_below (in_call i) K K'"
  shows "triple partial (at_place (in_call i) k) (run_body W K proc body path obj name d)
           (run_body W K' proc body path obj name d) (at_place i k)"
proof -
  let ?leave = "\<lambda>s. s\<lparr>recursion_depth := recursion_depth s - 1, var_writebacks := collect_writebacks (collect_params proc) s\<rparr>"
  have leave: "at_place i k (?leave s)" if "at_place (in_call i) k s" for s
    using call_out [OF that] by (rule same) (simp add: same_stack_def)
  have rest: "triple partial (at_place (in_call i) k)
      (andThen (updates ?leave) (\<lambda>_. andThen (reads g) (\<lambda>v. ret (f v))))
      (andThen (updates ?leave) (\<lambda>_. andThen (reads g) (\<lambda>v. ret (f v)))) (at_place i k)" for g f
    by (rule triple_andThen [where Q = "at_place i k"])
      (rule triple_updates, erule leave, intro triple_kept kept_basic)
  let ?raise = "after_publishing W K proc obj name" and ?raise' = "after_publishing W K' proc obj name"
  have enter: "kept (in_call i) (does (cov_enter_file path)) (does (cov_enter_file path))"
    by (rule kept_does) (rule cov_kept)
  have leave_file: "kept (in_call i) (updates (cov_restore_file prev)) (updates (cov_restore_file prev))" for prev
    by (rule kept_updates) (rule cov_kept)
  have raise: "kept (in_call i) (?raise result) (?raise' result)" for result
    by (rule kept_publishing [OF assms(2)])
  show ?thesis
    unfolding run_body_def
    by (rule triple_andThen [OF triple_kept [OF enter]], rule triple_andThen [OF triple_kept [OF kept_stmt [OF assms(1)]]],
        rule triple_andThen [OF triple_kept [OF leave_file]], rule triple_andThen [OF triple_kept [OF raise]], rule rest)
qed

lemma kept_declaration:
  assumes "calm W" "bodies_near i K K'"
  shows "kept i (run_declaration W K proc name path obj globals rec args) (run_declaration W K' proc name path obj globals rec args)"
proof -
  have frame: "kept i (does (call_frame_for W proc obj name args rec)) (does (call_frame_for W proc obj name args rec))"
    by (rule kept_calm [OF assms(1)]) (rule call_frame_for_kept)
  have body: "triple partial (at_place (in_call j) k) (with_frame F (run_body W K proc body path obj name d))
      (with_frame F (run_body W K' proc body path obj name d)) (at_place j k)"
    if "near i (in_frame F j)" for F body d j k
    using that assms
    by (intro triple_frame) (auto simp: call_frame [symmetric] bodies_near_def intro!: triple_body)
  have call: "triple partial (at_place (in_call i) k)
      (case globals of None \<Rightarrow> with_frame F (run_body W K proc body path obj name d)
       | Some g \<Rightarrow> andThen (does (fresh_globals g obj)) (\<lambda>G. with_frame G (with_frame F (run_body W K proc body path obj name d))))
      (case globals of None \<Rightarrow> with_frame F (run_body W K' proc body path obj name d)
       | Some g \<Rightarrow> andThen (does (fresh_globals g obj)) (\<lambda>G. with_frame G (with_frame F (run_body W K' proc body path obj name d))))
      (at_place i k)" for F body d k
  proof (cases globals)
    case None
    then show ?thesis using body [of F i] near_refl near_frame by simp
  next
    case (Some g)
    have "triple partial (at_place (in_call i) k) (with_frame G (with_frame F (run_body W K proc body path obj name d)))
       (with_frame G (with_frame F (run_body W K' proc body path obj name d))) (at_place i k)" for G
      using body [of F "in_frame G i"] near_refl near_frame
      by (intro triple_frame [of G]) (simp add: call_frame)
    then show ?thesis
      using Some by (auto intro!: triple_andThen triple_kept kept_does fresh_globals_kept)
  qed
  have enter: "kept i (andThen (updates (\<lambda>s. s\<lparr>recursion_depth := Suc (recursion_depth s)\<rparr>)) (\<lambda>_. m))
      (andThen (updates (\<lambda>s. s\<lparr>recursion_depth := Suc (recursion_depth s)\<rparr>)) (\<lambda>_. m'))"
    if "\<And>k. triple partial (at_place (in_call i) k) m m' (at_place i k)" for m m' :: "('d, 'x) run"
    unfolding kept_def
    by (intro allI triple_andThen [OF triple_updates that]) (simp add: call_in)
  have result: "triple partial (at_place (in_call i) k) (andThen m (\<lambda>(r, v). ret (call_result r v)))
      (andThen m' (\<lambda>(r, v). ret (call_result r v))) (at_place i k)"
    if "triple partial (at_place (in_call i) k) m m' (at_place i k)" for m m' :: "('d, 'x, 'd eval \<times> 'd val) step" and k
    using that by (rule triple_andThen) (auto intro: triple_ret)
  have drop: "kept i (updates (\<lambda>s. s\<lparr>held := drop_frame F (held s)\<rparr>)) (updates (\<lambda>s. s\<lparr>held := drop_frame F (held s)\<rparr>))" for F
    by (rule kept_updates) simp
  show ?thesis
    unfolding run_declaration_def Let_def
    by (cases "first_mismatch (collect_params proc) args"; cases "body_of proc"; simp only: option.case)
      (auto intro!: kept_fails kept_andThen [OF frame] kept_andThen [OF kept_reads] kept_andThen [OF drop] enter result call
        split: sum.split)
qed


section \<open>The globals of an object\<close>

lemma activated: "same_stack s (activate inst_id s)" "same_stack s (deactivate inst_id s)"
  by (simp_all add: activate_def deactivate_def)

lemma kept_fresh_instance:
  assumes "\<And>F. kept (in_frame F i) call call'"
  shows "kept i (on_fresh_instance obj_node obj call) (on_fresh_instance obj_node obj call')"
  unfolding on_fresh_instance_def
  by (intro kept_andThen kept_frame kept_does kept_updates kept_ret activated fresh_globals_kept assms) simp

lemma kept_kept_instance:
  assumes "\<And>F. kept (in_frame F i) call call'"
  shows "kept i (on_kept_instance inst_id F call) (on_kept_instance inst_id F call')"
proof -
  have enter: "at_place (in_frame G i) k ((activate inst_id \<circ> push G) s)" if "at_place i k s" for G k s
    using same [OF frame_in [OF that] activated(1)] by simp
  have leave: "at_place i k ((keep_instance inst_id \<circ> deactivate inst_id) s)" if "at_place (in_frame G i) k s" for G k s
  proof -
    have "at_place i k (snd (pop (deactivate inst_id s)))" using frame_out same [OF that] activated by blast
    then show ?thesis
      using same by (auto simp: keep_instance_def split: prod.splits option.splits)
  qed
  let ?G = "F\<lparr>frame_instance := Some inst_id\<rparr>"
  show ?thesis
    unfolding on_kept_instance_def kept_def
    by (intro allI triple_andThen [OF triple_updates [of _ "at_place (in_frame ?G i) _"]] enter
        triple_andThen [OF triple_kept [OF assms]] triple_andThen [OF triple_updates [of _ "at_place i _"] triple_ret] leave)
qed

lemma kept_on_globals:
  assumes "\<And>F. kept (in_frame F i) call call'" "kept i call call'"
  shows "kept i (on_globals obj_node obj g call) (on_globals obj_node obj g call')"
  unfolding on_globals_def using assms by (auto intro: kept_fresh_instance kept_kept_instance split: globals.splits)

text \<open>A step chosen by a look at the state of the place.\<close>

lemma kept_choice_at:
  assumes "\<And>s k. at_place i k s \<Longrightarrow> kept i (f (g s)) (f' (g s))"
  shows "kept i (andThen (reads g) f) (andThen (reads g) f')"
proof -
  have "andThen (reads g) f s = f (g s) s" for f and s :: "('d, 'x) interp" by (simp add: andThen_def step_simps)
  note step = this
  show ?thesis
    unfolding kept_def triple_def step using assms unfolding kept_def triple_def by blast
qed

lemma kept_workspace_procedure [kept_rules]:
  assumes "calm W" "ready i K K'"
  shows "kept i (dispatch_workspace_procedure W K r name args) (dispatch_workspace_procedure W K' r name args)"
proof -
  have decl: "kept j (run_declaration W K proc name path obj None None args) (run_declaration W K' proc name path obj None None args)"
    if "near i j" "\<not> full_call i" for j proc path obj
    using assms bodies_near_moved [OF _ that(1)] that(2) by (intro kept_declaration) (auto simp: ready_def)
  have deep: "resolve_procedure W r name args s \<noteq> Inr found" if "full_call i" "at_place i k s" for s k found
    using that by (auto simp: full_call_def resolve_procedure_def)
  show ?thesis
    unfolding dispatch_workspace_procedure_def
    by (intro kept_andThen kept_does)
      (auto intro!: kept_choice_at kept_rules kept_does kept_on_globals decl globals_for_call_kept near_frame near_refl
        dest: deep split: sum.splits prod.splits)
qed


section \<open>Events\<close>

lemma kept_raise_to:
  assumes "calm W" "ready i K K'"
  shows "kept i (raise_to W K event names sender subs vals) (raise_to W K' event names sender subs vals)"
proof (induction subs arbitrary: vals)
  case (Cons sub subs)
  then show ?case
    using assms by (auto intro!: kept_rules kept_updates kept_does split: sum.splits eval.splits)
qed (simp add: kept_ret)

lemma kept_raise_event:
  "calm W \<Longrightarrow> ready i K K' \<Longrightarrow>
   kept i (raise_event W K kind publisher event element names values sender)
     (raise_event W K' kind publisher event element names values sender)"
  unfolding raise_event_def by (rule kept_raise_to)


section \<open>The code of tables\<close>

lemma kept_on_active:
  assumes "\<And>j. near i j \<Longrightarrow> kept j call call'"
  shows "kept i (run_on_active_globals h n call) (run_on_active_globals h n call')"
proof -
  let ?lift = "\<lambda>s. set_active h (length (frames (scopes s))) (lift_frame n s)"
  let ?lower = "lower_frame n \<circ> set_active h n"
  have active: "same_stack s (set_active h m s)" for m s by (simp add: set_active_def)
  have moved: "triple partial (\<lambda>s'. s' = s)
      (andThen (updates ?lift) (\<lambda>_. andThen call (\<lambda>r. andThen (updates ?lower) (\<lambda>_. ret r))))
      (andThen (updates ?lift) (\<lambda>_. andThen call' (\<lambda>r. andThen (updates ?lower) (\<lambda>_. ret r)))) (at_place i k)"
    if s: "at_place i k s" and n: "n < length (frames (scopes s))" for s k
  proof (rule triple_andThen [OF triple_updates [of _ "at_place (in_moved n i) k"]], goal_cases)
    case (1 s')
    then show ?case using same [OF moved_in [OF s n] active] by simp
  next
    case (2 a)
    have leave: "at_place i k (?lower t)" if "at_place (in_moved n i) k t" for t
      using moved_out [OF s n same [OF that active]] by simp
    show ?case
      by (rule triple_andThen [OF triple_kept [OF assms [OF near_moved [OF near_refl]]]])
        (rule triple_andThen [OF triple_updates [of _ "at_place i k"] triple_ret], rule leave)
  qed
  have at_state: "triple p (\<lambda>s'. s' = s) m m' Q \<longleftrightarrow> (case m s of None \<Rightarrow> p | Some (a, t) \<Rightarrow> m' s = Some (a, t) \<and> Q t)"
    for p s Q and m m' :: "('d, 'x) run"
    by (simp add: triple_def)
  have enough: "kept i m m'" if "\<And>s k. at_place i k s \<Longrightarrow> triple partial (\<lambda>s'. s' = s) m m' (at_place i k)"
    for m m' :: "('d, 'x) run"
    unfolding kept_def using that by (blast intro: triple_state)
  show ?thesis
  proof (rule enough)
    fix s k assume s: "at_place i k s"
    have step: "run_on_active_globals h n c s = (if n < length (frames (scopes s))
        then andThen (updates ?lift) (\<lambda>_. andThen c (\<lambda>r. andThen (updates ?lower) (\<lambda>_. ret r))) s else c s)" for c
      by (simp add: run_on_active_globals_def andThen_def [of "reads _"] step_simps)
    show "triple partial (\<lambda>s'. s' = s) (run_on_active_globals h n call) (run_on_active_globals h n call') (at_place i k)"
      using moved [OF s] assms [OF near_refl, unfolded kept_def triple_def] s unfolding at_state step by auto
  qed
qed

lemma take_record_globals_kept: "same_stack s (snd (take_record_globals h obj_node obj s))"
  by (simp add: take_record_globals_def fresh_globals_kept split: option.split)

lemma kept_on_record_globals:
  assumes call: "\<And>j g. near i j \<Longrightarrow> kept j (call g) (call' g)"
  shows "kept i (on_record_globals h obj_node obj call) (on_record_globals h obj_node obj call')"
proof -
  have enter: "at_place (in_frame F i) k (enter_record_globals h' F s)" if "at_place i k s" for F h' k s
    using same [OF frame_in [OF that]] by (simp add: enter_record_globals_def)
  have leave: "at_place i k (keep_record_globals h' s)" if "at_place (in_frame F i) k s" for F h' k s
  proof -
    let ?t = "s\<lparr>active_record_globals := AList.delete h' (active_record_globals s)\<rparr>"
    have "at_place (in_frame F i) k ?t" by (rule same [OF that]) simp
    then have "at_place i k (snd (pop ?t))" by (rule frame_out)
    then show ?thesis using same by (auto simp: keep_record_globals_def Let_def split: prod.splits option.splits)
  qed
  have framed: "kept i
      (andThen (updates (enter_record_globals h' F)) (\<lambda>_. andThen (call None) (\<lambda>r. andThen (updates (keep_record_globals h')) (\<lambda>_. ret r))))
      (andThen (updates (enter_record_globals h' F)) (\<lambda>_. andThen (call' None) (\<lambda>r. andThen (updates (keep_record_globals h')) (\<lambda>_. ret r))))"
    for F h'
    unfolding kept_def
    by (intro allI triple_andThen [OF triple_updates [of _ "at_place (in_frame F i) _"]] enter
        triple_andThen [OF triple_kept [OF call [OF near_frame [OF near_refl]]]]
        triple_andThen [OF triple_updates [of _ "at_place i _"] triple_ret] leave)
  show ?thesis
    unfolding on_record_globals_def
    by (auto intro!: kept_rules kept_on_active call near_refl framed kept_does take_record_globals_kept split: option.splits)
qed

lemma kept_table_code [kept_rules]:
  assumes "calm W" "ready i K K'"
  shows "kept i (run_table_code W K rec x_rec code args) (run_table_code W K' rec x_rec code args)"
proof (cases rec)
  case (VRecord r)
  have decl: "kept j (run_declaration W K proc name path obj g im as) (run_declaration W K' proc name path obj g im as)"
    if "near i j" "\<not> full_call i" for j proc name path obj g im as
    using assms bodies_near_moved [OF _ that(1)] that(2) by (intro kept_declaration) (auto simp: ready_def)
  have deep: "MAX_RECURSION_DEPTH \<le> recursion_depth s" if "full_call i" "at_place i k s" for s k
    using that by (auto simp: full_call_def)
  show ?thesis
    unfolding run_table_code_def VRecord val.case Let_def
    by (auto intro!: kept_choice_at kept_ret kept_andThen kept_on_record_globals decl dest: deep
        split: option.splits sum.splits prod.splits)
qed (simp_all add: run_table_code_def kept_ret)

lemma kept_table_procedure [kept_rules]:
  "calm W \<Longrightarrow> ready i K K' \<Longrightarrow>
   kept i (dispatch_table_procedure W K r name args) (dispatch_table_procedure W K' r name args)"
  unfolding dispatch_table_procedure_def Let_def by (auto intro!: kept_rules split: option.splits)


section \<open>Built-in functions and the order of resolution\<close>

lemma kept_clear_writebacks [kept_rules]: "kept i clear_writebacks clear_writebacks" "kept i (set_writeback j v) (set_writeback j v)"
  unfolding clear_writebacks_def set_writeback_def by (rule kept_updates, simp)+

lemma kept_with_handler [kept_rules]:
  "(\<And>h. kept i (f h) (f' h)) \<Longrightarrow> kept i (with_handler W name attr f) (with_handler W name attr f')"
  unfolding with_handler_def by (auto intro!: kept_rules split: option.splits)

lemma kept_dialog_text [kept_rules]: "(\<And>t. kept i (f t) (f' t)) \<Longrightarrow> kept i (dialog_text args f) (dialog_text args f')"
  unfolding dialog_text_def by (auto intro!: kept_rules split: sum.splits)

text \<open>The dialogs; \<open>proc\<close> is the call of a workspace procedure.\<close>

lemma kept_dialogs:
  assumes proc: "\<And>r name args. kept i (proc r name args) (proc' r name args)"
  shows "kept i (builtin_message W proc args) (builtin_message W proc' args)"
    "kept i (builtin_confirm W proc args) (builtin_confirm W proc' args)"
    "kept i (builtin_strmenu W proc args) (builtin_strmenu W proc' args)"
    "kept i (builtin_hyperlink W proc args) (builtin_hyperlink W proc' args)"
  unfolding builtin_message_def builtin_confirm_def builtin_strmenu_def builtin_hyperlink_def Let_def
    call_handler_def ask_handler_def
  by (auto intro!: kept_rules proc)

lemma kept_evaluate_call: "kept i (evaluate_call st args) (evaluate_call st args)"
  unfolding evaluate_call_def by (auto intro!: kept_rules split: sum.splits option.splits bool.splits)

lemma kept_clear_call:
  assumes "calm W"
  shows "kept i (clear_call W args) (clear_call W args)"
proof -
  have cleared: "kept i (does (cleared W v)) (does (cleared W v))" for v
    using assms by (rule kept_calm) (rule cleared_kept)
  show ?thesis unfolding clear_call_def by (auto intro!: kept_rules cleared kept_updates split: list.splits sum.splits)
qed

lemma kept_small_builtins:
  "kept i (get_last_error_text args) (get_last_error_text args)"
  "kept i (clear_last_error args) (clear_last_error args)"
  "kept i (workdate_call W args) (workdate_call W args)"
  "kept i (random_call f args) (random_call f args)"
  unfolding get_last_error_text_def clear_last_error_def workdate_call_def random_call_def read_clock_def
  by (auto intro!: kept_rules kept_updates kept_does split: prod.splits)

lemma kept_option_map_of:
  "list_all2 (\<lambda>(k, m) (k', m'). k = k' \<and> kept i m m') xs ys \<Longrightarrow> kept_option i (map_of xs k) (map_of ys k)"
  by (induction rule: list_all2_induct) auto

lemma kept_effect_builtin:
  assumes "calm W" "\<And>r name args. kept i (proc r name args) (proc' r name args)"
  shows "kept_option i (effect_builtin W proc st name args) (effect_builtin W proc' st name args)"
  unfolding effect_builtin_def
  by (rule kept_option_map_of)
    (simp add: kept_andThen kept_reads kept_ret kept_dialogs [OF assms(2)] kept_evaluate_call kept_small_builtins
      kept_clear_call [OF assms(1)])

lemma kept_option_or_else: "kept_option i a b \<Longrightarrow> kept_option i c d \<Longrightarrow> kept_option i (or_else a c) (or_else b d)"
  by (cases a; cases b) (auto simp: or_else_def)

lemma kept_option_pure: "kept_option i (map_option (pure_result W name) x) (map_option (pure_result W name) x)"
  by (cases x) (auto simp: pure_result_def intro!: kept_rules kept_updates, auto simp: read_clock_def)

lemma kept_global_builtin:
  assumes "calm W" "\<And>r name args. kept i (proc r name args) (proc' r name args)"
  shows "kept_option i (global_builtin W proc st name args s) (global_builtin W proc' st name args s)"
  unfolding global_builtin_def Let_def
  using kept_world [OF assms(1)] kept_effect_builtin [OF assms] by (auto intro!: kept_option_or_else kept_option_pure)

lemma kept_workspace_call [kept_rules]:
  assumes "calm W" "ready i K K'"
  shows "kept i (workspace_call W K inst r name args) (workspace_call W K' inst r name args)"
  unfolding workspace_call_def using assms by (auto intro!: kept_rules kept_updates split: sum.splits)

text \<open>A step chosen by a look at the state.\<close>

lemma kept_choice:
  assumes "\<And>s. kept i (f (g s)) (f' (g' s))"
  shows "kept i (andThen (reads g) f) (andThen (reads g') f')"
proof -
  have "andThen (reads g) f s = f (g s) s" for g f and s :: "('d, 'x) interp" by (simp add: andThen_def step_simps)
  note step = this
  show ?thesis
    unfolding kept_def triple_def step using assms unfolding kept_def triple_def by blast
qed

lemma kept_stub:
  assumes "calm W" "w_stub W r name = Some f"
  shows "kept i (does (f args)) (does (f args))"
  using assms(1) by (rule kept_calm) (use assms(2) in \<open>auto simp: plain_orderly_def\<close>)

lemma kept_dispatch [kept_rules]:
  assumes "calm W" "ready i K K'"
  shows "kept i (dispatch_call_scoped W K r name args) (dispatch_call_scoped W K' r name args)"
proof -
  have take: "kept i (does (\<lambda>s. ((stmt_position s, pending_instance s),
      s\<lparr>var_writebacks := [], stmt_position := False, pending_instance := None\<rparr>)))
    (does (\<lambda>s. ((stmt_position s, pending_instance s),
      s\<lparr>var_writebacks := [], stmt_position := False, pending_instance := None\<rparr>)))"
    by (rule kept_does) simp
  note builtin = kept_global_builtin [OF assms(1) kept_workspace_procedure [OF assms]]
  have bare: "kept i
      (andThen (reads (global_builtin W (dispatch_workspace_procedure W K) st name as)) (\<lambda>b. case b of
           Some result \<Rightarrow> result | None \<Rightarrow> workspace_call W K inst None name as))
      (andThen (reads (global_builtin W (dispatch_workspace_procedure W K') st name as)) (\<lambda>b. case b of
           Some result \<Rightarrow> result | None \<Rightarrow> workspace_call W K' inst None name as))" for st as inst
    by (rule kept_choice) (rule kept_option_case [OF builtin], intro kept_workspace_call assms)
  show ?thesis
  proof (cases r)
    case None
    then show ?thesis unfolding dispatch_call_scoped_def Let_def by (auto intro!: kept_andThen [OF take] bare)
  next
    case (Some r)
    then show ?thesis
      unfolding dispatch_call_scoped_def Let_def
      using assms by (cases "w_stub W r name") (auto intro!: kept_andThen [OF take] kept_workspace_call kept_stub)
  qed
qed


section \<open>Calls on a variable\<close>

lemma set_instance_shapes:
  "map frame_shape (frames (set_instance name k S)) = map frame_shape (frames S) \<and> expr_depth (set_instance name k S) = expr_depth S"
  by (auto simp: set_instance_def shapes_replaced split: option.splits dest: lookup_slot_bound)

lemma instance_of_kept: "same_stack s (snd (instance_of recv inst s))"
  by (simp add: instance_of_def Let_def set_instance_shapes split: option.splits)

lemma kept_codeunit_call [kept_rules]:
  assumes "calm W" "exprs_below i K K'" "ready i K K'"
  shows "kept i (codeunit_call W K recv obj inst name args) (codeunit_call W K' recv obj inst name args)"
  unfolding codeunit_call_def using assms by (auto intro!: kept_rules kept_does kept_updates instance_of_kept)

lemma kept_dict_get [kept_rules]: "calm W \<Longrightarrow> kept i (dict_get_into W recv args as) (dict_get_into W recv args as)"
  unfolding dict_get_into_def by (auto intro!: kept_rules split: sum.splits option.splits)

lemma kept_method_call:
  assumes "calm W" "entries_below i K K'" "ready i K K'"
  shows "kept_option i (method_call W K st recv name args v) (method_call W K' st recv name args v)"
proof -
  have "exprs_below i K K'" using assms(2) by (simp add: entries_below_def)
  then show ?thesis
    unfolding method_call_def Let_def
    using assms by (cases v) (auto intro!: kept_rules kept_record_method split: option.splits)
qed

lemma kept_general_call [kept_rules]:
  assumes "calm W" "exprs_below i K K'" "ready i K K'"
  shows "kept i (general_call W K st r name args) (general_call W K' st r name args)"
  unfolding general_call_def using assms by (auto intro!: kept_rules kept_updates)

lemma kept_call_parts:
  assumes "calm W" "entries_below i K K'" "ready i K K'"
  shows "kept i (eval_call_parts W K r name args) (eval_call_parts W K' r name args)"
proof -
  have on_bound: "kept i
      (case Option.bind bound (\<lambda>(r, v). method_call W K st r name args v) of
         Some result \<Rightarrow> result | None \<Rightarrow> general_call W K st recv name args)
      (case Option.bind bound (\<lambda>(r, v). method_call W K' st r name args v) of
         Some result \<Rightarrow> result | None \<Rightarrow> general_call W K' st recv name args)" for bound st recv
    using assms
    by (intro kept_option_case) (cases bound; auto simp: entries_below_def intro: kept_method_call kept_general_call)+
  show ?thesis
    unfolding eval_call_parts_def
    by (intro kept_choice) (auto intro!: kept_choice kept_done on_bound split: option.split)
qed

end

end
