(* ===== verification/Whole_Run.thy ===== *)
theory Whole_Run
  imports Run_Calls
begin

text \<open>
  What holds of a whole run: the contract of \<open>Run_Contract\<close> for the evaluator with its fuel, interpreted on the real
  call stack for runs that end and for runs that may not.
\<close>

context run_contract begin

lemma kept_no_fuel: "partial \<Longrightarrow> kept i out_of_fuel m'"
  unfolding kept_def triple_def by (simp add: step_simps)

text \<open>
  A chain of calls cannot be longer than the room below a place: each evaluation goes one level deeper in one of the
  two nesting depths, the code of a table or a subscriber one call deeper, and a call goes deeper with the next
  evaluation, table code or event after it.
\<close>

lemma interpreter_below:
  assumes calm: "calm W" and paced: "paced W turns turns'"
    and room_expr: "\<And>i k s. \<not> partial \<Longrightarrow> at_place i k s \<Longrightarrow> expr_depth (scopes s) < MAX_EXPR_DEPTH \<Longrightarrow> room (in_expr i) < room i"
    and room_stmt: "\<And>i k s. \<not> partial \<Longrightarrow> at_place i k s \<Longrightarrow> ast_depth s < MAX_AST_DEPTH \<Longrightarrow> room (in_stmt i) < room i"
    and room_call: "\<And>i j k s. \<not> partial \<Longrightarrow> at_place i k s \<Longrightarrow> recursion_depth s < MAX_RECURSION_DEPTH \<Longrightarrow> near i j \<Longrightarrow>
      room (in_call j) < room i"
  shows "d \<le> d' \<Longrightarrow>
    (partial \<or> 2 * room i + 1 \<le> d \<longrightarrow> exprs_below i (interpreter turns d W) (interpreter turns' d' W)) \<and>
    (partial \<or> 2 * room i + 1 \<le> d \<longrightarrow> stmts_below i (interpreter turns d W) (interpreter turns' d' W)) \<and>
    (partial \<or> 2 * room i + 1 \<le> d \<longrightarrow> codes_below i (interpreter turns d W) (interpreter turns' d' W)) \<and>
    (partial \<or> 2 * room i + 1 \<le> d \<longrightarrow> raises_below i (interpreter turns d W) (interpreter turns' d' W)) \<and>
    (partial \<or> 2 * room i + 2 \<le> d \<longrightarrow> calls_below i (interpreter turns d W) (interpreter turns' d' W))"
proof (induction d arbitrary: d' i)
  case 0
  show ?case
    unfolding exprs_below_def stmts_below_def calls_below_def codes_below_def raises_below_def
      interpreter.simps callbacks.simps
    by (intro conjI impI allI kept_no_fuel) simp_all
next
  case (Suc d)
  obtain e where e: "d' = Suc e" "d \<le> e" using Suc.prems by (cases d') auto
  let ?K = "interpreter turns d W" and ?K' = "interpreter turns' e W"
  note IH = Suc.IH [OF e(2)]
  have shallow_expr: "partial \<or> room (in_expr i) < room i" if "\<not> full_expr i"
    using that room_expr unfolding full_expr_def by (meson not_le)
  have shallow_stmt: "partial \<or> room (in_stmt i) < room i" if "\<not> full_stmt i"
    using that room_stmt unfolding full_stmt_def by (meson not_le)
  have shallow_call: "partial \<or> room (in_call j) < room i" if "\<not> full_call i" "near i j" for j
    using that room_call unfolding full_call_def by (meson not_le)
  have expr: "kept i (expr_step W ?K n) (expr_step W ?K' n)" if "partial \<or> 2 * room i + 1 \<le> Suc d" for n
    by (rule kept_expr_step [OF calm]) (use IH [of "in_expr i"] shallow_expr that in linarith)
  have stmt: "kept i (stmt_step turns W ?K n) (stmt_step turns' W ?K' n)" if "partial \<or> 2 * room i + 1 \<le> Suc d" for n
    by (rule kept_stmt_step [OF calm paced]) (use IH [of "in_stmt i"] shallow_stmt that in linarith)
  have ready: "ready i ?K ?K'" if "partial \<or> 2 * room i + 1 \<le> Suc d"
    unfolding ready_def bodies_near_def
  proof (cases "full_call i")
    case False
    show "full_call i \<or> (\<forall>j. near i j \<longrightarrow> stmts_below (in_call j) ?K ?K' \<and> raises_below (in_call j) ?K ?K')"
    proof (intro disjI2 allI impI)
      fix j assume "near i j"
      then show "stmts_below (in_call j) ?K ?K' \<and> raises_below (in_call j) ?K ?K'"
        using IH [of "in_call j"] shallow_call [OF False] that by fastforce
    qed
  qed simp
  have call: "kept i (eval_call_parts W ?K r name args) (eval_call_parts W ?K' r name args)"
    if "partial \<or> 2 * room i + 2 \<le> Suc d" for r name args
  proof (rule kept_call_parts [OF calm])
    show "entries_below i ?K ?K'" unfolding entries_below_def using IH [of i] that by linarith
    show "ready i ?K ?K'" using ready that by linarith
  qed
  show ?case
    using expr stmt call kept_table_code [OF calm ready] kept_raise_event [OF calm ready] e(1)
    by (auto simp: exprs_below_def stmts_below_def calls_below_def codes_below_def raises_below_def Let_def)
qed

end


section \<open>The places of a run\<close>

type_synonym shape = "string \<times> string \<times> bool \<times> nat option"
type_synonym place = "shape list \<times> nat \<times> nat \<times> nat"

definition stack_place :: "('d, 'x) interp \<Rightarrow> place" where
  "stack_place s = (map frame_shape (frames (scopes s)), expr_depth (scopes s), ast_depth s, recursion_depth s)"

definition at_stack :: "place \<Rightarrow> nat \<Rightarrow> ('d, 'x) interp \<Rightarrow> bool" where
  "at_stack i k s \<longleftrightarrow> stack_place s = i \<and> k \<le> ticks s"

definition deeper_expr :: "place \<Rightarrow> place" where "deeper_expr = (\<lambda>(fs, e, a, r). (fs, Suc e, a, r))"
definition deeper_stmt :: "place \<Rightarrow> place" where "deeper_stmt = (\<lambda>(fs, e, a, r). (fs, e, Suc a, r))"
definition deeper_call :: "place \<Rightarrow> place" where "deeper_call = (\<lambda>(fs, e, a, r). (fs, e, a, Suc r))"

definition deeper_frame :: "'d call_frame \<Rightarrow> place \<Rightarrow> place" where
  "deeper_frame F = (\<lambda>(fs, e, a, r). (fs @ [frame_shape F], e, a, r))"

text \<open>The globals at position \<open>n\<close> at the top of the stack, and a frame in their place.\<close>

definition moved_shape :: "shape \<Rightarrow> shape" where
  "moved_shape = (\<lambda>(proc, obj, rec, inst). (''<globals moved to the top>'', obj, False, None))"

definition globals_moved :: "nat \<Rightarrow> place \<Rightarrow> place" where
  "globals_moved n = (\<lambda>(fs, e, a, r). (fs[n := moved_shape (fs ! n)] @ [fs ! n], e, a, r))"

definition same_nesting :: "place \<Rightarrow> place \<Rightarrow> bool" where
  "same_nesting i j \<longleftrightarrow> snd i = snd j"

lemmas place_defs = at_stack_def stack_place_def deeper_expr_def deeper_stmt_def deeper_call_def deeper_frame_def
  same_nesting_def

lemma at_moved_in:
  "at_stack i k s \<Longrightarrow> n < length (frames (scopes s)) \<Longrightarrow> at_stack (globals_moved n i) k (lift_frame n s)"
  by (auto simp: at_stack_def stack_place_def globals_moved_def lift_frame_def put_frame_def push_def push_frame_def
      moved_shape_def frame_shape_def new_frame_def Let_def map_update)

lemma at_moved_out:
  assumes "at_stack i k s" "n < length (frames (scopes s))" "at_stack (globals_moved n i) k t"
  shows "at_stack i k (lower_frame n t)"
proof -
  let ?fs = "map frame_shape (frames (scopes s))" and ?gs = "frames (scopes t)"
  have t: "map frame_shape ?gs = ?fs[n := moved_shape (?fs ! n)] @ [?fs ! n]" "expr_depth (scopes t) = expr_depth (scopes s)"
    "ast_depth t = ast_depth s" "recursion_depth t = recursion_depth s" "k \<le> ticks t"
    using assms by (auto simp: at_stack_def stack_place_def globals_moved_def)
  then have "?gs \<noteq> []" by auto
  then obtain hs F where gs: "?gs = hs @ [F]" by (metis append_butlast_last_id)
  then have hs: "map frame_shape hs = ?fs[n := moved_shape (?fs ! n)]" "frame_shape F = ?fs ! n" using t(1) by auto
  have "length hs = length ?fs" using arg_cong [OF hs(1), of length] by simp
  then have n: "n < length hs" using assms(2) by simp
  have "map frame_shape (hs[n := F]) = ?fs" using hs by (simp add: map_update)
  then show ?thesis
    using assms(1) t n gs
    by (simp add: at_stack_def stack_place_def lower_frame_def pop_def pop_frame_def put_frame_def nth_opt_def)
qed

lemma at_stack_contract:
  "run_contract at_stack deeper_expr deeper_stmt deeper_call deeper_frame same_nesting globals_moved"
proof (unfold_locales, goal_cases)
  case (12 i k s n)
  then show ?case by (rule at_moved_in)
next
  case (13 i k s n t)
  then show ?case by (rule at_moved_out)
qed (auto simp: place_defs globals_moved_def same_stack_def exit_expr_def push_def push_frame_def pop_def pop_frame_def
      map_butlast split: if_splits prod.splits)

interpretation stack_may_fail:
  run_contract at_stack deeper_expr deeper_stmt deeper_call deeper_frame same_nesting globals_moved True
  by (rule at_stack_contract)

interpretation stack_must_end:
  run_contract at_stack deeper_expr deeper_stmt deeper_call deeper_frame same_nesting globals_moved False
  by (rule at_stack_contract)


definition room :: "place \<Rightarrow> nat" where
  "room = (\<lambda>(fs, e, a, r). (MAX_EXPR_DEPTH - e) + (MAX_AST_DEPTH - a) + (MAX_RECURSION_DEPTH - r))"

lemma room_bound: "2 * room i + 2 \<le> 2 * (MAX_EXPR_DEPTH + MAX_AST_DEPTH + MAX_RECURSION_DEPTH) + 2"
  by (auto simp: room_def split: prod.split)

lemma room_shrinks:
  "\<not> False \<Longrightarrow> at_stack i k s \<Longrightarrow> expr_depth (scopes s) < MAX_EXPR_DEPTH \<Longrightarrow> room (deeper_expr i) < room i"
  "\<not> False \<Longrightarrow> at_stack i k s \<Longrightarrow> ast_depth s < MAX_AST_DEPTH \<Longrightarrow> room (deeper_stmt i) < room i"
  "\<not> False \<Longrightarrow> at_stack i k s \<Longrightarrow> recursion_depth s < MAX_RECURSION_DEPTH \<Longrightarrow> same_nesting i j \<Longrightarrow>
     room (deeper_call j) < room i"
  by (auto simp: room_def place_defs split: prod.splits)

lemma at_stack_same: "at_stack (stack_place s) (ticks s) t \<Longrightarrow> same_stack s t"
  by (auto simp: at_stack_def stack_place_def same_stack_def)

lemma at_stack_here: "at_stack (stack_place s) (ticks s) s"
  by (simp add: at_stack_def)


section \<open>What a run assumes of the record methods\<close>

text \<open>
  From every state at a place, the second step returns what the first returns, and with the same call stack; when
  \<open>may_fail\<close> is false, the first does return.
\<close>

definition abides :: "bool \<Rightarrow> place \<Rightarrow> ('d, 'x, 'a) step \<Rightarrow> ('d, 'x, 'a) step \<Rightarrow> bool" where
  "abides may_fail i m m' \<longleftrightarrow>
     (\<forall>s. stack_place s = i \<longrightarrow> (case m s of None \<Rightarrow> may_fail | Some (a, t) \<Rightarrow> m' s = Some (a, t) \<and> same_stack s t))"

text \<open>
  A record method may evaluate its arguments, run table code and raise events, as often as it likes.  It is assumed
  to return, and to leave the stack as it was, \<^emph>\<open>if what it called did\<close>: that the program it runs does is not assumed
  but shown.  The operations that call nothing of the evaluator are assumed to leave the stack as it was.
\<close>

definition orderly :: "bool \<Rightarrow> ('d, 'x) world \<Rightarrow> bool" where
  "orderly may_fail W \<longleftrightarrow> plain_orderly W \<and>
     (\<forall>i K K' table h name args.
        (\<forall>n. abides may_fail i (cb_expr K n) (cb_expr K' n)) \<longrightarrow>
        (\<forall>rec x_rec code vs. abides may_fail i (cb_table_code K rec x_rec code vs) (cb_table_code K' rec x_rec code vs)) \<longrightarrow>
        (\<forall>kind publisher event element names vs sender.
           abides may_fail i (cb_raise K kind publisher event element names vs sender)
             (cb_raise K' kind publisher event element names vs sender)) \<longrightarrow>
        abides may_fail i (w_record_method W K table h name args) (w_record_method W K' table h name args))"

lemma triples_abide:
  fixes m m' :: "('d, 'x, 'a) step"
  shows "(\<forall>k. triple p (at_stack i k) m m' (at_stack i k)) = abides p i m m'"
proof
  assume l: "\<forall>k. triple p (at_stack i k) m m' (at_stack i k)"
  show "abides p i m m'"
    unfolding abides_def
  proof (intro allI impI)
    fix s :: "('d, 'x) interp" assume "stack_place s = i"
    then show "case m s of None \<Rightarrow> p | Some (a, t) \<Rightarrow> m' s = Some (a, t) \<and> same_stack s t"
      using l [rule_format, of "ticks s", unfolded triple_def, rule_format, of s] at_stack_here [of s]
      by (auto intro: at_stack_same split: option.splits)
  qed
next
  assume r: "abides p i m m'"
  have "at_stack i k t" if "at_stack i k s" "same_stack s t" for k and s t :: "('d, 'x) interp"
    using that by (auto simp: at_stack_def stack_place_def same_stack_def)
  note kept = this
  show "\<forall>k. triple p (at_stack i k) m m' (at_stack i k)"
    unfolding triple_def
  proof (intro allI impI)
    fix k and s :: "('d, 'x) interp" assume s: "at_stack i k s"
    then have "case m s of None \<Rightarrow> p | Some (a, t) \<Rightarrow> m' s = Some (a, t) \<and> same_stack s t"
      using r by (auto simp: abides_def at_stack_def)
    then show "case m s of None \<Rightarrow> p | Some (a, t) \<Rightarrow> m' s = Some (a, t) \<and> at_stack i k t"
      using kept [OF s] by (auto split: option.splits)
  qed
qed

lemma kept_abides: "stack_may_fail.kept i m m' = abides True i m m'" "stack_must_end.kept i m m' = abides False i m m'"
  by (simp_all add: stack_may_fail.kept_def stack_must_end.kept_def triples_abide)

lemma orderly_calm: "orderly True W \<Longrightarrow> stack_may_fail.calm W" "orderly False W \<Longrightarrow> stack_must_end.calm W"
  unfolding orderly_def stack_may_fail.calm_def stack_must_end.calm_def
    stack_may_fail.entries_below_def stack_must_end.entries_below_def
    stack_may_fail.exprs_below_def stack_must_end.exprs_below_def
    stack_may_fail.codes_below_def stack_must_end.codes_below_def
    stack_may_fail.raises_below_def stack_must_end.raises_below_def kept_abides
  by blast+

lemma kept_same_stack:
  assumes "stack_may_fail.kept (stack_place s) m m"
  shows "case m s of Some (r, t) \<Rightarrow> same_stack s t | None \<Rightarrow> True"
  using assms [unfolded kept_abides abides_def] by (auto split: option.splits)

lemma kept_ends:
  assumes "stack_must_end.kept (stack_place s) m m"
  shows "\<exists>r t. m s = Some (r, t) \<and> same_stack s t"
  using assms [unfolded kept_abides abides_def] by (auto split: option.splits)

text \<open>A call with a stack of its own leaves the caller's as it is, and nothing on its own.\<close>

lemma new_stack_returns:
  assumes "m (s\<lparr>scopes := new_stack\<rparr>) = Some (r, u)" "same_stack (s\<lparr>scopes := new_stack\<rparr>) u"
  shows "with_new_stack m s = Some (r, u\<lparr>scopes := scopes s\<rparr>) \<and> same_stack s (u\<lparr>scopes := scopes s\<rparr>)"
proof -
  have "frames (scopes u) = []" using assms(2) by (simp add: same_stack_def new_stack_def)
  then show ?thesis
    using assms by (simp add: with_new_stack_def andThen_def does_simp step_simps drop_stack_def same_stack_def)
qed

section \<open>The results of a run\<close>

text \<open>
  More fuel never changes a result: what \<open>eval_stmt\<close> returns with some loop turns and call depth, it returns with any
  larger numbers.  The fuel of the model is therefore not a part of the behaviour it describes.
\<close>

lemma more_fuel_same_result:
  assumes "orderly True W" "turns \<le> turns'" "d \<le> d'" "eval_stmt turns d W n s = Some r"
  shows "eval_stmt turns' d' W n s = Some r"
proof -
  have "stack_may_fail.stmts_below (stack_place s) (interpreter turns d W) (interpreter turns' d' W)"
    using stack_may_fail.interpreter_below [where room = "\<lambda>_. 0", OF orderly_calm(1) [OF assms(1)], of turns turns' d d' "stack_place s"]
      assms(2,3) by (simp add: stack_may_fail.paced_def)
  then have "abides True (stack_place s) (cb_stmt (interpreter turns d W) n) (cb_stmt (interpreter turns' d' W) n)"
    by (simp add: stack_may_fail.stmts_below_def kept_abides)
  then show ?thesis using assms(4) by (cases r) (auto simp: abides_def eval_stmt_def split: option.splits)
qed

text \<open>
  A workspace without objects, records and handlers, with a deadline at tick \<open>N\<close>, whose record methods evaluate their
  argument.
\<close>

definition empty_workspace :: "nat \<Rightarrow> (mantissa, unit) world" where
  "empty_workspace N =
     \<lparr>w_cancelled = (\<lambda>_. False), w_deadline = (\<lambda>t. N \<le> t), w_clock = (\<lambda>_. 0),
      w_parse = (\<lambda>s. Node ''source_file'' True None s 0 (0, 0) []), w_parse_errors = (\<lambda>_. True),
      w_has_error = (\<lambda>_. True), w_find_kind = (\<lambda>_ _. None), w_find_name = (\<lambda>_. None), w_parse_file = (\<lambda>_. None),
      w_object_name = (\<lambda>_. None), w_implicit_get = (\<lambda>_ s. (None, s)), w_implicit_set = (\<lambda>_ _ s. (None, s)),
      w_record_binding = (\<lambda>_ s. (None, s)), w_field_section = (\<lambda>_ _. None),
      w_declares_field = (\<lambda>_ _ s. (False, s)), w_field_get = (\<lambda>_ _ _ s. (eval_error ''no record'', s)),
      w_field_set = (\<lambda>_ _ _ s. (None, s)), w_fork_record = Pair, w_forget_record = (\<lambda>_ s. s),
      w_record_method = (\<lambda>K _ _ _ args. case args of None \<Rightarrow> fails ''no record'' | Some n \<Rightarrow> cb_expr K n),
      w_value_method = (\<lambda>_ _ _ _ s. (eval_error ''no value'', s)), w_dict_lookup = (\<lambda>_ _ _. Ok None),
      w_json_method = (\<lambda>_ _. False), w_stub = (\<lambda>_ _. None),
      w_handler = (\<lambda>_. None), w_new_guid = (\<lambda>s. (eval_error ''no guid'', s)), w_round = (\<lambda>_ d. d),
      w_dec_new = (\<lambda>m n. (m, n)), w_round_whole = (\<lambda>_ d. d), w_powd = (\<lambda>_ _. None),
      w_publication = (\<lambda>_. None), w_subscribers = (\<lambda>_ _ _ _. [])\<rparr>"

lemma empty_workspace_orderly: "orderly may_fail (empty_workspace N)"
proof -
  have "plain_orderly (empty_workspace N)" by (simp add: plain_orderly_def empty_workspace_def)
  moreover have "abides may_fail i (fails e) (fails e)" for i e and may_fail :: bool
    by (simp add: abides_def fails_def step_simps)
  ultimately show ?thesis
    unfolding orderly_def by (auto simp: empty_workspace_def split: option.split)
qed

text \<open>The tree of \<open>while true do ;\<close>.\<close>

definition endless_loop :: node where
  "endless_loop = Node ''while_statement'' True None ''while true do ;'' 0 (0, 15)
     [Node ''identifier'' True (Some ''condition'') ''true'' 0 (6, 10) []]"

definition start_state :: "(mantissa, unit) interp" where
  "start_state = new_pure sample_env ()"

text \<open>
  C6: Whatever a statement, an expression or a call does, and however it ends, with an error or without, it leaves the
  stack of call frames (their procedures, objects and instances), the nesting depths of statements and expressions
  and the recursion depth as it found them; a call from outside, which has a stack of its own, does not touch the
  caller's variables at all.  This is for worlds whose record methods, if what they run of the program leaves the
  stack as it was, do so themselves, and whose other operations leave it alone; for the code of tables, the
  subscribers of events and all the rest of the program it is shown.
\<close>

theorem run_restores_stack:
  fixes W :: "('d, 'x) world" and s :: "('d, 'x) interp"
  assumes "orderly True W"
  shows "(\<forall>n. case eval_stmt turns d W n s of Some (r, t) \<Rightarrow> same_stack s t | None \<Rightarrow> True) \<and>
         (\<forall>n. case eval_expr turns d W n s of Some (r, t) \<Rightarrow> same_stack s t | None \<Rightarrow> True) \<and>
         (\<forall>recv name args. case dispatch_call_scoped W (interpreter turns d W) recv name args s of
            Some (r, t) \<Rightarrow> same_stack s t | None \<Rightarrow> True) \<and>
         (\<forall>recv name args. case dispatch_call turns d W recv name args s of
            Some (r, t) \<Rightarrow> scopes t = scopes s \<and> same_stack s t | None \<Rightarrow> True)"
proof -
  let ?K = "interpreter turns d W"
  note calm = orderly_calm(1) [OF assms]
  have below: "stack_may_fail.exprs_below i ?K ?K" "stack_may_fail.stmts_below i ?K ?K" "stack_may_fail.raises_below i ?K ?K" for i
    using stack_may_fail.interpreter_below [OF calm, where room = "\<lambda>_. 0", of turns turns d d i]
    by (simp_all add: stack_may_fail.paced_def)
  have dispatch: "stack_may_fail.kept i (dispatch_call_scoped W ?K recv name args) (dispatch_call_scoped W ?K recv name args)"
    for i recv name args
    using below by (intro stack_may_fail.kept_dispatch [OF calm])
      (simp add: stack_may_fail.ready_def stack_may_fail.bodies_near_def)
  have outside: "case dispatch_call turns d W recv name args s of
      Some (r, t) \<Rightarrow> scopes t = scopes s \<and> same_stack s t | None \<Rightarrow> True" for recv name args
  proof (cases "dispatch_call_scoped W ?K recv name args (s\<lparr>scopes := new_stack\<rparr>)")
    case None
    then show ?thesis by (simp add: dispatch_call_def with_new_stack_def andThen_def does_simp)
  next
    case (Some ru)
    obtain r u where ru: "ru = (r, u)" by fastforce
    have u: "same_stack (s\<lparr>scopes := new_stack\<rparr>) u"
      using kept_same_stack [OF dispatch [where recv = recv and name = name and args = args], where s = "s\<lparr>scopes := new_stack\<rparr>"]
        Some ru by simp
    have "with_new_stack (dispatch_call_scoped W ?K recv name args) s = Some (r, u\<lparr>scopes := scopes s\<rparr>) \<and>
        same_stack s (u\<lparr>scopes := scopes s\<rparr>)"
      by (rule new_stack_returns) (use Some ru u in simp_all)
    then show ?thesis by (simp add: dispatch_call_def)
  qed
  show ?thesis
    unfolding eval_stmt_def eval_expr_def
    by (intro conjI allI kept_same_stack stack_may_fail.kept_stmt stack_may_fail.kept_expr below dispatch outside)
qed

lemma run_restores_stack_witness:
  "case eval_stmt 3 2 (empty_workspace 2) endless_loop start_state of Some (r, t) \<Rightarrow> same_stack start_state t | None \<Rightarrow> True"
  using run_restores_stack [OF empty_workspace_orderly [of True 2], where turns = 3 and d = 2 and s = start_state] by blast

text \<open>
  C3: A run under a deadline ends.  Whatever the tree, however the program recurses, loops, raises events and calls the
  code of tables: if from tick \<open>N\<close> on the run is cancelled or past its deadline, then a statement, an expression, a call and a
  call from outside have a result, with fuel for one more loop turn than \<open>N\<close> and for a chain of calls of twice the three limits of
  nesting and recursion; and the call stack is as before.  This is for worlds whose record methods return when what
  they run of the program does.  The three depth guards and the look at the clock in each loop turn are what it rests
  on.
\<close>

theorem run_ends_by_deadline:
  fixes W :: "('d, 'x) world" and s :: "('d, 'x) interp"
  assumes "orderly False W" "\<forall>t\<ge>N. w_cancelled W t \<or> w_deadline W t" "N < turns"
    and "2 * (MAX_EXPR_DEPTH + MAX_AST_DEPTH + MAX_RECURSION_DEPTH) + 1 \<le> d"
  shows "(\<exists>r t. eval_stmt turns d W n s = Some (r, t) \<and> same_stack s t) \<and>
         (\<exists>r t. eval_expr turns d W n s = Some (r, t) \<and> same_stack s t) \<and>
         (\<exists>r t. dispatch_call_scoped W (interpreter turns d W) recv name args s = Some (r, t) \<and> same_stack s t) \<and>
         (\<exists>r t. dispatch_call turns d W recv name args s = Some (r, t) \<and> scopes t = scopes s \<and> same_stack s t)"
proof -
  let ?K = "interpreter turns d W"
  note calm = orderly_calm(2) [OF assms(1)]
  have paced: "stack_must_end.paced W turns turns"
    using assms(2,3) by (auto simp: stack_must_end.paced_def stack_must_end.stops_at_def)
  have below: "stack_must_end.exprs_below i ?K ?K \<and> stack_must_end.stmts_below i ?K ?K \<and> stack_must_end.raises_below i ?K ?K" for i
  proof -
    have "2 * room i + 1 \<le> d \<longrightarrow>
        stack_must_end.exprs_below i ?K ?K \<and> stack_must_end.stmts_below i ?K ?K \<and> stack_must_end.raises_below i ?K ?K"
      using stack_must_end.interpreter_below [OF calm paced, where room = room and d = d and d' = d and i = i]
        room_shrinks by blast
    then show ?thesis using room_bound [of i] assms(4) by linarith
  qed
  have dispatch: "stack_must_end.kept i (dispatch_call_scoped W ?K recv name args) (dispatch_call_scoped W ?K recv name args)" for i
    using below by (intro stack_must_end.kept_dispatch [OF calm])
      (simp add: stack_must_end.ready_def stack_must_end.bodies_near_def)
  obtain r u where "dispatch_call_scoped W ?K recv name args (s\<lparr>scopes := new_stack\<rparr>) = Some (r, u)"
      "same_stack (s\<lparr>scopes := new_stack\<rparr>) u"
    using kept_ends [OF dispatch] by blast
  then have outside: "\<exists>r t. dispatch_call turns d W recv name args s = Some (r, t) \<and> scopes t = scopes s \<and> same_stack s t"
    using new_stack_returns unfolding dispatch_call_def by fastforce
  have "stack_must_end.kept (stack_place s) (cb_stmt ?K n) (cb_stmt ?K n)"
      "stack_must_end.kept (stack_place s) (cb_expr ?K n) (cb_expr ?K n)"
    using below by (simp_all add: stack_must_end.stmts_below_def stack_must_end.exprs_below_def)
  then show ?thesis using kept_ends [OF dispatch] outside by (simp add: eval_stmt_def eval_expr_def kept_ends)
qed

lemma run_ends_by_deadline_witness:
  "\<exists>r t. eval_stmt 4 11265 (empty_workspace 3) endless_loop start_state = Some (r, t)"
proof -
  have fuel: "2 * (MAX_EXPR_DEPTH + MAX_AST_DEPTH + MAX_RECURSION_DEPTH) + 1 \<le> 11265"
    by (simp add: MAX_EXPR_DEPTH_def MAX_AST_DEPTH_def MAX_RECURSION_DEPTH_def)
  have stops: "\<forall>t\<ge>3. w_cancelled (empty_workspace 3) t \<or> w_deadline (empty_workspace 3) t"
    by (simp add: empty_workspace_def)
  show ?thesis
    using run_ends_by_deadline [OF empty_workspace_orderly stops _ fuel,
        where turns = 4 and n = endless_loop and s = start_state and recv = None and name = "[]" and args = "[]"] by auto
qed

end
