(* ===== verification/Free_Ids.thy ===== *)
theory Free_Ids
  imports Syntax_Tree "HOL-Library.Char_ord" "HOL-Library.List_Lexorder" "HOL-Library.Product_Lexorder"
begin

text \<open>
  The allocator of free object IDs, table field numbers and enum ordinals,
  \<^verbatim>\<open>src/crates/al-analysis/src/queries/free_ids.rs\<close>, with the object kinds of \<^verbatim>\<open>al-symbols/src/model.rs\<close>.

  A \<open>BTreeSet<i64>\<close> is the sorted list of its elements.  The bounds of a range are taken from the manifest as any
  \<open>i64\<close> and the code adds and subtracts without a check: where a sum leaves \<open>i64\<close> the model has no result, \<^const>\<open>None\<close>,
  which is the panic of a build with overflow checks (a build without them goes on with the wrapped number).
\<close>

section \<open>Ranges\<close>

record id_range =
  range_from :: int
  range_to :: int

record range_usage =
  usage_from :: int
  usage_to :: int
  usage_used :: int
  usage_free :: int

definition capacity :: "id_range \<Rightarrow> int option" where
  "capacity r =
     Option.bind (checked_i64 (range_to r - range_from r)) (\<lambda>d. map_option (\<lambda>c. max c 0) (checked_i64 (d + 1)))"

definition range_contains :: "id_range \<Rightarrow> int \<Rightarrow> bool" where
  "range_contains r i \<longleftrightarrow> range_from r \<le> i \<and> i \<le> range_to r"

definition in_ranges :: "id_range list \<Rightarrow> int \<Rightarrow> bool" where
  "in_ranges ranges i \<longleftrightarrow> list_ex (\<lambda>r. range_contains r i) ranges"

definition btree_set :: "int list \<Rightarrow> int list" where
  "btree_set xs = sort (remdups xs)"

definition normalized_ranges :: "id_range list \<Rightarrow> id_range list" where
  "normalized_ranges ranges =
     sort_key (\<lambda>r. (range_from r, range_to r)) (filter (\<lambda>r. range_from r \<le> range_to r) ranges)"

text \<open>
  The inner loop: the numbers of one range.  The first component says that the requested count was reached, which
  ends the function.
\<close>

function scan_range ::
  "int list \<Rightarrow> nat \<Rightarrow> int \<Rightarrow> int \<Rightarrow> int list \<Rightarrow> int list \<Rightarrow> (bool \<times> int list \<times> int list) option" where
  "scan_range used count candidate to free emitted =
     (if candidate \<le> to then
        let fresh = (candidate \<notin> set used \<and> candidate \<notin> set emitted);
            free = (if fresh then free @ [candidate] else free);
            emitted = (if fresh then candidate # emitted else emitted) in
        if fresh \<and> length free = count then Some (True, free, emitted)
        else if in_i64 (candidate + 1) then scan_range used count (candidate + 1) to free emitted
        else None
      else Some (False, free, emitted))"
  by auto
termination by (relation "measure (\<lambda>(_, _, candidate, to, _, _). nat (to - candidate + 1))") auto

declare scan_range.simps [simp del]

fun scan_ranges :: "int list \<Rightarrow> nat \<Rightarrow> id_range list \<Rightarrow> int list \<Rightarrow> int list \<Rightarrow> int list option" where
  "scan_ranges used count [] free emitted = Some free"
| "scan_ranges used count (r # rs) free emitted =
     (case scan_range used count (range_from r) (range_to r) free emitted of
        None \<Rightarrow> None
      | Some (True, free, _) \<Rightarrow> Some free
      | Some (False, free, emitted) \<Rightarrow> scan_ranges used count rs free emitted)"

definition free_in_ranges :: "id_range list \<Rightarrow> int list \<Rightarrow> nat \<Rightarrow> int list option" where
  "free_in_ranges ranges used count =
     (if count = 0 then Some [] else scan_ranges used count (normalized_ranges ranges) [] [])"

definition range_usage_of :: "id_range list \<Rightarrow> int list \<Rightarrow> range_usage list option" where
  "range_usage_of ranges used =
     those (map (\<lambda>r. map_option (\<lambda>cap. let used_here = int (length (filter (range_contains r) used)) in
        \<lparr>usage_from = range_from r, usage_to = range_to r, usage_used = min used_here cap,
         usage_free = max (cap - used_here) 0\<rparr>) (capacity r)) ranges)"

fun capacity_loop :: "id_range list \<Rightarrow> int \<Rightarrow> int option \<Rightarrow> int option" where
  "capacity_loop [] acc previous_end = Some acc"
| "capacity_loop (r # rs) acc previous_end =
     Option.bind (case previous_end of
                    Some e \<Rightarrow> if range_from r \<le> e then checked_i64 (e + 1) else Some (range_from r)
                  | None \<Rightarrow> Some (range_from r)) (\<lambda>start.
       if start \<le> range_to r
       then Option.bind (checked_i64 (range_to r - start)) (\<lambda>d.
            Option.bind (checked_i64 (d + 1)) (\<lambda>d.
            Option.bind (checked_i64 (acc + d)) (\<lambda>acc. capacity_loop rs acc (Some (range_to r)))))
       else capacity_loop rs acc (map_option (\<lambda>e. max e (range_to r)) previous_end))"

definition total_capacity :: "id_range list \<Rightarrow> int option" where
  "total_capacity ranges = capacity_loop (normalized_ranges ranges) 0 None"

text \<open>\<open>Iterator::sum\<close> of \<open>i64\<close>s.\<close>

definition sum_i64 :: "int list \<Rightarrow> int option" where
  "sum_i64 xs = foldl (\<lambda>acc x. Option.bind acc (\<lambda>a. checked_i64 (a + x))) (Some 0) xs"


section \<open>What the loops compute\<close>

text \<open>The numbers of one range after \<open>c\<close> that are neither used nor handed out, in order.\<close>

definition fresh_between :: "int list \<Rightarrow> int list \<Rightarrow> int \<Rightarrow> int \<Rightarrow> int list" where
  "fresh_between used emitted c to = filter (\<lambda>i. i \<notin> set used \<and> i \<notin> set emitted) [c..to]"

lemma fresh_between_step:
  assumes "c \<le> to"
  shows "fresh_between used emitted c to =
    (if c \<notin> set used \<and> c \<notin> set emitted then c # fresh_between used (c # emitted) (c + 1) to
     else fresh_between used emitted (c + 1) to)"
  using assms by (auto simp: fresh_between_def upto_rec1 intro!: filter_cong)

lemma fresh_between_empty: "to < c \<Longrightarrow> fresh_between used emitted c to = []"
  by (simp add: fresh_between_def)

lemma scan_range_fresh:
  assumes "length free < count" "i64_min \<le> c" "to \<le> i64_max"
  shows "case scan_range used count c to free emitted of
      None \<Rightarrow> c \<le> to \<and> to = i64_max \<and> length (free @ fresh_between used emitted c to) < count
    | Some (stop, free', emitted') \<Rightarrow>
        (if stop then free' = take count (free @ fresh_between used emitted c to)
           \<and> count \<le> length (free @ fresh_between used emitted c to)
         else free' = free @ fresh_between used emitted c to \<and> length free' < count
           \<and> set emitted' = set emitted \<union> set (fresh_between used emitted c to) \<and> (c \<le> to \<longrightarrow> to < i64_max))"
  using assms
proof (induction used count c to free emitted rule: scan_range.induct)
  case (1 used count c to free emitted)
  let ?new = "c \<notin> set used \<and> c \<notin> set emitted"
  let ?free = "if ?new then free @ [c] else free" and ?emitted = "if ?new then c # emitted else emitted"
  show ?case
  proof (cases "c \<le> to")
    case False
    then show ?thesis using "1.prems" by (subst scan_range.simps) (simp add: fresh_between_empty)
  next
    case le: True
    define F E where F: "F = ?free" and E: "E = ?emitted"
    have step: "free @ fresh_between used emitted c to = F @ fresh_between used E (c + 1) to"
      using fresh_between_step [OF le, of used emitted] by (simp add: F E)
    have sets: "set emitted \<union> set (fresh_between used emitted c to) = set E \<union> set (fresh_between used E (c + 1) to)"
      using fresh_between_step [OF le, of used emitted] by (simp add: E)
    show ?thesis
    proof (cases "?new \<and> length ?free = count")
      case True
      then have full: "c \<notin> set used" "c \<notin> set emitted" "length (free @ [c]) = count" by (simp_all split: if_splits)
      have "scan_range used count c to free emitted = Some (True, free @ [c], c # emitted)"
        using le full by (subst scan_range.simps) (simp add: Let_def)
      then show ?thesis using full(1,2) fresh_between_step [OF le, of used emitted] by (simp add: full(3) [symmetric])
    next
      case more: False
      with "1.prems" have room: "length ?free < count" by auto
      show ?thesis
      proof (cases "in_i64 (c + 1)")
        case True
        have run: "scan_range used count c to free emitted = scan_range used count (c + 1) to F E"
          unfolding F E using le more True by (subst scan_range.simps) (auto simp: Let_def)
        have bounds: "i64_min \<le> c + 1" "c + 1 \<le> to \<or> to < i64_max" using "1.prems" True le by (auto simp: int_range_defs)
        note IH = "1.IH" [OF le refl refl refl more True room bounds(1) "1.prems"(3), folded F E]
        show ?thesis
        proof (cases "scan_range used count (c + 1) to F E")
          case None
          then show ?thesis using IH le unfolding run step by auto
        next
          case (Some res)
          obtain stop free' emitted' where res: "res = (stop, free', emitted')" by (metis prod_cases3)
          show ?thesis
          proof (cases stop)
            case True
            then show ?thesis using IH unfolding run step Some res by simp
          next
            case False
            then show ?thesis using IH bounds(2) unfolding run step sets Some res by auto
          qed
        qed
      next
        case False
        then have "to = i64_max" "c = to" using "1.prems" le by (auto simp: int_range_defs)
        then show ?thesis
          using le more False room unfolding step F E
          by (subst scan_range.simps) (auto simp: Let_def fresh_between_empty)
      qed
    qed
  qed
qed

text \<open>All numbers of a list of ranges that are not used, each once, in the order the loop meets them.\<close>

fun fresh_in :: "int list \<Rightarrow> id_range list \<Rightarrow> int list \<Rightarrow> int list" where
  "fresh_in used [] emitted = []"
| "fresh_in used (r # rs) emitted =
     (let new = fresh_between used emitted (range_from r) (range_to r) in new @ fresh_in used rs (emitted @ new))"

lemma fresh_between_cong: "set e = set e' \<Longrightarrow> fresh_between used e c to = fresh_between used e' c to"
  by (simp add: fresh_between_def)

lemma fresh_in_cong: "set e = set e' \<Longrightarrow> fresh_in used rs e = fresh_in used rs e'"
proof (induction rs arbitrary: e e')
  case (Cons r rs)
  have "fresh_in used rs (e @ fresh_between used e' (range_from r) (range_to r)) =
      fresh_in used rs (e' @ fresh_between used e' (range_from r) (range_to r))"
    by (rule Cons.IH) (simp add: Cons.prems)
  then show ?case using fresh_between_cong [OF Cons.prems] by (simp add: Let_def)
qed simp

lemma set_fresh_in:
  "set (fresh_in used rs e) = {i. (\<exists>r\<in>set rs. range_contains r i) \<and> i \<notin> set used \<and> i \<notin> set e}"
proof (induction rs arbitrary: e)
  case (Cons r rs)
  then show ?case by (auto simp: Let_def fresh_between_def range_contains_def)
qed simp

lemma sorted_fresh_in:
  "sorted (map range_from rs) \<Longrightarrow> sorted_wrt (<) (fresh_in used rs e)"
proof (induction rs arbitrary: e)
  case (Cons r rs)
  then show ?case
    by (auto simp: Let_def fresh_between_def sorted_wrt_append set_fresh_in range_contains_def
        intro!: sorted_wrt_filter sorted_wrt_upto)
qed simp

text \<open>After a range that ends at \<open>i64::MAX\<close> no range has a new number.\<close>

lemma fresh_in_covered:
  assumes "\<forall>r'\<in>set rs. range_from r \<le> range_from r' \<and> range_to r' \<le> range_to r"
  shows "fresh_in used rs (emitted @ fresh_between used emitted (range_from r) (range_to r)) = []"
proof -
  let ?e = "emitted @ fresh_between used emitted (range_from r) (range_to r)"
  have "set (fresh_in used rs ?e) = {}"
    using assms unfolding set_fresh_in by (fastforce simp: fresh_between_def range_contains_def)
  then show ?thesis by simp
qed

definition i64_ranges :: "id_range list \<Rightarrow> bool" where
  "i64_ranges ranges \<longleftrightarrow> (\<forall>r\<in>set ranges. in_i64 (range_from r) \<and> in_i64 (range_to r))"

lemma scan_ranges_fresh:
  assumes "length free < count" "i64_ranges rs" "\<forall>r\<in>set rs. range_from r \<le> range_to r" "sorted (map range_from rs)"
  shows "scan_ranges used count rs free emitted =
    (if (\<exists>r\<in>set rs. range_to r = i64_max) \<and> length (free @ fresh_in used rs emitted) < count then None
     else Some (take count (free @ fresh_in used rs emitted)))"
  using assms
proof (induction rs arbitrary: free emitted)
  case (Cons r rs)
  let ?new = "fresh_between used emitted (range_from r) (range_to r)"
  have r: "i64_min \<le> range_from r" "range_to r \<le> i64_max" "range_from r \<le> range_to r" and rs: "i64_ranges rs"
    using Cons.prems by (auto simp: i64_ranges_def int_range_defs)
  note f = scan_range_fresh [OF Cons.prems(1) r(1,2), of used emitted]
  show ?case
  proof (cases "scan_range used count (range_from r) (range_to r) free emitted")
    case None
    have "\<forall>r'\<in>set rs. range_from r \<le> range_from r' \<and> range_to r' \<le> range_to r"
      using Cons.prems None f by (auto simp: i64_ranges_def int_range_defs)
    then have "fresh_in used rs (emitted @ ?new) = []" by (rule fresh_in_covered)
    then show ?thesis using None f by (auto simp: Let_def)
  next
    case (Some res)
    obtain stop free' emitted' where res: "res = (stop, free', emitted')" by (metis prod_cases3)
    show ?thesis
    proof (cases stop)
      case True
      with f Some res show ?thesis by (simp add: Let_def)
    next
      case False
      then have f: "free' = free @ ?new" "length free' < count" "set emitted' = set emitted \<union> set ?new" "range_to r < i64_max"
        using f Some res r(3) by auto
      then have "fresh_in used rs emitted' = fresh_in used rs (emitted @ ?new)" by (intro fresh_in_cong) auto
      then show ?thesis
        using Cons.IH [OF f(2) rs, of emitted'] Cons.prems(3,4) False f Some res by (simp add: Let_def)
    qed
  qed
qed simp

definition ids_of :: "id_range list \<Rightarrow> int set" where
  "ids_of ranges = {i. in_ranges ranges i}"

lemma ids_of_finite [simp]: "finite (ids_of ranges)"
proof -
  have "ids_of ranges = (\<Union>r\<in>set ranges. {range_from r..range_to r})"
    by (auto simp: ids_of_def in_ranges_def list_ex_iff range_contains_def)
  then show ?thesis by simp
qed

lemma normalized_sorted: "sorted (map range_from (normalized_ranges ranges))"
proof -
  have "sorted (map (\<lambda>r. (range_from r, range_to r)) (normalized_ranges ranges))" by (simp add: normalized_ranges_def)
  then show ?thesis by (auto simp: sorted_wrt_map less_eq_prod_def elim: sorted_wrt_mono_rel [rotated])
qed

lemma normalized_nonempty: "r \<in> set (normalized_ranges ranges) \<Longrightarrow> range_from r \<le> range_to r"
  by (simp add: normalized_ranges_def)

lemma normalized_ids: "(\<exists>r\<in>set (normalized_ranges ranges). range_contains r i) \<longleftrightarrow> i \<in> ids_of ranges"
  by (auto simp: normalized_ranges_def ids_of_def in_ranges_def list_ex_iff range_contains_def)

lemma normalized_i64: "i64_ranges ranges \<Longrightarrow> i64_ranges (normalized_ranges ranges)"
  by (auto simp: i64_ranges_def normalized_ranges_def)

text \<open>The declared numbers that are not used, in ascending order, and the case in which the search runs over \<open>i64\<close>.\<close>

definition free_declared :: "id_range list \<Rightarrow> int list \<Rightarrow> int list" where
  "free_declared ranges used = filter (\<lambda>i. i \<notin> set used) (sorted_list_of_set (ids_of ranges))"

definition search_overflows :: "id_range list \<Rightarrow> int list \<Rightarrow> nat \<Rightarrow> bool" where
  "search_overflows ranges used count \<longleftrightarrow>
     i64_max \<in> ids_of ranges \<and> length (free_declared ranges used) < count"

lemma reaches_max:
  assumes "i64_ranges ranges"
  shows "(\<exists>r\<in>set (normalized_ranges ranges). range_to r = i64_max) \<longleftrightarrow> i64_max \<in> ids_of ranges"
proof -
  have "range_contains r i64_max \<longleftrightarrow> range_to r = i64_max" if "r \<in> set (normalized_ranges ranges)" for r
    using normalized_nonempty [OF that] normalized_i64 [OF assms] that
    by (auto simp: i64_ranges_def range_contains_def int_range_defs)
  then show ?thesis using normalized_ids [of ranges i64_max] by auto
qed

lemma free_in_ranges_exact:
  assumes "i64_ranges ranges"
  shows "free_in_ranges ranges used count =
    (if search_overflows ranges used count then None else Some (take count (free_declared ranges used)))"
proof -
  let ?fresh = "fresh_in used (normalized_ranges ranges) []"
  have "?fresh = free_declared ranges used"
    unfolding free_declared_def using sorted_fresh_in [OF normalized_sorted]
    by (intro strict_sorted_equal) (auto simp: set_fresh_in normalized_ids intro: sorted_wrt_filter)
  then show ?thesis
    using scan_ranges_fresh [of "[]" count "normalized_ranges ranges" used "[]"] normalized_i64 [OF assms]
      normalized_sorted [of ranges] normalized_nonempty [of _ ranges] reaches_max [OF assms]
    by (cases "count = 0") (simp_all add: free_in_ranges_def search_overflows_def)
qed

text \<open>
  C20: For ranges of any \<open>i64\<close> bounds, the numbers handed out are the first \<open>count\<close> numbers of the declared ranges that
  are not used, each once and in ascending order, however the ranges are ordered and however they overlap.  There is
  one exception, exactly described: when the number \<open>i64::MAX\<close> is declared and fewer numbers are free than asked for,
  the search steps over \<open>i64::MAX\<close> and has no result.
\<close>

theorem free_in_ranges_first_free:
  assumes "\<forall>r\<in>set ranges. in_i64 (range_from r) \<and> in_i64 (range_to r)"
  shows "free_in_ranges ranges used count =
    (let free = filter (\<lambda>i. i \<notin> set used) (sorted_list_of_set {i. in_ranges ranges i}) in
     if in_ranges ranges i64_max \<and> length free < count then None else Some (take count free))"
  using free_in_ranges_exact [of ranges used count] assms
  by (simp add: i64_ranges_def free_declared_def search_overflows_def ids_of_def Let_def)

lemma free_in_ranges_first_free_witness:
  "free_in_ranges [\<lparr>range_from = 5, range_to = 9\<rparr>] [5] 2 = Some [6, 7] \<and>
   free_in_ranges [\<lparr>range_from = i64_max, range_to = i64_max\<rparr>] [] 2 = None"
proof -
  have a: "{i. in_ranges [\<lparr>range_from = 5, range_to = 9\<rparr>] i} = {5, 6, 7, 8, 9}"
    by (auto simp: in_ranges_def range_contains_def)
  have b: "{i. in_ranges [\<lparr>range_from = i64_max, range_to = i64_max\<rparr>] i} = {i64_max}"
    by (auto simp: in_ranges_def range_contains_def)
  show ?thesis
    using free_in_ranges_first_free [of "[\<lparr>range_from = 5, range_to = 9\<rparr>]" "[5]" 2]
      free_in_ranges_first_free [of "[\<lparr>range_from = i64_max, range_to = i64_max\<rparr>]" "[]" 2]
    unfolding a b by (simp add: in_ranges_def range_contains_def int_range_defs)
qed

text \<open>
  The capacity is the number of different IDs the manifest declares: ranges that overlap, repeat or lie inside
  one another count once, reversed ones not at all.
\<close>

lemma capacity_loop_counts:
  assumes "sorted (map range_from rs)" "\<forall>r\<in>set rs. range_from r \<le> range_to r" "capacity_loop rs acc pe = Some n"
  shows "n = acc + int (card {i. (\<exists>r\<in>set rs. range_contains r i) \<and> (case pe of None \<Rightarrow> True | Some e \<Rightarrow> e < i)})"
  using assms
proof (induction rs arbitrary: acc pe)
  case (Cons r rs)
  let ?above = "\<lambda>rs pe. {i. (\<exists>r\<in>set rs. range_contains r i) \<and> (case pe of None \<Rightarrow> True | Some e \<Rightarrow> e < i)}"
  let ?start = "case pe of Some e \<Rightarrow> if range_from r \<le> e then e + 1 else range_from r | None \<Rightarrow> range_from r"
  have fin: "finite (?above rs q)" for q
    by (rule finite_subset [of _ "\<Union>r\<in>set rs. {range_from r..range_to r}"]) (auto simp: range_contains_def)
  have run: "(if ?start \<le> range_to r then capacity_loop rs (acc + (range_to r - ?start + 1)) (Some (range_to r))
      else capacity_loop rs acc (map_option (\<lambda>e. max e (range_to r)) pe)) = Some n"
    using Cons.prems(3) by (cases pe) (auto simp: checked_i64_def Option.bind_eq_Some_conv split: if_splits)
  show ?case
  proof (cases "?start \<le> range_to r")
    case True
    have "?above (r # rs) pe = {?start..range_to r} \<union> ?above rs (Some (range_to r))"
      using Cons.prems True by (auto simp: range_contains_def split: option.splits if_splits)
    moreover have "{?start..range_to r} \<inter> ?above rs (Some (range_to r)) = {}" by auto
    ultimately have "card (?above (r # rs) pe) = card {?start..range_to r} + card (?above rs (Some (range_to r)))"
      using fin by (simp only: card_Un_disjoint finite_atLeastAtMost_int)
    moreover have "capacity_loop rs (acc + (range_to r - ?start + 1)) (Some (range_to r)) = Some n" using run True by simp
    then have "n = acc + (range_to r - ?start + 1) + int (card (?above rs (Some (range_to r))))"
      using Cons.IH Cons.prems(1,2) by fastforce
    ultimately show ?thesis using True by simp
  next
    case False
    then obtain e where e: "pe = Some e" "range_to r \<le> e" using Cons.prems(2) by (auto split: option.splits if_splits)
    then have "?above (r # rs) pe = ?above rs pe" by (auto simp: range_contains_def)
    moreover have "capacity_loop rs acc (Some e) = Some n" using run False e by (simp add: max_def)
    then have "n = acc + int (card (?above rs (Some e)))" using Cons.IH Cons.prems(1,2) by fastforce
    ultimately show ?thesis using e by simp
  qed
qed simp

theorem total_capacity_counts: "total_capacity ranges = Some n \<Longrightarrow> n = int (card (ids_of ranges))"
  using capacity_loop_counts [OF normalized_sorted, of ranges 0 None n]
  by (simp add: total_capacity_def normalized_nonempty normalized_ids)

lemma capacity_leaves_i64: "capacity \<lparr>range_from = 0, range_to = i64_max\<rparr> = None"
  by (simp add: capacity_def checked_i64_def int_range_defs)

text \<open>Bounds of 32 bits, as AL's object IDs have, keep every sum in \<open>i64\<close>.\<close>

definition small_ranges :: "id_range list \<Rightarrow> bool" where
  "small_ranges ranges \<longleftrightarrow>
     (\<forall>r\<in>set ranges. - (2 ^ 31) \<le> range_from r \<and> range_to r < 2 ^ 31 \<and> range_from r < 2 ^ 31 \<and> - (2 ^ 31) \<le> range_to r) \<and>
     length ranges \<le> 2 ^ 30"

lemma small_i64: "small_ranges ranges \<Longrightarrow> i64_ranges ranges"
  by (auto simp: small_ranges_def i64_ranges_def int_range_defs)

lemma small_search: "small_ranges ranges \<Longrightarrow> \<not> search_overflows ranges used count"
  by (fastforce simp: small_ranges_def search_overflows_def ids_of_def in_ranges_def list_ex_iff range_contains_def int_range_defs)

lemma small_capacity:
  assumes "small_ranges ranges" "r \<in> set ranges"
  shows "\<exists>c. capacity r = Some c \<and> 0 \<le> c \<and> c \<le> 2 ^ 32"
proof -
  have "- (2 ^ 31) \<le> range_from r" "range_to r < 2 ^ 31" "range_from r < 2 ^ 31" "- (2 ^ 31) \<le> range_to r"
    using assms by (auto simp: small_ranges_def)
  then show ?thesis by (auto simp: capacity_def checked_i64_def int_range_defs)
qed

section \<open>Objects and queries\<close>

datatype object_kind =
    Obj_Table | Obj_TableExtension | Obj_Page | Obj_PageExtension | Obj_Codeunit | Obj_Report | Obj_ReportExtension
  | Obj_XmlPort | Obj_Query | Obj_Enum | Obj_EnumExtension | Obj_Interface | Obj_PermissionSet
  | Obj_PermissionSetExtension | Obj_Profile | Obj_PageCustomization | Obj_ControlAddIn | Obj_Entitlement
  | Obj_ProfileExtension | Obj_DotNet

definition requires_numeric_id :: "object_kind \<Rightarrow> bool" where
  "requires_numeric_id k \<longleftrightarrow>
     k \<in> {Obj_Table, Obj_TableExtension, Obj_Page, Obj_PageExtension, Obj_Codeunit, Obj_Report, Obj_ReportExtension,
          Obj_XmlPort, Obj_Query, Obj_Enum, Obj_EnumExtension, Obj_PermissionSet, Obj_PermissionSetExtension}"

fun al_keyword :: "object_kind \<Rightarrow> string" where
  "al_keyword Obj_Table = ''table''"
| "al_keyword Obj_TableExtension = ''tableextension''"
| "al_keyword Obj_Page = ''page''"
| "al_keyword Obj_PageExtension = ''pageextension''"
| "al_keyword Obj_Codeunit = ''codeunit''"
| "al_keyword Obj_Report = ''report''"
| "al_keyword Obj_ReportExtension = ''reportextension''"
| "al_keyword Obj_XmlPort = ''xmlport''"
| "al_keyword Obj_Query = ''query''"
| "al_keyword Obj_Enum = ''enum''"
| "al_keyword Obj_EnumExtension = ''enumextension''"
| "al_keyword Obj_Interface = ''interface''"
| "al_keyword Obj_PermissionSet = ''permissionset''"
| "al_keyword Obj_PermissionSetExtension = ''permissionsetextension''"
| "al_keyword Obj_Profile = ''profile''"
| "al_keyword Obj_PageCustomization = ''pagecustomization''"
| "al_keyword Obj_ControlAddIn = ''controladdin''"
| "al_keyword Obj_Entitlement = ''entitlement''"
| "al_keyword Obj_ProfileExtension = ''profileextension''"
| "al_keyword Obj_DotNet = ''dotnet''"

record object_record =
  obj_kind :: object_kind
  obj_id :: int
  obj_name :: string
  obj_extends :: "string option"
  obj_members :: "(int \<times> string) list"
  obj_package :: string

definition in_workspace :: "object_record \<Rightarrow> bool" where
  "in_workspace ob \<longleftrightarrow> obj_package ob = []"

definition source_label :: "object_record \<Rightarrow> string" where
  "source_label ob = (if in_workspace ob then obj_name ob else obj_name ob @ '' ('' @ obj_package ob @ '')'')"

record free_ids_query =
  q_kind :: "object_kind option"
  q_object :: "string option"
  q_count :: nat
  q_include_used :: bool

datatype free_ids_error =
    NoProject
  | Manifest string
  | UnknownKind string
  | NameScopedKind object_kind
  | ObjectNotFound string
  | AmbiguousObject string string
  | UnsupportedObjectKind string object_kind
  | Exhausted string

datatype free_ids_mode = Mode_Object | Mode_Summary | Mode_Field | Mode_Value

record kind_usage =
  ku_kind :: string
  ku_used :: int
  ku_free :: int
  ku_next_free :: "int option"

record free_ids_report =
  rep_mode :: free_ids_mode
  rep_kind :: "string option"
  rep_object :: "string option"
  rep_base_object :: "string option"
  rep_ranges :: "range_usage list"
  rep_kinds :: "kind_usage list"
  rep_next_free :: "int option"
  rep_free :: "int list"
  rep_used_count :: int
  rep_free_count :: "int option"
  rep_sources :: "string list"
  rep_used :: "int list"
  rep_truncated :: bool
  rep_warnings :: "string list"

definition MAX_COUNT :: nat where "MAX_COUNT = 100"

definition NO_RANGES_WARNING :: string where
  "NO_RANGES_WARNING =
     ''app.json declares no idRanges, so no ID can be checked against a range; add an idRanges entry to app.json''"

fun join_with :: "string \<Rightarrow> string list \<Rightarrow> string" where
  "join_with sep [] = []"
| "join_with sep [x] = x"
| "join_with sep (x # y # xs) = x @ sep @ join_with sep (y # xs)"

definition describe_ranges :: "id_range list \<Rightarrow> string" where
  "describe_ranges ranges = join_with '', '' (map (\<lambda>r. show_int (range_from r) @ ''-'' @ show_int (range_to r)) ranges)"

definition exhausted :: "string \<Rightarrow> id_range list \<Rightarrow> free_ids_error" where
  "exhausted domain ranges =
     (if ranges = []
      then Exhausted (''app.json declares no idRanges, so no '' @ domain @
             '' can be allocated; add an idRanges entry to app.json'')
      else Exhausted (''no free '' @ domain @ '' left in the declared app.json idRanges ('' @ describe_ranges ranges @
             ''); widen idRanges in app.json or reuse the number of a removed object''))"

fun dedup_by :: "('a \<Rightarrow> 'b) \<Rightarrow> 'a list \<Rightarrow> 'a list" where
  "dedup_by f [] = []"
| "dedup_by f [x] = [x]"
| "dedup_by f (x # y # xs) = (if f x = f y then dedup_by f (x # xs) else x # dedup_by f (y # xs))"


section \<open>Allocation\<close>

definition ids_used_by :: "object_kind \<Rightarrow> object_record list \<Rightarrow> int list" where
  "ids_used_by k objects = btree_set (map obj_id (filter (\<lambda>ob. obj_kind ob = k) objects))"

definition allocate_object_ids ::
  "object_record list \<Rightarrow> id_range list \<Rightarrow> object_kind \<Rightarrow> nat \<Rightarrow> free_ids_query \<Rightarrow> string list \<Rightarrow>
    (free_ids_error + free_ids_report) option" where
  "allocate_object_ids objects ranges k count q warnings =
     (if \<not> requires_numeric_id k then Some (Err (NameScopedKind k))
      else
        let used = ids_used_by k objects in
        Option.bind (range_usage_of ranges used) (\<lambda>usage.
        Option.bind (free_in_ranges ranges used count) (\<lambda>free.
          if free = [] then Some (Err (exhausted (al_keyword k @ '' ID'') ranges))
          else
            let in_range_used = filter (in_ranges ranges) used in
            map_option (\<lambda>free_count.
              Ok \<lparr>rep_mode = Mode_Object, rep_kind = Some (al_keyword k), rep_object = None, rep_base_object = None,
                  rep_ranges = usage, rep_kinds = [], rep_next_free = nth_opt free 0, rep_free = free,
                  rep_used_count = int (length in_range_used), rep_free_count = Some free_count,
                  rep_sources = [], rep_used = (if q_include_used q then in_range_used else []),
                  rep_truncated = (length free < count), rep_warnings = warnings\<rparr>)
              (sum_i64 (map usage_free usage)))))"

text \<open>The map from keywords to the IDs of their kind, in the order of the keywords.\<close>

definition ids_per_kind :: "object_record list \<Rightarrow> (string \<times> int list) list" where
  "ids_per_kind objects =
     (let numbered = filter (\<lambda>ob. requires_numeric_id (obj_kind ob)) objects in
      map (\<lambda>keyword. (keyword, btree_set (map obj_id (filter (\<lambda>ob. al_keyword (obj_kind ob) = keyword) numbered))))
        (sort (remdups (map (\<lambda>ob. al_keyword (obj_kind ob)) numbered))))"

definition kind_usages :: "object_record list \<Rightarrow> id_range list \<Rightarrow> kind_usage list option" where
  "kind_usages objects ranges =
     Option.bind (total_capacity ranges) (\<lambda>cap.
       those (map (\<lambda>(keyword, used). let here = int (length (filter (in_ranges ranges) used)) in
           map_option (\<lambda>free. \<lparr>ku_kind = keyword, ku_used = here, ku_free = max (cap - here) 0, ku_next_free = nth_opt free 0\<rparr>)
             (free_in_ranges ranges used 1))
         (filter (\<lambda>(_, used). list_ex (in_ranges ranges) used) (ids_per_kind objects))))"

definition declared_usage :: "id_range list \<Rightarrow> range_usage list option" where
  "declared_usage ranges =
     those (map (\<lambda>r. map_option (\<lambda>cap.
        \<lparr>usage_from = range_from r, usage_to = range_to r, usage_used = 0, usage_free = cap\<rparr>) (capacity r)) ranges)"

definition summarize :: "object_record list \<Rightarrow> id_range list \<Rightarrow> string list \<Rightarrow> free_ids_report option" where
  "summarize objects ranges warnings =
     Option.bind (kind_usages objects ranges) (\<lambda>kinds.
     map_option (\<lambda>usage.
      \<lparr>rep_mode = Mode_Summary, rep_kind = None, rep_object = None, rep_base_object = None,
       rep_ranges = usage,
       rep_kinds = kinds, rep_next_free = None, rep_free = [], rep_used_count = sum_list (map ku_used kinds),
       rep_free_count = None, rep_sources = [], rep_used = [], rep_truncated = False, rep_warnings = warnings\<rparr>)
      (declared_usage ranges))"

definition resolve_object :: "object_record list \<Rightarrow> string \<Rightarrow> object_kind option \<Rightarrow> free_ids_error + object_record" where
  "resolve_object objects name k =
     (let many = filter (\<lambda>ob. eq_ignore_ascii_case (obj_name ob) name \<and> (case k of None \<Rightarrow> True | Some k \<Rightarrow> obj_kind ob = k)) objects in
      case many of
        [] \<Rightarrow> Err (ObjectNotFound name)
      | [only] \<Rightarrow> Ok only
      | first # _ \<Rightarrow>
          (case filter in_workspace many of
             [only] \<Rightarrow> Ok only
           | _ \<Rightarrow>
               let kinds = dedup_by (\<lambda>x. x) (sort (map (\<lambda>ob. al_keyword (obj_kind ob)) many)) in
               if length kinds = 1 then Ok first else Err (AmbiguousObject name (join_with '', '' kinds))))"

text \<open>The numbering space of a table or an enum: which kind of number, whose, and whether the ranges bind it.\<close>

definition numbering_space :: "object_record \<Rightarrow> (free_ids_mode \<times> string \<times> bool) option" where
  "numbering_space target =
     (case obj_kind target of
        Obj_Table \<Rightarrow> Some (Mode_Field, obj_name target, \<not> in_workspace target)
      | Obj_TableExtension \<Rightarrow> Some (Mode_Field, unwrap_or (obj_extends target) (obj_name target), True)
      | Obj_Enum \<Rightarrow> Some (Mode_Value, obj_name target, \<not> in_workspace target)
      | Obj_EnumExtension \<Rightarrow> Some (Mode_Value, unwrap_or (obj_extends target) (obj_name target), True)
      | _ \<Rightarrow> None)"

definition base_kind :: "free_ids_mode \<Rightarrow> object_kind" where
  "base_kind mode = (if mode = Mode_Field then Obj_Table else Obj_Enum)"

definition extension_kind :: "free_ids_mode \<Rightarrow> object_kind" where
  "extension_kind mode = (if mode = Mode_Field then Obj_TableExtension else Obj_EnumExtension)"

definition shares_space :: "free_ids_mode \<Rightarrow> string \<Rightarrow> object_record \<Rightarrow> bool" where
  "shares_space mode base ob \<longleftrightarrow>
     obj_kind ob = base_kind mode \<and> eq_ignore_ascii_case (obj_name ob) base \<or>
     obj_kind ob = extension_kind mode \<and>
       (case obj_extends ob of None \<Rightarrow> False | Some target \<Rightarrow> eq_ignore_ascii_case target base)"

definition contributors :: "free_ids_mode \<Rightarrow> string \<Rightarrow> object_record list \<Rightarrow> object_record list" where
  "contributors mode base objects = dedup_by source_label (sort_key source_label (filter (shares_space mode base) objects))"

definition numbers_used :: "object_record list \<Rightarrow> int list" where
  "numbers_used obs = btree_set (concat (map (\<lambda>ob. map fst (obj_members ob)) obs))"

text \<open>The search of an object that owns its whole numbering space.\<close>

function free_from :: "int list \<Rightarrow> nat \<Rightarrow> int \<Rightarrow> int list \<Rightarrow> int list option" where
  "free_from used count candidate free =
     (if length free < count
      then let free = (if candidate \<notin> set used then free @ [candidate] else free) in
        if in_i64 (candidate + 1) then free_from used count (candidate + 1) free else None
      else Some free)"
  by auto
termination
proof (relation "measure (\<lambda>(used, count, candidate, free). (count - length free) + card {u \<in> set used. candidate \<le> u})", simp)
  fix used :: "int list" and count :: nat and candidate :: int and free free' :: "int list"
  assume "length free < count" "free' = (if candidate \<notin> set used then free @ [candidate] else free)"
  moreover have "{u \<in> set used. candidate + 1 \<le> u} = {u \<in> set used. candidate \<le> u} - {candidate}" by auto
  moreover have "card ({u \<in> set used. candidate \<le> u} - {candidate}) < card {u \<in> set used. candidate \<le> u}"
    if "candidate \<in> set used" using that by (intro card_Diff1_less) auto
  moreover have "{u \<in> set used. candidate \<le> u} - {candidate} = {u \<in> set used. candidate \<le> u}"
    if "candidate \<notin> set used" using that by auto
  ultimately show "((used, count, candidate + 1, free'), used, count, candidate, free) \<in> measure (\<lambda>(used, count, candidate, free). (count - length free) + card {u \<in> set used. candidate \<le> u})"
    by (cases "candidate \<in> set used") simp_all
qed

declare free_from.simps [simp del]

definition member_domain :: "free_ids_mode \<Rightarrow> string" where
  "member_domain mode = (if mode = Mode_Field then ''field number'' else ''enum value ordinal'')"

definition invisible_base :: "free_ids_mode \<Rightarrow> string \<Rightarrow> string" where
  "invisible_base mode base = ''base '' @ al_keyword (base_kind mode) @ '' '' @ [CHR 39] @ base @ [CHR 39] @
     '' is not visible in the workspace or any loaded package, so its own numbers could not be checked''"

definition allocate_members ::
  "object_record list \<Rightarrow> id_range list \<Rightarrow> string \<Rightarrow> free_ids_query \<Rightarrow> nat \<Rightarrow> string list \<Rightarrow>
    (free_ids_error + free_ids_report) option" where
  "allocate_members objects ranges name q count warnings =
     (case resolve_object objects name (q_kind q) of
       Inl e \<Rightarrow> Some (Err e)
     | Inr target \<Rightarrow>
         (case numbering_space target of
            None \<Rightarrow> Some (Err (UnsupportedObjectKind (obj_name target) (obj_kind target)))
          | Some (mode, base, constrained) \<Rightarrow>
              let obs = contributors mode base objects;
                  used = numbers_used obs;
                  hidden = constrained \<and> \<not> eq_ignore_ascii_case base (obj_name target) \<and> length obs = 1;
                  report = (\<lambda>usage free free_count.
                    \<lparr>rep_mode = mode, rep_kind = Some (al_keyword (obj_kind target)), rep_object = Some (obj_name target),
                     rep_base_object = (if base \<noteq> obj_name target then Some base else None),
                     rep_ranges = usage, rep_kinds = [], rep_next_free = nth_opt free 0, rep_free = free,
                     rep_used_count = int (length used), rep_free_count = free_count,
                     rep_sources = map source_label obs, rep_used = (if q_include_used q then used else []),
                     rep_truncated = (length free < count),
                     rep_warnings = (if hidden then warnings @ [invisible_base mode base] else warnings)\<rparr>)
              in if constrained
                 then Option.bind (range_usage_of ranges used) (\<lambda>usage.
                      Option.bind (free_in_ranges ranges used count) (\<lambda>free.
                        if free = [] then Some (Err (exhausted (member_domain mode) ranges))
                        else map_option (\<lambda>free_count. Ok (report usage free (Some free_count)))
                               (sum_i64 (map usage_free usage))))
                 else map_option (\<lambda>free. Ok (report [] free None))
                        (free_from used count (if mode = Mode_Field then 1 else 0) [])))"

definition requested_count :: "free_ids_query \<Rightarrow> nat" where
  "requested_count q = min (max (q_count q) 1) MAX_COUNT"

definition allocate ::
  "object_record list \<Rightarrow> id_range list \<Rightarrow> free_ids_query \<Rightarrow> (free_ids_error + free_ids_report) option" where
  "allocate objects ranges q =
     (let count = requested_count q;
          warnings = (if ranges = [] then [NO_RANGES_WARNING] else [])
      in case q_object q of
           Some name \<Rightarrow> allocate_members objects ranges name q count warnings
         | None \<Rightarrow>
             (case q_kind q of
                Some k \<Rightarrow> allocate_object_ids objects ranges k count q warnings
              | None \<Rightarrow> map_option Ok (summarize objects ranges warnings)))"

section \<open>What an allocation answers\<close>

lemma btree_set_simps [simp]: "set (btree_set xs) = set xs" "distinct (btree_set xs)"
  by (simp_all add: btree_set_def)

lemma dedup_by_distinct: "distinct (map f xs) \<Longrightarrow> dedup_by f xs = xs"
  by (induction f xs rule: dedup_by.induct) auto

text \<open>\<open>r\<close> holds the \<open>count\<close> smallest numbers from \<open>first\<close> on that are not in \<open>used\<close>, in ascending order.\<close>

definition smallest_unused :: "int set \<Rightarrow> nat \<Rightarrow> int \<Rightarrow> int list \<Rightarrow> bool" where
  "smallest_unused used count first r \<longleftrightarrow>
     length r = count \<and> sorted_wrt (<) r \<and> (\<forall>i\<in>set r. i \<notin> used \<and> first \<le> i) \<and>
     (\<forall>j\<ge>first. j \<notin> used \<and> j \<notin> set r \<longrightarrow> (\<forall>i\<in>set r. i < j))"

lemma free_from_smallest:
  assumes "length free \<le> count" "sorted_wrt (<) free" "\<forall>i\<in>set free. i \<notin> set used \<and> first \<le> i \<and> i < c"
    and "\<forall>j. first \<le> j \<and> j < c \<and> j \<notin> set used \<longrightarrow> j \<in> set free" and "first \<le> c"
    and "free_from used count c free = Some r"
  shows "smallest_unused (set used) count first r"
  using assms
proof (induction used count c free rule: free_from.induct)
  case (1 used count c free)
  show ?case
  proof (cases "length free < count")
    case True
    let ?free = "if c \<notin> set used then free @ [c] else free"
    have next_c: "in_i64 (c + 1)" "free_from used count (c + 1) ?free = Some r"
      using 1(7) True by (subst (asm) free_from.simps, simp add: Let_def split: if_splits)+
    show ?thesis
    proof (rule 1(1) [OF True refl next_c(1)])
      show "length ?free \<le> count" using True by simp
      show "sorted_wrt (<) ?free" using 1(3,4) by (auto simp: sorted_wrt_append)
      show "\<forall>i\<in>set ?free. i \<notin> set used \<and> first \<le> i \<and> i < c + 1"
      proof
        fix i assume "i \<in> set ?free"
        then have "i \<in> set free \<or> i = c \<and> c \<notin> set used" by (auto split: if_splits)
        then show "i \<notin> set used \<and> first \<le> i \<and> i < c + 1" using 1(4,6) by auto
      qed
      show "\<forall>j. first \<le> j \<and> j < c + 1 \<and> j \<notin> set used \<longrightarrow> j \<in> set ?free"
      proof (intro allI impI)
        fix j assume j: "first \<le> j \<and> j < c + 1 \<and> j \<notin> set used"
        show "j \<in> set ?free"
        proof (cases "j = c")
          case True
          then show ?thesis using j by simp
        next
          case False
          then have "j \<in> set free" using 1(5) j by simp
          then show ?thesis by simp
        qed
      qed
      show "first \<le> c + 1" using 1(6) by simp
    qed (rule next_c(2))
  next
    case False
    then have "r = free" using 1(7) by (subst (asm) free_from.simps) simp
    moreover have "i < j" if "first \<le> j" "j \<notin> set used" "j \<notin> set free" "i \<in> set free" for i j
    proof -
      have "\<not> j < c" using 1(5) that by blast
      moreover have "i < c" using 1(4) that by blast
      ultimately show ?thesis by simp
    qed
    ultimately show ?thesis using 1(2-4) False by (simp add: smallest_unused_def)
  qed
qed

text \<open>The search of an own space ends before \<open>i64::MAX\<close> when not that many numbers are used.\<close>

lemma free_from_ends:
  "i64_min \<le> c \<Longrightarrow> c + int (card {u \<in> set used. c \<le> u}) + int (count - length free) \<le> i64_max \<Longrightarrow>
   \<exists>r. free_from used count c free = Some r"
proof (induction used count c free rule: free_from.induct)
  case (1 used count c free)
  show ?case
  proof (cases "length free < count")
    case True
    let ?free = "if c \<notin> set used then free @ [c] else free"
    let ?above = "\<lambda>c. card {u \<in> set used. c \<le> u}"
    have less: "c + 1 + int (?above (c + 1)) + int (count - length ?free) \<le> i64_max"
    proof (cases "c \<in> set used")
      case True
      have "{u \<in> set used. c \<le> u} = insert c {u \<in> set used. c + 1 \<le> u}" using True by auto
      then have "?above c = Suc (?above (c + 1))" by simp
      then show ?thesis using "1.prems"(2) True by simp
    next
      case False
      have "c \<le> u \<longleftrightarrow> c + 1 \<le> u" if "u \<in> set used" for u using that False by (cases "u = c") auto
      then have "?above c = ?above (c + 1)" by (metis (no_types, lifting))
      then show ?thesis using "1.prems"(2) False \<open>length free < count\<close> by simp
    qed
    then have fits: "in_i64 (c + 1)" using "1.prems"(1) by (auto simp: int_range_defs)
    have "free_from used count c free = free_from used count (c + 1) ?free"
      using True fits by (subst free_from.simps) (simp add: Let_def)
    then show ?thesis using "1.IH" [OF True refl fits _ less] "1.prems"(1) by simp
  qed (subst free_from.simps, simp)
qed

lemma nth_opt_take: "0 < n \<Longrightarrow> nth_opt (take n xs) 0 = (if xs = [] then None else Some (hd xs))"
  by (cases xs; cases n) auto

definition available_ids :: "object_record list \<Rightarrow> object_kind \<Rightarrow> id_range list \<Rightarrow> int list" where
  "available_ids objects k ranges =
     filter (\<lambda>i. \<forall>ob\<in>set objects. obj_kind ob = k \<longrightarrow> obj_id ob \<noteq> i) (sorted_list_of_set (ids_of ranges))"

lemma available_declared: "free_declared ranges (ids_used_by k objects) = available_ids objects k ranges"
  unfolding free_declared_def available_ids_def ids_used_by_def by (rule filter_cong) auto

lemma free_found: "i64_ranges ranges \<Longrightarrow> free_in_ranges ranges used n = Some free \<Longrightarrow> free = take n (free_declared ranges used)"
  by (simp add: free_in_ranges_exact split: if_splits)

lemma requested_positive [simp]: "0 < requested_count q" "requested_count q \<noteq> 0" "requested_count q \<le> 100"
  by (auto simp: requested_count_def MAX_COUNT_def)

text \<open>Sums that stay small.\<close>

lemma those_total: "(\<And>x. x \<in> set xs \<Longrightarrow> \<exists>y. f x = Some y \<and> P y) \<Longrightarrow> \<exists>ys. those (map f xs) = Some ys \<and> length ys = length xs \<and> (\<forall>y\<in>set ys. P y)"
proof (induction xs)
  case (Cons x xs)
  then obtain ys where "those (map f xs) = Some ys" "length ys = length xs" "\<forall>y\<in>set ys. P y" by fastforce
  moreover obtain y where "f x = Some y" "P y" using Cons.prems by fastforce
  ultimately show ?case by simp
qed simp

lemma sum_i64_total:
  assumes "\<forall>x\<in>set xs. 0 \<le> x \<and> x \<le> b" "0 \<le> a" "a + b * int (length xs) \<le> i64_max"
  shows "\<exists>n. foldl (\<lambda>acc x. Option.bind acc (\<lambda>a. checked_i64 (a + x))) (Some a) xs = Some n"
  using assms
proof (induction xs arbitrary: a)
  case (Cons x xs)
  have x: "0 \<le> x" "x \<le> b" using Cons.prems(1) by simp_all
  have sum: "a + x + b * int (length xs) \<le> i64_max" using Cons.prems(3) x by (simp add: algebra_simps)
  have "0 \<le> b * int (length xs)" using x by simp
  then have "0 \<le> a + x" "a + x \<le> i64_max" using sum Cons.prems(2) x by linarith+
  then have "checked_i64 (a + x) = Some (a + x)" by (simp add: checked_i64_def int_range_defs)
  then show ?case using Cons.IH [of "a + x"] Cons.prems(1,2) sum x by simp
qed simp

lemma small_usage:
  assumes "small_ranges ranges"
  shows "\<exists>usage. range_usage_of ranges used = Some usage \<and> (\<exists>n. sum_i64 (map usage_free usage) = Some n)"
proof -
  let ?row = "\<lambda>r. map_option (\<lambda>cap. let used_here = int (length (filter (range_contains r) used)) in
        \<lparr>usage_from = range_from r, usage_to = range_to r, usage_used = min used_here cap,
         usage_free = max (cap - used_here) 0\<rparr>) (capacity r)"
  have "\<exists>u. ?row r = Some u \<and> 0 \<le> usage_free u \<and> usage_free u \<le> 2 ^ 32" if "r \<in> set ranges" for r
    using small_capacity [OF assms that] by (auto simp: Let_def)
  then obtain usage where u: "range_usage_of ranges used = Some usage" "length usage = length ranges"
      "\<forall>u\<in>set usage. 0 \<le> usage_free u \<and> usage_free u \<le> 2 ^ 32"
    unfolding range_usage_of_def using those_total [of ranges ?row "\<lambda>u. 0 \<le> usage_free u \<and> usage_free u \<le> 2 ^ 32"] by blast
  have "int (length usage) \<le> 2 ^ 30" using assms u(2) by (simp add: small_ranges_def)
  then have "\<exists>n. sum_i64 (map usage_free usage) = Some n"
    unfolding sum_i64_def using u(3) by (intro sum_i64_total [where b = "2 ^ 32"]) (simp_all add: int_range_defs)
  then show ?thesis using u(1) by blast
qed

text \<open>
  C27: An allocation of object IDs answers the smallest IDs of the declared ranges that no object of the kind has,
  as many as were asked for (at least 1, at most 100) or all there are; it is refused exactly for a kind that
  carries no ID and when every declared ID is taken.  Ranges of 32-bit bounds always have an answer; with wider ones
  a sum may leave \<open>i64\<close>, and then there is none.
\<close>

theorem allocate_object_ids_free:
  assumes "q_object q = None" "q_kind q = Some k" "i64_ranges ranges"
  shows "case allocate objects ranges q of
      None \<Rightarrow> \<not> small_ranges ranges
    | Some (Inl e) \<Rightarrow> (if requires_numeric_id k then available_ids objects k ranges = [] \<and> e = exhausted (al_keyword k @ '' ID'') ranges
                else e = NameScopedKind k)
    | Some (Inr rep) \<Rightarrow> requires_numeric_id k \<and>
        rep_free rep = take (requested_count q) (available_ids objects k ranges) \<and>
        rep_next_free rep = Some (hd (available_ids objects k ranges)) \<and>
        (rep_truncated rep \<longleftrightarrow> length (available_ids objects k ranges) < requested_count q) \<and>
        rep_used_count rep = int (card {i \<in> ids_of ranges. \<exists>ob\<in>set objects. obj_kind ob = k \<and> obj_id ob = i})"
proof (cases "requires_numeric_id k")
  case False
  then show ?thesis using assms by (simp add: allocate_def allocate_object_ids_def)
next
  case True
  let ?used = "ids_used_by k objects"
  have "set (filter (in_ranges ranges) ?used) = {i \<in> ids_of ranges. \<exists>ob\<in>set objects. obj_kind ob = k \<and> obj_id ob = i}"
    by (auto simp: ids_used_by_def ids_of_def)
  moreover have "distinct (filter (in_ranges ranges) ?used)" by (simp add: ids_used_by_def)
  ultimately have card: "length (filter (in_ranges ranges) ?used) =
      card {i \<in> ids_of ranges. \<exists>ob\<in>set objects. obj_kind ob = k \<and> obj_id ob = i}"
    by (metis distinct_card)
  note run = allocate_def allocate_object_ids_def assms(1,2) True
  show ?thesis
  proof (cases "range_usage_of ranges ?used")
    case None
    then show ?thesis using small_usage [of ranges ?used] by (auto simp: run)
  next
    case usage: (Some usage)
    show ?thesis
    proof (cases "free_in_ranges ranges ?used (requested_count q)")
      case None
      then show ?thesis
        using usage small_search [of ranges] free_in_ranges_exact [OF assms(3)] by (auto simp: run split: if_splits)
    next
      case (Some free)
      note free = free_found [OF assms(3) Some, unfolded available_declared]
      then have empty: "free = [] \<longleftrightarrow> available_ids objects k ranges = []" by simp
      show ?thesis
      proof (cases "sum_i64 (map usage_free usage)")
        case None
        then show ?thesis using usage Some small_usage [of ranges ?used] empty by (auto simp: run)
      next
        case (Some n)
        then show ?thesis
          using usage \<open>free_in_ranges ranges ?used (requested_count q) = Some free\<close> free empty card
          by (auto simp: run Let_def nth_opt_take)
      qed
    qed
  qed
qed

lemma allocate_object_ids_free_witness:
  "(case allocate
      [\<lparr>obj_kind = Obj_Table, obj_id = 50000, obj_name = ''A'', obj_extends = None, obj_members = [], obj_package = []\<rparr>]
      [\<lparr>range_from = 50000, range_to = 50002\<rparr>]
      \<lparr>q_kind = Some Obj_Table, q_object = None, q_count = 5, q_include_used = False\<rparr> of
      Some (Inr rep) \<Rightarrow> rep_free rep = [50001, 50002] \<and> rep_next_free rep = Some 50001 \<and> rep_truncated rep
    | _ \<Rightarrow> False)"
proof -
  let ?obs = "[\<lparr>obj_kind = Obj_Table, obj_id = 50000, obj_name = ''A'', obj_extends = None, obj_members = [], obj_package = []\<rparr>]"
  let ?ranges = "[\<lparr>range_from = 50000, range_to = 50002\<rparr>]"
  let ?q = "\<lparr>q_kind = Some Obj_Table, q_object = None, q_count = 5, q_include_used = False\<rparr>"
  have "ids_of ?ranges = {50000, 50001, 50002}" by (auto simp: ids_of_def in_ranges_def range_contains_def)
  then have "available_ids ?obs Obj_Table ?ranges = [50001, 50002]" by (simp add: available_ids_def)
  moreover have "small_ranges ?ranges" by (simp add: small_ranges_def)
  ultimately show ?thesis
    using allocate_object_ids_free [of ?q Obj_Table ?ranges ?obs] small_i64 [of ?ranges]
    by (simp add: requires_numeric_id_def requested_count_def MAX_COUNT_def split: sum.splits option.splits)
qed

text \<open>The numbers that members of a numbering space have.\<close>

definition member_numbers_taken :: "free_ids_mode \<Rightarrow> string \<Rightarrow> object_record list \<Rightarrow> int set" where
  "member_numbers_taken mode base objects =
     {i. \<exists>ob\<in>set objects. shares_space mode base ob \<and> i \<in> fst ` set (obj_members ob)}"

lemma numbers_used_taken:
  assumes "distinct (map source_label (filter (shares_space mode base) objects))"
  shows "set (numbers_used (contributors mode base objects)) = member_numbers_taken mode base objects"
proof -
  have "distinct (map source_label (sort_key source_label (filter (shares_space mode base) objects)))"
    using assms by (metis distinct_map distinct_sort set_sort)
  then show ?thesis by (auto simp: numbers_used_def contributors_def dedup_by_distinct member_numbers_taken_def)
qed

lemma free_from_own:
  assumes "set used = taken" "card taken \<le> 2 ^ 62" "n \<le> 100" "f = 0 \<or> f = 1"
  shows "\<exists>free. free_from used n f [] = Some free"
proof -
  have "card {u \<in> set used. f \<le> u} \<le> card taken" unfolding assms(1) [symmetric] by (intro card_mono) auto
  then have "f + int (card {u \<in> set used. f \<le> u}) + int (n - length ([] :: int list)) \<le> i64_max"
    using assms(2-4) by (auto simp: int_range_defs)
  then show ?thesis using assms(4) by (intro free_from_ends) (auto simp: int_range_defs)
qed

text \<open>
  C13: When the objects of a numbering space have different labels, the field numbers and enum ordinals an allocation
  answers are taken by no object that shares the space, the base object and every extension of it.  Inside ranges they
  are the smallest free ones of the ranges, and none is found only when all are taken; an own table or enum gets
  the requested count, from 1 or 0 upwards without gaps.  There is always an answer for ranges of 32-bit bounds
  and at most \<open>2 ^ 62\<close> members; with wider ranges a sum may leave \<open>i64\<close>, and then there is none.  (The code merges
  objects of equal label, and then hands out taken numbers: \<open>same_label_hides_numbers\<close>.)
\<close>

theorem allocate_members_free:
  assumes "q_object q = Some name" "resolve_object objects name (q_kind q) = Inr target"
    and "numbering_space target = Some (mode, base, constrained)"
    and "distinct (map source_label (filter (shares_space mode base) objects))"
    and "i64_ranges ranges"
  shows "case allocate objects ranges q of
      None \<Rightarrow> (if constrained then \<not> small_ranges ranges else 2 ^ 62 < card (member_numbers_taken mode base objects))
    | Some (Inl e) \<Rightarrow> constrained \<and> ids_of ranges \<subseteq> member_numbers_taken mode base objects \<and> e = exhausted (member_domain mode) ranges
    | Some (Inr rep) \<Rightarrow> rep_mode rep = mode \<and> rep_next_free rep = Some (hd (rep_free rep)) \<and>
        (if constrained
         then rep_free rep = take (requested_count q)
                (filter (\<lambda>i. i \<notin> member_numbers_taken mode base objects) (sorted_list_of_set (ids_of ranges)))
         else smallest_unused (member_numbers_taken mode base objects) (requested_count q)
                (if mode = Mode_Field then 1 else 0) (rep_free rep))"
proof (cases constrained)
  case False
  let ?used = "numbers_used (contributors mode base objects)" and ?n = "requested_count q"
  let ?first = "if mode = Mode_Field then 1 else 0 :: int"
  note run = allocate_def allocate_members_def assms(1-3) Let_def False
  show ?thesis
  proof (cases "free_from ?used ?n ?first []")
    case None
    have "2 ^ 62 < card (member_numbers_taken mode base objects)"
      using free_from_own [OF numbers_used_taken [OF assms(4)], of ?n ?first] None by (cases "mode = Mode_Field") force+
    then show ?thesis using None by (simp add: run)
  next
    case (Some free)
    have own: "smallest_unused (member_numbers_taken mode base objects) ?n ?first free"
      using free_from_smallest [of "[]" ?n ?used ?first ?first free] Some numbers_used_taken [OF assms(4)] by simp
    then have "free \<noteq> []" by (auto simp: smallest_unused_def)
    then have "nth_opt free 0 = Some (hd free)" by (cases free) auto
    then show ?thesis using Some own by (simp add: run)
  qed
next
  case True
  let ?used = "numbers_used (contributors mode base objects)" and ?n = "requested_count q"
  note taken = numbers_used_taken [OF assms(4)]
  note run = allocate_def allocate_members_def assms(1-3) Let_def True
  show ?thesis
  proof (cases "range_usage_of ranges ?used")
    case None
    then show ?thesis using small_usage [of ranges ?used] by (auto simp: run)
  next
    case usage: (Some usage)
    show ?thesis
    proof (cases "free_in_ranges ranges ?used ?n")
      case None
      then show ?thesis
        using usage small_search [of ranges] free_in_ranges_exact [OF assms(5)] by (auto simp: run split: if_splits)
    next
      case found: (Some free)
      note free = free_found [OF assms(5) found, unfolded free_declared_def taken]
      show ?thesis
      proof (cases "sum_i64 (map usage_free usage)")
        case None
        then have "\<not> small_ranges ranges" using usage small_usage [of ranges ?used] by auto
        then show ?thesis
          using usage found free None by (auto simp: run filter_empty_conv)
      next
        case (Some n)
        have "nth_opt xs 0 = Some (hd xs)" if "xs \<noteq> []" for xs :: "int list" using that by (cases xs) auto
        then show ?thesis
          using usage found Some free by (auto simp: run filter_empty_conv)
      qed
    qed
  qed
qed

lemma allocate_members_free_witness:
  "(case allocate
      [\<lparr>obj_kind = Obj_Table, obj_id = 18, obj_name = ''Customer'', obj_extends = None, obj_members = [(1, ''No.'')], obj_package = ''Base''\<rparr>,
       \<lparr>obj_kind = Obj_TableExtension, obj_id = 50000, obj_name = ''Ext'', obj_extends = Some ''customer'',
        obj_members = [(50001, ''Grade'')], obj_package = []\<rparr>]
      [\<lparr>range_from = 50001, range_to = 50003\<rparr>]
      \<lparr>q_kind = None, q_object = Some ''ext'', q_count = 1, q_include_used = False\<rparr> of
      Some (Inr rep) \<Rightarrow> rep_free rep = [50002] | _ \<Rightarrow> False)"
proof -
  let ?ext = "\<lparr>obj_kind = Obj_TableExtension, obj_id = 50000, obj_name = ''Ext'', obj_extends = Some ''customer'',
        obj_members = [(50001, ''Grade'')], obj_package = []\<rparr>"
  let ?obs = "[\<lparr>obj_kind = Obj_Table, obj_id = 18, obj_name = ''Customer'', obj_extends = None, obj_members = [(1, ''No.'')], obj_package = ''Base''\<rparr>, ?ext]"
  let ?ranges = "[\<lparr>range_from = 50001, range_to = 50003\<rparr>]"
  let ?q = "\<lparr>q_kind = None, q_object = Some ''ext'', q_count = 1, q_include_used = False\<rparr>"
  have target: "resolve_object ?obs ''ext'' None = Inr ?ext" by code_simp
  have both: "filter (shares_space Mode_Field ''customer'') ?obs = ?obs" by code_simp
  have labels: "distinct (map source_label ?obs)" by code_simp
  have ids: "ids_of ?ranges = {50001, 50002, 50003}" by (auto simp: ids_of_def in_ranges_def range_contains_def)
  have small: "small_ranges ?ranges" by (simp add: small_ranges_def)
  have taken: "member_numbers_taken Mode_Field ''customer'' ?obs = {1, 50001}"
  proof -
    have "shares_space Mode_Field ''customer'' ob" if "ob \<in> set ?obs" for ob
      using that both filter_id_conv [of "shares_space Mode_Field ''customer''" ?obs] by blast
    then show ?thesis by (auto simp: member_numbers_taken_def)
  qed
  show ?thesis
    using allocate_members_free [of ?q "''ext''" ?obs ?ext Mode_Field "''customer''" True ?ranges] target labels small
      small_i64 [OF small]
    by (simp only: both) (simp add: taken ids numbering_space_def unwrap_or_def requested_count_def MAX_COUNT_def
        split: sum.splits if_splits option.splits)
qed

text \<open>
  Two objects of one label count as one: the numbers of the second are not seen, and one of them is answered.
\<close>

lemma same_label_hides_numbers:
  "(case allocate
      [\<lparr>obj_kind = Obj_Table, obj_id = 50000, obj_name = ''X'', obj_extends = None, obj_members = [(1, ''No.'')], obj_package = []\<rparr>,
       \<lparr>obj_kind = Obj_TableExtension, obj_id = 50000, obj_name = ''X'', obj_extends = Some ''X'',
        obj_members = [(50001, ''Grade'')], obj_package = []\<rparr>]
      [\<lparr>range_from = 50001, range_to = 50003\<rparr>]
      \<lparr>q_kind = Some Obj_TableExtension, q_object = Some ''X'', q_count = 1, q_include_used = False\<rparr> of
      Some (Inr rep) \<Rightarrow> rep_next_free rep | _ \<Rightarrow> None) = Some 50001"
  by code_simp

text \<open>The free count adds the ranges up as they are declared, so a number in two of them counts twice.\<close>

lemma overlap_counted_twice:
  "(case allocate [] [\<lparr>range_from = 1, range_to = 3\<rparr>, \<lparr>range_from = 1, range_to = 3\<rparr>]
      \<lparr>q_kind = Some Obj_Table, q_object = None, q_count = 1, q_include_used = False\<rparr> of
      Some (Inr rep) \<Rightarrow> rep_free_count rep | _ \<Rightarrow> None) = Some 6 \<and>
   total_capacity [\<lparr>range_from = 1, range_to = 3\<rparr>, \<lparr>range_from = 1, range_to = 3\<rparr>] = Some 3"
  by code_simp


section \<open>The numbers declared in a syntax tree\<close>

definition number_of_text :: "string \<Rightarrow> int option" where
  "number_of_text s = parse_i64 (trim s)"

definition section_keyword :: "node \<Rightarrow> string option" where
  "section_keyword n =
     (case child_by_field_name n ''keyword'' of
        Some k \<Rightarrow> Some (node_text k)
      | None \<Rightarrow> map_option node_text
          (List.find (\<lambda>c. node_kind c \<in> {''keyword'', ''metadata_keyword'', ''control_keyword''}) (node_children n)))"

text \<open>The scan of the parentheses: the number, the name and whether a semicolon has been passed.\<close>

fun parens_scan :: "node list \<Rightarrow> int option \<Rightarrow> string option \<Rightarrow> bool \<Rightarrow> int option \<times> string option" where
  "parens_scan [] number nm past = (number, nm)"
| "parens_scan (c # cs) number nm past =
     (if node_kind c = ''integer'' \<and> number = None then parens_scan cs (number_of_text (node_text c)) nm past
      else if node_kind c = ''semicolon'' then parens_scan cs number nm True
      else if node_kind c \<in> {''identifier'', ''quoted_identifier'', ''string'', ''name'', ''name_or_keyword''} \<and> past \<and> nm = None
      then let text = unquote_identifier (node_text c) in
           parens_scan cs number (if text \<noteq> [] then Some text else None) past
      else parens_scan cs number nm past)"

definition member_from_parens :: "node \<Rightarrow> (int \<times> string) option" where
  "member_from_parens n =
     (case List.find (\<lambda>c. node_kind c = ''parenthesized_block'') (node_children n) of
        None \<Rightarrow> None
      | Some parens \<Rightarrow>
          (case parens_scan (node_children parens) None None False of
             (Some number, Some nm) \<Rightarrow> Some (number, nm)
           | _ \<Rightarrow> None))"

definition enum_value_member :: "node \<Rightarrow> (int \<times> string) option" where
  "enum_value_member n =
     (case Option.bind (child_by_field_name n ''id'') (\<lambda>c. number_of_text (node_text c)) of
        None \<Rightarrow> None
      | Some ordinal \<Rightarrow>
          (case child_by_field_name n ''name'' of
             None \<Rightarrow> None
           | Some c \<Rightarrow> let text = unquote_identifier (node_text c) in if text = [] then None else Some (ordinal, text)))"

definition keyword_is :: "node \<Rightarrow> string \<Rightarrow> bool" where
  "keyword_is n want = (case section_keyword n of None \<Rightarrow> False | Some k \<Rightarrow> eq_ignore_ascii_case k want)"

definition member_of_node :: "bool \<Rightarrow> bool \<Rightarrow> node \<Rightarrow> (int \<times> string) option" where
  "member_of_node want_field want_value n =
     (if node_kind n = ''object_section'' then
        if want_field \<and> keyword_is n ''field'' \<or> want_value \<and> keyword_is n ''value'' then member_from_parens n else None
      else if node_kind n = ''enum_value_declaration'' \<and> want_value then enum_value_member n
      else None)"

lemma sizes_of_children: "sum_list (map size (node_children n)) < size n"
  by (cases n) (simp add: size_list_conv_sum_list)

text \<open>The loop over a stack of nodes, whose last element is taken first.\<close>

function member_walk :: "bool \<Rightarrow> bool \<Rightarrow> node list \<Rightarrow> (int \<times> string) list" where
  "member_walk want_field want_value stack =
     (if stack = [] then []
      else let n = last stack in
        (case member_of_node want_field want_value n of Some m \<Rightarrow> [m] | None \<Rightarrow> []) @
        member_walk want_field want_value (butlast stack @ node_children n))"
  by auto
termination
proof (relation "measure (\<lambda>(_, _, stack). sum_list (map size stack))", simp)
  fix f v and stack :: "node list" and n
  assume "stack \<noteq> []" "n = last stack"
  then show "((f, v, butlast stack @ node_children n), f, v, stack) \<in> measure (\<lambda>(_, _, stack). sum_list (map size stack))"
    using sizes_of_children [of n] by (cases stack rule: rev_cases) auto
qed

declare member_walk.simps [simp del]

definition member_numbers :: "node \<Rightarrow> object_kind \<Rightarrow> (int \<times> string) list" where
  "member_numbers n k =
     (let want_field = k \<in> {Obj_Table, Obj_TableExtension}; want_value = k \<in> {Obj_Enum, Obj_EnumExtension} in
      if \<not> want_field \<and> \<not> want_value then [] else sort (member_walk want_field want_value [n]))"

definition modifier_keyword :: "node \<Rightarrow> string" where
  "modifier_keyword n =
     trim (case or_else (child_by_field_name n ''modifier'') (List.find (\<lambda>c. node_kind c = ''metadata_keyword'') (node_children n)) of
       None \<Rightarrow> [] | Some k \<Rightarrow> node_text k)"

definition modifier_target :: "node \<Rightarrow> string option" where
  "modifier_target n =
     map_option (\<lambda>t. unquote_identifier (node_text t))
       (or_else (child_by_field_name n ''target'')
         (List.find (\<lambda>c. node_kind c \<in> {''name'', ''name_or_keyword''}) (node_children n)))"

definition is_extends_clause :: "node \<Rightarrow> bool" where
  "is_extends_clause n \<longleftrightarrow>
     node_kind n \<in> {''object_modifier'', ''implements_clause''} \<and>
     (eq_ignore_ascii_case (modifier_keyword n) ''extends'' \<or> eq_ignore_ascii_case (modifier_keyword n) ''customizes'')"

function extends_walk :: "node list \<Rightarrow> string option" where
  "extends_walk stack =
     (if stack = [] then None
      else let n = last stack in
        if is_extends_clause n then modifier_target n
        else extends_walk (butlast stack @ (if node_kind n \<noteq> ''object_body'' then node_children n else [])))"
  by auto
termination
proof (relation "measure (\<lambda>stack. sum_list (map size stack))", simp)
  fix stack :: "node list" and n
  assume "stack \<noteq> []" "n = last stack"
  then show "(butlast stack @ (if node_kind n \<noteq> ''object_body'' then node_children n else []), stack)
      \<in> measure (\<lambda>stack. sum_list (map size stack))"
    using sizes_of_children [of n] by (cases stack rule: rev_cases) auto
qed

declare extends_walk.simps [simp del]

definition object_extends_target :: "node \<Rightarrow> string option" where
  "object_extends_target n = extends_walk [n]"

text \<open>An object of a package, and which of them an allocation must avoid.\<close>

record symbol_entry =
  entry_kind :: object_kind
  entry_id :: int
  entry_name :: string
  entry_extends :: "string option"
  entry_fields :: "(int \<times> string) list"
  entry_values :: "(int \<times> string) list"
  entry_package :: string
  entry_synthetic :: bool

definition is_workspace_package :: "string \<Rightarrow> bool" where
  "is_workspace_package package \<longleftrightarrow>
     eq_ignore_ascii_case package ''workspace'' \<or> eq_ignore_ascii_case package ''(workspace)''"

definition entry_object :: "id_range list \<Rightarrow> symbol_entry \<Rightarrow> object_record option" where
  "entry_object ranges e =
     (if entry_synthetic e \<or> is_workspace_package (entry_package e) then None
      else if \<not> in_ranges ranges (entry_id e) \<and> entry_kind e \<notin> {Obj_Table, Obj_TableExtension, Obj_Enum, Obj_EnumExtension}
      then None
      else Some \<lparr>obj_kind = entry_kind e, obj_id = entry_id e, obj_name = entry_name e, obj_extends = entry_extends e,
        obj_members = (if entry_kind e \<in> {Obj_Table, Obj_TableExtension} then entry_fields e
                       else if entry_kind e \<in> {Obj_Enum, Obj_EnumExtension} then entry_values e else []),
        obj_package = entry_package e\<rparr>)"

definition collect_objects :: "object_record list \<Rightarrow> symbol_entry list \<Rightarrow> id_range list \<Rightarrow> object_record list" where
  "collect_objects declared entries ranges = declared @ List.map_filter (entry_object ranges) entries"

text \<open>
  Dropping the package objects outside the ranges changes no allocation of an object ID.
\<close>

lemma collect_keeps_ids:
  assumes "in_ranges ranges i" "e \<in> set entries" "\<not> entry_synthetic e" "\<not> is_workspace_package (entry_package e)" "entry_id e = i"
  shows "\<exists>ob \<in> set (collect_objects declared entries ranges). obj_kind ob = entry_kind e \<and> obj_id ob = i"
  using assms by (force simp: collect_objects_def entry_object_def map_filter_def)

end
