(* ===== verification/Replay_Engine.thy ===== *)
theory Replay_Engine
  imports Syntax_Tree "HOL-Library.AList" "HOL-Library.Product_Lexorder"
begin

text \<open>
  The walk over the recorded statements of a snapshot that a debugger replays,
  \<^verbatim>\<open>src/crates/al-dap/src/dap/native_dap/replay/engine.rs\<close>, and the parts of a recorded method context it reads,
  \<^verbatim>\<open>src/crates/al-bc/src/snapshot/archive.rs\<close>.

  A hash map is an association list.  A step out follows the recorded callers; its fuel is the number of contexts,
  and \<open>moves_keep_engine\<close> states that this is enough.
\<close>

section \<open>Recorded method contexts\<close>

datatype object_type =
    OT_TableData | OT_Table | OT_Form | OT_Report | OT_Dataport | OT_CodeUnit | OT_XmlPort | OT_MenuSuite | OT_Page
  | OT_Query | OT_System | OT_FieldNumber | OT_LimitedUsageTableData | OT_TablePage | OT_PageExtension
  | OT_TableExtension | OT_Enum | OT_EnumExtension | OT_ReportExtension | OT_Interface | OT_Other int

definition NAMED :: "(int \<times> object_type) list" where
  "NAMED =
    [(0, OT_TableData), (1, OT_Table), (2, OT_Form), (3, OT_Report), (4, OT_Dataport), (5, OT_CodeUnit),
     (6, OT_XmlPort), (7, OT_MenuSuite), (8, OT_Page), (9, OT_Query), (10, OT_System), (11, OT_FieldNumber),
     (12, OT_LimitedUsageTableData), (13, OT_TablePage), (14, OT_PageExtension), (15, OT_TableExtension),
     (16, OT_Enum), (17, OT_EnumExtension), (22, OT_ReportExtension), (28, OT_Interface)]"

definition from_i8 :: "int \<Rightarrow> object_type" where
  "from_i8 v = (case List.find (\<lambda>(n, _). n = v) NAMED of None \<Rightarrow> OT_Other v | Some (_, t) \<Rightarrow> t)"

definition as_i8 :: "object_type \<Rightarrow> int" where
  "as_i8 t =
     (case t of
        OT_Other v \<Rightarrow> v
      | _ \<Rightarrow> (case List.find (\<lambda>(_, n). n = t) NAMED of None \<Rightarrow> 0 | Some (v, _) \<Rightarrow> v))"

lemma as_from_i8: "as_i8 (from_i8 v) = v"
  by (simp add: from_i8_def as_i8_def NAMED_def)

record source_span =
  from_line :: nat
  from_column :: nat
  to_line :: nat
  to_column :: nat

datatype variable =
  Variable (variable_name: string) (variable_value: string) (variable_type: string) (has_children: bool) (variable_children: "variable list")

record line_context =
  lc_ordinal :: int
  lc_span :: source_span
  lc_variables :: "variable list"
  lc_timestamp :: int

record stack_frame =
  sf_method :: string
  sf_type :: object_type
  sf_number :: int
  sf_object :: string
  sf_span :: source_span

record method_context =
  mc_type :: object_type
  mc_number :: int
  mc_exception_line :: "int option"
  mc_frames :: "stack_frame list"
  mc_lines :: "line_context list"
  mc_start_time :: int


section \<open>The engine\<close>

type_synonym pos = "nat \<times> nat"

record line_key =
  key_type :: int
  key_number :: int
  key_line :: nat

record landing =
  landed_at :: pos
  starts_over :: bool
  at_exception :: bool

datatype move = Stopped landing | Ended

record engine =
  lens :: "nat list"
  line_keys :: "line_key list list"
  exception_at :: "nat option list"
  parent :: "pos option list"
  callees :: "(pos \<times> nat list) list"
  occurrences :: "(line_key \<times> pos list) list"
  snappoints :: "line_key list"
  listed :: "line_key list"
  user :: "(string \<times> line_key list) list"
  hits :: "(line_key \<times> nat) list"
  current_pos :: "pos option"

subsection \<open>Linking calls\<close>

definition first_such :: "(nat \<Rightarrow> bool) \<Rightarrow> nat \<Rightarrow> nat list" where
  "first_such P n = filter P [0..<n]"

definition call_site :: "method_context list \<Rightarrow> nat \<Rightarrow> nat \<Rightarrow> pos option" where
  "call_site contexts caller callee =
     (case nth_opt (mc_frames (contexts ! callee)) 1 of
        None \<Rightarrow> None
      | Some frame \<Rightarrow>
          let span = sf_span frame; ls = mc_lines (contexts ! caller); start = mc_start_time (contexts ! callee);
              exact = first_such (\<lambda>i. from_line (lc_span (ls ! i)) = from_line span \<and>
                                  from_column (lc_span (ls ! i)) = from_column span) (length ls);
              same = (if exact = [] then first_such (\<lambda>i. from_line (lc_span (ls ! i)) = from_line span) (length ls)
                      else exact)
          in map_option (\<lambda>line. (caller, line))
               (or_else (List.find (\<lambda>i. lc_timestamp (ls ! i) \<le> start) (rev same)) (nth_opt same 0)))"

type_synonym chain = "(string \<times> object_type \<times> int) list"

definition chain_of :: "method_context \<Rightarrow> chain" where
  "chain_of c = map (\<lambda>f. (sf_method f, sf_type f, sf_number f)) (mc_frames c)"

definition caller_of :: "(chain \<times> nat) list \<Rightarrow> chain \<Rightarrow> nat option" where
  "caller_of latest chain = (if length chain > 1 then map_of latest (drop 1 chain) else None)"

definition push_to :: "'k \<Rightarrow> 'v \<Rightarrow> ('k \<times> 'v list) list \<Rightarrow> ('k \<times> 'v list) list" where
  "push_to k v m = AList.update k (unwrap_or (map_of m k) [] @ [v]) m"

fun link_loop :: "method_context list \<Rightarrow> nat list \<Rightarrow> (chain \<times> nat) list \<Rightarrow> pos option list \<Rightarrow> (pos \<times> nat list) list \<Rightarrow>
    pos option list \<times> (pos \<times> nat list) list" where
  "link_loop contexts [] latest par called = (par, called)"
| "link_loop contexts (c # cs) latest par called =
     (let chain = chain_of (contexts ! c);
          site = (case caller_of latest chain of None \<Rightarrow> None | Some caller \<Rightarrow> call_site contexts caller c);
          latest = AList.update chain c latest
      in case site of
           None \<Rightarrow> link_loop contexts cs latest par called
         | Some s \<Rightarrow> link_loop contexts cs latest (par[c := Some s]) (push_to s c called))"

definition link_calls :: "method_context list \<Rightarrow> pos option list \<times> (pos \<times> nat list) list" where
  "link_calls contexts =
     link_loop contexts [0..<length contexts] [] (replicate (length contexts) None) []"

subsection \<open>Building the engine\<close>

definition exception_of :: "method_context \<Rightarrow> nat option" where
  "exception_of c =
     (case mc_exception_line c of
        None \<Rightarrow> None
      | Some n \<Rightarrow>
          if mc_lines c = [] then None
          else Some (if 0 \<le> n \<and> nat n < length (mc_lines c) then nat n else length (mc_lines c) - 1))"

definition key_of_line :: "method_context \<Rightarrow> line_context \<Rightarrow> line_key" where
  "key_of_line c l = \<lparr>key_type = as_i8 (mc_type c), key_number = mc_number c, key_line = from_line (lc_span l)\<rparr>"

definition keys_of :: "method_context \<Rightarrow> line_key list" where
  "keys_of c = map (key_of_line c) (mc_lines c)"

definition add_new :: "'a \<Rightarrow> 'a list \<Rightarrow> 'a list" where
  "add_new x xs = (if x \<in> set xs then xs else xs @ [x])"

text \<open>One statement of the loop of \<open>new\<close>: its occurrence and whether it is a snappoint and listed.\<close>

definition record_line ::
  "method_context \<Rightarrow> nat \<Rightarrow> nat \<Rightarrow>
    (line_key \<times> pos list) list \<times> line_key list \<times> line_key list \<Rightarrow> (line_key \<times> pos list) list \<times> line_key list \<times> line_key list" where
  "record_line c i l = (\<lambda>(occ, snaps, lst).
     let lc = mc_lines c ! l; key = key_of_line c lc; exc = exception_of c in
     (push_to key (i, l) occ,
      if lc_variables lc \<noteq> [] \<or> exc = Some l then add_new key snaps else snaps,
      if lc_variables lc \<noteq> [] \<and> exc \<noteq> Some l then add_new key lst else lst))"

definition record_context ::
  "nat \<times> method_context \<Rightarrow>
    (line_key \<times> pos list) list \<times> line_key list \<times> line_key list \<Rightarrow> (line_key \<times> pos list) list \<times> line_key list \<times> line_key list" where
  "record_context = (\<lambda>(i, c). fold (record_line c i) [0..<length (mc_lines c)])"

definition new_engine :: "method_context list \<Rightarrow> engine" where
  "new_engine contexts =
     (let (occ, snaps, lst) = fold record_context (zip [0..<length contexts] contexts) ([], [], []);
          (par, called) = link_calls contexts
      in \<lparr>lens = map (length \<circ> mc_lines) contexts, line_keys = map keys_of contexts,
          exception_at = map exception_of contexts, parent = par, callees = called, occurrences = occ,
          snappoints = snaps, listed = lst, user = [], hits = [], current_pos = None\<rparr>)"

definition key_at :: "engine \<Rightarrow> pos \<Rightarrow> line_key option" where
  "key_at E p = Option.bind (nth_opt (line_keys E) (fst p)) (\<lambda>row. nth_opt row (snd p))"

subsection \<open>Moves\<close>

definition occurrences_of :: "engine \<Rightarrow> line_key \<Rightarrow> pos list" where
  "occurrences_of E k = unwrap_or (map_of (occurrences E) k) []"

definition passed :: "engine \<Rightarrow> line_key \<Rightarrow> pos option \<Rightarrow> nat" where
  "passed E k p = (case p of None \<Rightarrow> 0 | Some p \<Rightarrow> length (takeWhile (\<lambda>q. q \<le> p) (occurrences_of E k)))"

definition hits_of :: "engine \<Rightarrow> line_key \<Rightarrow> nat" where
  "hits_of E k = unwrap_or (map_of (hits E) k) 0"

definition active_keys :: "engine \<Rightarrow> line_key list" where
  "active_keys E = fold add_new (concat (map snd (user E))) (snappoints E)"

definition end_walk :: "engine \<Rightarrow> engine \<times> move" where
  "end_walk E = (E\<lparr>current_pos := None\<rparr>, Ended)"

definition land :: "engine \<Rightarrow> pos \<Rightarrow> bool \<Rightarrow> engine \<times> move" where
  "land E p over =
     (E\<lparr>hits := fold (\<lambda>k h. AList.update k (max (unwrap_or (map_of h k) 0) (passed E k (Some p))) h) (active_keys E) (hits E),
        current_pos := Some p\<rparr>,
      Stopped \<lparr>landed_at = p, starts_over = over, at_exception = (exception_at E ! fst p = Some (snd p))\<rparr>)"

definition start_over :: "engine \<Rightarrow> engine \<times> move" where
  "start_over E = (case lens E of [] \<Rightarrow> end_walk E | n # _ \<Rightarrow> if n = 0 then end_walk E else land E (0, 0) True)"

definition next_unused :: "engine \<Rightarrow> pos list" where
  "next_unused E = List.map_filter (\<lambda>k. nth_opt (occurrences_of E k) (hits_of E k)) (active_keys E)"

definition cont :: "engine \<Rightarrow> engine \<times> move" where
  "cont E = (if next_unused E = [] then end_walk E else land E (Min (set (next_unused E))) False)"

definition start :: "engine \<Rightarrow> engine \<times> move" where
  "start E = (if active_keys E = [] then start_over E else cont E)"

definition next_after :: "(engine \<Rightarrow> nat \<Rightarrow> (engine \<times> move) option) \<Rightarrow> engine \<Rightarrow> pos \<Rightarrow> (engine \<times> move) option" where
  "next_after out E site =
     (if snd site + 1 < lens E ! fst site then Some (land E (fst site, snd site + 1) False) else out E (fst site))"

fun step_out_of :: "nat \<Rightarrow> engine \<Rightarrow> nat \<Rightarrow> (engine \<times> move) option" where
  "step_out_of 0 E c = None"
| "step_out_of (Suc fuel) E c =
     (case parent E ! c of
        Some site \<Rightarrow> next_after (step_out_of fuel) E site
      | None \<Rightarrow> Some (if c = 0 then end_walk E else start_over E))"

definition step_next :: "engine \<Rightarrow> (engine \<times> move) option" where
  "step_next E =
     (case current_pos E of
        None \<Rightarrow> Some (start E)
      | Some (c, l) \<Rightarrow> if l + 1 < lens E ! c then Some (land E (c, l + 1) False) else step_out_of (length (lens E)) E c)"

definition step_in :: "engine \<Rightarrow> engine \<times> move" where
  "step_in E =
     (case current_pos E of
        None \<Rightarrow> start E
      | Some (c, l) \<Rightarrow>
          let here = (if c + 1 \<ge> length (lens E) then end_walk E else land E (c, l) False) in
          (case Option.bind (map_of (callees E) (c, l)) (\<lambda>cs. nth_opt cs 0) of
             Some callee \<Rightarrow> if lens E ! callee > 0 then land E (callee, 0) False else here
           | None \<Rightarrow> here))"

definition step_out :: "engine \<Rightarrow> (engine \<times> move) option" where
  "step_out E =
     (case current_pos E of None \<Rightarrow> Some (start E) | Some (c, _) \<Rightarrow> step_out_of (length (lens E)) E c)"

subsection \<open>Breakpoints and the call stack\<close>

definition breakpoint_key :: "int \<Rightarrow> int \<Rightarrow> int \<Rightarrow> line_key option" where
  "breakpoint_key ot number l =
     (if 0 \<le> l - 1 \<and> l - 1 \<le> 65535 then Some \<lparr>key_type = ot, key_number = number, key_line = nat (l - 1)\<rparr> else None)"

text \<open>One requested line: its key, whether it is verified, and the hit counts with an entry for it.\<close>

definition set_breakpoint ::
  "engine \<Rightarrow> int \<Rightarrow> int \<Rightarrow> int \<Rightarrow> line_key list \<times> (line_key \<times> bool) list \<times> (line_key \<times> nat) list \<Rightarrow>
    line_key list \<times> (line_key \<times> bool) list \<times> (line_key \<times> nat) list" where
  "set_breakpoint E ot number l = (\<lambda>(ks, out, h).
     case breakpoint_key ot number l of
       None \<Rightarrow> (ks, out @ [(\<lparr>key_type = ot, key_number = number, key_line = 0\<rparr>, False)], h)
     | Some key \<Rightarrow>
         if map_of (occurrences E) key \<noteq> None
         then (ks @ [key], out @ [(key, True)],
               if map_of h key = None then AList.update key (passed E key (current_pos E)) h else h)
         else (ks, out @ [(key, False)], h))"

definition set_user_breakpoints ::
  "engine \<Rightarrow> string \<Rightarrow> int \<Rightarrow> int \<Rightarrow> int list \<Rightarrow> engine \<times> (line_key \<times> bool) list" where
  "set_user_breakpoints E source ot number ls =
     (let (ks, out, h) = fold (set_breakpoint E ot number) ls ([], [], hits E)
      in (E\<lparr>user := AList.update source ks (user E), hits := h\<rparr>, out))"

text \<open>The call sites of a position, outermost first; the loop stops by itself once it has more entries than contexts.\<close>

function stack_loop :: "engine \<Rightarrow> nat \<Rightarrow> pos list \<Rightarrow> pos list" where
  "stack_loop E c out =
     (case parent E ! c of
        None \<Rightarrow> out
      | Some site \<Rightarrow>
          let out = out @ [site] in
          if length out > length (lens E) then out else stack_loop E (fst site) out)"
  by auto
termination by (relation "measure (\<lambda>(E, c, out). Suc (length (lens E)) - length out)") auto

declare stack_loop.simps [simp del]

definition call_stack :: "engine \<Rightarrow> pos \<Rightarrow> pos list" where
  "call_stack E p = rev (stack_loop E (fst p) [p])"

section \<open>The invariant of the engine\<close>

definition valid_pos :: "engine \<Rightarrow> pos \<Rightarrow> bool" where
  "valid_pos E p \<longleftrightarrow> fst p < length (lens E) \<and> snd p < lens E ! fst p"

definition tables_ok :: "engine \<Rightarrow> bool" where
  "tables_ok E \<longleftrightarrow>
     length (line_keys E) = length (lens E) \<and> length (exception_at E) = length (lens E) \<and> length (parent E) = length (lens E) \<and>
     (\<forall>c < length (lens E). length (line_keys E ! c) = lens E ! c)"

definition calls_ok :: "engine \<Rightarrow> bool" where
  "calls_ok E \<longleftrightarrow>
     (\<forall>c < length (lens E). \<forall>site. parent E ! c = Some site \<longrightarrow> fst site < c \<and> valid_pos E site) \<and>
     (\<forall>p cs d. map_of (callees E) p = Some cs \<and> d \<in> set cs \<longrightarrow> d < length (lens E) \<and> parent E ! d = Some p)"

definition occurrences_ok :: "engine \<Rightarrow> bool" where
  "occurrences_ok E \<longleftrightarrow>
     (\<forall>k. sorted_wrt (<) (occurrences_of E k) \<and> set (occurrences_of E k) = {p. key_at E p = Some k})"

definition engine_ok :: "engine \<Rightarrow> bool" where
  "engine_ok E \<longleftrightarrow> tables_ok E \<and> calls_ok E \<and> occurrences_ok E \<and> (\<forall>p. current_pos E = Some p \<longrightarrow> valid_pos E p)"

text \<open>The recording, which no operation changes.\<close>

definition same_recording :: "engine \<Rightarrow> engine \<Rightarrow> bool" where
  "same_recording E F \<longleftrightarrow>
     lens F = lens E \<and> line_keys F = line_keys E \<and> exception_at F = exception_at E \<and> parent F = parent E \<and>
     callees F = callees E \<and> occurrences F = occurrences E \<and> snappoints F = snappoints E \<and> listed F = listed E"

lemma same_recording_ok:
  assumes "same_recording E F" "engine_ok E" "\<forall>p. current_pos F = Some p \<longrightarrow> valid_pos E p"
  shows "engine_ok F"
proof -
  have "valid_pos F = valid_pos E" "key_at F = key_at E" "occurrences_of F = occurrences_of E"
    using assms(1) by (auto simp: same_recording_def valid_pos_def key_at_def occurrences_of_def fun_eq_iff)
  with assms show ?thesis
    by (simp add: same_recording_def engine_ok_def tables_ok_def calls_ok_def occurrences_ok_def)
qed

lemma key_at_valid: "tables_ok E \<Longrightarrow> key_at E p \<noteq> None \<longleftrightarrow> valid_pos E p"
  by (auto simp: tables_ok_def key_at_def valid_pos_def nth_opt_def)

subsection \<open>A new engine\<close>

lemma map_of_push_to: "unwrap_or (map_of (push_to k v m) j) [] = unwrap_or (map_of m j) [] @ (if j = k then [v] else [])"
  by (simp add: push_to_def update_conv' unwrap_or_def split: option.splits)

lemma fold_push_to:
  "unwrap_or (map_of (fold (\<lambda>(k, v). push_to k v) es m) j) [] = unwrap_or (map_of m j) [] @ map snd (filter (\<lambda>(k, _). k = j) es)"
  by (induction es arbitrary: m) (auto simp: map_of_push_to)

definition entries_of :: "nat \<times> method_context \<Rightarrow> (line_key \<times> pos) list" where
  "entries_of = (\<lambda>(i, c). map (\<lambda>l. (key_of_line c (mc_lines c ! l), (i, l))) [0..<length (mc_lines c)])"

lemma record_lines_push:
  "fst (fold (record_line c i) ls st) = fold (\<lambda>(k, p). push_to k p) (map (\<lambda>l. (key_of_line c (mc_lines c ! l), (i, l))) ls) (fst st)"
  by (induction ls arbitrary: st) (auto simp: record_line_def Let_def)

lemma record_contexts_push:
  "fst (fold record_context zs st) = fold (\<lambda>(k, p). push_to k p) (concat (map entries_of zs)) (fst st)"
  by (induction zs arbitrary: st) (auto simp: record_context_def entries_of_def record_lines_push)

lemma entries_sorted:
  "sorted_wrt (<) (map snd (concat (map entries_of (zip [i..<i + length cs] cs)))) \<and>
   (\<forall>p\<in>set (map snd (concat (map entries_of (zip [i..<i + length cs] cs)))). i \<le> fst p)"
proof (induction cs arbitrary: i)
  case (Cons c cs)
  have "[i..<i + length (c # cs)] = i # [Suc i..<Suc i + length cs]"
    using upt_conv_Cons [of i "i + length (c # cs)"] by simp
  moreover have "map snd (entries_of (i, c)) = map (Pair i) [0..<length (mc_lines c)]" by (simp add: entries_of_def)
  moreover have "sorted_wrt (<) (map (Pair i) [0..<length (mc_lines c)])" by (simp add: sorted_wrt_map)
  ultimately have "map snd (concat (map entries_of (zip [i..<i + length (c # cs)] (c # cs)))) =
      map (Pair i) [0..<length (mc_lines c)] @ map snd (concat (map entries_of (zip [Suc i..<Suc i + length cs] cs)))"
    and "sorted_wrt (<) (map (Pair i) [0..<length (mc_lines c)])"
    by (simp_all only: zip_Cons_Cons list.map concat.simps map_append)
  moreover have "sorted_wrt (<) (map (Pair i) xs @ R) \<and> (\<forall>p\<in>set (map (Pair i) xs @ R). i \<le> fst p)"
    if "sorted_wrt (<) (map (Pair i) xs)" "sorted_wrt (<) R" "\<forall>p\<in>set R. Suc i \<le> fst p" for xs and R :: "pos list"
    using that by (fastforce simp: sorted_wrt_append less_prod_def)
  ultimately show ?case using Cons.IH [of "Suc i"] by (simp only:) blast
qed simp

lemma map_snd_filter: "sorted_wrt (<) (map snd xs) \<Longrightarrow> sorted_wrt (<) (map snd (filter P xs))"
  by (induction xs) auto

lemma new_occurrences:
  "occurrences_of (new_engine cs) k = map snd (filter (\<lambda>(j, _). j = k) (concat (map entries_of (zip [0..<length cs] cs))))"
proof -
  have "occurrences (new_engine cs) = fst (fold record_context (zip [0..<length cs] cs) ([], [], []))"
    by (simp add: new_engine_def split: prod.splits)
  then show ?thesis by (simp add: occurrences_of_def record_contexts_push fold_push_to) (simp add: unwrap_or_def)
qed

lemma new_tables:
  "lens (new_engine cs) = map (length \<circ> mc_lines) cs" "line_keys (new_engine cs) = map keys_of cs"
  "exception_at (new_engine cs) = map exception_of cs" "parent (new_engine cs) = fst (link_calls cs)"
  "callees (new_engine cs) = snd (link_calls cs)" "hits (new_engine cs) = []" "user (new_engine cs) = []"
  "current_pos (new_engine cs) = None"
  by (simp_all add: new_engine_def split: prod.splits)

lemma new_occurrences_ok: "occurrences_ok (new_engine cs)"
proof -
  have "sorted_wrt (<) (occurrences_of (new_engine cs) k)" for k
    unfolding new_occurrences using entries_sorted [of 0 cs] by (intro map_snd_filter) simp
  moreover have "p \<in> set (occurrences_of (new_engine cs) k) \<longleftrightarrow> key_at (new_engine cs) p = Some k" for k p
    by (cases p) (force simp: new_occurrences entries_of_def key_at_def new_tables keys_of_def nth_opt_def in_set_zip
        split: if_splits)
  ultimately show ?thesis by (auto simp: occurrences_ok_def)
qed

subsection \<open>Links\<close>

lemma call_site_valid:
  assumes "call_site contexts caller callee = Some s"
  shows "fst s = caller \<and> snd s < length (mc_lines (contexts ! caller))"
proof -
  have sub: "l \<in> set (first_such P n) \<Longrightarrow> l < n" for l P and n :: nat by (simp add: first_such_def)
  have pick: "l \<in> set xs" if "or_else (List.find P (rev xs)) (nth_opt xs 0) = Some l" for l P and xs :: "nat list"
    using or_else_Some [OF that] by (auto dest: find_set nth_opt_set)
  show ?thesis
    using assms by (auto simp: call_site_def Let_def dest!: pick sub split: option.splits if_splits)
qed

text \<open>The nearest earlier context whose frames are those of \<open>c\<close> without the first, and the call site in it.\<close>

definition latest_with :: "method_context list \<Rightarrow> chain \<Rightarrow> nat \<Rightarrow> nat option" where
  "latest_with contexts ch n = List.find (\<lambda>c. chain_of (contexts ! c) = ch) (rev [0..<n])"

definition recorded_site :: "method_context list \<Rightarrow> nat \<Rightarrow> pos option" where
  "recorded_site contexts c =
     (let ch = chain_of (contexts ! c) in
      if length ch > 1 then Option.bind (latest_with contexts (drop 1 ch) c) (\<lambda>caller. call_site contexts caller c) else None)"

lemma latest_with_Suc:
  "latest_with contexts ch (Suc n) = (if chain_of (contexts ! n) = ch then Some n else latest_with contexts ch n)"
  by (simp add: latest_with_def)

lemma link_loop_records:
  assumes "map_of latest = (\<lambda>ch. latest_with contexts ch n)" "n + m = length contexts"
    and "par = map (recorded_site contexts) [0..<n] @ replicate m None"
    and "\<forall>p. unwrap_or (map_of called p) [] = filter (\<lambda>d. recorded_site contexts d = Some p) [0..<n]"
  shows "case link_loop contexts [n..<length contexts] latest par called of (par', called') \<Rightarrow>
     par' = map (recorded_site contexts) [0..<length contexts] \<and>
     (\<forall>p. unwrap_or (map_of called' p) [] = filter (\<lambda>d. recorded_site contexts d = Some p) [0..<length contexts])"
  using assms
proof (induction m arbitrary: n latest par called)
  case (Suc m)
  let ?site = "recorded_site contexts n" and ?latest = "AList.update (chain_of (contexts ! n)) n latest"
  have n: "n < length contexts" using Suc.prems(2) by simp
  have site: "(case caller_of latest (chain_of (contexts ! n)) of None \<Rightarrow> None | Some caller \<Rightarrow> call_site contexts caller n) = ?site"
    by (simp add: caller_of_def Suc.prems(1) recorded_site_def Let_def split: option.splits)
  have latest: "map_of ?latest = (\<lambda>ch. latest_with contexts ch (Suc n))"
    by (auto simp: update_conv' Suc.prems(1) latest_with_Suc)
  have None: "par = map (recorded_site contexts) [0..<Suc n] @ replicate m None" if "?site = None"
    using that Suc.prems(3) by simp
  have Some: "par[n := ?site] = map (recorded_site contexts) [0..<Suc n] @ replicate m None"
    using Suc.prems(3) by (simp add: list_update_append)
  show ?case
  proof (cases ?site)
    case none: None
    then show ?thesis
      using Suc.IH [OF latest _ None [OF none], of called] Suc.prems(2,4) n site
      by (simp add: upt_conv_Cons Let_def)
  next
    case (Some s)
    have "\<forall>p. unwrap_or (map_of (push_to s n called) p) [] = filter (\<lambda>d. recorded_site contexts d = Some p) [0..<Suc n]"
      using Suc.prems(4) Some by (simp add: map_of_push_to)
    with Some show ?thesis
      using Suc.IH [OF latest _ \<open>par[n := ?site] = _\<close>, of "push_to s n called"] Suc.prems(2) n site
      by (simp add: upt_conv_Cons Let_def)
  qed
qed simp

lemma link_calls_records:
  "fst (link_calls contexts) = map (recorded_site contexts) [0..<length contexts]"
  "unwrap_or (map_of (snd (link_calls contexts)) p) [] = filter (\<lambda>d. recorded_site contexts d = Some p) [0..<length contexts]"
proof -
  have start: "map_of [] = (\<lambda>ch. latest_with contexts ch 0)" "\<forall>p. unwrap_or (map_of ([] :: (pos \<times> nat list) list) p) [] = []"
    by (auto simp: latest_with_def unwrap_or_def)
  show "fst (link_calls contexts) = map (recorded_site contexts) [0..<length contexts]"
    "unwrap_or (map_of (snd (link_calls contexts)) p) [] = filter (\<lambda>d. recorded_site contexts d = Some p) [0..<length contexts]"
    using link_loop_records [OF start(1), of "length contexts" "replicate (length contexts) None" "[]"] start(2)
    by (auto simp: link_calls_def split: prod.splits) (cases p, auto)
qed

lemma latest_with_earlier: "latest_with contexts ch n = Some c \<Longrightarrow> c < n \<and> chain_of (contexts ! c) = ch"
  using find_set [of "\<lambda>c. chain_of (contexts ! c) = ch" "rev [0..<n]" c] by (auto simp: latest_with_def find_Some_iff)

lemma recorded_site_earlier:
  assumes "recorded_site contexts c = Some s"
  shows "fst s < c \<and> snd s < length (mc_lines (contexts ! fst s))"
  using assms by (auto simp: recorded_site_def Let_def bind_eq_Some_conv dest!: latest_with_earlier call_site_valid split: if_splits)

lemma new_calls_ok: "calls_ok (new_engine cs)"
proof -
  have callees: "ds = filter (\<lambda>d. recorded_site cs d = Some p) [0..<length cs]" if "map_of (callees (new_engine cs)) p = Some ds" for p ds
    using link_calls_records(2) [of cs p] that by (simp add: new_tables unwrap_or_def)
  have targets: "d < length cs \<and> fst (link_calls cs) ! d = Some p" if "map_of (callees (new_engine cs)) p = Some ds" "d \<in> set ds" for p ds d
    using callees [OF that(1)] that(2) by (simp add: link_calls_records(1))
  show ?thesis
    unfolding calls_ok_def using targets
    by (auto simp: new_tables(1,4) link_calls_records(1) valid_pos_def dest!: recorded_site_earlier)
qed

lemma new_engine_ok: "engine_ok (new_engine cs)"
  by (simp add: engine_ok_def new_calls_ok new_occurrences_ok) (simp add: tables_ok_def new_tables link_calls_records(1) keys_of_def)

section \<open>Moves keep the invariant and never leave the recording\<close>

definition good_move :: "engine \<Rightarrow> engine \<times> move \<Rightarrow> bool" where
  "good_move E = (\<lambda>(F, m). same_recording E F \<and> user F = user E \<and>
     (case m of Ended \<Rightarrow> current_pos F = None
      | Stopped l \<Rightarrow> current_pos F = Some (landed_at l) \<and> valid_pos E (landed_at l)))"

lemma good_end [simp]: "good_move E (end_walk E)"
  by (simp add: good_move_def end_walk_def same_recording_def)

lemma good_land [simp]: "good_move E (land E p over) \<longleftrightarrow> valid_pos E p"
  by (simp add: good_move_def land_def same_recording_def)

lemma good_start_over [simp]: "good_move E (start_over E)"
  by (auto simp: start_over_def valid_pos_def split: list.splits)

lemma parent_earlier: "engine_ok E \<Longrightarrow> c < length (lens E) \<Longrightarrow> parent E ! c = Some site \<Longrightarrow> fst site < c \<and> valid_pos E site"
  unfolding engine_ok_def calls_ok_def by blast

lemma callee_recorded: "engine_ok E \<Longrightarrow> map_of (callees E) p = Some cs \<Longrightarrow> d \<in> set cs \<Longrightarrow> d < length (lens E)"
  unfolding engine_ok_def calls_ok_def by blast

lemma current_valid: "engine_ok E \<Longrightarrow> current_pos E = Some p \<Longrightarrow> valid_pos E p"
  unfolding engine_ok_def by blast

lemma occurrence_valid: "engine_ok E \<Longrightarrow> p \<in> set (occurrences_of E k) \<Longrightarrow> valid_pos E p"
  using key_at_valid [of E p] by (auto simp: engine_ok_def occurrences_ok_def)

lemma set_next_unused:
  "set (next_unused E) = {p. \<exists>k\<in>set (active_keys E). nth_opt (occurrences_of E k) (hits_of E k) = Some p}"
  by (force simp: next_unused_def map_filter_def)

lemma good_cont: "engine_ok E \<Longrightarrow> good_move E (cont E)"
proof -
  assume ok: "engine_ok E"
  have "valid_pos E p" if mem: "p \<in> set (next_unused E)" for p
  proof -
    obtain k where "nth_opt (occurrences_of E k) (hits_of E k) = Some p"
      using mem by (auto simp: set_next_unused simp del: split_paired_All)
    then show ?thesis using nth_opt_set [of "occurrences_of E k" "hits_of E k" p] occurrence_valid [OF ok, of p k] by simp
  qed
  then show ?thesis using Min_in [of "set (next_unused E)"] by (simp add: cont_def)
qed

lemma good_start: "engine_ok E \<Longrightarrow> good_move E (start E)"
  by (simp add: start_def good_cont)

lemma good_step_out_of:
  "engine_ok E \<Longrightarrow> c < fuel \<Longrightarrow> c < length (lens E) \<Longrightarrow> \<exists>r. step_out_of fuel E c = Some r \<and> good_move E r"
proof (induction fuel arbitrary: c)
  case (Suc fuel)
  show ?case
  proof (cases "parent E ! c")
    case (Some site)
    with Suc.prems have "fst site < c" "valid_pos E site" using parent_earlier by blast+
    with Some Suc.prems Suc.IH [of "fst site"] show ?thesis by (auto simp: next_after_def valid_pos_def simp del: split_paired_Ex)
  qed simp
qed simp

text \<open>
  C19: No operation of the replay leaves the recording: from an engine in its invariant every move returns, stops at a
  recorded statement (which becomes the current one) or ends the walk, and keeps the invariant; a step out always
  finds its way through the recorded callers.  A new engine is in the invariant.
\<close>

theorem moves_keep_engine:
  assumes "engine_ok E"
  shows "engine_ok (new_engine contexts) \<and> good_move E (start E) \<and> good_move E (cont E) \<and> good_move E (step_in E) \<and>
    (\<exists>r. step_next E = Some r \<and> good_move E r) \<and> (\<exists>r. step_out E = Some r \<and> good_move E r) \<and>
    (\<forall>r. good_move E r \<longrightarrow> engine_ok (fst r)) \<and> engine_ok (fst (set_user_breakpoints E source ot number ls))"
proof -
  note here = current_valid [OF assms] and callee = callee_recorded [OF assms]
  have keep: "engine_ok (fst r)" if "good_move E r" for r
  proof -
    obtain F m where r: "r = (F, m)" by (cases r)
    have "valid_pos E = valid_pos F" using that r by (auto simp: good_move_def same_recording_def valid_pos_def fun_eq_iff)
    then show ?thesis using that r same_recording_ok [of E F] assms
      by (cases m) (simp_all add: good_move_def)
  qed
  have "good_move E (step_in E)"
    using good_start [OF assms] here callee
    by (auto simp: step_in_def Let_def valid_pos_def bind_eq_Some_conv dest!: nth_opt_set split: option.splits prod.splits)
  moreover have "\<exists>r. step_next E = Some r \<and> good_move E r"
    using good_start [OF assms] here good_step_out_of [OF assms]
    by (auto simp: step_next_def valid_pos_def simp del: split_paired_Ex split: option.splits prod.splits)
  moreover have "\<exists>r. step_out E = Some r \<and> good_move E r"
    using good_start [OF assms] here good_step_out_of [OF assms]
    by (auto simp: step_out_def valid_pos_def simp del: split_paired_Ex split: option.splits prod.splits)
  moreover have "engine_ok (fst (set_user_breakpoints E source ot number ls))"
    using here by (intro same_recording_ok [OF _ assms])
      (auto simp: set_user_breakpoints_def same_recording_def split: prod.splits)
  ultimately show ?thesis using good_start [OF assms] good_cont [OF assms] keep new_engine_ok by blast
qed


section \<open>Continuing visits every breakpoint once\<close>

text \<open>The statements of active lines whose occurrences are not used up.\<close>

definition unused :: "engine \<Rightarrow> pos set" where
  "unused E = (\<Union>k\<in>set (active_keys E). set (drop (hits_of E k) (occurrences_of E k)))"

lemma active_same: "same_recording E F \<Longrightarrow> user F = user E \<Longrightarrow> active_keys F = active_keys E"
  by (simp add: active_keys_def same_recording_def)

lemma map_of_fold_max:
  "unwrap_or (map_of (fold (\<lambda>k h. AList.update k (max (unwrap_or (map_of h k) 0) (f k)) h) ks h) j) 0 =
   (if j \<in> set ks then max (unwrap_or (map_of h j) 0) (f j) else unwrap_or (map_of h j) (0 :: nat))"
  by (induction ks arbitrary: h) (auto simp: update_conv' unwrap_or_def split: option.splits)

lemma land_hits:
  "k \<in> set (active_keys E) \<Longrightarrow> hits_of (fst (land E p over)) k = max (hits_of E k) (passed E k (Some p))"
  by (simp add: hits_of_def land_def map_of_fold_max)

lemma drop_passed:
  fixes xs :: "'a::linorder list"
  assumes "sorted_wrt (<) xs"
  shows "drop (max n (length (takeWhile (\<lambda>q. q \<le> p) xs))) xs = filter (\<lambda>q. p < q) (drop n xs)"
  using assms
proof (induction xs arbitrary: n)
  case (Cons x xs)
  show ?case
  proof (cases "x \<le> p")
    case True
    then show ?thesis using Cons by (cases n) (auto simp: not_less dest: Cons.IH [of 0])
  next
    case False
    then have "\<forall>q \<in> set (drop n (x # xs)). p < q" using Cons.prems by (fastforce dest: in_set_dropD)
    then show ?thesis using False by (simp add: filter_id_conv [THEN iffD2])
  qed
qed simp

lemma nth_opt_drop: "nth_opt xs n = (case drop n xs of [] \<Rightarrow> None | x # _ \<Rightarrow> Some x)"
proof (induction xs arbitrary: n)
  case (Cons x xs)
  then show ?case by (cases n) auto
qed simp

lemma unused_finite [simp]: "finite (unused E)"
  by (simp add: unused_def)

lemma next_unused_within: "set (next_unused E) \<subseteq> unused E"
proof
  fix p assume "p \<in> set (next_unused E)"
  then obtain k where k: "k \<in> set (active_keys E)" "nth_opt (occurrences_of E k) (hits_of E k) = Some p"
    by (auto simp: set_next_unused simp del: split_paired_All split_paired_Ex)
  then have "p \<in> set (drop (hits_of E k) (occurrences_of E k))" by (auto simp: nth_opt_drop split: list.splits)
  with k(1) show "p \<in> unused E" unfolding unused_def by blast
qed

lemma next_unused_least:
  assumes "engine_ok E" "q \<in> unused E"
  shows "\<exists>p \<in> set (next_unused E). p \<le> q"
proof -
  obtain k where k: "k \<in> set (active_keys E)" "q \<in> set (drop (hits_of E k) (occurrences_of E k))"
    using assms(2) by (auto simp: unused_def simp del: split_paired_All)
  then obtain p ps where d: "drop (hits_of E k) (occurrences_of E k) = p # ps" by (cases "drop (hits_of E k) (occurrences_of E k)") auto
  have "sorted_wrt (<) (occurrences_of E k)" using assms(1) unfolding engine_ok_def occurrences_ok_def by blast
  then have "sorted_wrt (<) (p # ps)" using sorted_wrt_drop d by metis
  then have "p \<le> q" using k(2) d by auto
  moreover have "p \<in> set (next_unused E)" using k(1) d by (auto simp: set_next_unused nth_opt_drop intro!: bexI [of _ k])
  ultimately show ?thesis by blast
qed

lemma next_unused_min:
  assumes "engine_ok E"
  shows "next_unused E = [] \<longleftrightarrow> unused E = {}"
    and "unused E \<noteq> {} \<Longrightarrow> Min (set (next_unused E)) = Min (unused E)"
proof -
  show empty: "next_unused E = [] \<longleftrightarrow> unused E = {}"
    using next_unused_least [OF assms] next_unused_within [of E] by fastforce
  assume "unused E \<noteq> {}"
  then have "set (next_unused E) \<noteq> {}" using empty by simp
  then show "Min (set (next_unused E)) = Min (unused E)"
    using next_unused_least [OF assms, of "Min (unused E)"] next_unused_within [of E] Min_in [OF unused_finite \<open>unused E \<noteq> {}\<close>]
    by (meson List.finite_set Min.coboundedI Min_antimono Min_in order_antisym order_trans unused_finite)
qed

lemma unused_land:
  assumes "engine_ok E"
  shows "unused (fst (land E p over)) = {q \<in> unused E. p < q}"
proof -
  let ?F = "fst (land E p over)"
  have same: "active_keys ?F = active_keys E" "occurrences_of ?F = occurrences_of E"
    by (simp_all add: land_def active_keys_def occurrences_of_def fun_eq_iff)
  have "drop (hits_of ?F k) (occurrences_of E k) = filter (\<lambda>q. p < q) (drop (hits_of E k) (occurrences_of E k))"
    if "k \<in> set (active_keys E)" for k
  proof -
    have "sorted_wrt (<) (occurrences_of E k)" using assms unfolding engine_ok_def occurrences_ok_def by blast
    then show ?thesis using drop_passed [of "occurrences_of E k" "hits_of E k" p] land_hits [OF that] by (simp add: passed_def)
  qed
  then have "set (drop (hits_of ?F k) (occurrences_of E k)) = {q \<in> set (drop (hits_of E k) (occurrences_of E k)). p < q}"
    if "k \<in> set (active_keys E)" for k using that by simp
  then show ?thesis by (auto simp: unused_def same simp del: split_paired_All split_paired_Ex)
qed

text \<open>Continuing until the walk ends, with the stops on the way.\<close>

fun run_conts :: "nat \<Rightarrow> engine \<Rightarrow> pos list option" where
  "run_conts 0 E = None"
| "run_conts (Suc n) E =
     (case cont E of
        (_, Ended) \<Rightarrow> Some []
      | (F, Stopped l) \<Rightarrow> map_option (\<lambda>ps. landed_at l # ps) (run_conts n F))"

lemma sorted_list_Min:
  fixes A :: "'a::linorder set"
  assumes "finite A" "A \<noteq> {}"
  shows "sorted_list_of_set A = Min A # sorted_list_of_set {q \<in> A. Min A < q}"
proof -
  have "A - {Min A} = {q \<in> A. Min A < q}" using Min_le [OF assms(1)] by (auto simp: order_less_le)
  then show ?thesis using sorted_list_of_set_nonempty [OF assms] by simp
qed

text \<open>
  C7: Repeating Continue stops at every statement that a breakpoint or a snappoint is still waiting for, each once and
  in the order of the recording, and then ends: whatever the walk did before, Continue never stops twice at one statement.
\<close>

theorem continue_visits_waiting:
  assumes "engine_ok E" "card (unused E) < fuel"
  shows "run_conts fuel E = Some (sorted_list_of_set (unused E))"
  using assms
proof (induction fuel arbitrary: E)
  case (Suc fuel)
  show ?case
  proof (cases "unused E = {}")
    case True
    then show ?thesis using next_unused_min(1) [OF Suc.prems(1)] by (simp add: cont_def end_walk_def)
  next
    case False
    let ?p = "Min (unused E)" and ?F = "fst (land E (Min (unused E)) False)"
    have c: "cont E = land E ?p False" using next_unused_min [OF Suc.prems(1)] False by (simp add: cont_def)
    then have "engine_ok ?F" using moves_keep_engine [OF Suc.prems(1)] by metis
    moreover have "card (unused ?F) < card (unused E)"
      unfolding unused_land [OF Suc.prems(1)] using Min_in [OF unused_finite False] by (intro psubset_card_mono) auto
    ultimately have "run_conts fuel ?F = Some (sorted_list_of_set {q \<in> unused E. ?p < q})"
      using Suc.IH [of ?F] Suc.prems by (simp add: unused_land)
    then show ?thesis using c by (simp add: land_def sorted_list_Min [OF unused_finite False])
  qed
qed simp

section \<open>The call stack and stepping out\<close>

text \<open>The recorded callers of a context, innermost first, up to an entry method.\<close>

fun call_chain :: "engine \<Rightarrow> nat \<Rightarrow> pos list \<Rightarrow> bool" where
  "call_chain E c [] \<longleftrightarrow> parent E ! c = None"
| "call_chain E c (s # ss) \<longleftrightarrow> parent E ! c = Some s \<and> call_chain E (fst s) ss"

fun outermost :: "nat \<Rightarrow> pos list \<Rightarrow> nat" where
  "outermost c [] = c"
| "outermost c (s # ss) = outermost (fst s) ss"

lemma stack_loop_chain:
  assumes "engine_ok E" "c < length (lens E)" "length out + c \<le> length (lens E)"
  shows "\<exists>sites. stack_loop E c out = out @ sites \<and> call_chain E c sites"
  using assms(2,3)
proof (induction c arbitrary: out rule: less_induct)
  case (less c)
  show ?case
  proof (cases "parent E ! c")
    case None
    then show ?thesis by (subst stack_loop.simps) (intro exI [of _ "[]"], simp)
  next
    case (Some site)
    have "fst site < c" using parent_earlier [OF assms(1) less.prems(1) Some] by simp
    moreover from this obtain sites where "stack_loop E (fst site) (out @ [site]) = (out @ [site]) @ sites" "call_chain E (fst site) sites"
      using less.IH [of "fst site" "out @ [site]"] less.prems by auto
    ultimately show ?thesis
      using Some less.prems by (subst stack_loop.simps) (auto simp: Let_def intro!: exI [of _ "site # sites"])
  qed
qed

lemma call_chain_contexts: "engine_ok E \<Longrightarrow> c < length (lens E) \<Longrightarrow> call_chain E c ss \<Longrightarrow> sorted_wrt (>) (c # map fst ss)"
proof (induction ss arbitrary: c)
  case (Cons s ss)
  then have "fst s < c" using parent_earlier [of E c s] by simp
  moreover from this have "sorted_wrt (>) (fst s # map fst ss)" using Cons.IH [of "fst s"] Cons.prems by simp
  ultimately show ?case by (auto dest!: bspec)
qed simp

lemma step_out_of_chain:
  "engine_ok E \<Longrightarrow> c < length (lens E) \<Longrightarrow> c < fuel \<Longrightarrow> call_chain E c sites \<Longrightarrow>
   step_out_of fuel E c =
     Some (case List.find (\<lambda>s. snd s + 1 < lens E ! fst s) sites of
             Some s \<Rightarrow> land E (fst s, snd s + 1) False
           | None \<Rightarrow> if outermost c sites = 0 then end_walk E else start_over E)"
proof (induction sites arbitrary: c fuel)
  case Nil
  then show ?case by (cases fuel) auto
next
  case (Cons s ss)
  then obtain n where n: "fuel = Suc n" by (cases fuel) auto
  have "fst s < c" using parent_earlier [OF Cons.prems(1,2)] Cons.prems(4) by simp
  with Cons.prems n Cons.IH [of "fst s" n] show ?case by (auto simp: next_after_def)
qed

text \<open>
  C21: The call stack of a statement is the whole chain of recorded call sites down from an entry method, each in an
  earlier context than the call it made, and the guard of the loop never cuts it short.  A step out follows that chain:
  it lands on the statement after the innermost call site that has one, and where none has it ends the replay in
  the first recorded context and starts the walk over in another entry method.
\<close>

theorem step_out_follows_stack:
  assumes "engine_ok E" "current_pos E = Some p"
  shows "\<exists>sites. call_stack E p = rev sites @ [p] \<and> call_chain E (fst p) sites \<and> sorted_wrt (<) (map fst (call_stack E p)) \<and>
    step_out E =
      Some (case List.find (\<lambda>s. snd s + 1 < lens E ! fst s) sites of
              Some s \<Rightarrow> land E (fst s, snd s + 1) False
            | None \<Rightarrow> if outermost (fst p) sites = 0 then end_walk E else start_over E)"
proof -
  have c: "fst p < length (lens E)" using current_valid [OF assms] by (simp add: valid_pos_def)
  obtain sites where s: "stack_loop E (fst p) [p] = [p] @ sites" "call_chain E (fst p) sites"
    using stack_loop_chain [OF assms(1) c, of "[p]"] c by auto
  have "sorted_wrt (<) (rev (fst p # map fst sites))"
    using call_chain_contexts [OF assms(1) c s(2)] unfolding sorted_wrt_rev by simp
  then show ?thesis
    using s assms(2) step_out_of_chain [OF assms(1) c c s(2)]
    by (intro exI [of _ sites]) (simp add: call_stack_def step_out_def rev_map case_prod_unfold)
qed


section \<open>A recording\<close>

text \<open>Three contexts: an entry method with two statements on lines 4 and 5, whose first calls a method twice.\<close>

definition at_line :: "nat \<Rightarrow> source_span" where
  "at_line l = \<lparr>from_line = l, from_column = 0, to_line = l, to_column = 9\<rparr>"

definition a_line :: "nat \<Rightarrow> int \<Rightarrow> line_context" where
  "a_line l t = \<lparr>lc_ordinal = 0, lc_span = at_line l, lc_variables = [], lc_timestamp = t\<rparr>"

definition a_frame :: "string \<Rightarrow> nat \<Rightarrow> stack_frame" where
  "a_frame m l = \<lparr>sf_method = m, sf_type = OT_CodeUnit, sf_number = 1, sf_object = ''C'', sf_span = at_line l\<rparr>"

definition a_context :: "stack_frame list \<Rightarrow> line_context list \<Rightarrow> int \<Rightarrow> method_context" where
  "a_context fs ls t = \<lparr>mc_type = OT_CodeUnit, mc_number = 1, mc_exception_line = None, mc_frames = fs, mc_lines = ls, mc_start_time = t\<rparr>"

definition sample_recording :: "method_context list" where
  "sample_recording =
     [a_context [a_frame ''A'' 4] [a_line 4 0, a_line 5 9] 0,
      a_context [a_frame ''B'' 8, a_frame ''A'' 4] [a_line 8 2] 1,
      a_context [a_frame ''B'' 8, a_frame ''A'' 4] [a_line 8 4] 3]"

definition sample_engine :: engine where
  "sample_engine = fst (set_user_breakpoints (new_engine sample_recording) ''C'' 5 1 [9, 6])"

lemma sample_ok: "engine_ok sample_engine"
  unfolding sample_engine_def using moves_keep_engine [OF new_engine_ok] by blast

lemma sample_waiting: "active_keys sample_engine = [\<lparr>key_type = 5, key_number = 1, key_line = 8\<rparr>, \<lparr>key_type = 5, key_number = 1, key_line = 5\<rparr>] \<and>
   occurrences_of sample_engine \<lparr>key_type = 5, key_number = 1, key_line = 8\<rparr> = [(1, 0), (2, 0)] \<and>
   occurrences_of sample_engine \<lparr>key_type = 5, key_number = 1, key_line = 5\<rparr> = [(0, 1)] \<and>
   hits_of sample_engine \<lparr>key_type = 5, key_number = 1, key_line = 8\<rparr> = 0 \<and>
   hits_of sample_engine \<lparr>key_type = 5, key_number = 1, key_line = 5\<rparr> = 0"
  by code_simp

lemma moves_keep_engine_witness:
  "engine_ok (fst (cont sample_engine)) \<and> (\<exists>r. step_out sample_engine = Some r \<and> engine_ok (fst r))"
  using moves_keep_engine [OF sample_ok] by blast

lemma continue_visits_waiting_witness: "run_conts 4 sample_engine = Some [(0, 1), (1, 0), (2, 0)]"
proof -
  have u: "unused sample_engine = {(0, 1), (1, 0), (2, 0)}" using sample_waiting by (auto simp: unused_def)
  then show ?thesis using continue_visits_waiting [OF sample_ok, of 4] by (simp add: u)
qed

text \<open>The second run of the called method, one statement on: its call site is the first statement of the entry method.\<close>

lemma step_out_follows_stack_witness:
  "call_stack (fst (land sample_engine (2, 0) False)) (2, 0) = [(0, 0), (2, 0)] \<and>
   (case step_out (fst (land sample_engine (2, 0) False)) of None \<Rightarrow> None | Some (F, m) \<Rightarrow> Some (current_pos F)) = Some (Some (0, 1))"
proof -
  let ?E = "fst (land sample_engine (2, 0) False)"
  have v: "valid_pos sample_engine (2, 0)" by code_simp
  have ok: "engine_ok ?E" using moves_keep_engine [OF sample_ok] good_land [of sample_engine "(2, 0)" False] v by blast
  have cur: "current_pos ?E = Some (2, 0)" by (simp add: land_def)
  have par: "parent ?E ! 2 = Some (0, 0)" "parent ?E ! 0 = None" "lens ?E = [2, 1, 1]" by code_simp+
  obtain sites where s: "call_stack ?E (2, 0) = rev sites @ [(2, 0)]" "call_chain ?E 2 sites"
     "step_out ?E = Some (case List.find (\<lambda>s. snd s + 1 < lens ?E ! fst s) sites of
              Some s \<Rightarrow> land ?E (fst s, snd s + 1) False
            | None \<Rightarrow> if outermost 2 sites = 0 then end_walk ?E else start_over ?E)"
    using step_out_follows_stack [OF ok cur] by auto
  from s(2) par(1,2) have "sites = [(0, 0)]" by (cases sites; cases "tl sites") auto
  then show ?thesis using s(1,3) par(3) by (simp add: land_def)
qed

text \<open>
  A breakpoint that is taken away, passed and set again keeps its old count: Continue then goes back to a statement
  the walk has passed.
\<close>

lemma reset_breakpoint_goes_back:
  "(let E0 = fst (set_user_breakpoints (new_engine sample_recording) ''C'' 5 1 [6]);
        E1 = fst (set_user_breakpoints E0 ''C'' 5 1 [9]);
        E2 = fst (cont E1);
        E3 = fst (set_user_breakpoints E2 ''C'' 5 1 [6]);
        E4 = fst (cont E3)
    in (current_pos E2, current_pos E4)) = (Some (1, 0), Some (0, 1))"
  by code_simp

end
