(* ===== verification/Dap_Framing.thy ===== *)
theory Dap_Framing
  imports Strings
begin

text \<open>
  The wire format of the debug adapter protocol, \<^verbatim>\<open>src/crates/al-dap/src/dap/framing.rs\<close>: a frame is a header with the
  length of the body, a blank line and the body.

  A byte is a character; the input is the list of bytes not read yet, which ends where the connection does.  A header
  line is decoded as UTF-8 into code points before it is trimmed, as \<open>str::trim\<close> removes white space of all of Unicode.
\<close>

section \<open>Text of a header line\<close>

type_synonym byte = char

definition is_cont :: "byte \<Rightarrow> bool" where
  "is_cont b \<longleftrightarrow> 128 \<le> code_of b \<and> code_of b \<le> 191"

definition cont_bits :: "byte \<Rightarrow> nat" where
  "cont_bits b = code_of b - 128"

text \<open>The second byte of a sequence of three or four, which excludes overlong forms, surrogates and large values.\<close>

definition second_of_three :: "byte \<Rightarrow> byte \<Rightarrow> bool" where
  "second_of_three a b \<longleftrightarrow>
     (if code_of a = 224 then 160 \<le> code_of b \<and> code_of b \<le> 191
      else if code_of a = 237 then 128 \<le> code_of b \<and> code_of b \<le> 159
      else is_cont b)"

definition second_of_four :: "byte \<Rightarrow> byte \<Rightarrow> bool" where
  "second_of_four a b \<longleftrightarrow>
     (if code_of a = 240 then 144 \<le> code_of b \<and> code_of b \<le> 191
      else if code_of a = 244 then 128 \<le> code_of b \<and> code_of b \<le> 143
      else is_cont b)"

fun utf8_one :: "byte list \<Rightarrow> (nat \<times> byte list) option" where
  "utf8_one [] = None"
| "utf8_one (a # bs) =
     (let n = code_of a in
      if n < 128 then Some (n, bs)
      else if 194 \<le> n \<and> n \<le> 223 then
        (case bs of b # r \<Rightarrow> if is_cont b then Some ((n - 192) * 64 + cont_bits b, r) else None | _ \<Rightarrow> None)
      else if 224 \<le> n \<and> n \<le> 239 then
        (case bs of
           b # c # r \<Rightarrow>
             if second_of_three a b \<and> is_cont c then Some (((n - 224) * 64 + cont_bits b) * 64 + cont_bits c, r) else None
         | _ \<Rightarrow> None)
      else if 240 \<le> n \<and> n \<le> 244 then
        (case bs of
           b # c # d # r \<Rightarrow>
             if second_of_four a b \<and> is_cont c \<and> is_cont d
             then Some ((((n - 240) * 64 + cont_bits b) * 64 + cont_bits c) * 64 + cont_bits d, r) else None
         | _ \<Rightarrow> None)
      else None)"

lemma utf8_one_shorter: "utf8_one bs = Some (n, r) \<Longrightarrow> length r < length bs"
  by (cases bs) (auto simp: Let_def split: if_splits list.splits)

function from_utf8 :: "byte list \<Rightarrow> nat list option" where
  "from_utf8 bs =
     (if bs = [] then Some []
      else case utf8_one bs of None \<Rightarrow> None | Some (n, r) \<Rightarrow> map_option (\<lambda>ns. n # ns) (from_utf8 r))"
  by auto
termination by (relation "measure length") (auto dest: utf8_one_shorter)

declare from_utf8.simps [simp del]

definition white_space :: "nat \<Rightarrow> bool" where
  "white_space n \<longleftrightarrow>
     9 \<le> n \<and> n \<le> 13 \<or> n \<in> {32, 133, 160, 5760, 8232, 8233, 8239, 8287, 12288} \<or> 8192 \<le> n \<and> n \<le> 8202"

definition trim_points :: "nat list \<Rightarrow> nat list" where
  "trim_points ns = rev (dropWhile white_space (rev (dropWhile white_space ns)))"

definition points_of :: "string \<Rightarrow> nat list" where
  "points_of s = map code_of s"

fun strip_points :: "nat list \<Rightarrow> nat list \<Rightarrow> nat list option" where
  "strip_points [] ns = Some ns"
| "strip_points (p # ps) [] = None"
| "strip_points (p # ps) (n # ns) = (if p = n then strip_points ps ns else None)"

text \<open>\<open>str::parse::<usize>()\<close>: an optional plus sign, at least one ASCII digit, and a value of 64 bits.\<close>

definition parse_usize :: "nat list \<Rightarrow> nat option" where
  "parse_usize ns =
     (let ds = (case ns of [] \<Rightarrow> [] | n # r \<Rightarrow> if n = 43 then r else ns) in
      if ds = [] \<or> \<not> list_all (\<lambda>d. 48 \<le> d \<and> d \<le> 57) ds then None
      else let v = foldl (\<lambda>acc d. acc * 10 + (d - 48)) 0 ds in if v \<le> usize_max then Some v else None)"


section \<open>Frames\<close>

definition MAX_DAP_BODY_SIZE :: nat where "MAX_DAP_BODY_SIZE = 20 * 1024 * 1024"
definition MAX_DAP_HEADER_LINE :: nat where "MAX_DAP_HEADER_LINE = 8192"

datatype invalid_data = Line_Too_Long | Not_Utf8 | Many_Lengths | Bad_Length | No_Length | Body_Too_Large nat

datatype io_error = Unexpected_Eof | Invalid_Data invalid_data

text \<open>The inner loop: one byte at a time into the line buffer.\<close>

fun read_header_line :: "byte list \<Rightarrow> byte list \<Rightarrow> io_error + byte list \<times> byte list" where
  "read_header_line [] buf = (if buf = [] then Err Unexpected_Eof else Ok (buf, []))"
| "read_header_line (b # bs) buf =
     (if b = CHR 10 then Ok (buf @ [b], bs)
      else if length (buf @ [b]) > MAX_DAP_HEADER_LINE then Err (Invalid_Data Line_Too_Long)
      else read_header_line bs (buf @ [b]))"

lemma read_header_line_shorter: "read_header_line bs buf = Inr (line, r) \<Longrightarrow> buf = [] \<Longrightarrow> length r < length bs"
proof -
  have "length r \<le> length bs" if "read_header_line bs buf = Inr (line, r)" for bs buf
    using that by (induction bs buf rule: read_header_line.induct) (auto split: if_splits)
  then show "read_header_line bs buf = Inr (line, r) \<Longrightarrow> buf = [] \<Longrightarrow> length r < length bs"
    by (cases bs) (fastforce split: if_splits)+
qed

text \<open>What a line adds: \<open>Inl ()\<close> for the blank line that ends the header, or the length known after it.\<close>

definition header_line :: "byte list \<Rightarrow> nat option \<Rightarrow> io_error + (unit + nat option)" where
  "header_line line known =
     (case from_utf8 line of
        None \<Rightarrow> Err (Invalid_Data Not_Utf8)
      | Some text \<Rightarrow>
          let trimmed = trim_points text in
          if trimmed = [] then Ok (Inl ())
          else case strip_points (points_of ''Content-Length:'') trimmed of
                 None \<Rightarrow> Ok (Inr known)
               | Some val \<Rightarrow>
                   if known \<noteq> None then Err (Invalid_Data Many_Lengths)
                   else (case parse_usize (trim_points val) of
                           None \<Rightarrow> Err (Invalid_Data Bad_Length)
                         | Some n \<Rightarrow> Ok (Inr (Some n))))"

function read_headers :: "byte list \<Rightarrow> nat option \<Rightarrow> io_error + nat \<times> byte list" where
  "read_headers input known =
     (case read_header_line input [] of
        Inl e \<Rightarrow> Err e
      | Inr (line, rest) \<Rightarrow>
          (case header_line line known of
             Inl e \<Rightarrow> Err e
           | Inr (Inl _) \<Rightarrow> (case known of None \<Rightarrow> Err (Invalid_Data No_Length) | Some n \<Rightarrow> Ok (n, rest))
           | Inr (Inr known) \<Rightarrow> read_headers rest known))"
  by pat_completeness auto
termination by (relation "measure (length \<circ> fst)") (auto dest: read_header_line_shorter)

declare read_headers.simps [simp del]

definition read_dap_body :: "byte list \<Rightarrow> io_error + byte list \<times> byte list" where
  "read_dap_body input =
     bind_res (read_headers input None) (\<lambda>(n, rest).
       if n > MAX_DAP_BODY_SIZE then Err (Invalid_Data (Body_Too_Large n))
       else if length rest < n then Err Unexpected_Eof
       else Ok (take n rest, drop n rest))"

definition crlf :: "byte list" where "crlf = [CHR 13, CHR 10]"

definition write_dap_frame :: "byte list \<Rightarrow> byte list" where
  "write_dap_frame body = ''Content-Length: '' @ show_nat (length body) @ crlf @ crlf @ body"


section \<open>Reading back\<close>

lemma ascii_utf8: "\<forall>b\<in>set bs. code_of b < 128 \<Longrightarrow> from_utf8 bs = Some (points_of bs)"
  by (induction bs) (auto simp: from_utf8.simps points_of_def)

lemma read_line_to_newline:
  "CHR 10 \<notin> set line \<Longrightarrow> length buf + length line \<le> MAX_DAP_HEADER_LINE \<Longrightarrow>
   read_header_line (line @ CHR 10 # rest) buf = Inr (buf @ line @ [CHR 10], rest)"
  by (induction line arbitrary: buf) auto

lemma read_line_to_end:
  "CHR 10 \<notin> set line \<Longrightarrow> length buf + length line \<le> MAX_DAP_HEADER_LINE \<Longrightarrow> buf @ line \<noteq> [] \<Longrightarrow>
   read_header_line line buf = Inr (buf @ line, [])"
  by (induction line arbitrary: buf) auto

lemma digits_ascii: "c \<in> set (show_nat n) \<Longrightarrow> 48 \<le> code_of c \<and> code_of c \<le> 57"
  using show_nat_digits [of n] by (auto simp: list_all_iff is_ascii_digit_def)

lemma digits_points: "foldl (\<lambda>acc d. acc * 10 + (d - 48)) a (points_of s) = foldl (\<lambda>acc c. acc * 10 + digit_val c) a s"
  by (induction s arbitrary: a) (auto simp: points_of_def digit_val_def)

lemma parse_usize_show:
  assumes "n \<le> usize_max"
  shows "parse_usize (points_of (show_nat n)) = Some n"
proof -
  obtain d ds where d: "show_nat n = d # ds" using show_nat_nonempty [of n] by (cases "show_nat n") auto
  have "code_of d \<noteq> 43" using digits_ascii [of d n] d by simp
  moreover have "list_all (\<lambda>d. 48 \<le> d \<and> d \<le> 57) (points_of (show_nat n))"
    using digits_ascii [of _ n] by (auto simp: list_all_iff points_of_def)
  ultimately have digits: "list_all (\<lambda>d. 48 \<le> d \<and> d \<le> 57) (points_of (show_nat n))" "code_of d \<noteq> 43" by blast+
  have "foldl (\<lambda>acc d. acc * 10 + (d - 48)) 0 (points_of (show_nat n)) = n"
    using digits_val_show_nat [of n] by (simp add: digits_points digits_val_def)
  moreover have "(case points_of (show_nat n) of [] \<Rightarrow> [] | m # r \<Rightarrow> if m = 43 then r else points_of (show_nat n)) = points_of (show_nat n)"
    using d digits(2) by (simp add: points_of_def)
  ultimately show ?thesis using assms digits(1) d unfolding parse_usize_def Let_def by (simp add: points_of_def)
qed

lemma trim_points_core:
  assumes "list_all white_space a" "list_all white_space b" "core \<noteq> []" "\<not> white_space (hd core)" "\<not> white_space (last core)"
  shows "trim_points (a @ core @ b) = core"
proof -
  have drop: "dropWhile white_space (w @ c @ r) = c @ r" if "list_all white_space w" "c \<noteq> []" "\<not> white_space (hd c)" for w c r
    using that by (induction w) (auto simp: neq_Nil_conv)
  show ?thesis
    using drop [OF assms(1,3,4), of b] drop [of "rev b" "rev core" "[]"] assms by (simp add: trim_points_def list_all_iff hd_rev)
qed

lemma strip_points_append [simp]: "strip_points ps (ps @ ns) = Some ns"
  by (induction ps) auto

lemma points_append [simp]: "points_of (s @ t) = points_of s @ points_of t"
  by (simp add: points_of_def)

lemma points_empty [simp]: "points_of s = [] \<longleftrightarrow> s = []"
  by (simp add: points_of_def)

definition length_line :: "nat \<Rightarrow> byte list" where
  "length_line n = ''Content-Length: '' @ show_nat n"

lemma digit_points:
  "\<not> white_space (hd (points_of (show_nat n)))" "\<not> white_space (last (points_of (show_nat n)))"
proof -
  have "\<not> white_space m" if "m \<in> set (points_of (show_nat n))" for m
    using that digits_ascii [of _ n] by (fastforce simp: points_of_def white_space_def)
  then show "\<not> white_space (hd (points_of (show_nat n)))" "\<not> white_space (last (points_of (show_nat n)))" by auto
qed

lemma length_line_ascii: "c \<in> set (length_line n) \<Longrightarrow> code_of c < 128 \<and> c \<noteq> CHR 10"
  using digits_ascii [of c n] by (auto simp: length_line_def)

lemma header_length_line:
  assumes "n \<le> usize_max"
  shows "header_line (length_line n @ crlf) None = Inr (Inr (Some n))"
proof -
  have "from_utf8 (length_line n @ crlf) = Some (points_of (length_line n @ crlf))"
    using length_line_ascii by (intro ascii_utf8) (auto simp: crlf_def)
  moreover have "trim_points (points_of (length_line n @ crlf)) = points_of ''Content-Length:'' @ points_of '' '' @ points_of (show_nat n)"
    using trim_points_core [of "[]" "points_of crlf" "points_of (length_line n)"] digit_points(2) [of n]
    by (simp add: length_line_def crlf_def) (simp add: points_of_def white_space_def)
  moreover have "trim_points (points_of '' '' @ points_of (show_nat n)) = points_of (show_nat n)"
    using trim_points_core [of "points_of '' ''" "[]" "points_of (show_nat n)"] digit_points [of n]
    by simp (simp add: points_of_def white_space_def)
  ultimately show ?thesis
    by (simp add: header_line_def Let_def parse_usize_show [OF assms] del: points_append)
qed

lemma blank_line: "header_line crlf known = Inr (Inl ())"
  by (simp add: header_line_def ascii_utf8 crlf_def) (simp add: points_of_def trim_points_def white_space_def)

lemma show_nat_length: "n < 10 ^ k \<Longrightarrow> 0 < k \<Longrightarrow> length (show_nat n) \<le> k"
proof (induction k arbitrary: n)
  case (Suc k)
  show ?case
  proof (cases "n < 10")
    case True
    then show ?thesis by (subst show_nat.simps) simp
  next
    case False
    then have "0 < k" using Suc.prems by (cases k) auto
    moreover have "n div 10 < 10 ^ k" using Suc.prems by (simp add: less_mult_imp_div_less mult.commute)
    ultimately show ?thesis using Suc.IH [of "n div 10"] False by (subst show_nat.simps) simp
  qed
qed simp

lemma length_line_short: "n \<le> usize_max \<Longrightarrow> length (length_line n) \<le> 36"
  using show_nat_length [of n 20] by (simp add: length_line_def usize_max_def)

lemma read_header:
  assumes "n \<le> usize_max"
  shows "read_headers (length_line n @ crlf @ crlf @ rest) None = Inr (n, rest)"
proof -
  have "read_header_line ((length_line n @ [CHR 13]) @ CHR 10 # crlf @ rest) [] = Inr (length_line n @ crlf, crlf @ rest)"
    using length_line_ascii [of _ n] length_line_short [OF assms]
    by (subst read_line_to_newline) (auto simp: crlf_def MAX_DAP_HEADER_LINE_def)
  moreover have "read_header_line ([CHR 13] @ CHR 10 # rest) [] = Inr (crlf, rest)"
    by (subst read_line_to_newline) (auto simp: crlf_def MAX_DAP_HEADER_LINE_def)
  ultimately show ?thesis
    using header_length_line [OF assms]
    by (simp add: read_headers.simps [of _ None] crlf_def) (simp add: read_headers.simps [of _ "Some _"] blank_line [unfolded crlf_def])
qed

lemma frame_header: "write_dap_frame body = length_line (length body) @ crlf @ crlf @ body"
  by (simp add: write_dap_frame_def length_line_def)

lemma frame_nonempty: "write_dap_frame body \<noteq> []"
  by (simp add: frame_header length_line_def)

text \<open>All frames of a stream, up to the first that cannot be read.\<close>

function read_frames :: "byte list \<Rightarrow> byte list list" where
  "read_frames input =
     (case read_dap_body input of
        Inl e \<Rightarrow> []
      | Inr (body, rest) \<Rightarrow> if length rest < length input then body # read_frames rest else [])"
  by auto
termination by (relation "measure length") auto

declare read_frames.simps [simp del]

lemma read_frame:
  assumes "length body \<le> usize_max"
  shows "read_dap_body (write_dap_frame body @ rest) =
    (if length body \<le> MAX_DAP_BODY_SIZE then Inr (body, rest) else Inl (Invalid_Data (Body_Too_Large (length body))))"
  using read_header [OF assms, of "body @ rest"] by (simp add: read_dap_body_def frame_header)

text \<open>
  C16: What the adapter writes it reads back: a stream of frames is read as exactly the bodies that were written, in
  order and with every frame boundary where it was, whatever bytes the bodies hold; a body over the limit is refused
  with its size and none of it is read.
\<close>

theorem frames_round_trip:
  assumes "\<forall>body\<in>set bodies. length body \<le> MAX_DAP_BODY_SIZE" "MAX_DAP_BODY_SIZE < length big" "length big \<le> usize_max"
  shows "read_frames (concat (map write_dap_frame bodies)) = bodies \<and>
    (\<forall>rest. read_dap_body (write_dap_frame big @ rest) = Inl (Invalid_Data (Body_Too_Large (length big))))"
proof -
  have size: "length body \<le> usize_max" if "length body \<le> MAX_DAP_BODY_SIZE" for body :: "byte list"
    using that by (simp add: MAX_DAP_BODY_SIZE_def usize_max_def)
  have "read_dap_body [] = Inl Unexpected_Eof" by (simp add: read_dap_body_def read_headers.simps)
  then have "read_frames [] = []" by (simp add: read_frames.simps)
  with assms(1) have "read_frames (concat (map write_dap_frame bodies)) = bodies"
    by (induction bodies) (simp, subst read_frames.simps, simp add: read_frame [OF size] frame_nonempty)
  then show ?thesis using assms(2) read_frame [OF assms(3)] by simp
qed

lemma frames_round_trip_witness:
  "read_frames (concat (map write_dap_frame [''{}'', [], [CHR 0x0D, CHR 0x0A, CHR 0xFF]])) = [''{}'', [], [CHR 0x0D, CHR 0x0A, CHR 0xFF]]"
  using frames_round_trip [of "[''{}'', [], [CHR 0x0D, CHR 0x0A, CHR 0xFF]]" "replicate (Suc MAX_DAP_BODY_SIZE) CHR ''x''"]
  by (simp add: MAX_DAP_BODY_SIZE_def usize_max_def)


section \<open>Input that is not a whole frame\<close>

lemma read_header_line_split:
  "read_header_line input buf = Inr (line, rest) \<Longrightarrow>
   buf @ input = line @ rest \<and> length line \<le> max (length buf) MAX_DAP_HEADER_LINE + 1 \<and> line \<noteq> []"
  by (induction input buf rule: read_header_line.induct) (auto split: if_splits)

lemma read_headers_split:
  "read_headers input known = Inr (n, rest) \<Longrightarrow> \<exists>h. input = h @ rest \<and> h \<noteq> []"
proof (induction input known rule: read_headers.induct)
  case (1 input known)
  obtain line r where line: "read_header_line input [] = Inr (line, r)"
    using 1(2) by (subst (asm) read_headers.simps) (auto split: sum.splits)
  then have input: "input = line @ r" "line \<noteq> []" using read_header_line_split [of input "[]"] by auto
  obtain d where d: "header_line line known = Inr d"
    using 1(2) line by (subst (asm) read_headers.simps) (auto split: sum.splits)
  show ?case
  proof (cases d)
    case (Inl u)
    then show ?thesis
      using 1(2) line d input by (subst (asm) read_headers.simps) (auto split: option.splits)
  next
    case (Inr known')
    then have "read_headers r known' = Inr (n, rest)"
      using 1(2) line d by (subst (asm) read_headers.simps) simp
    then obtain h where "r = h @ rest" using 1(1) [OF line refl d Inr] by blast
    then show ?thesis using input by (intro exI [of _ "line @ h"]) simp
  qed
qed

text \<open>
  Whatever bytes arrive, a body that is accepted is a part of the input right before what is left to read, it is
  within the limit of 20 MiB, and every header line is read with a buffer of at most 8193 bytes.
\<close>

theorem accepted_body_within_input:
  assumes "read_dap_body input = Inr (body, rest)"
  shows "(\<exists>header. input = header @ body @ rest \<and> header \<noteq> [] \<and> read_headers input None = Inr (length body, body @ rest)) \<and>
    length body \<le> MAX_DAP_BODY_SIZE \<and>
    (\<forall>bytes line left. read_header_line bytes [] = Inr (line, left) \<longrightarrow> bytes = line @ left \<and> length line \<le> MAX_DAP_HEADER_LINE + 1)"
proof -
  obtain n r where h: "read_headers input None = Inr (n, r)" "\<not> n > MAX_DAP_BODY_SIZE" "\<not> length r < n" "body = take n r" "rest = drop n r"
    using assms by (auto simp: read_dap_body_def bind_res_def split: sum.splits if_splits)
  then show ?thesis
    using read_headers_split [OF h(1)] read_header_line_split [of _ "[]"] by (fastforce simp: min_def)
qed

lemma accepted_body_within_input_witness:
  "read_dap_body (write_dap_frame ''{}'') = Inr (''{}'', []) \<and>
   (\<exists>header. write_dap_frame ''{}'' = header @ ''{}'' \<and> header \<noteq> [])"
proof -
  have "read_dap_body (write_dap_frame ''{}'') = Inr (''{}'', [])"
    using read_frame [of "''{}''" "[]"] by (simp add: MAX_DAP_BODY_SIZE_def usize_max_def)
  with accepted_body_within_input [OF this] show ?thesis by auto
qed

lemma read_headers_at_end: "read_headers [] known = Inl Unexpected_Eof"
  by (simp add: read_headers.simps)

text \<open>A part of the length line is a length, an error or another header, but never the blank line.\<close>

lemma partial_length_line:
  assumes "line = take k (length_line n @ crlf)" "0 < k"
  shows "header_line line None \<noteq> Inr (Inl ())"
proof
  assume *: "header_line line None = Inr (Inl ())"
  obtain l where l: "line = CHR ''C'' # l" using assms by (cases k) (auto simp: length_line_def)
  moreover have "\<forall>b\<in>set line. code_of b < 128"
    using assms(1) length_line_ascii [of _ n] by (auto simp: crlf_def dest!: in_set_takeD)
  ultimately have "from_utf8 line = Some (67 # points_of l)" by (simp add: ascii_utf8 points_of_def)
  moreover have "trim_points (67 # points_of l) \<noteq> []"
    by (simp add: trim_points_def white_space_def)
  ultimately show False using * by (auto simp: header_line_def Let_def split: option.splits if_splits)
qed

lemma read_header_without_feed:
  assumes "n \<le> usize_max"
  shows "read_headers (length_line n @ crlf @ [CHR 13]) None = Inr (n, [])"
proof -
  have "read_header_line ((length_line n @ [CHR 13]) @ CHR 10 # [CHR 13]) [] = Inr (length_line n @ crlf, [CHR 13])"
    using length_line_ascii [of _ n] length_line_short [OF assms]
    by (subst read_line_to_newline) (auto simp: crlf_def MAX_DAP_HEADER_LINE_def)
  moreover have "header_line [CHR 13] (Some n) = Inr (Inl ())"
    by (simp add: header_line_def ascii_utf8) (simp add: points_of_def trim_points_def white_space_def)
  then have "read_headers [CHR 13] (Some n) = Inr (n, [])"
    by (simp add: read_headers.simps [of "[CHR 13]"] MAX_DAP_HEADER_LINE_def)
  ultimately show ?thesis
    using header_length_line [OF assms] by (subst read_headers.simps) (simp add: crlf_def)
qed

text \<open>
  C17: A frame that the connection cuts off is never taken for a whole one: every proper beginning of a written frame
  is an error.  The one exception is an empty body: there the blank line counts without its line feed.
\<close>

theorem truncated_frame_refused:
  assumes "body \<noteq> []" "length body \<le> MAX_DAP_BODY_SIZE" "k < length (write_dap_frame body)"
  shows "\<exists>e. read_dap_body (take k (write_dap_frame body)) = Inl e"
proof -
  let ?n = "length body" and ?l = "length_line (length body) @ crlf"
  have n: "?n \<le> usize_max" using assms(2) by (simp add: MAX_DAP_BODY_SIZE_def usize_max_def)
  have short: "length ?l \<le> MAX_DAP_HEADER_LINE"
    using length_line_short [OF n] by (simp add: crlf_def MAX_DAP_HEADER_LINE_def)
  have frame: "write_dap_frame body = ?l @ crlf @ body" by (simp add: frame_header)
  consider "k = 0" | "0 < k" "k < length ?l" | "k = length ?l" | "k = length ?l + 1" | "length ?l + 2 \<le> k" by linarith
  then show ?thesis
  proof cases
    case 1
    then show ?thesis by (simp add: read_dap_body_def read_headers_at_end)
  next
    case 2
    let ?p = "take k (length_line ?n @ [CHR 13])"
    have p: "take k (write_dap_frame body) = ?p" "?p = take k ?l" using 2 by (simp_all add: frame crlf_def take_Cons')
    have "CHR 10 \<notin> set ?p" using length_line_ascii [of _ ?n] by (auto dest!: in_set_takeD)
    moreover have "?p \<noteq> []" "length ?p \<le> MAX_DAP_HEADER_LINE" using 2 short by (auto simp: crlf_def length_line_def)
    ultimately have "read_header_line ?p [] = Inr (?p, [])" using read_line_to_end [of ?p "[]"] by simp
    moreover have "header_line ?p None \<noteq> Inr (Inl ())" using partial_length_line [OF p(2) 2(1)] .
    ultimately have "\<exists>e. read_headers ?p None = Inl e"
      by (subst read_headers.simps) (auto simp: read_headers_at_end split: sum.splits)
    then show ?thesis unfolding p(1) by (auto simp: read_dap_body_def)
  next
    case 3
    have "read_header_line ((length_line ?n @ [CHR 13]) @ CHR 10 # []) [] = Inr (?l, [])"
      using length_line_ascii [of _ ?n] short by (subst read_line_to_newline) (auto simp: crlf_def)
    then have "read_headers ?l None = Inl Unexpected_Eof"
      using header_length_line [OF n] by (subst read_headers.simps) (simp add: crlf_def read_headers_at_end)
    then show ?thesis using 3 by (simp add: frame read_dap_body_def)
  next
    case 4
    have "take k (write_dap_frame body) = ?l @ [CHR 13]" using 4 by (simp add: frame crlf_def)
    then show ?thesis using assms(1) read_header_without_feed [OF n] by (simp add: read_dap_body_def)
  next
    case 5
    then obtain j where j: "k = length (length_line ?n) + (4 + j)"
      using that [of "k - (length (length_line ?n) + 4)"] by (simp add: crlf_def)
    have "take k (write_dap_frame body) = length_line ?n @ crlf @ crlf @ take j body"
      unfolding j by (simp add: frame crlf_def numeral_eq_Suc)
    moreover have "j < ?n" using j assms(3) by (simp add: frame crlf_def)
    ultimately show ?thesis using read_header [OF n] by (simp add: read_dap_body_def)
  qed
qed

lemma truncated_frame_refused_witness: "\<exists>e. read_dap_body (take 20 (write_dap_frame ''{}'')) = Inl e"
  using truncated_frame_refused [of "''{}''" 20] by (simp add: MAX_DAP_BODY_SIZE_def write_dap_frame_def crlf_def)

lemma empty_body_without_line_feed:
  "read_dap_body (length_line 0 @ crlf @ [CHR 13]) = Inr ([], []) \<and> length_line 0 @ crlf @ [CHR 13, CHR 10] = write_dap_frame []"
  using read_header_without_feed [of 0] by (simp add: read_dap_body_def frame_header crlf_def)

end
