(* ===== verification/List_Methods.thy ===== *)
theory List_Methods
  imports Frames Decimal_Instance
begin

text \<open>
  The methods of a \<open>List of [T]\<close>, \<^verbatim>\<open>interpreter/records/collection_methods.rs\<close>.

  The state is a store: the contents by address (\<open>env\<close>), the bytes each of them has added to the total of the test,
  the total, and the next free address.  A method returns its outcome, the values it writes back to \<open>var\<close> arguments
  and the store.  Handles are not counted here: when contents are freed is the subject of \<open>Shared_Contents\<close>.
\<close>

section \<open>The store\<close>

record 'd coll_store =
  st_env :: "'d env"
  st_held :: "(nat \<times> nat) list"
  st_total :: nat
  st_next :: nat

type_synonym 'd outcome = "'d eval \<times> (nat \<times> 'd val) list \<times> 'd coll_store"

definition cell_bytes :: "'d coll_store \<Rightarrow> nat \<Rightarrow> nat" where
  "cell_bytes S a = unwrap_or (map_of (st_held S) a) 0"

definition charge_cell :: "string \<Rightarrow> nat \<Rightarrow> nat \<Rightarrow> 'd coll_store \<Rightarrow> (string + unit) \<times> 'd coll_store" where
  "charge_cell operation a bytes S =
     (case hold_bytes operation bytes (st_total S) of
        (Inl e, tot) \<Rightarrow> (Err e, S\<lparr>st_total := tot\<rparr>)
      | (Inr _, tot) \<Rightarrow>
          (Ok (), S\<lparr>st_total := tot, st_held := AList.update a ((cell_bytes S a + bytes) mod 2 ^ 64) (st_held S)\<rparr>))"

definition release_cell :: "nat \<Rightarrow> nat \<Rightarrow> 'd coll_store \<Rightarrow> 'd coll_store" where
  "release_cell a bytes S =
     S\<lparr>st_held := AList.update a (cell_bytes S a - bytes) (st_held S),
       st_total := release_held_bytes (min (cell_bytes S a) bytes) (st_total S)\<rparr>"

definition items_of :: "'d coll_store \<Rightarrow> nat \<Rightarrow> 'd val list" where
  "items_of S a = contents_of (lists (st_env S)) a"

definition set_items :: "nat \<Rightarrow> 'd val list \<Rightarrow> 'd coll_store \<Rightarrow> 'd coll_store" where
  "set_items a xs S = S\<lparr>st_env := (st_env S)\<lparr>lists := AList.update a xs (lists (st_env S))\<rparr>\<rparr>"

definition items_bytes :: "'d val list \<Rightarrow> nat" where
  "items_bytes xs = sum_list (map element_bytes xs)"

definition collection_new :: "'d val list \<Rightarrow> string option \<Rightarrow> 'd coll_store \<Rightarrow> 'd val \<times> 'd coll_store" where
  "collection_new xs member S =
     (let a = st_next S in
      (VList a member None,
       S\<lparr>st_env := (st_env S)\<lparr>lists := (a, xs) # lists (st_env S)\<rparr>, st_held := (a, items_bytes xs) # st_held S,
         st_total := add_held_bytes (items_bytes xs) (st_total S), st_next := a + 1\<rparr>))"

definition answer :: "'d val \<Rightarrow> 'd coll_store \<Rightarrow> 'd outcome" where
  "answer v S = (ENormal v, [], S)"

definition refuse :: "string \<Rightarrow> 'd coll_store \<Rightarrow> 'd outcome" where
  "refuse e S = (eval_error e, [], S)"

text \<open>An index out of range is an error of a statement, and the answer false of an expression.\<close>

definition refuse_or_false :: "bool \<Rightarrow> string \<Rightarrow> 'd coll_store \<Rightarrow> 'd outcome" where
  "refuse_or_false statement e S = (if statement then refuse e S else answer (VBoolean False) S)"


section \<open>Arguments\<close>

definition declared_member :: "'d decimal_ops \<Rightarrow> 'd val \<Rightarrow> string option \<Rightarrow> string + 'd val" where
  "declared_member D v member =
     (case member of
        None \<Rightarrow> Ok v
      | Some t \<Rightarrow>
          (case default_for D 0 (trim (before_any is_bracket t)) of
             None \<Rightarrow> Ok v
           | Some slot \<Rightarrow>
               (case (slot, v) of
                  (VChar _, VText s) \<Rightarrow> bind_res (check_string_capacity s (Some 1)) (\<lambda>_. Ok (VChar (case s of [] \<Rightarrow> char_of (0 :: nat) | c # _ \<Rightarrow> c)))
                | (VChar _, VCode s) \<Rightarrow> bind_res (check_string_capacity s (Some 1)) (\<lambda>_. Ok (VChar (case s of [] \<Rightarrow> char_of (0 :: nat) | c # _ \<Rightarrow> c)))
                | (VText _, VChar c) \<Rightarrow> coerce_into_slot D slot (VText [c]) (declared_length t)
                | (VCode _, VChar c) \<Rightarrow> coerce_into_slot D slot (VText [c]) (declared_length t)
                | (VInteger _, VChar c) \<Rightarrow> coerce_into_slot D slot (VInteger (int (code_of c))) None
                | (VBigInteger _, VChar c) \<Rightarrow> coerce_into_slot D slot (VInteger (int (code_of c))) None
                | _ \<Rightarrow> coerce_into_slot D slot v (declared_length t))))"

text \<open>The positions of the arguments that are elements of the list.\<close>

definition element_positions :: "string \<Rightarrow> nat \<Rightarrow> nat list" where
  "element_positions lower n =
     (if lower \<in> {''add'', ''contains'', ''indexof'', ''lastindexof'', ''remove''} then (if 1 \<le> n then [0] else [])
      else if lower \<in> {''insert'', ''set''} then (if 2 \<le> n then [1] else [])
      else if lower = ''addrange'' then [0..<n]
      else [])"

definition declared_elements :: "'d decimal_ops \<Rightarrow> string \<Rightarrow> string option \<Rightarrow> 'd val list \<Rightarrow> string + 'd val list" where
  "declared_elements D lower member args =
     collect_res (map (\<lambda>(i, v). if i \<in> set (element_positions lower (length args)) then declared_member D v member else Ok v)
       (zip [0..<length args] args))"

definition normalised_type :: "string \<Rightarrow> string" where
  "normalised_type t = to_ascii_lowercase (filter (\<lambda>c. \<not> is_whitespace c) t)"

definition is_list_type :: "string \<Rightarrow> bool" where
  "is_list_type t \<longleftrightarrow> starts_with (to_ascii_lowercase (trim_start t)) ''list of''"

definition is_list :: "'d val \<Rightarrow> bool" where
  "is_list v \<longleftrightarrow> (case v of VList _ _ _ \<Rightarrow> True | _ \<Rightarrow> False)"

definition adds_elements :: "string option \<Rightarrow> string option \<Rightarrow> 'd val list \<Rightarrow> bool" where
  "adds_elements member other_member others =
     (case (member, other_member) of
        (None, _) \<Rightarrow> True
      | (Some t, Some u) \<Rightarrow> \<not> is_list_type t \<or> normalised_type t = normalised_type u
      | (Some t, None) \<Rightarrow> \<not> is_list_type t \<or> list_ex is_list others)"

definition list_range :: "string \<Rightarrow> 'd val list \<Rightarrow> nat \<Rightarrow> string + nat \<times> nat" where
  "list_range method args len =
     (case args of
        [VInteger index, VInteger n] \<Rightarrow>
          if 1 \<le> index \<and> 0 \<le> n \<and> nat (index - 1) + nat n \<le> len then Ok (nat (index - 1), nat (index - 1) + nat n)
          else Err (method @ '': index '' @ show_int index @ '' and count '' @ show_int n @ '' are out of range for '' @
                 show_nat len @ '' elements'')
      | _ \<Rightarrow> Err (method @ '' expects an Integer index and count''))"

definition list_index :: "string \<Rightarrow> 'd val list \<Rightarrow> nat \<Rightarrow> string + nat" where
  "list_index method args len =
     (case args of
        [VInteger index] \<Rightarrow>
          if 1 \<le> index \<and> nat (index - 1) < len then Ok (nat (index - 1))
          else Err (method @ '': index '' @ show_int index @ '' out of range 1..'' @ show_nat len)
      | _ \<Rightarrow> Err (method @ '' expects exactly one Integer index''))"


section \<open>Methods\<close>

definition list_addrange :: "nat \<Rightarrow> 'd val list \<Rightarrow> 'd coll_store \<Rightarrow> 'd outcome" where
  "list_addrange a args S =
     (if args = [] then refuse ''List.AddRange expects at least one value or a List'' S
      else answer VEmpty (set_items a (items_of S a @ args) S))"

definition list_getrange :: "nat \<Rightarrow> string option \<Rightarrow> 'd val list \<Rightarrow> 'd coll_store \<Rightarrow> 'd outcome" where
  "list_getrange a member args S =
     (case list_range ''List.GetRange'' args (length (items_of S a)) of
        Inl e \<Rightarrow> refuse e S
      | Inr (from, to) \<Rightarrow> (let (v, S) = collection_new (drop from (take to (items_of S a))) member S in answer v S))"

definition list_removerange :: "nat \<Rightarrow> 'd val list \<Rightarrow> bool \<Rightarrow> 'd coll_store \<Rightarrow> 'd outcome" where
  "list_removerange a args statement S =
     (let items = items_of S a in
      case list_range ''List.RemoveRange'' args (length items) of
        Inl e \<Rightarrow> refuse_or_false statement e S
      | Inr (from, to) \<Rightarrow>
          answer (VBoolean True)
            (release_cell a (items_bytes (drop from (take to items))) (set_items a (take from items @ drop to items) S)))"

definition list_reverse :: "nat \<Rightarrow> 'd val list \<Rightarrow> 'd coll_store \<Rightarrow> 'd outcome" where
  "list_reverse a args S =
     (if args = [] then answer VEmpty (set_items a (rev (items_of S a)) S) else refuse ''List.Reverse expects no arguments'' S)"

definition list_add :: "nat \<Rightarrow> 'd val list \<Rightarrow> 'd coll_store \<Rightarrow> 'd outcome" where
  "list_add a args S =
     (case args of
        [v] \<Rightarrow> answer (VBoolean True) (set_items a (items_of S a @ [v]) S)
      | _ \<Rightarrow> refuse ''List.Add expects exactly one value'' S)"

definition list_count :: "nat \<Rightarrow> 'd val list \<Rightarrow> 'd coll_store \<Rightarrow> 'd outcome" where
  "list_count a args S =
     (if args = [] then
        (if int (length (items_of S a)) \<le> i64_max then answer (VInteger (int (length (items_of S a)))) S
         else refuse ''List.Count exceeds the supported Integer range'' S)
      else refuse ''List.Count expects no arguments'' S)"

definition list_get :: "nat \<Rightarrow> 'd val list \<Rightarrow> bool \<Rightarrow> 'd coll_store \<Rightarrow> 'd outcome" where
  "list_get a args statement S =
     (let items = items_of S a in
      if length args = 2 then
        (case list_index ''List.Get'' (take 1 args) (length items) of
           Inl e \<Rightarrow> refuse_or_false statement e S
         | Inr i \<Rightarrow> (ENormal (VBoolean True), [(1, items ! i)], S))
      else
        (case list_index ''List.Get'' args (length items) of
           Inl e \<Rightarrow> refuse e S
         | Inr i \<Rightarrow> answer (items ! i) S))"

definition list_removeat :: "nat \<Rightarrow> 'd val list \<Rightarrow> 'd coll_store \<Rightarrow> 'd outcome" where
  "list_removeat a args S =
     (let items = items_of S a in
      case list_index ''List.RemoveAt'' args (length items) of
        Inl e \<Rightarrow> refuse e S
      | Inr i \<Rightarrow> answer (VBoolean True) (release_cell a (element_bytes (items ! i)) (set_items a (take i items @ drop (Suc i) items) S)))"

definition list_set :: "nat \<Rightarrow> 'd val list \<Rightarrow> bool \<Rightarrow> 'd coll_store \<Rightarrow> 'd outcome" where
  "list_set a args statement S =
     (let items = items_of S a in
      if length args \<noteq> 2 \<and> length args \<noteq> 3
      then refuse ''List.Set expects an Integer index, a value and an optional var for the old value'' S
      else
        (case list_index ''List.Set'' (take 1 args) (length items) of
           Inl e \<Rightarrow> if length args = 2 then refuse e S else refuse_or_false statement e S
         | Inr i \<Rightarrow>
             (ENormal (VBoolean True), if length args = 3 then [(2, items ! i)] else [],
              release_cell a (element_bytes (items ! i)) (set_items a (items[i := args ! 1]) S))))"

definition list_insert :: "nat \<Rightarrow> 'd val list \<Rightarrow> 'd coll_store \<Rightarrow> 'd outcome" where
  "list_insert a args S =
     (let items = items_of S a in
      case args of
        [VInteger index, v] \<Rightarrow>
          if 1 \<le> index \<and> nat (index - 1) \<le> length items
          then answer (VBoolean True) (set_items a (take (nat (index - 1)) items @ v # drop (nat (index - 1)) items) S)
          else refuse (''List.Insert: index '' @ show_int index @ '' out of range 1..'' @ show_nat (length items + 1)) S
      | _ \<Rightarrow> refuse ''List.Insert expects an Integer index and one value'' S)"

definition list_method_on ::
  "nat \<Rightarrow> string option \<Rightarrow> string \<Rightarrow> 'd val list \<Rightarrow> bool \<Rightarrow> 'd coll_store \<Rightarrow> 'd outcome" where
  "list_method_on a member lower args statement S =
     (if lower = ''addrange'' then list_addrange a args S
      else if lower = ''getrange'' then list_getrange a member args S
      else if lower = ''removerange'' then list_removerange a args statement S
      else if lower = ''reverse'' then list_reverse a args S
      else if lower = ''lastindexof'' then refuse ''List.LastIndexOf expects exactly one value'' S
      else if lower = ''add'' then list_add a args S
      else if lower = ''count'' then list_count a args S
      else if lower = ''get'' then list_get a args statement S
      else if lower = ''contains'' then refuse ''List.Contains expects exactly one value'' S
      else if lower = ''indexof'' then refuse ''List.IndexOf expects exactly one value'' S
      else if lower = ''removeat'' then list_removeat a args S
      else if lower = ''remove'' then refuse ''List.Remove expects exactly one value'' S
      else if lower = ''set'' then list_set a args statement S
      else if lower = ''insert'' then list_insert a args S
      else refuse (''unsupported List method: '' @ lower) S)"

text \<open>The first position from the left, or from the right for \<open>LastIndexOf\<close>, where a cancelled thread stops at once.\<close>

definition find_position :: "('a \<Rightarrow> bool) \<Rightarrow> 'a list \<Rightarrow> nat option" where
  "find_position P xs = List.find (\<lambda>i. P (xs ! i)) [0..<length xs]"

definition rfind_position :: "('a \<Rightarrow> bool) \<Rightarrow> 'a list \<Rightarrow> nat option" where
  "rfind_position P xs = List.find (\<lambda>i. P (xs ! i)) (rev [0..<length xs])"

definition search_list :: "nat \<Rightarrow> string \<Rightarrow> 'd val \<Rightarrow> 'd coll_store \<Rightarrow> 'd outcome" where
  "search_list a lower needle S =
     (let E = st_env S; items = items_of S a;
          matches = (\<lambda>item. thread_cancelled E \<or> value_eq E item needle);
          position = (if lower = ''lastindexof'' then rfind_position matches items else find_position matches items)
      in if thread_cancelled E then refuse (''interpreter cancelled in List.'' @ lower) S
         else if lower = ''contains'' then answer (VBoolean (position \<noteq> None)) S
         else if lower = ''remove'' then
           (case position of
              Some i \<Rightarrow> answer (VBoolean True) (release_cell a (element_bytes (items ! i)) (set_items a (take i items @ drop (Suc i) items) S))
            | None \<Rightarrow> answer (VBoolean False) S)
         else
           (case position of
              None \<Rightarrow> answer (VInteger 0) S
            | Some i \<Rightarrow>
                if int (i + 1) \<le> i64_max then answer (VInteger (int (i + 1))) S
                else refuse ''List.IndexOf result exceeds the supported Integer range'' S))"

definition added_count :: "string \<Rightarrow> 'd val list \<Rightarrow> nat" where
  "added_count lower args = (if lower = ''addrange'' then length args else if lower \<in> {''add'', ''insert''} then 1 else 0)"

definition added_bytes :: "string \<Rightarrow> 'd val list \<Rightarrow> nat" where
  "added_bytes lower args =
     (if lower = ''addrange'' then items_bytes args
      else if lower = ''add'' \<and> length args = 1 then element_bytes (args ! 0)
      else if lower = ''insert'' \<and> length args = 2 \<or> lower = ''set'' \<and> 2 \<le> length args then element_bytes (args ! 1)
      else 0)"

definition added_for_good :: "'d eval \<Rightarrow> bool" where
  "added_for_good r \<longleftrightarrow> (case r of ENormal VEmpty \<Rightarrow> True | ENormal (VBoolean b) \<Rightarrow> b | _ \<Rightarrow> False)"

text \<open>A method that changes or reads the locked list, with the bytes of its addition counted before it runs.\<close>

definition locked_list_method ::
  "nat \<Rightarrow> string option \<Rightarrow> string \<Rightarrow> 'd val list \<Rightarrow> bool \<Rightarrow> 'd coll_store \<Rightarrow> 'd outcome" where
  "locked_list_method a member method args statement S =
     (let lower = to_ascii_lowercase method; operation = ''List.'' @ method; adding = added_bytes lower args in
      case check_collection_len operation (saturating_add (length (items_of S a)) (added_count lower args)) of
        Inl e \<Rightarrow> refuse e S
      | Inr _ \<Rightarrow>
          (case charge_cell operation a adding S of
             (Inl e, S) \<Rightarrow> refuse e S
           | (Inr _, S) \<Rightarrow>
               (let (r, back, S) = list_method_on a member lower args statement S in
                (r, back, if added_for_good r then S else release_cell a adding S))))"

definition dispatch_list_method :: "string \<Rightarrow> string \<Rightarrow> 'd val list \<Rightarrow> bool \<Rightarrow> 'd val option \<Rightarrow> 'd coll_store \<Rightarrow> 'd outcome" where
  "dispatch_list_method recv method args statement slot S =
     (let lower = to_ascii_lowercase method in
      case slot of
        None \<Rightarrow> refuse (''list variable '' @ quoted recv @ '' is not bound'') S
      | Some (VList a member _) \<Rightarrow>
          let args = (case args of
                [VList b other_member _] \<Rightarrow>
                  if lower = ''addrange'' \<and> adds_elements member other_member (items_of S b) then items_of S b else args
              | _ \<Rightarrow> args)
          in (case declared_elements (dec (st_env S)) lower member args of
                Inl e \<Rightarrow> refuse e S
              | Inr args \<Rightarrow>
                  if list_ex (\<lambda>v. case v of VList b _ _ \<Rightarrow> b = a | _ \<Rightarrow> False) args
                  then refuse (''List.'' @ method @ '' with the list itself as an argument is not supported by the local runtime'') S
                  else if lower \<in> {''contains'', ''indexof'', ''lastindexof'', ''remove''} \<and> length args = 1
                  then search_list a lower (args ! 0) S
                  else locked_list_method a member method args statement S)
      | Some _ \<Rightarrow> refuse (quoted recv @ '' is not a List'') S)"

section \<open>What the contents count\<close>

definition entries_bytes :: "(string \<times> 'd val \<times> 'd val) list \<Rightarrow> nat" where
  "entries_bytes es = sum_list (map (\<lambda>(key_text, key, v). entry_bytes key_text key v) es)"

text \<open>The bytes of the contents at an address, whichever of the three kinds they are.\<close>

definition contents_bytes :: "'d env \<Rightarrow> nat \<Rightarrow> nat" where
  "contents_bytes E a =
     items_bytes (contents_of (lists E) a) + entries_bytes (contents_of (dicts E) a) + str_len (contents_of (builders E) a)"

definition addresses :: "'d env \<Rightarrow> nat set" where
  "addresses E = fst ` set (lists E) \<union> fst ` set (dicts E) \<union> fst ` set (builders E)"

definition cells_sum :: "'d coll_store \<Rightarrow> nat" where
  "cells_sum S = sum_list (map snd (st_held S))"

text \<open>
  Every address counts exactly its contents, but \<open>a\<close>, which counts \<open>k\<close> bytes more: what a method has counted for an
  addition and not added yet, or removed and not given back yet.  The total is that of all addresses and of \<open>rest\<close>.
\<close>

definition owing :: "nat \<Rightarrow> nat \<Rightarrow> nat \<Rightarrow> 'd coll_store \<Rightarrow> bool" where
  "owing rest a k S \<longleftrightarrow>
     distinct (map fst (st_held S)) \<and> st_total S = rest + cells_sum S \<and> st_total S \<le> usize_max \<and>
     (\<forall>b. cell_bytes S b = contents_bytes (st_env S) b + (if b = a then k else 0)) \<and>
     a < st_next S \<and> (\<forall>b \<in> addresses (st_env S) \<union> fst ` set (st_held S). b < st_next S)"

definition store_ok :: "nat \<Rightarrow> 'd coll_store \<Rightarrow> bool" where
  "store_ok rest S \<longleftrightarrow>
     distinct (map fst (st_held S)) \<and> st_total S = rest + cells_sum S \<and> st_total S \<le> usize_max \<and>
     (\<forall>b. cell_bytes S b = contents_bytes (st_env S) b) \<and> (\<forall>b \<in> addresses (st_env S) \<union> fst ` set (st_held S). b < st_next S)"

lemma owing_ok: "a < st_next S \<Longrightarrow> owing rest a 0 S \<longleftrightarrow> store_ok rest S"
  by (simp add: owing_def store_ok_def)

lemma update_sum:
  "distinct (map fst m) \<Longrightarrow> sum_list (map snd (AList.update a n m)) + unwrap_or (map_of m a) 0 = sum_list (map snd m) + (n :: nat)"
proof (induction m)
  case (Cons x m)
  then show ?case by (cases x) (auto simp: unwrap_or_def)
qed (simp add: unwrap_or_def)

lemma cell_le_sum: "unwrap_or (map_of m a) 0 \<le> sum_list (map snd m :: nat list)"
  by (induction m) (auto simp: unwrap_or_def split: option.splits)

lemma keys_of_update: "fst ` set (AList.update a n m) = insert a (fst ` set m)"
  by (induction m) auto

lemma charge_owing:
  assumes "owing rest a k S" "charge_cell operation a bytes S = (Inr u, T)"
  shows "owing rest a (k + bytes) T \<and> st_env T = st_env S \<and> st_next T = st_next S \<and> st_total T = st_total S + bytes"
proof -
  obtain tot where h: "hold_bytes operation bytes (st_total S) = (Inr u, tot)"
    and T: "T = S\<lparr>st_total := tot, st_held := AList.update a ((cell_bytes S a + bytes) mod 2 ^ 64) (st_held S)\<rparr>"
    using assms(2) by (auto simp: charge_cell_def split: prod.splits sum.splits)
  have tot: "tot = st_total S + bytes" "tot \<le> usize_max"
    using hold_bytes_exact [OF _ h] hold_bytes_Ok [OF h] assms(1)
    by (auto simp: owing_def MAX_HELD_BYTES_def usize_max_def saturating_add_def)
  have "cell_bytes S a \<le> st_total S"
    using cell_le_sum [of "st_held S" a] assms(1) by (simp add: owing_def cell_bytes_def cells_sum_def)
  then have cell: "(cell_bytes S a + bytes) mod 2 ^ 64 = cell_bytes S a + bytes" using tot by (simp add: usize_max_def)
  have "cells_sum T = cells_sum S + bytes"
    using update_sum [of "st_held S" a "cell_bytes S a + bytes"] assms(1) unfolding T cell
    by (simp add: owing_def cells_sum_def cell_bytes_def)
  moreover have "cell_bytes T b = cell_bytes S b + (if b = a then bytes else 0)" for b
    unfolding T cell by (simp add: cell_bytes_def update_conv' unwrap_or_def)
  ultimately show ?thesis
    using assms(1) tot unfolding T cell by (auto simp: owing_def distinct_update keys_of_update)
qed

lemma release_owing:
  assumes "owing rest a k S" "bytes \<le> k"
  shows "owing rest a (k - bytes) (release_cell a bytes S) \<and> st_env (release_cell a bytes S) = st_env S \<and>
    st_next (release_cell a bytes S) = st_next S \<and> st_total (release_cell a bytes S) = st_total S - bytes"
proof -
  let ?T = "release_cell a bytes S"
  have cell: "cell_bytes S a = contents_bytes (st_env S) a + k" using assms(1) by (simp add: owing_def)
  have "cells_sum ?T + bytes = cells_sum S"
    using update_sum [of "st_held S" a "cell_bytes S a - bytes"] assms cell_le_sum [of "st_held S" a] cell
    by (simp add: owing_def cells_sum_def cell_bytes_def release_cell_def)
  moreover have "cell_bytes ?T b = cell_bytes S b - (if b = a then bytes else 0)" for b
    by (simp add: cell_bytes_def release_cell_def update_conv' unwrap_or_def)
  ultimately show ?thesis
    using assms cell by (auto simp: owing_def distinct_update keys_of_update release_cell_def release_held_bytes_def)
qed

lemma items_bytes_simps [simp]:
  "items_bytes [] = 0" "items_bytes (x # xs) = element_bytes x + items_bytes xs" "items_bytes (xs @ ys) = items_bytes xs + items_bytes ys"
  "items_bytes (rev xs) = items_bytes xs"
  by (simp_all add: items_bytes_def rev_map [symmetric] sum_list_rev)

lemma contents_of_update: "contents_of (AList.update a xs m) b = (if b = a then xs else contents_of m b)"
  by (simp add: contents_of_def update_conv')

lemma items_of_set [simp]: "items_of (set_items a xs S) b = (if b = a then xs else items_of S b)"
  by (simp add: items_of_def set_items_def contents_of_update)

lemma set_items_ok:
  assumes "owing rest a k S" "items_bytes xs \<le> items_bytes (items_of S a) + k"
  shows "owing rest a (items_bytes (items_of S a) + k - items_bytes xs) (set_items a xs S)"
  using assms
  by (auto simp: owing_def set_items_def contents_bytes_def contents_of_update items_of_def addresses_def keys_of_update
      cells_sum_def cell_bytes_def)

lemma fresh_contents:
  assumes "b \<notin> addresses E"
  shows "contents_bytes E b = 0"
proof -
  have "map_of (lists E) b = None" "map_of (dicts E) b = None" "map_of (builders E) b = None"
    using assms by (auto simp: addresses_def map_of_eq_None_iff)
  then show ?thesis by (simp add: contents_bytes_def contents_of_def entries_bytes_def str_len_def)
qed

lemma collection_new_ok:
  assumes "owing rest a k S" "collection_new xs member S = (v, T)" "st_total S + items_bytes xs \<le> usize_max"
  shows "owing rest a k T"
proof -
  have fresh: "st_next S \<notin> addresses (st_env S)" "st_next S \<notin> fst ` set (st_held S)" "st_next S \<noteq> a"
    using assms(1) by (auto simp: owing_def)
  have T: "T = S\<lparr>st_env := (st_env S)\<lparr>lists := (st_next S, xs) # lists (st_env S)\<rparr>, st_held := (st_next S, items_bytes xs) # st_held S,
         st_total := add_held_bytes (items_bytes xs) (st_total S), st_next := st_next S + 1\<rparr>"
    using assms(2) by (simp add: collection_new_def Let_def)
  have "contents_bytes (st_env T) b = (if b = st_next S then items_bytes xs else contents_bytes (st_env S) b)" for b
    using fresh_contents [OF fresh(1)] by (simp add: T contents_bytes_def contents_of_def)
  moreover have "cell_bytes T b = (if b = st_next S then items_bytes xs else cell_bytes S b)" for b
    by (simp add: T cell_bytes_def unwrap_or_def)
  moreover have addr: "addresses (st_env T) \<union> fst ` set (st_held T) = insert (st_next S) (addresses (st_env S) \<union> fst ` set (st_held S))"
    by (auto simp: T addresses_def)
  have "b < st_next T" if "b \<in> addresses (st_env T) \<union> fst ` set (st_held T)" for b
  proof -
    have "b = st_next S \<or> b < st_next S" using that assms(1) addr unfolding owing_def by blast
    then show ?thesis by (auto simp: T)
  qed
  ultimately show ?thesis
    using assms(1,3) fresh unfolding owing_def
    by (auto simp: T cells_sum_def add_held_bytes_def saturating_add_def)
qed

section \<open>Every method counts what it changes\<close>

text \<open>The contents at other addresses, as they were.\<close>

definition others_same :: "nat \<Rightarrow> 'd coll_store \<Rightarrow> 'd coll_store \<Rightarrow> bool" where
  "others_same a S T \<longleftrightarrow> st_next S \<le> st_next T \<and> dicts (st_env T) = dicts (st_env S) \<and> builders (st_env T) = builders (st_env S) \<and>
     (\<forall>b < st_next S. b \<noteq> a \<longrightarrow> items_of T b = items_of S b)"

lemma total_set_items [simp]: "st_total (set_items a xs S) = st_total S"
  by (simp add: set_items_def)

lemma others_same_refl [simp]: "others_same a S S"
  by (simp add: others_same_def)

lemma others_same_set [simp]: "others_same a S (set_items a xs S)"
  by (auto simp: others_same_def) (auto simp: set_items_def)

lemma others_same_release [simp]: "others_same a S (release_cell a n T) \<longleftrightarrow> others_same a S T"
  by (simp add: others_same_def release_cell_def items_of_def)

lemma others_same_trans: "others_same a S T \<Longrightarrow> others_same a T U \<Longrightarrow> others_same a S U"
  by (auto simp: others_same_def)

text \<open>
  What a method leaves of the \<open>k\<close> bytes counted for its addition: nothing when it added, all of them when it did not.
  An error and the answer false change no contents.
\<close>

definition settles :: "nat \<Rightarrow> nat \<Rightarrow> nat \<Rightarrow> 'd coll_store \<Rightarrow> 'd outcome \<Rightarrow> bool" where
  "settles rest a k S out \<longleftrightarrow>
     (case out of (r, back, T) \<Rightarrow>
        owing rest a (if added_for_good r then 0 else k) T \<and> others_same a S T \<and>
        ((\<exists>e. r = eval_error e) \<or> r = ENormal (VBoolean False) \<longrightarrow> T = S))"

lemma settles_refuse [simp]: "owing rest a k S \<Longrightarrow> settles rest a k S (refuse e S)"
  by (simp add: settles_def refuse_def added_for_good_def eval_error_def)

lemma settles_refuse_or_false [simp]: "owing rest a k S \<Longrightarrow> settles rest a k S (refuse_or_false statement e S)"
  by (simp add: refuse_or_false_def) (simp add: settles_def answer_def added_for_good_def)

lemma settles_read: "owing rest a 0 S \<Longrightarrow> settles rest a 0 S (ENormal v, back, S)"
  by (simp add: settles_def)

lemma settles_write:
  assumes "owing rest a 0 T" "others_same a S T" "v \<in> {VEmpty, VBoolean True}"
  shows "settles rest a k S (ENormal v, back, T)"
  using assms by (auto simp: settles_def added_for_good_def eval_error_def)

lemmas owing_set_release = release_owing [THEN conjunct1, OF set_items_ok]

lemma take_nth_drop_bytes: "i < length xs \<Longrightarrow> items_bytes xs = items_bytes (take i xs) + element_bytes (xs ! i) + items_bytes (drop (Suc i) xs)"
  by (subst id_take_nth_drop [of i xs]) simp_all

lemma owing_remove:
  assumes "owing rest a 0 S" "i < length (items_of S a)"
  shows "owing rest a 0 (release_cell a (element_bytes (items_of S a ! i))
     (set_items a (take i (items_of S a) @ drop (Suc i) (items_of S a)) S))"
  using owing_set_release [OF assms(1), of "take i (items_of S a) @ drop (Suc i) (items_of S a)" "element_bytes (items_of S a ! i)"]
    take_nth_drop_bytes [OF assms(2)] by simp

lemma list_index_in_range: "list_index method args n = Inr i \<Longrightarrow> i < n"
  by (auto simp: list_index_def split: list.splits val.splits if_splits)

lemma list_range_in_range: "list_range method args n = Inr (from', to') \<Longrightarrow> from' \<le> to' \<and> to' \<le> n"
  by (auto simp: list_range_def split: list.splits val.splits if_splits)

lemma settles_addrange:
  assumes "owing rest a (items_bytes args) S"
  shows "settles rest a (items_bytes args) S (list_addrange a args S)"
proof (cases "args = []")
  case False
  have "owing rest a 0 (set_items a (items_of S a @ args) S)" using set_items_ok [OF assms, of "items_of S a @ args"] by simp
  then show ?thesis using False by (simp add: list_addrange_def answer_def settles_write)
qed (use assms in \<open>simp add: list_addrange_def\<close>)

lemma settles_add:
  assumes "owing rest a (if length args = 1 then element_bytes (args ! 0) else 0) S"
  shows "settles rest a (if length args = 1 then element_bytes (args ! 0) else 0) S (list_add a args S)"
proof (cases "\<exists>v. args = [v]")
  case True
  then obtain v where v: "args = [v]" by blast
  have "owing rest a 0 (set_items a (items_of S a @ [v]) S)" using set_items_ok [of rest a "element_bytes v" S "items_of S a @ [v]"] assms by (simp add: v)
  then show ?thesis by (simp add: v list_add_def answer_def settles_write)
next
  case False
  then have "list_add a args S = refuse ''List.Add expects exactly one value'' S" by (auto simp: list_add_def split: list.split)
  then show ?thesis using assms by simp
qed

lemma settles_reverse: "owing rest a 0 S \<Longrightarrow> settles rest a 0 S (list_reverse a args S)"
  using set_items_ok [of rest a 0 S "rev (items_of S a)"] by (simp add: list_reverse_def answer_def settles_write)

lemma settles_count: "owing rest a 0 S \<Longrightarrow> settles rest a 0 S (list_count a args S)"
  by (simp add: list_count_def answer_def settles_read)

lemma settles_get: "owing rest a 0 S \<Longrightarrow> settles rest a 0 S (list_get a args statement S)"
  by (simp add: list_get_def Let_def answer_def settles_read split: sum.split)

lemma settles_removeat: "owing rest a 0 S \<Longrightarrow> settles rest a 0 S (list_removeat a args S)"
  by (auto simp: list_removeat_def Let_def answer_def owing_remove settles_write dest: list_index_in_range split: sum.split)

lemma settles_removerange:
  assumes "owing rest a 0 S"
  shows "settles rest a 0 S (list_removerange a args statement S)"
proof (cases "list_range ''List.RemoveRange'' args (length (items_of S a))")
  case (Inr range)
  then obtain lo hi where r: "list_range ''List.RemoveRange'' args (length (items_of S a)) = Inr (lo, hi)" by (cases range) auto
  let ?xs = "items_of S a"
  have "take hi ?xs = take lo ?xs @ drop lo (take hi ?xs)"
    using list_range_in_range [OF r] by (metis append_take_drop_id min.absorb1 take_take)
  then have "items_bytes ?xs = items_bytes (take lo ?xs) + items_bytes (drop lo (take hi ?xs)) + items_bytes (drop hi ?xs)"
    by (metis append_take_drop_id items_bytes_simps(3))
  then have "owing rest a 0 (release_cell a (items_bytes (drop lo (take hi ?xs))) (set_items a (take lo ?xs @ drop hi ?xs) S))"
    using owing_set_release [OF assms, of "take lo ?xs @ drop hi ?xs" "items_bytes (drop lo (take hi ?xs))"] by simp
  then show ?thesis by (simp add: r list_removerange_def Let_def answer_def settles_write)
qed (use assms in \<open>simp add: list_removerange_def\<close>)

lemma settles_set:
  assumes "owing rest a (if 2 \<le> length args then element_bytes (args ! 1) else 0) S"
  shows "settles rest a (if 2 \<le> length args then element_bytes (args ! 1) else 0) S (list_set a args statement S)"
proof (cases "(length args = 2 \<or> length args = 3) \<and> (\<exists>i. list_index ''List.Set'' (take 1 args) (length (items_of S a)) = Inr i)")
  case True
  then obtain i where i: "list_index ''List.Set'' (take 1 args) (length (items_of S a)) = Inr i" by blast
  let ?xs = "items_of S a" and ?v = "args ! 1"
  have "items_bytes (?xs[i := ?v]) + element_bytes (?xs ! i) = items_bytes ?xs + element_bytes ?v"
    using take_nth_drop_bytes [of i ?xs] list_index_in_range [OF i] by (simp add: upd_conv_take_nth_drop)
  then have "owing rest a 0 (release_cell a (element_bytes (?xs ! i)) (set_items a (?xs[i := ?v]) S))"
    using owing_set_release [OF assms, of "?xs[i := ?v]" "element_bytes (?xs ! i)"] True by auto
  then show ?thesis using True i by (auto simp: list_set_def Let_def settles_write)
next
  case False
  then show ?thesis using assms by (auto simp: list_set_def Let_def split: sum.split)
qed

lemma settles_insert:
  assumes "owing rest a (if length args = 2 then element_bytes (args ! 1) else 0) S"
  shows "settles rest a (if length args = 2 then element_bytes (args ! 1) else 0) S (list_insert a args S)"
proof (cases "\<exists>index v. args = [VInteger index, v] \<and> 1 \<le> index \<and> nat (index - 1) \<le> length (items_of S a)")
  case True
  then obtain index v where v: "args = [VInteger index, v]" "1 \<le> index" "nat (index - 1) \<le> length (items_of S a)" by blast
  let ?xs = "items_of S a" and ?i = "nat (index - 1)"
  have "items_bytes ?xs = items_bytes (take ?i ?xs) + items_bytes (drop ?i ?xs)" by (metis append_take_drop_id items_bytes_simps(3))
  then have "owing rest a 0 (set_items a (take ?i ?xs @ v # drop ?i ?xs) S)"
    using set_items_ok [OF assms, of "take ?i ?xs @ v # drop ?i ?xs"] by (simp add: v)
  then show ?thesis by (simp add: v list_insert_def Let_def answer_def settles_write)
next
  case False
  then show ?thesis using assms by (auto simp: list_insert_def Let_def split: list.split val.split)
qed

lemma items_le_total: "owing rest a k S \<Longrightarrow> items_bytes (items_of S b) \<le> st_total S"
  using cell_le_sum [of "st_held S" b]
  by (simp add: owing_def cells_sum_def cell_bytes_def contents_bytes_def items_of_def split: if_splits)

lemma settles_getrange:
  assumes "owing rest a 0 S" "2 * st_total S \<le> usize_max"
  shows "settles rest a 0 S (list_getrange a member args S)"
proof (cases "list_range ''List.GetRange'' args (length (items_of S a))")
  case (Inr range)
  then obtain lo hi where r: "list_range ''List.GetRange'' args (length (items_of S a)) = Inr (lo, hi)" by (cases range) auto
  let ?ys = "drop lo (take hi (items_of S a))"
  obtain T where n: "collection_new ?ys member S = (VList (st_next S) member None, T)" by (simp add: collection_new_def Let_def)
  have "items_bytes ?ys \<le> items_bytes (items_of S a)"
    by (metis append_take_drop_id items_bytes_simps(3) le_add1 le_add2 le_trans)
  then have "owing rest a 0 T"
    using collection_new_ok [OF assms(1) n] items_le_total [OF assms(1), of a] assms(2) by linarith
  moreover have "others_same a S T"
    using n by (auto simp: collection_new_def Let_def others_same_def items_of_def contents_of_def)
  ultimately show ?thesis using n by (simp add: r list_getrange_def answer_def settles_def added_for_good_def eval_error_def)
qed (use assms in \<open>simp add: list_getrange_def\<close>)

lemma settles_if:
  "(c \<Longrightarrow> settles rest a k S x) \<Longrightarrow> (\<not> c \<Longrightarrow> settles rest a k S y) \<Longrightarrow> settles rest a k S (if c then x else y)"
  by simp

lemma list_method_settles:
  assumes "owing rest a (added_bytes lower args) S" "2 * st_total S \<le> usize_max"
  shows "settles rest a (added_bytes lower args) S (list_method_on a member lower args statement S)"
  unfolding list_method_on_def
proof (intro settles_if)
qed (use assms in \<open>simp_all add: added_bytes_def One_nat_def [symmetric] settles_addrange settles_add settles_reverse settles_count settles_get
      settles_removeat settles_removerange settles_set settles_insert settles_getrange del: One_nat_def cong: if_cong split del: if_split\<close>)

lemma position_in_range:
  "find_position P xs = Some i \<Longrightarrow> i < length xs" "rfind_position P xs = Some i \<Longrightarrow> i < length xs"
  by (auto simp: find_position_def rfind_position_def find_Some_iff rev_nth)

lemma search_settles:
  assumes "owing rest a 0 S"
  shows "settles rest a 0 S (search_list a lower needle S)"
  unfolding search_list_def Let_def
proof (intro settles_if)
qed (use assms in \<open>auto simp: answer_def settles_read intro!: settles_write owing_remove dest: position_in_range
       split: option.split if_splits\<close>)

lemma release_undoes_charge:
  assumes "charge_cell operation a bytes S = (Inr u, T)" "owing rest a k S"
  shows "st_env (release_cell a bytes T) = st_env S \<and> st_total (release_cell a bytes T) = st_total S \<and> cell_bytes (release_cell a bytes T) = cell_bytes S"
proof -
  have T: "owing rest a (k + bytes) T" "st_env T = st_env S" "st_total T = st_total S + bytes" using charge_owing [OF assms(2,1)] by auto
  have R: "owing rest a k (release_cell a bytes T)" "st_env (release_cell a bytes T) = st_env T" "st_total (release_cell a bytes T) = st_total T - bytes"
    using release_owing [OF T(1), of bytes] by auto
  have "cell_bytes (release_cell a bytes T) b = cell_bytes S b" for b
    using R(1,2) T(2) assms(2) by (simp add: owing_def)
  then show ?thesis using R T by auto
qed

text \<open>The same for a whole method: the counts settle, and a refused method leaves every count and all contents.\<close>

definition settled :: "nat \<Rightarrow> nat \<Rightarrow> 'd coll_store \<Rightarrow> 'd outcome \<Rightarrow> bool" where
  "settled rest a S out \<longleftrightarrow>
     (case out of (r, back, T) \<Rightarrow>
        owing rest a 0 T \<and> others_same a S T \<and>
        ((\<exists>e. r = eval_error e) \<or> r = ENormal (VBoolean False) \<longrightarrow>
          st_env T = st_env S \<and> st_total T = st_total S \<and> cell_bytes T = cell_bytes S))"

lemma settles_settled: "settles rest a 0 S out \<Longrightarrow> settled rest a S out"
  by (auto simp: settles_def settled_def split: prod.splits)

lemma settled_refuse [simp]: "owing rest a 0 S \<Longrightarrow> settled rest a S (refuse e S)"
  by (simp add: settled_def refuse_def)

lemma charge_total:
  assumes "charge_cell operation a bytes S = (Inr u, T)" "2 * st_total S \<le> usize_max"
  shows "2 * st_total T \<le> usize_max"
  using assms hold_bytes_Ok [of operation bytes "st_total S"]
  by (auto simp: charge_cell_def saturating_add_def MAX_HELD_BYTES_def usize_max_def split: prod.splits sum.splits)

lemma charge_refused: "charge_cell operation a bytes S = (Inl e, T) \<Longrightarrow> T = S"
  by (auto simp: charge_cell_def dest: hold_bytes_Err split: prod.splits sum.splits)

lemma locked_settled:
  assumes "owing rest a 0 S" "2 * st_total S \<le> usize_max"
  shows "settled rest a S (locked_list_method a member method args statement S)"
proof -
  let ?lower = "to_ascii_lowercase method" and ?op = "''List.'' @ method"
  let ?n = "added_bytes ?lower args"
  have "settled rest a S (let (r, back, T) = list_method_on a member ?lower args statement S1 in
      (r, back, if added_for_good r then T else release_cell a ?n T))"
    if ch: "charge_cell ?op a ?n S = (Inr u, S1)" for u S1
  proof -
    have S1: "owing rest a ?n S1" "st_env S1 = st_env S" "st_next S1 = st_next S" using charge_owing [OF assms(1) ch] by auto
    obtain r wb T where m: "list_method_on a member ?lower args statement S1 = (r, wb, T)" by (metis prod_cases3)
    have "settles rest a ?n S1 (r, wb, T)" using list_method_settles [OF S1(1) charge_total [OF ch assms(2)]] m by metis
    then have T: "owing rest a (if added_for_good r then 0 else ?n) T" "others_same a S1 T"
      "(\<exists>e. r = eval_error e) \<or> r = ENormal (VBoolean False) \<longrightarrow> T = S1"
      by (auto simp: settles_def)
    have "others_same a S T" using T(2) S1(2,3) by (simp add: others_same_def items_of_def)
    then show ?thesis
      using T release_owing [of rest a ?n T ?n] release_undoes_charge [OF ch assms(1)]
      by (auto simp: m settled_def added_for_good_def eval_error_def)
  qed
  then show ?thesis
    using assms(1) by (auto simp: locked_list_method_def Let_def dest: charge_refused split: sum.split prod.split)
qed

text \<open>
  C9: A call of a List method leaves every list, dictionary and text builder counted at exactly the bytes of its contents, and
  the total of the test at their sum, whichever method it is and whatever its outcome.  It touches no contents but
  the list's own.  A call that fails, or answers false, leaves the contents, the total and every count as they were.
\<close>

theorem list_methods_keep_counts:
  assumes "store_ok rest S" "2 * st_total S \<le> usize_max" "a < st_next S"
    and run: "dispatch_list_method recv method args statement (Some (VList a member vt)) S = (r, wb, T)"
  shows "store_ok rest T \<and> others_same a S T \<and>
    ((\<exists>e. r = eval_error e) \<or> r = ENormal (VBoolean False) \<longrightarrow>
      st_env T = st_env S \<and> st_total T = st_total S \<and> cell_bytes T = cell_bytes S)"
proof -
  have S: "owing rest a 0 S" using assms(1,3) owing_ok by blast
  have "settled rest a S (dispatch_list_method recv method args statement (Some (VList a member vt)) S)"
    by (simp add: dispatch_list_method_def Let_def S settles_settled [OF search_settles] locked_settled [OF S assms(2)] split: sum.split)
  then have T: "owing rest a 0 T" "others_same a S T"
    "(\<exists>e. r = eval_error e) \<or> r = ENormal (VBoolean False) \<longrightarrow>
      st_env T = st_env S \<and> st_total T = st_total S \<and> cell_bytes T = cell_bytes S"
    unfolding run settled_def by auto
  have "a < st_next T" using T(2) assms(3) by (simp add: others_same_def)
  then show ?thesis using T owing_ok by blast
qed

lemma charge_nothing: "charge_cell operation a 0 S = (Inr (), S\<lparr>st_total := saturating_add (st_total S) 0, st_held := AList.update a (cell_bytes S a mod 2 ^ 64) (st_held S)\<rparr>)"
  by (simp add: charge_cell_def hold_bytes_def Let_def)

lemma items_of_charge: "charge_cell operation a bytes S = (x, T) \<Longrightarrow> items_of T = items_of S"
  by (auto simp: charge_cell_def items_of_def fun_eq_iff split: prod.splits sum.splits)

lemma items_of_release [simp]: "items_of (release_cell a n S) = items_of S"
  by (simp add: release_cell_def items_of_def fun_eq_iff)

definition sample_store :: "mantissa coll_store" where
  "sample_store = \<lparr>st_env = sample_env\<lparr>lists := [(0, [VText ''ab''])]\<rparr>, st_held = [(0, element_bytes (VText ''ab'' :: mantissa val))],
     st_total = element_bytes (VText ''ab'' :: mantissa val), st_next = 1\<rparr>"

lemma sample_lengths: "str_len ''ab'' = 2" "str_len ''c'' = 1"
  by code_simp+

lemma sample_items: "items_of sample_store 0 = [VText ''ab'']"
  by (simp add: items_of_def sample_store_def contents_of_def)

lemma sample_store_ok: "store_ok 0 sample_store \<and> 2 * st_total sample_store \<le> usize_max"
proof
  have small: "element_bytes (VText ''ab'' :: mantissa val) = VALUE_SIZE + 2"
    by (simp add: element_bytes_def saturating_add_def VALUE_SIZE_def usize_max_def sample_lengths)
  show "store_ok 0 sample_store" "2 * st_total sample_store \<le> usize_max"
    by (auto simp: store_ok_def sample_store_def cells_sum_def contents_bytes_def contents_of_def cell_bytes_def unwrap_or_def
        addresses_def entries_bytes_def str_len_def small VALUE_SIZE_def usize_max_def)
qed

lemma lower_names: "to_ascii_lowercase ''Insert'' = ''insert''" "to_ascii_lowercase ''RemoveAt'' = ''removeat''"
  by code_simp+

lemma declared_insert:
  "declared_elements D ''insert'' member [VInteger i, v] =
     (case declared_member D v member of Inl e \<Rightarrow> Inl e | Inr w \<Rightarrow> Inr [VInteger i, w])"
  by (simp add: declared_elements_def element_positions_def split: sum.split)

lemma declared_removeat: "declared_elements D ''removeat'' member [VInteger i] = Inr [VInteger i]"
  by (simp add: declared_elements_def element_positions_def)

lemma method_insert: "list_method_on a member ''insert'' args statement S = list_insert a args S"
  by (simp add: list_method_on_def)

lemma method_removeat: "list_method_on a member ''removeat'' args statement S = list_removeat a args S"
  by (simp add: list_method_on_def)

lemma dispatch_insert:
  "dispatch_list_method recv ''Insert'' [VInteger i, v] statement (Some (VList a member vt)) S =
     (case declared_member (dec (st_env S)) v member of
        Inl e \<Rightarrow> refuse e S
      | Inr w \<Rightarrow>
          if (case w of VList b _ _ \<Rightarrow> b = a | _ \<Rightarrow> False)
          then refuse ''List.Insert with the list itself as an argument is not supported by the local runtime'' S
          else locked_list_method a member ''Insert'' [VInteger i, w] statement S)"
  by (simp add: dispatch_list_method_def Let_def lower_names declared_insert split: sum.split)

lemma dispatch_removeat:
  "dispatch_list_method recv ''RemoveAt'' [VInteger i] statement (Some (VList a member vt)) S =
     locked_list_method a member ''RemoveAt'' [VInteger i] statement S"
  by (simp add: dispatch_list_method_def Let_def lower_names declared_removeat)

lemma insert_result:
  assumes "locked_list_method a member ''Insert'' [VInteger i, w] statement S = (ENormal (VBoolean True), wb, T)"
  shows "\<exists>S1 u. charge_cell ''List.Insert'' a (element_bytes w) S = (Inr u, S1) \<and> 1 \<le> i \<and> nat (i - 1) \<le> length (items_of S a) \<and>
    saturating_add (length (items_of S a)) 1 \<le> MAX_COLLECTION_LEN \<and>
    T = set_items a (take (nat (i - 1)) (items_of S a) @ w # drop (nat (i - 1)) (items_of S a)) S1"
proof -
  have add: "added_count ''insert'' xs = 1" "added_bytes ''insert'' [VInteger i, w] = element_bytes w" for xs :: "'a val list"
    by (simp_all add: added_count_def added_bytes_def)
  show ?thesis
    using assms
    by (auto simp: locked_list_method_def Let_def lower_names add method_insert list_insert_def check_collection_len_def
        refuse_def answer_def eval_error_def added_for_good_def dest: items_of_charge split: sum.splits if_splits prod.splits)
qed

lemma removeat_result:
  assumes "1 \<le> i" "nat (i - 1) < length (items_of T a)" "length (items_of T a) \<le> MAX_COLLECTION_LEN" "owing rest a 0 T"
  shows "\<exists>U. locked_list_method a member ''RemoveAt'' [VInteger i] statement T = (ENormal (VBoolean True), [], U) \<and>
    items_of U a = take (nat (i - 1)) (items_of T a) @ drop (Suc (nat (i - 1))) (items_of T a) \<and>
    st_total U = st_total T - element_bytes (items_of T a ! nat (i - 1))"
proof -
  let ?xs = "items_of T a" and ?p = "nat (i - 1)"
  obtain T1 where ch: "charge_cell ''List.RemoveAt'' a 0 T = (Inr (), T1)" using charge_nothing by blast
  have T1: "owing rest a 0 T1" "st_total T1 = st_total T" "items_of T1 = items_of T"
    using charge_owing [OF assms(4) ch] items_of_charge [OF ch] by auto
  let ?U = "release_cell a (element_bytes (?xs ! ?p)) (set_items a (take ?p ?xs @ drop (Suc ?p) ?xs) T1)"
  have add: "added_count ''removeat'' args = 0" "added_bytes ''removeat'' args = 0" for args :: "'a val list"
    by (simp_all add: added_count_def added_bytes_def)
  have fits: "saturating_add (length ?xs) 0 \<le> MAX_COLLECTION_LEN" using assms(3) by (simp add: saturating_add_def)
  have idx: "list_index ''List.RemoveAt'' [VInteger i] (length ?xs) = Inr ?p" using assms by (simp add: list_index_def)
  have "locked_list_method a member ''RemoveAt'' [VInteger i] statement T = (ENormal (VBoolean True), [], ?U)"
    by (simp add: locked_list_method_def Let_def lower_names add ch method_removeat list_removeat_def T1 idx
        answer_def added_for_good_def check_collection_len_def fits)
  moreover have owed: "owing rest a (element_bytes (?xs ! ?p)) (set_items a (take ?p ?xs @ drop (Suc ?p) ?xs) T1)"
    using set_items_ok [OF T1(1), of "take ?p ?xs @ drop (Suc ?p) ?xs"] take_nth_drop_bytes [OF assms(2)] by (simp add: T1)
  have "st_total ?U = st_total T - element_bytes (?xs ! ?p)" using release_owing [OF owed order_refl] T1(2) by simp
  moreover have "items_of ?U a = take ?p ?xs @ drop (Suc ?p) ?xs" by simp
  ultimately show ?thesis by blast
qed

text \<open>
  RemoveAt at the position of a successful Insert takes the element out again: the list and the total of the test
  are what they were before.
\<close>

theorem insert_then_remove:
  assumes "store_ok rest S" "2 * st_total S \<le> usize_max" "a < st_next S"
    and ins: "dispatch_list_method recv ''Insert'' [VInteger i, v] statement (Some (VList a member vt)) S = (ENormal (VBoolean True), wb, T)"
  shows "\<exists>U. dispatch_list_method recv ''RemoveAt'' [VInteger i] again (Some (VList a member vt)) T = (ENormal (VBoolean True), [], U) \<and>
    items_of U a = items_of S a \<and> st_total U = st_total S"
proof -
  let ?xs = "items_of S a" and ?p = "nat (i - 1)"
  have S: "owing rest a 0 S" using assms(1,3) owing_ok by blast
  obtain w where w: "locked_list_method a member ''Insert'' [VInteger i, w] statement S = (ENormal (VBoolean True), wb, T)"
    using ins by (auto simp: dispatch_insert refuse_def eval_error_def split: sum.splits if_splits)
  obtain S1 u where ch: "charge_cell ''List.Insert'' a (element_bytes w) S = (Inr u, S1)" and i: "1 \<le> i" "?p \<le> length ?xs"
    and len: "saturating_add (length ?xs) 1 \<le> MAX_COLLECTION_LEN" and T: "T = set_items a (take ?p ?xs @ w # drop ?p ?xs) S1"
    using insert_result [OF w] by blast
  have items: "items_of T a = take ?p ?xs @ w # drop ?p ?xs" and total: "st_total T = st_total S + element_bytes w"
    using charge_owing [OF S ch] by (simp_all add: T)
  have "owing rest a 0 T"
    using set_items_ok [OF charge_owing [OF S ch, THEN conjunct1], of "take ?p ?xs @ w # drop ?p ?xs"] items_of_charge [OF ch] i(2)
    by (simp add: T items_bytes_simps(3) [symmetric])
  moreover have "length (items_of T a) \<le> MAX_COLLECTION_LEN"
    using len i(2) by (simp add: items saturating_add_def MAX_COLLECTION_LEN_def usize_max_def min_def split: if_splits)
  ultimately show ?thesis
    using removeat_result [OF i(1), of T a rest member again] i(2)
    by (auto simp: dispatch_removeat items total nth_append)
qed

lemma sample_insert:
  "\<exists>T. dispatch_list_method ''L'' ''Insert'' [VInteger 1, VText ''c''] True (Some (VList 0 None None)) sample_store =
      (ENormal (VBoolean True), [], T) \<and> items_of T 0 = [VText ''c'', VText ''ab'']"
proof -
  have items: "items_of sample_store 0 = [VText ''ab'']" by (rule sample_items)
  have "element_bytes (VText ''c'' :: mantissa val) = VALUE_SIZE + 1"
    by (simp add: element_bytes_def saturating_add_def VALUE_SIZE_def usize_max_def sample_lengths)
  moreover have "st_total sample_store = VALUE_SIZE + 2"
    by (simp add: sample_store_def element_bytes_def saturating_add_def VALUE_SIZE_def usize_max_def sample_lengths)
  ultimately obtain S1 where ch: "charge_cell ''List.Insert'' 0 (element_bytes (VText ''c'' :: mantissa val)) sample_store = (Inr (), S1)"
    by (simp add: charge_cell_def hold_bytes_def saturating_add_def VALUE_SIZE_def usize_max_def MAX_HELD_BYTES_def)
  have add: "added_count ''insert'' [VInteger 1, VText ''c'' :: mantissa val] = 1"
    "added_bytes ''insert'' [VInteger 1, VText ''c'' :: mantissa val] = element_bytes (VText ''c'' :: mantissa val)"
    by (simp_all add: added_count_def added_bytes_def)
  show ?thesis
    using items_of_charge [OF ch] items
    by (simp add: dispatch_insert declared_member_def locked_list_method_def Let_def lower_names add ch method_insert
        list_insert_def check_collection_len_def answer_def added_for_good_def saturating_add_def MAX_COLLECTION_LEN_def usize_max_def)
qed

lemma list_methods_keep_counts_witness:
  "\<exists>T. dispatch_list_method ''L'' ''Insert'' [VInteger 1, VText ''c''] True (Some (VList 0 None None)) sample_store =
      (ENormal (VBoolean True), [], T) \<and> store_ok 0 T \<and> items_of T 0 = [VText ''c'', VText ''ab'']"
proof -
  obtain T where T: "dispatch_list_method ''L'' ''Insert'' [VInteger 1, VText ''c''] True (Some (VList 0 None None)) sample_store =
      (ENormal (VBoolean True), [], T)" "items_of T 0 = [VText ''c'', VText ''ab'']"
    using sample_insert by blast
  have "store_ok 0 T" using list_methods_keep_counts [OF _ _ _ T(1), of 0] sample_store_ok by (simp add: sample_store_def)
  then show ?thesis using T by blast
qed

lemma insert_then_remove_witness:
  "\<exists>T U. items_of T 0 = [VText ''c'', VText ''ab''] \<and> items_of U 0 = [VText ''ab'' :: mantissa val] \<and>
     dispatch_list_method ''L'' ''RemoveAt'' [VInteger 1] True (Some (VList 0 None None)) T = (ENormal (VBoolean True), [], U)"
proof -
  obtain T where T: "dispatch_list_method ''L'' ''Insert'' [VInteger 1, VText ''c''] True (Some (VList 0 None None)) sample_store =
      (ENormal (VBoolean True), [], T)" "items_of T 0 = [VText ''c'', VText ''ab'']"
    using sample_insert by blast
  have "items_of sample_store 0 = [VText ''ab'']" by (rule sample_items)
  moreover have "0 < st_next sample_store" by (simp add: sample_store_def)
  ultimately show ?thesis using insert_then_remove [OF _ _ _ T(1), of 0 True] sample_store_ok T(2) by auto
qed

end
