(* ===== verification/Dict_Methods.thy ===== *)
theory Dict_Methods
  imports List_Methods
begin

text \<open>
  The methods of a \<open>Dictionary of [K, V]\<close>, \<^verbatim>\<open>interpreter/records/collection_methods.rs\<close>, on the store of \<open>List_Methods\<close>.
  The entries of a dictionary are an association list in insertion order, from the text of a key to the key and its
  value: a key that is set again keeps its place, and a removed one closes the gap.
\<close>

section \<open>Keys and entries\<close>

definition dict_key :: "'d decimal_ops \<Rightarrow> 'd val \<Rightarrow> string + string" where
  "dict_key D v =
     (case v of
        VText s \<Rightarrow> Ok s
      | VCode s \<Rightarrow> Ok (to_uppercase s)
      | VInteger n \<Rightarrow> Ok (show_int n)
      | VBigInteger n \<Rightarrow> Ok (show_int n)
      | VDecimal d \<Rightarrow> Ok (dec_show D (dec_normalize D d))
      | VBoolean b \<Rightarrow> Ok (if b then ''true'' else ''false'')
      | VDate d \<Rightarrow> Ok (CHR ''D'' # show_int d)
      | VTime t \<Rightarrow> Ok (CHR ''T'' # show_int t)
      | VDateTime dt \<Rightarrow> Ok (''DT'' @ show_int dt)
      | VGuid g \<Rightarrow> Ok (to_uppercase g)
      | VChar c \<Rightarrow> Ok (CHR ''C'' # [c])
      | VOption enum_name _ ordinal \<Rightarrow> Ok (CHR ''O'' # to_ascii_lowercase enum_name @ '':'' @ show_int ordinal)
      | other \<Rightarrow> Err (''Dictionary keys of type '' @ type_name other @ '' are not supported by the local runtime''))"

type_synonym 'd entries = "(string \<times> 'd val \<times> 'd val) list"

definition dict_entries :: "'d coll_store \<Rightarrow> nat \<Rightarrow> 'd entries" where
  "dict_entries S a = contents_of (dicts (st_env S)) a"

definition set_entries :: "nat \<Rightarrow> 'd entries \<Rightarrow> 'd coll_store \<Rightarrow> 'd coll_store" where
  "set_entries a es S = S\<lparr>st_env := (st_env S)\<lparr>dicts := AList.update a es (dicts (st_env S))\<rparr>\<rparr>"

definition dict_lookup :: "string \<Rightarrow> 'd val \<Rightarrow> 'd val option \<Rightarrow> 'd coll_store \<Rightarrow> string + 'd val option" where
  "dict_lookup recv key slot S =
     (case slot of
        Some (VDict a member _) \<Rightarrow>
          bind_res (declared_member (dec (st_env S)) key member) (\<lambda>key.
          bind_res (dict_key (dec (st_env S)) key) (\<lambda>t.
          Ok (map_option snd (map_of (dict_entries S a) t))))
      | _ \<Rightarrow> Err (quoted recv @ '' is not a Dictionary''))"


section \<open>Methods\<close>

text \<open>A method that reads the text of a key first.\<close>

definition with_key :: "'d val \<Rightarrow> (string \<Rightarrow> 'd outcome) \<Rightarrow> 'd coll_store \<Rightarrow> 'd outcome" where
  "with_key key f S = (case dict_key (dec (st_env S)) key of Inl e \<Rightarrow> refuse e S | Inr t \<Rightarrow> f t)"

definition dict_add :: "nat \<Rightarrow> 'd val list \<Rightarrow> 'd coll_store \<Rightarrow> 'd outcome" where
  "dict_add a args S =
     (case args of
        [key, v] \<Rightarrow>
          with_key key (\<lambda>t.
            if map_of (dict_entries S a) t \<noteq> None then refuse ''Dictionary.Add: the key already exists'' S
            else case charge_cell ''Dictionary.Add'' a (entry_bytes t key v) S of
                (Inl e, S) \<Rightarrow> refuse e S
              | (Inr _, S) \<Rightarrow> answer VEmpty (set_entries a (AList.update t (key, v) (dict_entries S a)) S)) S
      | _ \<Rightarrow> refuse ''Dictionary.Add expects exactly a key and a value'' S)"

definition dict_set :: "nat \<Rightarrow> 'd val list \<Rightarrow> 'd coll_store \<Rightarrow> 'd outcome" where
  "dict_set a args S =
     (case args of
        key # v # rest \<Rightarrow>
          if length rest \<le> 1 then
            with_key key (\<lambda>t.
              case charge_cell ''Dictionary.Set'' a (entry_bytes t key v) S of
                (Inl e, S) \<Rightarrow> refuse e S
              | (Inr _, S) \<Rightarrow>
                  let old = map_of (dict_entries S a) t; S = set_entries a (AList.update t (key, v) (dict_entries S a)) S;
                      S = (case old of Some (k, w) \<Rightarrow> release_cell a (entry_bytes t k w) S | None \<Rightarrow> S)
                  in if rest = [] then answer VEmpty S
                     else case old of
                         Some (_, w) \<Rightarrow> (ENormal (VBoolean True), [(2, w)], S)
                       | None \<Rightarrow> answer (VBoolean False) S) S
          else refuse ''Dictionary.Set expects a key, a value and an optional var for the old value'' S
      | _ \<Rightarrow> refuse ''Dictionary.Set expects a key, a value and an optional var for the old value'' S)"

definition dict_get :: "nat \<Rightarrow> 'd val list \<Rightarrow> 'd coll_store \<Rightarrow> 'd outcome" where
  "dict_get a args S =
     (case args of
        [key] \<Rightarrow>
          with_key key (\<lambda>t.
            case map_of (dict_entries S a) t of
              Some (_, v) \<Rightarrow> answer v S
            | None \<Rightarrow> refuse ''Dictionary.Get: the key does not exist'' S) S
      | _ \<Rightarrow> refuse (''Dictionary.Get with a var out-parameter requires live BC; '' @
                ''only the one-argument returning form runs locally'') S)"

definition dict_containskey :: "nat \<Rightarrow> 'd val list \<Rightarrow> 'd coll_store \<Rightarrow> 'd outcome" where
  "dict_containskey a args S =
     (case args of
        [key] \<Rightarrow> with_key key (\<lambda>t. answer (VBoolean (map_of (dict_entries S a) t \<noteq> None)) S) S
      | _ \<Rightarrow> refuse ''Dictionary.ContainsKey expects exactly one key'' S)"

definition dict_remove :: "nat \<Rightarrow> 'd val list \<Rightarrow> 'd coll_store \<Rightarrow> 'd outcome" where
  "dict_remove a args S =
     (case args of
        [key] \<Rightarrow>
          with_key key (\<lambda>t.
            case map_of (dict_entries S a) t of
              Some (k, v) \<Rightarrow>
                answer (VBoolean True) (release_cell a (entry_bytes t k v) (set_entries a (AList.delete t (dict_entries S a)) S))
            | None \<Rightarrow> answer (VBoolean False) S) S
      | _ \<Rightarrow> refuse ''Dictionary.Remove expects exactly one key'' S)"

definition dict_count :: "nat \<Rightarrow> 'd val list \<Rightarrow> 'd coll_store \<Rightarrow> 'd outcome" where
  "dict_count a args S =
     (if args \<noteq> [] then refuse ''Dictionary.Count expects no arguments'' S
      else if int (length (dict_entries S a)) \<le> i64_max then answer (VInteger (int (length (dict_entries S a)))) S
      else refuse ''Dictionary.Count exceeds the supported Integer range'' S)"

definition dict_keys :: "nat \<Rightarrow> string option \<Rightarrow> 'd val list \<Rightarrow> 'd coll_store \<Rightarrow> 'd outcome" where
  "dict_keys a member args S =
     (if args \<noteq> [] then refuse ''Dictionary.Keys expects no arguments'' S
      else let (v, S) = collection_new (map (\<lambda>(_, k, _). k) (dict_entries S a)) member S in answer v S)"

definition dict_values :: "nat \<Rightarrow> string option \<Rightarrow> 'd val list \<Rightarrow> 'd coll_store \<Rightarrow> 'd outcome" where
  "dict_values a value_type args S =
     (if args \<noteq> [] then refuse ''Dictionary.Values expects no arguments'' S
      else let (v, S) = collection_new (map (\<lambda>(_, _, v). v) (dict_entries S a)) value_type S in answer v S)"

text \<open>The length check of an addition, which a Set of a key that is there passes.\<close>

definition dict_room :: "nat \<Rightarrow> string \<Rightarrow> string \<Rightarrow> 'd val list \<Rightarrow> 'd coll_store \<Rightarrow> string + unit" where
  "dict_room a method lower args S =
     (if lower \<in> {''add'', ''set''} then
        (case check_collection_len (''Dictionary.'' @ method) (saturating_add (length (dict_entries S a)) 1) of
           Inr u \<Rightarrow> Inr u
         | Inl e \<Rightarrow>
             let replaces = lower = ''set'' \<and>
                   (case args of
                      [] \<Rightarrow> False
                    | key # _ \<Rightarrow> (case dict_key (dec (st_env S)) key of Inl _ \<Rightarrow> False | Inr t \<Rightarrow> map_of (dict_entries S a) t \<noteq> None))
             in if replaces then Ok () else Err e)
      else Ok ())"

definition dict_method_on ::
  "nat \<Rightarrow> string option \<Rightarrow> string option \<Rightarrow> string \<Rightarrow> 'd val list \<Rightarrow> 'd coll_store \<Rightarrow> 'd outcome" where
  "dict_method_on a member value_type lower args S =
     (if lower = ''add'' then dict_add a args S
      else if lower = ''set'' then dict_set a args S
      else if lower = ''get'' then dict_get a args S
      else if lower = ''containskey'' then dict_containskey a args S
      else if lower = ''remove'' then dict_remove a args S
      else if lower = ''count'' then dict_count a args S
      else if lower = ''keys'' then dict_keys a member args S
      else if lower = ''values'' then dict_values a value_type args S
      else refuse (''unsupported Dictionary method: '' @ lower) S)"

text \<open>The key argument, converted to the declared key type.\<close>

definition declared_key :: "'d decimal_ops \<Rightarrow> string \<Rightarrow> string option \<Rightarrow> 'd val list \<Rightarrow> string + 'd val list" where
  "declared_key D lower member args =
     (case args of
        key # rest \<Rightarrow>
          if lower \<in> {''add'', ''set'', ''get'', ''containskey'', ''remove''}
          then bind_res (declared_member D key member) (\<lambda>key. Ok (key # rest)) else Ok args
      | [] \<Rightarrow> Ok [])"

definition dispatch_dict_method :: "string \<Rightarrow> string \<Rightarrow> 'd val list \<Rightarrow> 'd val option \<Rightarrow> 'd coll_store \<Rightarrow> 'd outcome" where
  "dispatch_dict_method recv method args slot S =
     (let lower = to_ascii_lowercase method in
      case slot of
        None \<Rightarrow> refuse (''dictionary variable '' @ quoted recv @ '' is not bound'') S
      | Some (VDict a member value_type) \<Rightarrow>
          (case declared_key (dec (st_env S)) lower member args of
             Inl e \<Rightarrow> refuse e S
           | Inr args \<Rightarrow>
               (case dict_room a method lower args S of
                  Inl e \<Rightarrow> refuse e S
                | Inr _ \<Rightarrow> dict_method_on a member value_type lower args S))
      | Some _ \<Rightarrow> refuse (quoted recv @ '' is not a Dictionary'') S)"

section \<open>Every method counts what it changes\<close>

lemma entries_bytes_simps [simp]: "entries_bytes [] = 0" "entries_bytes ((t, k, v) # es) = entry_bytes t k v + entries_bytes es"
  by (simp_all add: entries_bytes_def)

lemma entries_bytes_update:
  "entries_bytes (AList.update t (k, v) es) + (case map_of es t of Some (k', w) \<Rightarrow> entry_bytes t k' w | None \<Rightarrow> 0) =
     entries_bytes es + entry_bytes t k v"
  by (induction es) (auto split: option.splits)

lemma entries_bytes_delete:
  "distinct (map fst es) \<Longrightarrow> map_of es t = Some (k, v) \<Longrightarrow> entries_bytes (AList.delete t es) + entry_bytes t k v = entries_bytes es"
proof (induction es)
  case (Cons x es)
  have none: "AList.delete t es = es" if "t \<notin> fst ` set es" using that by (induction es) auto
  show ?case using Cons none by (cases x) (auto simp: rev_image_eqI)
qed simp

lemma entries_of_set [simp]: "dict_entries (set_entries a es S) b = (if b = a then es else dict_entries S b)"
  by (simp add: dict_entries_def set_entries_def contents_of_update)

lemma set_entries_ok:
  assumes "owing rest a k S" "entries_bytes es \<le> entries_bytes (dict_entries S a) + k"
  shows "owing rest a (entries_bytes (dict_entries S a) + k - entries_bytes es) (set_entries a es S)"
  using assms
  by (auto simp: owing_def set_entries_def contents_bytes_def contents_of_update dict_entries_def addresses_def keys_of_update
      cells_sum_def cell_bytes_def)

lemma total_set_entries [simp]: "st_total (set_entries a es S) = st_total S" "st_next (set_entries a es S) = st_next S"
  by (simp_all add: set_entries_def)

lemma items_of_set_entries [simp]: "items_of (set_entries a es S) = items_of S"
  by (simp add: set_entries_def items_of_def fun_eq_iff)

lemma entries_of_charge: "charge_cell operation a bytes S = (x, T) \<Longrightarrow> dict_entries T = dict_entries S"
  by (auto simp: charge_cell_def dict_entries_def fun_eq_iff split: prod.splits sum.splits)

lemma entries_of_release [simp]: "dict_entries (release_cell a n S) = dict_entries S"
  by (simp add: release_cell_def dict_entries_def fun_eq_iff)

text \<open>What a method of the dictionary at \<open>a\<close> leaves alone: the other dictionaries, and every list there was.\<close>

definition others_kept :: "nat \<Rightarrow> 'd coll_store \<Rightarrow> 'd coll_store \<Rightarrow> bool" where
  "others_kept a S T \<longleftrightarrow> st_next S \<le> st_next T \<and> builders (st_env T) = builders (st_env S) \<and>
     (\<forall>b < st_next S. items_of T b = items_of S b) \<and> (\<forall>b. b \<noteq> a \<longrightarrow> dict_entries T b = dict_entries S b)"

definition dict_settled :: "nat \<Rightarrow> nat \<Rightarrow> 'd coll_store \<Rightarrow> 'd outcome \<Rightarrow> bool" where
  "dict_settled rest a S out \<longleftrightarrow>
     (case out of (r, back, T) \<Rightarrow>
        owing rest a 0 T \<and> distinct (map fst (dict_entries T a)) \<and> others_kept a S T \<and> ((\<exists>e. r = eval_error e) \<longrightarrow> T = S))"

lemma builders_kept [simp]:
  "builders (st_env (release_cell a n S)) = builders (st_env S)" "builders (st_env (set_entries a es S)) = builders (st_env S)"
  "st_next (release_cell a n S) = st_next S"
  by (simp_all add: release_cell_def set_entries_def)

text \<open>A store whose total is far from the largest count, with a dictionary at \<open>a\<close> of distinct keys.\<close>

definition dict_ready :: "nat \<Rightarrow> nat \<Rightarrow> 'd coll_store \<Rightarrow> bool" where
  "dict_ready rest a S \<longleftrightarrow> owing rest a 0 S \<and> distinct (map fst (dict_entries S a)) \<and> 2 * st_total S \<le> usize_max"

lemma dict_refuse [simp]: "dict_ready rest a S \<Longrightarrow> dict_settled rest a S (refuse e S)"
  by (simp add: dict_ready_def dict_settled_def refuse_def others_kept_def)

lemma dict_read [simp]: "dict_ready rest a S \<Longrightarrow> dict_settled rest a S (answer v S)"
  by (simp add: dict_ready_def dict_settled_def answer_def others_kept_def)

lemma dict_with_key:
  "dict_ready rest a S \<Longrightarrow> (\<And>t. dict_settled rest a S (f t)) \<Longrightarrow> dict_settled rest a S (with_key key f S)"
  by (simp add: with_key_def split: sum.split)

lemma dict_written:
  assumes "dict_ready rest a S" "owing rest a 0 T" "distinct (map fst (dict_entries T a))" "st_next S \<le> st_next T"
    "builders (st_env T) = builders (st_env S)" "items_of T = items_of S" "\<And>b. b \<noteq> a \<Longrightarrow> dict_entries T b = dict_entries S b"
  shows "dict_settled rest a S (ENormal v, wb, T)"
  using assms by (simp add: dict_settled_def others_kept_def eval_error_def)

lemma charged_facts:
  assumes "dict_ready rest a S" "charge_cell operation a bytes S = (Inr u, T)"
  shows "owing rest a bytes T" "dict_entries T = dict_entries S" "items_of T = items_of S" "st_next T = st_next S"
    "builders (st_env T) = builders (st_env S)"
  using charge_owing [OF _ assms(2), of rest 0] assms(1) entries_of_charge [OF assms(2)] items_of_charge [OF assms(2)]
  by (auto simp: dict_ready_def)

lemma set_entries_leaves:
  assumes "owing rest a k S" "entries_bytes es + d = entries_bytes (dict_entries S a) + k"
  shows "owing rest a d (set_entries a es S)"
proof -
  have "entries_bytes (dict_entries S a) + k - entries_bytes es = d" using assms(2) by linarith
  then show ?thesis using set_entries_ok [of rest a k S es] assms by simp
qed

lemma release_all: "owing rest a k S \<Longrightarrow> owing rest a 0 (release_cell a k S)"
  using release_owing [of rest a k S k] by simp

lemma dict_charge:
  assumes "dict_ready rest a S" "\<And>u T. charge_cell operation a n S = (Inr u, T) \<Longrightarrow> dict_settled rest a S (f T)"
  shows "dict_settled rest a S (case charge_cell operation a n S of (Inl e, S) \<Rightarrow> refuse e S | (Inr _, S) \<Rightarrow> f S)"
  using assms by (auto dest: charge_refused split: prod.split sum.split)

lemma settled_dict_add:
  assumes "dict_ready rest a S"
  shows "dict_settled rest a S (dict_add a args S)"
proof -
  have step: "dict_settled rest a S (answer VEmpty (set_entries a (AList.update t (key, v) (dict_entries T a)) T))"
    if ch: "charge_cell ''Dictionary.Add'' a (entry_bytes t key v) S = (Inr u, T)" and new: "map_of (dict_entries S a) t = None" for t key v u T
  proof -
    note T = charged_facts [OF assms ch]
    have "owing rest a 0 (set_entries a (AList.update t (key, v) (dict_entries S a)) T)"
      using entries_bytes_update [of t key v "dict_entries S a"] by (intro set_entries_leaves [OF T(1)]) (simp add: T new)
    then show ?thesis
      unfolding answer_def using assms T by (intro dict_written [OF assms]) (simp_all add: dict_ready_def distinct_update)
  qed
  have "dict_settled rest a S (case charge_cell ''Dictionary.Add'' a (entry_bytes t key v) S of
      (Inl e, S) \<Rightarrow> refuse e S
    | (Inr _, S) \<Rightarrow> answer VEmpty (set_entries a (AList.update t (key, v) (dict_entries S a)) S))"
    if "map_of (dict_entries S a) t = None" for t key v
    using step [OF _ that] by (intro dict_charge [OF assms])
  then show ?thesis using assms by (auto simp: dict_add_def simp del: not_None_eq intro!: dict_with_key split: list.split)
qed

lemma settled_dict_set:
  assumes "dict_ready rest a S"
  shows "dict_settled rest a S (dict_set a args S)"
proof -
  have "dict_settled rest a S
      (let old = map_of (dict_entries T a) t; S = set_entries a (AList.update t (key, v) (dict_entries T a)) T;
           S = (case old of Some (k, w) \<Rightarrow> release_cell a (entry_bytes t k w) S | None \<Rightarrow> S)
       in if others = [] then answer VEmpty S
          else case old of Some (_, w) \<Rightarrow> (ENormal (VBoolean True), [(2, w)], S) | None \<Rightarrow> answer (VBoolean False) S)"
    if ch: "charge_cell ''Dictionary.Set'' a (entry_bytes t key v) S = (Inr u, T)" for t key v u T and others :: "'a val list"
  proof -
    note T = charged_facts [OF assms ch]
    let ?old = "case map_of (dict_entries S a) t of Some (k', w) \<Rightarrow> entry_bytes t k' w | None \<Rightarrow> 0"
    let ?W = "set_entries a (AList.update t (key, v) (dict_entries S a)) T"
    let ?U = "case map_of (dict_entries S a) t of Some (k, w) \<Rightarrow> release_cell a (entry_bytes t k w) ?W | None \<Rightarrow> ?W"
    have "owing rest a ?old ?W"
      using entries_bytes_update [of t key v "dict_entries S a"] by (intro set_entries_leaves [OF T(1)]) (simp add: T)
    then have "owing rest a 0 ?U" using release_all [of rest a ?old ?W] by (auto split: option.splits)
    then have any: "dict_settled rest a S (ENormal w, wb, ?U)" for w wb
      using assms T by (intro dict_written [OF assms]) (auto simp: dict_ready_def distinct_update split: option.splits)
    show ?thesis
      using any by (cases "map_of (dict_entries S a) t") (auto simp: T(2) Let_def answer_def)
  qed
  then show ?thesis
    using assms by (auto simp: dict_set_def intro!: dict_with_key dict_charge split: list.split)
qed

lemma settled_dict_remove:
  assumes "dict_ready rest a S"
  shows "dict_settled rest a S (dict_remove a args S)"
proof -
  have "dict_settled rest a S (answer (VBoolean True) (release_cell a (entry_bytes t k v) (set_entries a (AList.delete t (dict_entries S a)) S)))"
    if old: "map_of (dict_entries S a) t = Some (k, v)" for t k v
  proof -
    have "entries_bytes (AList.delete t (dict_entries S a)) + entry_bytes t k v = entries_bytes (dict_entries S a)"
      using entries_bytes_delete [OF _ old] assms by (simp add: dict_ready_def)
    then have "owing rest a (entry_bytes t k v) (set_entries a (AList.delete t (dict_entries S a)) S)"
      using assms by (intro set_entries_leaves [of rest a 0]) (simp_all add: dict_ready_def)
    then have "owing rest a 0 (release_cell a (entry_bytes t k v) (set_entries a (AList.delete t (dict_entries S a)) S))"
      by (rule release_all)
    then show ?thesis
      unfolding answer_def using assms by (intro dict_written [OF assms]) (simp_all add: dict_ready_def distinct_delete)
  qed
  then show ?thesis using assms by (auto simp: dict_remove_def intro!: dict_with_key split: list.split option.split)
qed

lemma dict_list_made:
  assumes "dict_ready rest a S" "items_bytes xs \<le> st_total S"
  shows "dict_settled rest a S (let (v, S) = collection_new xs member S in answer v S)"
proof -
  obtain T where n: "collection_new xs member S = (VList (st_next S) member None, T)" by (simp add: collection_new_def Let_def)
  have owed: "owing rest a 0 S" "2 * st_total S \<le> usize_max" "distinct (map fst (dict_entries S a))"
    using assms(1) by (auto simp: dict_ready_def)
  have T: "owing rest a 0 T" using collection_new_ok [OF owed(1) n] owed(2) assms(2) by linarith
  have "others_kept a S T" "dict_entries T = dict_entries S"
    using n by (auto simp: collection_new_def Let_def others_kept_def items_of_def dict_entries_def contents_of_def fun_eq_iff)
  then show ?thesis using T owed(3) by (simp add: n answer_def dict_settled_def eval_error_def)
qed

lemma keys_and_values_bytes:
  "items_bytes (map (\<lambda>(_, k, _). k) es) \<le> entries_bytes es" "items_bytes (map (\<lambda>(_, _, v). v) es) \<le> entries_bytes es"
  by (induction es) (auto simp: entry_bytes_def saturating_add_def element_bytes_def)

lemma entries_le_total: "owing rest a k S \<Longrightarrow> entries_bytes (dict_entries S b) \<le> st_total S"
  using cell_le_sum [of "st_held S" b]
  by (simp add: owing_def cells_sum_def cell_bytes_def contents_bytes_def dict_entries_def split: if_splits)

lemma dict_settled_if:
  "(c \<Longrightarrow> dict_settled rest a S x) \<Longrightarrow> (\<not> c \<Longrightarrow> dict_settled rest a S y) \<Longrightarrow> dict_settled rest a S (if c then x else y)"
  by simp

lemma settled_dict_method:
  assumes "dict_ready rest a S"
  shows "dict_settled rest a S (dict_method_on a member value_type lower args S)"
proof -
  have owed: "owing rest a 0 S" using assms by (simp add: dict_ready_def)
  have "dict_settled rest a S (dict_get a args S)" "dict_settled rest a S (dict_containskey a args S)"
    using assms by (auto simp: dict_get_def dict_containskey_def intro!: dict_with_key split: list.split option.split)
  moreover have "dict_settled rest a S (dict_count a args S)" using assms by (simp add: dict_count_def)
  moreover have "dict_settled rest a S (dict_keys a member args S)" "dict_settled rest a S (dict_values a value_type args S)"
    using dict_list_made [OF assms le_trans [OF keys_and_values_bytes(1) entries_le_total [OF owed]]]
      dict_list_made [OF assms le_trans [OF keys_and_values_bytes(2) entries_le_total [OF owed]]] assms
    by (simp_all add: dict_keys_def dict_values_def)
  ultimately show ?thesis
    using assms unfolding dict_method_on_def
    by (intro dict_settled_if) (simp_all add: settled_dict_add settled_dict_set settled_dict_remove)
qed

text \<open>
  C11: A call of a Dictionary method keeps every count exact, as a List method does: whichever method it is and whatever its outcome, each
  list, dictionary and text builder is counted at the bytes of its contents and the total of the test at their sum.
  The keys of the dictionary stay distinct, no other contents change, and a call that fails changes nothing.
\<close>

theorem dict_methods_keep_counts:
  assumes "store_ok rest S" "2 * st_total S \<le> usize_max" "a < st_next S" "distinct (map fst (dict_entries S a))"
    and run: "dispatch_dict_method recv method args (Some (VDict a member vt)) S = (r, wb, T)"
  shows "store_ok rest T \<and> distinct (map fst (dict_entries T a)) \<and> others_kept a S T \<and> ((\<exists>e. r = eval_error e) \<longrightarrow> T = S)"
proof -
  have S: "dict_ready rest a S" using assms(1,2,4) owing_ok [OF assms(3)] by (simp add: dict_ready_def)
  have "dict_settled rest a S (dispatch_dict_method recv method args (Some (VDict a member vt)) S)"
    by (simp add: dispatch_dict_method_def Let_def S settled_dict_method split: sum.split)
  then have T: "owing rest a 0 T" "distinct (map fst (dict_entries T a))" "others_kept a S T" "(\<exists>e. r = eval_error e) \<longrightarrow> T = S"
    unfolding run dict_settled_def by auto
  have "a < st_next T" using T(3) assms(3) by (simp add: others_kept_def)
  then show ?thesis using T owing_ok by blast
qed

section \<open>A dictionary is a map\<close>

text \<open>The text under which a key is found, once converted to the declared key type.\<close>

definition key_text :: "'d decimal_ops \<Rightarrow> string option \<Rightarrow> 'd val \<Rightarrow> string + string" where
  "key_text D member key = bind_res (declared_member D key member) (dict_key D)"

lemma lookup_text:
  "dict_lookup recv key (Some (VDict a member vt)) S =
     bind_res (key_text (dec (st_env S)) member key) (\<lambda>t. Ok (map_option snd (map_of (dict_entries S a) t)))"
  by (cases "declared_member (dec (st_env S)) key member") (simp_all add: dict_lookup_def key_text_def)

lemma dict_names:
  "to_ascii_lowercase ''Set'' = ''set''" "to_ascii_lowercase ''Remove'' = ''remove''" "to_ascii_lowercase ''Keys'' = ''keys''"
  by code_simp+

lemma set_call:
  assumes "dispatch_dict_method recv ''Set'' [key, v] (Some (VDict a member vt)) S = (ENormal r, wb, T)"
  shows "\<exists>k t. declared_member (dec (st_env S)) key member = Inr k \<and> dict_key (dec (st_env S)) k = Inr t \<and> dict_set a [k, v] S = (ENormal r, wb, T)"
  using assms
  by (cases "declared_member (dec (st_env S)) key member")
    (auto simp: dispatch_dict_method_def Let_def declared_key_def dict_names dict_method_on_def dict_set_def with_key_def refuse_def
      eval_error_def split: sum.splits)

lemma dec_kept [simp]: "dec (st_env (set_entries a es S)) = dec (st_env S)" "dec (st_env (release_cell a n S)) = dec (st_env S)"
  by (simp_all add: set_entries_def release_cell_def)

lemma set_result:
  assumes "dict_set a [k, v] S = (ENormal r, wb, T)" "dict_key (dec (st_env S)) k = Inr t"
  shows "dict_entries T a = AList.update t (k, v) (dict_entries S a) \<and> dec (st_env T) = dec (st_env S)"
proof -
  obtain u S1 where ch: "charge_cell ''Dictionary.Set'' a (entry_bytes t k v) S = (Inr u, S1)"
    using assms by (auto simp: dict_set_def with_key_def refuse_def eval_error_def split: prod.splits sum.splits)
  have "dec (st_env S1) = dec (st_env S)" using ch by (auto simp: charge_cell_def split: prod.splits sum.splits)
  then show ?thesis
    using assms ch entries_of_charge [OF ch] by (auto simp: dict_set_def with_key_def Let_def answer_def split: option.splits)
qed

lemma update_keys_order:
  "map fst (AList.update t x es) = map fst es @ (if t \<in> fst ` set es then [] else [t])"
  by (simp add: update_keys)

text \<open>
  C10: After a successful Set, a lookup finds the new value under every key of the same text and what it found before
  under any other; the entries keep their order, and a new key comes last.
\<close>

theorem set_then_lookup:
  assumes "dispatch_dict_method recv ''Set'' [key, v] (Some (VDict a member vt)) S = (ENormal r, wb, T)"
  shows "dict_lookup recv other (Some (VDict a member vt)) T =
      (if key_text (dec (st_env S)) member other = key_text (dec (st_env S)) member key then Ok (Some v)
       else dict_lookup recv other (Some (VDict a member vt)) S) \<and>
    (\<exists>t. key_text (dec (st_env S)) member key = Ok t \<and>
      map fst (dict_entries T a) = map fst (dict_entries S a) @ (if t \<in> fst ` set (dict_entries S a) then [] else [t]))"
proof -
  obtain k t where k: "declared_member (dec (st_env S)) key member = Inr k" "dict_key (dec (st_env S)) k = Inr t"
    and set: "dict_set a [k, v] S = (ENormal r, wb, T)"
    using set_call [OF assms] by blast
  have key: "key_text (dec (st_env S)) member key = Inr t" by (simp add: key_text_def k)
  note T = set_result [OF set k(2)]
  have "dict_lookup recv other (Some (VDict a member vt)) T =
      (if key_text (dec (st_env S)) member other = Inr t then Ok (Some v) else dict_lookup recv other (Some (VDict a member vt)) S)"
    using T by (cases "key_text (dec (st_env S)) member other") (auto simp: lookup_text update_conv')
  then show ?thesis using T by (simp add: key update_keys_order)
qed

definition same_key :: "'d val \<Rightarrow> 'd val \<Rightarrow> bool" where
  "same_key u v \<longleftrightarrow>
     (case u of
        VCode s \<Rightarrow> (case v of VCode t \<Rightarrow> to_uppercase s = to_uppercase t | _ \<Rightarrow> False)
      | VGuid s \<Rightarrow> (case v of VGuid t \<Rightarrow> to_uppercase s = to_uppercase t | _ \<Rightarrow> False)
      | VOption s _ m \<Rightarrow> (case v of VOption t _ n \<Rightarrow> to_ascii_lowercase s = to_ascii_lowercase t \<and> m = n | _ \<Rightarrow> False)
      | VInteger m \<Rightarrow> (case v of VBigInteger n \<Rightarrow> m = n | _ \<Rightarrow> u = v)
      | VBigInteger m \<Rightarrow> (case v of VInteger n \<Rightarrow> m = n | _ \<Rightarrow> u = v)
      | _ \<Rightarrow> u = v)"

lemma show_nat_inj: "show_nat m = show_nat n \<longleftrightarrow> m = n"
  using digits_val_show_nat by metis

lemma show_nat_no_minus: "show_nat n \<noteq> CHR ''-'' # s"
  using show_nat_digits [of n] by (auto simp: is_ascii_digit_def)

lemma show_int_inj: "show_int m = show_int n \<longleftrightarrow> m = n"
  using show_nat_no_minus [of "nat m"] show_nat_no_minus [of "nat n", symmetric]
  by (auto simp: show_int_def show_nat_inj)

lemma show_int_no_colon: "CHR '':'' \<notin> set (show_int n)"
  using show_nat_digits [of "nat n"] show_nat_digits [of "nat (- n)"]
  by (auto simp: show_int_def list_all_iff is_ascii_digit_def)

lemma last_split_unique: "x @ c # y = x' @ c # y' \<Longrightarrow> c \<notin> set y \<Longrightarrow> c \<notin> set y' \<Longrightarrow> x = x' \<and> y = y'"
  by (auto simp: append_eq_append_conv2 Cons_eq_append_conv append_eq_Cons_conv)

text \<open>The values that can be keys, and where each of them is in the order of the kinds.\<close>

lemma key_kinds:
  assumes "dict_key D v = Inr t" "\<nexists>d. v = VDecimal d"
  obtains "v = VText t" "variant_index v = 6"
  | s where "v = VCode s" "t = to_uppercase s" "variant_index v = 7"
  | n where "v = VInteger n \<or> v = VBigInteger n" "t = show_int n" "variant_index v = 2"
  | b where "v = VBoolean b" "t = (if b then ''true'' else ''false'')" "variant_index v = 4"
  | d where "v = VDate d" "t = CHR ''D'' # show_int d" "variant_index v = 8"
  | d where "v = VTime d" "t = CHR ''T'' # show_int d" "variant_index v = 9"
  | d where "v = VDateTime d" "t = ''DT'' @ show_int d" "variant_index v = 10"
  | g where "v = VGuid g" "t = to_uppercase g" "variant_index v = variant_index (VGuid [])"
  | c where "v = VChar c" "t = CHR ''C'' # [c]" "variant_index v = 5"
  | n m i where "v = VOption n m i" "t = CHR ''O'' # to_ascii_lowercase n @ '':'' @ show_int i" "variant_index v = variant_index (VOption [] [] 0)"
  using assms by (cases v) (auto simp: dict_key_def)

text \<open>
  Two keys of one type have one text exactly where the language takes them for the same: texts and characters letter
  for letter, Code and Guid values without regard to case, options by type and ordinal, and the others by their number.
\<close>

theorem key_texts_separate:
  assumes "dict_key D u = Ok s" "dict_key D v = Ok t" "variant_index u = variant_index v" "\<nexists>d. u = VDecimal d"
  shows "s = t \<longleftrightarrow> same_key u v"
proof -
  have options: "(to_ascii_lowercase a @ CHR '':'' # show_int i = to_ascii_lowercase b @ CHR '':'' # show_int j) \<longleftrightarrow>
      to_ascii_lowercase a = to_ascii_lowercase b \<and> i = j" for a b i j
    using last_split_unique [OF _ show_int_no_colon show_int_no_colon] by (auto simp: show_int_inj)
  have "\<nexists>d. v = VDecimal d" using assms(3,4) by (cases u) auto
  note v = key_kinds [OF assms(2) this]
  note u = key_kinds [OF assms(1,4)]
  show ?thesis
    by (rule u; rule v; insert assms(3); (elim disjE)?) (simp_all add: same_key_def show_int_inj options)
qed

section \<open>Samples\<close>

definition sample_dict :: "mantissa coll_store" where
  "sample_dict = \<lparr>st_env = sample_env\<lparr>dicts := [(0, [])]\<rparr>, st_held = [], st_total = 0, st_next = 1\<rparr>"

lemma sample_dict_ok: "store_ok 0 sample_dict \<and> 2 * st_total sample_dict \<le> usize_max \<and> 0 < st_next sample_dict"
  by (auto simp: store_ok_def sample_dict_def cells_sum_def contents_bytes_def contents_of_def cell_bytes_def unwrap_or_def
      addresses_def str_len_def)

lemma sample_key_length: "str_len ''k'' = 1"
  by code_simp

lemma sample_set:
  "\<exists>T. dispatch_dict_method ''D'' ''Set'' [VText ''k'', VInteger 1] (Some (VDict 0 None None)) sample_dict = (ENormal VEmpty, [], T) \<and>
     dict_entries T 0 = [(''k'', VText ''k'', VInteger 1)]"
proof -
  have "entry_bytes ''k'' (VText ''k'' :: mantissa val) (VInteger 1) = 2 * VALUE_SIZE + 2"
    using sample_key_length by (simp add: entry_bytes_def element_bytes_def saturating_add_def VALUE_SIZE_def usize_max_def)
  then obtain S1 where ch: "charge_cell ''Dictionary.Set'' 0 (entry_bytes ''k'' (VText ''k'' :: mantissa val) (VInteger 1)) sample_dict = (Inr (), S1)"
    by (simp add: charge_cell_def hold_bytes_def saturating_add_def VALUE_SIZE_def usize_max_def MAX_HELD_BYTES_def sample_dict_def)
  have empty: "dict_entries sample_dict 0 = []" by (simp add: dict_entries_def sample_dict_def contents_of_def)
  have "check_collection_len (''Dictionary.'' @ ''Set'') (saturating_add 0 1) = Inr ()"
    by (simp add: check_collection_len_def saturating_add_def MAX_COLLECTION_LEN_def usize_max_def)
  then have room: "dict_room 0 ''Set'' ''set'' args sample_dict = Inr ()" for args by (simp add: dict_room_def empty)
  show ?thesis
    using entries_of_charge [OF ch]
    by (simp add: dispatch_dict_method_def Let_def dict_names declared_key_def declared_member_def room empty dict_method_on_def dict_set_def with_key_def dict_key_def ch answer_def)
qed

lemma dict_methods_keep_counts_witness:
  "\<exists>T. dispatch_dict_method ''D'' ''Set'' [VText ''k'', VInteger 1] (Some (VDict 0 None None)) sample_dict = (ENormal VEmpty, [], T) \<and>
     store_ok 0 T \<and> dict_entries T 0 = [(''k'', VText ''k'', VInteger 1)]"
proof -
  obtain T where T: "dispatch_dict_method ''D'' ''Set'' [VText ''k'', VInteger 1] (Some (VDict 0 None None)) sample_dict =
      (ENormal VEmpty, [], T)" "dict_entries T 0 = [(''k'', VText ''k'', VInteger 1)]"
    using sample_set by blast
  have "distinct (map fst (dict_entries sample_dict 0))" by (simp add: dict_entries_def sample_dict_def contents_of_def)
  then have "store_ok 0 T" using dict_methods_keep_counts [OF _ _ _ _ T(1), of 0] sample_dict_ok by simp
  then show ?thesis using T by blast
qed

lemma set_then_lookup_witness:
  "\<exists>T. dict_lookup ''D'' (VText ''k'') (Some (VDict 0 None None)) T = Ok (Some (VInteger 1 :: mantissa val)) \<and>
     dict_entries T 0 = [(''k'', VText ''k'', VInteger 1)]"
proof -
  obtain T where T: "dispatch_dict_method ''D'' ''Set'' [VText ''k'', VInteger 1] (Some (VDict 0 None None)) sample_dict =
      (ENormal VEmpty, [], T)" "dict_entries T 0 = [(''k'', VText ''k'', VInteger 1)]"
    using sample_set by blast
  show ?thesis using set_then_lookup [OF T(1), of "VText ''k''"] T(2) by auto
qed

lemma key_texts_separate_witness:
  "dict_key sample_decimal (VCode ''ab'') = dict_key sample_decimal (VCode ''AB'') \<and>
   dict_key sample_decimal (VText ''ab'') \<noteq> dict_key sample_decimal (VText ''AB'')"
proof -
  have up: "to_uppercase ''ab'' = ''AB''" "to_uppercase ''AB'' = ''AB''" by code_simp+
  have "dict_key sample_decimal (VCode ''ab'') = Inr ''AB''" "dict_key sample_decimal (VCode ''AB'') = Inr ''AB''"
    "dict_key sample_decimal (VText ''ab'') = Inr ''ab''" "dict_key sample_decimal (VText ''AB'') = Inr ''AB''"
    by (simp_all only: dict_key_def val.case up)
  then show ?thesis
    using key_texts_separate [of sample_decimal "VText ''ab''" "''ab''" "VText ''AB''" "''AB''"] by (simp add: same_key_def)
qed

end
