(* ===== verification/Text_Methods.thy ===== *)
theory Text_Methods
  imports List_Methods
begin

text \<open>
  The methods of Text and Code values and of a TextBuilder, \<^verbatim>\<open>interpreter/records/collection_methods.rs\<close>, on the store of
  \<open>List_Methods\<close>.  A text is a list of characters, so the byte positions of the code are positions of characters here; sizes
  are in bytes as in the code.
\<close>

section \<open>Finding, splitting and replacing\<close>

fun rfind_sub :: "string \<Rightarrow> string \<Rightarrow> nat option" where
  "rfind_sub needle [] = (if needle = [] then Some 0 else None)"
| "rfind_sub needle (c # cs) =
     (case rfind_sub needle cs of
        Some i \<Rightarrow> Some (Suc i)
      | None \<Rightarrow> if starts_with (c # cs) needle then Some 0 else None)"

text \<open>\<open>str::split\<close>, \<open>str::replace\<close> and the count of \<open>str::matches\<close>: matches from the left that do not overlap.\<close>

function split_sub :: "string \<Rightarrow> string \<Rightarrow> string list" where
  "split_sub sep s =
     (case find_sub sep s of
        None \<Rightarrow> [s]
      | Some i \<Rightarrow> if sep = [] then [s] else take i s # split_sub sep (drop (i + length sep) s))"
  by pat_completeness auto
termination
proof (relation "measure (\<lambda>(sep, s). length s)")
  fix sep s i
  assume "find_sub sep s = Some i" "sep \<noteq> []"
  then have "s \<noteq> []" by auto
  then show "((sep, drop (i + length sep) s), (sep, s)) \<in> measure (\<lambda>(sep, s). length s)" using \<open>sep \<noteq> []\<close> by simp
qed simp

function replace_sub :: "string \<Rightarrow> string \<Rightarrow> string \<Rightarrow> string" where
  "replace_sub old new s =
     (case find_sub old s of
        None \<Rightarrow> s
      | Some i \<Rightarrow> if old = [] then s else take i s @ new @ replace_sub old new (drop (i + length old) s))"
  by pat_completeness auto
termination
proof (relation "measure (\<lambda>(old, new, s). length s)")
  fix old new s i
  assume "find_sub old s = Some i" "old \<noteq> []"
  then have "s \<noteq> []" by auto
  then show "((old, new, drop (i + length old) s), (old, new, s)) \<in> measure (\<lambda>(old, new, s). length s)" using \<open>old \<noteq> []\<close> by simp
qed simp

function count_sub :: "string \<Rightarrow> string \<Rightarrow> nat" where
  "count_sub needle s =
     (case find_sub needle s of
        None \<Rightarrow> 0
      | Some i \<Rightarrow> if needle = [] then 0 else Suc (count_sub needle (drop (i + length needle) s)))"
  by pat_completeness auto
termination
proof (relation "measure (\<lambda>(needle, s). length s)")
  fix needle s i
  assume "find_sub needle s = Some i" "needle \<noteq> []"
  then have "s \<noteq> []" by auto
  then show "((needle, drop (i + length needle) s), (needle, s)) \<in> measure (\<lambda>(needle, s). length s)" using \<open>needle \<noteq> []\<close> by simp
qed simp

declare split_sub.simps [simp del] replace_sub.simps [simp del] count_sub.simps [simp del]

definition check_replace_size :: "string \<Rightarrow> string \<Rightarrow> string \<Rightarrow> string \<Rightarrow> string + unit" where
  "check_replace_size operation s old new =
     (if str_len new \<le> str_len old then Ok ()
      else
        let most = saturating_mul (str_len s div str_len old) (str_len new - str_len old) in
        if check_text_size operation (saturating_add (str_len s) most) = Ok () then Ok ()
        else check_text_size operation (saturating_add (str_len s) (saturating_mul (count_sub old s) (str_len new - str_len old))))"


section \<open>Text methods\<close>

definition text_arg :: "'d val \<Rightarrow> string option" where
  "text_arg v = (case v of VText t \<Rightarrow> Some t | VCode t \<Rightarrow> Some t | VChar c \<Rightarrow> Some [c] | _ \<Rightarrow> None)"

text \<open>A method of exactly one text argument.\<close>

definition with_needle :: "string \<Rightarrow> 'd val list \<Rightarrow> (string \<Rightarrow> 'd val) \<Rightarrow> 'd coll_store \<Rightarrow> 'd outcome" where
  "with_needle method args f S =
     (case args of
        [needle] \<Rightarrow>
          (case text_arg needle of
             Some t \<Rightarrow> answer (f t) S
           | None \<Rightarrow> refuse (''Text.'' @ method @ '' expects a Text argument, got '' @ type_name needle) S)
      | _ \<Rightarrow> refuse (''Text.'' @ method @ '' expects exactly one Text argument'') S)"

definition text_test :: "string \<Rightarrow> string \<Rightarrow> string \<Rightarrow> bool" where
  "text_test lower s needle =
     (if lower = ''contains'' then find_sub needle s \<noteq> None
      else if lower = ''startswith'' then starts_with s needle
      else starts_with (rev s) (rev needle))"

definition text_position :: "string \<Rightarrow> string \<Rightarrow> string \<Rightarrow> int" where
  "text_position lower s needle =
     (if needle = [] then 0
      else case (if lower = ''indexof'' then find_sub needle s else rfind_sub needle s) of
          Some i \<Rightarrow> int i + 1
        | None \<Rightarrow> 0)"

definition text_replace :: "string \<Rightarrow> 'd val list \<Rightarrow> 'd coll_store \<Rightarrow> 'd outcome" where
  "text_replace s args S =
     (case args of
        [old, new] \<Rightarrow>
          (case (text_arg old, text_arg new) of
             (Some old, Some new) \<Rightarrow>
               if old = [] then refuse ''Text.Replace: the old value cannot be empty'' S
               else (case check_replace_size ''Text.Replace'' s old new of
                   Inl e \<Rightarrow> refuse e S
                 | Inr _ \<Rightarrow> answer (VText (replace_sub old new s)) S)
           | _ \<Rightarrow> refuse ''Text.Replace expects (Text, Text)'' S)
      | _ \<Rightarrow> refuse ''Text.Replace expects exactly two Text arguments'' S)"

fun separators :: "'d val list \<Rightarrow> string + string list" where
  "separators [] = Ok []"
| "separators (v # vs) =
     (case text_arg v of
        Some t \<Rightarrow>
          if t = [] then Err ''Text.Split: separators cannot be empty''
          else bind_res (separators vs) (\<lambda>ts. Ok (t # ts))
      | None \<Rightarrow> Err (''Text.Split expects Text separators, got '' @ type_name v))"

fun split_all :: "string list \<Rightarrow> string list \<Rightarrow> string + string list" where
  "split_all [] parts = Ok parts"
| "split_all (sep # seps) parts =
     bind_res (check_collection_len ''Text.Split'' (sum_list (map (\<lambda>p. count_sub sep p + 1) parts)))
       (\<lambda>_. split_all seps (concat (map (split_sub sep) parts)))"

definition text_split :: "string \<Rightarrow> 'd val list \<Rightarrow> 'd coll_store \<Rightarrow> 'd outcome" where
  "text_split s args S =
     (case bind_res (separators args) (\<lambda>seps. split_all seps [s]) of
        Inl e \<Rightarrow> refuse e S
      | Inr parts \<Rightarrow> (let (v, S) = collection_new (map VText parts) (Some ''Text'') S in answer v S))"

definition text_trim :: "string \<Rightarrow> string \<Rightarrow> string" where
  "text_trim lower s = (if lower = ''trim'' then trim s else if lower = ''trimstart'' then trim_start s else trim_end s)"

definition text_substring :: "string \<Rightarrow> 'd val list \<Rightarrow> string + 'd val" where
  "text_substring s args =
     (let cut = (\<lambda>start len.
            if start < 1 \<or> nat start > length s + 1
            then Err (''Text.Substring: start position '' @ show_int start @ '' is out of range for a '' @ show_nat (length s) @
                   ''-character string'')
            else let zero = nat start - 1 in
              case len of
                None \<Rightarrow> Ok (VText (drop zero s))
              | Some len \<Rightarrow>
                  if len < 0 then Err ''Text.Substring: length must be >= 0''
                  else if zero + nat len > length s
                  then Err (''Text.Substring: start '' @ show_int start @ '' plus length '' @ show_int len @
                         '' exceeds the string length '' @ show_nat (length s))
                  else Ok (VText (take (nat len) (drop zero s))))
      in case args of
          [VInteger start] \<Rightarrow> cut start None
        | [VInteger start, VInteger len] \<Rightarrow> cut start (Some len)
        | _ \<Rightarrow> Err ''Text.Substring expects (Integer[, Integer])'')"

definition pad_arguments :: "string \<Rightarrow> 'd val list \<Rightarrow> string + int \<times> char" where
  "pad_arguments method args =
     (case args of
        [VInteger count] \<Rightarrow> Ok (count, CHR '' '')
      | [VInteger count, pad] \<Rightarrow>
          (case text_arg pad of
             Some [c] \<Rightarrow> Ok (count, c)
           | Some _ \<Rightarrow> Err (''Text.'' @ method @ '': the pad must be one character'')
           | None \<Rightarrow> Err (''Text.'' @ method @ '' expects (Integer[, Char])''))
      | _ \<Rightarrow> Err (''Text.'' @ method @ '' expects (Integer[, Char])''))"

definition text_pad :: "string \<Rightarrow> string \<Rightarrow> string \<Rightarrow> 'd val list \<Rightarrow> string + 'd val" where
  "text_pad lower method s args =
     bind_res (pad_arguments method args) (\<lambda>(count, pad).
       let missing = nat count - length s in
       bind_res (check_text_size (''Text.'' @ method) (saturating_add (saturating_mul missing (len_utf8 pad)) (str_len s))) (\<lambda>_.
         Ok (VText (if lower = ''padleft'' then replicate missing pad @ s else s @ replicate missing pad))))"

definition text_remove :: "string \<Rightarrow> 'd val list \<Rightarrow> string + 'd val" where
  "text_remove s args =
     (let cut = (\<lambda>start count.
            if start < 1 \<or> nat start > length s
            then Err (''Text.Remove: start position '' @ show_int start @ '' is out of range for a '' @ show_nat (length s) @
                   ''-character string'')
            else let zero = nat start - 1 in
              case count of
                None \<Rightarrow> Ok (VText (take zero s))
              | Some count \<Rightarrow>
                  if count \<ge> 0 \<and> zero + nat count \<le> length s
                  then Ok (VText (take zero s @ drop (zero + nat count) s))
                  else Err (''Text.Remove: '' @ show_int count @ '' characters from position '' @ show_int start @
                         '' exceed the string length '' @ show_nat (length s)))
      in case args of
          [VInteger start] \<Rightarrow> cut start None
        | [VInteger start, VInteger count] \<Rightarrow> cut start (Some count)
        | _ \<Rightarrow> Err ''Text.Remove expects (Integer[, Integer])'')"

definition answer_res :: "string + 'd val \<Rightarrow> 'd coll_store \<Rightarrow> 'd outcome" where
  "answer_res r S = (case r of Inl e \<Rightarrow> refuse e S | Inr v \<Rightarrow> answer v S)"

definition text_method_on :: "string \<Rightarrow> string \<Rightarrow> string \<Rightarrow> 'd val list \<Rightarrow> 'd coll_store \<Rightarrow> 'd outcome" where
  "text_method_on s method lower args S =
     (if lower \<in> {''contains'', ''startswith'', ''endswith''} then with_needle method args (\<lambda>t. VBoolean (text_test lower s t)) S
      else if lower \<in> {''indexof'', ''lastindexof''} then with_needle method args (\<lambda>t. VInteger (text_position lower s t)) S
      else if lower = ''replace'' then text_replace s args S
      else if lower = ''split'' then text_split s args S
      else if lower \<in> {''trim'', ''trimstart'', ''trimend''} then
        (if args \<noteq> [] then refuse (''Text.'' @ method @ '' expects no arguments'') S else answer (VText (text_trim lower s)) S)
      else if lower = ''tolower'' then
        (if args \<noteq> [] then refuse ''Text.ToLower expects no arguments'' S else answer (VText (to_lowercase s)) S)
      else if lower = ''toupper'' then
        (if args \<noteq> [] then refuse ''Text.ToUpper expects no arguments'' S else answer (VText (to_uppercase s)) S)
      else if lower = ''substring'' then answer_res (text_substring s args) S
      else if lower \<in> {''padleft'', ''padright''} then answer_res (text_pad lower method s args) S
      else if lower = ''remove'' then answer_res (text_remove s args) S
      else refuse (''unsupported Text method: '' @ lower) S)"

definition dispatch_text_method :: "string \<Rightarrow> string \<Rightarrow> 'd val list \<Rightarrow> 'd val option \<Rightarrow> 'd coll_store \<Rightarrow> 'd outcome" where
  "dispatch_text_method recv method args slot S =
     (case slot of
        Some (VText s) \<Rightarrow> text_method_on s method (to_ascii_lowercase method) args S
      | Some (VCode s) \<Rightarrow> text_method_on s method (to_ascii_lowercase method) args S
      | _ \<Rightarrow> refuse (''text variable '' @ quoted recv @ '' is not bound'') S)"

section \<open>Split, Replace and their sizes\<close>

lemma join_with_Cons: "xs \<noteq> [] \<Longrightarrow> join_with sep (x # xs) = x @ sep @ join_with sep xs"
  by (cases xs) auto

lemma split_sub_nonempty [simp]: "split_sub sep s \<noteq> []"
  by (subst split_sub.simps) (auto split: option.split)

lemma found_parts:
  assumes "find_sub needle s = Some i"
  shows "take i s @ needle @ drop (i + length needle) s = s"
proof -
  obtain r where r: "s = take i s @ needle @ r" and "i + length needle \<le> length s" using find_sub_Some [OF assms] by blast
  have "drop (i + length needle) s = r" by (subst r) (use \<open>i + length needle \<le> length s\<close> in simp)
  then show ?thesis using r by simp
qed

lemma replace_is_join: "old \<noteq> [] \<Longrightarrow> replace_sub old new s = join_with new (split_sub old s)"
proof (induction old new s rule: replace_sub.induct)
  case (1 old new s)
  then show ?case
    by (subst replace_sub.simps, subst split_sub.simps) (auto simp: join_with_Cons split: option.split)
qed

lemma join_split: "join_with sep (split_sub sep s) = s"
proof (induction sep s rule: split_sub.induct)
  case (1 sep s)
  show ?case
  proof (cases "find_sub sep s")
    case (Some i)
    then show ?thesis using 1 found_parts [OF Some] by (subst split_sub.simps) (auto simp: join_with_Cons)
  qed (subst split_sub.simps, simp)
qed

lemma split_count: "sep \<noteq> [] \<Longrightarrow> length (split_sub sep s) = count_sub sep s + 1"
proof (induction sep s rule: split_sub.induct)
  case (1 sep s)
  then show ?case by (subst split_sub.simps, subst count_sub.simps) (auto split: option.split)
qed

lemma before_match_clear:
  assumes "find_sub needle s = Some i" "needle \<noteq> []"
  shows "find_sub needle (take i s) = None"
proof (rule ccontr)
  assume "find_sub needle (take i s) \<noteq> None"
  then obtain j where j: "find_sub needle (take i s) = Some j" by auto
  let ?p = "take j (take i s)" and ?r = "drop (j + length needle) (take i s)"
  have parts: "?p @ needle @ ?r = take i s" and fits: "j + length needle \<le> length (take i s)"
    using found_parts [OF j] find_sub_Some [OF j] by auto
  have "length ?p = j" and "j < i" using fits length_greater_0_conv [THEN iffD2, OF assms(2)] by (auto simp: min_def simp del: length_greater_0_conv split: if_splits)
  moreover have "s = ?p @ needle @ ?r @ drop i s" using parts by (metis append.assoc append_take_drop_id)
  ultimately have "drop j s = needle @ ?r @ drop i s" by (metis append_eq_conv_conj)
  then show False using find_sub_Some [OF assms(1)] \<open>j < i\<close> by blast
qed

lemma split_parts_clear: "sep \<noteq> [] \<Longrightarrow> p \<in> set (split_sub sep s) \<Longrightarrow> find_sub sep p = None"
proof (induction sep s arbitrary: p rule: split_sub.induct)
  case (1 sep s)
  show ?case
  proof (cases "find_sub sep s")
    case None
    then show ?thesis using 1 split_sub.simps [of sep s] by simp
  next
    case (Some i)
    then have "p = take i s \<or> p \<in> set (split_sub sep (drop (i + length sep) s))"
      using "1.prems" split_sub.simps [of sep s] by simp
    then show ?thesis using 1 Some before_match_clear [OF Some] by auto
  qed
qed

lemma str_len_take_drop: "find_sub old s = Some i \<Longrightarrow> str_len s = str_len (take i s) + str_len old + str_len (drop (i + length old) s)"
  by (metis add.assoc found_parts str_len_append)

lemma replace_bytes:
  "old \<noteq> [] \<Longrightarrow> str_len (replace_sub old new s) + count_sub old s * str_len old = str_len s + count_sub old s * str_len new"
proof (induction old new s rule: replace_sub.induct)
  case (1 old new s)
  show ?case
  proof (cases "find_sub old s")
    case (Some i)
    have "str_len s = str_len (take i s) + str_len old + str_len (drop (i + length old) s)" by (rule str_len_take_drop [OF Some])
    then show ?thesis
      using 1 Some replace_sub.simps [of old new s] count_sub.simps [of old s] by (simp add: algebra_simps)
  next
    case None
    then show ?thesis using replace_sub.simps [of old new s] count_sub.simps [of old s] by simp
  qed
qed

lemma count_bytes: "old \<noteq> [] \<Longrightarrow> count_sub old s * str_len old \<le> str_len s"
proof (induction old s rule: count_sub.induct)
  case (1 old s)
  then show ?case
    using count_sub.simps [of old s] str_len_take_drop [of old s] by (cases "find_sub old s") auto
qed

lemma str_len_pos: "s \<noteq> [] \<Longrightarrow> 0 < str_len s"
  by (cases s) (simp_all add: str_len_def len_utf8_def)

text \<open>
  C35: The size check of Replace lets a growing replacement through exactly when its result fits one text, although it
  looks at the matches only when a quick bound does not settle it.
\<close>

theorem replace_size_exact:
  assumes "old \<noteq> []" "str_len old < str_len new"
  shows "isl (check_replace_size operation s old new) \<longleftrightarrow> MAX_TEXT_BYTES < str_len (replace_sub old new s)"
proof -
  let ?d = "str_len new - str_len old" and ?n = "count_sub old s" and ?r = "str_len (replace_sub old new s)"
  have r: "?r = str_len s + ?n * ?d"
    using replace_bytes [OF assms(1), of new s] assms(2) by (simp add: diff_mult_distrib2)
  have "?n \<le> str_len s div str_len old"
    using count_bytes [OF assms(1), of s] str_len_pos [OF assms(1)] by (simp add: less_eq_div_iff_mult_less_eq)
  then have most: "?n * ?d \<le> (str_len s div str_len old) * ?d" by (rule mult_le_mono1)
  have sat: "saturating_add a (saturating_mul b c) \<le> MAX_TEXT_BYTES \<longleftrightarrow> a + b * c \<le> MAX_TEXT_BYTES" for a b c
    by (auto simp: saturating_add_def saturating_mul_def MAX_TEXT_BYTES_def usize_max_def min_def)
  let ?m = "(str_len s div str_len old) * ?d"
  have "isl (check_replace_size operation s old new) \<longleftrightarrow> \<not> str_len s + ?m \<le> MAX_TEXT_BYTES \<and> \<not> str_len s + ?n * ?d \<le> MAX_TEXT_BYTES"
    using assms(2) by (simp add: check_replace_size_def Let_def check_text_size_def sat)
  moreover have "\<not> str_len s + ?m \<le> MAX_TEXT_BYTES" if "\<not> str_len s + ?n * ?d \<le> MAX_TEXT_BYTES" using most that by linarith
  ultimately show ?thesis unfolding r by linarith
qed

lemma replace_size_exact_witness: "isl (check_replace_size '''' ''aa'' ''a'' ''bb'') = False"
proof -
  have "str_len ''a'' < str_len ''bb''" "str_len (replace_sub ''a'' ''bb'' ''aa'') = 4" by code_simp+
  then show ?thesis using replace_size_exact [of "''a''" "''bb''" "''''" "''aa''"] by (simp add: MAX_TEXT_BYTES_def)
qed

text \<open>
  C34: Split by one separator gives pieces none of which holds the separator, and the pieces joined by it are the text;
  Replace is the same pieces joined by the new text.
\<close>

theorem split_pieces:
  assumes "sep \<noteq> []" "dispatch_text_method recv ''Split'' [VText sep] (Some (VText s)) S = (ENormal v, wb, T)"
  shows "v = VList (st_next S) (Some ''Text'') None \<and>
    (\<exists>parts. items_of T (st_next S) = map VText parts \<and> join_with sep parts = s \<and> (\<forall>p \<in> set parts. find_sub sep p = None) \<and>
      (\<forall>new. replace_sub sep new s = join_with new parts))"
proof -
  have lower: "to_ascii_lowercase ''Split'' = ''split''" by code_simp
  have v: "v = VList (st_next S) (Some ''Text'') None" and T: "items_of T (st_next S) = map VText (split_sub sep s)"
    using assms by (auto simp: dispatch_text_method_def lower text_method_on_def text_split_def text_arg_def refuse_def eval_error_def
        answer_def collection_new_def Let_def items_of_def contents_of_def check_collection_len_def split: if_splits)
  then show ?thesis
    using join_split split_parts_clear [OF assms(1)] replace_is_join [OF assms(1)] by blast
qed

lemma split_pieces_witness:
  "\<exists>v T. dispatch_text_method ''S'' ''Split'' [VText '',''] (Some (VText ''a,b'')) sample_store = (ENormal v, [], T) \<and>
     v = VList 1 (Some ''Text'') None"
proof -
  have lower: "to_ascii_lowercase ''Split'' = ''split''" "count_sub '','' ''a,b'' = 1" by code_simp+
  have "\<exists>v T. dispatch_text_method ''S'' ''Split'' [VText '',''] (Some (VText ''a,b'')) sample_store = (ENormal v, [], T)"
    by (simp add: dispatch_text_method_def lower text_method_on_def text_split_def text_arg_def check_collection_len_def
        MAX_COLLECTION_LEN_def answer_def collection_new_def Let_def)
  then obtain v T where run: "dispatch_text_method ''S'' ''Split'' [VText '',''] (Some (VText ''a,b'')) sample_store = (ENormal v, [], T)"
    by blast
  have "st_next sample_store = 1" by (simp add: sample_store_def)
  then show ?thesis using split_pieces [OF _ run] run by simp
qed

end
