(* ===== verification/Text_Builder.thy ===== *)
theory Text_Builder
  imports Text_Methods
begin

text \<open>
  The methods of a TextBuilder, \<^verbatim>\<open>interpreter/records/collection_methods.rs\<close>: a text shared by every copy of the value, changed in
  place, and counted again at its new size after each method.
\<close>

section \<open>The builder in the store\<close>

definition builder_contents :: "'d coll_store \<Rightarrow> nat \<Rightarrow> string" where
  "builder_contents S a = contents_of (builders (st_env S)) a"

definition set_text :: "nat \<Rightarrow> string \<Rightarrow> 'd coll_store \<Rightarrow> 'd coll_store" where
  "set_text a s S = S\<lparr>st_env := (st_env S)\<lparr>builders := AList.update a s (builders (st_env S))\<rparr>\<rparr>"

text \<open>Count the contents as \<open>bytes\<close>; the total may pass the limit, and then the call fails with the new count in place.\<close>

definition recount_cell :: "string \<Rightarrow> nat \<Rightarrow> nat \<Rightarrow> 'd coll_store \<Rightarrow> (string + unit) \<times> 'd coll_store" where
  "recount_cell operation a bytes S =
     (let before = cell_bytes S a; S = S\<lparr>st_held := AList.update a bytes (st_held S)\<rparr> in
      if bytes \<le> before then (Ok (), S\<lparr>st_total := release_held_bytes (before - bytes) (st_total S)\<rparr>)
      else let S = S\<lparr>st_total := add_held_bytes (bytes - before) (st_total S)\<rparr> in (check_held_bytes operation (st_total S), S))"


section \<open>Methods\<close>

definition builder_argument :: "'d env \<Rightarrow> 'd val \<Rightarrow> 'd val" where
  "builder_argument E v = (case v of VTextBuilder b \<Rightarrow> VText (contents_of (builders E) b) | other \<Rightarrow> other)"

definition shown_text :: "'d env \<Rightarrow> 'd val \<Rightarrow> string" where
  "shown_text E v = (case v of VText t \<Rightarrow> t | VCode t \<Rightarrow> t | VChar c \<Rightarrow> [c] | other \<Rightarrow> render_value E other)"

text \<open>A 1-based position, up to one past the end.\<close>

definition char_at :: "string \<Rightarrow> int \<Rightarrow> nat option" where
  "char_at s index = (if 1 \<le> index \<and> nat (index - 1) \<le> length s then Some (nat (index - 1)) else None)"

text \<open>What a method makes of the text: a refusal before anything changed, or the answer and the new text.\<close>

type_synonym 'd edit = "string + 'd eval \<times> string"

definition grown :: "string \<Rightarrow> string \<Rightarrow> nat \<Rightarrow> string \<Rightarrow> 'd edit" where
  "grown method s added result =
     bind_res (check_text_size (''TextBuilder.'' @ method) (saturating_add (str_len s) added))
       (\<lambda>_. Ok (ENormal (VBoolean True), result))"

definition builder_append :: "'d env \<Rightarrow> string \<Rightarrow> string \<Rightarrow> 'd val \<Rightarrow> 'd edit" where
  "builder_append E method s v = grown method s (str_len (shown_text E v)) (s @ shown_text E v)"

definition line_end :: string where
  "line_end = [CHR 0x0D, CHR 0x0A]"

definition builder_appendline :: "'d env \<Rightarrow> string \<Rightarrow> string \<Rightarrow> 'd val option \<Rightarrow> 'd edit" where
  "builder_appendline E method s v =
     (case v of
        None \<Rightarrow> grown method s 2 (s @ line_end)
      | Some v \<Rightarrow> grown method s (str_len (shown_text E v) + 2) (s @ shown_text E v @ line_end))"

definition builder_part :: "string \<Rightarrow> int \<Rightarrow> int \<Rightarrow> 'd eval" where
  "builder_part s start count =
     (if 1 \<le> start \<and> 0 \<le> count \<and> nat (start - 1) \<le> length s \<and> nat (start - 1) + nat count \<le> length s
      then ENormal (VText (take (nat count) (drop (nat (start - 1)) s)))
      else eval_error (''TextBuilder.ToText: '' @ show_int count @ '' characters from '' @ show_int start @
             '' are outside the '' @ show_nat (length s) @ ''-character text''))"

definition builder_insert :: "'d env \<Rightarrow> string \<Rightarrow> string \<Rightarrow> int \<Rightarrow> 'd val \<Rightarrow> 'd edit" where
  "builder_insert E method s index v =
     (case char_at s index of
        Some pos \<Rightarrow> grown method s (str_len (shown_text E v)) (take pos s @ shown_text E v @ drop pos s)
      | None \<Rightarrow> Ok (eval_error (''TextBuilder.Insert: index '' @ show_int index @ '' is out of range''), s))"

definition builder_remove :: "string \<Rightarrow> int \<Rightarrow> int \<Rightarrow> 'd edit" where
  "builder_remove s index count =
     (case (char_at s index, char_at s (index + count)) of
        (Some start, Some fin) \<Rightarrow>
          if 0 \<le> count then Ok (ENormal (VBoolean True), take start s @ drop fin s)
          else Ok (eval_error (''TextBuilder.Remove: '' @ show_int count @ '' characters from '' @ show_int index @ '' are out of range''), s)
      | _ \<Rightarrow> Ok (eval_error (''TextBuilder.Remove: '' @ show_int count @ '' characters from '' @ show_int index @ '' are out of range''), s))"

definition builder_replace :: "string \<Rightarrow> string \<Rightarrow> string \<Rightarrow> 'd edit" where
  "builder_replace s old new =
     (if old = [] then Err ''TextBuilder.Replace: the old value cannot be empty''
      else bind_res (check_replace_size ''TextBuilder.Replace'' s old new)
             (\<lambda>_. Ok (ENormal (VBoolean True), replace_sub old new s)))"

definition builder_method_on :: "'d env \<Rightarrow> string \<Rightarrow> string \<Rightarrow> 'd val list \<Rightarrow> string \<Rightarrow> 'd edit" where
  "builder_method_on E method lower args s =
     (let unsupported = Ok (eval_error (''TextBuilder.'' @ method @ '' with these arguments is not supported by the local runtime''), s) in
      if lower = ''append'' then (case args of [v] \<Rightarrow> builder_append E method s v | _ \<Rightarrow> unsupported)
      else if lower = ''appendline'' then
        (case args of [] \<Rightarrow> builder_appendline E method s None | [v] \<Rightarrow> builder_appendline E method s (Some v) | _ \<Rightarrow> unsupported)
      else if lower = ''length'' then (if args = [] then Ok (ENormal (VInteger (int (length s))), s) else unsupported)
      else if lower = ''totext'' then
        (case args of
           [] \<Rightarrow> Ok (ENormal (VText s), s)
         | [VInteger start, VInteger count] \<Rightarrow> Ok (builder_part s start count, s)
         | _ \<Rightarrow> unsupported)
      else if lower = ''clear'' then (if args = [] then Ok (ENormal VEmpty, []) else unsupported)
      else if lower = ''insert'' then (case args of [VInteger index, v] \<Rightarrow> builder_insert E method s index v | _ \<Rightarrow> unsupported)
      else if lower = ''remove'' then (case args of [VInteger index, VInteger count] \<Rightarrow> builder_remove s index count | _ \<Rightarrow> unsupported)
      else if lower = ''replace'' then
        (case args of [old, new] \<Rightarrow> builder_replace s (shown_text E old) (shown_text E new) | _ \<Rightarrow> unsupported)
      else unsupported)"

definition dispatch_textbuilder_method :: "string \<Rightarrow> string \<Rightarrow> 'd val list \<Rightarrow> 'd val option \<Rightarrow> 'd coll_store \<Rightarrow> 'd outcome" where
  "dispatch_textbuilder_method recv method args slot S =
     (case slot of
        Some (VTextBuilder a) \<Rightarrow>
          (let E = st_env S in
           case builder_method_on E method (to_ascii_lowercase method) (map (builder_argument E) args) (builder_contents S a) of
             Inl e \<Rightarrow> refuse e S
           | Inr (r, s) \<Rightarrow>
               (case recount_cell (''TextBuilder.'' @ method) a (str_len s) (set_text a s S) of
                  (Inl e, S) \<Rightarrow> refuse e S
                | (Inr _, S) \<Rightarrow> (r, [], S)))
      | _ \<Rightarrow> refuse (quoted recv @ '' is not a TextBuilder'') S)"

section \<open>The size of the text and its count\<close>

lemma grown_size:
  assumes "grown method s added result = Inr (r, t)" "str_len result = str_len s + added"
  shows "t = result \<and> str_len t \<le> MAX_TEXT_BYTES \<and> r = ENormal (VBoolean True)"
  using assms by (auto simp: grown_def check_text_size_def saturating_add_def MAX_TEXT_BYTES_def usize_max_def min_def
      bind_res_def split: if_splits)

lemma str_len_drop_le: "str_len (drop n s) \<le> str_len s" "str_len (take n s) \<le> str_len s"
  by (metis append_take_drop_id le_add2 le_add1 str_len_append)+

lemma removed_size:
  assumes "p \<le> q"
  shows "str_len (take p s @ drop q s) \<le> str_len s"
proof -
  have "str_len (drop q s) \<le> str_len (drop p s)" using str_len_drop_le(1) [of "q - p" "drop p s"] assms by simp
  then show ?thesis by (metis add_left_mono append_take_drop_id str_len_append)
qed

lemma replaced_size:
  assumes "old \<noteq> []" "check_replace_size operation s old new = Inr ()"
  shows "str_len (replace_sub old new s) \<le> max (str_len s) MAX_TEXT_BYTES"
proof (cases "str_len new \<le> str_len old")
  case True
  then have "count_sub old s * str_len new \<le> count_sub old s * str_len old" by simp
  then show ?thesis using replace_bytes [OF assms(1), of new s] by linarith
next
  case False
  then show ?thesis using replace_size_exact [OF assms(1), of new operation s] assms(2) by simp
qed

lemma line_end_bytes: "str_len line_end = 2"
  by code_simp

text \<open>An edit keeps the text within its limit, and changes nothing when it fails.\<close>

definition edit_ok :: "string \<Rightarrow> 'd edit \<Rightarrow> bool" where
  "edit_ok s out \<longleftrightarrow>
     (case out of
        Inl _ \<Rightarrow> True
      | Inr (r, t) \<Rightarrow> str_len t \<le> max (str_len s) MAX_TEXT_BYTES \<and> ((\<exists>e. r = eval_error e) \<longrightarrow> t = s))"

lemma edit_ok_same [simp]: "edit_ok s (Inr (r, s))"
  by (simp add: edit_ok_def)

lemma edit_if: "(c \<Longrightarrow> edit_ok s x) \<Longrightarrow> (\<not> c \<Longrightarrow> edit_ok s y) \<Longrightarrow> edit_ok s (if c then x else y)"
  by simp

lemma edit_grown: "str_len result = str_len s + added \<Longrightarrow> edit_ok s (grown method s added result)"
  using grown_size [of "method" s added result]
  by (auto simp: edit_ok_def eval_error_def split: sum.split prod.split)

lemma edit_insert: "edit_ok s (builder_insert E method s index v)"
proof (cases "char_at s index")
  case (Some pos)
  have "str_len s = str_len (take pos s) + str_len (drop pos s)" by (metis append_take_drop_id str_len_append)
  then show ?thesis using Some by (simp add: builder_insert_def edit_grown)
qed (simp add: builder_insert_def)

lemma edit_remove: "edit_ok s (builder_remove s index count)"
proof (cases "\<exists>p q. char_at s index = Some p \<and> char_at s (index + count) = Some q \<and> 0 \<le> count")
  case True
  then obtain p q where pq: "char_at s index = Some p" "char_at s (index + count) = Some q" "0 \<le> count" by blast
  then have "p \<le> q" by (auto simp: char_at_def split: if_splits)
  then show ?thesis using removed_size [of p q s] pq by (simp add: builder_remove_def edit_ok_def eval_error_def le_max_iff_disj)
next
  case False
  then show ?thesis by (auto simp: builder_remove_def split: option.split)
qed

lemma edit_replace: "edit_ok s (builder_replace s old new)"
  using replaced_size [of old _ s new]
  by (cases "check_replace_size ''TextBuilder.Replace'' s old new") (auto simp: builder_replace_def edit_ok_def eval_error_def)

lemma edit_clear: "edit_ok s (Inr (ENormal VEmpty, []))"
  by (simp add: edit_ok_def eval_error_def str_len_def)

lemma edit_method: "edit_ok s (builder_method_on E method lower args s)"
  unfolding builder_method_on_def Let_def builder_append_def builder_appendline_def
  by (intro edit_if) (auto simp: edit_grown line_end_bytes edit_insert edit_remove edit_replace edit_clear split: list.split val.split)

lemma text_of_set [simp]: "builder_contents (set_text a s S) b = (if b = a then s else builder_contents S b)"
  by (simp add: builder_contents_def set_text_def contents_of_update)

text \<open>An address that holds a text builder only.\<close>

definition only_builder :: "nat \<Rightarrow> 'd coll_store \<Rightarrow> bool" where
  "only_builder a S \<longleftrightarrow> a \<notin> fst ` set (lists (st_env S)) \<union> fst ` set (dicts (st_env S))"

lemma only_builder_bytes:
  assumes "only_builder a S"
  shows "contents_bytes (st_env S) a = str_len (builder_contents S a)"
proof -
  have "map_of (lists (st_env S)) a = None" "map_of (dicts (st_env S)) a = None"
    using assms by (auto simp: only_builder_def map_of_eq_None_iff)
  then show ?thesis by (simp add: contents_bytes_def contents_of_def builder_contents_def entries_bytes_def)
qed

text \<open>The state after a recount at the new text: the counts agree again, and the total moved by the change of the text.\<close>

lemma recount_owing:
  assumes "owing rest a 0 S" "only_builder a S" "st_total S + str_len t \<le> usize_max"
    and run: "recount_cell operation a (str_len t) (set_text a t S) = (res, T)"
  shows "owing rest a 0 T \<and> st_env T = st_env (set_text a t S) \<and> st_next T = st_next S \<and>
    (\<forall>e. res = Inl e \<longrightarrow> MAX_HELD_BYTES < st_total T)"
proof -
  have cell: "cell_bytes S a = str_len (builder_contents S a)" using assms(1) only_builder_bytes [OF assms(2)] by (simp add: owing_def)
  let ?held = "AList.update a (str_len t) (st_held S)"
  have le: "cell_bytes S a \<le> cells_sum S" unfolding cell_bytes_def cells_sum_def by (rule cell_le_sum)
  have sum: "sum_list (map snd ?held) + cell_bytes S a = cells_sum S + str_len t"
    using update_sum [of "st_held S" a "str_len t"] assms(1) by (simp add: owing_def cells_sum_def cell_bytes_def)
  have T: "st_env T = st_env (set_text a t S)" "st_held T = ?held" "st_next T = st_next S"
    "st_total T = st_total S + str_len t - cell_bytes S a" "\<forall>e. res = Inl e \<longrightarrow> MAX_HELD_BYTES < st_total T"
    using run assms(1,3) le
    by (auto simp: recount_cell_def Let_def set_text_def cell_bytes_def release_held_bytes_def add_held_bytes_def saturating_add_def
        check_held_bytes_def owing_def split: if_splits)
  have "contents_bytes (st_env (set_text a t S)) b = (if b = a then str_len t else contents_bytes (st_env S) b)" for b
    using only_builder_bytes [of a "set_text a t S"] assms(2)
    by (auto simp: contents_bytes_def set_text_def contents_of_update only_builder_def builder_contents_def)
  moreover have "cell_bytes T b = (if b = a then str_len t else cell_bytes S b)" for b
    by (simp add: cell_bytes_def T update_conv' unwrap_or_def)
  moreover have "cells_sum T + cell_bytes S a = cells_sum S + str_len t" using sum by (simp add: cells_sum_def T)
  ultimately show ?thesis
    using assms(1,3) T le
    by (auto simp: owing_def T distinct_update keys_of_update addresses_def set_text_def)
qed

text \<open>
  C12: A TextBuilder method keeps every count exact, whatever its outcome, and changes no contents but the builder's
  text, which stays within the limit of one text.  When it fails the text is as before, unless the new text took the
  total of the test over its limit: then the text has changed all the same.
\<close>

theorem builder_methods_keep_counts:
  assumes "store_ok rest S" "2 * st_total S \<le> usize_max" "a < st_next S" "only_builder a S"
    and run: "dispatch_textbuilder_method recv method args (Some (VTextBuilder a)) S = (r, wb, T)"
  shows "store_ok rest T \<and> str_len (builder_contents T a) \<le> max (str_len (builder_contents S a)) MAX_TEXT_BYTES \<and>
    lists (st_env T) = lists (st_env S) \<and> dicts (st_env T) = dicts (st_env S) \<and> (\<forall>b. b \<noteq> a \<longrightarrow> builder_contents T b = builder_contents S b) \<and>
    ((\<exists>e. r = eval_error e) \<longrightarrow> builder_contents T a = builder_contents S a \<or> MAX_HELD_BYTES < st_total T)"
proof -
  have S: "owing rest a 0 S" using assms(1,3) owing_ok by blast
  let ?edit = "builder_method_on (st_env S) method (to_ascii_lowercase method) (map (builder_argument (st_env S)) args) (builder_contents S a)"
  show ?thesis
  proof (cases ?edit)
    case (Inl e)
    then have "T = S" using run by (simp add: dispatch_textbuilder_method_def Let_def refuse_def)
    then show ?thesis using assms(1) by simp
  next
    case (Inr out)
    then obtain ev t where out: "?edit = Inr (ev, t)" by (cases out) auto
    have edit: "str_len t \<le> max (str_len (builder_contents S a)) MAX_TEXT_BYTES" "(\<exists>e. ev = eval_error e) \<longrightarrow> t = builder_contents S a"
      using edit_method [of "builder_contents S a" "st_env S" "method" "to_ascii_lowercase method" "map (builder_argument (st_env S)) args"]
      by (auto simp: edit_ok_def out)
    obtain res U where re: "recount_cell (''TextBuilder.'' @ method) a (str_len t) (set_text a t S) = (res, U)" by (metis surj_pair)
    have "str_len (builder_contents S a) \<le> st_total S"
      using cell_le_sum [of "st_held S" a] S only_builder_bytes [OF assms(4)] by (simp add: owing_def cells_sum_def cell_bytes_def)
    then have "st_total S + str_len t \<le> usize_max" using assms(2) edit(1) by (simp add: MAX_TEXT_BYTES_def usize_max_def)
    note U = recount_owing [OF S assms(4) this re]
    have T: "T = U" and r: "(\<exists>e. res = Inl e) \<or> r = ev"
      using run out re by (auto simp: dispatch_textbuilder_method_def Let_def refuse_def split: sum.splits)
    have env: "lists (st_env T) = lists (st_env S)" "dicts (st_env T) = dicts (st_env S)" "builder_contents T b = builder_contents (set_text a t S) b" for b
      using U by (simp_all add: T builder_contents_def) (simp_all add: set_text_def)
    have "store_ok rest T" using U owing_ok [of a T rest] assms(3) by (simp add: T)
    then show ?thesis using edit r U env by (auto simp: T)
  qed
qed

definition sample_builder :: "mantissa coll_store" where
  "sample_builder = \<lparr>st_env = sample_env\<lparr>builders := [(0, ''ab'')]\<rparr>, st_held = [(0, 2)], st_total = 2, st_next = 1\<rparr>"

lemma builder_methods_keep_counts_witness:
  "\<exists>T. dispatch_textbuilder_method ''B'' ''Append'' [VText ''c''] (Some (VTextBuilder 0)) sample_builder = (ENormal (VBoolean True), [], T) \<and>
     builder_contents T 0 = ''abc'' \<and> store_ok 0 T"
proof -
  have facts: "str_len [] = 0" "to_ascii_lowercase ''Append'' = ''append''" "str_len ''abc'' = 3" "str_len ''ab'' = 2" "str_len ''c'' = 1" by code_simp+
  let ?run = "dispatch_textbuilder_method ''B'' ''Append'' [VText ''c''] (Some (VTextBuilder 0)) sample_builder"
  have "\<exists>T. ?run = (ENormal (VBoolean True), [], T) \<and> builder_contents T 0 = ''abc''"
    by (simp add: dispatch_textbuilder_method_def Let_def facts builder_method_on_def builder_append_def builder_argument_def shown_text_def
        grown_def check_text_size_def saturating_add_def MAX_TEXT_BYTES_def usize_max_def recount_cell_def builder_contents_def contents_of_def
        sample_builder_def set_text_def cell_bytes_def unwrap_or_def add_held_bytes_def check_held_bytes_def MAX_HELD_BYTES_def)
  then obtain T where T: "?run = (ENormal (VBoolean True), [], T)" "builder_contents T 0 = ''abc''" by blast
  have "store_ok 0 sample_builder \<and> only_builder 0 sample_builder"
    by (auto simp: store_ok_def sample_builder_def cells_sum_def contents_bytes_def contents_of_def cell_bytes_def unwrap_or_def
        addresses_def entries_bytes_def only_builder_def facts usize_max_def)
  then have "store_ok 0 T" using builder_methods_keep_counts [OF _ _ _ _ T(1), of 0] by (simp add: sample_builder_def usize_max_def)
  then show ?thesis using T by blast
qed

end
