(* ===== verification/Spec2Isabelle.thy ===== *)
theory Spec2Isabelle
  imports Record_Cursor Flow_Fields Filter_Round_Trip Calc_Formula Operators Date_Builtins Numeric_Builtins Scopes Shared_Contents Coverage_Data
  Variable_Storage Random_Gen Literals Whole_Run Free_Ids Replay_Engine Dap_Framing
  Dict_Methods Text_Builder
begin

text \<open>
  A verification development of the AL test interpreter, the crate \<^verbatim>\<open>crates/al-runtime\<close> of the AL language
  support for Zed.  The interpreter runs Business Central test codeunits without a server: it walks the syntax
  tree of an AL program, keeps the variables of every running procedure, answers the built-in functions of the
  language, and gives record variables an in-memory table in place of the database.  Three parts of other crates are
  modelled beside it: the allocation of free object numbers, the replay of recorded snapshots, and the framing of
  the debug adapter protocol.  Paths below are relative to \<^verbatim>\<open>src/crates/al-runtime/src\<close> unless they start with
  \<^verbatim>\<open>crates\<close>.

  \<^bold>\<open>How the parts work together.\<close>  A value (\<^verbatim>\<open>interpreter/value.rs\<close>) is what variables, arguments and table cells
  hold.  Values are compared by one total order, which the operators, the record filters and the keys of the
  tables share.  The scope stack (\<^verbatim>\<open>interpreter/scope.rs\<close>) holds the variables, and counts the bytes they own
  against the budget of the test.  A record variable is a view, with its own buffer, filters, sort order and
  cursor, on the rows of a table (\<^verbatim>\<open>mock/record.rs\<close>); the text of \<open>SetFilter\<close> goes through a parser
  (\<^verbatim>\<open>mock/filter.rs\<close>) whose result decides which rows the cursor visits; a FlowField is computed from the rows
  of another table, by a formula that a second parser reads (\<^verbatim>\<open>mock/calcformula_parser.rs\<close>).  The coverage
  collector (\<^verbatim>\<open>interpreter/coverage.rs\<close>) records what the evaluator runs.

  \<^bold>\<open>Theories.\<close>
  \<^item> \<open>Prelude\<close>, \<open>Strings\<close>, \<open>Ordered_Map\<close>: results as sums (\<open>Ok\<close>, \<open>Err\<close>), Rust's \<open>Ordering\<close>, character
    classes, trimming, decimal printing and parsing of integers, and the ordered map of the standard library as a
    sorted association list.  The interface of an order is a locale, interpreted once for the keys of a table
    and once for field numbers.
  \<^item> \<open>Calendar\<close>: civil dates to day numbers and back, weeks of the year.
  \<^item> \<open>Values\<close>, \<open>Value_Order\<close>, \<open>Value_Ops\<close>: the type of values, the comparison loop with its memory of the pairs
    already met (a cyclic list compares in finitely many steps), ownership in bytes, default values, and the
    conversion of a value into the slot of a declared variable.
  \<^item> \<open>Decimal_Instance\<close>: a concrete decimal arithmetic that satisfies the hypotheses on decimals; the samples that
    the witnesses use.
  \<^item> \<open>Filter_Expr\<close>, \<open>Filter_Round_Trip\<close>: the filter language, its recursive-descent parser, the matcher with
    wildcards; the parser reads back what the printer prints, with all parentheses and with as few as possible.
  \<^item> \<open>Record_Table\<close>, \<open>Record_Invariant\<close>, \<open>Record_Cursor\<close>: every operation of a table and of a view; the
    invariant (rows in key order, keys that agree with their rows, cells that are scalars) and that each operation
    keeps it; what the loops over a cursor read and delete.
  \<^item> \<open>Calc_Formula\<close>, \<open>Flow_Fields\<close>: the formula parser and its round trip, the aggregates.
  \<^item> \<open>Operators\<close>: unary and binary operators, overflow at the declared width, arithmetic of dates and times.
  \<^item> \<open>Text_Builtins\<close>, \<open>Date_Builtins\<close>, \<open>Numeric_Builtins\<close>, \<open>Random_Gen\<close>, \<open>Rendering\<close>: the built-in functions
    of \<^verbatim>\<open>interpreter/dispatch\<close>; \<open>Variable_Storage\<close> and \<open>Random_Gen\<close> also model the test libraries of \<^verbatim>\<open>stubs\<close>.
  \<^item> \<open>Byte_Budget\<close>, \<open>Scopes\<close>, \<open>Shared_Contents\<close>: the byte budget, the call frames on the stack and kept off it, and the
    reference-counted contents of Lists, Dictionaries and TextBuilders with the loop that drops them.
  \<^item> \<open>Coverage_Data\<close>: the collector, its merge and the MC/DC report.
  \<^item> \<open>Syntax_Tree\<close>, \<open>Literals\<close>: what the evaluator reads off a node, and the values of literals.  A tree is any
    value of the type \<open>node\<close> (kind, field name, byte range, row, text, children).
  \<^item> \<open>Interp_State\<close>: the state that the Rust functions share through their two mutable arguments, the scope stack
    and the dispatch context (record \<open>interp\<close>), the steps on it, and the record \<open>world\<close> of the parameters.
  \<^item> \<open>Operator_Chain\<close>, \<open>Indexing\<close>, \<open>Chains\<close>, \<open>Expressions\<close>: \<^verbatim>\<open>interpreter/eval_expr\<close>, \<^verbatim>\<open>indexing.rs\<close>,
    \<^verbatim>\<open>chain.rs\<close> and \<^verbatim>\<open>enums.rs\<close>: flat operator chains, elements, calls on values, enums, assignments.
  \<^item> \<open>Statements\<close>: \<^verbatim>\<open>interpreter/eval_stmt.rs\<close>, every statement with its coverage and its interruption tests.
  \<^item> \<open>Frames\<close>, \<open>Dispatch\<close>, \<open>Routing\<close>: \<^verbatim>\<open>interpreter/dispatch\<close>: declarations, binding of arguments, procedures of
    the workspace with overloads and kept globals, the order in which a call is resolved, the dialogs.
  \<^item> \<open>Table_Lookup\<close>, \<open>Table_Code\<close>, \<open>Events\<close>: \<^verbatim>\<open>dispatch/table_code.rs\<close> and \<^verbatim>\<open>dispatch/events.rs\<close>: the triggers and
    procedures of a table, run on a record with the globals that belong to it, and the subscribers of an event.
  \<^item> \<open>Interpreter\<close>: the mutually recursive functions tied together.  Each group above takes the functions it calls
    back as arguments (record \<open>callbacks\<close>); \<open>interpreter turns d W\<close> gives every call one level of depth less.
    \<open>dispatch_call\<close> runs a call on an empty scope stack of its own.
  \<^item> \<open>Run_Contract\<close>, \<open>Run_Exprs\<close>, \<open>Run_Stmts\<close>, \<open>Run_Calls\<close>, \<open>Whole_Run\<close>: one contract, a locale, for every
    function of the evaluator: from a state at a place it ends, if it ends, in a state at the same place, and
    with a larger fuel in the same one.  It is interpreted on the real call stack twice: for runs that may not end and
    for runs under a deadline, which must.
  \<^item> \<open>List_Methods\<close>, \<open>Dict_Methods\<close>, \<open>Text_Methods\<close>, \<open>Text_Builder\<close>: the methods called on a List, a Dictionary, a text
    and a TextBuilder (\<^verbatim>\<open>interpreter/records/collection_methods.rs\<close>), on a store that keeps the contents by address, the
    bytes each of them has counted and the total of the test.  On every branch the counts stay exact, and a refused
    call changes nothing; a Dictionary is a map over the texts of its keys; Split and Replace fit together.
  \<^item> \<open>Free_Ids\<close>: the free object IDs, field numbers and enum ordinals of a workspace
    (\<^verbatim>\<open>crates/al-analysis/src/queries/free_ids.rs\<close>), down to the numbers declared in a syntax tree: what is allocated is free,
    and no smaller free number is passed over.
  \<^item> \<open>Replay_Engine\<close>: the walk over a recorded snapshot (\<^verbatim>\<open>crates/al-dap/src/dap/native_dap/replay/engine.rs\<close>): the moves
    stay in the recording, Continue visits what waits, and steps follow the recorded calls.
  \<^item> \<open>Dap_Framing\<close>: reading and writing of protocol frames (\<^verbatim>\<open>crates/al-dap/src/dap/framing.rs\<close>): written frames are read
    back, a truncated one is refused.
  \<^item> this theory: properties that span components.

  \<^bold>\<open>Modelling.\<close>  A Rust struct is a record, an enum a datatype, a \<open>Result\<close> a sum with the error on the left, a
  method with a mutable receiver a function that returns the changed state.  A \<open>BTreeMap\<close> is a sorted association
  list, a \<open>HashMap\<close> whose order no result depends on an association list without double keys.  Integers are
  mathematical integers with the bounds of \<open>i32\<close>, \<open>i64\<close> and \<open>usize\<close> tested where the code tests them, and words
  of 64 bits where the code wraps (the random generators, the counters of the coverage).  Where the code adds \<open>i64\<close>s
  without a test a sum outside has no result: \<open>Free_Ids\<close> returns \<open>None\<close> then, and its properties say when.  The one
  exception is \<open>calc_date\<close>, which computes without bounds and on which no property rests.  A Rust \<open>char\<close> is an
  Isabelle character, so texts are over U+0000 to U+00FF and the case functions are those of that range.
  The decimal arithmetic of the \<^verbatim>\<open>rust_decimal\<close> crate is a parameter, a record of its operations, and a property
  that relies on it names what it relies on as a hypothesis (\<open>dec_exact\<close> and the like), which
  \<open>Decimal_Instance\<close> satisfies.  The wall clock and the rounding of that crate are parameters in the same way.

  \<^bold>\<open>Loops and fuel.\<close>  Recursive definitions end by structure or by a measure.  The drop loop ends because each
  round takes values out of the heap; the parsers end because each call consumes input.  \<open>render_depth\<close> takes a
  depth of two, which is enough because a standard format never names another (\<open>render_depth_enough\<close>).
  The evaluator takes two numbers, the turns of each loop and the depth of calls between its functions, and
  returns None when one is used up.  A run that the clock or the cancel flag stops at tick \<open>N\<close> ends with \<open>N + 1\<close>
  turns and a depth of 11265, which is twice the sum of the limits on the nesting of expressions and statements (2560
  each) and on the recursion of calls (512), and one (\<open>run_ends_by_deadline\<close>); more fuel never changes a result
  (\<open>more_fuel_same_result\<close>).
  The loop \<open>repeat_until_next\<close> takes as fuel the number of selected rows, and the properties state that it
  then returns.

  \<^bold>\<open>Parameters of the evaluator.\<close>  The record \<open>world\<close> holds what the evaluator calls and this development does not
  tie to it: the cancel flag, the deadline and the clock (each look and each reading is numbered, so two readings may
  differ); the tree-sitter parser and what the workspace is read through; the attributes of a declaration and the
  index of event subscribers built from them; the methods of records and their fields; the calls of the methods of
  collections and texts (the methods themselves are in \<open>List_Methods\<close> and its siblings, on a state of their own); the
  stubs of library codeunits; the handler functions of a test; the decimal operations.  Of these only the methods of
  records come back to the evaluator: they evaluate arguments, run the triggers of their table and raise its events, and
  are given the callbacks for it; stubs and methods of values take values and return values.  Properties of whole
  runs assume \<open>orderly\<close>: a record method keeps the stack, and returns, \<^emph>\<open>provided what it runs of the program does\<close>,
  which is not assumed but proved; the operations that run nothing of the program leave the stack alone.  The byte
  count of the state (\<open>held\<close>) is that of the frames; that of shared contents is the subject of \<open>Shared_Contents\<close>.  Node
  texts are taken to be valid UTF-8.

  \<^bold>\<open>Not modelled.\<close>  The parser of AL source (a generated tree-sitter grammar), the language server, the package reader, the
  command line, the project and workspace handling, the other queries of the editor, and the debug adapter but for
  its framing and its replay engine: they are file, process and protocol code around libraries that are not part of
  the repository, or walk the generated grammar.  Of the framing, the numbering of messages that patches their JSON
  text is left out, and so are read errors of the socket.
\<close>

section \<open>Filters read by a record loop\<close>

text \<open>The number in a field of a row, where an unassigned cell counts as zero.\<close>

definition cell_number :: "field_no \<Rightarrow> 'd row \<Rightarrow> int option" where
  "cell_number f r =
     (case row_get r f of
        None \<Rightarrow> Some 0
      | Some VEmpty \<Rightarrow> Some 0
      | Some (VInteger n) \<Rightarrow> Some n
      | Some (VBigInteger n) \<Rightarrow> Some n
      | Some _ \<Rightarrow> None)"

definition between_rows :: "field_no \<Rightarrow> int \<Rightarrow> int \<Rightarrow> 'd row \<Rightarrow> bool" where
  "between_rows f lo hi r = (case cell_number f r of None \<Rightarrow> False | Some n \<Rightarrow> lo \<le> n \<and> n \<le> hi)"

lemma range_matches_row:
  assumes "dec_exact (dec E)" "cell_number f r \<noteq> None"
  shows "row_matches_filters E [(f, FieldExpr (Atom (Range (OInteger lo) (OInteger hi))))] r \<longleftrightarrow> between_rows f lo hi r"
  using assms
  by (auto simp: row_matches_filters_def between_rows_def cell_number_def cmp_value_def is_some_and_def dec_cmp_def
      dec_exact_def not_less split: option.splits val.splits)

lemma rows_read:
  assumes "table_ok E T"
  shows "mset (map (row_at E T) (matching_keys_in E T v)) = mset (map snd (selected E T v))"
proof -
  have "row_at E T k = r" if "(k, r) \<in> set (selected E T v)" for k r
    using keys.get_self [OF table_ok_D(1) [OF assms], of k r] that by (auto simp: selected_def row_at_def)
  then have "map (row_at E T) (map fst (selected E T v)) = map snd (selected E T v)" by auto
  with arg_cong [OF mset_matching, of "image_mset (row_at E T)" E T v] show ?thesis
    unfolding mset_map [symmetric] by (simp only:)
qed

text \<open>
  C15: the filter text, the filter parser, the table and the cursor together.  \<open>SetFilter(f, 'lo..hi')\<close> on an
  unfiltered record followed by \<open>if FindSet then repeat ... until Next() = 0\<close> reads exactly the rows
  whose number lies in the range, each once, and the loop ends.
\<close>

theorem filtered_loop_reads_range:
  assumes "table_ok E T" and "dec_exact (dec E)" and "in_i64 lo" and "in_i64 hi" and "filters v = []"
    and "\<forall>(k, r) \<in> set (rows T). cell_number f r \<noteq> None"
    and "\<exists>(k, r) \<in> set (rows T). between_rows f lo hi r"
  shows "\<exists>v0 v1 v2 rs. set_filter_in E f (show_int lo @ ''..'' @ show_int hi) v = (Ok (), v0) \<and>
    find_set_in E T v0 = (Ok True, v1) \<and>
    repeat_until_next (count_in E T v0) E read_row T v1 = Some (Ok rs, T, v2) \<and>
    mset rs = mset (filter (between_rows f lo hi) (map snd (rows T)))"
proof -
  let ?e = "Atom (Range (OInteger lo) (OInteger hi))"
  let ?v = "put_filter f (FieldExpr ?e) v"
  have set: "set_filter_in E f (show_int lo @ ''..'' @ show_int hi) v = (Ok (), ?v)"
    unfolding set_filter_in_def parse_int_range [OF assms(3,4)] by simp
  have "filters ?v = [(f, FieldExpr ?e)]" using assms(5) by (simp add: put_filter_def)
  then have sel: "selected E T ?v = filter (\<lambda>(_, r). between_rows f lo hi r) (rows T)"
    using assms(6) range_matches_row [OF assms(2)] by (auto simp: selected_def intro!: filter_cong)
  then have rs: "mset (map (row_at E T) (matching_keys_in E T ?v)) = mset (filter (between_rows f lo hi) (map snd (rows T)))"
    using rows_read [OF assms(1)] by (simp add: filter_map o_def case_prod_unfold)
  have "matching_keys_in E T ?v \<noteq> []"
    using assms(7) sel set_matching [of E T ?v] by (auto simp: filter_empty_conv)
  from read_loop_all_rows [OF assms(1) this] set rs show ?thesis by blast
qed

lemma filtered_loop_reads_range_witness:
  "\<exists>v0 v1 v2. set_filter_in sample_env 2 ''6..9'' (new_view two_rows) = (Ok (), v0) \<and>
     find_set_in sample_env two_rows v0 = (Ok True, v1) \<and>
     repeat_until_next (count_in sample_env two_rows v0) sample_env read_row two_rows v1 =
       Some (Ok [[(1, VCode ''A''), (2, VInteger 7)]], two_rows, v2)"
proof -
  have rows: "rows two_rows = [([VCode ''A''], [(1, VCode ''A''), (2, VInteger 7)]), ([VCode ''B''], [(1, VCode ''B''), (2, VInteger 5)])]"
    by code_simp
  have digits: "show_int 6 = ''6''" "show_int 9 = ''9''" by code_simp+
  have "filters (new_view two_rows) = []" by (simp add: new_view_def default_view_def)
  moreover have "in_i64 6" "in_i64 9" by (simp_all add: int_range_defs)
  moreover have "\<forall>(k, r) \<in> set (rows two_rows). cell_number 2 r \<noteq> None"
    "\<exists>(k, r) \<in> set (rows two_rows). between_rows 2 6 9 r"
    "filter (between_rows 2 6 9) (map snd (rows two_rows)) = [[(1, VCode ''A''), (2, VInteger 7)]]"
    unfolding rows by code_simp+
  ultimately show ?thesis
    using filtered_loop_reads_range [OF two_rows_ok, of 6 9 "new_view two_rows" 2] sample_decimal_exact
    by (simp add: digits)
qed

end
